(* ===== verification/CloopPrelude.thy ===== *)
theory CloopPrelude
  imports Main "HOL-Library.Multiset" "HOL-Library.List_Lexorder" "HOL-Library.Char_ord"
begin

text \<open>
  Vocabulary shared by every component of the development.

  \<^item> Times. A Go \<open>time.Time\<close> is an \<open>int\<close>: nanoseconds since Go's zero time (1 January of
    year 1, UTC), so that \<open>IsZero\<close> is equality with 0, \<open>Before\<close> and \<open>After\<close> are the order of
    \<open>int\<close>, and a \<open>*time.Time\<close> is an option. A \<open>time.Duration\<close> is an \<open>int\<close> of nanoseconds;
    \<open>Time.Sub\<close> saturates at 64 bits as the library documents.
  \<^item> Sorting. \<open>sort.SliceStable\<close> is modelled by the insertion sort the Go library runs on
    blocks of at most 20 elements; for a comparison that is a strict weak order the result of
    any stable sort is the same list, which is what the locale \<open>strict_weak_order\<close> shows.
  \<^item> Automation. \<open>go_sort_simps\<close> collects the facts about the sort that component proofs use.
\<close>

named_theorems go_sort_simps "what a stable sort keeps of its input"
named_theorems state_simps "state predicates of the components, unfolded by the case proofs"

section \<open>Times\<close>

type_synonym time = int
type_synonym duration = int

definition max_int64 :: int where "max_int64 = 9223372036854775807"
definition min_int64 :: int where "min_int64 = - 9223372036854775808"

definition time_sub :: "time \<Rightarrow> time \<Rightarrow> duration" where
  "time_sub t u = (if t - u > max_int64 then max_int64
                   else if t - u < min_int64 then min_int64 else t - u)"

definition go_second :: duration where "go_second = 1000000000"
definition go_minute :: duration where "go_minute = 60 * go_second"
definition go_hour :: duration where "go_hour = 60 * go_minute"

lemma time_sub_small:
  "min_int64 \<le> t - u \<Longrightarrow> t - u \<le> max_int64 \<Longrightarrow> time_sub t u = t - u"
  by (simp add: time_sub_def)

lemma time_sub_gt_iff: "0 \<le> d \<Longrightarrow> d < max_int64 \<Longrightarrow> time_sub t u > d \<longleftrightarrow> t - u > d"
  by (auto simp: time_sub_def max_int64_def min_int64_def)

section \<open>Stable sorting\<close>

text \<open>
  One step of Go's insertion sort: the new element moves left past every element it is lt
  than, and stops at the first one it is not. The prefix sorted so far is held in reverse.
\<close>

fun ins_back :: "('a \<Rightarrow> 'a \<Rightarrow> bool) \<Rightarrow> 'a \<Rightarrow> 'a list \<Rightarrow> 'a list" where
  "ins_back lt x [] = [x]"
| "ins_back lt x (y # ys) = (if lt x y then y # ins_back lt x ys else x # y # ys)"

definition go_stable_sort :: "('a \<Rightarrow> 'a \<Rightarrow> bool) \<Rightarrow> 'a list \<Rightarrow> 'a list" where
  "go_stable_sort lt xs = rev (fold (ins_back lt) xs [])"

lemma mset_ins_back [simp]: "mset (ins_back lt x ys) = add_mset x (mset ys)"
  by (induction ys) auto

lemma mset_fold_ins_back: "mset (fold (ins_back lt) xs acc) = mset xs + mset acc"
  by (induction xs arbitrary: acc) auto

lemma mset_go_stable_sort [simp, go_sort_simps]: "mset (go_stable_sort lt xs) = mset xs"
  by (simp add: go_stable_sort_def mset_fold_ins_back)

lemma set_go_stable_sort [simp, go_sort_simps]: "set (go_stable_sort lt xs) = set xs"
  by (metis mset_go_stable_sort set_mset_mset)

lemma length_go_stable_sort [simp, go_sort_simps]: "length (go_stable_sort lt xs) = length xs"
  by (metis mset_go_stable_sort size_mset)

lemma go_stable_sort_empty [simp, go_sort_simps]: "go_stable_sort lt xs = [] \<longleftrightarrow> xs = []"
  by (metis length_0_conv length_go_stable_sort)

text \<open>Sorting by what a function makes of the elements is sorting its results.\<close>

lemma map_ins_back:
  "map f (ins_back (\<lambda>i j. lt (f i) (f j)) x ys) = ins_back lt (f x) (map f ys)"
  by (induction ys) auto

lemma map_go_stable_sort:
  "map f (go_stable_sort (\<lambda>i j. lt (f i) (f j)) xs) = go_stable_sort lt (map f xs)"
proof -
  have "map f (fold (ins_back (\<lambda>i j. lt (f i) (f j))) xs acc) = fold (ins_back lt) (map f xs) (map f acc)"
    for acc by (induction xs arbitrary: acc) (auto simp: map_ins_back)
  from this [of "[]"] show ?thesis by (simp add: go_stable_sort_def rev_map [symmetric])
qed

locale strict_weak_order =
  fixes lt :: "'a \<Rightarrow> 'a \<Rightarrow> bool"
  assumes asym: "lt a b \<Longrightarrow> \<not> lt b a"
    and ntrans: "\<not> lt a b \<Longrightarrow> \<not> lt b c \<Longrightarrow> \<not> lt a c"
begin

text \<open>\<open>in_order a b\<close>: the element \<open>a\<close> may stand before \<open>b\<close> in a sorted list.\<close>

definition in_order :: "'a \<Rightarrow> 'a \<Rightarrow> bool" where
  "in_order a b \<longleftrightarrow> \<not> lt b a"

lemma irrefl: "\<not> lt a a"
  using asym by blast

lemma trans: "lt a b \<Longrightarrow> lt b c \<Longrightarrow> lt a c"
  using asym ntrans by blast

lemma sorted_ins_back:
  "sorted_wrt (\<lambda>a b. in_order b a) ys \<Longrightarrow> sorted_wrt (\<lambda>a b. in_order b a) (ins_back lt x ys)"
proof (induction ys)
  case Nil
  then show ?case by simp
next
  case (Cons y ys)
  have set_ins: "set (ins_back lt x ys) = insert x (set ys)"
    by (metis mset_ins_back set_mset_add_mset_insert set_mset_mset)
  show ?case
  proof (cases "lt x y")
    case True
    with Cons show ?thesis by (auto simp: set_ins in_order_def dest: asym)
  next
    case False
    with Cons show ?thesis by (auto simp: in_order_def dest: ntrans)
  qed
qed

lemma sorted_fold_ins_back:
  "sorted_wrt (\<lambda>a b. in_order b a) acc \<Longrightarrow>
   sorted_wrt (\<lambda>a b. in_order b a) (fold (ins_back lt) xs acc)"
  by (induction xs arbitrary: acc) (auto intro: sorted_ins_back)

lemma sorted_sort: "sorted_wrt in_order (go_stable_sort lt xs)"
  using sorted_fold_ins_back [of "[]" xs] by (simp add: go_stable_sort_def sorted_wrt_rev)

lemma hd_minimal: "x \<in> set xs \<Longrightarrow> \<not> lt x (hd (go_stable_sort lt xs))"
proof -
  assume x: "x \<in> set xs"
  then obtain y ys where eq: "go_stable_sort lt xs = y # ys"
    by (metis empty_iff go_stable_sort_empty list.exhaust list.set(1))
  with x have "x = y \<or> x \<in> set ys" by (metis set_ConsD set_go_stable_sort)
  with eq sorted_sort [of xs] show ?thesis by (auto simp: in_order_def irrefl)
qed

text \<open>Elements the order does not separate keep the order they had.\<close>

lemma ins_back_filter_other:
  "\<not> P x \<Longrightarrow> filter P (ins_back lt x ys) = filter P ys"
  by (induction ys) auto

lemma ins_back_filter_same:
  assumes "sorted_wrt (\<lambda>a b. in_order b a) ys" and "P x"
    and "\<And>y. y \<in> set ys \<Longrightarrow> P y \<Longrightarrow> \<not> lt x y"
  shows "filter P (ins_back lt x ys) = x # filter P ys"
  using assms
proof (induction ys)
  case Nil
  then show ?case by simp
next
  case (Cons y ys)
  then show ?case by (cases "lt x y") auto
qed

lemma fold_ins_back_filter:
  assumes "sorted_wrt (\<lambda>a b. in_order b a) acc"
    and "\<And>x y. P x \<Longrightarrow> P y \<Longrightarrow> \<not> lt x y"
  shows "filter P (fold (ins_back lt) xs acc) = rev (filter P xs) @ filter P acc"
  using assms(1)
proof (induction xs arbitrary: acc)
  case Nil
  then show ?case by simp
next
  case (Cons x xs)
  have "filter P (ins_back lt x acc) = (if P x then x # filter P acc else filter P acc)"
    using Cons.prems assms(2) by (simp add: ins_back_filter_other ins_back_filter_same)
  with Cons.IH [OF sorted_ins_back [OF Cons.prems]] show ?case by simp
qed

lemma stable:
  assumes "\<And>x y. P x \<Longrightarrow> P y \<Longrightarrow> \<not> lt x y"
  shows "filter P (go_stable_sort lt xs) = filter P xs"
  using fold_ins_back_filter [of "[]" P xs] assms
  by (simp add: go_stable_sort_def rev_filter [symmetric])

text \<open>A sorted arrangement of elements the order separates pairwise is unique.\<close>

lemma sorted_unique:
  assumes "mset xs = mset ys" and "sorted_wrt in_order xs" and "sorted_wrt in_order ys"
    and "\<And>a b. a \<in> set xs \<Longrightarrow> b \<in> set xs \<Longrightarrow> a \<noteq> b \<Longrightarrow> lt a b \<or> lt b a"
  shows "xs = ys"
  using assms
proof (induction xs arbitrary: ys)
  case Nil
  then show ?case by simp
next
  case (Cons x xs)
  from Cons.prems(1) obtain y zs where ys: "ys = y # zs"
    by (metis list.exhaust mset.simps(1) mset_zero_iff)
  have sets: "set (x # xs) = set (y # zs)"
    using Cons.prems(1) ys by (metis set_mset_mset)
  have "x = y"
  proof (rule ccontr)
    assume ne: "x \<noteq> y"
    with sets have "y \<in> set xs" and "x \<in> set zs" by (metis set_ConsD list.set_intros(1))+
    with Cons.prems(2,3) ys have "\<not> lt y x" and "\<not> lt x y"
      by (auto simp: in_order_def)
    moreover have "lt x y \<or> lt y x"
      using Cons.prems(4) ne \<open>y \<in> set xs\<close> by (meson list.set_intros)
    ultimately show False by blast
  qed
  moreover have "xs = zs"
    using Cons.prems ys \<open>x = y\<close> by (intro Cons.IH) auto
  ultimately show ?case using ys by simp
qed

lemma sort_order_independent:
  assumes "mset xs = mset ys"
    and "\<And>a b. a \<in> set xs \<Longrightarrow> b \<in> set xs \<Longrightarrow> a \<noteq> b \<Longrightarrow> lt a b \<or> lt b a"
  shows "go_stable_sort lt xs = go_stable_sort lt ys"
  using assms by (intro sorted_unique) (auto intro: sorted_sort)

end

text \<open>
  A comparison that need not be transitive still sorts by every key it never contradicts.
\<close>

lemma ins_back_coarse:
  fixes k :: "'a \<Rightarrow> 'b::linorder"
  assumes "\<And>a b. k a < k b \<Longrightarrow> lt a b" and "\<And>a b. lt a b \<Longrightarrow> k a \<le> k b"
    and "sorted_wrt (\<lambda>a b. k b \<le> k a) ys"
  shows "sorted_wrt (\<lambda>a b. k b \<le> k a) (ins_back lt x ys)"
  using assms(3)
proof (induction ys)
  case Nil
  then show ?case by simp
next
  case (Cons y ys)
  have set_ins: "set (ins_back lt x ys) = insert x (set ys)"
    by (metis mset_ins_back set_mset_add_mset_insert set_mset_mset)
  show ?case
  proof (cases "lt x y")
    case True
    with Cons assms(2) show ?thesis by (auto simp: set_ins)
  next
    case False
    then have "k y \<le> k x" using assms(1) by (meson not_le)
    with Cons.prems False show ?thesis by force
  qed
qed

lemma go_stable_sort_coarse:
  fixes k :: "'a \<Rightarrow> 'b::linorder"
  assumes "\<And>a b. k a < k b \<Longrightarrow> lt a b" and "\<And>a b. lt a b \<Longrightarrow> k a \<le> k b"
  shows "sorted_wrt (\<lambda>a b. k a \<le> k b) (go_stable_sort lt xs)"
proof -
  have "sorted_wrt (\<lambda>a b. k b \<le> k a) (fold (ins_back lt) xs acc)"
    if "sorted_wrt (\<lambda>a b. k b \<le> k a) acc" for acc
    using that
  proof (induction xs arbitrary: acc)
    case Nil
    then show ?case by simp
  next
    case (Cons x xs)
    show ?case unfolding fold_simps
      by (rule Cons.IH) (rule ins_back_coarse [of k, OF assms Cons.prems])
  qed
  from this [of "[]"] show ?thesis by (simp add: go_stable_sort_def sorted_wrt_rev)
qed

text \<open>
  Comparing by a key into a linear order is a strict weak order: the shape of every
  "sort by ID", "sort by time" of the code.
\<close>

definition lt_by :: "('a \<Rightarrow> 'b::linorder) \<Rightarrow> 'a \<Rightarrow> 'a \<Rightarrow> bool" where
  "lt_by k a b \<longleftrightarrow> k a < k b"

interpretation by_key: strict_weak_order "lt_by k"
  for k :: "'a \<Rightarrow> 'b::linorder"
  by unfold_locales (auto simp: lt_by_def)

section \<open>Lists\<close>

text \<open>The last index that satisfies a predicate: what a map filled by a loop over a slice
  keeps when a key occurs twice.\<close>

fun last_index_from :: "nat \<Rightarrow> ('a \<Rightarrow> bool) \<Rightarrow> 'a list \<Rightarrow> nat option" where
  "last_index_from i P [] = None"
| "last_index_from i P (x # xs) =
     (case last_index_from (Suc i) P xs of
        Some j \<Rightarrow> Some j
      | None \<Rightarrow> if P x then Some i else None)"

definition last_index :: "('a \<Rightarrow> bool) \<Rightarrow> 'a list \<Rightarrow> nat option" where
  "last_index P xs = last_index_from 0 P xs"

lemma last_index_from_Some:
  "last_index_from i P xs = Some j \<Longrightarrow> i \<le> j \<and> j < i + length xs \<and> P (xs ! (j - i))"
proof (induction xs arbitrary: i)
  case Nil
  then show ?case by simp
next
  case (Cons x xs)
  show ?case
  proof (cases "last_index_from (Suc i) P xs")
    case None
    with Cons.prems show ?thesis by (auto split: if_splits)
  next
    case (Some k)
    with Cons.prems have "k = j" by simp
    with Some have "last_index_from (Suc i) P xs = Some j" by simp
    with Cons.IH have "Suc i \<le> j \<and> j < Suc i + length xs \<and> P (xs ! (j - Suc i))" by blast
    then show ?thesis by (auto simp: nth_Cons')
  qed
qed

lemma last_index_Some: "last_index P xs = Some j \<Longrightarrow> j < length xs \<and> P (xs ! j)"
  unfolding last_index_def by (drule last_index_from_Some) simp

lemma last_index_from_None: "last_index_from i P xs = None \<longleftrightarrow> (\<forall>x \<in> set xs. \<not> P x)"
  proof (induction xs arbitrary: i)
  case Nil
  then show ?case by simp
next
  case (Cons x xs)
  from Cons.IH [of "Suc i"] show ?case by (auto split: option.splits)
qed

lemma last_index_None: "last_index P xs = None \<longleftrightarrow> (\<forall>x \<in> set xs. \<not> P x)"
  by (simp add: last_index_def last_index_from_None)

lemma find_Some_in: "find P xs = Some x \<Longrightarrow> x \<in> set xs \<and> P x"
  by (auto simp: find_Some_iff)

text \<open>With distinct keys, writing at one index is a map over the list.\<close>

lemma list_update_by_key:
  assumes "distinct (map k xs)" and "j < length xs"
  shows "xs[j := y] = map (\<lambda>x. if k x = k (xs ! j) then y else x) xs"
proof (rule nth_equalityI)
  fix i
  assume "i < length (xs[j := y])"
  then have i: "i < length xs" by simp
  have "k (xs ! i) = k (xs ! j) \<longleftrightarrow> i = j"
    using assms i by (metis length_map nth_eq_iff_index_eq nth_map)
  then show "xs[j := y] ! i = map (\<lambda>x. if k x = k (xs ! j) then y else x) xs ! i"
    using i by (simp add: nth_list_update)
qed simp

lemma map_list_update_key:
  "j < length xs \<Longrightarrow> k y = k (xs ! j) \<Longrightarrow> map k (xs[j := y]) = map k xs"
  by (simp add: map_update list_update_same_conv)

section \<open>Interfaces shared by components\<close>

text \<open>
  A switch that configuration can only tighten: \<open>apply c s\<close> is the switch after one
  configuration has been applied, \<open>tighter s t\<close> says that \<open>t\<close> is at least as strict as \<open>s\<close>.
\<close>

locale ratchet =
  fixes apply_cfg :: "'c \<Rightarrow> 's \<Rightarrow> 's" and tighter :: "'s \<Rightarrow> 's \<Rightarrow> bool"
  assumes tighter_refl: "tighter s s"
    and tighter_trans: "tighter s t \<Longrightarrow> tighter t u \<Longrightarrow> tighter s u"
    and apply_tightens: "tighter s (apply_cfg c s)"
begin

lemma fold_tightens: "tighter s (fold apply_cfg cs s)"
proof (induction cs arbitrary: s)
  case Nil
  then show ?case by (simp add: tighter_refl)
next
  case (Cons c cs)
  from tighter_trans [OF apply_tightens Cons.IH] show ?case by simp
qed

text \<open>Once a configuration has been applied, whatever is applied later keeps its effect.\<close>

lemma later_keeps: "tighter (apply_cfg c s) (fold apply_cfg (cs @ c # ds) s')"
  if "tighter (apply_cfg c s) (apply_cfg c (fold apply_cfg cs s'))"
proof -
  have "tighter (apply_cfg c (fold apply_cfg cs s')) (fold apply_cfg ds (apply_cfg c (fold apply_cfg cs s')))"
    by (rule fold_tightens)
  with that show ?thesis by (auto intro: tighter_trans)
qed

end

text \<open>A step relation with an invariant every step preserves.\<close>

locale preserved =
  fixes step :: "'s \<Rightarrow> 's \<Rightarrow> bool" and inv :: "'s \<Rightarrow> bool"
  assumes step_keeps: "inv s \<Longrightarrow> step s t \<Longrightarrow> inv t"
begin

lemma steps_keep: "step\<^sup>*\<^sup>* s t \<Longrightarrow> inv s \<Longrightarrow> inv t"
  by (induction rule: rtranclp_induct) (auto intro: step_keeps)

end

end
