(* ===== verification/GoStrings.thy ===== *)
theory GoStrings
  imports CloopPrelude
begin

text \<open>
  The functions of Go's \<open>strings\<close> and \<open>strconv\<close> packages the modelled code calls, over byte
  strings (\<open>string\<close> is a list of 8-bit characters, as a Go string is a list of bytes).
  Case folding and white space are those of the ASCII range: the identifiers this code folds
  (harness names, platforms, roles, claim names) are ASCII, and a byte at or above 128 is left
  alone.
\<close>

section \<open>Characters\<close>

definition byte_val :: "char \<Rightarrow> nat" where
  "byte_val c = of_char c"

definition is_space :: "char \<Rightarrow> bool" where
  "is_space c \<longleftrightarrow> byte_val c = 32 \<or> (9 \<le> byte_val c \<and> byte_val c \<le> 13)"

definition lower_char :: "char \<Rightarrow> char" where
  "lower_char c = (if 65 \<le> byte_val c \<and> byte_val c \<le> 90 then char_of (byte_val c + 32) else c)"

definition digit_val :: "char \<Rightarrow> nat option" where
  "digit_val c = (if 48 \<le> byte_val c \<and> byte_val c \<le> 57 then Some (byte_val c - 48) else None)"

definition digit_char :: "nat \<Rightarrow> char" where
  "digit_char n = char_of (48 + n)"

lemma byte_val_char_of: "n < 256 \<Longrightarrow> byte_val (char_of n) = n"
  by (simp add: byte_val_def)

lemma digit_val_digit_char: "n < 10 \<Longrightarrow> digit_val (digit_char n) = Some n"
  by (simp add: digit_val_def digit_char_def byte_val_char_of)

lemma lower_char_idem [simp]: "lower_char (lower_char c) = lower_char c"
  by (simp add: lower_char_def byte_val_char_of)

section \<open>Prefixes, suffixes, search\<close>

definition has_prefix :: "string \<Rightarrow> string \<Rightarrow> bool" where
  "has_prefix s p \<longleftrightarrow> take (length p) s = p"

definition has_suffix :: "string \<Rightarrow> string \<Rightarrow> bool" where
  "has_suffix s p \<longleftrightarrow> has_prefix (rev s) (rev p)"

definition trim_prefix :: "string \<Rightarrow> string \<Rightarrow> string" where
  "trim_prefix s p = (if has_prefix s p then drop (length p) s else s)"

definition cut_suffix :: "string \<Rightarrow> string \<Rightarrow> string option" where
  "cut_suffix s p = (if has_suffix s p then Some (take (length s - length p) s) else None)"

fun contains :: "string \<Rightarrow> string \<Rightarrow> bool" where
  "contains [] sub \<longleftrightarrow> sub = []"
| "contains (c # s) sub \<longleftrightarrow> has_prefix (c # s) sub \<or> contains s sub"

lemma has_prefix_iff: "has_prefix s p \<longleftrightarrow> (\<exists>r. s = p @ r)"
  unfolding has_prefix_def by (metis append_eq_conv_conj append_take_drop_id)

lemma has_suffix_iff: "has_suffix s p \<longleftrightarrow> (\<exists>r. s = r @ p)"
proof -
  have "has_suffix s p \<longleftrightarrow> (\<exists>r. rev s = rev p @ r)" by (simp add: has_suffix_def has_prefix_iff)
  also have "\<dots> \<longleftrightarrow> (\<exists>r. s = r @ p)" by (metis rev_append rev_rev_ident)
  finally show ?thesis .
qed

lemma cut_suffix_Some: "cut_suffix s p = Some r \<longleftrightarrow> s = r @ p"
  by (auto simp: cut_suffix_def has_suffix_iff)

lemma cut_suffix_None: "cut_suffix s p = None \<longleftrightarrow> \<not> has_suffix s p"
  by (auto simp: cut_suffix_def)

lemma contains_iff: "contains s sub \<longleftrightarrow> (\<exists>a b. s = a @ sub @ b)"
proof (induction s)
  case Nil
  then show ?case by auto
next
  case (Cons c s)
  have "(\<exists>a b. c # s = a @ sub @ b) \<longleftrightarrow> (\<exists>b. c # s = sub @ b) \<or> (\<exists>a b. s = a @ sub @ b)"
    (is "?l \<longleftrightarrow> ?r")
  proof
    assume ?l
    then obtain a b where ab: "c # s = a @ sub @ b" by blast
    show ?r
    proof (cases a)
      case Nil
      with ab show ?thesis by auto
    next
      case (Cons x xs)
      with ab have "s = xs @ sub @ b" by simp
      then show ?thesis by blast
    qed
  next
    assume ?r
    then show ?l by (metis append_Nil append_Cons)
  qed
  then show ?case using Cons.IH by (simp add: has_prefix_iff)
qed

section \<open>White space, splitting and joining\<close>

definition trim_space :: "string \<Rightarrow> string" where
  "trim_space s = rev (dropWhile is_space (rev (dropWhile is_space s)))"

fun split_on :: "char \<Rightarrow> string \<Rightarrow> string list" where
  "split_on c [] = [[]]"
| "split_on c (x # s) =
     (if x = c then [] # split_on c s
      else case split_on c s of [] \<Rightarrow> [[x]] | p # ps \<Rightarrow> (x # p) # ps)"

text \<open>\<open>strings.IndexByte\<close> followed by the two slices around it.\<close>

fun cut_at :: "char \<Rightarrow> string \<Rightarrow> (string \<times> string) option" where
  "cut_at c [] = None"
| "cut_at c (x # s) =
     (if x = c then Some ([], s)
      else case cut_at c s of None \<Rightarrow> None | Some (a, b) \<Rightarrow> Some (x # a, b))"

fun fields_acc :: "string \<Rightarrow> string \<Rightarrow> string list" where
  "fields_acc w [] = (if w = [] then [] else [rev w])"
| "fields_acc w (c # s) =
     (if is_space c then (if w = [] then fields_acc [] s else rev w # fields_acc [] s)
      else fields_acc (c # w) s)"

definition go_fields :: "string \<Rightarrow> string list" where
  "go_fields s = fields_acc [] s"

fun join :: "string \<Rightarrow> string list \<Rightarrow> string" where
  "join sep [] = []"
| "join sep [x] = x"
| "join sep (x # y # xs) = x @ sep @ join sep (y # xs)"

lemma split_on_not_Nil [simp]: "split_on c s \<noteq> []"
  by (induction s) (auto split: list.splits)

lemma split_on_no_sep: "p \<in> set (split_on c s) \<Longrightarrow> c \<notin> set p"
  by (induction s arbitrary: p) (auto split: list.splits if_splits)

lemma split_on_single: "c \<notin> set s \<Longrightarrow> split_on c s = [s]"
  by (induction s) auto

lemma join_split_on: "join [c] (split_on c s) = s"
proof (induction s)
  case Nil
  then show ?case by simp
next
  case (Cons x s)
  obtain p ps where sp: "split_on c s = p # ps" by (meson split_on_not_Nil neq_Nil_conv)
  then show ?case using Cons.IH by (cases ps) auto
qed

lemma cut_at_Some: "cut_at c s = Some (a, b) \<Longrightarrow> s = a @ c # b \<and> c \<notin> set a"
  by (induction s arbitrary: a) (auto split: if_splits option.splits)

lemma cut_at_None: "cut_at c s = None \<longleftrightarrow> c \<notin> set s"
  by (induction s) (auto split: option.splits)

lemma set_trim_space: "set (trim_space s) \<subseteq> set s"
  proof
  fix x
  assume "x \<in> set (trim_space s)"
  then have "x \<in> set (dropWhile is_space (rev (dropWhile is_space s)))" by (simp add: trim_space_def)
  then have "x \<in> set (dropWhile is_space s)" by (metis set_dropWhileD set_rev)
  then show "x \<in> set s" by (rule set_dropWhileD)
qed

lemma dropWhile_rev_dropWhile_ident:
  assumes "x = [] \<or> \<not> P (hd x)"
  shows "dropWhile P (rev (dropWhile P (rev x))) = rev (dropWhile P (rev x))"
proof (cases "rev (dropWhile P (rev x))")
  case Nil
  then show ?thesis by (simp only: dropWhile.simps)
next
  case (Cons y ys)
  have "\<exists>r. x = rev (dropWhile P (rev x)) @ r"
    by (metis rev_append rev_rev_ident takeWhile_dropWhile_id)
  with Cons have "hd x = y" and "x \<noteq> []" by (metis append_Cons list.sel(1), force)
  with assms Cons show ?thesis by simp
qed

lemma trim_space_idem [simp]: "trim_space (trim_space s) = trim_space s"
proof -
  let ?x = "dropWhile is_space s"
  have h: "?x = [] \<or> \<not> is_space (hd ?x)" by (metis hd_dropWhile)
  have "dropWhile is_space (rev (dropWhile is_space (rev ?x))) = rev (dropWhile is_space (rev ?x))"
    using h by (rule dropWhile_rev_dropWhile_ident)
  then show ?thesis by (simp add: trim_space_def dropWhile_idem)
qed

lemma dropWhile_ident: "s = [] \<or> \<not> P (hd s) \<Longrightarrow> dropWhile P s = s"
  by (cases s) auto

lemma trim_space_ident: "\<not> is_space (hd s) \<Longrightarrow> \<not> is_space (last s) \<Longrightarrow> trim_space s = s"
  unfolding trim_space_def by (simp add: dropWhile_ident hd_rev)

lemma trim_space_last: "trim_space s \<noteq> [] \<Longrightarrow> \<not> is_space (last (trim_space s))"
  unfolding trim_space_def by (metis hd_dropWhile last_rev rev_is_Nil_conv)

section \<open>Case folding\<close>

definition to_lower :: "string \<Rightarrow> string" where
  "to_lower s = map lower_char s"

definition equal_fold :: "string \<Rightarrow> string \<Rightarrow> bool" where
  "equal_fold a b \<longleftrightarrow> to_lower a = to_lower b"

lemma is_space_lower_char [simp]: "is_space (lower_char c) = is_space c"
  by (auto simp: is_space_def lower_char_def byte_val_char_of)

lemma equal_fold_refl [simp]: "equal_fold a a"
  by (simp add: equal_fold_def)

lemma equal_fold_sym: "equal_fold a b \<Longrightarrow> equal_fold b a"
  by (simp add: equal_fold_def)

lemma equal_fold_trans: "equal_fold a b \<Longrightarrow> equal_fold b c \<Longrightarrow> equal_fold a c"
  by (simp add: equal_fold_def)

lemma to_lower_idem [simp]: "to_lower (to_lower s) = to_lower s"
  by (simp add: to_lower_def)

lemma equal_fold_to_lower [simp]: "equal_fold (to_lower a) a"
  by (simp add: equal_fold_def)

section \<open>Integers as text\<close>

fun atoi_digits :: "int \<Rightarrow> string \<Rightarrow> int option" where
  "atoi_digits acc [] = Some acc"
| "atoi_digits acc (c # s) =
     (case digit_val c of None \<Rightarrow> None | Some d \<Rightarrow> atoi_digits (acc * 10 + int d) s)"

definition in_int64 :: "int \<Rightarrow> bool" where
  "in_int64 n \<longleftrightarrow> min_int64 \<le> n \<and> n \<le> max_int64"

definition range_checked :: "int option \<Rightarrow> int option" where
  "range_checked r = (case r of None \<Rightarrow> None | Some n \<Rightarrow> if in_int64 n then Some n else None)"

text \<open>\<open>strconv.Atoi\<close>: an optional sign, at least one digit, nothing else, within 64 bits.\<close>

definition atoi_unsigned :: "string \<Rightarrow> int option" where
  "atoi_unsigned s = (if s = [] then None else atoi_digits 0 s)"

definition atoi :: "string \<Rightarrow> int option" where
  "atoi s = range_checked
     (case s of
        [] \<Rightarrow> None
      | c # r \<Rightarrow> if c = CHR ''-'' then map_option uminus (atoi_unsigned r)
                 else if c = CHR ''+'' then atoi_unsigned r
                 else atoi_unsigned s)"

fun itoa_nat :: "nat \<Rightarrow> string" where
  "itoa_nat n = (if n < 10 then [digit_char n] else itoa_nat (n div 10) @ [digit_char (n mod 10)])"

declare itoa_nat.simps [simp del]

definition itoa :: "int \<Rightarrow> string" where
  "itoa n = (if n < 0 then CHR ''-'' # itoa_nat (nat (- n)) else itoa_nat (nat n))"

lemma atoi_digits_append:
  "atoi_digits acc (s @ t) =
     (case atoi_digits acc s of None \<Rightarrow> None | Some a \<Rightarrow> atoi_digits a t)"
  by (induction s arbitrary: acc) (auto split: option.splits)

lemma atoi_digits_itoa: "atoi_digits 0 (itoa_nat n) = Some (int n)"
proof (induction n rule: itoa_nat.induct)
  case (1 n)
  show ?case
  proof (cases "n < 10")
    case True
    then show ?thesis by (simp add: itoa_nat.simps [of n] digit_val_digit_char)
  next
    case False
    with 1 have "atoi_digits 0 (itoa_nat (n div 10)) = Some (int (n div 10))" by simp
    moreover have "n mod 10 < 10" by simp
    ultimately have "atoi_digits 0 (itoa_nat n) = Some (int (n div 10) * 10 + int (n mod 10))"
      using False
      by (simp add: itoa_nat.simps [of n] atoi_digits_append digit_val_digit_char del: of_nat_mod of_nat_div)
    also have "int (n div 10) * 10 + int (n mod 10) = int n" by presburger
    finally show ?thesis .
  qed
qed

lemma itoa_nat_not_Nil [simp]: "itoa_nat n \<noteq> []"
  by (subst itoa_nat.simps) simp

lemma digit_char_no_sign: "n < 10 \<Longrightarrow> digit_char n \<noteq> CHR ''-'' \<and> digit_char n \<noteq> CHR ''+''"
proof -
  assume n: "n < 10"
  then have "byte_val (digit_char n) = 48 + n" by (simp add: digit_char_def byte_val_char_of)
  moreover have "byte_val CHR ''-'' = 45" and "byte_val CHR ''+'' = 43" by (simp_all add: byte_val_def)
  ultimately show ?thesis by auto
qed

lemma hd_itoa_nat: "hd (itoa_nat n) \<noteq> CHR ''-'' \<and> hd (itoa_nat n) \<noteq> CHR ''+''"
proof (induction n rule: itoa_nat.induct)
  case (1 n)
  then show ?case
    by (cases "n < 10") (simp_all add: itoa_nat.simps [of n] digit_char_no_sign hd_append)
qed

lemma atoi_itoa: "in_int64 n \<Longrightarrow> atoi (itoa n) = Some n"
proof (cases "n < 0")
  case True
  assume "in_int64 n"
  with True show ?thesis
    by (simp add: atoi_def itoa_def atoi_unsigned_def atoi_digits_itoa range_checked_def)
next
  case False
  assume n: "in_int64 n"
  obtain c r where s: "itoa_nat (nat n) = c # r" by (meson itoa_nat_not_Nil neq_Nil_conv)
  with hd_itoa_nat [of "nat n"] have "c \<noteq> CHR ''-''" and "c \<noteq> CHR ''+''" by auto
  moreover from s atoi_digits_itoa [of "nat n"] have "atoi_digits 0 (c # r) = Some (int (nat n))" by simp
  ultimately show ?thesis using False n s
    by (simp add: atoi_def itoa_def atoi_unsigned_def range_checked_def del: atoi_digits.simps)
qed

end
