(* ===== verification/Plan.thy ===== *)
theory Plan
  imports GoStrings
begin

text \<open>
  The task plan of \<open>pkg/pm/pm.go\<close>: statuses, the task record, the execution order, readiness,
  completion. A \<open>[]*Task\<close> is a list of task values in plan order (a plan holds no nil task);
  operations that write through a task pointer are in the theories \<open>PlanOps\<close> and \<open>Gate\<close>,
  where a pointer is the task's index in the plan. Fields of \<open>Task\<close> that no modelled operation
  reads or writes (scores, links, write-back records, display state) are not carried.
\<close>

section \<open>Data\<close>

text \<open>\<open>TaskStatus\<close> is a string type in the code; \<open>TaskOther\<close> is any other string, such as one
  read from a hand-edited database.\<close>

datatype TaskStatus = TaskPending | TaskInProgress | TaskDone | TaskFailed | TaskSkipped
  | TaskTimedOut | TaskOther string

datatype BackgroundState = BackgroundWaiting | BackgroundDrained | BackgroundAbandoned
  | BackgroundOther string

record Annotation =
  an_Timestamp :: time
  an_Author :: string
  an_Text :: string

record BackgroundWork =
  bw_State :: BackgroundState
  bw_Detected :: int
  bw_Commands :: "string list"
  bw_WaitedSeconds :: int
  bw_Terminated :: int
  bw_DetectedAt :: time

record TaskAbort =
  ab_Class :: string
  ab_Reason :: string
  ab_Evidence :: string
  ab_DetectedAt :: time
  ab_SummaryFingerprint :: string
  ab_Cleared :: bool
  ab_ClearedBy :: string
  ab_ClearedNote :: string
  ab_ClearedAt :: "time option"

record NodeLoss =
  nl_ExecutorID :: string
  nl_LostAt :: time
  nl_SessionID :: string
  nl_Attempt :: int

record TaskQuarantine =
  tq_Kind :: string
  tq_Reason :: string
  tq_Nodes :: "NodeLoss list"
  tq_MarkedAt :: time
  tq_MarkedBy :: string

record Task =
  t_ID :: int
  t_Title :: string
  t_Description :: string
  t_Priority :: int
  t_Status :: TaskStatus
  t_Role :: string
  t_DependsOn :: "int list"
  t_Result :: string
  t_StartedAt :: "time option"
  t_CompletedAt :: "time option"
  t_Deadline :: "time option"
  t_EstimatedMinutes :: int
  t_ActualMinutes :: int
  t_ArtifactPath :: string
  t_Tags :: "string list"
  t_FailCount :: int
  t_HealAttempts :: int
  t_Annotations :: "Annotation list"
  t_Condition :: string
  t_Recurrence :: string
  t_NextRunAt :: "time option"
  t_Pinned :: bool
  t_OnSuccess :: "string list"
  t_OnFailure :: "string list"
  t_Requirements :: "int list"
  t_Background :: "BackgroundWork option"
  t_Abort :: "TaskAbort option"
  t_Quarantine :: "TaskQuarantine option"

record Plan =
  p_Goal :: string
  p_Tasks :: "Task list"
  p_Version :: int

text \<open>Go's zero value of the record: what a struct literal leaves unset.\<close>

definition zero_task :: Task where
  "zero_task = \<lparr>t_ID = 0, t_Title = [], t_Description = [], t_Priority = 0,
     t_Status = TaskOther [], t_Role = [], t_DependsOn = [], t_Result = [], t_StartedAt = None,
     t_CompletedAt = None, t_Deadline = None, t_EstimatedMinutes = 0, t_ActualMinutes = 0,
     t_ArtifactPath = [], t_Tags = [], t_FailCount = 0, t_HealAttempts = 0, t_Annotations = [],
     t_Condition = [], t_Recurrence = [], t_NextRunAt = None, t_Pinned = False,
     t_OnSuccess = [], t_OnFailure = [], t_Requirements = [], t_Background = None,
     t_Abort = None, t_Quarantine = None\<rparr>"

definition NewPlan :: "string \<Rightarrow> Plan" where
  "NewPlan goal = \<lparr>p_Goal = goal, p_Tasks = [], p_Version = 1\<rparr>"

section \<open>Small operations\<close>

definition AddAnnotation :: "time \<Rightarrow> string \<Rightarrow> string \<Rightarrow> Task \<Rightarrow> Task" where
  "AddAnnotation now author txt t =
     t\<lparr>t_Annotations := t_Annotations t @
        [\<lparr>an_Timestamp = now, an_Author = author, an_Text = txt\<rparr>]\<rparr>"

definition BackgroundPending :: "BackgroundWork option \<Rightarrow> bool" where
  "BackgroundPending b = (case b of None \<Rightarrow> False | Some w \<Rightarrow> bw_State w = BackgroundWaiting)"

text \<open>The method \<open>(*TaskAbort).Blocks\<close>; a nil receiver does not block.\<close>

definition Blocks :: "TaskAbort option \<Rightarrow> bool" where
  "Blocks a = (case a of None \<Rightarrow> False | Some r \<Rightarrow> \<not> ab_Cleared r)"

definition Quarantined :: "Task \<Rightarrow> bool" where
  "Quarantined t = (t_Quarantine t \<noteq> None)"

definition PinnedCount :: "Task list \<Rightarrow> nat" where
  "PinnedCount ts = length (filter t_Pinned ts)"

fun TaskMatchesTags :: "Task \<Rightarrow> string list \<Rightarrow> bool" where
  "TaskMatchesTags t [] = True"
| "TaskMatchesTags t fs = list_ex (\<lambda>f. list_ex (\<lambda>tag. tag = f) (t_Tags t)) fs"

definition SortPinnedFirst :: "Task list \<Rightarrow> Task list" where
  "SortPinnedFirst ts = filter t_Pinned ts @ filter (\<lambda>t. \<not> t_Pinned t) ts"

section \<open>The order tasks run in\<close>

definition LessByExecutionOrder :: "Task \<Rightarrow> Task \<Rightarrow> bool" where
  "LessByExecutionOrder a b =
     (if t_Pinned a \<noteq> t_Pinned b then t_Pinned a
      else if t_Priority a \<noteq> t_Priority b then t_Priority a < t_Priority b
      else t_ID a < t_ID b)"

definition SortByExecutionOrder :: "Task list \<Rightarrow> Task list" where
  "SortByExecutionOrder ts = go_stable_sort LessByExecutionOrder ts"

interpretation exec_order: strict_weak_order LessByExecutionOrder
  by unfold_locales (auto simp: LessByExecutionOrder_def split: if_splits)

lemma LessByExecutionOrder_total:
  "t_ID a \<noteq> t_ID b \<Longrightarrow> LessByExecutionOrder a b \<or> LessByExecutionOrder b a"
  by (auto simp: LessByExecutionOrder_def)

section \<open>Readiness and completion\<close>

definition TaskByID :: "Task list \<Rightarrow> int \<Rightarrow> Task option" where
  "TaskByID ts i = find (\<lambda>t. t_ID t = i) ts"

definition satisfied :: "TaskStatus \<Rightarrow> bool" where
  "satisfied s \<longleftrightarrow> s = TaskDone \<or> s = TaskSkipped"

text \<open>The loop looks at the first task carrying each dependency's id; an id no task carries is
  passed over.\<close>

definition DepsReady :: "Task list \<Rightarrow> Task \<Rightarrow> bool" where
  "DepsReady ts t \<longleftrightarrow>
     list_all (\<lambda>d. case TaskByID ts d of None \<Rightarrow> True | Some dep \<Rightarrow> satisfied (t_Status dep))
       (t_DependsOn t)"

definition depIsTerminalFailure :: "Task \<Rightarrow> bool" where
  "depIsTerminalFailure dep \<longleftrightarrow> t_Status dep = TaskFailed \<or> t_Status dep = TaskTimedOut"

definition PermanentlyBlocked :: "Task list \<Rightarrow> Task \<Rightarrow> bool" where
  "PermanentlyBlocked ts t \<longleftrightarrow>
     list_ex (\<lambda>d. list_ex (\<lambda>dep. t_ID dep = d \<and> depIsTerminalFailure dep) ts) (t_DependsOn t)"

definition is_ready :: "Task list \<Rightarrow> Task \<Rightarrow> bool" where
  "is_ready ts t \<longleftrightarrow> t_Status t = TaskPending \<and> DepsReady ts t"

definition ReadyTasks :: "Task list \<Rightarrow> Task list" where
  "ReadyTasks ts = SortByExecutionOrder (filter (is_ready ts) ts)"

definition NextTask :: "Task list \<Rightarrow> Task option" where
  "NextTask ts = (case ReadyTasks ts of [] \<Rightarrow> None | t # _ \<Rightarrow> Some t)"

text \<open>The body of \<open>IsComplete\<close>'s loop: the first task for which this holds makes it answer
  false.\<close>

definition holds_open :: "Task list \<Rightarrow> Task \<Rightarrow> bool" where
  "holds_open ts t \<longleftrightarrow>
     t_Status t = TaskInProgress
     \<or> (t_Status t = TaskDone \<and> Blocks (t_Abort t))
     \<or> (t_Status t = TaskPending \<and> \<not> PermanentlyBlocked ts t)"

definition IsComplete :: "Task list \<Rightarrow> bool" where
  "IsComplete ts \<longleftrightarrow> ts \<noteq> [] \<and> list_all (\<lambda>t. \<not> holds_open ts t) ts"

fun count_status :: "Task list \<Rightarrow> nat \<times> nat" where
  "count_status [] = (0, 0)"
| "count_status (t # ts) =
     (let (dn, failed) = count_status ts in
      case t_Status t of
        TaskDone \<Rightarrow> (Suc dn, failed)
      | TaskSkipped \<Rightarrow> (Suc dn, failed)
      | TaskFailed \<Rightarrow> (dn, Suc failed)
      | TaskTimedOut \<Rightarrow> (dn, Suc failed)
      | _ \<Rightarrow> (dn, failed))"

definition CountByStatus :: "Task list \<Rightarrow> nat \<times> nat" where
  "CountByStatus ts = count_status ts"

definition Summary :: "Task list \<Rightarrow> string" where
  "Summary ts =
     itoa (int (length (filter (\<lambda>t. satisfied (t_Status t)) ts))) @ ''/'' @
     itoa (int (length ts)) @ '' tasks complete''"

section \<open>Reading an agent's last lines\<close>

text \<open>The last five lines of the trimmed output, each trimmed; the first that is a signal
  decides.\<close>

definition last_five :: "string list \<Rightarrow> string list" where
  "last_five ls = (if length ls > 5 then drop (length ls - 5) ls else ls)"

definition signal_lines :: "string \<Rightarrow> string list" where
  "signal_lines output =
     map trim_space (last_five (split_on (CHR 0x0A) (trim_space output)))"

fun first_task_signal :: "string list \<Rightarrow> TaskStatus" where
  "first_task_signal [] = TaskInProgress"
| "first_task_signal (l # ls) =
     (if l = ''TASK_DONE'' then TaskDone
      else if l = ''TASK_SKIPPED'' then TaskSkipped
      else if l = ''TASK_FAILED'' then TaskFailed
      else first_task_signal ls)"

definition CheckTaskSignal :: "string \<Rightarrow> TaskStatus" where
  "CheckTaskSignal output = first_task_signal (signal_lines output)"

fun first_verify_signal :: "string list \<Rightarrow> bool \<times> bool" where
  "first_verify_signal [] = (False, False)"
| "first_verify_signal (l # ls) =
     (if l = ''VERIFY_PASS'' then (True, True)
      else if l = ''VERIFY_FAIL'' then (False, True)
      else first_verify_signal ls)"

definition VerifySignal :: "string \<Rightarrow> bool \<times> bool" where
  "VerifySignal output = first_verify_signal (signal_lines output)"

section \<open>Facts about the queue\<close>

lemmas queue_defs = ReadyTasks_def SortByExecutionOrder_def

lemma set_ReadyTasks: "set (ReadyTasks ts) = {t \<in> set ts. is_ready ts t}"
  by (auto simp: queue_defs)

lemma ReadyTasks_sorted: "sorted_wrt (\<lambda>a b. \<not> LessByExecutionOrder b a) (ReadyTasks ts)"
  using exec_order.sorted_sort by (simp add: queue_defs exec_order.in_order_def [abs_def])

lemma NextTask_None: "NextTask ts = None \<longleftrightarrow> (\<forall>t \<in> set ts. \<not> is_ready ts t)"
proof -
  have "NextTask ts = None \<longleftrightarrow> ReadyTasks ts = []"
    by (simp add: NextTask_def split: list.split)
  also have "\<dots> \<longleftrightarrow> (\<forall>t \<in> set ts. \<not> is_ready ts t)"
    using set_ReadyTasks [of ts] by (metis (mono_tags, lifting) empty_Collect_eq list.set(1) set_empty)
  finally show ?thesis .
qed

lemma NextTask_Some:
  assumes "NextTask ts = Some t"
  shows "t \<in> set ts \<and> is_ready ts t \<and>
    (\<forall>u \<in> set ts. is_ready ts u \<longrightarrow> \<not> LessByExecutionOrder u t)"
proof -
  from assms obtain r where r: "ReadyTasks ts = t # r"
    by (auto simp: NextTask_def split: list.splits)
  have "t \<in> set (ReadyTasks ts)" by (simp add: r)
  moreover have "\<not> LessByExecutionOrder u t" if "u \<in> set ts" and "is_ready ts u" for u
    using exec_order.hd_minimal [of u "filter (is_ready ts) ts"] that r by (simp add: queue_defs)
  ultimately show ?thesis by (auto simp: set_ReadyTasks)
qed

text \<open>With distinct ids the loops over a dependency's id see one task.\<close>

lemma TaskByID_distinct:
  assumes "distinct (map t_ID ts)" and "t \<in> set ts"
  shows "TaskByID ts (t_ID t) = Some t"
proof -
  from assms obtain u where u: "TaskByID ts (t_ID t) = Some u"
    by (cases "TaskByID ts (t_ID t)") (auto simp: TaskByID_def find_None_iff)
  then have "u \<in> set ts" and "t_ID u = t_ID t" by (auto simp: TaskByID_def dest: find_Some_in)
  with assms have "u = t" by (auto simp: distinct_map inj_on_def)
  with u show ?thesis by simp
qed

lemma terminal_not_satisfied: "depIsTerminalFailure t \<Longrightarrow> \<not> satisfied (t_Status t)"
  by (auto simp: depIsTerminalFailure_def satisfied_def)

lemma blocked_not_ready:
  assumes "distinct (map t_ID ts)" and "PermanentlyBlocked ts t"
  shows "\<not> is_ready ts t"
proof -
  from assms(2) obtain dep where dep: "dep \<in> set ts" "t_ID dep \<in> set (t_DependsOn t)"
      "depIsTerminalFailure dep"
    by (auto simp: PermanentlyBlocked_def list_ex_iff)
  with TaskByID_distinct [OF assms(1) dep(1)] terminal_not_satisfied show ?thesis
    by (force simp: is_ready_def DepsReady_def list_all_iff)
qed

lemma CountByStatus_eq:
  "CountByStatus ts =
     (length (filter (\<lambda>t. satisfied (t_Status t)) ts), length (filter depIsTerminalFailure ts))"
  unfolding CountByStatus_def
proof (induction ts)
  case Nil
  then show ?case by simp
next
  case (Cons t ts)
  then show ?case
    by (cases "t_Status t") (simp_all add: satisfied_def depIsTerminalFailure_def)
qed

section \<open>Properties\<close>

text \<open>C34: The task run next is a pending task whose dependencies are satisfied, and no other such
  task precedes it in execution order (pinned, then priority, then id); there is none exactly
  when no task is ready.\<close>

theorem next_task_is_queue_head:
  "case NextTask ts of
     None \<Rightarrow> filter (is_ready ts) ts = []
   | Some t \<Rightarrow> t \<in> set ts \<and> t_Status t = TaskPending \<and> DepsReady ts t \<and>
       filter (\<lambda>u. is_ready ts u \<and> LessByExecutionOrder u t) ts = []"
proof (cases "NextTask ts")
  case None
  then have "filter (is_ready ts) ts = []" by (simp add: NextTask_None filter_empty_conv)
  with None show ?thesis by simp
next
  case (Some t)
  with NextTask_Some [OF Some] show ?thesis by (auto simp: is_ready_def filter_empty_conv)
qed

text \<open>The queue depends on the tasks of the plan, not on the order the plan holds them in: a
  plan read back from the database in id order runs in the same order as the one decomposed.\<close>

theorem ready_queue_order_independent:
  assumes "mset ts = mset us" and "distinct (map t_ID ts)"
  shows "ReadyTasks ts = ReadyTasks us"
proof -
  have sets: "set ts = set us" using assms(1) by (metis set_mset_mset)
  have "mset (map t_ID ts) = mset (map t_ID us)" using assms(1) by simp
  with assms(2) have us: "distinct (map t_ID us)" by (metis mset_eq_imp_distinct_iff)
  have byid: "TaskByID us d = TaskByID ts d" for d
  proof (cases "d \<in> t_ID ` set ts")
    case True
    then obtain t where t: "t \<in> set ts" "t_ID t = d" by auto
    then show ?thesis using TaskByID_distinct [OF assms(2), of t] TaskByID_distinct [OF us, of t] sets
      by simp
  next
    case False
    then have "TaskByID ts d = None" and "TaskByID us d = None"
      using sets by (auto simp: TaskByID_def find_None_iff)
    then show ?thesis by simp
  qed
  have "is_ready ts = is_ready us" by (simp add: is_ready_def [abs_def] DepsReady_def byid)
  with assms(1) have "mset (filter (is_ready ts) ts) = mset (filter (is_ready us) us)" by simp
  moreover have "LessByExecutionOrder a b \<or> LessByExecutionOrder b a"
    if "a \<in> set (filter (is_ready ts) ts)" "b \<in> set (filter (is_ready ts) ts)" "a \<noteq> b" for a b
    using that assms(2) by (intro LessByExecutionOrder_total) (auto simp: distinct_map inj_on_def)
  ultimately show ?thesis
    unfolding queue_defs by (rule exec_order.sort_order_independent)
qed

theorem ready_queue_order_independent_witness:
  "let a = zero_task\<lparr>t_ID := 2, t_Status := TaskPending\<rparr>;
       b = zero_task\<lparr>t_ID := 1, t_Status := TaskPending\<rparr>
   in ReadyTasks [a, b] = ReadyTasks [b, a] \<and> map t_ID (ReadyTasks [b, a]) = [1, 2]"
proof -
  let ?a = "zero_task\<lparr>t_ID := 2, t_Status := TaskPending\<rparr>"
  let ?b = "zero_task\<lparr>t_ID := 1, t_Status := TaskPending\<rparr>"
  have "ReadyTasks [?a, ?b] = ReadyTasks [?b, ?a]"
    by (rule ready_queue_order_independent) (simp_all add: zero_task_def add_mset_commute)
  moreover have "map t_ID (ReadyTasks [?b, ?a]) = [1, 2]"
    by (simp add: queue_defs is_ready_def DepsReady_def zero_task_def go_stable_sort_def
        LessByExecutionOrder_def)
  ultimately show ?thesis by (simp only: Let_def)
qed

text \<open>A plan that reports itself complete has nothing left to run, nothing in progress, and no
  task recorded as done on the strength of an uncleared refusal.\<close>

theorem complete_plan_has_no_work:
  assumes "IsComplete ts" and "distinct (map t_ID ts)"
  shows "NextTask ts = None \<and>
    filter (\<lambda>t. t_Status t = TaskInProgress \<or> t_Status t = TaskDone \<and> Blocks (t_Abort t)) ts = []"
proof
  show "NextTask ts = None"
    using assms blocked_not_ready [OF assms(2)]
    by (auto simp: NextTask_None IsComplete_def holds_open_def list_all_iff is_ready_def)
  show "filter (\<lambda>t. t_Status t = TaskInProgress \<or> t_Status t = TaskDone \<and> Blocks (t_Abort t)) ts = []"
    using assms(1) by (auto simp: IsComplete_def holds_open_def list_all_iff filter_empty_conv)
qed

theorem complete_plan_has_no_work_witness:
  "let ts = [zero_task\<lparr>t_ID := 1, t_Status := TaskFailed\<rparr>,
             zero_task\<lparr>t_ID := 2, t_Status := TaskPending, t_DependsOn := [1]\<rparr>,
             zero_task\<lparr>t_ID := 3, t_Status := TaskDone\<rparr>]
   in IsComplete ts \<and> NextTask ts = None"
proof -
  let ?ts = "[zero_task\<lparr>t_ID := 1, t_Status := TaskFailed\<rparr>,
              zero_task\<lparr>t_ID := 2, t_Status := TaskPending, t_DependsOn := [1]\<rparr>,
              zero_task\<lparr>t_ID := 3, t_Status := TaskDone\<rparr>]"
  have c: "IsComplete ?ts"
    by (simp add: IsComplete_def holds_open_def PermanentlyBlocked_def depIsTerminalFailure_def
        zero_task_def Blocks_def)
  have "distinct (map t_ID ?ts)" by (simp add: zero_task_def)
  from complete_plan_has_no_work [OF c this] c show ?thesis by (simp only: Let_def)
qed

end
