(* ===== verification/PlanOps.thy ===== *)
theory PlanOps
  imports Plan
begin

text \<open>
  Operations on a plan beside its schedule: branching after a task ends (\<open>pkg/pm/branch.go\<close>),
  id assignment for newly planned tasks (\<open>resolveIDCollisions\<close> of \<open>pkg/pm/pm.go\<close>), moving a
  task between plans (\<open>pkg/pm/move.go\<close>), refusals recorded as results (\<open>pkg/pm/abort.go\<close>),
  suspected node killers (\<open>pkg/pm/quarantine.go\<close>), deadlines (\<open>pkg/pm/deadline.go\<close>) and the
  dashboard's check of a dependency list (\<open>pkg/ui/validate.go\<close>). A write through a
  \<open>*Task\<close> is a list update at the task's index.
\<close>

section \<open>Branches\<close>

record BranchActivation =
  ba_TaskID :: int
  ba_Title :: string
  ba_Activated :: bool
  ba_Branch :: string

text \<open>\<open>byID\<close> is filled in plan order, so the last task carrying an id is the one it names.\<close>

definition byID :: "Task list \<Rightarrow> int \<Rightarrow> nat option" where
  "byID ts i = last_index (\<lambda>t. t_ID t = i) ts"

definition branch_target :: "Task list \<Rightarrow> string \<Rightarrow> nat option" where
  "branch_target ts s = (case atoi s of None \<Rightarrow> None | Some i \<Rightarrow> byID ts i)"

definition activate_entry ::
  "string \<Rightarrow> string \<Rightarrow> Task list \<times> BranchActivation list \<Rightarrow> Task list \<times> BranchActivation list"
where
  "activate_entry name s st =
     (let (ts, out) = st in
      case branch_target ts s of
        None \<Rightarrow> st
      | Some j \<Rightarrow>
          let t = ts ! j in
          if t_Status t \<in> {TaskDone, TaskInProgress, TaskFailed, TaskTimedOut} then st
          else ((if t_Status t = TaskSkipped then ts[j := t\<lparr>t_Status := TaskPending\<rparr>] else ts),
                out @ [\<lparr>ba_TaskID = t_ID t, ba_Title = t_Title t, ba_Activated = True,
                        ba_Branch = name\<rparr>]))"

definition skip_entry ::
  "string \<Rightarrow> string \<Rightarrow> Task list \<times> BranchActivation list \<Rightarrow> Task list \<times> BranchActivation list"
where
  "skip_entry name s st =
     (let (ts, out) = st in
      case branch_target ts s of
        None \<Rightarrow> st
      | Some j \<Rightarrow>
          let t = ts ! j in
          if t_Status t \<noteq> TaskPending then st
          else (ts[j := t\<lparr>t_Status := TaskSkipped\<rparr>],
                out @ [\<lparr>ba_TaskID = t_ID t, ba_Title = t_Title t, ba_Activated = False,
                        ba_Branch = name\<rparr>]))"

definition branch_lists :: "Task \<Rightarrow> string list \<times> string list" where
  "branch_lists task =
     (if t_Status task = TaskDone then (t_OnSuccess task, t_OnFailure task)
      else (t_OnFailure task, t_OnSuccess task))"

definition branch_names :: "Task \<Rightarrow> string \<times> string" where
  "branch_names task =
     (if t_Status task = TaskDone then (''on_success'', ''on_failure'')
      else (''on_failure'', ''on_success''))"

definition ResolveBranch :: "Task list \<Rightarrow> Task \<Rightarrow> Task list \<times> BranchActivation list" where
  "ResolveBranch ts task =
     (if t_OnSuccess task = [] \<and> t_OnFailure task = [] then (ts, [])
      else if t_Status task \<noteq> TaskDone \<and> t_Status task \<noteq> TaskFailed then (ts, [])
      else
        let (act, skp) = branch_lists task; (act_name, skp_name) = branch_names task
        in fold (skip_entry skp_name) skp (fold (activate_entry act_name) act (ts, [])))"

section \<open>Ids for newly planned tasks\<close>

function next_unused :: "int list \<Rightarrow> int \<Rightarrow> int" where
  "next_unused used n = (if n \<in> set used then next_unused used (n + 1) else n)"
  by pat_completeness auto
termination
proof (relation "measure (\<lambda>(used, n). length (filter (\<lambda>x. n \<le> x) used))")
  show "wf (measure (\<lambda>(used, n). length (filter (\<lambda>x. n \<le> x) used)))" by simp
next
  fix used :: "int list" and n :: int
  assume n: "n \<in> set used"
  have "length (filter (\<lambda>x. n + 1 \<le> x) used) < length (filter (\<lambda>x. n \<le> x) used)"
    using n
  proof (induction used)
    case Nil
    then show ?case by simp
  next
    case (Cons a used)
    have le: "length (filter (\<lambda>x. n + 1 \<le> x) us) \<le> length (filter (\<lambda>x. n \<le> x) us)" for us
      by (induction us) auto
    show ?case
      using Cons le [of used] by (cases "a = n") (auto intro: le_imp_less_Suc)
  qed
  then show "((used, n + 1), used, n) \<in> measure (\<lambda>(used, n). length (filter (\<lambda>x. n \<le> x) used))"
    by simp
qed

declare next_unused.simps [simp del]

fun assign_ids ::
  "int list \<Rightarrow> int \<Rightarrow> (int \<rightharpoonup> int) \<Rightarrow> Task list \<Rightarrow> Task list \<times> (int \<rightharpoonup> int)"
where
  "assign_ids used nxt remap [] = ([], remap)"
| "assign_ids used nxt remap (t # ts) =
     (if t_ID t \<le> 0 \<or> t_ID t \<in> set used then
        let n = next_unused used nxt;
            (ts', remap') = assign_ids (n # used) n (remap(t_ID t \<mapsto> n)) ts
        in (t\<lparr>t_ID := n\<rparr> # ts', remap')
      else
        let (ts', remap') = assign_ids (t_ID t # used) nxt remap ts
        in (t # ts', remap'))"

definition remap_id :: "(int \<rightharpoonup> int) \<Rightarrow> int \<Rightarrow> int" where
  "remap_id remap d = (case remap d of None \<Rightarrow> d | Some n \<Rightarrow> n)"

definition max_id :: "Task list \<Rightarrow> int" where
  "max_id ts = fold (\<lambda>t m. if t_ID t > m then t_ID t else m) ts 0"

text \<open>The early return on an empty remap is the case where remapping changes nothing.\<close>

definition resolveIDCollisions :: "Task list \<Rightarrow> Task list \<Rightarrow> Task list" where
  "resolveIDCollisions batch existing =
     (let (batch', remap) =
            assign_ids (map t_ID existing) (max_id existing + 1) Map.empty batch
      in map (\<lambda>t. t\<lparr>t_DependsOn := map (remap_id remap) (t_DependsOn t)\<rparr>) batch')"

section \<open>Moving a task to another plan\<close>

definition nextAvailableID :: "Task list \<Rightarrow> int" where
  "nextAvailableID ts = max_id ts + 1"

datatype move_error = TaskNotFound int | NoProvider | AdaptFailed

text \<open>\<open>adapt\<close> is \<open>None\<close> without the flag; with it, the configured provider if any, as a function
  from the source task to the rewritten title and description, \<open>None\<close> when the call or the
  parsing of its answer fails. The source plan is written before the provider is asked, so the
  source plan is part of the result on every path.\<close>

type_synonym provider = "Task \<Rightarrow> (string \<times> string) option"

definition fresh_copy :: "Task \<Rightarrow> int \<Rightarrow> Task" where
  "fresh_copy t new_id =
     t\<lparr>t_Status := TaskPending, t_StartedAt := None, t_CompletedAt := None, t_Result := [],
       t_ArtifactPath := [], t_HealAttempts := 0, t_ActualMinutes := 0, t_ID := new_id\<rparr>"

definition find_index :: "('a \<Rightarrow> bool) \<Rightarrow> 'a list \<Rightarrow> nat option" where
  "find_index P xs =
     (let n = length (takeWhile (\<lambda>x. \<not> P x) xs) in if n < length xs then Some n else None)"

definition Move ::
  "Task list \<Rightarrow> Task list \<Rightarrow> int \<Rightarrow> provider option option \<Rightarrow>
   Task list \<times> Task list \<times> (move_error + int)"
where
  "Move src dst task_id adapt =
     (case find_index (\<lambda>t. t_ID t = task_id) src of
        None \<Rightarrow> (src, dst, Inl (TaskNotFound task_id))
      | Some j \<Rightarrow>
          let src' = src[j := (src ! j)\<lparr>t_Status := TaskSkipped\<rparr>];
              tc = fresh_copy (src' ! j) (nextAvailableID dst);
              done = (\<lambda>c. (src', dst @ [c\<lparr>t_DependsOn := []\<rparr>], Inr (t_ID c)))
          in case adapt of
               None \<Rightarrow> done tc
             | Some None \<Rightarrow> (src', dst, Inl NoProvider)
             | Some (Some p) \<Rightarrow>
                 (case p (src' ! j) of
                    None \<Rightarrow> (src', dst, Inl AdaptFailed)
                  | Some (title, descr) \<Rightarrow>
                      done (tc\<lparr>t_Title := title, t_Description := descr\<rparr>)))"

section \<open>Refusals recorded as results\<close>

definition Clear :: "time \<Rightarrow> string \<Rightarrow> string \<Rightarrow> TaskAbort option \<Rightarrow> TaskAbort option" where
  "Clear now who why a =
     map_option (\<lambda>r. r\<lparr>ab_Cleared := True, ab_ClearedBy := who, ab_ClearedNote := why,
                       ab_ClearedAt := Some now\<rparr>) a"

text \<open>\<open>digest\<close> stands for the first eight bytes of SHA-256, in hex.\<close>

definition FingerprintSummary :: "(string \<Rightarrow> string) \<Rightarrow> string \<Rightarrow> string" where
  "FingerprintSummary digest result = digest (trim_space result)"

definition AbortAppliesTo :: "(string \<Rightarrow> string) \<Rightarrow> TaskAbort option \<Rightarrow> string \<Rightarrow> bool" where
  "AbortAppliesTo digest a result =
     (case a of None \<Rightarrow> False
      | Some r \<Rightarrow> ab_SummaryFingerprint r \<noteq> [] \<and>
                  ab_SummaryFingerprint r = FingerprintSummary digest result)"

definition UnverifiedAborts :: "Task list \<Rightarrow> Task list" where
  "UnverifiedAborts ts = filter (\<lambda>t. t_Status t = TaskDone \<and> Blocks (t_Abort t)) ts"

definition AbortedOutcomes :: "Task list \<Rightarrow> Task list" where
  "AbortedOutcomes ts = filter (\<lambda>t. t_Abort t \<noteq> None) ts"

section \<open>Suspected node killers\<close>

definition NodeKillerThreshold :: nat where
  "NodeKillerThreshold = 2"

definition SortNodeLosses :: "NodeLoss list \<Rightarrow> NodeLoss list" where
  "SortNodeLosses losses = go_stable_sort (lt_by nl_LostAt) losses"

fun distinct_nodes :: "string list \<Rightarrow> NodeLoss list \<Rightarrow> string list" where
  "distinct_nodes seen [] = []"
| "distinct_nodes seen (l # ls) =
     (if nl_ExecutorID l = [] \<or> nl_ExecutorID l \<in> set seen then distinct_nodes seen ls
      else nl_ExecutorID l # distinct_nodes (nl_ExecutorID l # seen) ls)"

definition DistinctNodes :: "NodeLoss list \<Rightarrow> string list" where
  "DistinctNodes losses = distinct_nodes [] (SortNodeLosses losses)"

definition SuspectedNodeKiller :: "NodeLoss list \<Rightarrow> bool" where
  "SuspectedNodeKiller losses \<longleftrightarrow> length (DistinctNodes losses) \<ge> NodeKillerThreshold"

section \<open>Deadlines\<close>

definition IsOverdue :: "time \<Rightarrow> Task \<Rightarrow> bool" where
  "IsOverdue now t =
     (case t_Deadline t of None \<Rightarrow> False
      | Some d \<Rightarrow> \<not> satisfied (t_Status t) \<and> now > d)"

record OverdueResult =
  or_Task :: int
  or_OldPriority :: int
  or_Boosted :: bool

definition boost :: "time \<Rightarrow> Task \<Rightarrow> Task" where
  "boost now t = (if IsOverdue now t \<and> t_Priority t \<noteq> 1 then t\<lparr>t_Priority := 1\<rparr> else t)"

definition overdue_result :: "Task \<Rightarrow> OverdueResult" where
  "overdue_result t =
     (if t_Priority t \<noteq> 1
      then \<lparr>or_Task = t_ID t, or_OldPriority = t_Priority t, or_Boosted = True\<rparr>
      else \<lparr>or_Task = t_ID t, or_OldPriority = 0, or_Boosted = False\<rparr>)"

definition CheckAndBoostOverdue :: "time \<Rightarrow> Task list \<Rightarrow> Task list \<times> OverdueResult list" where
  "CheckAndBoostOverdue now ts =
     (map (boost now) ts, map overdue_result (filter (IsOverdue now) ts))"

text \<open>The compliance ratio is kept as numerator and denominator: \<open>(0, 1)\<close>, the zero value, when
  no task has a deadline.\<close>

record SLAStats =
  sla_Total :: int
  sla_Met :: int
  sla_Missed :: int
  sla_Ratio :: "int \<times> int"

definition sla_met :: "time \<Rightarrow> Task \<Rightarrow> bool" where
  "sla_met now t =
     (case t_Deadline t of None \<Rightarrow> False
      | Some d \<Rightarrow> satisfied (t_Status t) \<and>
          \<not> (case t_CompletedAt t of Some c \<Rightarrow> c | None \<Rightarrow> now) > d)"

definition sla_missed :: "time \<Rightarrow> Task \<Rightarrow> bool" where
  "sla_missed now t =
     (case t_Deadline t of None \<Rightarrow> False
      | Some d \<Rightarrow>
          if satisfied (t_Status t) then (case t_CompletedAt t of Some c \<Rightarrow> c | None \<Rightarrow> now) > d
          else now > d)"

definition ComputeSLAStats :: "time \<Rightarrow> Task list \<Rightarrow> SLAStats" where
  "ComputeSLAStats now ts =
     (let total = int (length (filter (\<lambda>t. t_Deadline t \<noteq> None) ts));
          met = int (length (filter (sla_met now) ts));
          missed = int (length (filter (sla_missed now) ts))
      in \<lparr>sla_Total = total, sla_Met = met, sla_Missed = missed,
          sla_Ratio = (if total > 0 then (met, total) else (0, 1))\<rparr>)"

section \<open>The dashboard's check of a dependency list\<close>

datatype depends_error = DepNotPositive int | DepOnSelf int | DepUnknown int | DepDuplicate int

fun validate_deps :: "int list \<Rightarrow> int \<Rightarrow> int list \<Rightarrow> int list \<Rightarrow> depends_error option" where
  "validate_deps known self seen [] = None"
| "validate_deps known self seen (d # ds) =
     (if d \<le> 0 then Some (DepNotPositive d)
      else if self \<noteq> 0 \<and> d = self then Some (DepOnSelf self)
      else if d \<notin> set known then Some (DepUnknown d)
      else if d \<in> set seen then Some (DepDuplicate d)
      else validate_deps known self (d # seen) ds)"

definition validateDependsOn :: "int list \<Rightarrow> int \<Rightarrow> Task list \<Rightarrow> depends_error option" where
  "validateDependsOn deps self existing = validate_deps (map t_ID existing) self [] deps"

section \<open>Facts about branches\<close>

lemma branch_target_Some:
  "branch_target ts s = Some j \<Longrightarrow> j < length ts \<and> atoi s = Some (t_ID (ts ! j))"
  by (auto simp: branch_target_def byID_def split: option.splits dest!: last_index_Some)

lemma branch_target_None:
  "branch_target ts s = None \<Longrightarrow> t \<in> set ts \<Longrightarrow> atoi s \<noteq> Some (t_ID t)"
  by (auto simp: branch_target_def byID_def last_index_None split: option.splits)

definition activated :: "(int \<Rightarrow> bool) \<Rightarrow> Task \<Rightarrow> Task" where
  "activated P t = (if P (t_ID t) \<and> t_Status t = TaskSkipped then t\<lparr>t_Status := TaskPending\<rparr> else t)"

definition skipped_by :: "(int \<Rightarrow> bool) \<Rightarrow> Task \<Rightarrow> Task" where
  "skipped_by P t = (if P (t_ID t) \<and> t_Status t = TaskPending then t\<lparr>t_Status := TaskSkipped\<rparr> else t)"

lemma activated_ids [simp]: "t_ID (activated P t) = t_ID t"
  by (simp add: activated_def)

lemma skipped_by_ids [simp]: "t_ID (skipped_by P t) = t_ID t"
  by (simp add: skipped_by_def)

lemma ids_branch [simp]: "t_ID \<circ> activated P = t_ID" "t_ID \<circ> skipped_by P = t_ID"
  by (simp_all add: fun_eq_iff)

lemma fst_activate_entry:
  assumes "distinct (map t_ID ts)"
  shows "fst (activate_entry name s (ts, out)) = map (activated (\<lambda>i. atoi s = Some i)) ts"
proof (cases "branch_target ts s")
  case None
  then have "\<forall>t \<in> set ts. activated (\<lambda>i. atoi s = Some i) t = t"
    by (auto simp: activated_def dest: branch_target_None)
  with None show ?thesis by (simp add: activate_entry_def map_idI)
next
  case (Some j)
  then have j: "j < length ts" "atoi s = Some (t_ID (ts ! j))" by (auto dest: branch_target_Some)
  have key: "t_ID t = t_ID (ts ! j) \<Longrightarrow> t \<in> set ts \<Longrightarrow> t = ts ! j" for t
    using assms j(1) by (metis distinct_map inj_onD nth_mem)
  show ?thesis
  proof (cases "t_Status (ts ! j) = TaskSkipped")
    case True
    with Some have "fst (activate_entry name s (ts, out)) = ts[j := (ts ! j)\<lparr>t_Status := TaskPending\<rparr>]"
      by (simp add: activate_entry_def Let_def)
    also have "\<dots> = map (activated (\<lambda>i. atoi s = Some i)) ts"
      unfolding list_update_by_key [OF assms j(1)]
      by (rule map_cong) (auto simp: activated_def j True dest: key)
    finally show ?thesis .
  next
    case False
    then have "\<forall>t \<in> set ts. activated (\<lambda>i. atoi s = Some i) t = t"
      using j key by (auto simp: activated_def)
    with Some False show ?thesis by (auto simp: activate_entry_def Let_def map_idI)
  qed
qed

lemma fst_skip_entry:
  assumes "distinct (map t_ID ts)"
  shows "fst (skip_entry name s (ts, out)) = map (skipped_by (\<lambda>i. atoi s = Some i)) ts"
proof (cases "branch_target ts s")
  case None
  then have "\<forall>t \<in> set ts. skipped_by (\<lambda>i. atoi s = Some i) t = t"
    by (auto simp: skipped_by_def dest: branch_target_None)
  with None show ?thesis by (simp add: skip_entry_def map_idI)
next
  case (Some j)
  then have j: "j < length ts" "atoi s = Some (t_ID (ts ! j))" by (auto dest: branch_target_Some)
  have key: "t_ID t = t_ID (ts ! j) \<Longrightarrow> t \<in> set ts \<Longrightarrow> t = ts ! j" for t
    using assms j(1) by (metis distinct_map inj_onD nth_mem)
  show ?thesis
  proof (cases "t_Status (ts ! j) = TaskPending")
    case True
    with Some have "fst (skip_entry name s (ts, out)) = ts[j := (ts ! j)\<lparr>t_Status := TaskSkipped\<rparr>]"
      by (simp add: skip_entry_def Let_def)
    also have "\<dots> = map (skipped_by (\<lambda>i. atoi s = Some i)) ts"
      unfolding list_update_by_key [OF assms j(1)]
      by (rule map_cong) (auto simp: skipped_by_def j True dest: key)
    finally show ?thesis .
  next
    case False
    then have "\<forall>t \<in> set ts. skipped_by (\<lambda>i. atoi s = Some i) t = t"
      using j key by (auto simp: skipped_by_def)
    with Some False show ?thesis by (auto simp: skip_entry_def Let_def map_idI)
  qed
qed

lemma fst_fold_activate:
  assumes "distinct (map t_ID ts)"
  shows "fst (fold (activate_entry name) ss (ts, out))
       = map (activated (\<lambda>i. \<exists>s \<in> set ss. atoi s = Some i)) ts"
  using assms
proof (induction ss arbitrary: ts out)
  case Nil
  then show ?case by (simp add: activated_def map_idI)
next
  case (Cons s ss)
  obtain ts1 out1 where st: "activate_entry name s (ts, out) = (ts1, out1)" by fastforce
  with fst_activate_entry [OF Cons.prems] have ts1: "ts1 = map (activated (\<lambda>i. atoi s = Some i)) ts"
    by (metis fst_conv)
  with Cons.prems have "distinct (map t_ID ts1)" by simp
  from Cons.IH [OF this] st ts1 show ?case by (auto simp: activated_def)
qed

lemma fst_fold_skip:
  assumes "distinct (map t_ID ts)"
  shows "fst (fold (skip_entry name) ss (ts, out))
       = map (skipped_by (\<lambda>i. \<exists>s \<in> set ss. atoi s = Some i)) ts"
  using assms
proof (induction ss arbitrary: ts out)
  case Nil
  then show ?case by (simp add: skipped_by_def map_idI)
next
  case (Cons s ss)
  obtain ts1 out1 where st: "skip_entry name s (ts, out) = (ts1, out1)" by fastforce
  with fst_skip_entry [OF Cons.prems] have ts1: "ts1 = map (skipped_by (\<lambda>i. atoi s = Some i)) ts"
    by (metis fst_conv)
  with Cons.prems have "distinct (map t_ID ts1)" by simp
  from Cons.IH [OF this] st ts1 show ?case by (auto simp: skipped_by_def)
qed

section \<open>Facts about id assignment\<close>

lemma next_unused_fresh: "next_unused used n \<notin> set used \<and> n \<le> next_unused used n"
proof (induction used n rule: next_unused.induct)
  case (1 used n)
  then show ?case by (cases "n \<in> set used") (auto simp: next_unused.simps [of used n])
qed

lemma assign_ids_fresh:
  assumes "assign_ids used nxt remap ts = (ts', m)" and "nxt > 0"
  shows "distinct (map t_ID ts') \<and> set (map t_ID ts') \<inter> set used = {} \<and>
    (\<forall>t \<in> set ts'. t_ID t > 0)"
  using assms
proof (induction ts arbitrary: used nxt remap ts' m)
  case Nil
  then show ?case by simp
next
  case (Cons t ts)
  let ?n = "next_unused used nxt"
  have n: "?n \<notin> set used" "0 < ?n" using next_unused_fresh [of used nxt] Cons.prems(2) by auto
  show ?case
  proof (cases "t_ID t \<le> 0 \<or> t_ID t \<in> set used")
    case True
    with Cons.prems(1) obtain ts1 where
      rec: "assign_ids (?n # used) ?n (remap(t_ID t \<mapsto> ?n)) ts = (ts1, m)"
      and ts': "ts' = t\<lparr>t_ID := ?n\<rparr> # ts1"
      by (auto simp: Let_def split: prod.splits)
    from Cons.IH [OF rec n(2)] ts' n show ?thesis by auto
  next
    case False
    with Cons.prems(1) obtain ts1 where
      rec: "assign_ids (t_ID t # used) nxt remap ts = (ts1, m)" and ts': "ts' = t # ts1"
      by (auto split: prod.splits)
    from Cons.IH [OF rec Cons.prems(2)] ts' False show ?thesis by auto
  qed
qed

lemma assign_ids_length: "assign_ids used nxt remap ts = (ts', m) \<Longrightarrow> length ts' = length ts"
  by (induction ts arbitrary: used nxt remap ts' m)
    (auto simp: Let_def split: prod.splits if_splits)

text \<open>Where the batch's own ids are distinct, the remap sends every one of them to the id its
  task ends up with, and touches no other entry.\<close>

lemma assign_ids_remap:
  assumes "assign_ids used nxt remap ts = (ts', m)" and "distinct (map t_ID ts)"
  shows "(\<forall>d. d \<notin> set (map t_ID ts) \<longrightarrow> m d = remap d) \<and>
    ((\<forall>d \<in> set (map t_ID ts). remap d = None) \<longrightarrow> map (remap_id m) (map t_ID ts) = map t_ID ts')"
  using assms
proof (induction ts arbitrary: used nxt remap ts' m)
  case Nil
  then show ?case by simp
next
  case (Cons t ts)
  let ?n = "next_unused used nxt"
  have d: "distinct (map t_ID ts)" "\<forall>u \<in> set ts. t_ID u \<noteq> t_ID t" using Cons.prems(2) by (simp, metis distinct.simps(2) image_eqI list.set_map list.simps(9))
  show ?case
  proof (cases "t_ID t \<le> 0 \<or> t_ID t \<in> set used")
    case True
    with Cons.prems(1) obtain ts1 where
      rec: "assign_ids (?n # used) ?n (remap(t_ID t \<mapsto> ?n)) ts = (ts1, m)"
      and ts': "ts' = t\<lparr>t_ID := ?n\<rparr> # ts1"
      by (auto simp: Let_def split: prod.splits)
    have "t_ID t \<notin> t_ID ` set ts" using d(2) by force
    with Cons.IH [OF rec d(1)] d(2) ts' show ?thesis by (auto simp: remap_id_def)
  next
    case False
    with Cons.prems(1) obtain ts1 where
      rec: "assign_ids (t_ID t # used) nxt remap ts = (ts1, m)" and ts': "ts' = t # ts1"
      by (auto split: prod.splits)
    have "t_ID t \<notin> t_ID ` set ts" using d(2) by force
    with Cons.IH [OF rec d(1)] d(2) ts' show ?thesis by (auto simp: remap_id_def)
  qed
qed

lemma max_id_ge: "t \<in> set ts \<Longrightarrow> t_ID t \<le> max_id ts" and max_id_nonneg: "0 \<le> max_id ts"
proof -
  have gen: "m \<le> fold (\<lambda>t m. if t_ID t > m then t_ID t else m) ts m \<and>
    (\<forall>t \<in> set ts. t_ID t \<le> fold (\<lambda>t m. if t_ID t > m then t_ID t else m) ts m)" for m
  proof (induction ts arbitrary: m)
    case Nil
    then show ?case by simp
  next
    case (Cons t ts)
    from Cons.IH [of "if t_ID t > m then t_ID t else m"] show ?case by (auto split: if_splits)
  qed
  from gen [of 0] show "t \<in> set ts \<Longrightarrow> t_ID t \<le> max_id ts" and "0 \<le> max_id ts"
    by (auto simp: max_id_def)
qed

lemma map_ids_resolve:
  "map t_ID (resolveIDCollisions batch existing) =
   map t_ID (fst (assign_ids (map t_ID existing) (max_id existing + 1) Map.empty batch))"
  by (simp add: resolveIDCollisions_def split: prod.splits)

section \<open>Facts about node losses, deadlines and dependency lists\<close>

lemma distinct_nodes_correct:
  "distinct (distinct_nodes seen ls) \<and>
   set (distinct_nodes seen ls) = nl_ExecutorID ` set ls - {[]} - set seen"
  by (induction ls arbitrary: seen) auto

lemma DistinctNodes_correct:
  "distinct (DistinctNodes ls) \<and> set (DistinctNodes ls) = nl_ExecutorID ` set ls - {[]}"
  using distinct_nodes_correct [of "[]" "SortNodeLosses ls"]
  by (simp add: DistinctNodes_def SortNodeLosses_def)

lemma boost_not_overdue_unboosted: "\<not> (IsOverdue now (boost now t) \<and> t_Priority (boost now t) \<noteq> 1)"
  by (auto simp: boost_def IsOverdue_def split: option.splits)

lemma IsOverdue_boost [simp]: "IsOverdue now (boost now t) = IsOverdue now t"
  by (simp add: boost_def IsOverdue_def split: option.split)

lemma boost_idem [simp]: "boost now (boost now t) = boost now t"
  by (auto simp: boost_def IsOverdue_def)

lemma validate_deps_None:
  "validate_deps known self seen ds = None \<longleftrightarrow>
     (\<forall>d \<in> set ds. d > 0 \<and> (self \<noteq> 0 \<longrightarrow> d \<noteq> self) \<and> d \<in> set known \<and> d \<notin> set seen) \<and> distinct ds"
  by (induction ds arbitrary: seen) auto

section \<open>Properties\<close>

text \<open>What \<open>ResolveBranch\<close> promises for one task of the plan, stated on its own: a task that is
  neither pending nor skipped keeps everything; one named by the branch not taken ends skipped;
  one named only by the branch taken ends pending.\<close>

definition branch_outcome :: "Task \<Rightarrow> Task \<Rightarrow> Task" where
  "branch_outcome task t =
     (let (act, skp) = branch_lists task;
          named = (\<lambda>ss. list_ex (\<lambda>s. atoi s = Some (t_ID t)) ss)
      in if t_Status t \<noteq> TaskPending \<and> t_Status t \<noteq> TaskSkipped then t
         else if named skp then t\<lparr>t_Status := TaskSkipped\<rparr>
         else if named act then t\<lparr>t_Status := TaskPending\<rparr>
         else t)"

text \<open>C31: Branching after a task ends: every task of the plan ends as the rules say, whatever the
  order and repetition of the entries.\<close>

theorem resolve_branch_refines_rules:
  assumes "distinct (map t_ID ts)" and "t_Status task = TaskDone \<or> t_Status task = TaskFailed"
  shows "fst (ResolveBranch ts task) = map (branch_outcome task) ts"
proof -
  obtain act skp where l: "branch_lists task = (act, skp)" by fastforce
  obtain an sn where n: "branch_names task = (an, sn)" by fastforce
  show ?thesis
  proof (cases "t_OnSuccess task = [] \<and> t_OnFailure task = []")
    case True
    then have "branch_outcome task = id"
      by (simp add: branch_outcome_def branch_lists_def fun_eq_iff Let_def)
    with True show ?thesis by (simp add: ResolveBranch_def)
  next
    case False
    obtain us out where f: "fold (activate_entry an) act (ts, []) = (us, out)" by fastforce
    then have us: "us = map (activated (\<lambda>i. \<exists>s \<in> set act. atoi s = Some i)) ts"
      using fst_fold_activate [OF assms(1), of an act "[]"] by simp
    then have "distinct (map t_ID us)" using assms(1) by simp
    from fst_fold_skip [OF this, of sn skp out]
    have "fst (ResolveBranch ts task) =
        map (skipped_by (\<lambda>i. \<exists>s \<in> set skp. atoi s = Some i) \<circ>
             activated (\<lambda>i. \<exists>s \<in> set act. atoi s = Some i)) ts"
      using False assms(2) f us l n by (auto simp: ResolveBranch_def)
    also have "\<dots> = map (branch_outcome task) ts"
      by (rule map_cong)
        (auto simp: branch_outcome_def l skipped_by_def activated_def list_ex_iff)
    finally show ?thesis .
  qed
qed

theorem resolve_branch_refines_rules_witness:
  "fst (ResolveBranch
     [zero_task\<lparr>t_ID := 1, t_Status := TaskFailed\<rparr>, zero_task\<lparr>t_ID := 2, t_Status := TaskPending\<rparr>,
      zero_task\<lparr>t_ID := 3, t_Status := TaskSkipped\<rparr>]
     (zero_task\<lparr>t_ID := 1, t_Status := TaskFailed, t_OnSuccess := [''2''], t_OnFailure := [''3'']\<rparr>))
   = [zero_task\<lparr>t_ID := 1, t_Status := TaskFailed\<rparr>, zero_task\<lparr>t_ID := 2, t_Status := TaskSkipped\<rparr>,
      zero_task\<lparr>t_ID := 3, t_Status := TaskPending\<rparr>]"
proof -
  have a: "atoi ''2'' = Some 2" "atoi ''3'' = Some 3" by code_simp+
  show ?thesis
    by (subst resolve_branch_refines_rules)
      (simp_all add: zero_task_def branch_outcome_def branch_lists_def a)
qed

text \<open>Newly planned tasks join the plan under ids that are positive, distinct, and carried by
  no task already in it.\<close>

theorem new_task_ids_are_fresh:
  "distinct (map t_ID (resolveIDCollisions batch existing)) \<and>
   set (map t_ID (resolveIDCollisions batch existing)) \<inter> set (map t_ID existing) = {} \<and>
   filter (\<lambda>t. t_ID t \<le> 0) (resolveIDCollisions batch existing) = [] \<and>
   length (resolveIDCollisions batch existing) = length batch"
proof -
  obtain ts' m where a:
      "assign_ids (map t_ID existing) (max_id existing + 1) Map.empty batch = (ts', m)"
    by fastforce
  have "max_id existing + 1 > 0" using max_id_nonneg [of existing] by simp
  from assign_ids_fresh [OF a this] have fresh:
    "distinct (map t_ID ts')" "set (map t_ID ts') \<inter> set (map t_ID existing) = {}"
    "\<forall>t \<in> set ts'. t_ID t > 0" by auto
  have ids: "map t_ID (resolveIDCollisions batch existing) = map t_ID ts'"
    by (simp add: map_ids_resolve a)
  then have len: "length (resolveIDCollisions batch existing) = length batch"
    using assign_ids_length [OF a] by (metis length_map)
  have "\<forall>i \<in> set (map t_ID (resolveIDCollisions batch existing)). i > 0"
    unfolding ids using fresh(3) by simp
  then have "filter (\<lambda>t. t_ID t \<le> 0) (resolveIDCollisions batch existing) = []"
    by (force simp: filter_empty_conv)
  with fresh ids len show ?thesis by simp
qed

text \<open>Renumbering keeps the dependencies inside the batch: a task that depended on a sibling
  depends on that sibling's new id.\<close>

theorem sibling_dependencies_survive:
  assumes "distinct (map t_ID batch)" and "i < length batch" and "j < length batch"
    and "k < length (t_DependsOn (batch ! i))" and "t_DependsOn (batch ! i) ! k = t_ID (batch ! j)"
  shows "t_DependsOn (resolveIDCollisions batch existing ! i) ! k
       = t_ID (resolveIDCollisions batch existing ! j)"
proof -
  obtain ts' m where a:
      "assign_ids (map t_ID existing) (max_id existing + 1) Map.empty batch = (ts', m)"
    by fastforce
  have len: "length ts' = length batch" by (rule assign_ids_length [OF a])
  have deps: "assign_ids used nxt r ts = (us, m') \<Longrightarrow> map t_DependsOn us = map t_DependsOn ts"
    for used nxt r ts us m'
    by (induction ts arbitrary: used nxt r us m') (auto simp: Let_def split: prod.splits if_splits)
  have "map (remap_id m) (map t_ID batch) = map t_ID ts'"
    using assign_ids_remap [OF a assms(1)] by simp
  then have "remap_id m (t_ID (batch ! j)) = t_ID (ts' ! j)"
    using assms(3) len by (metis length_map nth_map)
  moreover have "t_DependsOn (ts' ! i) = t_DependsOn (batch ! i)"
    using deps [OF a] assms(2) len by (metis nth_map)
  ultimately show ?thesis
    using a assms len by (simp add: resolveIDCollisions_def)
qed

theorem sibling_dependencies_survive_witness:
  "map (\<lambda>t. (t_ID t, t_DependsOn t)) (resolveIDCollisions
     [zero_task\<lparr>t_ID := 1\<rparr>, zero_task\<lparr>t_ID := 2, t_DependsOn := [1]\<rparr>] [zero_task\<lparr>t_ID := 1\<rparr>])
   = [(2, []), (3, [2])] \<and>
   t_DependsOn (resolveIDCollisions
     [zero_task\<lparr>t_ID := 1\<rparr>, zero_task\<lparr>t_ID := 2, t_DependsOn := [1]\<rparr>] [zero_task\<lparr>t_ID := 1\<rparr>] ! 1) ! 0
   = t_ID (resolveIDCollisions
     [zero_task\<lparr>t_ID := 1\<rparr>, zero_task\<lparr>t_ID := 2, t_DependsOn := [1]\<rparr>] [zero_task\<lparr>t_ID := 1\<rparr>] ! 0)"
proof
  show "map (\<lambda>t. (t_ID t, t_DependsOn t)) (resolveIDCollisions
     [zero_task\<lparr>t_ID := 1\<rparr>, zero_task\<lparr>t_ID := 2, t_DependsOn := [1]\<rparr>] [zero_task\<lparr>t_ID := 1\<rparr>])
   = [(2, []), (3, [2])]"
    by (simp add: zero_task_def resolveIDCollisions_def max_id_def remap_id_def next_unused.simps)
next
  show "t_DependsOn (resolveIDCollisions
     [zero_task\<lparr>t_ID := 1\<rparr>, zero_task\<lparr>t_ID := 2, t_DependsOn := [1]\<rparr>] [zero_task\<lparr>t_ID := 1\<rparr>] ! 1) ! 0
   = t_ID (resolveIDCollisions
     [zero_task\<lparr>t_ID := 1\<rparr>, zero_task\<lparr>t_ID := 2, t_DependsOn := [1]\<rparr>] [zero_task\<lparr>t_ID := 1\<rparr>] ! 0)"
    by (rule sibling_dependencies_survive) (simp_all add: zero_task_def)
qed

text \<open>A task is suspected of taking nodes down exactly when at least two different named
  executors were lost under it, however often each of them was.\<close>

theorem suspected_iff_two_nodes:
  "SuspectedNodeKiller losses \<longleftrightarrow> card (nl_ExecutorID ` set losses - {[]}) \<ge> 2"
proof -
  from DistinctNodes_correct [of losses]
  have "length (DistinctNodes losses) = card (nl_ExecutorID ` set losses - {[]})"
    by (metis distinct_card)
  then show ?thesis by (simp add: SuspectedNodeKiller_def NodeKillerThreshold_def)
qed

text \<open>A dependency list the dashboard accepts names existing tasks, each once, by positive ids
  and never the task itself; every other list is refused.\<close>

theorem accepted_dependencies_are_sound:
  "validateDependsOn deps self existing = None \<longleftrightarrow>
     distinct deps \<and> set deps \<subseteq> t_ID ` set existing \<and>
     filter (\<lambda>d. d \<le> 0 \<or> self \<noteq> 0 \<and> d = self) deps = []"
  by (auto simp: validateDependsOn_def validate_deps_None filter_empty_conv)

text \<open>After the deadline sweep every overdue task has top priority, the sweep reports exactly
  the overdue tasks, and a second sweep at the same time changes nothing.\<close>

theorem overdue_sweep_settles:
  "filter (\<lambda>t. IsOverdue now t \<and> t_Priority t \<noteq> 1) (fst (CheckAndBoostOverdue now ts)) = [] \<and>
   map or_Task (snd (CheckAndBoostOverdue now ts)) = map t_ID (filter (IsOverdue now) ts) \<and>
   fst (CheckAndBoostOverdue now (fst (CheckAndBoostOverdue now ts))) = fst (CheckAndBoostOverdue now ts)"
proof -
  have "filter (\<lambda>t. IsOverdue now t \<and> t_Priority t \<noteq> 1) (map (boost now) ts) = []"
    using boost_not_overdue_unboosted by (auto simp: filter_empty_conv)
  moreover have "or_Task (overdue_result t) = t_ID t" for t
    by (simp add: overdue_result_def)
  ultimately show ?thesis by (simp add: CheckAndBoostOverdue_def)
qed

text \<open>The compliance counts partition the tasks with a deadline: met, missed, and those not
  finished whose deadline is still ahead; with no such task the ratio is zero.\<close>

theorem sla_counts_partition:
  "sla_Total (ComputeSLAStats now ts) =
     sla_Met (ComputeSLAStats now ts) + sla_Missed (ComputeSLAStats now ts) +
     int (length (filter (\<lambda>t. case t_Deadline t of None \<Rightarrow> False
                            | Some d \<Rightarrow> \<not> satisfied (t_Status t) \<and> now \<le> d) ts)) \<and>
   (sla_Ratio (ComputeSLAStats now ts) = (0, 1) \<or>
    sla_Ratio (ComputeSLAStats now ts) =
      (sla_Met (ComputeSLAStats now ts), sla_Total (ComputeSLAStats now ts)))"
proof -
  have "length (filter (\<lambda>t. t_Deadline t \<noteq> None) ts) =
      length (filter (sla_met now) ts) + length (filter (sla_missed now) ts) +
      length (filter (\<lambda>t. case t_Deadline t of None \<Rightarrow> False
                            | Some d \<Rightarrow> \<not> satisfied (t_Status t) \<and> now \<le> d) ts)"
  proof (induction ts)
    case Nil
    then show ?case by simp
  next
    case (Cons t ts)
    then show ?case
      by (cases "t_Deadline t"; cases "t_CompletedAt t"; cases "satisfied (t_Status t)")
        (auto simp: sla_met_def sla_missed_def)
  qed
  then show ?thesis by (simp add: ComputeSLAStats_def Let_def)
qed

end
