(* ===== verification/Gate.thy ===== *)
theory Gate
  imports PlanOps "HOL-Library.Sublist"
begin

text \<open>
  The execution gate of \<open>pkg/orchestrator/gate.go\<close>: which tasks a pass over the plan lets run,
  and which it skips. The gate writes through task pointers, so a task is named here by its
  index in the plan, and a pass returns the plan it leaves. Console lines are not modelled; the
  annotation a skip writes on its task is. Task conditions (\<open>pkg/condition/condition.go\<close>) are
  evaluated by a shell and a provider the code does not contain: both are arguments.
\<close>

section \<open>Conditions\<close>

record CondResult =
  cr_Proceed :: bool
  cr_Reason :: string

text \<open>What \<open>Evaluate\<close> answers, as the pair of \<open>Proceed\<close> and whether an error is returned; the
  reason text is left out. \<open>shell\<close> runs a command and reports a zero exit; \<open>complete\<close> is the
  provider's answer, \<open>None\<close> for a failed call.\<close>

definition upper_char :: "char \<Rightarrow> char" where
  "upper_char c = (if 97 \<le> byte_val c \<and> byte_val c \<le> 122 then char_of (byte_val c - 32) else c)"

definition to_upper :: "string \<Rightarrow> string" where
  "to_upper s = map upper_char s"

fun infer_answer :: "string list \<Rightarrow> bool option" where
  "infer_answer [] = None"
| "infer_answer (l # ls) =
     (if contains (to_upper l) ''YES'' then Some True
      else if contains (to_upper l) ''NO'' then Some False
      else infer_answer ls)"

definition ai_proceeds :: "string \<Rightarrow> bool" where
  "ai_proceeds output =
     (let answer = trim_space output; upper = to_upper answer in
      if has_prefix upper ''YES'' then True
      else if has_prefix upper ''NO'' then False
      else case infer_answer (take 5 (split_on (CHR 0x0A) answer)) of
             Some b \<Rightarrow> b
           | None \<Rightarrow> True)"

definition EvaluateCondition ::
  "(string \<Rightarrow> bool) \<Rightarrow> (Task list \<Rightarrow> Task \<Rightarrow> string option) \<Rightarrow> Task list \<Rightarrow> Task \<Rightarrow> bool \<times> bool"
where
  "EvaluateCondition shell complete ts t =
     (if t_Condition t = [] then (True, False)
      else if has_prefix (t_Condition t) ''$'' then
        (let cmd = trim_space (trim_prefix (t_Condition t) ''$'') in
         if cmd = [] then (False, False) else (shell cmd, False))
      else case complete ts t of
             None \<Rightarrow> (True, True)
           | Some output \<Rightarrow> (ai_proceeds output, False))"

section \<open>Decisions and events\<close>

datatype GateEventKind = GateSkipBlocked | GateSkipTagFilter | GateSkipCondition
  | GateConditionMet | GateConditionError | GateHoldQuarantined

record GateEvent =
  ge_Kind :: GateEventKind
  ge_Task :: nat
  ge_Annotation :: string

definition IsSkip :: "GateEvent \<Rightarrow> bool" where
  "IsSkip e \<longleftrightarrow> ge_Kind e \<in> {GateSkipBlocked, GateSkipTagFilter, GateSkipCondition}"

record GateConfig =
  gc_TagFilter :: "string list"
  gc_Parallel :: bool
  gc_EvalCondition :: "(Task list \<Rightarrow> Task \<Rightarrow> CondResult \<times> bool) option"

record GateDecision =
  gd_Runnable :: "nat list"
  gd_Events :: "GateEvent list"
  gd_Exhausted :: bool

definition Skipped :: "GateDecision \<Rightarrow> nat" where
  "Skipped d = length (filter IsSkip (gd_Events d))"

definition SkippedIDs :: "Task list \<Rightarrow> GateDecision \<Rightarrow> int list" where
  "SkippedIDs ts d = map (\<lambda>e. t_ID (ts ! ge_Task e)) (filter IsSkip (gd_Events d))"

text \<open>\<open>%q\<close> of the \<open>fmt\<close> package on ASCII text.\<close>

definition quote_char :: "char \<Rightarrow> string" where
  "quote_char c =
     (if c = CHR 0x22 then [CHR 0x5C, c]
      else if c = CHR 0x5C then [c, c]
      else if c = CHR 0x0A then [CHR 0x5C, CHR ''n'']
      else if c = CHR 0x0D then [CHR 0x5C, CHR ''r'']
      else if c = CHR 0x09 then [CHR 0x5C, CHR ''t'']
      else [c])"

definition go_quote :: "string \<Rightarrow> string" where
  "go_quote s = [CHR 0x22] @ concat (map quote_char s) @ [CHR 0x22]"

definition blocked_note :: string where
  "blocked_note = ''Task skipped: permanently blocked by failed dependency.''"

definition tag_note :: "string list \<Rightarrow> string" where
  "tag_note fs = ''Task skipped: did not match active tag filter ['' @ join '' '' fs @ ''].''"

definition condition_note :: "Task \<Rightarrow> CondResult \<Rightarrow> string" where
  "condition_note t res =
     ''Task skipped: condition gate '' @ go_quote (t_Condition t) @ '' not met. Reason: '' @ cr_Reason res"

text \<open>\<open>applySkip\<close>: the status and the annotation together.\<close>

definition skipped_task :: "time \<Rightarrow> string \<Rightarrow> Task \<Rightarrow> Task" where
  "skipped_task now note t = AddAnnotation now ''ai'' note (t\<lparr>t_Status := TaskSkipped\<rparr>)"

definition applySkip ::
  "time \<Rightarrow> GateEventKind \<Rightarrow> string \<Rightarrow> nat \<Rightarrow> Task list \<Rightarrow> Task list \<times> GateEvent"
where
  "applySkip now kind note i ts =
     (ts[i := skipped_task now note (ts ! i)],
      \<lparr>ge_Kind = kind, ge_Task = i, ge_Annotation = note\<rparr>)"

section \<open>One pass\<close>

text \<open>\<open>ReadyTasks\<close> as pointers: the indices of the ready tasks in execution order.\<close>

definition ready_refs :: "Task list \<Rightarrow> nat list" where
  "ready_refs ts =
     go_stable_sort (\<lambda>i j. LessByExecutionOrder (ts ! i) (ts ! j))
       (filter (\<lambda>i. is_ready ts (ts ! i)) [0..<length ts])"

fun blocked_sweep :: "time \<Rightarrow> nat list \<Rightarrow> Task list \<Rightarrow> Task list \<times> GateEvent list" where
  "blocked_sweep now [] ts = (ts, [])"
| "blocked_sweep now (i # is) ts =
     (if t_Status (ts ! i) = TaskPending \<and> PermanentlyBlocked ts (ts ! i) then
        let (ts1, e) = applySkip now GateSkipBlocked blocked_note i ts;
            (ts2, es) = blocked_sweep now is ts1
        in (ts2, e # es)
      else blocked_sweep now is ts)"

fun tag_gate ::
  "time \<Rightarrow> string list \<Rightarrow> nat list \<Rightarrow> Task list \<Rightarrow> Task list \<times> GateEvent list \<times> nat list"
where
  "tag_gate now fs [] ts = (ts, [], [])"
| "tag_gate now fs (i # is) ts =
     (if TaskMatchesTags (ts ! i) fs then
        let (ts1, es, kept) = tag_gate now fs is ts in (ts1, es, i # kept)
      else
        let (ts1, e) = applySkip now GateSkipTagFilter (tag_note fs) i ts;
            (ts2, es, kept) = tag_gate now fs is ts1
        in (ts2, e # es, kept))"

fun condition_gate ::
  "time \<Rightarrow> (Task list \<Rightarrow> Task \<Rightarrow> CondResult \<times> bool) option \<Rightarrow> nat list \<Rightarrow> Task list \<Rightarrow>
   Task list \<times> GateEvent list \<times> nat list"
where
  "condition_gate now eval [] ts = (ts, [], [])"
| "condition_gate now eval (i # is) ts =
     (if t_Condition (ts ! i) = [] then
        let (ts1, es, kept) = condition_gate now eval is ts in (ts1, es, i # kept)
      else case eval of
        None \<Rightarrow>
          let (ts1, es, kept) = condition_gate now eval is ts
          in (ts1, \<lparr>ge_Kind = GateConditionError, ge_Task = i, ge_Annotation = []\<rparr> # es, i # kept)
      | Some f \<Rightarrow>
          let (res, err) = f ts (ts ! i);
              err_ev = (if err then [\<lparr>ge_Kind = GateConditionError, ge_Task = i, ge_Annotation = []\<rparr>]
                        else [])
          in if \<not> cr_Proceed res then
               let (ts1, e) = applySkip now GateSkipCondition (condition_note (ts ! i) res) i ts;
                   (ts2, es, kept) = condition_gate now eval is ts1
               in (ts2, err_ev @ e # es, kept)
             else
               let (ts1, es, kept) = condition_gate now eval is ts
               in (ts1, err_ev @ \<lparr>ge_Kind = GateConditionMet, ge_Task = i, ge_Annotation = []\<rparr> # es,
                   i # kept))"

definition gate_pass :: "time \<Rightarrow> GateConfig \<Rightarrow> Task list \<Rightarrow> Task list \<times> GateDecision" where
  "gate_pass now cfg ts =
     (let ready = ready_refs ts;
          held = filter (\<lambda>i. Quarantined (ts ! i)) ready;
          eligible = filter (\<lambda>i. \<not> Quarantined (ts ! i)) ready;
          held_ev = map (\<lambda>i. \<lparr>ge_Kind = GateHoldQuarantined, ge_Task = i, ge_Annotation = []\<rparr>) held
      in if eligible = [] then
           let (ts1, swept) = blocked_sweep now [0..<length ts] ts
           in (ts1, \<lparr>gd_Runnable = [], gd_Events = held_ev @ swept, gd_Exhausted = (swept = [])\<rparr>)
         else
           let candidates = (if gc_Parallel cfg then eligible else [hd eligible]);
               (ts1, tag_ev, tagged) = tag_gate now (gc_TagFilter cfg) candidates ts;
               (ts2, cond_ev, kept) = condition_gate now (gc_EvalCondition cfg) tagged ts1
           in (ts2, \<lparr>gd_Runnable = kept, gd_Events = held_ev @ tag_ev @ cond_ev,
                     gd_Exhausted = False\<rparr>))"

definition GateTasks :: "time \<Rightarrow> GateConfig \<Rightarrow> Task list option \<Rightarrow> Task list option \<times> GateDecision" where
  "GateTasks now cfg plan =
     (case plan of
        None \<Rightarrow> (None, \<lparr>gd_Runnable = [], gd_Events = [], gd_Exhausted = True\<rparr>)
      | Some ts \<Rightarrow> let (ts1, d) = gate_pass now cfg ts in (Some ts1, d))"

text \<open>The caller's loop around the gate (\<open>runPMSequential\<close>): a pass that lets nothing run is
  repeated unless it says the plan is exhausted. \<open>None\<close> is running out of fuel.\<close>

fun gate_loop :: "nat \<Rightarrow> time \<Rightarrow> GateConfig \<Rightarrow> Task list \<Rightarrow> (Task list \<times> GateDecision) option" where
  "gate_loop 0 now cfg ts = None"
| "gate_loop (Suc n) now cfg ts =
     (let (ts1, d) = gate_pass now cfg ts in
      if gd_Runnable d \<noteq> [] \<or> gd_Exhausted d then Some (ts1, d) else gate_loop n now cfg ts1)"

section \<open>Facts about a pass\<close>

lemma subseq_set: "subseq xs ys \<Longrightarrow> set xs \<subseteq> set ys"
  by (induction rule: list_emb.induct) auto

lemma subseq_keeps_distinct: "subseq xs ys \<Longrightarrow> distinct ys \<Longrightarrow> distinct xs"
  by (induction rule: list_emb.induct) (auto dest: subseq_set)

lemma filter_upt_nth: "map ((!) xs) (filter (\<lambda>i. P (xs ! i)) [0..<length xs]) = filter P xs"
proof -
  have "filter P (map ((!) xs) [0..<length xs]) = filter P xs" by (simp add: map_nth)
  then show ?thesis by (simp add: filter_map comp_def)
qed

text \<open>The pointers are those of the task queue.\<close>

lemma ready_refs_ReadyTasks: "map ((!) ts) (ready_refs ts) = ReadyTasks ts"
  unfolding ready_refs_def queue_defs map_go_stable_sort
  by (simp add: filter_upt_nth)

lemma set_ready_refs: "set (ready_refs ts) = {i. i < length ts \<and> is_ready ts (ts ! i)}"
  by (auto simp: ready_refs_def)

lemma distinct_ready_refs: "distinct (ready_refs ts)"
proof -
  have "mset (ready_refs ts) = mset (filter (\<lambda>i. is_ready ts (ts ! i)) [0..<length ts])"
    by (simp add: ready_refs_def)
  then show ?thesis by (metis distinct_filter distinct_upt mset_eq_imp_distinct_iff)
qed

lemma skipped_task_fields [simp]:
  "t_ID (skipped_task now n t) = t_ID t" "t_Status (skipped_task now n t) = TaskSkipped"
  "t_DependsOn (skipped_task now n t) = t_DependsOn t"
  by (simp_all add: skipped_task_def AddAnnotation_def)

text \<open>\<open>skips now is ts us\<close>: the pass turned \<open>ts\<close> into \<open>us\<close> by skipping only tasks among the
  indices \<open>is\<close>. Everything a pass does to a plan is of this form.\<close>

definition skips :: "time \<Rightarrow> nat set \<Rightarrow> Task list \<Rightarrow> Task list \<Rightarrow> bool" where
  "skips now is ts us \<longleftrightarrow> length us = length ts \<and>
     (\<forall>j < length ts. us ! j = ts ! j \<or> (j \<in> is \<and> (\<exists>note. us ! j = skipped_task now note (ts ! j))))"

lemma skips_refl [simp]: "skips now is ts ts"
  by (simp add: skips_def)

lemma skips_mono: "skips now A ts us \<Longrightarrow> A \<subseteq> B \<Longrightarrow> skips now B ts us"
  unfolding skips_def by blast

lemma skips_disjoint_trans:
  "skips now A ts us \<Longrightarrow> skips now B us vs \<Longrightarrow> A \<inter> B = {} \<Longrightarrow> skips now (A \<union> B) ts vs"
  unfolding skips_def by (metis IntI UnI1 UnI2 empty_iff)

lemma skips_one: "i < length ts \<Longrightarrow> skips now {i} ts (ts[i := skipped_task now note (ts ! i)])"
  unfolding skips_def by (auto simp: nth_list_update)

lemma skips_other: "skips now A ts us \<Longrightarrow> j < length ts \<Longrightarrow> j \<notin> A \<Longrightarrow> us ! j = ts ! j"
  unfolding skips_def by blast

lemma skips_length: "skips now A ts us \<Longrightarrow> length us = length ts"
  by (simp add: skips_def)

lemma tag_gate_skips:
  assumes "tag_gate now fs is ts = (us, es, kept)" and "distinct is" and "\<forall>i \<in> set is. i < length ts"
  shows "skips now (set is - set kept) ts us \<and> subseq kept is \<and>
    (\<forall>i \<in> set kept. TaskMatchesTags (ts ! i) fs) \<and>
    (\<forall>i \<in> set is - set kept. t_Status (us ! i) = TaskSkipped) \<and>
    (set is - set kept \<noteq> {} \<longleftrightarrow> es \<noteq> [])"
  using assms
proof (induction "is" arbitrary: ts us es kept)
  case Nil
  then show ?case by simp
next
  case (Cons i "is")
  show ?case
  proof (cases "TaskMatchesTags (ts ! i) fs")
    case True
    with Cons.prems obtain k where rec: "tag_gate now fs is ts = (us, es, k)" and kept: "kept = i # k"
      by (auto split: prod.splits)
    from Cons.IH [OF rec] Cons.prems
    have IH: "skips now (set is - set k) ts us" "subseq k is"
      "\<forall>i \<in> set k. TaskMatchesTags (ts ! i) fs"
      "\<forall>i \<in> set is - set k. t_Status (us ! i) = TaskSkipped"
      "set is - set k \<noteq> {} \<longleftrightarrow> es \<noteq> []" by auto
    have eq: "set (i # is) - set kept = set is - set k"
      using Cons.prems(2) kept by auto
    show ?thesis unfolding eq using IH kept True by auto
  next
    case False
    let ?ts = "ts[i := skipped_task now (tag_note fs) (ts ! i)]"
    from False Cons.prems obtain k es1 where
      rec: "tag_gate now fs is ?ts = (us, es1, k)" and kept: "kept = k"
      and es: "es = \<lparr>ge_Kind = GateSkipTagFilter, ge_Task = i, ge_Annotation = tag_note fs\<rparr> # es1"
      by (auto simp: applySkip_def split: prod.splits)
    from Cons.IH [OF rec] Cons.prems
    have IH: "skips now (set is - set k) ?ts us" "subseq k is"
      "\<forall>j \<in> set k. TaskMatchesTags (?ts ! j) fs"
      "\<forall>j \<in> set is - set k. t_Status (us ! j) = TaskSkipped" by auto
    have i: "i < length ts" "i \<notin> set is" using Cons.prems by auto
    have ik: "i \<notin> set k" using IH(2) i(2) by (auto dest: subseq_set)
    have eq: "set (i # is) - set kept = {i} \<union> (set is - set k)" using ik kept by auto
    have "skips now ({i} \<union> (set is - set k)) ts us"
      by (rule skips_disjoint_trans [OF skips_one [OF i(1)] IH(1)]) (use i in auto)
    moreover have "us ! i = ?ts ! i" using skips_other [OF IH(1), of i] i by auto
    then have "t_Status (us ! i) = TaskSkipped" using i by simp
    moreover have "\<forall>j \<in> set k. TaskMatchesTags (ts ! j) fs"
      using IH(3) ik by (metis nth_list_update_neq)
    ultimately show ?thesis unfolding eq using IH kept es by auto
  qed
qed

lemma condition_gate_skips:
  assumes "condition_gate now eval is ts = (us, es, kept)" and "distinct is"
    and "\<forall>i \<in> set is. i < length ts"
  shows "skips now (set is - set kept) ts us \<and> subseq kept is \<and>
    (\<forall>i \<in> set is - set kept. t_Status (us ! i) = TaskSkipped)"
  using assms
proof (induction "is" arbitrary: ts us es kept)
  case Nil
  then show ?case by simp
next
  case (Cons i "is")
  consider (keep) es1 k where "condition_gate now eval is ts = (us, es1, k)" "kept = i # k"
    | (skip) note1 es1 k where
        "condition_gate now eval is (ts[i := skipped_task now note1 (ts ! i)]) = (us, es1, k)"
        "kept = k"
    using Cons.prems(1)
    by (fastforce simp: applySkip_def Let_def split: if_splits option.splits prod.splits)
  then show ?case
  proof cases
    case keep
    from Cons.IH [OF keep(1)] Cons.prems
    have IH: "skips now (set is - set k) ts us" "subseq k is"
      "\<forall>i \<in> set is - set k. t_Status (us ! i) = TaskSkipped" by auto
    have eq: "set (i # is) - set kept = set is - set k" using Cons.prems(2) keep(2) by auto
    show ?thesis unfolding eq using IH keep(2) by auto
  next
    case skip
    let ?ts = "ts[i := skipped_task now note1 (ts ! i)]"
    from Cons.IH [OF skip(1)] Cons.prems
    have IH: "skips now (set is - set k) ?ts us" "subseq k is"
      "\<forall>j \<in> set is - set k. t_Status (us ! j) = TaskSkipped" by auto
    have i: "i < length ts" "i \<notin> set is" using Cons.prems by auto
    have ik: "i \<notin> set k" using IH(2) i(2) by (auto dest: subseq_set)
    have eq: "set (i # is) - set kept = {i} \<union> (set is - set k)" using ik skip(2) by auto
    have "skips now ({i} \<union> (set is - set k)) ts us"
      by (rule skips_disjoint_trans [OF skips_one [OF i(1)] IH(1)]) (use i in auto)
    moreover have "us ! i = ?ts ! i" using skips_other [OF IH(1), of i] i by auto
    then have "t_Status (us ! i) = TaskSkipped" using i by simp
    ultimately show ?thesis unfolding eq using IH skip(2) by auto
  qed
qed

lemma PermanentlyBlocked_update:
  assumes "t_ID u = t_ID (ts ! i)" and "i < length ts"
    and "\<not> depIsTerminalFailure (ts ! i)" and "\<not> depIsTerminalFailure u"
  shows "PermanentlyBlocked (ts[i := u]) t = PermanentlyBlocked ts t"
proof -
  have "(\<exists>dep \<in> set (ts[i := u]). t_ID dep = d \<and> depIsTerminalFailure dep) \<longleftrightarrow>
        (\<exists>dep \<in> set ts. t_ID dep = d \<and> depIsTerminalFailure dep)" for d
    using assms unfolding Bex_def in_set_conv_nth
    by (metis length_list_update nth_list_update_eq nth_list_update_neq)
  then show ?thesis by (simp add: PermanentlyBlocked_def list_ex_iff)
qed

text \<open>The sweep decides every task on the plan it started from: skipping one task never changes
  whether another is permanently blocked.\<close>

definition swept :: "time \<Rightarrow> Task list \<Rightarrow> Task \<Rightarrow> Task" where
  "swept now ts t = (if t_Status t = TaskPending \<and> PermanentlyBlocked ts t
                     then skipped_task now blocked_note t else t)"

lemma blocked_sweep_nth:
  assumes "blocked_sweep now is ts = (us, es)" and "distinct is" and "\<forall>i \<in> set is. i < length ts"
  shows "length us = length ts \<and>
    (\<forall>j < length ts. us ! j = (if j \<in> set is then swept now ts (ts ! j) else ts ! j)) \<and>
    map ge_Task es = filter (\<lambda>i. t_Status (ts ! i) = TaskPending \<and> PermanentlyBlocked ts (ts ! i)) is"
  using assms
proof (induction "is" arbitrary: ts us es)
  case Nil
  then show ?case by simp
next
  case (Cons i "is")
  show ?case
  proof (cases "t_Status (ts ! i) = TaskPending \<and> PermanentlyBlocked ts (ts ! i)")
    case False
    with Cons.prems have "blocked_sweep now is ts = (us, es)" by auto
    from Cons.IH [OF this] Cons.prems False show ?thesis by (auto simp: swept_def)
  next
    case True
    let ?ts = "ts[i := skipped_task now blocked_note (ts ! i)]"
    from True Cons.prems obtain es1 where rec: "blocked_sweep now is ?ts = (us, es1)"
      and es: "es = \<lparr>ge_Kind = GateSkipBlocked, ge_Task = i, ge_Annotation = blocked_note\<rparr> # es1"
      by (auto simp: applySkip_def split: prod.splits)
    have i: "i < length ts" "i \<notin> set is" using Cons.prems by auto
    have pb: "PermanentlyBlocked ?ts t = PermanentlyBlocked ts t" for t
      using True i(1) by (intro PermanentlyBlocked_update) (auto simp: depIsTerminalFailure_def)
    from Cons.IH [OF rec] Cons.prems
    have IH: "length us = length ts"
      "\<forall>j < length ts. us ! j = (if j \<in> set is then swept now ?ts (?ts ! j) else ?ts ! j)"
      "map ge_Task es1 = filter (\<lambda>i. t_Status (?ts ! i) = TaskPending \<and> PermanentlyBlocked ?ts (?ts ! i)) is"
      by auto
    have nth: "us ! j = (if j \<in> set (i # is) then swept now ts (ts ! j) else ts ! j)"
      if j: "j < length ts" for j
    proof (cases "j = i")
      case True
      have "us ! i = skipped_task now blocked_note (ts ! i)"
        using IH(2) i by simp
      moreover have "swept now ts (ts ! i) = skipped_task now blocked_note (ts ! i)"
        using \<open>t_Status (ts ! i) = TaskPending \<and> PermanentlyBlocked ts (ts ! i)\<close>
        by (simp add: swept_def)
      ultimately show ?thesis using True by simp
    next
      case False
      then show ?thesis using IH(2) j by (simp add: swept_def pb)
    qed
    have same: "?ts ! x = ts ! x" if "x \<in> set is" for x
      using that i(2) by (metis nth_list_update_neq)
    have "filter (\<lambda>i. t_Status (?ts ! i) = TaskPending \<and> PermanentlyBlocked ?ts (?ts ! i)) is =
        filter (\<lambda>i. t_Status (ts ! i) = TaskPending \<and> PermanentlyBlocked ts (ts ! i)) is"
      by (rule filter_cong) (simp_all add: same pb)
    then show ?thesis using IH(1,3) es True nth by simp
  qed
qed

lemma blocked_sweep_map:
  assumes "blocked_sweep now [0..<length ts] ts = (us, es)"
  shows "us = map (swept now ts) ts \<and>
    (es = [] \<longleftrightarrow> (\<forall>t \<in> set ts. \<not> (t_Status t = TaskPending \<and> PermanentlyBlocked ts t)))"
proof -
  note n = blocked_sweep_nth [OF assms]
  have "us = map (swept now ts) ts" using n by (intro nth_equalityI) auto
  moreover have "es = [] \<longleftrightarrow> map ge_Task es = []" by simp
  ultimately show ?thesis using n by (auto simp: filter_empty_conv all_set_conv_all_nth)
qed

lemma swept_skips: "skips now {j. t_Status (ts ! j) = TaskPending} ts (map (swept now ts) ts)"
  by (auto simp: skips_def swept_def)

definition eligible_refs :: "Task list \<Rightarrow> nat list" where
  "eligible_refs ts = filter (\<lambda>i. \<not> Quarantined (ts ! i)) (ready_refs ts)"

lemma set_eligible_refs:
  "set (eligible_refs ts) = {i. i < length ts \<and> is_ready ts (ts ! i) \<and> \<not> Quarantined (ts ! i)}"
  by (auto simp: eligible_refs_def set_ready_refs)

lemma distinct_eligible_refs: "distinct (eligible_refs ts)"
  by (simp add: eligible_refs_def distinct_ready_refs)

text \<open>The two shapes of a pass.\<close>

lemma gate_pass_idle:
  assumes "eligible_refs ts = []"
    and "gate_pass now cfg ts = (us, d)"
  shows "us = map (swept now ts) ts \<and> gd_Runnable d = [] \<and>
    (gd_Exhausted d \<longleftrightarrow> (\<forall>t \<in> set ts. \<not> (t_Status t = TaskPending \<and> PermanentlyBlocked ts t)))"
  using assms blocked_sweep_map [of now ts]
  by (auto simp: gate_pass_def Let_def eligible_refs_def split: prod.splits)

lemma gate_pass_busy:
  assumes ne: "eligible_refs ts \<noteq> []"
    and pass: "gate_pass now cfg ts = (us, d)"
  defines "cand \<equiv> if gc_Parallel cfg then eligible_refs ts else [hd (eligible_refs ts)]"
  shows "\<not> gd_Exhausted d \<and> subseq (gd_Runnable d) cand \<and>
    skips now (set cand - set (gd_Runnable d)) ts us \<and>
    (\<forall>i \<in> set cand - set (gd_Runnable d). t_Status (us ! i) = TaskSkipped) \<and>
    (\<forall>i \<in> set (gd_Runnable d). TaskMatchesTags (ts ! i) (gc_TagFilter cfg))"
proof -
  have cand: "distinct cand" "\<forall>i \<in> set cand. i < length ts" "set cand \<subseteq> set (eligible_refs ts)"
    using ne hd_in_set [OF ne] distinct_ready_refs [of ts]
    by (auto simp: cand_def eligible_refs_def set_ready_refs)
  obtain ts1 te tagged where t: "tag_gate now (gc_TagFilter cfg) cand ts = (ts1, te, tagged)"
    by (metis prod_cases3)
  obtain ts2 ce kept where c:
      "condition_gate now (gc_EvalCondition cfg) tagged ts1 = (ts2, ce, kept)"
    by (metis prod_cases3)
  have d: "us = ts2" "gd_Runnable d = kept" "\<not> gd_Exhausted d"
    using pass ne t c by (auto simp: gate_pass_def Let_def cand_def eligible_refs_def split: if_splits)
  note T = tag_gate_skips [OF t cand(1,2)]
  then have tagged: "subseq tagged cand" "set tagged \<subseteq> set cand" by (auto dest: subseq_set)
  have dt: "distinct tagged" using tagged(1) cand(1) by (rule subseq_keeps_distinct)
  have len1: "length ts1 = length ts" using T by (auto dest: skips_length)
  then have "\<forall>i \<in> set tagged. i < length ts1" using tagged(2) cand(2) by auto
  note C = condition_gate_skips [OF c dt this]
  then have kept: "subseq kept tagged" "set kept \<subseteq> set tagged" by (auto dest: subseq_set)
  have eq: "set cand - set kept = (set cand - set tagged) \<union> (set tagged - set kept)"
    using tagged(2) kept(2) by auto
  have sk: "skips now ((set cand - set tagged) \<union> (set tagged - set kept)) ts us"
    unfolding d(1) by (rule skips_disjoint_trans [of now _ ts ts1]) (use T C in auto)
  have "t_Status (us ! i) = TaskSkipped" if i: "i \<in> set cand - set kept" for i
  proof (cases "i \<in> set tagged")
    case True
    with C i d(1) show ?thesis by auto
  next
    case False
    with i T have "t_Status (ts1 ! i) = TaskSkipped" by auto
    moreover have "ts2 ! i = ts1 ! i"
      using C False i cand(2) len1 by (intro skips_other [of now "set tagged - set kept"]) auto
    ultimately show ?thesis using d(1) by simp
  qed
  then show ?thesis
    using d sk eq T kept tagged(1) by (auto intro: subseq_order.trans)
qed

text \<open>Pending tasks only ever leave: a pass that lets nothing run and does not report the plan
  exhausted has skipped one.\<close>

abbreviation pending_count :: "Task list \<Rightarrow> nat" where
  "pending_count ts \<equiv> length (filter (\<lambda>t. t_Status t = TaskPending) ts)"

lemma length_filter_nth: "length (filter P xs) = card {i. i < length xs \<and> P (xs ! i)}"
  by (rule length_filter_conv_card)

lemma fewer_pending:
  assumes "length us = length ts"
    and "\<forall>j < length ts. us ! j = ts ! j \<or> t_Status (us ! j) = TaskSkipped"
    and "i < length ts" and "t_Status (ts ! i) = TaskPending" and "t_Status (us ! i) = TaskSkipped"
  shows "pending_count us < pending_count ts"
proof -
  have "{j. j < length us \<and> t_Status (us ! j) = TaskPending} \<subset>
        {j. j < length ts \<and> t_Status (ts ! j) = TaskPending}"
  proof (rule psubsetI)
    show "{j. j < length us \<and> t_Status (us ! j) = TaskPending} \<subseteq>
          {j. j < length ts \<and> t_Status (ts ! j) = TaskPending}"
      using assms(1,2) by fastforce
    show "{j. j < length us \<and> t_Status (us ! j) = TaskPending} \<noteq>
          {j. j < length ts \<and> t_Status (ts ! j) = TaskPending}"
    proof
      assume eq: "{j. j < length us \<and> t_Status (us ! j) = TaskPending} =
          {j. j < length ts \<and> t_Status (ts ! j) = TaskPending}"
      have "i \<in> {j. j < length ts \<and> t_Status (ts ! j) = TaskPending}" using assms(3,4) by simp
      with eq have "t_Status (us ! i) = TaskPending" by blast
      with assms(5) show False by simp
    qed
  qed
  then show ?thesis unfolding length_filter_nth by (intro psubset_card_mono) auto
qed

lemma gate_pass_progress:
  assumes pass: "gate_pass now cfg ts = (us, d)" and "gd_Runnable d = []" and "\<not> gd_Exhausted d"
  shows "pending_count us < pending_count ts"
proof (cases "eligible_refs ts = []")
  case True
  from gate_pass_idle [OF True pass] assms(3) obtain t where
    us: "us = map (swept now ts) ts" and t: "t \<in> set ts" "t_Status t = TaskPending" "PermanentlyBlocked ts t"
    by blast
  then obtain i where "i < length ts" "ts ! i = t" by (auto simp: in_set_conv_nth)
  with t us show ?thesis by (intro fewer_pending [of us ts i]) (auto simp: swept_def)
next
  case False
  let ?c = "if gc_Parallel cfg then eligible_refs ts else [hd (eligible_refs ts)]"
  note B = gate_pass_busy [OF False pass]
  have hd: "hd (eligible_refs ts) \<in> set (eligible_refs ts)" using False by simp
  then have "hd (eligible_refs ts) \<in> set ?c - set (gd_Runnable d)" using assms(2) by simp
  moreover from hd have "hd (eligible_refs ts) < length ts"
    "t_Status (ts ! hd (eligible_refs ts)) = TaskPending"
    by (auto simp: set_eligible_refs is_ready_def)
  moreover have "\<forall>j < length ts. us ! j = ts ! j \<or> t_Status (us ! j) = TaskSkipped"
    using B by (auto simp: skips_def)
  ultimately show ?thesis
    using B by (intro fewer_pending [of us ts "hd (eligible_refs ts)"]) (auto dest: skips_length)
qed

lemma gate_pass_exhausted:
  assumes "gate_pass now cfg ts = (us, d)" and "gd_Exhausted d"
  shows "gd_Runnable d = [] \<and> eligible_refs ts = [] \<and> us = ts \<and>
    filter (\<lambda>t. t_Status t = TaskPending \<and> PermanentlyBlocked ts t) ts = []"
proof -
  have el: "eligible_refs ts = []" using gate_pass_busy [OF _ assms(1)] assms(2) by blast
  from gate_pass_idle [OF el assms(1)] assms(2) have
    i: "us = map (swept now ts) ts" "gd_Runnable d = []"
      "\<forall>t \<in> set ts. \<not> (t_Status t = TaskPending \<and> PermanentlyBlocked ts t)" by auto
  moreover from i(3) have "map (swept now ts) ts = ts" by (intro map_idI) (auto simp: swept_def)
  ultimately have "us = ts" by simp
  with el i show ?thesis by (auto simp: filter_empty_conv)
qed

section \<open>Properties\<close>

text \<open>C22: What a gate pass lets run is, in execution order, among the ready tasks: none is
  quarantined, every one matches the tag filter, none was modified by the pass, and a sequential
  pass lets at most one run.\<close>

theorem gate_runs_only_eligible:
  "case gate_pass now cfg ts of (us, d) \<Rightarrow>
     subseq (gd_Runnable d) (ready_refs ts) \<and>
     filter (\<lambda>i. \<not> (\<not> Quarantined (ts ! i) \<and> TaskMatchesTags (ts ! i) (gc_TagFilter cfg) \<and> us ! i = ts ! i))
       (gd_Runnable d) = [] \<and>
     length (gd_Runnable d) \<le> (if gc_Parallel cfg then length ts else 1)"
proof -
  obtain us d where pass: "gate_pass now cfg ts = (us, d)" by fastforce
  show ?thesis
  proof (cases "eligible_refs ts = []")
    case True
    with gate_pass_idle [OF True pass] pass show ?thesis by simp
  next
    case False
    let ?c = "if gc_Parallel cfg then eligible_refs ts else [hd (eligible_refs ts)]"
    note B = gate_pass_busy [OF False pass]
    have el: "subseq (eligible_refs ts) (ready_refs ts)" by (simp add: eligible_refs_def)
    have "subseq ?c (eligible_refs ts)" using False by (cases "eligible_refs ts") auto
    with B have sub: "subseq (gd_Runnable d) (eligible_refs ts)" by (meson subseq_order.trans)
    have mem: "i < length ts \<and> \<not> Quarantined (ts ! i)" if "i \<in> set (gd_Runnable d)" for i
      using subseq_set [OF sub] that by (auto simp: set_eligible_refs)
    have "us ! i = ts ! i" if "i \<in> set (gd_Runnable d)" for i
      using B mem [OF that] that by (intro skips_other [of now "set ?c - set (gd_Runnable d)"]) auto
    moreover have "length (eligible_refs ts) \<le> length ts"
    proof -
      have "length (eligible_refs ts) = card (set (eligible_refs ts))"
        by (simp add: distinct_card distinct_eligible_refs)
      also have "\<dots> \<le> card {..<length ts}"
        by (intro card_mono) (auto simp: set_eligible_refs)
      finally show ?thesis by simp
    qed
    then have "length (gd_Runnable d) \<le> (if gc_Parallel cfg then length ts else 1)"
      using B list_emb_length [of "(=)" "gd_Runnable d" ?c] by (auto split: if_splits)
    moreover have "subseq (gd_Runnable d) (ready_refs ts)" using sub el by (rule subseq_order.trans)
    moreover have "\<forall>i \<in> set (gd_Runnable d). TaskMatchesTags (ts ! i) (gc_TagFilter cfg)"
      using B by blast
    moreover note mem
    ultimately have "filter (\<lambda>i. \<not> (\<not> Quarantined (ts ! i) \<and> TaskMatchesTags (ts ! i) (gc_TagFilter cfg)
          \<and> us ! i = ts ! i)) (gd_Runnable d) = []"
        and "subseq (gd_Runnable d) (ready_refs ts)"
        and "length (gd_Runnable d) \<le> (if gc_Parallel cfg then length ts else 1)"
      unfolding filter_empty_conv by blast+
    then show ?thesis unfolding pass prod.case by blast
  qed
qed

text \<open>C32: The loop around the gate ends, after at most one pass more than the plan has pending
  tasks: either some task may run, or the plan is reported exhausted, and then no unquarantined
  task is ready and none is still waiting behind a failed dependency.\<close>

theorem gate_loop_decides:
  "case gate_loop (Suc (pending_count ts)) now cfg ts of
     None \<Rightarrow> False
   | Some (us, d) \<Rightarrow>
       if gd_Exhausted d
       then gd_Runnable d = [] \<and> eligible_refs us = [] \<and>
            filter (\<lambda>t. t_Status t = TaskPending \<and> PermanentlyBlocked us t) us = []
       else gd_Runnable d \<noteq> []"
proof -
  let ?good = "\<lambda>r. case r of None \<Rightarrow> False | Some (us, d) \<Rightarrow>
       if gd_Exhausted d
       then gd_Runnable d = [] \<and> eligible_refs us = [] \<and>
            filter (\<lambda>t. t_Status t = TaskPending \<and> PermanentlyBlocked us t) us = []
       else gd_Runnable d \<noteq> []"
  have "?good (gate_loop n now cfg ts)" if "pending_count ts < n" for n
    using that
  proof (induction n arbitrary: ts)
    case 0
    then show ?case by simp
  next
    case (Suc n)
    obtain us d where pass: "gate_pass now cfg ts = (us, d)" by fastforce
    show ?case
    proof (cases "gd_Runnable d = [] \<and> \<not> gd_Exhausted d")
      case True
      with gate_pass_progress [OF pass] Suc.prems have "pending_count us < n" by auto
      from Suc.IH [OF this] True pass show ?thesis by simp
    next
      case False
      show ?thesis
      proof (cases "gd_Exhausted d")
        case True
        note x = gate_pass_exhausted [OF pass True]
        then have us: "us = ts" by blast
        show ?thesis using x True pass unfolding us by simp
      next
        case exhausted: False
        with False pass show ?thesis by simp
      qed
    qed
  qed
  then show ?thesis by blast
qed

text \<open>The blocked sweep decides every task on the plan it was given: although it writes while
  it walks, skipping one task changes the verdict on no other.\<close>

theorem blocked_sweep_is_simultaneous:
  "fst (blocked_sweep now [0..<length ts] ts) =
     map (\<lambda>t. if t_Status t = TaskPending \<and> PermanentlyBlocked ts t
              then skipped_task now blocked_note t else t) ts"
  using blocked_sweep_map [of now ts] by (cases "blocked_sweep now [0..<length ts] ts")
    (simp add: swept_def [abs_def])

text \<open>A task skipped because its dependency failed satisfies the tasks that depend on it:
  in the chain 1 (failed), 2 after 1, 3 after 2, the gate skips 2 and lets 3 run.\<close>

theorem skipped_dependency_releases_dependents:
  "map_option (\<lambda>(us, d). (map t_Status us, map (\<lambda>i. t_ID (us ! i)) (gd_Runnable d)))
     (gate_loop 2 now \<lparr>gc_TagFilter = [], gc_Parallel = par, gc_EvalCondition = ev\<rparr>
       [zero_task\<lparr>t_ID := 1, t_Status := TaskFailed\<rparr>,
        zero_task\<lparr>t_ID := 2, t_Status := TaskPending, t_DependsOn := [1]\<rparr>,
        zero_task\<lparr>t_ID := 3, t_Status := TaskPending, t_DependsOn := [2]\<rparr>])
   = Some ([TaskFailed, TaskSkipped, TaskPending], [3])"
  by (simp add: gate_loop.simps eval_nat_numeral gate_pass_def ready_refs_def go_stable_sort_def
      upt_conv_Cons Let_def is_ready_def DepsReady_def TaskByID_def satisfied_def zero_task_def
      PermanentlyBlocked_def depIsTerminalFailure_def Quarantined_def LessByExecutionOrder_def
      applySkip_def skipped_task_def AddAnnotation_def)

end
