(* ===== verification/GoTime.thy ===== *)
theory GoTime
  imports GoStrings
begin

text \<open>
  What the code uses of Go's \<open>time\<close> package beyond comparing instants: the calendar (proleptic
  Gregorian, from the days since 1 January of year 1) and the text of an instant in UTC under
  the layout \<open>time.RFC3339Nano\<close>.
\<close>

text \<open>Month and day of a day number, counted from 1 March of a 400-year cycle.\<close>

definition civil_month_day :: "int \<Rightarrow> int \<times> int" where
  "civil_month_day days =
     (let doe = (days + 306) mod 146097;
          yoe = (doe - doe div 1460 + doe div 36524 - doe div 146096) div 365;
          doy = doe - (365 * yoe + yoe div 4 - yoe div 100);
          mp = (5 * doy + 2) div 153
      in (if mp < 10 then mp + 3 else mp - 9, doy - (153 * mp + 2) div 5 + 1))"

definition civil_year :: "int \<Rightarrow> int" where
  "civil_year days =
     (let doe = (days + 306) mod 146097;
          yoe = (doe - doe div 1460 + doe div 36524 - doe div 146096) div 365;
          year = yoe + 400 * ((days + 306) div 146097)
      in if fst (civil_month_day days) \<le> 2 then year + 1 else year)"

text \<open>A number with leading zeros up to a width.\<close>

definition pad_zeros :: "nat \<Rightarrow> int \<Rightarrow> string" where
  "pad_zeros w n = (let s = itoa n in replicate (w - length s) CHR ''0'' @ s)"

text \<open>The fraction of \<open>.999999999\<close>: nine digits without trailing zeros, nothing when there is none.\<close>

definition nano_fraction :: "int \<Rightarrow> string" where
  "nano_fraction ns =
     (if ns = 0 then []
      else CHR ''.'' # rev (dropWhile (\<lambda>c. c = CHR ''0'')
             (rev (map (\<lambda>i. digit_char (nat (ns div 10 ^ (8 - i) mod 10))) [0..<9]))))"

definition rfc3339nano :: "time \<Rightarrow> string" where
  "rfc3339nano t =
     (let secs = t div go_second;
          days = secs div 86400;
          (m, d) = civil_month_day days
      in pad_zeros 4 (civil_year days) @ ''-'' @ pad_zeros 2 m @ ''-'' @ pad_zeros 2 d @ ''T'' @
         pad_zeros 2 (secs mod 86400 div 3600) @ '':'' @ pad_zeros 2 (secs mod 3600 div 60) @ '':'' @
         pad_zeros 2 (secs mod 60) @ nano_fraction (t mod go_second) @ ''Z'')"

text \<open>The zero time, and an instant in the last second of a leap day.\<close>

lemma rfc3339nano_samples:
  "rfc3339nano 0 = ''0001-01-01T00:00:00Z''"
  "rfc3339nano (63844847999 * go_second + 120500000) = ''2024-02-29T23:59:59.1205Z''"
  by code_simp+

end
