(* ===== verification/Cron.thy ===== *)
theory Cron
  imports Plan GoTime
begin

text \<open>
  Recurring tasks (\<open>pkg/pm/recurrence.go\<close>): validation and matching of five-field cron
  expressions, the search for the next trigger, and the reset of a task that is due. The calendar
  is that of \<open>GoTime\<close>; the offset of the location of a time, which Go reads from the time-zone database, is a
  parameter \<open>zone\<close> that gives the seconds east of UTC at an instant.
\<close>

section \<open>Calendar fields\<close>

record Civil =
  cv_Month :: int
  cv_Day :: int
  cv_Weekday :: int
  cv_Hour :: int
  cv_Minute :: int

definition civil :: "(time \<Rightarrow> int) \<Rightarrow> time \<Rightarrow> Civil" where
  "civil zone t =
     (let secs = t div go_second + zone t;
          days = secs div 86400;
          (m, d) = civil_month_day days
      in \<lparr>cv_Month = m, cv_Day = d, cv_Weekday = (days + 1) mod 7,
          cv_Hour = secs mod 86400 div 3600, cv_Minute = secs mod 3600 div 60\<rparr>)"

section \<open>Numbers whose error is discarded\<close>

text \<open>\<open>n, _ := strconv.Atoi(s)\<close>: a syntax error leaves 0, a range error the nearest 64-bit
  value. The digits are read as an unsigned 64-bit number, which overflows before a later bad
  character is seen.\<close>

definition max_uint64 :: int where "max_uint64 = 18446744073709551615"

fun uint_val :: "int \<Rightarrow> string \<Rightarrow> int" where
  "uint_val acc [] = acc"
| "uint_val acc (c # s) =
     (case digit_val c of
        None \<Rightarrow> 0
      | Some d \<Rightarrow> if acc * 10 + int d > max_uint64 then max_uint64 else uint_val (acc * 10 + int d) s)"

definition atoi_val :: "string \<Rightarrow> int" where
  "atoi_val s =
     (case s of
        [] \<Rightarrow> 0
      | c # r \<Rightarrow> if c = CHR ''-'' then max min_int64 (- uint_val 0 r)
                 else if c = CHR ''+'' then min max_int64 (uint_val 0 r)
                 else min max_int64 (uint_val 0 s))"

section \<open>Validation\<close>

datatype CronError = CronFieldCount nat | CronBadStep string string | CronBadRange string string
  | CronRangeBounds int int string | CronBadValue string string | CronValueBounds int string

definition validate_base :: "string \<Rightarrow> int \<Rightarrow> int \<Rightarrow> string \<Rightarrow> CronError option" where
  "validate_base part mn mx name =
     (if part = ''*'' then None
      else case cut_at (CHR ''-'') part of
        Some (a, b) \<Rightarrow>
          (case (atoi a, atoi b) of
             (Some lo, Some hi) \<Rightarrow>
               if lo < mn \<or> hi > mx \<or> lo > hi then Some (CronRangeBounds lo hi name) else None
           | _ \<Rightarrow> Some (CronBadRange name part))
      | None \<Rightarrow>
          (case atoi part of
             None \<Rightarrow> Some (CronBadValue name part)
           | Some n \<Rightarrow>
               if name = ''day-of-week'' \<and> n = 7 then None
               else if n < mn \<or> n > mx then Some (CronValueBounds n name)
               else None))"

definition validateCronPart :: "string \<Rightarrow> int \<Rightarrow> int \<Rightarrow> string \<Rightarrow> CronError option" where
  "validateCronPart part mn mx name =
     (case cut_at (CHR ''/'') part of
        None \<Rightarrow> validate_base part mn mx name
      | Some (base, stp) \<Rightarrow>
          (case atoi stp of
             None \<Rightarrow> Some (CronBadStep name part)
           | Some n \<Rightarrow> if n < 1 then Some (CronBadStep name part) else validate_base base mn mx name))"

fun first_error :: "('a \<Rightarrow> 'e option) \<Rightarrow> 'a list \<Rightarrow> 'e option" where
  "first_error f [] = None"
| "first_error f (x # xs) = (case f x of Some e \<Rightarrow> Some e | None \<Rightarrow> first_error f xs)"

definition validateCronField :: "string \<Rightarrow> int \<Rightarrow> int \<Rightarrow> string \<Rightarrow> CronError option" where
  "validateCronField field mn mx name =
     first_error (\<lambda>part. validateCronPart part mn mx name) (split_on (CHR '','') field)"

definition cron_limits :: "(int \<times> int \<times> string) list" where
  "cron_limits = [(0, 59, ''minute''), (0, 23, ''hour''), (1, 31, ''day-of-month''),
                  (1, 12, ''month''), (0, 7, ''day-of-week'')]"

definition ParseCron :: "string \<Rightarrow> CronError option" where
  "ParseCron expr =
     (let fs = go_fields expr in
      if length fs \<noteq> 5 then Some (CronFieldCount (length fs))
      else first_error (\<lambda>(f, mn, mx, name). validateCronField f mn mx name) (zip fs cron_limits))"

section \<open>Matching\<close>

text \<open>Go's \<open>%\<close> truncates; both operands are non-negative where it is reached, except that a
  discarded range error can leave a negative bound, where \<open>go_rem\<close> keeps the sign of the
  dividend.\<close>

definition go_rem :: "int \<Rightarrow> int \<Rightarrow> int" where
  "go_rem a b = sgn a * (\<bar>a\<bar> mod \<bar>b\<bar>)"

text \<open>Subtraction on \<open>int\<close>, which wraps at 64 bits.\<close>

definition sub64 :: "int \<Rightarrow> int \<Rightarrow> int" where
  "sub64 a b = (a - b + 2 ^ 63) mod 2 ^ 64 - 2 ^ 63"

definition match_base :: "int \<Rightarrow> string \<Rightarrow> int \<Rightarrow> bool" where
  "match_base stp part v =
     (if part = ''*'' then (if stp > 0 then go_rem v stp = 0 else True)
      else
        let (lo, hi) =
          (case cut_at (CHR ''-'') part of
             Some (a, b) \<Rightarrow> (atoi_val a, atoi_val b)
           | None \<Rightarrow> let n = atoi_val part; n' = (if n = 7 then 0 else n) in (n', n'))
        in if v < lo \<or> v > hi then False
           else if stp > 0 then go_rem (sub64 v lo) stp = 0
           else True)"

definition matchCronPart :: "string \<Rightarrow> int \<Rightarrow> bool" where
  "matchCronPart part v =
     (case cut_at (CHR ''/'') part of
        None \<Rightarrow> match_base 0 part v
      | Some (base, stp) \<Rightarrow> match_base (atoi_val stp) base v)"

definition matchCronField :: "string \<Rightarrow> int \<Rightarrow> bool" where
  "matchCronField field v = list_ex (\<lambda>part. matchCronPart part v) (split_on (CHR '','') field)"

definition cron_matches :: "(time \<Rightarrow> int) \<Rightarrow> string list \<Rightarrow> time \<Rightarrow> bool" where
  "cron_matches zone fs t =
     (let c = civil zone t in
      matchCronField (fs ! 3) (cv_Month c) \<and> matchCronField (fs ! 2) (cv_Day c) \<and>
      matchCronField (fs ! 4) (cv_Weekday c) \<and> matchCronField (fs ! 1) (cv_Hour c) \<and>
      matchCronField (fs ! 0) (cv_Minute c))"

section \<open>The next trigger\<close>

definition four_years :: duration where
  "four_years = 4 * 366 * 24 * go_hour"

definition trunc_minute :: "time \<Rightarrow> time" where
  "trunc_minute t = t div go_minute * go_minute"

lemma go_minute_pos [simp]: "0 < go_minute"
  by (simp add: go_minute_def go_second_def)

function trigger_loop :: "(time \<Rightarrow> bool) \<Rightarrow> time \<Rightarrow> time \<Rightarrow> time" where
  "trigger_loop m t stop =
     (if t < stop then if m t then t else trigger_loop m (t + go_minute) stop else 0)"
  by pat_completeness auto
termination
  by (relation "measure (\<lambda>(m, t, stop). nat (stop - t))") auto

declare trigger_loop.simps [simp del]

definition NextTrigger :: "(time \<Rightarrow> int) \<Rightarrow> string \<Rightarrow> time \<Rightarrow> time" where
  "NextTrigger zone expr from =
     (let fs = go_fields expr in
      if length fs \<noteq> 5 then 0
      else trigger_loop (cron_matches zone fs) (trunc_minute (from + go_minute)) (from + four_years))"

definition ResetIfDue :: "(time \<Rightarrow> int) \<Rightarrow> time \<Rightarrow> Task \<Rightarrow> Task \<times> bool" where
  "ResetIfDue zone now t =
     (if t_Recurrence t = [] then (t, False)
      else if t_Status t \<noteq> TaskDone \<and> t_Status t \<noteq> TaskSkipped \<and> t_Status t \<noteq> TaskFailed then (t, False)
      else case t_NextRunAt t of
        None \<Rightarrow>
          let nxt = NextTrigger zone (t_Recurrence t) now in
          if nxt = 0 then (t, False) else (t\<lparr>t_NextRunAt := Some nxt\<rparr>, False)
      | Some due \<Rightarrow>
          if now < due then (t, False)
          else
            let t1 = t\<lparr>t_Status := TaskPending, t_Result := [], t_StartedAt := None, t_CompletedAt := None\<rparr>;
                nxt = NextTrigger zone (t_Recurrence t) now
            in (if nxt \<noteq> 0 then t1\<lparr>t_NextRunAt := Some nxt\<rparr> else t1, True))"

section \<open>Facts about the search\<close>

lemma trigger_loop_first:
  "(\<exists>k::nat. t + int k * go_minute < stop \<and> m (t + int k * go_minute) \<and>
      trigger_loop m t stop = t + int k * go_minute \<and> (\<forall>j < k. \<not> m (t + int j * go_minute)))
   \<or> (trigger_loop m t stop = 0 \<and> (\<forall>k::nat. t + int k * go_minute < stop \<longrightarrow> \<not> m (t + int k * go_minute)))"
proof (induction m t stop rule: trigger_loop.induct)
  case (1 m t stop)
  consider "\<not> t < stop" | "t < stop" "m t" | "t < stop" "\<not> m t" by blast
  then show ?case
  proof cases
    case 1
    have "\<not> t + int k * go_minute < stop" for k :: nat
      using 1 mult_nonneg_nonneg [of "int k" go_minute] go_minute_pos by linarith
    with 1 show ?thesis by (simp add: trigger_loop.simps [of m t stop])
  next
    case 2
    then show ?thesis by (intro disjI1 exI [of _ 0]) (simp add: trigger_loop.simps [of m t stop])
  next
    case 3
    have step: "trigger_loop m t stop = trigger_loop m (t + go_minute) stop"
      using 3 by (simp add: trigger_loop.simps [of m t stop])
    have shift: "t + go_minute + int k * go_minute = t + int (Suc k) * go_minute" for k
      by (simp add: algebra_simps)
    from "1.IH" [OF 3] show ?thesis
    proof
      assume "\<exists>k. t + go_minute + int k * go_minute < stop \<and> m (t + go_minute + int k * go_minute) \<and>
        trigger_loop m (t + go_minute) stop = t + go_minute + int k * go_minute \<and>
        (\<forall>j<k. \<not> m (t + go_minute + int j * go_minute))"
      then obtain k where k: "t + int (Suc k) * go_minute < stop" "m (t + int (Suc k) * go_minute)"
        "trigger_loop m t stop = t + int (Suc k) * go_minute"
        "\<forall>j<k. \<not> m (t + int (Suc j) * go_minute)"
        unfolding shift step by blast
      have "\<not> m (t + int j * go_minute)" if "j < Suc k" for j
        using that k(4) 3(2) by (cases j) auto
      with k show ?thesis by blast
    next
      assume "trigger_loop m (t + go_minute) stop = 0 \<and>
        (\<forall>k. t + go_minute + int k * go_minute < stop \<longrightarrow> \<not> m (t + go_minute + int k * go_minute))"
      then have none: "trigger_loop m t stop = 0"
        "\<And>k. t + int (Suc k) * go_minute < stop \<Longrightarrow> \<not> m (t + int (Suc k) * go_minute)"
        unfolding shift step by blast+
      have "\<not> m (t + int k * go_minute)" if "t + int k * go_minute < stop" for k :: nat
        using that none(2) 3(2) by (cases k) auto
      with none(1) show ?thesis by blast
    qed
  qed
qed

lemma trunc_minute_next: "trunc_minute (from + go_minute) = (from div go_minute + 1) * go_minute"
proof -
  have "go_minute \<noteq> 0" using go_minute_pos by (metis less_irrefl)
  then have "(from + go_minute) div go_minute = from div go_minute + 1" by (rule div_add_self2)
  then show ?thesis by (simp only: trunc_minute_def)
qed

text \<open>The minutes the search visits are exactly the whole minutes after \<open>from\<close>.\<close>

lemma minute_after_iff:
  "go_minute dvd t \<and> from < t \<longleftrightarrow> (\<exists>k::nat. t = trunc_minute (from + go_minute) + int k * go_minute)"
proof
  assume t: "go_minute dvd t \<and> from < t"
  then obtain q where q: "t = go_minute * q" by blast
  have "from div go_minute < q"
  proof -
    have "from div go_minute * go_minute \<le> from" by (simp add: minus_mod_eq_div_mult [symmetric])
    also have "from < go_minute * q" using t q by simp
    finally have "from div go_minute * go_minute < q * go_minute" by (simp add: mult.commute)
    then show ?thesis using go_minute_pos by (simp add: mult_less_cancel_right)
  qed
  then have "t = trunc_minute (from + go_minute) + int (nat (q - from div go_minute - 1)) * go_minute"
    unfolding trunc_minute_next by (simp add: q algebra_simps)
  then show "\<exists>k::nat. t = trunc_minute (from + go_minute) + int k * go_minute" ..
next
  assume "\<exists>k::nat. t = trunc_minute (from + go_minute) + int k * go_minute"
  then obtain k :: nat where k: "t = trunc_minute (from + go_minute) + int k * go_minute" ..
  have "from < from div go_minute * go_minute + go_minute"
    using pos_mod_bound [of go_minute "from"] by (simp add: minus_mod_eq_div_mult [symmetric])
  then have "from < trunc_minute (from + go_minute)" unfolding trunc_minute_next by (simp add: algebra_simps)
  with k have "from < t" using mult_nonneg_nonneg [of "int k" go_minute] go_minute_pos by linarith
  then show "go_minute dvd t \<and> from < t" by (simp add: k trunc_minute_def)
qed

definition trigger_times :: "(time \<Rightarrow> int) \<Rightarrow> string \<Rightarrow> time \<Rightarrow> time set" where
  "trigger_times zone expr from =
     {t. length (go_fields expr) = 5 \<and> go_minute dvd t \<and> from < t \<and> t < from + four_years \<and>
         cron_matches zone (go_fields expr) t}"

lemma NextTrigger_spec:
  "NextTrigger zone expr from \<in> trigger_times zone expr from \<and>
     trigger_times zone expr from \<subseteq> {NextTrigger zone expr from..}
   \<or> NextTrigger zone expr from = 0 \<and> trigger_times zone expr from = {}"
proof (cases "length (go_fields expr) = 5")
  case False
  then show ?thesis by (simp add: NextTrigger_def trigger_times_def)
next
  case True
  let ?m = "cron_matches zone (go_fields expr)"
  let ?t0 = "trunc_minute (from + go_minute)"
  have next_eq: "NextTrigger zone expr from = trigger_loop ?m ?t0 (from + four_years)"
    using True by (simp add: NextTrigger_def)
  have mem: "t \<in> trigger_times zone expr from \<longleftrightarrow>
      (\<exists>k::nat. t = ?t0 + int k * go_minute) \<and> t < from + four_years \<and> ?m t" for t
    using minute_after_iff [of t "from"] True by (auto simp: trigger_times_def)
  from trigger_loop_first [of ?t0 "from + four_years" ?m] show ?thesis
  proof
    assume "\<exists>k. ?t0 + int k * go_minute < from + four_years \<and> ?m (?t0 + int k * go_minute) \<and>
      trigger_loop ?m ?t0 (from + four_years) = ?t0 + int k * go_minute \<and>
      (\<forall>j<k. \<not> ?m (?t0 + int j * go_minute))"
    then obtain k where k: "?t0 + int k * go_minute < from + four_years" "?m (?t0 + int k * go_minute)"
      "NextTrigger zone expr from = ?t0 + int k * go_minute"
      "\<forall>j<k. \<not> ?m (?t0 + int j * go_minute)" unfolding next_eq by blast
    have "NextTrigger zone expr from \<le> t" if hit: "t \<in> trigger_times zone expr from" for t
    proof -
      from hit obtain j where j: "t = ?t0 + int j * go_minute" "?m t" using mem by blast
      with k(4) have "k \<le> j" by (metis not_le)
      then show ?thesis by (simp add: k(3) j(1))
    qed
    moreover have "NextTrigger zone expr from \<in> trigger_times zone expr from"
      using k(1-3) mem by auto
    ultimately show ?thesis by auto
  next
    assume "trigger_loop ?m ?t0 (from + four_years) = 0 \<and>
      (\<forall>k. ?t0 + int k * go_minute < from + four_years \<longrightarrow> \<not> ?m (?t0 + int k * go_minute))"
    then show ?thesis using mem next_eq by auto
  qed
qed

section \<open>Properties\<close>

text \<open>C36: \<open>NextTrigger\<close> returns the earliest whole minute strictly after \<open>from\<close> and within the
  search horizon of 4 * 366 days whose calendar fields match all five fields of the expression;
  it returns the zero time exactly when there is no such minute (or \<open>from\<close> lies before the zero
  time).\<close>

theorem next_trigger_is_first_match:
  "NextTrigger zone expr from \<in> trigger_times zone expr from \<and>
     trigger_times zone expr from \<subseteq> {NextTrigger zone expr from..}
   \<or> NextTrigger zone expr from = 0 \<and> trigger_times zone expr from = {}"
  by (rule NextTrigger_spec)

text \<open>\<open>ResetIfDue\<close> reports true exactly for a finished recurring task whose time has come; the
  task is then pending with its result and times cleared, its new trigger (if the expression has
  one) lies after \<open>now\<close>, and a second call in the same moment changes nothing. Otherwise only
  the trigger time can have been filled in.\<close>

theorem reset_if_due_once:
  "case ResetIfDue zone now t of (u, done) \<Rightarrow>
     (done \<longleftrightarrow> t_Recurrence t \<noteq> [] \<and> t_Status t \<in> {TaskDone, TaskSkipped, TaskFailed} \<and>
        (case t_NextRunAt t of None \<Rightarrow> False | Some due \<Rightarrow> due \<le> now)) \<and>
     (if done
      then t_Status u = TaskPending \<and> t_Result u = [] \<and> t_StartedAt u = None \<and> t_CompletedAt u = None \<and>
           ResetIfDue zone now u = (u, False) \<and>
           (the (t_NextRunAt u) \<in> trigger_times zone (t_Recurrence t) now \<or>
            t_NextRunAt u = t_NextRunAt t \<and> NextTrigger zone (t_Recurrence t) now = 0)
      else u = t\<lparr>t_NextRunAt := t_NextRunAt u\<rparr>)"
  using NextTrigger_spec [of zone "t_Recurrence t" now]
  by (auto simp: ResetIfDue_def Let_def split: option.split)

text \<open>The hour field 7 is accepted, and matches midnight instead of seven o'clock: the alias of
  7 for Sunday is applied in every field. Month 7 is accepted and matches no month, and the
  day-of-week range 5-7 is accepted and does not match Sunday.\<close>

theorem seven_is_zero_in_every_field:
  "ParseCron ''0 7 * * *'' = None \<and> matchCronField ''7'' 0 \<and> \<not> matchCronField ''7'' 7 \<and>
   ParseCron ''0 0 1 7 *'' = None \<and> filter (matchCronField ''7'') [1..12] = [] \<and>
   ParseCron ''0 0 * * 5-7'' = None \<and> \<not> matchCronField ''5-7'' 0"
  by code_simp

end
