(* ===== verification/Version.thy ===== *)
theory Version
  imports GoStrings "HOL-Library.Product_Lexorder"
begin

text \<open>
  Build versions (\<open>pkg/version\<close>): parsing and comparing them, classifying a device's build
  against the hub's, naming builds of main by commit and sequence, and the table of published
  releases. A Go pair \<open>(result, ok)\<close> is a HOL pair. The sentence \<open>Classify\<close> returns beside the
  classification is named by a constructor carrying the values it is formatted from. The build
  settings that \<open>debug.ReadBuildInfo\<close> reads are an argument: a function from keys to values,
  \<open>None\<close> when the binary carries none.
\<close>

section \<open>Parsing and comparing\<close>

definition DevVersion :: string where "DevVersion = ''dev''"
definition LegacyAgentVersion :: string where "LegacyAgentVersion = ''1''"

record parsed =
  pv_major :: int
  pv_minor :: int
  pv_patch :: int
  pv_pre :: string

definition before_char :: "char \<Rightarrow> string \<Rightarrow> string" where
  "before_char c s = (case cut_at c s of None \<Rightarrow> s | Some (a, b) \<Rightarrow> a)"

definition nat_component :: "string \<Rightarrow> int option" where
  "nat_component f = (case atoi f of None \<Rightarrow> None | Some n \<Rightarrow> if n < 0 then None else Some n)"

definition parse :: "string \<Rightarrow> parsed option" where
  "parse s =
     (let v0 = trim_space s in
      if v0 = [] then None
      else
        let v1 = before_char (CHR ''+'') (trim_prefix v0 ''v'');
            (pre, v) = (case cut_at (CHR ''-'') v1 of None \<Rightarrow> ([], v1) | Some (a, b) \<Rightarrow> (b, a))
        in (case split_on (CHR ''.'') v of
              [a, b, c] \<Rightarrow>
                (case (nat_component a, nat_component b, nat_component c) of
                   (Some x, Some y, Some z) \<Rightarrow>
                     Some \<lparr>pv_major = x, pv_minor = y, pv_patch = z, pv_pre = pre\<rparr>
                 | _ \<Rightarrow> None)
            | _ \<Rightarrow> None))"

definition sign :: "int \<Rightarrow> int" where
  "sign n = (if n < 0 then - 1 else if n > 0 then 1 else 0)"

definition strings_Compare :: "string \<Rightarrow> string \<Rightarrow> int" where
  "strings_Compare a b = (if a = b then 0 else if a < b then - 1 else 1)"

definition compare_pre :: "string \<Rightarrow> string \<Rightarrow> int" where
  "compare_pre a b =
     (if a = b then 0
      else if a \<noteq> [] \<and> b = [] then - 1
      else if a = [] \<and> b \<noteq> [] then 1
      else sign (strings_Compare a b))"

definition compare_parsed :: "parsed \<Rightarrow> parsed \<Rightarrow> int" where
  "compare_parsed pa pb =
     (case filter (\<lambda>d. d \<noteq> 0) [pv_major pa - pv_major pb, pv_minor pa - pv_minor pb,
                                pv_patch pa - pv_patch pb] of
        d # _ \<Rightarrow> sign d
      | [] \<Rightarrow> compare_pre (pv_pre pa) (pv_pre pb))"

definition Compare :: "string \<Rightarrow> string \<Rightarrow> int \<times> bool" where
  "Compare a b =
     (case (parse a, parse b) of
        (Some pa, Some pb) \<Rightarrow> (compare_parsed pa pb, True)
      | _ \<Rightarrow> (0, False))"

section \<open>What a build says of itself\<close>

definition resolve :: "string \<Rightarrow> (string \<Rightarrow> string) option \<Rightarrow> string" where
  "resolve stamped build =
     (let v0 = trim_space stamped; v = (if v0 = [] then DevVersion else v0) in
      if v \<noteq> DevVersion then v
      else case build of
        None \<Rightarrow> v
      | Some settings \<Rightarrow>
          let rev = trim_space (settings ''vcs.revision'') in
          if rev = [] then v
          else
            let short = (if length rev > 7 then take 7 rev else rev);
                out = v @ ''+g'' @ short
            in if settings ''vcs.modified'' = ''true'' then out @ ''.dirty'' else out)"

definition hex_lower :: "char \<Rightarrow> bool" where
  "hex_lower c \<longleftrightarrow> (48 \<le> byte_val c \<and> byte_val c \<le> 57) \<or> (97 \<le> byte_val c \<and> byte_val c \<le> 102)"

definition IsCommit :: "string \<Rightarrow> nat \<Rightarrow> bool" where
  "IsCommit s mn = (if length s < mn \<or> length s > 40 then False else list_all hex_lower s)"

definition CommitOf :: "string \<Rightarrow> string \<times> bool" where
  "CommitOf v =
     (let p = DevVersion @ ''+g''; s = trim_space v in
      if \<not> has_prefix s p then ([], False)
      else let rest = drop (length p) s in
           if \<not> IsCommit rest 7 then ([], False) else (rest, True))"

definition commit_or_self :: "string \<Rightarrow> string" where
  "commit_or_self a = (case CommitOf a of (c, ok) \<Rightarrow> if ok then c else a)"

definition SameCommit :: "string \<Rightarrow> string \<Rightarrow> bool" where
  "SameCommit a b =
     (let a1 = to_lower (commit_or_self a); b1 = to_lower (commit_or_self b) in
      if \<not> IsCommit a1 7 \<or> \<not> IsCommit b1 7 then False
      else has_prefix a1 b1 \<or> has_prefix b1 a1)"

definition EdgeTargetPrefix :: string where "EdgeTargetPrefix = ''edge:''"

definition EdgeTarget :: "string \<Rightarrow> string" where
  "EdgeTarget commit = EdgeTargetPrefix @ to_lower (trim_space commit)"

definition IsEdgeTarget :: "string \<Rightarrow> bool" where
  "IsEdgeTarget s = has_prefix (to_lower (trim_space s)) EdgeTargetPrefix"

datatype EdgeError = ErrNotEdgeTarget string | ErrEdgeCommit string

definition ParseEdgeTarget :: "string \<Rightarrow> EdgeError + string" where
  "ParseEdgeTarget s0 =
     (let s = trim_space s0 in
      if \<not> IsEdgeTarget s then Inl (ErrNotEdgeTarget s)
      else let commit = to_lower (drop (length EdgeTargetPrefix) s) in
           if \<not> IsCommit commit 7 then Inl (ErrEdgeCommit s) else Inr commit)"

definition MaxSequence :: int where "MaxSequence = 2 ^ 30"

definition is_digit :: "char \<Rightarrow> bool" where
  "is_digit c \<longleftrightarrow> 48 \<le> byte_val c \<and> byte_val c \<le> 57"

definition ParseSequence :: "string \<Rightarrow> int \<times> bool" where
  "ParseSequence s0 =
     (let s = trim_space s0 in
      if s = [] \<or> length s > 10 then (0, False)
      else if \<not> list_all is_digit s then (0, False)
      else case atoi s of
        None \<Rightarrow> (0, False)
      | Some n \<Rightarrow> if n < 1 \<or> n > MaxSequence then (0, False) else (n, True))"

definition buildCommit :: "string \<Rightarrow> (string \<Rightarrow> string) option \<Rightarrow> string" where
  "buildCommit stamped build =
     (let c = to_lower (trim_space stamped) in
      if IsCommit c 40 then c
      else case build of
        None \<Rightarrow> []
      | Some settings \<Rightarrow>
          if settings ''vcs.modified'' = ''true'' then []
          else let rev = to_lower (trim_space (settings ''vcs.revision'')) in
               if IsCommit rev 40 then rev else [])"

definition SequenceLabel :: "int \<Rightarrow> string" where
  "SequenceLabel n = (if n \<le> 0 then ''no sequence'' else ''sequence '' @ itoa n @ '' on main'')"

section \<open>Skew\<close>

datatype Skew = SkewUnknown | SkewLegacy | SkewNone | SkewUnversioned | SkewPatch | SkewBehind
  | SkewAhead | SkewOlder

definition Material :: "Skew \<Rightarrow> bool" where
  "Material s \<longleftrightarrow> s \<in> {SkewLegacy, SkewBehind, SkewAhead, SkewUnversioned}"

datatype SkewNote = NoNote | NoteUnreported | NotePlaceholder
  | NoteDevAgent string string | NoteDevHub string string | NoteUnreadable string string
  | NoteNewer string string | NotePatch string string | NoteTrails string string
  | NoteBuildsBehind string string int string string | NoteBuildsAhead string string int string string

definition displayVersion :: "string \<Rightarrow> string" where
  "displayVersion v = (if trim_space v = [] then ''unknown'' else v)"

definition is_dev :: "string \<Rightarrow> bool" where
  "is_dev v \<longleftrightarrow> v = DevVersion \<or> has_prefix v (DevVersion @ ''+'')"

definition behind_skew :: "string \<Rightarrow> string \<Rightarrow> Skew \<times> SkewNote" where
  "behind_skew agent hub =
     (case (parse agent, parse hub) of
        (Some pa, Some ph) \<Rightarrow>
          if pv_major pa = pv_major ph \<and> pv_minor pa = pv_minor ph
          then (SkewPatch, NotePatch agent hub) else (SkewBehind, NoteTrails agent hub)
      | _ \<Rightarrow> (SkewBehind, NoteTrails agent hub))"

definition Classify :: "string \<Rightarrow> string \<Rightarrow> Skew \<times> SkewNote" where
  "Classify hub0 agent0 =
     (let hub = trim_space hub0; agent = trim_space agent0 in
      if agent = [] then (SkewUnknown, NoteUnreported)
      else if agent = LegacyAgentVersion then (SkewLegacy, NotePlaceholder)
      else if hub \<noteq> [] \<and> agent = hub then (SkewNone, NoNote)
      else if SameCommit hub agent then (SkewNone, NoNote)
      else case Compare agent hub of (cmp, ok) \<Rightarrow>
        if \<not> ok then
          (if is_dev agent then (SkewUnversioned, NoteDevAgent agent (displayVersion hub))
           else if is_dev hub then (SkewUnversioned, NoteDevHub (displayVersion hub) agent)
           else (SkewUnversioned, NoteUnreadable agent (displayVersion hub)))
        else if cmp > 0 then (SkewAhead, NoteNewer agent hub)
        else if cmp = 0 then (SkewNone, NoNote)
        else behind_skew agent hub)"

record BuildRef =
  br_Version :: string
  br_Sequence :: int

definition ClassifyBuilds :: "BuildRef \<Rightarrow> BuildRef \<Rightarrow> Skew \<times> SkewNote" where
  "ClassifyBuilds hub agent =
     (let (skew, note) = Classify (br_Version hub) (br_Version agent) in
      if skew \<noteq> SkewUnversioned \<or> br_Sequence hub \<le> 0 \<or> br_Sequence agent \<le> 0 then (skew, note)
      else
        let agentV = trim_space (br_Version agent); hubV = trim_space (br_Version hub);
            d = br_Sequence hub - br_Sequence agent
        in if d = 0 then (SkewNone, NoNote)
           else if d > 0 then
             (SkewOlder, NoteBuildsBehind agentV (SequenceLabel (br_Sequence agent)) d
                (displayVersion hubV) (SequenceLabel (br_Sequence hub)))
           else
             (SkewAhead, NoteBuildsAhead agentV (SequenceLabel (br_Sequence agent)) (- d)
                (displayVersion hubV) (SequenceLabel (br_Sequence hub))))"

section \<open>Published releases\<close>

record Release =
  rl_Tag :: string
  rl_Protocol :: int
  rl_Sequence :: int

definition publishedReleases :: "Release list" where
  "publishedReleases =
     [\<lparr>rl_Tag = ''v0.0.1'', rl_Protocol = 6, rl_Sequence = 0\<rparr>,
      \<lparr>rl_Tag = ''v0.0.4'', rl_Protocol = 13, rl_Sequence = 0\<rparr>,
      \<lparr>rl_Tag = ''v0.0.5'', rl_Protocol = 21, rl_Sequence = 1082\<rparr>,
      \<lparr>rl_Tag = ''v0.0.6'', rl_Protocol = 22, rl_Sequence = 1116\<rparr>,
      \<lparr>rl_Tag = ''v0.0.7'', rl_Protocol = 26, rl_Sequence = 1170\<rparr>]"

definition ReleaseSequence :: "string \<Rightarrow> int \<times> bool" where
  "ReleaseSequence tag0 =
     (let tag = trim_space tag0 in
      case find (\<lambda>r. rl_Tag r = tag) publishedReleases of
        Some r \<Rightarrow> (rl_Sequence r, True)
      | None \<Rightarrow> (0, False))"

definition NewestPublishedRelease :: "Release option" where
  "NewestPublishedRelease = (if publishedReleases = [] then None else Some (last publishedReleases))"

definition is_alnum :: "char \<Rightarrow> bool" where
  "is_alnum c \<longleftrightarrow> is_digit c \<or> (65 \<le> byte_val c \<and> byte_val c \<le> 90) \<or>
     (97 \<le> byte_val c \<and> byte_val c \<le> 122)"

text \<open>The regular expression \<open>releaseTag\<close>: the numbers contain no hyphen, so the first hyphen
  starts the suffix.\<close>

definition release_number :: "string \<Rightarrow> bool" where
  "release_number s \<longleftrightarrow> s = ''0'' \<or> (s \<noteq> [] \<and> hd s \<noteq> CHR ''0'' \<and> list_all is_digit s)"

definition release_suffix :: "string \<Rightarrow> bool" where
  "release_suffix s \<longleftrightarrow> s \<noteq> [] \<and> is_alnum (hd s) \<and>
     list_all (\<lambda>c. is_alnum c \<or> c = CHR ''.'' \<or> c = CHR ''-'') (tl s)"

definition releaseTag :: "string \<Rightarrow> bool" where
  "releaseTag s \<longleftrightarrow> has_prefix s ''v'' \<and>
     (case cut_at (CHR ''-'') (drop 1 s) of
        None \<Rightarrow> length (split_on (CHR ''.'') (drop 1 s)) = 3 \<and>
                list_all release_number (split_on (CHR ''.'') (drop 1 s))
      | Some (core, suf) \<Rightarrow> length (split_on (CHR ''.'') core) = 3 \<and>
                list_all release_number (split_on (CHR ''.'') core) \<and> release_suffix suf)"

definition IsRelease :: "string \<Rightarrow> bool" where
  "IsRelease v = releaseTag (trim_space v)"

fun protocol_scan :: "Release list \<Rightarrow> string \<Rightarrow> int \<Rightarrow> int \<Rightarrow> int \<times> int" where
  "protocol_scan [] tag lo hi = (lo, hi)"
| "protocol_scan (r # rs) tag lo hi =
     (case Compare (rl_Tag r) tag of (cmp, ok) \<Rightarrow>
        if \<not> ok then protocol_scan rs tag lo hi
        else if cmp = 0 then (rl_Protocol r, rl_Protocol r)
        else if cmp < 0 then protocol_scan rs tag (rl_Protocol r) hi
        else if hi = 0 then protocol_scan rs tag lo (rl_Protocol r)
        else protocol_scan rs tag lo hi)"

definition ReleaseProtocolIn :: "Release list \<Rightarrow> string \<Rightarrow> int \<times> int" where
  "ReleaseProtocolIn rels tag0 =
     (let tag = trim_space tag0 in
      if \<not> IsRelease tag then (0, 0) else protocol_scan rels tag 0 0)"

definition ReleaseProtocol :: "string \<Rightarrow> int \<times> int" where
  "ReleaseProtocol tag = ReleaseProtocolIn publishedReleases tag"

section \<open>The order of versions\<close>

text \<open>The linear order \<open>Compare\<close> decides: the three numbers, then a prerelease before the release
  it leads to, then the prerelease text.\<close>

definition version_key :: "parsed \<Rightarrow> int \<times> int \<times> int \<times> bool \<times> string" where
  "version_key p = (pv_major p, pv_minor p, pv_patch p, pv_pre p = [], pv_pre p)"

definition order_of :: "'a::linorder \<Rightarrow> 'a \<Rightarrow> int" where
  "order_of x y = (if x < y then - 1 else if y < x then 1 else 0)"

lemma compare_pre_key:
  "compare_pre a b = order_of (a = [], a) (b = [], b)"
  by (auto simp: compare_pre_def order_of_def strings_Compare_def sign_def less_prod_def not_less_iff_gr_or_eq)

lemma compare_parsed_key: "compare_parsed pa pb = order_of (version_key pa) (version_key pb)"
  unfolding compare_parsed_def compare_pre_key
  by (auto simp: order_of_def version_key_def less_prod_def sign_def)

lemma order_of_sym: "order_of y x = - order_of x y"
  by (auto simp: order_of_def)

lemma order_of_values [simp]:
  "order_of x y = 0 \<longleftrightarrow> x = y" "order_of x y > 0 \<longleftrightarrow> y < x" "order_of x y < 0 \<longleftrightarrow> x < y"
  "order_of x y = - 1 \<longleftrightarrow> x < y" "order_of x y = 1 \<longleftrightarrow> y < x"
  by (auto simp: order_of_def)

lemma Compare_key:
  "Compare a b =
     (case (parse a, parse b) of
        (Some pa, Some pb) \<Rightarrow> (order_of (version_key pa) (version_key pb), True)
      | _ \<Rightarrow> (0, False))"
  by (auto simp: Compare_def compare_parsed_key split: option.split)

interpretation release_order: strict_weak_order "\<lambda>p q. compare_parsed p q < 0"
  by unfold_locales (auto simp: compare_parsed_key)

lemma Compare_values: "Compare a b \<in> {(- 1, True), (0, True), (1, True), (0, False)}"
  by (auto simp: Compare_key order_of_def split: option.split)

lemma Compare_later:
  "Compare r q = (- 1, True) \<Longrightarrow> Compare r t = (0, True) \<or> Compare r t = (1, True) \<Longrightarrow>
   Compare q t = (1, True)"
  by (auto simp: Compare_key split: option.splits)

text \<open>A table of releases, oldest first: strictly ordered, with protocols that never decrease.\<close>

definition ascending :: "Release list \<Rightarrow> bool" where
  "ascending rels \<longleftrightarrow>
     sorted_wrt (\<lambda>r q. Compare (rl_Tag r) (rl_Tag q) = (- 1, True) \<and> rl_Protocol r \<le> rl_Protocol q) rels \<and>
     list_all (\<lambda>r. 0 < rl_Protocol r) rels"

lemma protocol_scan_after:
  "\<forall>r \<in> set rs. Compare (rl_Tag r) tag = (1, True) \<Longrightarrow> hi \<noteq> 0 \<Longrightarrow> protocol_scan rs tag lo hi = (lo, hi)"
  by (induction rs) auto

lemma protocol_scan_bounds:
  assumes "ascending rs" and "\<forall>r \<in> set rs. lo \<le> rl_Protocol r"
    and "protocol_scan rs tag lo 0 = (lo', hi')"
  shows "lo \<le> lo' \<and> (hi' = 0 \<or> lo' \<le> hi') \<and>
    (\<forall>r \<in> set rs. (Compare (rl_Tag r) tag = (- 1, True) \<longrightarrow> rl_Protocol r \<le> lo') \<and>
       (Compare (rl_Tag r) tag = (1, True) \<longrightarrow> hi' \<noteq> 0 \<and> hi' \<le> rl_Protocol r) \<and>
       (Compare (rl_Tag r) tag = (0, True) \<longrightarrow> lo' = rl_Protocol r \<and> hi' = rl_Protocol r))"
  using assms
proof (induction rs arbitrary: lo)
  case Nil
  then show ?case by simp
next
  case (Cons r rs)
  have asc: "ascending rs" and pos: "0 < rl_Protocol r"
    and later: "\<forall>q \<in> set rs. Compare (rl_Tag r) (rl_Tag q) = (- 1, True) \<and> rl_Protocol r \<le> rl_Protocol q"
    using Cons.prems(1) by (auto simp: ascending_def)
  have lo: "lo \<le> rl_Protocol r" "\<forall>q \<in> set rs. lo \<le> rl_Protocol q" using Cons.prems(2) by auto
  consider "Compare (rl_Tag r) tag = (- 1, True)" | "Compare (rl_Tag r) tag = (0, True)"
    | "Compare (rl_Tag r) tag = (1, True)" | "Compare (rl_Tag r) tag = (0, False)"
    using Compare_values [of "rl_Tag r" tag] by auto
  then show ?case
  proof cases
    case 1
    with Cons.prems(3) have rec: "protocol_scan rs tag (rl_Protocol r) 0 = (lo', hi')" by simp
    have "\<forall>q \<in> set rs. rl_Protocol r \<le> rl_Protocol q" using later by blast
    from Cons.IH [OF asc this rec] show ?thesis using 1 lo(1) by auto
  next
    case 2
    then have "\<forall>q \<in> set rs. Compare (rl_Tag q) tag = (1, True)" using later Compare_later by blast
    moreover have "lo' = rl_Protocol r" "hi' = rl_Protocol r" using 2 Cons.prems(3) by auto
    ultimately show ?thesis using 2 lo later pos by auto
  next
    case 3
    then have after: "\<forall>q \<in> set rs. Compare (rl_Tag q) tag = (1, True)" using later Compare_later by blast
    have "protocol_scan rs tag lo (rl_Protocol r) = (lo', hi')" using 3 Cons.prems(3) by simp
    then have "lo' = lo" "hi' = rl_Protocol r"
      using protocol_scan_after [OF after, of "rl_Protocol r" lo] pos by auto
    then show ?thesis using 3 after later lo pos by auto
  next
    case 4
    with Cons.prems(3) have rec: "protocol_scan rs tag lo 0 = (lo', hi')" by simp
    from Cons.IH [OF asc lo(2) rec] show ?thesis using 4 by auto
  qed
qed

text \<open>A version that can be compared is not a commit: it has dots.\<close>

lemma dot_not_hex: "\<not> hex_lower (CHR ''.'')"
  by (simp add: hex_lower_def byte_val_def)

lemma parse_has_dot: "parse s = Some p \<Longrightarrow> CHR ''.'' \<in> set (trim_space s)"
proof -
  assume p: "parse s = Some p"
  let ?v0 = "trim_space s"
  let ?v1 = "before_char (CHR ''+'') (trim_prefix ?v0 ''v'')"
  obtain pre v where v: "(case cut_at (CHR ''-'') ?v1 of None \<Rightarrow> ([], ?v1) | Some (a, b) \<Rightarrow> (b, a)) = (pre, v)"
    by fastforce
  have dot: "CHR ''.'' \<in> set v"
  proof (rule ccontr)
    assume "CHR ''.'' \<notin> set v"
    then have "split_on (CHR ''.'') v = [v]" by (rule split_on_single)
    with v have "parse s = None" by (simp add: parse_def Let_def)
    with p show False by simp
  qed
  have "set v \<subseteq> set ?v1" using v by (auto split: option.splits dest!: cut_at_Some)
  moreover have "set ?v1 \<subseteq> set (trim_prefix ?v0 ''v'')"
    by (auto simp: before_char_def split: option.splits dest!: cut_at_Some)
  moreover have "set (trim_prefix ?v0 ''v'') \<subseteq> set ?v0"
    by (auto simp: trim_prefix_def dest: in_set_dropD)
  ultimately show ?thesis using dot by blast
qed

lemma commit_has_no_dot: "IsCommit c n \<Longrightarrow> CHR ''.'' \<notin> set c"
  using dot_not_hex by (auto simp: IsCommit_def list_all_iff split: if_splits)

lemma lower_char_dot: "lower_char c = CHR ''.'' \<Longrightarrow> c = CHR ''.''"
proof (rule ccontr)
  assume l: "lower_char c = CHR ''.''" and n: "c \<noteq> CHR ''.''"
  then have r: "65 \<le> byte_val c" "byte_val c \<le> 90" and e: "char_of (byte_val c + 32) = CHR ''.''"
    by (auto simp: lower_char_def split: if_splits)
  from e have "byte_val (char_of (byte_val c + 32)) = 46" by (simp add: byte_val_def)
  moreover have "byte_val (char_of (byte_val c + 32)) = byte_val c + 32"
    using r by (intro byte_val_char_of) simp
  ultimately show False using r by simp
qed

lemma parse_dev_None: "CommitOf s = (c, True) \<Longrightarrow> parse s = None"
proof (rule ccontr)
  assume c: "CommitOf s = (c, True)" and p: "parse s \<noteq> None"
  let ?p = "DevVersion @ ''+g''"
  have pre: "has_prefix (trim_space s) ?p" and commit: "IsCommit (drop (length ?p) (trim_space s)) 7"
    using c by (auto simp: CommitOf_def Let_def split: if_splits)
  then obtain r where r: "trim_space s = ?p @ r" by (auto simp: has_prefix_iff)
  with commit have "CHR ''.'' \<notin> set r" using commit_has_no_dot by simp
  then have "CHR ''.'' \<notin> set (trim_space s)" by (simp add: r DevVersion_def)
  with p parse_has_dot show False by blast
qed

lemma parse_not_commit:
  assumes "parse s = Some p" shows "\<not> IsCommit (to_lower (commit_or_self (trim_space s))) 7"
proof
  assume ic: "IsCommit (to_lower (commit_or_self (trim_space s))) 7"
  have "parse (trim_space s) = Some p" using assms by (simp add: parse_def)
  then have "commit_or_self (trim_space s) = trim_space s"
    using parse_dev_None [of "trim_space s"] by (auto simp: commit_or_self_def split: prod.split)
  with ic have "CHR ''.'' \<notin> set (to_lower (trim_space s))" using commit_has_no_dot by simp
  moreover have "CHR ''.'' \<in> set (trim_space s)" using assms by (rule parse_has_dot)
  then have "lower_char (CHR ''.'') \<in> set (to_lower (trim_space s))" by (simp add: to_lower_def)
  moreover have "lower_char (CHR ''.'') = CHR ''.''" by (simp add: lower_char_def byte_val_def)
  ultimately show False by simp
qed

lemma parse_trim [simp]: "parse (trim_space s) = parse s"
  by (simp add: parse_def)

lemma Compare_trim [simp]: "Compare (trim_space a) (trim_space b) = Compare a b"
  by (simp add: Compare_def)

lemma SameCommit_comparable:
  "snd (Compare a b) \<Longrightarrow> \<not> SameCommit (trim_space b) (trim_space a)"
  using parse_not_commit [of a] by (auto simp: Compare_def SameCommit_def Let_def split: option.splits)

lemma parse_legacy: "parse LegacyAgentVersion = None" "parse [] = None"
  by (code_simp, code_simp)

section \<open>Properties\<close>

text \<open>\<open>Compare\<close> is a linear order on the versions it can read: it answers exactly when both sides
  parse, and then compares major, minor and patch numbers, places a prerelease before its release,
  and decides the rest by the prerelease text; exchanging the arguments flips the sign.\<close>

theorem compare_is_linear_order:
  "Compare a b =
     (case (parse a, parse b) of
        (Some pa, Some pb) \<Rightarrow>
          (if version_key pa < version_key pb then - 1 else if version_key pb < version_key pa then 1 else 0,
           True)
      | _ \<Rightarrow> (0, False)) \<and>
   Compare b a = (- fst (Compare a b), snd (Compare a b))"
  by (auto simp: Compare_key order_of_def split: option.split)

text \<open>For versions that can be compared, the classification of a device is decided by the order
  alone: ahead, the same, a patch behind (same major and minor), or materially behind; for all
  others it is never one of ahead, patch or behind.\<close>

theorem classify_follows_order:
  "case (parse agent, parse hub) of
     (Some pa, Some ph) \<Rightarrow>
       fst (Classify hub agent) =
         (if version_key ph < version_key pa then SkewAhead
          else if version_key pa = version_key ph then SkewNone
          else if pv_major pa = pv_major ph \<and> pv_minor pa = pv_minor ph then SkewPatch
          else SkewBehind)
   | _ \<Rightarrow> fst (Classify hub agent) \<in> {SkewUnknown, SkewLegacy, SkewNone, SkewUnversioned}"
proof (cases "snd (Compare agent hub)")
  case True
  then obtain pa ph where p: "parse agent = Some pa" "parse hub = Some ph"
    by (auto simp: Compare_def split: option.splits)
  have ne: "trim_space agent \<noteq> []" "trim_space agent \<noteq> LegacyAgentVersion"
    using p(1) parse_legacy parse_trim by (metis option.distinct(1))+
  have sc: "\<not> SameCommit (trim_space hub) (trim_space agent)" using True by (rule SameCommit_comparable)
  have eq: "pa = ph" if "trim_space agent = trim_space hub" using p that parse_trim by (metis option.inject)
  have cmp: "Compare agent hub = (order_of (version_key pa) (version_key ph), True)"
    using p by (simp add: Compare_key)
  show ?thesis
    using p ne sc cmp eq True
    by (auto simp: Classify_def Let_def behind_skew_def order_of_def not_less_iff_gr_or_eq)
next
  case False
  then have no: "Compare agent hub = (0, False)" and np: "parse agent = None \<or> parse hub = None"
    by (auto simp: Compare_def split: option.splits)
  have "fst (Classify hub agent) \<in> {SkewUnknown, SkewLegacy, SkewNone, SkewUnversioned}"
    unfolding Classify_def Let_def Compare_trim no prod.case by (simp split: if_split)
  with np show ?thesis by (auto split: option.split)
qed

text \<open>The bounds on a release's protocol are sound for any table that is oldest first with
  protocols that never decrease: a listed release is exact, no release before the tag speaks more
  than the lower bound, every release after it speaks at least the upper bound, and the upper
  bound is known whenever some listed release follows the tag.\<close>

theorem release_protocol_bounds:
  assumes "ascending rels" and "IsRelease tag"
  shows "case ReleaseProtocolIn rels tag of (lo, hi) \<Rightarrow>
     (hi = 0 \<or> lo \<le> hi) \<and>
     filter (\<lambda>r. Compare (rl_Tag r) tag = (- 1, True) \<and> lo < rl_Protocol r) rels = [] \<and>
     filter (\<lambda>r. Compare (rl_Tag r) tag = (1, True) \<and> (hi = 0 \<or> rl_Protocol r < hi)) rels = [] \<and>
     filter (\<lambda>r. Compare (rl_Tag r) tag = (0, True) \<and> (lo, hi) \<noteq> (rl_Protocol r, rl_Protocol r)) rels = []"
proof -
  have ct: "Compare x (trim_space tag) = Compare x tag" for x by (simp add: Compare_def)
  obtain lo hi where r: "protocol_scan rels (trim_space tag) 0 0 = (lo, hi)" by fastforce
  have "\<forall>r \<in> set rels. 0 \<le> rl_Protocol r" using assms(1) by (auto simp: ascending_def list_all_iff)
  note B = protocol_scan_bounds [OF assms(1) this r, unfolded ct]
  have "ReleaseProtocolIn rels tag = (lo, hi)"
    using r assms(2) by (simp add: ReleaseProtocolIn_def IsRelease_def)
  then show ?thesis using B by (auto simp: filter_empty_conv)
qed

theorem release_protocol_bounds_witness:
  "ReleaseProtocolIn publishedReleases ''v0.0.5-rc1'' = (13, 21) \<and>
   filter (\<lambda>r. Compare (rl_Tag r) ''v0.0.5-rc1'' = (- 1, True) \<and> 13 < rl_Protocol r) publishedReleases = []"
proof -
  have asc: "ascending publishedReleases" by code_simp
  have rel: "IsRelease ''v0.0.5-rc1''" by code_simp
  have val: "ReleaseProtocolIn publishedReleases ''v0.0.5-rc1'' = (13, 21)" by code_simp
  show ?thesis using release_protocol_bounds [OF asc rel] by (simp add: val)
qed

text \<open>Whether two versions or commits name the same commit does not depend on the order they are
  given in, and an edge target names back the commit it was made from.\<close>

theorem edge_target_roundtrip:
  "SameCommit a b = SameCommit b a \<and>
   ParseEdgeTarget (EdgeTarget c) =
     (if IsCommit (to_lower (trim_space c)) 7 then Inr (to_lower (trim_space c))
      else Inl (ErrEdgeCommit (EdgeTarget c)))"
proof
  show "SameCommit a b = SameCommit b a" by (auto simp: SameCommit_def Let_def)
next
  let ?l = "to_lower (trim_space c)"
  have "\<not> is_space (last (EdgeTarget c))"
  proof (cases "trim_space c = []")
    case True
    then show ?thesis by (simp add: EdgeTarget_def EdgeTargetPrefix_def to_lower_def is_space_def byte_val_def)
  next
    case False
    then have "last (EdgeTarget c) = lower_char (last (trim_space c))"
      by (simp add: EdgeTarget_def to_lower_def last_map)
    with trim_space_last [OF False] show ?thesis by simp
  qed
  moreover have "\<not> is_space (hd (EdgeTarget c))"
    by (simp add: EdgeTarget_def EdgeTargetPrefix_def is_space_def byte_val_def)
  ultimately have t: "trim_space (EdgeTarget c) = EdgeTarget c" by (intro trim_space_ident)
  have low: "to_lower (EdgeTarget c) = EdgeTarget c"
    by (simp add: EdgeTarget_def EdgeTargetPrefix_def to_lower_def lower_char_def byte_val_def)
  have "IsEdgeTarget (EdgeTarget c)"
    by (simp add: IsEdgeTarget_def t low) (simp add: EdgeTarget_def has_prefix_iff)
  then show "ParseEdgeTarget (EdgeTarget c) =
     (if IsCommit ?l 7 then Inr ?l else Inl (ErrEdgeCommit (EdgeTarget c)))"
    by (simp add: ParseEdgeTarget_def t Let_def) (simp add: EdgeTarget_def)
qed

end
