(* ===== verification/Health.thy ===== *)
theory Health
  imports GoStrings
begin

text \<open>
  Executor health (\<open>pkg/executor/health.go\<close>): the scheduling states of a node, the folding of
  probe results into its record, the operator's cordon, drain and uncordon, and the transitions
  they report. A probe error is the text of the Go error, \<open>None\<close> for a successful probe; the
  failure counter is an unbounded integer.
\<close>

section \<open>States and records\<close>

datatype NodeState = NodeReady | NodeDegraded | NodeUnreachable | NodeCordoned | NodeDraining
  | NodeStateOther string

definition Valid :: "NodeState \<Rightarrow> bool" where
  "Valid s = (case s of NodeStateOther _ \<Rightarrow> False | _ \<Rightarrow> True)"

definition Schedulable :: "NodeState \<Rightarrow> bool" where
  "Schedulable s \<longleftrightarrow> s = NodeReady \<or> s = NodeDegraded"

definition AdminHeld :: "NodeState \<Rightarrow> bool" where
  "AdminHeld s \<longleftrightarrow> s = NodeCordoned \<or> s = NodeDraining"

record Health =
  h_ExecutorID :: string
  h_State :: NodeState
  h_Reason :: string
  h_ConsecutiveFailures :: int
  h_LastSeen :: time
  h_LastProbe :: time
  h_StateChangedAt :: time

definition Normalize :: "Health \<Rightarrow> Health" where
  "Normalize h0 =
     (let h1 = (if \<not> Valid (h_State h0) then h0\<lparr>h_State := NodeReady\<rparr> else h0)
      in if h_ConsecutiveFailures h1 < 0 then h1\<lparr>h_ConsecutiveFailures := 0\<rparr> else h1)"

definition Stale :: "Health \<Rightarrow> time \<Rightarrow> duration \<Rightarrow> bool" where
  "Stale h ref ttl =
     (if ttl \<le> 0 then False
      else if h_LastSeen h = 0 then h_StateChangedAt h \<noteq> 0 \<and> time_sub ref (h_StateChangedAt h) > ttl
      else time_sub ref (h_LastSeen h) > ttl)"

record HealthPolicy =
  hp_DegradeAfter :: int
  hp_UnreachableAfter :: int

definition DefaultHealthPolicy :: HealthPolicy where
  "DefaultHealthPolicy = \<lparr>hp_DegradeAfter = 1, hp_UnreachableAfter = 3\<rparr>"

definition normalize_policy :: "HealthPolicy \<Rightarrow> HealthPolicy" where
  "normalize_policy p0 =
     (let p = (if hp_DegradeAfter p0 < 1 then p0\<lparr>hp_DegradeAfter := 1\<rparr> else p0)
      in if hp_UnreachableAfter p < hp_DegradeAfter p
         then p\<lparr>hp_UnreachableAfter := hp_DegradeAfter p\<rparr> else p)"

record Transition =
  tr_ExecutorID :: string
  tr_From :: NodeState
  tr_To :: NodeState
  tr_Reason :: string
  tr_At :: time

definition transition :: "string \<Rightarrow> NodeState \<Rightarrow> NodeState \<Rightarrow> string \<Rightarrow> time \<Rightarrow> Transition" where
  "transition i frm dest reason at =
     \<lparr>tr_ExecutorID = i, tr_From = frm, tr_To = dest, tr_Reason = reason, tr_At = at\<rparr>"

fun state_name :: "NodeState \<Rightarrow> string" where
  "state_name NodeReady = ''ready''"
| "state_name NodeDegraded = ''degraded''"
| "state_name NodeUnreachable = ''unreachable''"
| "state_name NodeCordoned = ''cordoned''"
| "state_name NodeDraining = ''draining''"
| "state_name (NodeStateOther s) = s"

definition TransitionString :: "Transition \<Rightarrow> string" where
  "TransitionString t =
     tr_ExecutorID t @ '': '' @ state_name (tr_From t) @ '' -> '' @ state_name (tr_To t) @
     (if tr_Reason t \<noteq> [] then '' ('' @ tr_Reason t @ '')'' else [])"

section \<open>Operations\<close>

definition applyState :: "Health \<Rightarrow> NodeState \<Rightarrow> string \<Rightarrow> time \<Rightarrow> Health" where
  "applyState h dest reason at =
     h\<lparr>h_State := dest, h_Reason := reason, h_StateChangedAt := at\<rparr>"

definition defaultReason :: "string \<Rightarrow> string \<Rightarrow> string" where
  "defaultReason reason fallback = (if trim_space reason = [] then fallback else reason)"

text \<open>The ellipsis is three bytes of UTF-8.\<close>

definition ellipsis :: string where "ellipsis = [CHR 0xE2, CHR 0x80, CHR 0xA6]"

definition probeReason :: "string \<Rightarrow> string" where
  "probeReason err =
     (let msg0 = trim_space err in
      if msg0 = [] then ''probe failed''
      else
        let msg = (case cut_at (CHR 0x0A) msg0 of None \<Rightarrow> msg0 | Some (a, b) \<Rightarrow> a)
        in if length msg > 200 then take 199 msg @ ellipsis else msg)"

definition ObserveProbe ::
  "Health \<Rightarrow> string option \<Rightarrow> time \<Rightarrow> HealthPolicy \<Rightarrow> Health \<times> Transition option"
where
  "ObserveProbe h0 probeErr at policy0 =
     (let policy = normalize_policy policy0;
          h1 = Normalize h0;
          frm = h_State h1;
          h2 = h1\<lparr>h_LastProbe := at\<rparr>
      in case probeErr of
        None \<Rightarrow>
          let h = h2\<lparr>h_ConsecutiveFailures := 0, h_LastSeen := at\<rparr> in
          if AdminHeld frm then (h, None)
          else if frm = NodeReady then (h, None)
          else (applyState h NodeReady ''probe succeeded'' at,
                Some (transition (h_ExecutorID h) frm NodeReady ''probe succeeded'' at))
      | Some err \<Rightarrow>
          let h = h2\<lparr>h_ConsecutiveFailures := h_ConsecutiveFailures h2 + 1\<rparr>;
              reason = probeReason err
          in if AdminHeld frm then (h, None)
             else
               let target =
                 (if h_ConsecutiveFailures h \<ge> hp_UnreachableAfter policy then NodeUnreachable
                  else if h_ConsecutiveFailures h \<ge> hp_DegradeAfter policy
                  then (if frm \<noteq> NodeUnreachable then NodeDegraded else frm)
                  else frm)
               in if target = frm then (h\<lparr>h_Reason := reason\<rparr>, None)
                  else (applyState h target reason at,
                        Some (transition (h_ExecutorID h) frm target reason at)))"

definition adminTransition ::
  "Health \<Rightarrow> NodeState \<Rightarrow> string \<Rightarrow> time \<Rightarrow> Health \<times> Transition option"
where
  "adminTransition h0 dest reason at =
     (let h = Normalize h0; frm = h_State h in
      if frm = dest then (h, None)
      else (applyState h dest reason at, Some (transition (h_ExecutorID h) frm dest reason at)))"

definition Cordon :: "Health \<Rightarrow> string \<Rightarrow> time \<Rightarrow> Health \<times> Transition option" where
  "Cordon h reason at = adminTransition h NodeCordoned (defaultReason reason ''cordoned by operator'') at"

definition Drain :: "Health \<Rightarrow> string \<Rightarrow> time \<Rightarrow> Health \<times> Transition option" where
  "Drain h reason at = adminTransition h NodeDraining (defaultReason reason ''draining by operator'') at"

definition Uncordon :: "Health \<Rightarrow> time \<Rightarrow> HealthPolicy \<Rightarrow> Health \<times> Transition option" where
  "Uncordon h0 at policy0 =
     (let h = Normalize h0; frm = h_State h in
      if \<not> AdminHeld frm then (h, None)
      else
        let policy = normalize_policy policy0;
            (target, reason) =
              (if h_ConsecutiveFailures h \<ge> hp_UnreachableAfter policy
               then (NodeUnreachable, ''uncordoned; probes still failing'')
               else if h_ConsecutiveFailures h \<ge> hp_DegradeAfter policy
               then (NodeDegraded, ''uncordoned; probes still failing'')
               else (NodeReady, ''uncordoned''))
        in (applyState h target reason at,
            Some (transition (h_ExecutorID h) frm target reason at)))"

section \<open>The state machine\<close>

text \<open>Every way a record changes under one policy.\<close>

inductive health_step :: "HealthPolicy \<Rightarrow> Health \<Rightarrow> Transition option \<Rightarrow> Health \<Rightarrow> bool"
  for policy :: HealthPolicy
where
  probed: "ObserveProbe h err at policy = (h', tr) \<Longrightarrow> health_step policy h tr h'"
| cordoned: "Cordon h reason at = (h', tr) \<Longrightarrow> health_step policy h tr h'"
| drained: "Drain h reason at = (h', tr) \<Longrightarrow> health_step policy h tr h'"
| uncordoned: "Uncordon h at policy = (h', tr) \<Longrightarrow> health_step policy h tr h'"

text \<open>The same as a function, over a history of probes and operators' requests.\<close>

datatype health_act = Probe "string option" time | CordonBy string time | DrainBy string time | UncordonBy time

fun health_do :: "HealthPolicy \<Rightarrow> health_act \<Rightarrow> Health \<Rightarrow> Health \<times> Transition option" where
  "health_do policy (Probe err at) h = ObserveProbe h err at policy"
| "health_do policy (CordonBy reason at) h = Cordon h reason at"
| "health_do policy (DrainBy reason at) h = Drain h reason at"
| "health_do policy (UncordonBy at) h = Uncordon h at policy"

definition health_run :: "HealthPolicy \<Rightarrow> health_act list \<Rightarrow> Health \<Rightarrow> Health" where
  "health_run policy acts h = fold (\<lambda>a h. fst (health_do policy a h)) acts h"

lemma health_do_step: "health_step policy h (snd (health_do policy a h)) (fst (health_do policy a h))"
  by (cases a) (auto intro: health_step.intros)

text \<open>What the history says, read from its end: the outcomes of the probes since the last success, held
  or not, and the last request of an operator.\<close>

fun failed_probes :: "health_act list \<Rightarrow> bool list" where
  "failed_probes [] = []"
| "failed_probes (Probe err at # acts) = (err \<noteq> None) # failed_probes acts"
| "failed_probes (a # acts) = failed_probes acts"

definition failures_in_a_row :: "health_act list \<Rightarrow> nat" where
  "failures_in_a_row acts = length (takeWhile (\<lambda>failed. failed) (rev (failed_probes acts)))"

fun last_request :: "health_act list \<Rightarrow> NodeState option" where
  "last_request [] = None"
| "last_request (Probe err at # earlier) = last_request earlier"
| "last_request (CordonBy reason at # earlier) = Some NodeCordoned"
| "last_request (DrainBy reason at # earlier) = Some NodeDraining"
| "last_request (UncordonBy at # earlier) = None"

definition held_by_operator :: "health_act list \<Rightarrow> NodeState option" where
  "held_by_operator acts = last_request (rev acts)"

text \<open>What the probe history alone justifies.\<close>

definition evidence :: "HealthPolicy \<Rightarrow> int \<Rightarrow> NodeState" where
  "evidence policy n =
     (let p = normalize_policy policy in
      if n \<ge> hp_UnreachableAfter p then NodeUnreachable
      else if n \<ge> hp_DegradeAfter p then NodeDegraded else NodeReady)"

definition supported :: "HealthPolicy \<Rightarrow> Health \<Rightarrow> bool" where
  "supported policy h \<longleftrightarrow> 0 \<le> h_ConsecutiveFailures h \<and>
     (AdminHeld (h_State h) \<or> h_State h = evidence policy (h_ConsecutiveFailures h))"

lemma policy_order:
  "1 \<le> hp_DegradeAfter (normalize_policy p)"
  "hp_DegradeAfter (normalize_policy p) \<le> hp_UnreachableAfter (normalize_policy p)"
  by (auto simp: normalize_policy_def Let_def)

lemma evidence_zero: "evidence p 0 = NodeReady"
  using policy_order [of p] by (auto simp: evidence_def Let_def)

lemma Valid_evidence: "Valid (evidence p n)" "\<not> AdminHeld (evidence p n)"
  by (auto simp: evidence_def Let_def Valid_def AdminHeld_def)

lemma supported_Valid: "supported policy h \<Longrightarrow> Valid (h_State h)"
  using Valid_evidence(1) by (auto simp: supported_def AdminHeld_def Valid_def)

lemma Normalize_supported: "supported policy h \<Longrightarrow> Normalize h = h"
  using supported_Valid [of policy h] by (simp add: supported_def Normalize_def Let_def)

lemma Normalize_facts [simp]:
  "Valid (h_State (Normalize h))" "0 \<le> h_ConsecutiveFailures (Normalize h)"
  "Normalize (Normalize h) = Normalize h" "h_ExecutorID (Normalize h) = h_ExecutorID h"
  by (auto simp: Normalize_def Let_def Valid_def)

lemma applyState_simps [simp, state_simps]:
  "h_State (applyState h s r at) = s" "h_Reason (applyState h s r at) = r"
  "h_ConsecutiveFailures (applyState h s r at) = h_ConsecutiveFailures h"
  "h_LastSeen (applyState h s r at) = h_LastSeen h" "h_LastProbe (applyState h s r at) = h_LastProbe h"
  "h_StateChangedAt (applyState h s r at) = at" "h_ExecutorID (applyState h s r at) = h_ExecutorID h"
  by (simp_all add: applyState_def)

lemma evidence_success:
  assumes "supported policy h"
  shows "supported policy (fst (ObserveProbe h None at policy))"
  using assms
  by (auto simp: ObserveProbe_def Let_def Normalize_supported supported_def evidence_zero AdminHeld_def)

lemma evidence_failure:
  assumes "supported policy h"
  shows "supported policy (fst (ObserveProbe h (Some e) at policy))"
proof (cases "AdminHeld (h_State h)")
  case True
  with assms show ?thesis
    by (auto simp: ObserveProbe_def Let_def Normalize_supported supported_def)
next
  case False
  with assms have s: "h_State h = evidence policy (h_ConsecutiveFailures h)" and n: "0 \<le> h_ConsecutiveFailures h"
    by (auto simp: supported_def)
  show ?thesis
    using assms s n False policy_order [of policy]
    by (simp add: ObserveProbe_def Let_def Normalize_supported)
       (auto simp: supported_def evidence_def Let_def)
qed

lemma supported_admin:
  "supported policy h \<Longrightarrow> AdminHeld s \<Longrightarrow> supported policy (fst (adminTransition h s reason at))"
  by (simp add: adminTransition_def Let_def Normalize_supported) (auto simp: supported_def)

lemma supported_uncordon:
  "supported policy h \<Longrightarrow> supported policy (fst (Uncordon h at policy))"
  by (simp add: Uncordon_def Let_def Normalize_supported) (auto simp: supported_def evidence_def Let_def)

lemma supported_step:
  assumes "supported policy h" and "health_step policy h tr h'"
  shows "supported policy h'"
  using assms(2)
proof cases
  case (probed err at)
  then have h': "h' = fst (ObserveProbe h err at policy)" by simp
  show ?thesis
    using evidence_success [OF assms(1)] evidence_failure [OF assms(1)]
    unfolding h' by (cases err) auto
next
  case (cordoned reason at)
  then have h': "h' = fst (Cordon h reason at)" by simp
  show ?thesis unfolding h' Cordon_def by (rule supported_admin [OF assms(1)]) (simp add: AdminHeld_def)
next
  case (drained reason at)
  then have h': "h' = fst (Drain h reason at)" by simp
  show ?thesis unfolding h' Drain_def by (rule supported_admin [OF assms(1)]) (simp add: AdminHeld_def)
next
  case (uncordoned at)
  then have h': "h' = fst (Uncordon h at policy)" by simp
  show ?thesis unfolding h' by (rule supported_uncordon [OF assms(1)])
qed

text \<open>The record after a history: the counter is the run of failures at its end, the state what the last
  operator's request or else that run says.\<close>

definition tells :: "HealthPolicy \<Rightarrow> health_act list \<Rightarrow> Health \<Rightarrow> bool" where
  "tells policy acts h \<longleftrightarrow> h_ConsecutiveFailures h = int (failures_in_a_row acts) \<and>
     h_State h = (case held_by_operator acts of
        Some s \<Rightarrow> s | None \<Rightarrow> evidence policy (int (failures_in_a_row acts)))"

lemma failed_probes_append: "failed_probes (xs @ ys) = failed_probes xs @ failed_probes ys"
  by (induction xs rule: failed_probes.induct) simp_all

lemma failures_snoc [simp]:
  "failures_in_a_row (acts @ [Probe None at]) = 0"
  "failures_in_a_row (acts @ [Probe (Some e) at]) = Suc (failures_in_a_row acts)"
  "failures_in_a_row (acts @ [CordonBy reason at]) = failures_in_a_row acts"
  "failures_in_a_row (acts @ [DrainBy reason at]) = failures_in_a_row acts"
  "failures_in_a_row (acts @ [UncordonBy at]) = failures_in_a_row acts"
  by (simp_all add: failures_in_a_row_def failed_probes_append)

lemma held_snoc [simp]:
  "held_by_operator (acts @ [Probe err at]) = held_by_operator acts"
  "held_by_operator (acts @ [CordonBy reason at]) = Some NodeCordoned"
  "held_by_operator (acts @ [DrainBy reason at]) = Some NodeDraining"
  "held_by_operator (acts @ [UncordonBy at]) = None"
  by (simp_all add: held_by_operator_def)

lemma last_request_held: "last_request acts = Some s \<Longrightarrow> AdminHeld s"
  by (induction acts rule: last_request.induct) (auto simp: AdminHeld_def)

lemma held_is_held: "held_by_operator acts = Some s \<Longrightarrow> AdminHeld s"
  by (simp add: held_by_operator_def last_request_held)

lemma tells_supported: "tells policy acts h \<Longrightarrow> supported policy h"
  using held_is_held [of acts] by (auto simp: tells_def supported_def split: option.splits)

lemma tells_held: "tells policy acts h \<Longrightarrow> AdminHeld (h_State h) \<longleftrightarrow> held_by_operator acts \<noteq> None"
  using held_is_held [of acts] Valid_evidence(2) by (auto simp: tells_def split: option.splits)

lemma probe_counts:
  assumes "supported policy h"
  shows "h_ConsecutiveFailures (fst (ObserveProbe h err at policy)) =
      (if err = None then 0 else h_ConsecutiveFailures h + 1)"
    and "AdminHeld (h_State (fst (ObserveProbe h err at policy))) = AdminHeld (h_State h)"
    and "AdminHeld (h_State h) \<Longrightarrow> h_State (fst (ObserveProbe h err at policy)) = h_State h"
  using Normalize_supported [OF assms] by (auto simp: ObserveProbe_def Let_def AdminHeld_def split: option.split)

lemma probe_tells:
  assumes "tells policy acts h"
  shows "tells policy (acts @ [Probe err at]) (fst (ObserveProbe h err at policy))"
proof -
  let ?h = "fst (ObserveProbe h err at policy)"
  note s = tells_supported [OF assms]
  have s': "supported policy ?h" using evidence_success [OF s] evidence_failure [OF s] by (cases err) auto
  have n: "h_ConsecutiveFailures ?h = int (failures_in_a_row (acts @ [Probe err at]))"
    using probe_counts(1) [OF s, of err at] assms by (cases err) (simp_all add: tells_def)
  show ?thesis
  proof (cases "held_by_operator acts")
    case None
    then have "\<not> AdminHeld (h_State ?h)" using tells_held [OF assms] probe_counts(2) [OF s] by simp
    with s' n None show ?thesis by (simp add: tells_def supported_def)
  next
    case (Some st)
    then have "h_State ?h = st" using probe_counts(3) [OF s] tells_held [OF assms] assms by (simp add: tells_def)
    with n Some show ?thesis by (simp add: tells_def)
  qed
qed

lemma admin_tells:
  assumes "tells policy acts h"
  shows "h_State (fst (adminTransition h s reason at)) = s"
    and "h_ConsecutiveFailures (fst (adminTransition h s reason at)) = int (failures_in_a_row acts)"
  using assms Normalize_supported [OF tells_supported [OF assms]]
  by (auto simp: adminTransition_def Let_def tells_def)

lemma uncordon_tells:
  assumes "tells policy acts h"
  shows "tells policy (acts @ [UncordonBy at]) (fst (Uncordon h at policy))"
proof -
  let ?h = "fst (Uncordon h at policy)"
  note s = tells_supported [OF assms]
  have "h_ConsecutiveFailures ?h = h_ConsecutiveFailures h" "\<not> AdminHeld (h_State ?h)"
    using Normalize_supported [OF s] by (auto simp: Uncordon_def Let_def AdminHeld_def)
  with supported_uncordon [OF s, of at] assms show ?thesis by (auto simp: tells_def supported_def)
qed

lemma tells_step:
  assumes "tells policy acts h"
  shows "tells policy (acts @ [a]) (fst (health_do policy a h))"
proof (cases a)
  case (Probe err at)
  then show ?thesis using probe_tells [OF assms] by simp
next
  case (CordonBy reason at)
  then show ?thesis using admin_tells [OF assms] by (simp add: tells_def Cordon_def)
next
  case (DrainBy reason at)
  then show ?thesis using admin_tells [OF assms] by (simp add: tells_def Drain_def)
next
  case (UncordonBy at)
  then show ?thesis using uncordon_tells [OF assms] by simp
qed

lemma tells_run:
  assumes "tells policy [] h"
  shows "tells policy acts (health_run policy acts h)"
  by (induction acts rule: rev_induct) (use assms tells_step in \<open>auto simp: health_run_def\<close>)

text \<open>A run of failed probes, at any times and with any errors.\<close>

fun observe_failures :: "HealthPolicy \<Rightarrow> Health \<Rightarrow> (string \<times> time) list \<Rightarrow> Health" where
  "observe_failures policy h [] = h"
| "observe_failures policy h ((e, at) # es) =
     observe_failures policy (fst (ObserveProbe h (Some e) at policy)) es"

lemma AdminHeld_Normalize [simp]: "AdminHeld (h_State (Normalize h)) = AdminHeld (h_State h)"
  by (auto simp: Normalize_def Let_def AdminHeld_def Valid_def)

lemma Normalize_admin_state: "AdminHeld (h_State h) \<Longrightarrow> h_State (Normalize h) = h_State h"
  by (auto simp: Normalize_def Let_def AdminHeld_def Valid_def)

lemma Normalize_reason [simp]: "h_Reason (Normalize h) = h_Reason h"
  by (simp add: Normalize_def Let_def)

lemma failed_probe:
  fixes policy at e
  assumes "\<not> AdminHeld (h_State h)"
  defines "h' \<equiv> fst (ObserveProbe h (Some e) at policy)"
  shows "h_ConsecutiveFailures h' = h_ConsecutiveFailures (Normalize h) + 1 \<and>
    \<not> AdminHeld (h_State h') \<and>
    (hp_UnreachableAfter (normalize_policy policy) \<le> h_ConsecutiveFailures h' \<longrightarrow>
       h_State h' = NodeUnreachable)"
  unfolding h'_def using assms(1) AdminHeld_Normalize [of h]
  by (simp add: ObserveProbe_def Let_def) (auto simp: AdminHeld_def)

lemma failures_accumulate:
  assumes "\<not> AdminHeld (h_State h)"
  shows "\<not> AdminHeld (h_State (observe_failures policy h es)) \<and>
    (es = [] \<or> h_ConsecutiveFailures (observe_failures policy h es)
               = h_ConsecutiveFailures (Normalize h) + int (length es) \<and>
      (hp_UnreachableAfter (normalize_policy policy) \<le> int (length es) \<longrightarrow>
       h_State (observe_failures policy h es) = NodeUnreachable))"
  using assms
proof (induction es rule: rev_induct)
  case Nil
  then show ?case by simp
next
  case (snoc x es)
  obtain e at where x: "x = (e, at)" by fastforce
  let ?h = "observe_failures policy h es"
  have app: "observe_failures policy h (es @ [x]) = fst (ObserveProbe ?h (Some e) at policy)"
    unfolding x by (induction es arbitrary: h) auto
  have n: "h_ConsecutiveFailures (Normalize ?h) = h_ConsecutiveFailures (Normalize h) + int (length es)"
  proof (cases "es = []")
    case False
    with snoc have "h_ConsecutiveFailures ?h = h_ConsecutiveFailures (Normalize h) + int (length es)"
      by blast
    moreover have "0 \<le> h_ConsecutiveFailures (Normalize h)" by simp
    ultimately have "0 \<le> h_ConsecutiveFailures ?h" by linarith
    then have "h_ConsecutiveFailures (Normalize ?h) = h_ConsecutiveFailures ?h"
      by (simp add: Normalize_def Let_def)
    with \<open>h_ConsecutiveFailures ?h = _\<close> show ?thesis by simp
  qed simp
  have pos: "0 \<le> h_ConsecutiveFailures (Normalize h)" by simp
  have nh: "\<not> AdminHeld (h_State ?h)" using snoc by blast
  note F = failed_probe [OF nh, of e at policy]
  have len: "int (length (es @ [x])) = int (length es) + 1" by simp
  have "h_ConsecutiveFailures (fst (ObserveProbe ?h (Some e) at policy))
      = h_ConsecutiveFailures (Normalize h) + int (length (es @ [x]))"
    using F n len by linarith
  moreover from this pos have "hp_UnreachableAfter (normalize_policy policy) \<le> int (length (es @ [x])) \<longrightarrow>
      h_State (fst (ObserveProbe ?h (Some e) at policy)) = NodeUnreachable"
    using F by linarith
  ultimately show ?case unfolding app using F by blast
qed

section \<open>Properties\<close>

text \<open>C24: the record follows the probes. However probes and operators interleave, the counter of a node
  that started ready and without failures is the number of failed probes since the last one that
  succeeded, those while it was cordoned or draining included. A node whose last request from an
  operator was a cordon or a drain is in that state; any other is in exactly the state that number
  justifies: ready below the first threshold, degraded from it, unreachable from the second. In
  particular uncordon never launders a failing node into the ready set.\<close>

theorem state_follows_evidence:
  assumes "h_State h0 = NodeReady" and "h_ConsecutiveFailures h0 = 0"
  shows "h_ConsecutiveFailures (health_run policy acts h0) = int (failures_in_a_row acts) \<and>
    h_State (health_run policy acts h0) =
      (case held_by_operator acts of
         Some s \<Rightarrow> s
       | None \<Rightarrow> evidence policy (int (failures_in_a_row acts)))"
proof -
  have "tells policy [] h0"
    using assms by (simp add: tells_def held_by_operator_def failures_in_a_row_def evidence_zero)
  then show ?thesis using tells_run [of policy h0 acts] by (simp add: tells_def)
qed

definition fresh_health :: Health where
  "fresh_health = \<lparr>h_ExecutorID = ''edge'', h_State = NodeReady, h_Reason = [],
     h_ConsecutiveFailures = 0, h_LastSeen = 0, h_LastProbe = 0, h_StateChangedAt = 0\<rparr>"

theorem state_follows_evidence_witness:
  "let acts = [Probe None 4, CordonBy ''maintenance'' 5, Probe (Some ''timeout'') 6, Probe (Some ''timeout'') 7,
         Probe (Some ''timeout'') 8, UncordonBy 9]
   in h_State (health_run DefaultHealthPolicy acts fresh_health) = NodeUnreachable"
proof -
  let ?acts = "[Probe None 4, CordonBy ''maintenance'' 5, Probe (Some ''timeout'') 6, Probe (Some ''timeout'') 7,
         Probe (Some ''timeout'') 8, UncordonBy 9]"
  have s: "h_State fresh_health = NodeReady" "h_ConsecutiveFailures fresh_health = 0" by (simp_all add: fresh_health_def)
  have "held_by_operator ?acts = None" "evidence DefaultHealthPolicy (int (failures_in_a_row ?acts)) = NodeUnreachable"
    by code_simp+
  with state_follows_evidence [OF s, of DefaultHealthPolicy ?acts] show ?thesis by (simp add: Let_def)
qed

text \<open>A probe never moves a node an operator holds: its state and reason stay, no transition is
  reported, and its failures are still counted. A probe never puts a node under an operator's hold
  either.\<close>

theorem probe_keeps_admin_hold:
  "case ObserveProbe h err at policy of (h', tr) \<Rightarrow>
     if AdminHeld (h_State h)
     then h_State h' = h_State h \<and> h_Reason h' = h_Reason h \<and> tr = None \<and> h_LastProbe h' = at \<and>
          h_ConsecutiveFailures h' = (if err = None then 0 else h_ConsecutiveFailures (Normalize h) + 1)
     else \<not> AdminHeld (h_State h')"
proof (cases "AdminHeld (h_State h)")
  case True
  then show ?thesis
    by (cases err) (simp_all add: ObserveProbe_def Let_def Normalize_admin_state)
next
  case False
  show ?thesis
  proof (cases err)
    case None
    have "\<not> AdminHeld NodeReady" by (simp add: AdminHeld_def)
    with None False show ?thesis by (simp add: ObserveProbe_def Let_def)
  next
    case (Some e)
    with False failed_probe [OF False, of e at policy] show ?thesis
      by (simp add: case_prod_beta)
  qed
qed

text \<open>A step reports a transition exactly when the node's (normalized) state changes, and the
  report names the old state, the new state, the recorded reason and the time of the change.\<close>

theorem transition_reported_iff_changed:
  assumes "health_step policy h tr h'"
  shows "case tr of
      None \<Rightarrow> h_State h' = h_State (Normalize h)
    | Some t \<Rightarrow> tr_From t = h_State (Normalize h) \<and> tr_To t = h_State h' \<and> tr_From t \<noteq> tr_To t \<and>
        tr_Reason t = h_Reason h' \<and> tr_At t = h_StateChangedAt h' \<and> tr_ExecutorID t = h_ExecutorID h'"
  using assms
proof cases
  case (probed err at)
  then show ?thesis
    by (cases err) (auto simp: ObserveProbe_def Let_def transition_def split: if_splits)
next
  case (cordoned reason at)
  then show ?thesis
    by (auto simp: Cordon_def adminTransition_def Let_def transition_def split: if_splits)
next
  case (drained reason at)
  then show ?thesis
    by (auto simp: Drain_def adminTransition_def Let_def transition_def split: if_splits)
next
  case (uncordoned at)
  then show ?thesis
    by (auto simp: Uncordon_def Let_def transition_def AdminHeld_def split: if_splits)
qed

theorem transition_reported_iff_changed_witness:
  "case Drain fresh_health [] 9 of (h', tr) \<Rightarrow>
     map_option tr_From tr = Some NodeReady \<and> map_option tr_To tr = Some (h_State h') \<and>
     h_State h' = NodeDraining"
proof -
  obtain h' tr where d: "Drain fresh_health [] 9 = (h', tr)" by fastforce
  have v: "map_option tr_From (snd (Drain fresh_health [] 9)) = Some NodeReady"
    "h_State (fst (Drain fresh_health [] 9)) = NodeDraining" by code_simp+
  from transition_reported_iff_changed [OF health_step.drained [OF d, of DefaultHealthPolicy]] v d
  show ?thesis by (auto split: option.splits)
qed

text \<open>Enough consecutive failed probes make any node that is not held unreachable, whatever
  state and counter it started from, and one successful probe makes it ready again.\<close>

theorem sustained_failure_is_unreachable:
  assumes "\<not> AdminHeld (h_State h)"
    and "hp_UnreachableAfter (normalize_policy policy) \<le> int (length es)"
  shows "h_State (observe_failures policy h es) = NodeUnreachable \<and>
    h_State (fst (ObserveProbe (observe_failures policy h es) None at policy)) = NodeReady"
proof -
  have "1 \<le> int (length es)" using assms(2) policy_order [of policy] by linarith
  then have "es \<noteq> []" by auto
  with failures_accumulate [OF assms(1), of policy es] assms(2) have
    u: "h_State (observe_failures policy h es) = NodeUnreachable" by blast
  then have "h_State (Normalize (observe_failures policy h es)) = NodeUnreachable"
    by (simp add: Normalize_def Let_def Valid_def)
  with u show ?thesis by (simp add: ObserveProbe_def Let_def AdminHeld_def)
qed

theorem sustained_failure_is_unreachable_witness:
  "h_State (observe_failures DefaultHealthPolicy fresh_health
     [(''timeout'', 1), (''timeout'', 2), (''refused'', 3)]) = NodeUnreachable"
proof -
  let ?es = "[(''timeout'', 1), (''timeout'', 2), (''refused'', 3)]"
  have a: "\<not> AdminHeld (h_State fresh_health)" by code_simp
  have b: "hp_UnreachableAfter (normalize_policy DefaultHealthPolicy) \<le> int (length ?es)" by code_simp
  show ?thesis using sustained_failure_is_unreachable [OF a b] by blast
qed

end
