(* ===== verification/Executor.thy ===== *)
theory Executor
  imports Version "HOL-Library.AList"
begin

text \<open>
  Executors and the policies of a deployment (\<open>pkg/executor/executor.go\<close>, \<open>policy.go\<close>,
  \<open>registry.go\<close>, \<open>agentbuild.go\<close>, \<open>policypath.go\<close>): what a driver advertises, the registry that
  resolves a project to an executor, the no-host-execution switch and the fleet's minimum agent
  build. A driver is the record of the answers its methods give; an optional interface it may
  implement is an option. A Go map is an association list with one entry per key, and the
  process-wide switches are explicit state. Text of error messages is left out; the values an
  error carries are kept.
\<close>

section \<open>Drivers\<close>

datatype Isolation = IsolationNone | IsolationContainer | IsolationVM | IsolationRemote
  | IsolationOther string

datatype DiskEnforcement = DiskEnforcementNone | DiskEnforcementSampled | DiskEnforcementEviction

definition Enforced :: "DiskEnforcement \<Rightarrow> bool" where
  "Enforced d \<longleftrightarrow> d \<noteq> DiskEnforcementNone"

record Capabilities =
  cap_Isolation :: Isolation
  cap_Virtualized :: bool
  cap_KernelIsolated :: bool
  cap_SupportsStream :: bool
  cap_SupportsSignal :: bool
  cap_SupportsResourceLimits :: bool
  cap_DiskEnforcement :: DiskEnforcement
  cap_SharesHostFilesystem :: bool
  cap_NetworkEgress :: bool
  cap_SupportsImageOverride :: bool
  cap_SupportsSandboxBuild :: bool
  cap_SupportsWorkspaceProvisioning :: bool
  cap_SupportsProjectSeed :: bool
  cap_SupportsWriteBack :: bool
  cap_SupportsBranchBundle :: bool
  cap_SupportsSandboxMounts :: bool
  cap_SupportsHostMounts :: bool
  cap_SupportsDevices :: bool
  cap_SupportsInterfaces :: bool
  cap_SupportsEgressScope :: bool
  cap_SupportsSecretFiles :: bool
  cap_MaxConcurrent :: int
  cap_Platform :: string
  cap_Arch :: string

text \<open>\<open>ex_AgentVersion\<close> is the \<open>BuildReporter\<close> interface, \<open>ex_Revoker\<close> the answer of \<open>Revoker\<close>,
  \<open>ex_IsolationRuntime\<close> that of \<open>IsolationClaimer\<close>.\<close>

record Executor =
  ex_ID :: string
  ex_Caps :: Capabilities
  ex_AgentVersion :: "string option"
  ex_Revoker :: "bool option"
  ex_IsolationRuntime :: "(string \<times> bool) option"

definition isolatesFromHost :: "Executor option \<Rightarrow> bool" where
  "isolatesFromHost ex =
     (case ex of
        None \<Rightarrow> False
      | Some e \<Rightarrow>
          (case cap_Isolation (ex_Caps e) of
             IsolationContainer \<Rightarrow> True
           | IsolationVM \<Rightarrow> True
           | IsolationRemote \<Rightarrow> True
           | _ \<Rightarrow> False))"

definition SupportsRevocation :: "Executor \<Rightarrow> bool" where
  "SupportsRevocation ex = (case ex_Revoker ex of None \<Rightarrow> False | Some b \<Rightarrow> b)"

section \<open>The registry\<close>

record Registry =
  rg_executors :: "(string \<times> Executor) list"
  rg_bindings :: "(string \<times> string) list"
  rg_defaultID :: string
  rg_lookup :: "(string \<Rightarrow> string option) option"

datatype RegistryError = ErrInvalidSpec | ErrAlreadyRegistered string | ErrExecutorNotFound string
  | ErrNoDefault | HostExecutionDenied string string "string list"

definition NewRegistry :: Registry where
  "NewRegistry = \<lparr>rg_executors = [], rg_bindings = [], rg_defaultID = [], rg_lookup = None\<rparr>"

definition sorted_ids :: "Registry \<Rightarrow> string list" where
  "sorted_ids r = sort (map fst (rg_executors r))"

definition RegistryList :: "Registry \<Rightarrow> Executor list" where
  "RegistryList r = map (\<lambda>i. the (map_of (rg_executors r) i)) (sorted_ids r)"

definition IsolatedIDs :: "Registry \<Rightarrow> string list" where
  "IsolatedIDs r = map ex_ID (filter (\<lambda>ex. isolatesFromHost (Some ex)) (RegistryList r))"

text \<open>\<open>Register\<close> checks before it takes the lock, the switch \<open>HostExecutionAllowed\<close> (the first argument)
  included, and inserts under it. \<open>Register\<close> itself is the two undisturbed by other goroutines; how they
  interleave is modelled below.\<close>

definition Register_check :: "bool \<Rightarrow> Executor option \<Rightarrow> Registry \<Rightarrow> RegistryError + string \<times> Executor" where
  "Register_check allowed ex r =
     (case ex of
        None \<Rightarrow> Inl ErrInvalidSpec
      | Some e \<Rightarrow>
          let i = trim_space (ex_ID e) in
          if i = [] then Inl ErrInvalidSpec
          else if \<not> allowed \<and> \<not> isolatesFromHost (Some e) then
            Inl (HostExecutionDenied i [] (IsolatedIDs r))
          else Inr (i, e))"

definition Register_insert :: "string \<Rightarrow> Executor \<Rightarrow> Registry \<Rightarrow> Registry \<times> RegistryError option" where
  "Register_insert i e r =
     (if map_of (rg_executors r) i \<noteq> None then (r, Some (ErrAlreadyRegistered i))
      else
        let r1 = r\<lparr>rg_executors := AList.update i e (rg_executors r)\<rparr>
        in (if rg_defaultID r1 = [] then r1\<lparr>rg_defaultID := i\<rparr> else r1, None))"

definition Register :: "bool \<Rightarrow> Executor option \<Rightarrow> Registry \<Rightarrow> Registry \<times> RegistryError option" where
  "Register allowed ex r =
     (case Register_check allowed ex r of
        Inl err \<Rightarrow> (r, Some err)
      | Inr (i, e) \<Rightarrow> Register_insert i e r)"

definition Ensure :: "bool \<Rightarrow> Executor option \<Rightarrow> Registry \<Rightarrow> Registry \<times> RegistryError option" where
  "Ensure allowed ex r =
     (case Register allowed ex r of
        (r1, Some (ErrAlreadyRegistered _)) \<Rightarrow> (r1, None)
      | res \<Rightarrow> res)"

definition Unregister :: "string \<Rightarrow> Registry \<Rightarrow> Registry" where
  "Unregister i r =
     (let r1 = r\<lparr>rg_executors := AList.delete i (rg_executors r)\<rparr> in
      if rg_defaultID r1 \<noteq> i then r1
      else case sorted_ids r1 of
        [] \<Rightarrow> r1\<lparr>rg_defaultID := []\<rparr>
      | j # _ \<Rightarrow> r1\<lparr>rg_defaultID := j\<rparr>)"

definition Get :: "Registry \<Rightarrow> string \<Rightarrow> RegistryError + Executor" where
  "Get r i = (case map_of (rg_executors r) i of
                None \<Rightarrow> Inl (ErrExecutorNotFound i) | Some ex \<Rightarrow> Inr ex)"

definition SetDefault :: "string \<Rightarrow> Registry \<Rightarrow> Registry \<times> RegistryError option" where
  "SetDefault i r =
     (if map_of (rg_executors r) i = None then (r, Some (ErrExecutorNotFound i))
      else (r\<lparr>rg_defaultID := i\<rparr>, None))"

definition Default :: "Registry \<Rightarrow> RegistryError + Executor" where
  "Default r =
     (if rg_defaultID r = [] then Inl ErrNoDefault
      else case map_of (rg_executors r) (rg_defaultID r) of
        None \<Rightarrow> Inl (ErrExecutorNotFound (rg_defaultID r))
      | Some ex \<Rightarrow> Inr ex)"

text \<open>\<open>filepath.Clean\<close> of an absolute path, and \<open>filepath.Abs\<close> below the working directory.\<close>

fun clean_parts :: "string list \<Rightarrow> string list \<Rightarrow> string list" where
  "clean_parts acc [] = rev acc"
| "clean_parts acc (p # ps) =
     (if p = [] \<or> p = ''.'' then clean_parts acc ps
      else if p = ''..'' then clean_parts (drop 1 acc) ps
      else clean_parts (p # acc) ps)"

definition clean_abs :: "string \<Rightarrow> string" where
  "clean_abs p = ''/'' @ join ''/'' (clean_parts [] (split_on (CHR ''/'') p))"

definition canonicalProjectKey :: "string \<Rightarrow> string \<Rightarrow> string" where
  "canonicalProjectKey cwd p0 =
     (let p = trim_space p0 in
      if p = [] then []
      else if has_prefix p ''/'' then clean_abs p else clean_abs (cwd @ ''/'' @ p))"

definition PolicyProjectPath :: "(string \<Rightarrow> string) option \<Rightarrow> string \<Rightarrow> string" where
  "PolicyProjectPath mapper path =
     (case mapper of
        None \<Rightarrow> path
      | Some f \<Rightarrow> if path = [] then path else if f path \<noteq> [] then f path else path)"

definition Bind :: "string \<Rightarrow> string \<Rightarrow> string \<Rightarrow> Registry \<Rightarrow> Registry \<times> RegistryError option" where
  "Bind cwd path i r =
     (let key = canonicalProjectKey cwd path in
      if key = [] then (r, Some ErrInvalidSpec)
      else if trim_space i = [] then (r\<lparr>rg_bindings := AList.delete key (rg_bindings r)\<rparr>, None)
      else (r\<lparr>rg_bindings := AList.update key i (rg_bindings r)\<rparr>, None))"

definition Unbind :: "string \<Rightarrow> string \<Rightarrow> Registry \<Rightarrow> Registry" where
  "Unbind cwd path r =
     r\<lparr>rg_bindings := AList.delete (canonicalProjectKey cwd path) (rg_bindings r)\<rparr>"

definition SetBindingLookup :: "(string \<Rightarrow> string option) option \<Rightarrow> Registry \<Rightarrow> Registry" where
  "SetBindingLookup f r = r\<lparr>rg_lookup := f\<rparr>"

definition Binding ::
  "string \<Rightarrow> (string \<Rightarrow> string) option \<Rightarrow> Registry \<Rightarrow> string \<Rightarrow> string option"
where
  "Binding cwd mapper r path =
     (let key = canonicalProjectKey cwd (PolicyProjectPath mapper path) in
      case map_of (rg_bindings r) key of
        Some i \<Rightarrow> Some i
      | None \<Rightarrow>
          (case rg_lookup r of
             None \<Rightarrow> None
           | Some f \<Rightarrow>
               if key = [] then None
               else (case f key of
                       Some i \<Rightarrow> if trim_space i \<noteq> [] then Some i else None
                     | None \<Rightarrow> None)))"

definition resolveBinding ::
  "string \<Rightarrow> (string \<Rightarrow> string) option \<Rightarrow> Registry \<Rightarrow> string \<Rightarrow> RegistryError + Executor"
where
  "resolveBinding cwd mapper r path =
     (case Binding cwd mapper r path of Some i \<Rightarrow> Get r i | None \<Rightarrow> Default r)"

definition Resolve ::
  "bool \<Rightarrow> string \<Rightarrow> (string \<Rightarrow> string) option \<Rightarrow> Registry \<Rightarrow> string \<Rightarrow> RegistryError + Executor"
where
  "Resolve allowed cwd mapper r path =
     (case resolveBinding cwd mapper r path of
        Inl e \<Rightarrow>
          if e = ErrNoDefault \<and> \<not> allowed then Inl (HostExecutionDenied [] path (IsolatedIDs r)) else Inl e
      | Inr ex \<Rightarrow>
          if \<not> allowed \<and> \<not> isolatesFromHost (Some ex)
          then Inl (HostExecutionDenied (ex_ID ex) path (IsolatedIDs r))
          else Inr ex)"

section \<open>The host-execution switch\<close>

text \<open>The executors are listed first and removed one by one, each under the lock of its own.\<close>

definition evict_one :: "Executor \<Rightarrow> Registry \<Rightarrow> Registry" where
  "evict_one ex r = (if \<not> isolatesFromHost (Some ex) then Unregister (ex_ID ex) r else r)"

definition evictNonIsolating :: "Registry \<Rightarrow> Registry" where
  "evictNonIsolating r = fold evict_one (RegistryList r) r"

text \<open>The switch together with the registry it governs, undisturbed by other goroutines.\<close>

definition ApplyHostExecutionPolicy :: "bool \<Rightarrow> bool \<times> Registry \<Rightarrow> bool \<times> Registry" where
  "ApplyHostExecutionPolicy allowed s =
     (if allowed then s else (False, evictNonIsolating (snd s)))"

text \<open>Goroutines on one registry. Each is at rest, between the check of a registration and its insertion,
  between setting the switch and listing, or evicting what is left of its list; the other operations hold
  the lock throughout, and \<open>Ensure\<close> is a registration with another answer. A registration under way
  carries what the switch was when it began, and \<open>es_late\<close> records the ids under which one that began
  while the switch was on inserted a driver without isolation after it was turned off. The raw switch
  \<open>SetAllowHostExecution\<close>, which only tests turn back, is left out.\<close>

datatype exec_job = AtRest | Inserting bool string Executor | Listing | Evicting "Executor list"

record ExecSystem =
  es_allowed :: bool
  es_reg :: Registry
  es_jobs :: "exec_job list"
  es_late :: "string list"

datatype exec_act =
    StartRegister nat "Executor option"
  | FinishRegister nat
  | StartPolicy nat bool
  | ListExecutors nat
  | EvictNext nat
  | DoUnregister string
  | DoSetDefault string
  | DoBind string string string
  | DoUnbind string string
  | DoSetLookup "(string \<Rightarrow> string option) option"

definition set_job :: "nat \<Rightarrow> exec_job \<Rightarrow> ExecSystem \<Rightarrow> ExecSystem" where
  "set_job g j s = s\<lparr>es_jobs := (es_jobs s)[g := j]\<rparr>"

definition job_of :: "nat \<Rightarrow> ExecSystem \<Rightarrow> exec_job option" where
  "job_of g s = (if g < length (es_jobs s) then Some (es_jobs s ! g) else None)"

fun exec_do :: "exec_act \<Rightarrow> ExecSystem \<Rightarrow> ExecSystem option" where
  "exec_do (StartRegister g ex) s =
     (if job_of g s = Some AtRest
      then Some (case Register_check (es_allowed s) ex (es_reg s) of
                   Inl err \<Rightarrow> s
                 | Inr (i, e) \<Rightarrow> set_job g (Inserting (es_allowed s) i e) s)
      else None)"
| "exec_do (FinishRegister g) s =
     (case job_of g s of
        Some (Inserting began i e) \<Rightarrow>
          Some ((set_job g AtRest s)\<lparr>es_reg := fst (Register_insert i e (es_reg s)),
            es_late := (if began \<and> \<not> es_allowed s \<and> \<not> isolatesFromHost (Some e) then i # es_late s else es_late s)\<rparr>)
      | _ \<Rightarrow> None)"
| "exec_do (StartPolicy g allowed) s =
     (if job_of g s = Some AtRest
      then Some (if allowed then s else (set_job g Listing s)\<lparr>es_allowed := False\<rparr>)
      else None)"
| "exec_do (ListExecutors g) s =
     (if job_of g s = Some Listing then Some (set_job g (Evicting (RegistryList (es_reg s))) s) else None)"
| "exec_do (EvictNext g) s =
     (case job_of g s of
        Some (Evicting []) \<Rightarrow> Some (set_job g AtRest s)
      | Some (Evicting (ex # exs)) \<Rightarrow> Some ((set_job g (Evicting exs) s)\<lparr>es_reg := evict_one ex (es_reg s)\<rparr>)
      | _ \<Rightarrow> None)"
| "exec_do (DoUnregister i) s = Some (s\<lparr>es_reg := Unregister i (es_reg s)\<rparr>)"
| "exec_do (DoSetDefault i) s = Some (s\<lparr>es_reg := fst (SetDefault i (es_reg s))\<rparr>)"
| "exec_do (DoBind cwd path i) s = Some (s\<lparr>es_reg := fst (Bind cwd path i (es_reg s))\<rparr>)"
| "exec_do (DoUnbind cwd path) s = Some (s\<lparr>es_reg := Unbind cwd path (es_reg s)\<rparr>)"
| "exec_do (DoSetLookup f) s = Some (s\<lparr>es_reg := SetBindingLookup f (es_reg s)\<rparr>)"

fun exec_run :: "exec_act list \<Rightarrow> ExecSystem \<Rightarrow> ExecSystem option" where
  "exec_run [] s = Some s"
| "exec_run (a # acts) s = (case exec_do a s of None \<Rightarrow> None | Some t \<Rightarrow> exec_run acts t)"

definition exec_start :: "nat \<Rightarrow> ExecSystem" where
  "exec_start n = \<lparr>es_allowed = True, es_reg = NewRegistry, es_jobs = replicate n AtRest, es_late = []\<rparr>"

section \<open>The minimum agent build\<close>

definition AgentBuild :: "Executor \<Rightarrow> string \<times> bool" where
  "AgentBuild ex =
     (case ex_AgentVersion ex of None \<Rightarrow> ([], False) | Some v \<Rightarrow> (trim_space v, True))"

definition MinAgentBuild :: "string option \<Rightarrow> string" where
  "MinAgentBuild p = (case p of None \<Rightarrow> [] | Some v \<Rightarrow> v)"

definition SetMinAgentBuild :: "string \<Rightarrow> string option \<Rightarrow> string option \<times> string" where
  "SetMinAgentBuild v p = (Some (trim_space v), MinAgentBuild p)"

text \<open>The test that leaves the floor alone: the new one does not exceed the current one.\<close>

definition keeps_floor :: "string \<Rightarrow> string \<Rightarrow> bool" where
  "keeps_floor v cur \<longleftrightarrow> cur \<noteq> [] \<and> (case Compare v cur of (cmp, ok) \<Rightarrow> \<not> ok \<or> cmp \<le> 0)"

text \<open>\<open>ApplyMinAgentBuild\<close> undisturbed by other goroutines: the first exchange succeeds.\<close>

definition ApplyMinAgentBuild :: "string \<Rightarrow> string option \<Rightarrow> string option" where
  "ApplyMinAgentBuild v0 p =
     (let v = trim_space v0 in
      if v = [] then p
      else if \<not> snd (Compare v v) then p
      else if keeps_floor v (MinAgentBuild p) then p
      else Some v)"

datatype BuildRejection = BuildUnreported | BuildPlaceholder | BuildUnorderable string | BuildBelow string

definition rejectForBuild :: "Executor \<Rightarrow> string \<Rightarrow> BuildRejection option" where
  "rejectForBuild ex floor0 =
     (let floor = trim_space floor0 in
      if floor = [] then None
      else case AgentBuild ex of (build, reports) \<Rightarrow>
        if \<not> reports then None
        else if build = [] then Some BuildUnreported
        else if build = LegacyAgentVersion then Some BuildPlaceholder
        else case Compare build floor of (cmp, ok) \<Rightarrow>
          if \<not> ok then Some (BuildUnorderable build)
          else if cmp < 0 then Some (BuildBelow build)
          else None)"

definition BlockedByBuildFloor :: "Executor option \<Rightarrow> string option \<Rightarrow> bool" where
  "BlockedByBuildFloor ex p =
     (case ex of None \<Rightarrow> False | Some e \<Rightarrow> rejectForBuild e (MinAgentBuild p) \<noteq> None)"

text \<open>
  \<open>ApplyMinAgentBuild\<close> as goroutines interleave it. The cell holds the pointer last stored: the
  goroutine that stored it and the floor it points to. A goroutine first reads the current floor
  and compares (\<open>AtCompare\<close>), then loads the pointer again (\<open>AtLoad\<close>), then exchanges it if it is
  still the pointer it loaded (\<open>AtSwap\<close>), and starts over otherwise.
\<close>

datatype floor_pc = AtCompare | AtLoad | AtSwap "(nat \<times> string) option" | Returned

record FloorState =
  fs_cell :: "(nat \<times> string) option"
  fs_pcs :: "floor_pc list"

definition cell_floor :: "(nat \<times> string) option \<Rightarrow> string" where
  "cell_floor c = (case c of None \<Rightarrow> [] | Some (_, v) \<Rightarrow> v)"

definition floor_step :: "string list \<Rightarrow> nat \<Rightarrow> FloorState \<Rightarrow> FloorState" where
  "floor_step vs i s =
     (let v = trim_space (vs ! i); goto = (\<lambda>pc. s\<lparr>fs_pcs := (fs_pcs s)[i := pc]\<rparr>) in
      case fs_pcs s ! i of
        AtCompare \<Rightarrow>
          if v = [] \<or> \<not> snd (Compare v v) then goto Returned
          else if keeps_floor v (cell_floor (fs_cell s)) then goto Returned
          else goto AtLoad
      | AtLoad \<Rightarrow> goto (AtSwap (fs_cell s))
      | AtSwap old \<Rightarrow>
          if map_option fst (fs_cell s) = map_option fst old
          then (goto Returned)\<lparr>fs_cell := Some (i, v)\<rparr>
          else goto AtCompare
      | Returned \<Rightarrow> s)"

definition floor_run :: "string list \<Rightarrow> nat list \<Rightarrow> FloorState" where
  "floor_run vs schedule =
     fold (floor_step vs) schedule \<lparr>fs_cell = None, fs_pcs = map (\<lambda>_. AtCompare) vs\<rparr>"

section \<open>Facts about the registry\<close>

abbreviation reg_ids :: "Registry \<Rightarrow> string set" where
  "reg_ids r \<equiv> fst ` set (rg_executors r)"

text \<open>Every executor is stored under the id it reports without surrounding space, ids are unique and not
  blank, and the default names a registered executor whenever there is one.\<close>

definition registry_ok :: "Registry \<Rightarrow> bool" where
  "registry_ok r \<longleftrightarrow>
     distinct (map fst (rg_executors r)) \<and> [] \<notin> reg_ids r \<and>
     list_all (\<lambda>(i, ex). trim_space (ex_ID ex) = i) (rg_executors r) \<and>
     (if rg_executors r = [] then rg_defaultID r = [] else rg_defaultID r \<in> reg_ids r)"

lemma set_sorted_ids [simp]: "set (sorted_ids r) = reg_ids r"
  by (simp add: sorted_ids_def)

lemma sorted_ids_empty: "sorted_ids r = [] \<longleftrightarrow> rg_executors r = []"
  by (metis length_0_conv length_map length_sort sorted_ids_def)

lemma set_RegistryList:
  assumes "distinct (map fst (rg_executors r))"
  shows "set (RegistryList r) = snd ` set (rg_executors r)"
proof -
  have "the (map_of (rg_executors r) (fst p)) = snd p" if "p \<in> set (rg_executors r)" for p
    using that assms by (metis map_of_is_SomeI option.sel prod.collapse)
  then show ?thesis by (force simp: RegistryList_def)
qed

lemma map_of_in_ids: "map_of al i = Some x \<Longrightarrow> i \<in> fst ` set al \<and> (i, x) \<in> set al"
  by (metis map_of_SomeD fst_conv image_eqI)

lemma set_delete: "set (AList.delete i al) = {p \<in> set al. fst p \<noteq> i}"
  by (auto simp: AList.delete_eq)

lemma set_update_new: "i \<notin> fst ` set al \<Longrightarrow> set (AList.update i v al) = insert (i, v) (set al)"
  by (induction al) auto

lemma delete_ids: "fst ` set (AList.delete i al) = fst ` set al - {i}"
  by (auto simp: set_delete)

lemma Unregister_executors [simp]:
  "rg_executors (Unregister i r) = AList.delete i (rg_executors r)"
  by (simp add: Unregister_def Let_def split: list.split)

lemma Unregister_default_in:
  assumes "registry_ok r"
  shows "if rg_executors (Unregister i r) = [] then rg_defaultID (Unregister i r) = []
         else rg_defaultID (Unregister i r) \<in> reg_ids (Unregister i r)"
proof (cases "rg_defaultID r = i")
  case True
  let ?r1 = "r\<lparr>rg_executors := AList.delete i (rg_executors r)\<rparr>"
  show ?thesis
  proof (cases "sorted_ids ?r1")
    case Nil
    with True show ?thesis
      using sorted_ids_empty [of ?r1] by (simp add: Unregister_def Let_def)
  next
    case (Cons j js)
    then have "j \<in> set (sorted_ids ?r1)" by simp
    moreover from Cons have "rg_executors ?r1 \<noteq> []" using sorted_ids_empty [of ?r1] by auto
    ultimately show ?thesis
      using True Cons unfolding set_sorted_ids by (simp add: Unregister_def Let_def)
  qed
next
  case False
  then have d: "rg_defaultID (Unregister i r) = rg_defaultID r"
    by (simp add: Unregister_def Let_def)
  show ?thesis
  proof (cases "rg_executors r = []")
    case True
    with assms d show ?thesis by (simp add: registry_ok_def)
  next
    case ne: False
    with assms have "rg_defaultID r \<in> reg_ids r" by (simp add: registry_ok_def)
    with False have "rg_defaultID r \<in> reg_ids (Unregister i r)" by (simp add: delete_ids)
    moreover from this have "rg_executors (Unregister i r) \<noteq> []" by auto
    ultimately show ?thesis by (simp add: d)
  qed
qed

lemma registry_ok_Unregister:
  assumes "registry_ok r" shows "registry_ok (Unregister i r)"
  using Unregister_default_in [OF assms, of i] assms
  by (auto simp: registry_ok_def list_all_iff set_delete distinct_delete delete_keys
      distinct_removeAll)

definition add_executor :: "string \<Rightarrow> Executor \<Rightarrow> Registry \<Rightarrow> Registry" where
  "add_executor i e r =
     (let r1 = r\<lparr>rg_executors := AList.update i e (rg_executors r)\<rparr>
      in if rg_defaultID r1 = [] then r1\<lparr>rg_defaultID := i\<rparr> else r1)"

lemma Register_insert_state:
  "fst (Register_insert i e r) = (if map_of (rg_executors r) i = None then add_executor i e r else r)"
  by (simp add: Register_insert_def add_executor_def Let_def)

lemma Register_check_id:
  "Register_check allowed ex r = Inr (i, e) \<Longrightarrow>
     trim_space (ex_ID e) = i \<and> i \<noteq> [] \<and> (allowed \<or> isolatesFromHost (Some e))"
  by (auto simp: Register_check_def Let_def split: option.splits if_splits)

lemma set_add_executor:
  "i \<notin> reg_ids r \<Longrightarrow> set (rg_executors (add_executor i e r)) = insert (i, e) (set (rg_executors r))"
  by (simp add: add_executor_def Let_def set_update_new)

lemma registry_ok_add:
  assumes "registry_ok r" and "trim_space (ex_ID e) = i" and "i \<noteq> []" and "i \<notin> reg_ids r"
  shows "registry_ok (add_executor i e r)"
proof -
  have al: "set (AList.update i e (rg_executors r)) = insert (i, e) (set (rg_executors r))"
    using assms(4) by (rule set_update_new)
  then have "AList.update i e (rg_executors r) \<noteq> []" by (metis insert_not_empty set_empty)
  with al assms show ?thesis
    by (auto simp: registry_ok_def list_all_iff distinct_update add_executor_def Let_def split: if_splits)
qed

lemma registry_ok_insert:
  assumes "registry_ok r" and "trim_space (ex_ID e) = i" and "i \<noteq> []"
  shows "registry_ok (fst (Register_insert i e r))"
  using assms registry_ok_add [OF assms] by (simp add: Register_insert_state map_of_eq_None_iff)

lemma registry_ok_evict: "registry_ok r \<Longrightarrow> registry_ok (evict_one ex r)"
  by (simp add: evict_one_def registry_ok_Unregister)

lemma SetDefault_state:
  "fst (SetDefault i r) = (if i \<in> reg_ids r then r\<lparr>rg_defaultID := i\<rparr> else r)"
  by (simp add: SetDefault_def map_of_eq_None_iff)

section \<open>Goroutines on the registry\<close>

text \<open>A driver under its trimmed id that stays registered although the switch is off: it isolates, or came
  late, or its id has surrounding space, or a goroutine is still to list it or to reach it.\<close>

definition still_to_go :: "exec_job list \<Rightarrow> Executor \<Rightarrow> bool" where
  "still_to_go jobs e \<longleftrightarrow> Listing \<in> set jobs \<or> (\<exists>exs. Evicting exs \<in> set jobs \<and> e \<in> set exs)"

definition may_stay :: "ExecSystem \<Rightarrow> string \<times> Executor \<Rightarrow> bool" where
  "may_stay s p \<longleftrightarrow> isolatesFromHost (Some (snd p)) \<or> fst p \<in> set (es_late s) \<or>
     trim_space (ex_ID (snd p)) \<noteq> ex_ID (snd p) \<or> still_to_go (es_jobs s) (snd p)"

definition job_ok :: "exec_job \<Rightarrow> bool" where
  "job_ok j = (case j of
     Inserting began i e \<Rightarrow> trim_space (ex_ID e) = i \<and> i \<noteq> [] \<and> (began \<or> isolatesFromHost (Some e))
   | _ \<Rightarrow> True)"

definition exec_inv :: "ExecSystem \<Rightarrow> bool" where
  "exec_inv s \<longleftrightarrow> registry_ok (es_reg s) \<and> list_all job_ok (es_jobs s) \<and>
     (es_allowed s \<or> list_all (may_stay s) (rg_executors (es_reg s)))"

lemma exec_inv_start: "exec_inv (exec_start n)"
  by (simp add: exec_inv_def exec_start_def registry_ok_def NewRegistry_def job_ok_def list_all_iff)

lemma job_of_Some: "job_of g s = Some j \<Longrightarrow> g < length (es_jobs s) \<and> es_jobs s ! g = j"
  by (auto simp: job_of_def split: if_splits)

lemma set_job_simps [simp]:
  "es_allowed (set_job g j s) = es_allowed s" "es_reg (set_job g j s) = es_reg s" "es_late (set_job g j s) = es_late s"
  "es_jobs (set_job g j s) = (es_jobs s)[g := j]"
  by (simp_all add: set_job_def)

lemma jobs_ok_update: "list_all job_ok js \<Longrightarrow> job_ok j \<Longrightarrow> list_all job_ok (js[g := j])"
  by (auto simp: list_all_iff dest: subsetD [OF set_update_subset_insert])

text \<open>What a goroutine that is neither about to list nor evicting does keeps the others' work.\<close>

lemma other_job_kept: "g < length js \<Longrightarrow> x \<in> set js \<Longrightarrow> x \<noteq> js ! g \<Longrightarrow> x \<in> set (js[g := j])"
  by (metis in_set_conv_nth length_list_update nth_list_update_neq)

lemma still_to_go_update:
  assumes "g < length js" and "js ! g \<noteq> Listing" and "\<And>exs. js ! g = Evicting exs \<Longrightarrow> e \<notin> set exs"
  shows "still_to_go js e \<Longrightarrow> still_to_go (js[g := j]) e"
  unfolding still_to_go_def using other_job_kept [OF assms(1)] assms(2,3) by metis

lemma new_job: "job_of g s = Some j' \<Longrightarrow> j \<in> set ((es_jobs s)[g := j])"
  using job_of_Some [of g s j'] by (simp add: set_update_memI)

lemma may_stay_mono:
  assumes "may_stay s p" and "set (es_late s) \<subseteq> set (es_late t)"
    and "still_to_go (es_jobs s) (snd p) \<Longrightarrow> still_to_go (es_jobs t) (snd p)"
  shows "may_stay t p"
  using assms by (auto simp: may_stay_def)

lemma exec_inv_registry:
  assumes "exec_inv s" and "registry_ok r" and "set (rg_executors r) \<subseteq> set (rg_executors (es_reg s))"
  shows "exec_inv (s\<lparr>es_reg := r\<rparr>)"
  using assms by (auto simp: exec_inv_def list_all_iff may_stay_def)

lemma exec_inv_check:
  assumes inv: "exec_inv s" and g: "job_of g s = Some AtRest" and j: "job_ok j"
  shows "exec_inv (set_job g j s)"
proof -
  note g' = job_of_Some [OF g]
  have m: "may_stay (set_job g j s) p" if "may_stay s p" for p
    using that by (rule may_stay_mono) (use g' still_to_go_update [of g "es_jobs s"] in auto)
  show ?thesis
    using inv j m by (auto simp: exec_inv_def jobs_ok_update list_all_iff [of "may_stay t" for t])
qed

lemma exec_inv_insert:
  assumes inv: "exec_inv s" and g: "job_of g s = Some (Inserting began i e)"
  shows "exec_inv ((set_job g AtRest s)\<lparr>es_reg := fst (Register_insert i e (es_reg s)),
    es_late := (if began \<and> \<not> es_allowed s \<and> \<not> isolatesFromHost (Some e) then i # es_late s else es_late s)\<rparr>)"
    (is "exec_inv ?t")
proof -
  note g' = job_of_Some [OF g]
  have ok: "registry_ok (es_reg s)" "list_all job_ok (es_jobs s)" using inv by (auto simp: exec_inv_def)
  have "job_ok (Inserting began i e)" using ok(2) g' by (auto simp: list_all_length)
  then have ie: "trim_space (ex_ID e) = i" "i \<noteq> []" "began \<or> isolatesFromHost (Some e)" by (simp_all add: job_ok_def)
  have m: "may_stay ?t p" if "may_stay s p" for p
    using that by (rule may_stay_mono) (use g' still_to_go_update [of g "es_jobs s"] in auto)
  have n: "may_stay ?t (i, e)" if "\<not> es_allowed s" using that ie(3) by (auto simp: may_stay_def)
  have ex: "set (rg_executors (es_reg ?t)) \<subseteq> insert (i, e) (set (rg_executors (es_reg s)))"
    by (auto simp: Register_insert_state set_add_executor map_of_eq_None_iff)
  have "es_allowed ?t \<or> list_all (may_stay ?t) (rg_executors (es_reg ?t))"
  proof (cases "es_allowed s")
    case False
    then have "\<forall>p \<in> set (rg_executors (es_reg s)). may_stay s p" using inv by (simp add: exec_inv_def list_all_iff)
    with m n [OF False] ex show ?thesis unfolding list_all_iff by blast
  qed simp
  moreover have "registry_ok (es_reg ?t)" using registry_ok_insert [OF ok(1) ie(1,2)] by simp
  moreover have "list_all job_ok (es_jobs ?t)" using jobs_ok_update [OF ok(2), of AtRest] by (simp add: job_ok_def)
  ultimately show ?thesis unfolding exec_inv_def by blast
qed

lemma exec_inv_policy:
  assumes inv: "exec_inv s" and g: "job_of g s = Some AtRest"
  shows "exec_inv ((set_job g Listing s)\<lparr>es_allowed := False\<rparr>)" (is "exec_inv ?t")
proof -
  have "Listing \<in> set (es_jobs ?t)" using new_job [OF g] by simp
  then have m: "may_stay ?t p" for p by (simp add: may_stay_def still_to_go_def)
  show ?thesis
    using inv m by (auto simp: exec_inv_def jobs_ok_update job_ok_def [of Listing] list_all_iff [of "may_stay t" for t])
qed

lemma exec_inv_list:
  assumes inv: "exec_inv s" and g: "job_of g s = Some Listing"
  shows "exec_inv (set_job g (Evicting (RegistryList (es_reg s))) s)" (is "exec_inv ?t")
proof -
  have d: "distinct (map fst (rg_executors (es_reg s)))" using inv by (simp add: exec_inv_def registry_ok_def)
  have "Evicting (RegistryList (es_reg s)) \<in> set (es_jobs ?t)" using new_job [OF g] by simp
  then have m: "may_stay ?t p" if "p \<in> set (rg_executors (es_reg s))" for p
    using that set_RegistryList [OF d] by (force simp: may_stay_def still_to_go_def)
  show ?thesis
    using inv m by (auto simp: exec_inv_def jobs_ok_update job_ok_def [of "Evicting e" for e] list_all_iff [of "may_stay t" for t])
qed

lemma evict_one_executors:
  "set (rg_executors (evict_one ex r)) =
     (if isolatesFromHost (Some ex) then set (rg_executors r) else {p \<in> set (rg_executors r). fst p \<noteq> ex_ID ex})"
  by (simp add: evict_one_def set_delete)

lemma exec_inv_evict:
  assumes inv: "exec_inv s" and g: "job_of g s = Some (Evicting (ex # exs))"
  shows "exec_inv ((set_job g (Evicting exs) s)\<lparr>es_reg := evict_one ex (es_reg s)\<rparr>)" (is "exec_inv ?t")
proof -
  note g' = job_of_Some [OF g]
  have ok: "registry_ok (es_reg s)" using inv by (simp add: exec_inv_def)
  have m: "may_stay ?t p" if p: "p \<in> set (rg_executors (evict_one ex (es_reg s)))" "may_stay s p" for p
  proof (cases "isolatesFromHost (Some (snd p)) \<or> trim_space (ex_ID (snd p)) \<noteq> ex_ID (snd p)")
    case True
    then show ?thesis by (auto simp: may_stay_def)
  next
    case False
    have "p \<in> set (rg_executors (es_reg s))" using p(1) by (simp add: evict_one_executors split: if_splits)
    then have "fst p = ex_ID (snd p)" using ok False by (auto simp: registry_ok_def list_all_iff)
    then have ne: "snd p \<noteq> ex" using p(1) False by (auto simp: evict_one_executors split: if_splits)
    have "still_to_go (es_jobs ?t) (snd p)" if st: "still_to_go (es_jobs s) (snd p)"
    proof (cases "snd p \<in> set exs")
      case True
      moreover have "Evicting exs \<in> set (es_jobs ?t)" using new_job [OF g] by simp
      ultimately show ?thesis by (auto simp: still_to_go_def)
    next
      case False
      then show ?thesis using st ne g' still_to_go_update [of g "es_jobs s" "snd p" "Evicting exs"] by simp
    qed
    then show ?thesis using p(2) by (rule_tac may_stay_mono) auto
  qed
  have "set (rg_executors (evict_one ex (es_reg s))) \<subseteq> set (rg_executors (es_reg s))"
    by (auto simp: evict_one_executors)
  with inv m registry_ok_evict [OF ok] show ?thesis
    by (auto simp: exec_inv_def jobs_ok_update job_ok_def [of "Evicting e" for e] list_all_iff [of "may_stay t" for t])
qed

lemma exec_inv_done:
  assumes inv: "exec_inv s" and g: "job_of g s = Some (Evicting [])"
  shows "exec_inv (set_job g AtRest s)"
proof -
  note g' = job_of_Some [OF g]
  have m: "may_stay (set_job g AtRest s) p" if "may_stay s p" for p
    using that by (rule may_stay_mono) (use g' still_to_go_update [of g "es_jobs s"] in auto)
  show ?thesis
    using inv m by (auto simp: exec_inv_def jobs_ok_update job_ok_def [of AtRest] list_all_iff [of "may_stay t" for t])
qed

lemma exec_inv_step:
  assumes "exec_do a s = Some t" and inv: "exec_inv s"
  shows "exec_inv t"
proof (cases a)
  case (StartRegister g ex)
  then show ?thesis using assms(1) inv exec_inv_check [OF inv]
    by (auto simp: job_ok_def dest: Register_check_id split: if_splits sum.splits)
next
  case (FinishRegister g)
  then show ?thesis using assms(1) exec_inv_insert [OF inv] by (auto split: option.splits exec_job.splits)
next
  case (StartPolicy g allowed)
  then show ?thesis using assms(1) inv exec_inv_policy [OF inv] by (auto split: if_splits)
next
  case (ListExecutors g)
  then show ?thesis using assms(1) exec_inv_list [OF inv] by (auto split: if_splits)
next
  case (EvictNext g)
  then show ?thesis using assms(1) exec_inv_evict [OF inv] exec_inv_done [OF inv]
    by (auto split: option.splits exec_job.splits list.splits)
next
  case (DoUnregister i)
  have "registry_ok (es_reg s)" using inv by (simp add: exec_inv_def)
  then show ?thesis using DoUnregister assms(1) exec_inv_registry [OF inv registry_ok_Unregister]
    by (auto simp: set_delete)
next
  case (DoSetDefault i)
  have "registry_ok (fst (SetDefault i (es_reg s)))"
    using inv by (auto simp: exec_inv_def SetDefault_state registry_ok_def)
  then show ?thesis using DoSetDefault assms(1) exec_inv_registry [OF inv] by (auto simp: SetDefault_state)
next
  case (DoBind cwd path i)
  have "registry_ok (fst (Bind cwd path i (es_reg s)))" using inv by (auto simp: exec_inv_def Bind_def Let_def registry_ok_def)
  then show ?thesis using DoBind assms(1) exec_inv_registry [OF inv] by (auto simp: Bind_def Let_def)
next
  case (DoUnbind cwd path)
  have "registry_ok (Unbind cwd path (es_reg s))" using inv by (auto simp: exec_inv_def Unbind_def registry_ok_def)
  then show ?thesis using DoUnbind assms(1) exec_inv_registry [OF inv] by (auto simp: Unbind_def)
next
  case (DoSetLookup f)
  have "registry_ok (SetBindingLookup f (es_reg s))" using inv by (auto simp: exec_inv_def SetBindingLookup_def registry_ok_def)
  then show ?thesis using DoSetLookup assms(1) exec_inv_registry [OF inv] by (auto simp: SetBindingLookup_def)
qed

definition exec_step :: "ExecSystem \<Rightarrow> ExecSystem \<Rightarrow> bool" where
  "exec_step s t \<longleftrightarrow> (\<exists>a. exec_do a s = Some t)"

interpretation exec_system: preserved exec_step exec_inv
  by unfold_locales (auto simp: exec_step_def intro: exec_inv_step)

lemma exec_run_steps: "exec_run acts s = Some t \<Longrightarrow> exec_step\<^sup>*\<^sup>* s t"
proof (induction acts arbitrary: s)
  case (Cons a acts)
  then obtain u where "exec_do a s = Some u" "exec_run acts u = Some t" by (auto split: option.splits)
  with Cons.IH show ?case by (metis converse_rtranclp_into_rtranclp exec_step_def)
qed simp

lemma exec_inv_reached: "exec_run acts (exec_start n) = Some s \<Longrightarrow> exec_inv s"
  using exec_system.steps_keep exec_run_steps exec_inv_start by blast

section \<open>The ratchets\<close>

definition floor_le :: "string \<Rightarrow> string \<Rightarrow> bool" where
  "floor_le a b \<longleftrightarrow> a = b \<or> a = [] \<or> Compare a b = (- 1, True)"

lemma Compare_trans:
  "Compare a b = (- 1, True) \<Longrightarrow> Compare b c = (- 1, True) \<Longrightarrow> Compare a c = (- 1, True)"
  by (auto simp: Compare_key split: option.splits)

lemma Compare_not_kept:
  "\<not> keeps_floor v cur \<Longrightarrow> cur = [] \<or> Compare cur v = (- 1, True)"
  by (auto simp: keeps_floor_def Compare_key order_of_def split: option.splits if_splits)

lemma parse_empty: "parse [] = None"
  using parse_legacy(2) .

lemma floor_le_apply: "floor_le (MinAgentBuild p) (MinAgentBuild (ApplyMinAgentBuild v p))"
  using Compare_not_kept [of "trim_space v" "MinAgentBuild p"]
  by (auto simp: ApplyMinAgentBuild_def Let_def floor_le_def MinAgentBuild_def split: option.splits)

lemma floor_le_trans: "floor_le a b \<Longrightarrow> floor_le b c \<Longrightarrow> floor_le a c"
  using Compare_trans [of a b c] by (auto simp: floor_le_def Compare_def parse_empty split: option.splits)

interpretation build_floor: ratchet ApplyMinAgentBuild "\<lambda>p q. floor_le (MinAgentBuild p) (MinAgentBuild q)"
proof
  fix p q r :: "string option"
  show "floor_le (MinAgentBuild p) (MinAgentBuild p)" by (simp add: floor_le_def)
  show "floor_le (MinAgentBuild p) (MinAgentBuild q) \<Longrightarrow> floor_le (MinAgentBuild q) (MinAgentBuild r) \<Longrightarrow>
    floor_le (MinAgentBuild p) (MinAgentBuild r)" by (rule floor_le_trans)
  show "floor_le (MinAgentBuild p) (MinAgentBuild (ApplyMinAgentBuild v p))" for v by (rule floor_le_apply)
qed

interpretation host_switch: ratchet ApplyHostExecutionPolicy
  "\<lambda>s t. (fst t \<longrightarrow> fst s) \<and> (fst t = fst s \<or> \<not> fst t)"
  by unfold_locales (auto simp: ApplyHostExecutionPolicy_def)

section \<open>Properties\<close>

text \<open>Resolve fails closed. It returns a registered executor: the one the project is bound to if
  it is bound, the default otherwise, and under the no-host-execution switch only one that isolates
  from the host; a binding to an executor that is not registered is an error, never the default.\<close>

theorem resolve_fails_closed:
  "case Resolve allowed cwd mapper r path of
     Inr ex \<Rightarrow>
       (allowed \<or> isolatesFromHost (Some ex)) \<and>
       map_of (rg_executors r)
         (case Binding cwd mapper r path of Some i \<Rightarrow> i | None \<Rightarrow> rg_defaultID r) = Some ex
   | Inl e \<Rightarrow>
       (case Binding cwd mapper r path of
          Some i \<Rightarrow> map_of (rg_executors r) i = None \<and> e = ErrExecutorNotFound i \<or>
            \<not> allowed \<and> e = HostExecutionDenied (ex_ID (the (map_of (rg_executors r) i))) path (IsolatedIDs r)
        | None \<Rightarrow> True)"
  by (auto simp: Resolve_def resolveBinding_def Get_def Default_def split: option.splits if_splits sum.splits)

definition resolves_safely :: "bool \<Rightarrow> string \<Rightarrow> (string \<Rightarrow> string) option \<Rightarrow> Registry \<Rightarrow> string \<Rightarrow> bool" where
  "resolves_safely allowed cwd mapper r path =
     (case Resolve allowed cwd mapper r path of Inl e \<Rightarrow> True | Inr ex \<Rightarrow> isolatesFromHost (Some ex))"

text \<open>C25: however goroutines interleave the two halves of their registrations, the steps of policies and
  everything else, ids stay unique and the default names a registered executor whenever there is one.
  Once host execution is forbidden and every goroutine is at rest, the registered executors isolate, but
  for those whose id has surrounding space and those whose registration began before the switch was
  turned and was finished after it; and \<open>Resolve\<close> hands none of these to a project.\<close>

theorem strict_registry_isolates:
  "case exec_run acts (exec_start n) of
     None \<Rightarrow> True
   | Some s \<Rightarrow>
       registry_ok (es_reg s) \<and>
       (if rg_executors (es_reg s) = [] then True
        else (case Default (es_reg s) of Inl e \<Rightarrow> False | Inr ex \<Rightarrow> ex \<in> set (RegistryList (es_reg s)))) \<and>
       (if es_allowed s then True
        else resolves_safely (es_allowed s) cwd mapper (es_reg s) path \<and>
          (if list_all (\<lambda>j. j = AtRest) (es_jobs s)
           then filter (\<lambda>ex. \<not> isolatesFromHost (Some ex) \<and> trim_space (ex_ID ex) = ex_ID ex \<and>
                  ex_ID ex \<notin> set (es_late s)) (RegistryList (es_reg s)) = []
           else True))"
proof (cases "exec_run acts (exec_start n)")
  case None
  then show ?thesis by simp
next
  case (Some s)
  let ?r = "es_reg s"
  have inv: "exec_inv s" by (rule exec_inv_reached [OF Some])
  then have ok: "registry_ok ?r" by (simp add: exec_inv_def)
  have l: "set (RegistryList ?r) = snd ` set (rg_executors ?r)"
    using ok by (intro set_RegistryList) (simp add: registry_ok_def)
  have d: "case Default ?r of Inl e \<Rightarrow> False | Inr ex \<Rightarrow> ex \<in> set (RegistryList ?r)" if ne: "rg_executors ?r \<noteq> []"
  proof -
    from ok ne have "rg_defaultID ?r \<in> reg_ids ?r" "[] \<notin> reg_ids ?r" by (simp_all add: registry_ok_def)
    then obtain ex where ex: "map_of (rg_executors ?r) (rg_defaultID ?r) = Some ex" "rg_defaultID ?r \<noteq> []"
      by (metis domD domIff map_of_eq_None_iff)
    then show ?thesis using l map_of_SomeD by (force simp: Default_def)
  qed
  have f: "filter (\<lambda>ex. \<not> isolatesFromHost (Some ex) \<and> trim_space (ex_ID ex) = ex_ID ex \<and> ex_ID ex \<notin> set (es_late s))
      (RegistryList ?r) = []" if q: "\<not> es_allowed s" "list_all (\<lambda>j. j = AtRest) (es_jobs s)"
  proof -
    have "\<not> still_to_go (es_jobs s) e" for e using q(2) by (auto simp: still_to_go_def list_all_iff)
    moreover have "\<forall>p \<in> set (rg_executors ?r). may_stay s p" "\<forall>p \<in> set (rg_executors ?r). trim_space (ex_ID (snd p)) = fst p"
      using inv q(1) ok by (auto simp: exec_inv_def list_all_iff registry_ok_def)
    ultimately show ?thesis by (fastforce simp: filter_empty_conv l may_stay_def)
  qed
  have "\<not> es_allowed s \<Longrightarrow> resolves_safely (es_allowed s) cwd mapper ?r path"
    by (auto simp: resolves_safely_def Resolve_def split: sum.splits)
  with ok d f show ?thesis unfolding Some option.case by auto
qed

definition plain_caps :: Capabilities where
  "plain_caps = \<lparr>cap_Isolation = IsolationNone, cap_Virtualized = False, cap_KernelIsolated = False,
     cap_SupportsStream = True, cap_SupportsSignal = True, cap_SupportsResourceLimits = False,
     cap_DiskEnforcement = DiskEnforcementNone, cap_SharesHostFilesystem = False,
     cap_NetworkEgress = True, cap_SupportsImageOverride = False, cap_SupportsSandboxBuild = False,
     cap_SupportsWorkspaceProvisioning = False, cap_SupportsProjectSeed = False,
     cap_SupportsWriteBack = False, cap_SupportsBranchBundle = False,
     cap_SupportsSandboxMounts = False, cap_SupportsHostMounts = False, cap_SupportsDevices = False,
     cap_SupportsInterfaces = False, cap_SupportsEgressScope = False,
     cap_SupportsSecretFiles = False, cap_MaxConcurrent = 0, cap_Platform = [], cap_Arch = []\<rparr>"

definition driver :: "string \<Rightarrow> Isolation \<Rightarrow> Executor" where
  "driver i k = \<lparr>ex_ID = i, ex_Caps = plain_caps\<lparr>cap_Isolation := k\<rparr>, ex_AgentVersion = None,
     ex_Revoker = None, ex_IsolationRuntime = None\<rparr>"

text \<open>The race is there: a registration that passed its check is overtaken by the policy and its eviction
  and then inserts a host driver, which is the default of a strict registry from then on. Every project
  without a binding is then refused by name of that driver, the late failure \<open>Register\<close> means to exclude.\<close>

definition overtaken :: "exec_act list" where
  "overtaken = [StartRegister 0 (Some (driver ''host'' IsolationNone)), StartPolicy 1 False, ListExecutors 1,
     EvictNext 1, FinishRegister 0]"

theorem registration_races_the_switch:
  "case exec_run overtaken (exec_start 2) of
     None \<Rightarrow> False
   | Some s \<Rightarrow> \<not> es_allowed s \<and> es_jobs s = [AtRest, AtRest] \<and> rg_defaultID (es_reg s) = ''host'' \<and>
       map (\<lambda>ex. isolatesFromHost (Some ex)) (RegistryList (es_reg s)) = [False] \<and>
       map_sum id ex_ID (Resolve (es_allowed s) ''/'' None (es_reg s) ''/p'') = Inl (HostExecutionDenied ''host'' ''/p'' [])"
  by code_simp

text \<open>In the order the bootstrap means, the eviction reaches the driver and the default passes on.\<close>

lemma eviction_in_order:
  "case exec_run [StartRegister 0 (Some (driver ''host'' IsolationNone)), FinishRegister 0,
       StartRegister 0 (Some (driver ''box'' IsolationContainer)), FinishRegister 0,
       StartPolicy 1 False, ListExecutors 1, EvictNext 1, EvictNext 1, EvictNext 1] (exec_start 2) of
     None \<Rightarrow> False
   | Some s \<Rightarrow> es_jobs s = [AtRest, AtRest] \<and> map ex_ID (RegistryList (es_reg s)) = [''box''] \<and>
       rg_defaultID (es_reg s) = ''box'' \<and> es_late s = []"
  by code_simp

text \<open>Applying configured minimum builds one after another only ever raises the floor: each later
  floor is the same or a strictly newer version.\<close>

theorem min_build_only_rises:
  "floor_le (MinAgentBuild p) (MinAgentBuild (fold ApplyMinAgentBuild vs p))"
  by (rule build_floor.fold_tightens)

text \<open>Applied from two goroutines the floor can fall: the pointer is loaded again after the
  comparison, so an exchange can replace a higher floor stored in between. The first run of the
  schedule stores v0.0.7, the rest lowers it to v0.0.5.\<close>

theorem concurrent_floor_can_fall:
  "cell_floor (fs_cell (floor_run [''v0.0.5'', ''v0.0.7''] [0, 1, 1, 1])) = ''v0.0.7'' \<and>
   cell_floor (fs_cell (floor_run [''v0.0.5'', ''v0.0.7''] [0, 1, 1, 1, 0, 0])) = ''v0.0.5'' \<and>
   fs_pcs (floor_run [''v0.0.5'', ''v0.0.7''] [0, 1, 1, 1, 0, 0]) = [Returned, Returned] \<and>
   Compare ''v0.0.5'' ''v0.0.7'' = (- 1, True)"
  by code_simp

text \<open>A driver whose id has surrounding space is registered under the trimmed id and evicted
  under the untrimmed one, so forbidding host execution leaves it registered, as the default.\<close>

lemma padded_id_escapes_eviction:
  "let r = fst (Register True (Some (driver '' host'' IsolationNone)) NewRegistry);
       s = ApplyHostExecutionPolicy False (True, r)
   in fst s = False \<and> rg_defaultID (snd s) = ''host'' \<and>
      map (\<lambda>ex. isolatesFromHost (Some ex)) (RegistryList (snd s)) = [False]"
  by code_simp

end
