(* ===== verification/Isolated.thy ===== *)
theory Isolated
  imports Executor
begin

text \<open>
  What kernel a sandbox runs on: the claim a runtime's name makes
  (\<open>pkg/executor/virtualization.go\<close>), the verdict a probe of the sandbox reaches against the
  host's own kernel (\<open>pkg/isolationprobe/classify.go\<close>, \<open>evidence.go\<close>), and the judgement
  placement draws from both (\<open>pkg/executor/isolation.go\<close>). Uptimes are in hundredths of a second
  (the resolution of \<open>/proc/uptime\<close>) where the code has a float; the sentences that explain a
  verdict are left out.
\<close>

section \<open>Names of runtimes\<close>

definition IsVirtualizedRuntime :: "string \<Rightarrow> bool" where
  "IsVirtualizedRuntime name =
     (let n = to_lower (trim_space name) in
      if n = [] then False
      else if n = ''kata'' \<or> n = ''katacontainers'' then True
      else if has_prefix n ''kata-'' \<or> has_prefix n ''kata.'' then True
      else if contains n ''.kata.'' then True
      else False)"

definition IsUserspaceKernelRuntime :: "string \<Rightarrow> bool" where
  "IsUserspaceKernelRuntime name =
     (let n = to_lower (trim_space name) in
      if n = [] then False
      else if n = ''runsc'' \<or> n = ''gvisor'' then True
      else if has_prefix n ''runsc-'' \<or> has_prefix n ''runsc.'' then True
      else if has_prefix n ''gvisor-'' \<or> has_prefix n ''gvisor.'' then True
      else if contains n ''.runsc.'' \<or> contains n ''.gvisor.'' then True
      else False)"

definition IsKernelIsolatedRuntime :: "string \<Rightarrow> bool" where
  "IsKernelIsolatedRuntime name \<longleftrightarrow> IsVirtualizedRuntime name \<or> IsUserspaceKernelRuntime name"

section \<open>Evidence\<close>

record Evidence =
  ev_Release :: string
  ev_Version :: string
  ev_ProcVersion :: string
  ev_BootID :: string
  ev_Uptime :: int
  ev_Hypervisor :: bool
  ev_HypervisorType :: string
  ev_DMIVendor :: string
  ev_DMIProduct :: string
  ev_GVisor :: "string list"

definition is_control :: "char \<Rightarrow> bool" where
  "is_control c \<longleftrightarrow> byte_val c < 32 \<or> byte_val c = 127"

definition maxField :: nat where "maxField = 512"
definition maxList :: nat where "maxList = 8"

text \<open>The builder is held reversed; the flag says that the last character was replaced.\<close>

fun clean_loop :: "bool \<Rightarrow> string \<Rightarrow> string \<Rightarrow> string" where
  "clean_loop space b [] = rev b"
| "clean_loop space b (r # s) =
     (if is_control r \<or> is_space r
      then clean_loop True (if \<not> space \<and> length b > 0 then CHR '' '' # b else b) s
      else if length (r # b) \<ge> maxField then rev (r # b)
      else clean_loop False (r # b) s)"

definition clean :: "string \<Rightarrow> string" where
  "clean s = (if s = [] then []
              else let out = trim_space (clean_loop False [] s)
                   in if length out > maxField then take maxField out else out)"

fun clean_list_loop :: "string list \<Rightarrow> string list \<Rightarrow> string list" where
  "clean_list_loop acc [] = rev acc"
| "clean_list_loop acc (s # ss) =
     (let acc1 = (if clean s \<noteq> [] then clean s # acc else acc)
      in if length acc1 = maxList then rev acc1 else clean_list_loop acc1 ss)"

definition cleanList :: "string list \<Rightarrow> string list" where
  "cleanList ss = clean_list_loop [] ss"

definition Sanitize :: "Evidence \<Rightarrow> Evidence" where
  "Sanitize e =
     \<lparr>ev_Release = clean (ev_Release e), ev_Version = clean (ev_Version e),
      ev_ProcVersion = clean (ev_ProcVersion e), ev_BootID = clean (ev_BootID e),
      ev_Uptime = (if ev_Uptime e > 0 \<and> ev_Uptime e < 10 ^ 12 then ev_Uptime e else 0),
      ev_Hypervisor = ev_Hypervisor e, ev_HypervisorType = clean (ev_HypervisorType e),
      ev_DMIVendor = clean (ev_DMIVendor e), ev_DMIProduct = clean (ev_DMIProduct e),
      ev_GVisor = cleanList (ev_GVisor e)\<rparr>"

definition EvidenceIsZero :: "Evidence \<Rightarrow> bool" where
  "EvidenceIsZero e \<longleftrightarrow> ev_Release e = [] \<and> ev_Version e = [] \<and> ev_ProcVersion e = [] \<and> ev_BootID e = []"

section \<open>The verdict\<close>

datatype Kind = KindHostKernel | KindUserspaceKernel | KindVM | KindUnknown | KindOther string

definition KindValid :: "Kind \<Rightarrow> bool" where
  "KindValid k = (case k of KindOther _ \<Rightarrow> False | _ \<Rightarrow> True)"

record Reference =
  rf_Kernel :: "Evidence option"
  rf_EngineKernel :: string

definition usable :: "Reference \<Rightarrow> bool" where
  "usable r =
     (case rf_Kernel r of
        None \<Rightarrow> False
      | Some k \<Rightarrow>
          if ev_Release k = [] \<and> ev_BootID k = [] then False
          else if length (ev_GVisor k) > 0 then False
          else if rf_EngineKernel r \<noteq> [] \<and> ev_Release k \<noteq> [] \<and> rf_EngineKernel r \<noteq> ev_Release k then False
          else True)"

definition sameBuild :: "Evidence \<Rightarrow> Evidence \<Rightarrow> bool" where
  "sameBuild a b =
     (if ev_Release a = [] \<or> ev_Release a \<noteq> ev_Release b \<or> ev_Version a \<noteq> ev_Version b then False
      else ev_ProcVersion a = [] \<or> ev_ProcVersion b = [] \<or> ev_ProcVersion a = ev_ProcVersion b)"

definition vmmNames :: "string list" where
  "vmmNames = [''qemu'', ''kvm'', ''cloud hypervisor'', ''firecracker'', ''xen'', ''vmware'',
     ''virtualbox'', ''innotek'', ''bochs'', ''bhyve'', ''parallels'', ''acrn'', ''virtual machine'',
     ''openstack'', ''amazon ec2'', ''google compute engine'', ''alibaba cloud'', ''hetzner'',
     ''digitalocean'']"

definition vmmVendor :: "string \<Rightarrow> string \<Rightarrow> string" where
  "vmmVendor vendor product =
     (case find (\<lambda>s. list_ex (contains (to_lower s)) vmmNames) [vendor, product] of
        Some s \<Rightarrow> s | None \<Rightarrow> [])"

text \<open>The marks as strings; only whether there is one decides.\<close>

definition hypervisorMarks :: "Evidence \<Rightarrow> string list" where
  "hypervisorMarks e =
     (let v = vmmVendor (ev_DMIVendor e) (ev_DMIProduct e) in
      (if v \<noteq> [] then [''DMI vendor '' @ v] else []) @
      (if ev_Hypervisor e then [''the CPU's hypervisor flag''] else []) @
      (if ev_HypervisorType e \<noteq> []
       then [''a '' @ ev_HypervisorType e @ '' hypervisor in /sys/hypervisor''] else []))"

definition no_evidence :: Evidence where
  "no_evidence = \<lparr>ev_Release = [], ev_Version = [], ev_ProcVersion = [], ev_BootID = [], ev_Uptime = 0,
     ev_Hypervisor = False, ev_HypervisorType = [], ev_DMIVendor = [], ev_DMIProduct = [],
     ev_GVisor = []\<rparr>"

definition host_evidence :: "Reference \<Rightarrow> Evidence" where
  "host_evidence ref =
     (if usable ref then (case rf_Kernel ref of Some k \<Rightarrow> Sanitize k | None \<Rightarrow> no_evidence)
      else no_evidence)"

definition ProbeVerdict :: "Evidence \<Rightarrow> Reference \<Rightarrow> Kind" where
  "ProbeVerdict p0 ref =
     (let p = Sanitize p0; ok = usable ref; h = host_evidence ref in
      if EvidenceIsZero p then KindUnknown
      else if ok \<and> ev_BootID p \<noteq> [] \<and> ev_BootID p = ev_BootID h then KindHostKernel
      else if ok \<and> (ev_BootID p = [] \<or> ev_BootID h = []) \<and> sameBuild p h then KindHostKernel
      else if length (ev_GVisor p) > 0 then KindUserspaceKernel
      else if \<not> ok then KindUnknown
      else if length (hypervisorMarks p) > 0 then
        (if ev_Uptime p \<le> 0 \<or> ev_Uptime h \<le> 0 \<or> ev_Uptime p \<ge> ev_Uptime h then KindUnknown else KindVM)
      else KindUnknown)"

datatype Status = StatusVerified | StatusContradicted | StatusUnverified

definition Judge :: "Kind \<Rightarrow> Kind \<Rightarrow> Status" where
  "Judge claim verdict =
     (if verdict = KindUnknown \<or> \<not> KindValid verdict then StatusUnverified
      else case claim of
        KindVM \<Rightarrow> if verdict = KindVM then StatusVerified else StatusContradicted
      | KindUserspaceKernel \<Rightarrow> if verdict = KindHostKernel then StatusContradicted else StatusVerified
      | _ \<Rightarrow> StatusVerified)"

section \<open>The standing of an executor\<close>

definition IsolationRuntimeOf :: "Executor \<Rightarrow> string \<times> bool" where
  "IsolationRuntimeOf ex = (case ex_IsolationRuntime ex of None \<Rightarrow> ([], False) | Some p \<Rightarrow> p)"

definition IsolationClaim :: "string \<Rightarrow> Kind" where
  "IsolationClaim runtime =
     (if IsVirtualizedRuntime runtime then KindVM
      else if IsUserspaceKernelRuntime runtime then KindUserspaceKernel
      else KindHostKernel)"

definition claimOf :: "Capabilities \<Rightarrow> Kind" where
  "claimOf caps = (if cap_Virtualized caps then KindVM
                   else if cap_KernelIsolated caps then KindUserspaceKernel else KindHostKernel)"

record IsolationRecord =
  ir_ExecutorID :: string
  ir_Runtime :: string
  ir_Claim :: Kind
  ir_Verdict :: Kind
  ir_Detail :: string
  ir_ProbedAt :: time
  ir_AttemptedAt :: time
  ir_Error :: string
  ir_Point :: string

definition RecordStatus :: "IsolationRecord \<Rightarrow> Status" where
  "RecordStatus r = Judge (ir_Claim r) (ir_Verdict r)"

type_synonym EvidenceSource = "(string \<Rightarrow> string \<Rightarrow> IsolationRecord option) option"

definition LookupIsolationEvidence :: "EvidenceSource \<Rightarrow> string \<Rightarrow> string \<Rightarrow> IsolationRecord option" where
  "LookupIsolationEvidence src executorID runtime =
     (case src of None \<Rightarrow> None | Some f \<Rightarrow> f executorID (trim_space runtime))"

definition ValidIsolationEvidencePolicy :: "string \<Rightarrow> bool" where
  "ValidIsolationEvidencePolicy v \<longleftrightarrow> trim_space v \<in> {[], ''warn'', ''required''}"

definition ApplyIsolationEvidencePolicy :: "string \<Rightarrow> bool \<Rightarrow> bool" where
  "ApplyIsolationEvidencePolicy v required = (if trim_space v = ''required'' then True else required)"

record IsolationStanding =
  is_Runtime :: string
  is_HasRuntime :: bool
  is_Claim :: Kind
  is_Status :: Status
  is_Record :: "IsolationRecord option"

definition JudgeIsolation :: "EvidenceSource \<Rightarrow> Executor \<Rightarrow> IsolationStanding" where
  "JudgeIsolation src ex =
     (case IsolationRuntimeOf ex of (runtime, has) \<Rightarrow>
        let claim = (if has then IsolationClaim runtime else claimOf (ex_Caps ex)) in
        (case LookupIsolationEvidence src (ex_ID ex) runtime of
           None \<Rightarrow> \<lparr>is_Runtime = runtime, is_HasRuntime = has, is_Claim = claim,
                    is_Status = StatusUnverified, is_Record = None\<rparr>
         | Some rec \<Rightarrow> \<lparr>is_Runtime = runtime, is_HasRuntime = has, is_Claim = claim,
                    is_Status = Judge claim (ir_Verdict rec), is_Record = Some rec\<rparr>))"

definition rejectForIsolationEvidence :: "EvidenceSource \<Rightarrow> bool \<Rightarrow> Executor \<Rightarrow> bool" where
  "rejectForIsolationEvidence src required ex =
     (case is_Status (JudgeIsolation src ex) of
        StatusVerified \<Rightarrow> False
      | StatusContradicted \<Rightarrow> True
      | StatusUnverified \<Rightarrow> required)"

interpretation evidence_switch: ratchet ApplyIsolationEvidencePolicy "\<lambda>a b. a \<longrightarrow> b"
  by unfold_locales (auto simp: ApplyIsolationEvidencePolicy_def)

section \<open>Properties\<close>

text \<open>A probe never invents isolation. Sharing the host's boot id is the host's kernel whatever
  else the sandbox reports; a virtual machine is concluded only against a usable reference, for a
  kernel that is not the host's, marked by a hypervisor and younger than the host; gVisor only
  from its own markers.\<close>

theorem verdict_never_invents_isolation:
  "(let p = Sanitize e; h = host_evidence ref in
    if usable ref \<and> ev_BootID p \<noteq> [] \<and> ev_BootID p = ev_BootID h then ProbeVerdict e ref = KindHostKernel
    else case ProbeVerdict e ref of
      KindVM \<Rightarrow> usable ref \<and> hypervisorMarks p \<noteq> [] \<and> ev_GVisor p = [] \<and>
        0 < ev_Uptime p \<and> ev_Uptime p < ev_Uptime h \<and>
        (if sameBuild p h then ev_BootID p \<noteq> [] \<and> ev_BootID h \<noteq> [] \<and> ev_BootID p \<noteq> ev_BootID h
         else True)
    | KindUserspaceKernel \<Rightarrow> ev_GVisor p \<noteq> []
    | KindHostKernel \<Rightarrow> usable ref \<and> sameBuild p h
    | KindUnknown \<Rightarrow> True
    | KindOther s \<Rightarrow> False)"
  by (auto simp: ProbeVerdict_def Let_def EvidenceIsZero_def)

definition isolation_rank :: "Kind \<Rightarrow> nat" where
  "isolation_rank k = (case k of KindVM \<Rightarrow> 2 | KindUserspaceKernel \<Rightarrow> 1 | _ \<Rightarrow> 0)"

text \<open>A claim is verified exactly when the probe found at least the isolation claimed, in the
  order host kernel, userspace kernel, virtual machine; it is contradicted when the probe found
  less, and an unknown or unreadable verdict settles nothing.\<close>

theorem judge_is_at_least_claimed:
  "Judge claim verdict =
     (case verdict of
        KindUnknown \<Rightarrow> StatusUnverified
      | KindOther s \<Rightarrow> StatusUnverified
      | v \<Rightarrow> if isolation_rank claim \<le> isolation_rank v then StatusVerified else StatusContradicted)"
  by (cases verdict; cases claim) (simp_all add: Judge_def KindValid_def isolation_rank_def)

text \<open>No configuration ever relaxes the evidence rule, and a contradicted claim is refused under
  every configuration: applying policies in any order keeps a refusal a refusal.\<close>

theorem refusal_survives_policies:
  "{ex. rejectForIsolationEvidence src required ex} \<subseteq>
     {ex. rejectForIsolationEvidence src (fold ApplyIsolationEvidencePolicy vs required) ex} \<and>
   (rejectForIsolationEvidence src False ex \<longleftrightarrow> is_Status (JudgeIsolation src ex) = StatusContradicted)"
  using evidence_switch.fold_tightens [of required vs]
  by (auto simp: rejectForIsolationEvidence_def split: Status.splits)

end
