(* ===== verification/Placement.thy ===== *)
theory Placement
  imports Isolated Health
begin

text \<open>
  Placement (\<open>pkg/executor/placement.go\<close>): the candidates a scheduler is offered, the constraints
  that eliminate them, the ranking among those left, and the check of an executor a project is
  already bound to. The process-wide policies placement reads are one record. A rejection keeps
  its constraint and executor; its sentence is left out. \<open>rq_Labels\<close> lists the selector in the
  order the map is walked, which decides only which label a rejection would name.
\<close>

section \<open>Constraints\<close>

text \<open>A constraint is a string in the code, and compared as one.\<close>

datatype Constraint = ConstraintNoCandidates
  | ConstraintExecutorID
  | ConstraintHealth
  | ConstraintHostPolicy
  | ConstraintIsolation
  | ConstraintVirtualization
  | ConstraintKernelIsolation
  | ConstraintIsolationEvidence
  | ConstraintLabels
  | ConstraintPlatform
  | ConstraintArch
  | ConstraintHarness
  | ConstraintContainerRuntime
  | ConstraintNetworkEgress
  | ConstraintResourceLimits
  | ConstraintDiskLimit
  | ConstraintStream
  | ConstraintSignal
  | ConstraintMemory
  | ConstraintCapacity
  | ConstraintImageOverride
  | ConstraintSandboxBuild
  | ConstraintSandboxMounts
  | ConstraintHostMounts
  | ConstraintDevices
  | ConstraintInterfaces
  | ConstraintEgressScope
  | ConstraintWorkspace
  | ConstraintWriteBack
  | ConstraintSecretFiles
  | ConstraintRevocation
  | ConstraintAgentBuild

fun constraint_name :: "Constraint \<Rightarrow> string" where
  "constraint_name ConstraintNoCandidates = ''no_candidates''"
| "constraint_name ConstraintExecutorID = ''executor_id''"
| "constraint_name ConstraintHealth = ''health''"
| "constraint_name ConstraintHostPolicy = ''host_execution_policy''"
| "constraint_name ConstraintIsolation = ''isolation''"
| "constraint_name ConstraintVirtualization = ''virtualization''"
| "constraint_name ConstraintKernelIsolation = ''kernel_isolation''"
| "constraint_name ConstraintIsolationEvidence = ''isolation_evidence''"
| "constraint_name ConstraintLabels = ''labels''"
| "constraint_name ConstraintPlatform = ''platform''"
| "constraint_name ConstraintArch = ''arch''"
| "constraint_name ConstraintHarness = ''harness''"
| "constraint_name ConstraintContainerRuntime = ''container_runtime''"
| "constraint_name ConstraintNetworkEgress = ''network_egress''"
| "constraint_name ConstraintResourceLimits = ''resource_limits''"
| "constraint_name ConstraintDiskLimit = ''disk_limit''"
| "constraint_name ConstraintStream = ''stream''"
| "constraint_name ConstraintSignal = ''signal''"
| "constraint_name ConstraintMemory = ''memory''"
| "constraint_name ConstraintCapacity = ''capacity''"
| "constraint_name ConstraintImageOverride = ''image_override''"
| "constraint_name ConstraintSandboxBuild = ''sandbox_build''"
| "constraint_name ConstraintSandboxMounts = ''sandbox_mounts''"
| "constraint_name ConstraintHostMounts = ''host_mounts''"
| "constraint_name ConstraintDevices = ''devices''"
| "constraint_name ConstraintInterfaces = ''interfaces''"
| "constraint_name ConstraintEgressScope = ''egress_scope''"
| "constraint_name ConstraintWorkspace = ''workspace''"
| "constraint_name ConstraintWriteBack = ''write_back''"
| "constraint_name ConstraintSecretFiles = ''secret_files''"
| "constraint_name ConstraintRevocation = ''revocation''"
| "constraint_name ConstraintAgentBuild = ''agent_build''"

lemma constraint_name_inject [simp]: "constraint_name a = constraint_name b \<longleftrightarrow> a = b"
  by (cases a; cases b; simp)

instantiation Constraint :: linorder
begin

definition less_eq_Constraint :: "Constraint \<Rightarrow> Constraint \<Rightarrow> bool" where
  "less_eq_Constraint a b \<longleftrightarrow> constraint_name a \<le> constraint_name b"

definition less_Constraint :: "Constraint \<Rightarrow> Constraint \<Rightarrow> bool" where
  "less_Constraint a b \<longleftrightarrow> constraint_name a < constraint_name b"

instance
  by intro_classes (auto simp: less_eq_Constraint_def less_Constraint_def less_le)

end

section \<open>Candidates and requirements\<close>

record Candidate =
  cd_Executor :: "Executor option"
  cd_Health :: Health
  cd_Labels :: "(string \<times> string) list"
  cd_Harnesses :: "string list"
  cd_ContainerRuntimes :: "string list"
  cd_MemoryMB :: int
  cd_InFlight :: int
  cd_InFlightKnown :: bool

definition CandidateID :: "Candidate \<Rightarrow> string" where
  "CandidateID c = (case cd_Executor c of None \<Rightarrow> [] | Some ex \<Rightarrow> ex_ID ex)"

record Requirements =
  rq_ExecutorID :: string
  rq_Labels :: "(string \<times> string) list"
  rq_Harnesses :: "string list"
  rq_Platform :: string
  rq_Arch :: string
  rq_MinMemoryMB :: int
  rq_AllowedIsolations :: "Isolation list"
  rq_RequireIsolation :: bool
  rq_RequireVirtualization :: bool
  rq_RequireKernelIsolation :: bool
  rq_RequireContainerRuntime :: bool
  rq_RequireNetworkEgress :: bool
  rq_RequireDevices :: bool
  rq_RequireInterfaces :: bool
  rq_RequireEgressScope :: bool
  rq_RequireResourceLimits :: bool
  rq_RequireDiskLimit :: bool
  rq_RequireImageOverride :: bool
  rq_RequireSandboxBuild :: bool
  rq_RequireSandboxMounts :: bool
  rq_RequireHostMounts :: bool
  rq_RequireWorkspaceProvisioning :: bool
  rq_RequireHostFilesystemWorkspace :: bool
  rq_RequireWriteBack :: bool
  rq_RequireBranchBundle :: bool
  rq_RequireProjectSeed :: bool
  rq_RequireSecretFiles :: bool
  rq_RequireRevocation :: bool
  rq_RequireStream :: bool
  rq_RequireSignal :: bool
  rq_ForbidDegraded :: bool
  rq_IgnoreCapacity :: bool

definition no_requirements :: Requirements where
  "no_requirements = \<lparr>rq_ExecutorID = [],
     rq_Labels = [],
     rq_Harnesses = [],
     rq_Platform = [],
     rq_Arch = [],
     rq_MinMemoryMB = 0,
     rq_AllowedIsolations = [],
     rq_RequireIsolation = False,
     rq_RequireVirtualization = False,
     rq_RequireKernelIsolation = False,
     rq_RequireContainerRuntime = False,
     rq_RequireNetworkEgress = False,
     rq_RequireDevices = False,
     rq_RequireInterfaces = False,
     rq_RequireEgressScope = False,
     rq_RequireResourceLimits = False,
     rq_RequireDiskLimit = False,
     rq_RequireImageOverride = False,
     rq_RequireSandboxBuild = False,
     rq_RequireSandboxMounts = False,
     rq_RequireHostMounts = False,
     rq_RequireWorkspaceProvisioning = False,
     rq_RequireHostFilesystemWorkspace = False,
     rq_RequireWriteBack = False,
     rq_RequireBranchBundle = False,
     rq_RequireProjectSeed = False,
     rq_RequireSecretFiles = False,
     rq_RequireRevocation = False,
     rq_RequireStream = False,
     rq_RequireSignal = False,
     rq_ForbidDegraded = False,
     rq_IgnoreCapacity = False\<rparr>"

record Rejection =
  rj_ExecutorID :: string
  rj_Constraint :: Constraint

record PlacementError =
  pe_Constraint :: Constraint
  pe_Rejections :: "Rejection list"
  pe_Considered :: nat

text \<open>The deployment's switches: \<open>HostExecutionAllowed\<close>, \<open>MinAgentBuild\<close>, and the isolation
  evidence with its policy.\<close>

record Deployment =
  dp_HostAllowed :: bool
  dp_MinBuild :: string
  dp_Evidence :: EvidenceSource
  dp_EvidenceRequired :: bool

section \<open>Rejecting a candidate\<close>

definition containsIsolation :: "Isolation list \<Rightarrow> Isolation \<Rightarrow> bool" where
  "containsIsolation ks want = list_ex (\<lambda>k. k = want) ks"

definition hasHarness :: "string list \<Rightarrow> string \<Rightarrow> bool" where
  "hasHarness advertised want = (advertised = [] \<or> list_ex (\<lambda>h. equal_fold h want) advertised)"

text \<open>The checks of \<open>reject\<close> in the order they are made, each with the constraint it names. The
  first one that holds rejects.\<close>

definition policy_checks :: "Deployment \<Rightarrow> Executor \<Rightarrow> Candidate \<Rightarrow> Requirements \<Rightarrow> (bool \<times> Constraint) list" where
  "policy_checks dep ex c req =
     (let health = Normalize (cd_Health c); caps = ex_Caps ex in
      [(rq_ExecutorID req \<noteq> [] \<and> ex_ID ex \<noteq> rq_ExecutorID req, ConstraintExecutorID),
       (\<not> Schedulable (h_State health), ConstraintHealth),
       (rq_ForbidDegraded req \<and> h_State health = NodeDegraded, ConstraintHealth),
       (\<not> dp_HostAllowed dep \<and> cap_Isolation caps = IsolationNone, ConstraintHostPolicy),
       (rejectForBuild ex (dp_MinBuild dep) \<noteq> None, ConstraintAgentBuild)])"

definition isolation_checks :: "Deployment \<Rightarrow> Executor \<Rightarrow> Requirements \<Rightarrow> (bool \<times> Constraint) list" where
  "isolation_checks dep ex req =
     (let caps = ex_Caps ex in
      [(rq_RequireIsolation req \<and> cap_Isolation caps = IsolationNone, ConstraintIsolation),
       (rq_AllowedIsolations req \<noteq> [] \<and> \<not> containsIsolation (rq_AllowedIsolations req) (cap_Isolation caps),
        ConstraintIsolation),
       (rq_RequireVirtualization req \<and> \<not> cap_Virtualized caps, ConstraintVirtualization),
       (rq_RequireKernelIsolation req \<and> \<not> cap_KernelIsolated caps, ConstraintKernelIsolation),
       ((rq_RequireVirtualization req \<or> rq_RequireKernelIsolation req) \<and>
          rejectForIsolationEvidence (dp_Evidence dep) (dp_EvidenceRequired dep) ex,
        ConstraintIsolationEvidence)])"

definition node_checks :: "Executor \<Rightarrow> Candidate \<Rightarrow> Requirements \<Rightarrow> (bool \<times> Constraint) list" where
  "node_checks ex c req =
     (let caps = ex_Caps ex in
      [(list_ex (\<lambda>(k, want). map_of (cd_Labels c) k \<noteq> Some want) (rq_Labels req), ConstraintLabels),
       (rq_Platform req \<noteq> [] \<and> cap_Platform caps \<noteq> [] \<and> \<not> equal_fold (cap_Platform caps) (rq_Platform req),
        ConstraintPlatform),
       (rq_Arch req \<noteq> [] \<and> cap_Arch caps \<noteq> [] \<and> \<not> equal_fold (cap_Arch caps) (rq_Arch req), ConstraintArch),
       (list_ex (\<lambda>h. \<not> hasHarness (cd_Harnesses c) h) (rq_Harnesses req), ConstraintHarness),
       (rq_RequireContainerRuntime req \<and> cd_ContainerRuntimes c = [], ConstraintContainerRuntime),
       (rq_RequireNetworkEgress req \<and> \<not> cap_NetworkEgress caps, ConstraintNetworkEgress),
       (rq_RequireResourceLimits req \<and> \<not> cap_SupportsResourceLimits caps, ConstraintResourceLimits),
       (rq_RequireDiskLimit req \<and> \<not> Enforced (cap_DiskEnforcement caps), ConstraintDiskLimit)])"

definition sandbox_checks :: "Executor \<Rightarrow> Requirements \<Rightarrow> (bool \<times> Constraint) list" where
  "sandbox_checks ex req =
     (let caps = ex_Caps ex in
      [(rq_RequireImageOverride req \<and> \<not> cap_SupportsImageOverride caps, ConstraintImageOverride),
       (rq_RequireSandboxBuild req \<and> \<not> cap_SupportsSandboxBuild caps, ConstraintSandboxBuild),
       (rq_RequireSandboxMounts req \<and> \<not> cap_SupportsSandboxMounts caps, ConstraintSandboxMounts),
       (rq_RequireHostMounts req \<and> \<not> cap_SupportsHostMounts caps, ConstraintHostMounts),
       (rq_RequireDevices req \<and> \<not> cap_SupportsDevices caps, ConstraintDevices),
       (rq_RequireInterfaces req \<and> \<not> cap_SupportsInterfaces caps, ConstraintInterfaces),
       (rq_RequireEgressScope req \<and> \<not> cap_SupportsEgressScope caps, ConstraintEgressScope),
       (rq_RequireWorkspaceProvisioning req \<and> \<not> cap_SupportsWorkspaceProvisioning caps, ConstraintWorkspace),
       (rq_RequireHostFilesystemWorkspace req \<and> \<not> cap_SharesHostFilesystem caps, ConstraintWorkspace),
       (rq_RequireWriteBack req \<and> \<not> cap_SupportsWriteBack caps, ConstraintWriteBack),
       (rq_RequireBranchBundle req \<and> \<not> cap_SupportsBranchBundle caps, ConstraintWorkspace),
       (rq_RequireProjectSeed req \<and> \<not> cap_SupportsProjectSeed caps, ConstraintWorkspace),
       (rq_RequireSecretFiles req \<and> \<not> cap_SupportsSecretFiles caps, ConstraintSecretFiles)])"

definition run_checks :: "Executor \<Rightarrow> Candidate \<Rightarrow> Requirements \<Rightarrow> (bool \<times> Constraint) list" where
  "run_checks ex c req =
     (let caps = ex_Caps ex in
      [(rq_RequireRevocation req \<and> \<not> SupportsRevocation ex, ConstraintRevocation),
       (rq_RequireStream req \<and> \<not> cap_SupportsStream caps, ConstraintStream),
       (rq_RequireSignal req \<and> \<not> cap_SupportsSignal caps, ConstraintSignal),
       (rq_MinMemoryMB req > 0 \<and> cd_MemoryMB c > 0 \<and> cd_MemoryMB c < rq_MinMemoryMB req, ConstraintMemory),
       (\<not> rq_IgnoreCapacity req \<and> cap_MaxConcurrent caps > 0 \<and> cd_InFlightKnown c \<and>
          cd_InFlight c \<ge> cap_MaxConcurrent caps, ConstraintCapacity)])"

definition reject :: "Deployment \<Rightarrow> Executor \<Rightarrow> Candidate \<Rightarrow> Requirements \<Rightarrow> Rejection option" where
  "reject dep ex c req =
     map_option (\<lambda>(b, k). \<lparr>rj_ExecutorID = ex_ID ex, rj_Constraint = k\<rparr>)
       (find fst (policy_checks dep ex c req @ isolation_checks dep ex req @ node_checks ex c req @
                  sandbox_checks ex req @ run_checks ex c req))"

section \<open>Ranking\<close>

definition freeSlots :: "Executor \<Rightarrow> Candidate \<Rightarrow> int" where
  "freeSlots ex c =
     (let m = cap_MaxConcurrent (ex_Caps ex) in
      if m \<le> 0 \<or> \<not> cd_InFlightKnown c then 2 ^ 30
      else if m - cd_InFlight c > 0 then m - cd_InFlight c else 0)"

definition buildRank :: "Executor \<Rightarrow> Executor \<Rightarrow> bool option" where
  "buildRank a b =
     (case (AgentBuild a, AgentBuild b) of ((av, aReports), (bv, bReports)) \<Rightarrow>
        if \<not> aReports \<or> \<not> bReports then None
        else case Compare av bv of (cmp, comparable) \<Rightarrow>
          if \<not> comparable \<or> cmp = 0 then None else Some (cmp > 0))"

text \<open>The eligible candidates all have an executor; the pair carries it.\<close>

definition lessCandidate :: "Executor \<times> Candidate \<Rightarrow> Executor \<times> Candidate \<Rightarrow> bool" where
  "lessCandidate x y =
     (case (x, y) of ((ea, a), (eb, b)) \<Rightarrow>
        let aReady = (h_State (Normalize (cd_Health a)) = NodeReady);
            bReady = (h_State (Normalize (cd_Health b)) = NodeReady);
            aIso = (cap_Isolation (ex_Caps ea) \<noteq> IsolationNone);
            bIso = (cap_Isolation (ex_Caps eb) \<noteq> IsolationNone)
        in if aReady \<noteq> bReady then aReady
           else if freeSlots ea a \<noteq> freeSlots eb b then freeSlots ea a > freeSlots eb b
           else if aIso \<noteq> bIso then aIso
           else case buildRank ea eb of
             Some aFirst \<Rightarrow> aFirst
           | None \<Rightarrow> ex_ID ea < ex_ID eb)"

section \<open>Selecting\<close>

text \<open>The loop over the counts map: \<open>ks\<close> is the order in which the map yields its keys.\<close>

fun headline_loop :: "(Constraint \<Rightarrow> nat) \<Rightarrow> Constraint \<Rightarrow> nat \<Rightarrow> Constraint list \<Rightarrow> Constraint" where
  "headline_loop counts best bestN [] = best"
| "headline_loop counts best bestN (k # ks) =
     (if counts k > bestN \<or> (counts k = bestN \<and> k < best)
      then headline_loop counts k (counts k) ks
      else headline_loop counts best bestN ks)"

definition constraint_count :: "Rejection list \<Rightarrow> Constraint \<Rightarrow> nat" where
  "constraint_count rs k = length (filter (\<lambda>r. rj_Constraint r = k) rs)"

definition headline_in_order :: "Constraint list \<Rightarrow> Rejection list \<Rightarrow> Constraint" where
  "headline_in_order ks rs =
     (if rs = [] then ConstraintNoCandidates
      else headline_loop (constraint_count rs) (rj_Constraint (hd rs)) 0 ks)"

definition headlineConstraint :: "Rejection list \<Rightarrow> Constraint" where
  "headlineConstraint rs = headline_in_order (remdups (map rj_Constraint rs)) rs"

fun split_candidates ::
  "Deployment \<Rightarrow> Requirements \<Rightarrow> Candidate list \<Rightarrow> (Executor \<times> Candidate) list \<times> Rejection list"
where
  "split_candidates dep req [] = ([], [])"
| "split_candidates dep req (c # cs) =
     (let (el, rs) = split_candidates dep req cs in
      case cd_Executor c of
        None \<Rightarrow> (el, rs)
      | Some ex \<Rightarrow>
          (case reject dep ex c req of
             Some rej \<Rightarrow> (el, rej # rs)
           | None \<Rightarrow> ((ex, c) # el, rs)))"

definition Select :: "Deployment \<Rightarrow> Candidate list \<Rightarrow> Requirements \<Rightarrow> PlacementError + Candidate" where
  "Select dep cs req =
     (if cs = [] then
        Inl \<lparr>pe_Constraint = ConstraintNoCandidates, pe_Rejections = [], pe_Considered = 0\<rparr>
      else
        let (eligible, rejections) = split_candidates dep req cs in
        if eligible = [] then
          let rs = go_stable_sort (lt_by rj_ExecutorID) rejections
          in Inl \<lparr>pe_Constraint = headlineConstraint rs, pe_Rejections = rs, pe_Considered = length cs\<rparr>
        else Inr (snd (hd (go_stable_sort lessCandidate eligible))))"

section \<open>Checking a bound executor\<close>

datatype SupportError = NilExecutor | HostDenied string string "string list" | Unplaceable PlacementError

definition fresh_candidate :: "Executor \<Rightarrow> Candidate" where
  "fresh_candidate ex =
     \<lparr>cd_Executor = Some ex,
      cd_Health = \<lparr>h_ExecutorID = [], h_State = NodeReady, h_Reason = [], h_ConsecutiveFailures = 0,
                   h_LastSeen = 0, h_LastProbe = 0, h_StateChangedAt = 0\<rparr>,
      cd_Labels = [], cd_Harnesses = [], cd_ContainerRuntimes = [], cd_MemoryMB = 0,
      cd_InFlight = 0, cd_InFlightKnown = False\<rparr>"

definition hostDenied :: "Registry \<Rightarrow> Executor \<Rightarrow> string \<Rightarrow> SupportError" where
  "hostDenied reg ex path = HostDenied (ex_ID ex) path (IsolatedIDs reg)"

definition CheckSandboxSupport ::
  "Deployment \<Rightarrow> Registry \<Rightarrow> Executor option \<Rightarrow> Requirements \<Rightarrow> string \<Rightarrow> SupportError option"
where
  "CheckSandboxSupport dep reg ex0 req path =
     (case ex0 of
        None \<Rightarrow> Some NilExecutor
      | Some ex \<Rightarrow>
          (case reject dep ex (fresh_candidate ex) (req\<lparr>rq_IgnoreCapacity := True\<rparr>) of
             None \<Rightarrow> None
           | Some rej \<Rightarrow>
               let k = rj_Constraint rej;
                   plain = Unplaceable \<lparr>pe_Constraint = k, pe_Rejections = [rej], pe_Considered = 1\<rparr>
               in if k \<in> {ConstraintHostPolicy, ConstraintIsolation} then Some (hostDenied reg ex path)
                  else if k \<in> {ConstraintWorkspace, ConstraintWriteBack, ConstraintSecretFiles} then Some plain
                  else if k \<in> {ConstraintImageOverride, ConstraintSandboxBuild, ConstraintSandboxMounts,
                    ConstraintNetworkEgress, ConstraintResourceLimits, ConstraintDiskLimit,
                    ConstraintVirtualization, ConstraintKernelIsolation, ConstraintEgressScope}
                    \<and> \<not> isolatesFromHost (Some ex) then Some (hostDenied reg ex path)
                  else Some plain))"

section \<open>Facts about placement\<close>

definition acceptable :: "Deployment \<Rightarrow> Requirements \<Rightarrow> Candidate \<Rightarrow> bool" where
  "acceptable dep req c =
     (case cd_Executor c of None \<Rightarrow> False | Some ex \<Rightarrow> reject dep ex c req = None)"

definition rank_key :: "Executor \<times> Candidate \<Rightarrow> bool \<times> int \<times> bool" where
  "rank_key x = (h_State (Normalize (cd_Health (snd x))) \<noteq> NodeReady, - freeSlots (fst x) (snd x),
                 cap_Isolation (ex_Caps (fst x)) = IsolationNone)"

definition candidate_rank :: "Candidate \<Rightarrow> bool \<times> int \<times> bool" where
  "candidate_rank c = (case cd_Executor c of None \<Rightarrow> (True, 0, True) | Some ex \<Rightarrow> rank_key (ex, c))"

lemma lessCandidate_coarse:
  "rank_key x < rank_key y \<Longrightarrow> lessCandidate x y" "lessCandidate x y \<Longrightarrow> rank_key x \<le> rank_key y"
  by (auto simp: rank_key_def lessCandidate_def Let_def less_prod_def less_eq_prod_def
      split: prod.splits if_splits)

definition rejections_of :: "Deployment \<Rightarrow> Requirements \<Rightarrow> Candidate list \<Rightarrow> Rejection list" where
  "rejections_of dep req cs =
     concat (map (\<lambda>c. case cd_Executor c of None \<Rightarrow> []
       | Some ex \<Rightarrow> (case reject dep ex c req of None \<Rightarrow> [] | Some rej \<Rightarrow> [rej])) cs)"

lemma split_candidates_eq:
  "split_candidates dep req cs =
     (map (\<lambda>c. (the (cd_Executor c), c)) (filter (acceptable dep req) cs), rejections_of dep req cs)"
  by (induction cs) (auto simp: acceptable_def rejections_of_def split: option.splits)

lemma acceptable_executor: "acceptable dep req c \<Longrightarrow> \<exists>ex. cd_Executor c = Some ex \<and> reject dep ex c req = None"
  by (auto simp: acceptable_def split: option.splits)

lemma Select_Inr:
  assumes "Select dep cs req = Inr c"
  shows "c \<in> set cs \<and> acceptable dep req c \<and>
    (\<forall>d \<in> set cs. acceptable dep req d \<longrightarrow> candidate_rank c \<le> candidate_rank d)"
proof -
  let ?el = "map (\<lambda>c. (the (cd_Executor c), c)) (filter (acceptable dep req) cs)"
  from assms have ne: "?el \<noteq> []" and c: "c = snd (hd (go_stable_sort lessCandidate ?el))"
    by (auto simp: Select_def split_candidates_eq Let_def split: if_splits)
  obtain x xs where sorted: "go_stable_sort lessCandidate ?el = x # xs"
    using ne by (metis go_stable_sort_empty neq_Nil_conv)
  then have x: "x \<in> set ?el" by (metis list.set_intros(1) set_go_stable_sort)
  have le: "rank_key x \<le> rank_key y" if "y \<in> set ?el" for y
  proof -
    have "sorted_wrt (\<lambda>a b. rank_key a \<le> rank_key b) (go_stable_sort lessCandidate ?el)"
      by (rule go_stable_sort_coarse) (auto intro: lessCandidate_coarse)
    with sorted have "\<forall>y \<in> set xs. rank_key x \<le> rank_key y" by simp
    moreover have "y \<in> set (x # xs)" using that sorted by (metis set_go_stable_sort)
    ultimately show ?thesis by auto
  qed
  have rank: "candidate_rank d = rank_key (the (cd_Executor d), d)" if "acceptable dep req d" for d
    using acceptable_executor [OF that] by (auto simp: candidate_rank_def)
  from x c sorted have cx: "c \<in> set cs" "acceptable dep req c" "x = (the (cd_Executor c), c)" by auto
  moreover have "candidate_rank c \<le> candidate_rank d" if "d \<in> set cs" "acceptable dep req d" for d
    using le [of "(the (cd_Executor d), d)"] that rank [OF that(2)] rank [OF cx(2)] cx(3) by auto
  ultimately show ?thesis by blast
qed

lemma sorted_by_id:
  "sorted_wrt (\<lambda>a b. rj_ExecutorID a \<le> rj_ExecutorID b) (go_stable_sort (lt_by rj_ExecutorID) rs)"
  by (rule go_stable_sort_coarse) (auto simp: lt_by_def)

lemma Select_Inl:
  assumes "Select dep cs req = Inl e"
  shows "filter (acceptable dep req) cs = [] \<and> pe_Considered e = length cs \<and>
     mset (pe_Rejections e) = mset (rejections_of dep req cs) \<and>
     sorted_wrt (\<lambda>a b. rj_ExecutorID a \<le> rj_ExecutorID b) (pe_Rejections e)"
proof (cases "cs = []")
  case True
  with assms show ?thesis by (auto simp: Select_def rejections_of_def)
next
  case False
  let ?rs = "go_stable_sort (lt_by rj_ExecutorID) (rejections_of dep req cs)"
  from assms False have "filter (acceptable dep req) cs = []"
    and e: "e = \<lparr>pe_Constraint = headlineConstraint ?rs, pe_Rejections = ?rs, pe_Considered = length cs\<rparr>"
    by (auto simp: Select_def split_candidates_eq Let_def split: if_splits)
  then show ?thesis using sorted_by_id by simp
qed

lemma headline_loop_max:
  assumes "bestN = counts best"
  shows "headline_loop counts best bestN ks \<in> insert best (set ks) \<and>
    (\<forall>k \<in> insert best (set ks). counts k < counts (headline_loop counts best bestN ks) \<or>
       counts k = counts (headline_loop counts best bestN ks) \<and> headline_loop counts best bestN ks \<le> k)"
  using assms
proof (induction ks arbitrary: best bestN)
  case Nil
  then show ?case by simp
next
  case (Cons k ks)
  show ?case
  proof (cases "counts k > bestN \<or> (counts k = bestN \<and> k < best)")
    case True
    with Cons.IH [of "counts k" k] Cons.prems show ?thesis by auto
  next
    case False
    with Cons.IH [OF Cons.prems] Cons.prems show ?thesis by (auto simp: not_less)
  qed
qed

lemma headline_max:
  assumes "rs \<noteq> []" and "set ks = set (map rj_Constraint rs)"
  shows "headline_in_order ks rs \<in> set ks \<and>
    (\<forall>k \<in> set ks. constraint_count rs k < constraint_count rs (headline_in_order ks rs) \<or>
       constraint_count rs k = constraint_count rs (headline_in_order ks rs) \<and> headline_in_order ks rs \<le> k)"
proof -
  from assms obtain k ks' where ks: "ks = k # ks'" by (cases ks) auto
  then have "k \<in> set (map rj_Constraint rs)" using assms(2) by auto
  then have "0 < constraint_count rs k" by (auto simp: constraint_count_def length_filter_conv_card card_gt_0_iff in_set_conv_nth)
  then have "headline_in_order ks rs = headline_loop (constraint_count rs) k (constraint_count rs k) ks'"
    using assms(1) ks by (simp add: headline_in_order_def)
  with headline_loop_max [of "constraint_count rs k" "constraint_count rs" k ks'] ks show ?thesis by simp
qed

section \<open>Properties\<close>

text \<open>Select places a workload exactly when some candidate passes every check, on one that does,
  and otherwise accounts for every candidate: one rejection per executor offered, ordered by
  executor id.\<close>

theorem select_sound_and_complete:
  "case Select dep cs req of
     Inr c \<Rightarrow> c \<in> set cs \<and> (case cd_Executor c of None \<Rightarrow> False | Some ex \<Rightarrow> reject dep ex c req = None)
   | Inl e \<Rightarrow>
       filter (\<lambda>c. case cd_Executor c of None \<Rightarrow> False | Some ex \<Rightarrow> reject dep ex c req = None) cs = [] \<and>
       pe_Considered e = length cs \<and> mset (pe_Rejections e) = mset (rejections_of dep req cs) \<and>
       sorted_wrt (\<lambda>a b. rj_ExecutorID a \<le> rj_ExecutorID b) (pe_Rejections e)"
proof (cases "Select dep cs req")
  case (Inl e)
  from Select_Inl [OF this] Inl show ?thesis by (simp add: acceptable_def [abs_def])
next
  case (Inr c)
  from Select_Inr [OF this] Inr show ?thesis by (auto simp: acceptable_def)
qed

text \<open>The placed node is never beaten on the documented ranking: no acceptable candidate is ready
  where it is degraded, or equally ready with more free capacity, or equal in both and isolated
  where it is not.\<close>

theorem select_follows_ranking:
  "case Select dep cs req of
     Inr c \<Rightarrow> filter (\<lambda>d. acceptable dep req d \<and> candidate_rank d < candidate_rank c) cs = []
   | Inl e \<Rightarrow> filter (acceptable dep req) cs = []"
proof (cases "Select dep cs req")
  case (Inl e)
  from Select_Inl [OF this] Inl show ?thesis by simp
next
  case (Inr c)
  from Select_Inr [OF this] Inr show ?thesis by (auto simp: filter_empty_conv not_less)
qed

text \<open>C23: the security rules hold of every placement. The node's health admits work, and is not degraded
  where the request forbids that. Where the deployment forbids host execution, or the request requires
  isolation, the node does not declare the level none; a node that declares no level passes both
  (\<open>undeclared_isolation_is_placed\<close>), and where the request lists levels, its level is one of them. A device
  meets the minimum build. A workload that requires a hypervisor or a kernel of its own lands on a node
  that claims it and whose claim no probe has contradicted, and one that a probe has verified where the
  deployment requires evidence. Lease material can be revoked there, and files for secrets made, when
  the workload requires it.\<close>

theorem placement_respects_policies:
  "case Select dep cs req of
     Inl e \<Rightarrow> True
   | Inr c \<Rightarrow>
       (case cd_Executor c of
          None \<Rightarrow> False
        | Some ex \<Rightarrow>
            Schedulable (h_State (Normalize (cd_Health c))) \<and>
            (if rq_ForbidDegraded req then h_State (Normalize (cd_Health c)) = NodeReady else True) \<and>
            (if dp_HostAllowed dep \<and> \<not> rq_RequireIsolation req then True
             else cap_Isolation (ex_Caps ex) \<noteq> IsolationNone) \<and>
            (if rq_AllowedIsolations req = [] then True
             else containsIsolation (rq_AllowedIsolations req) (cap_Isolation (ex_Caps ex))) \<and>
            rejectForBuild ex (dp_MinBuild dep) = None \<and>
            (if rq_RequireVirtualization req then cap_Virtualized (ex_Caps ex) else True) \<and>
            (if rq_RequireKernelIsolation req then cap_KernelIsolated (ex_Caps ex) else True) \<and>
            (if rq_RequireVirtualization req \<or> rq_RequireKernelIsolation req
             then (case is_Status (JudgeIsolation (dp_Evidence dep) ex) of
                     StatusVerified \<Rightarrow> True
                   | StatusContradicted \<Rightarrow> False
                   | StatusUnverified \<Rightarrow> \<not> dp_EvidenceRequired dep)
             else True) \<and>
            (if rq_RequireRevocation req then SupportsRevocation ex else True) \<and>
            (if rq_RequireSecretFiles req then cap_SupportsSecretFiles (ex_Caps ex) else True))"
proof (cases "Select dep cs req")
  case (Inl e)
  then show ?thesis by simp
next
  case (Inr c)
  from Select_Inr [OF this] obtain ex where ex: "cd_Executor c = Some ex" "reject dep ex c req = None"
    by (auto dest: acceptable_executor)
  then have none: "\<forall>p \<in> set (policy_checks dep ex c req @ isolation_checks dep ex req @ node_checks ex c req @
      sandbox_checks ex req @ run_checks ex c req). \<not> fst p"
    by (auto simp: reject_def find_None_iff)
  then have p: "\<forall>p \<in> set (policy_checks dep ex c req). \<not> fst p" and i: "\<forall>p \<in> set (isolation_checks dep ex req). \<not> fst p"
    and s: "\<forall>p \<in> set (sandbox_checks ex req). \<not> fst p" and r: "\<forall>p \<in> set (run_checks ex c req). \<not> fst p"
    by auto
  from p have P: "Schedulable (h_State (Normalize (cd_Health c)))"
    "\<not> (rq_ForbidDegraded req \<and> h_State (Normalize (cd_Health c)) = NodeDegraded)"
    "dp_HostAllowed dep \<or> cap_Isolation (ex_Caps ex) \<noteq> IsolationNone"
    "rejectForBuild ex (dp_MinBuild dep) = None"
    by (auto simp: policy_checks_def Let_def)
  from i have I: "\<not> (rq_RequireIsolation req \<and> cap_Isolation (ex_Caps ex) = IsolationNone)"
    "\<not> (rq_AllowedIsolations req \<noteq> [] \<and> \<not> containsIsolation (rq_AllowedIsolations req) (cap_Isolation (ex_Caps ex)))"
    "\<not> (rq_RequireVirtualization req \<and> \<not> cap_Virtualized (ex_Caps ex))"
    "\<not> (rq_RequireKernelIsolation req \<and> \<not> cap_KernelIsolated (ex_Caps ex))"
    "\<not> ((rq_RequireVirtualization req \<or> rq_RequireKernelIsolation req) \<and>
        rejectForIsolationEvidence (dp_Evidence dep) (dp_EvidenceRequired dep) ex)"
    by (simp_all add: isolation_checks_def Let_def)
  from s r have "cap_SupportsSecretFiles (ex_Caps ex) \<or> \<not> rq_RequireSecretFiles req"
    "SupportsRevocation ex \<or> \<not> rq_RequireRevocation req"
    by (auto simp: sandbox_checks_def run_checks_def Let_def)
  with Inr ex(1) P I show ?thesis
    by (auto simp: rejectForIsolationEvidence_def Schedulable_def split: Status.splits)
qed

text \<open>The constraint a placement failure is blamed on does not depend on the order in which the
  map of counts is walked: it is the one that eliminated most candidates, the first by name among
  those.\<close>

theorem headline_order_independent:
  assumes "set ks = set (map rj_Constraint rs)"
  shows "headline_in_order ks rs = headlineConstraint rs \<and>
    filter (\<lambda>k. constraint_count rs (headlineConstraint rs) < constraint_count rs k \<or>
       constraint_count rs (headlineConstraint rs) = constraint_count rs k \<and> k < headlineConstraint rs) ks = []"
proof (cases "rs = []")
  case True
  with assms show ?thesis by (simp add: headlineConstraint_def headline_in_order_def)
next
  case False
  let ?ks = "remdups (map rj_Constraint rs)"
  have eq: "set ?ks = set (map rj_Constraint rs)" by simp
  note A = headline_max [OF False assms] and B = headline_max [OF False eq]
  from A B assms have "headline_in_order ks rs = headline_in_order ?ks rs"
    by (metis antisym eq less_irrefl less_trans)
  with A show ?thesis by (auto simp: headlineConstraint_def filter_empty_conv not_less)
qed

theorem headline_order_independent_witness:
  "let rs = [\<lparr>rj_ExecutorID = ''a'', rj_Constraint = ConstraintHealth\<rparr>,
             \<lparr>rj_ExecutorID = ''b'', rj_Constraint = ConstraintHarness\<rparr>,
             \<lparr>rj_ExecutorID = ''c'', rj_Constraint = ConstraintHealth\<rparr>,
             \<lparr>rj_ExecutorID = ''d'', rj_Constraint = ConstraintHarness\<rparr>]
   in headline_in_order [ConstraintHealth, ConstraintHarness] rs = ConstraintHarness \<and>
      headlineConstraint rs = ConstraintHarness"
proof -
  let ?rs = "[\<lparr>rj_ExecutorID = ''a'', rj_Constraint = ConstraintHealth\<rparr>,
             \<lparr>rj_ExecutorID = ''b'', rj_Constraint = ConstraintHarness\<rparr>,
             \<lparr>rj_ExecutorID = ''c'', rj_Constraint = ConstraintHealth\<rparr>,
             \<lparr>rj_ExecutorID = ''d'', rj_Constraint = ConstraintHarness\<rparr>]"
  have s: "set [ConstraintHealth, ConstraintHarness] = set (map rj_Constraint ?rs)" by auto
  have v: "headlineConstraint ?rs = ConstraintHarness" by code_simp
  from headline_order_independent [OF s] v show ?thesis by (simp only: Let_def)
qed

definition device :: "string \<Rightarrow> string \<Rightarrow> Candidate" where
  "device i build = fresh_candidate (driver i IsolationRemote\<lparr>ex_AgentVersion := Some build\<rparr>)"

definition open_deployment :: Deployment where
  "open_deployment = \<lparr>dp_HostAllowed = True, dp_MinBuild = [], dp_Evidence = None, dp_EvidenceRequired = False\<rparr>"

text \<open>The tiebreak by build is not an order: three equally good nodes whose builds can only
  partly be compared are each placed first for some order of the candidates, so the choice depends
  on the order the caller lists them in.\<close>

theorem placement_depends_on_candidate_order:
  "map (\<lambda>cs. map_sum (\<lambda>e. ()) CandidateID (Select open_deployment cs no_requirements))
     [[device ''z'' ''v0.0.7'', device ''a'' ''v0.0.6'', device ''m'' ''dev''],
      [device ''a'' ''v0.0.6'', device ''m'' ''dev'', device ''z'' ''v0.0.7''],
      [device ''m'' ''dev'', device ''z'' ''v0.0.7'', device ''a'' ''v0.0.6'']]
   = [Inr ''z'', Inr ''a'', Inr ''m'']"
  by code_simp

text \<open>Placement and resolution disagree about a driver that declares no isolation level at all:
  with host execution forbidden, resolution refuses it (as the policy says it must be), and
  placement schedules on it, even when isolation is required.\<close>

theorem undeclared_isolation_is_placed:
  "map_sum (\<lambda>e. ()) CandidateID
     (Select (open_deployment\<lparr>dp_HostAllowed := False\<rparr>) [fresh_candidate (driver ''x'' (IsolationOther []))]
        (no_requirements\<lparr>rq_RequireIsolation := True\<rparr>)) = Inr ''x'' \<and>
   map_sum (\<lambda>e. e) ex_ID
     (Resolve False [] None (fst (Register True (Some (driver ''x'' (IsolationOther []))) NewRegistry)) ''/p'')
     = Inl (HostExecutionDenied ''x'' ''/p'' [])"
  by code_simp

end
