(* ===== verification/GoPath.thy ===== *)
theory GoPath
  imports GoStrings
begin

text \<open>
  Go's \<open>path.Match\<close>, with the part of \<open>unicode/utf8\<close> it reads, over byte strings. The shape is
  the library's: a pattern is cut into chunks at its stars, a chunk is matched byte by byte (or
  rune by rune for \<open>?\<close> and classes), a star tries every position up to the next slash, and a
  malformed pattern is the value \<open>None\<close> (\<open>ErrBadPattern\<close>).

  The lemmas the callers use: a pattern without a special byte matches itself and nothing else
  (\<open>path_match_literal\<close>), and a pattern without a class never crosses a slash
  (\<open>path_match_slashes\<close>).
\<close>

section \<open>Decoding one rune\<close>

definition rune_error :: nat where "rune_error = 65533"

definition cont_byte :: "char \<Rightarrow> bool" where
  "cont_byte c \<longleftrightarrow> 128 \<le> byte_val c \<and> byte_val c \<le> 191"

text \<open>The bounds of the second byte, by the first.\<close>

definition second_lo :: "nat \<Rightarrow> nat" where
  "second_lo b = (if b = 224 then 160 else if b = 240 then 144 else 128)"

definition second_hi :: "nat \<Rightarrow> nat" where
  "second_hi b = (if b = 237 then 159 else if b = 244 then 143 else 191)"

definition second_ok :: "nat \<Rightarrow> char \<Rightarrow> bool" where
  "second_ok b c \<longleftrightarrow> second_lo b \<le> byte_val c \<and> byte_val c \<le> second_hi b"

text \<open>\<open>utf8.DecodeRuneInString\<close>: the rune and its width in bytes.\<close>

fun decode_rune :: "string \<Rightarrow> nat \<times> nat" where
  "decode_rune [] = (rune_error, 0)"
| "decode_rune (c # s) =
     (let b = byte_val c in
      if b < 128 then (b, 1)
      else if 194 \<le> b \<and> b \<le> 223 then
        (case s of
           c1 # _ \<Rightarrow> if cont_byte c1 then ((b - 192) * 64 + (byte_val c1 - 128), 2)
                      else (rune_error, 1)
         | _ \<Rightarrow> (rune_error, 1))
      else if 224 \<le> b \<and> b \<le> 239 then
        (case s of
           c1 # c2 # _ \<Rightarrow>
             if second_ok b c1 \<and> cont_byte c2
             then ((b - 224) * 4096 + (byte_val c1 - 128) * 64 + (byte_val c2 - 128), 3)
             else (rune_error, 1)
         | _ \<Rightarrow> (rune_error, 1))
      else if 240 \<le> b \<and> b \<le> 244 then
        (case s of
           c1 # c2 # c3 # _ \<Rightarrow>
             if second_ok b c1 \<and> cont_byte c2 \<and> cont_byte c3
             then ((b - 240) * 262144 + (byte_val c1 - 128) * 4096 + (byte_val c2 - 128) * 64
                   + (byte_val c3 - 128), 4)
             else (rune_error, 1)
         | _ \<Rightarrow> (rune_error, 1))
      else (rune_error, 1))"

lemma decode_rune_width: "s \<noteq> [] \<Longrightarrow> 1 \<le> snd (decode_rune s)"
  by (cases s) (auto simp: Let_def split: list.splits)

lemma second_ok_high: "second_ok b c \<Longrightarrow> 128 \<le> byte_val c"
  by (auto simp: second_ok_def second_lo_def split: if_splits)

lemma byte_val_slash: "byte_val CHR ''/'' = 47"
  by (simp add: byte_val_def)

lemma slash_not_high: "128 \<le> byte_val c \<Longrightarrow> c \<noteq> CHR ''/''"
  using byte_val_slash by auto

lemma decode_rune_no_slash:
  assumes "s \<noteq> []" and "hd s \<noteq> CHR ''/''"
  shows "CHR ''/'' \<notin> set (take (snd (decode_rune s)) s)"
proof -
  obtain c r where s: "s = c # r" using assms(1) by (cases s) auto
  with assms show ?thesis
    by (auto simp: Let_def cont_byte_def split: list.splits dest: slash_not_high second_ok_high)
qed

section \<open>Matching one chunk\<close>

definition get_esc :: "string \<Rightarrow> (nat \<times> string) option" where
  "get_esc chunk =
     (case chunk of
        [] \<Rightarrow> None
      | c # r \<Rightarrow>
          if c = CHR ''-'' \<or> c = CHR '']'' then None
          else let chunk' = (if c = CHR 0x5C then r else chunk) in
            if chunk' = [] then None
            else let (q, n) = decode_rune chunk' in
              if q = rune_error \<and> n = 1 then None
              else if drop n chunk' = [] then None
              else Some (q, drop n chunk'))"

lemma get_esc_shorter:
  assumes "get_esc chunk = Some (q, r)"
  shows "length r < length chunk" and "r \<noteq> []"
proof -
  obtain c t where ch: "chunk = c # t" using assms by (cases chunk) (auto simp: get_esc_def)
  let ?u = "if c = CHR 0x5C then t else chunk"
  from assms ch have u: "?u \<noteq> []" and r: "r = drop (snd (decode_rune ?u)) ?u" and "r \<noteq> []"
    by (auto simp: get_esc_def Let_def split: if_splits prod.splits)
  from decode_rune_width [OF u] u r have "length r < length ?u" by simp
  then show "length r < length chunk" using ch by (auto split: if_splits)
  show "r \<noteq> []" by fact
qed

text \<open>The ranges of one class; the result says whether the rune is in one of them.\<close>

function class_ranges :: "nat \<Rightarrow> nat \<Rightarrow> bool \<Rightarrow> string \<Rightarrow> (bool \<times> string) option" where
  "class_ranges r nrange m chunk =
     (if chunk \<noteq> [] \<and> hd chunk = CHR '']'' \<and> 0 < nrange then Some (m, tl chunk)
      else case get_esc chunk of
        None \<Rightarrow> None
      | Some (lo, c1) \<Rightarrow>
          if hd c1 = CHR ''-'' then
            (case get_esc (tl c1) of
               None \<Rightarrow> None
             | Some (hi, c2) \<Rightarrow> class_ranges r (Suc nrange) (m \<or> lo \<le> r \<and> r \<le> hi) c2)
          else class_ranges r (Suc nrange) (m \<or> r = lo) c1)"
  by pat_completeness auto
termination
  by (relation "measure (\<lambda>(r, n, m, chunk). length chunk)") (auto dest!: get_esc_shorter(1))

declare class_ranges.simps [simp del]

lemma class_ranges_shorter:
  "class_ranges r n m chunk = Some (b, rest) \<Longrightarrow> length rest < length chunk"
proof (induction r n m chunk rule: class_ranges.induct)
  case (1 r n m chunk)
  show ?case
  proof (cases "chunk \<noteq> [] \<and> hd chunk = CHR '']'' \<and> 0 < n")
    case True
    with "1.prems" show ?thesis by (auto simp: class_ranges.simps [of r n m chunk])
  next
    case False
    with "1.prems" obtain lo c1 where e: "get_esc chunk = Some (lo, c1)"
      by (auto simp: class_ranges.simps [of r n m chunk] split: option.splits)
    note c1 = get_esc_shorter(1) [OF e]
    show ?thesis
    proof (cases "hd c1 = CHR ''-''")
      case True
      with "1.prems" False e obtain hi c2 where e2: "get_esc (tl c1) = Some (hi, c2)"
        by (auto simp: class_ranges.simps [of r n m chunk] split: option.splits)
      with "1.prems" False e True
      have "class_ranges r (Suc n) (m \<or> lo \<le> r \<and> r \<le> hi) c2 = Some (b, rest)"
        by (simp add: class_ranges.simps [of r n m chunk])
      from "1.IH"(1) [OF False e refl True e2 refl this] get_esc_shorter(1) [OF e2] c1
      show ?thesis by simp
    next
      case no_range: False
      with "1.prems" False e have "class_ranges r (Suc n) (m \<or> r = lo) c1 = Some (b, rest)"
        by (simp add: class_ranges.simps [of r n m chunk])
      from "1.IH"(2) [OF False e refl no_range this] c1 show ?thesis by simp
    qed
  qed
qed

definition strip_negation :: "string \<Rightarrow> bool \<times> string" where
  "strip_negation chunk =
     (if chunk \<noteq> [] \<and> hd chunk = CHR ''^'' then (True, tl chunk) else (False, chunk))"

lemma strip_negation_length: "strip_negation chunk = (b, r) \<Longrightarrow> length r \<le> length chunk"
  by (auto simp: strip_negation_def split: if_splits)

text \<open>
  \<open>None\<close>: malformed pattern. \<open>Some None\<close>: no match. \<open>Some (Some t)\<close>: the chunk matched and \<open>t\<close>
  is left of the name. A failed match reads the rest of the chunk for its syntax only.
\<close>

function match_chunk :: "bool \<Rightarrow> string \<Rightarrow> string \<Rightarrow> string option option" where
  "match_chunk failed [] s = Some (if failed then None else Some s)"
| "match_chunk failed (c # chunk) s =
     (if c = CHR ''['' then
        (case class_ranges (if failed \<or> s = [] then 0 else fst (decode_rune s)) 0 False
                (snd (strip_negation chunk)) of
           None \<Rightarrow> None
         | Some (m, rest) \<Rightarrow>
             match_chunk (failed \<or> s = [] \<or> m = fst (strip_negation chunk)) rest
               (if failed then s else drop (snd (decode_rune s)) s))
      else if c = CHR ''?'' then
        match_chunk (failed \<or> s = [] \<or> hd s = CHR ''/'') chunk
          (if failed then s else drop (snd (decode_rune s)) s)
      else if c = CHR 0x5C then
        (case chunk of
           [] \<Rightarrow> None
         | d # q \<Rightarrow> match_chunk (failed \<or> s = [] \<or> d \<noteq> hd s) q (if failed then s else tl s))
      else match_chunk (failed \<or> s = [] \<or> c \<noteq> hd s) chunk (if failed then s else tl s))"
  by pat_completeness auto
termination
proof (relation "measure (\<lambda>(failed, chunk, s). length chunk)", goal_cases)
  case 1
  then show ?case by simp
next
  case (2 failed c chunk s x2 m rest)
  then have "length rest < length (snd (strip_negation chunk))"
    by (metis class_ranges_shorter)
  also have "\<dots> \<le> length chunk" by (metis prod.collapse strip_negation_length)
  finally show ?case by simp
qed auto

declare match_chunk.simps [simp del]

section \<open>The whole pattern\<close>

fun scan_split :: "bool \<Rightarrow> string \<Rightarrow> string \<times> string" where
  "scan_split inrange [] = ([], [])"
| "scan_split inrange (c # p) =
     (if c = CHR 0x5C then
        (case p of
           [] \<Rightarrow> ([c], [])
         | d # q \<Rightarrow> (let (a, b) = scan_split inrange q in (c # d # a, b)))
      else if c = CHR ''*'' \<and> \<not> inrange then ([], c # p)
      else (let (a, b) = scan_split (if c = CHR ''['' then True
                                     else if c = CHR '']'' then False else inrange) p
            in (c # a, b)))"

definition is_star :: "char \<Rightarrow> bool" where "is_star c \<longleftrightarrow> c = CHR ''*''"

definition scan_chunk :: "string \<Rightarrow> bool \<times> string \<times> string" where
  "scan_chunk p = (p \<noteq> [] \<and> is_star (hd p), scan_split False (dropWhile is_star p))"

lemma scan_split_append: "scan_split b p = (x, y) \<Longrightarrow> p = x @ y"
  by (induction b p arbitrary: x y rule: scan_split.induct)
     (auto simp: Let_def split: if_splits list.splits prod.splits)

lemma scan_split_Nil: "scan_split False p = ([], y) \<Longrightarrow> p = [] \<or> is_star (hd p)"
  by (cases p) (auto simp: Let_def is_star_def split: if_splits list.splits prod.splits)

lemma dropWhile_hd: "dropWhile P p = p \<Longrightarrow> p = [] \<or> \<not> P (hd p)"
  by (metis hd_dropWhile)

lemma scan_chunk_shorter:
  assumes "scan_chunk p = (st, chunk, rest)" and "p \<noteq> []"
  shows "length rest < length p"
proof -
  let ?d = "dropWhile is_star p"
  from assms have sp: "scan_split False ?d = (chunk, rest)" by (simp add: scan_chunk_def)
  then have d: "?d = chunk @ rest" by (rule scan_split_append)
  have le: "length ?d \<le> length p" by (rule length_dropWhile_le)
  show ?thesis
  proof (cases "chunk = []")
    case True
    with sp have "?d = [] \<or> is_star (hd ?d)" using scan_split_Nil by blast
    then have "?d = []" by (metis hd_dropWhile)
    with d assms(2) show ?thesis by simp
  next
    case False
    with d have "length rest < length ?d" by simp
    with le show ?thesis by simp
  qed
qed

text \<open>A star skips bytes of the name up to its next slash.\<close>

fun star_try :: "string \<Rightarrow> bool \<Rightarrow> string \<Rightarrow> string option option" where
  "star_try chunk last_chunk [] = Some None"
| "star_try chunk last_chunk (c # name) =
     (if c = CHR ''/'' then Some None
      else case match_chunk False chunk name of
        None \<Rightarrow> None
      | Some None \<Rightarrow> star_try chunk last_chunk name
      | Some (Some t) \<Rightarrow>
          if last_chunk \<and> t \<noteq> [] then star_try chunk last_chunk name else Some (Some t))"

text \<open>After a failure only the syntax of the rest of the pattern is read.\<close>

function syntax_only :: "string \<Rightarrow> bool option" where
  "syntax_only p =
     (if p = [] then Some False
      else case scan_chunk p of (_, chunk, rest) \<Rightarrow>
        (case match_chunk False chunk [] of None \<Rightarrow> None | Some _ \<Rightarrow> syntax_only rest))"
  by pat_completeness auto
termination
  by (relation "measure length") (auto dest: scan_chunk_shorter [OF sym])

declare syntax_only.simps [simp del]

function path_match :: "string \<Rightarrow> string \<Rightarrow> bool option" where
  "path_match p name =
     (if p = [] then Some (name = [])
      else case scan_chunk p of (star, chunk, rest) \<Rightarrow>
        if star \<and> chunk = [] then Some (CHR ''/'' \<notin> set name)
        else case match_chunk False chunk name of
          None \<Rightarrow> None
        | Some r \<Rightarrow>
            (if r \<noteq> None \<and> (the r = [] \<or> rest \<noteq> []) then path_match rest (the r)
             else if star then
               (case star_try chunk (rest = []) name of
                  None \<Rightarrow> None
                | Some None \<Rightarrow> syntax_only rest
                | Some (Some t) \<Rightarrow> path_match rest t)
             else syntax_only rest))"
  by pat_completeness auto
termination
  by (relation "measure (\<lambda>(p, name). length p)") (auto dest: scan_chunk_shorter [OF sym])

declare path_match.simps [simp del]

section \<open>A pattern without classes never crosses a slash\<close>

definition slashes :: "string \<Rightarrow> nat" where
  "slashes s = count_list s CHR ''/''"

lemma slashes_append [simp]: "slashes (s @ t) = slashes s + slashes t"
  by (simp add: slashes_def)

lemma slashes_Nil [simp]: "slashes [] = 0"
  by (simp add: slashes_def)

lemma slashes_Cons: "slashes (c # s) = (if c = CHR ''/'' then 1 else 0) + slashes s"
  by (simp add: slashes_def)

lemma slashes_0: "slashes s = 0 \<longleftrightarrow> CHR ''/'' \<notin> set s"
  by (simp add: slashes_def count_list_0_iff)

lemma slashes_stars: "slashes (dropWhile is_star p) = slashes p"
  by (induction p) (auto simp: slashes_Cons is_star_def)

lemma match_chunk_failed: "match_chunk True chunk s \<noteq> Some (Some t)"
proof (induction "length chunk" arbitrary: chunk s rule: less_induct)
  case less
  show ?case
  proof (cases chunk)
    case Nil
    then show ?thesis by (simp add: match_chunk.simps(1))
  next
    case (Cons c k)
    have sub: "match_chunk True q u \<noteq> Some (Some t)" if "length q \<le> length k" for q u
      using less.hyps that Cons by simp
    have rest: "length q \<le> length k" if "class_ranges r 0 False (snd (strip_negation k)) = Some (m, q)"
      for r m q
      using class_ranges_shorter [OF that] strip_negation_length [of k]
      by (metis less_imp_le order.trans prod.collapse)
    show ?thesis
    proof (cases "c = CHR ''[''")
      case True
      show ?thesis
      proof (cases "class_ranges 0 0 False (snd (strip_negation k))")
        case None
        with Cons True show ?thesis by (simp add: match_chunk.simps(2))
      next
        case (Some x)
        then obtain m q where x: "class_ranges 0 0 False (snd (strip_negation k)) = Some (m, q)"
          by (cases x) simp
        with Cons True sub [OF rest [OF x]] show ?thesis by (simp add: match_chunk.simps(2))
      qed
    next
      case False
      have *: "match_chunk True k u \<noteq> Some (Some t)" "match_chunk True (tl k) u \<noteq> Some (Some t)" for u
        by (simp_all add: sub)
      have "match_chunk True (c # k) s \<noteq> Some (Some t)"
        by (subst match_chunk.simps(2), simp only: False * if_False if_True simp_thms split: if_split)
           (cases k, use *(2) in simp_all)
      with Cons show ?thesis by simp
    qed
  qed
qed

lemma match_chunk_cases:
  assumes "match_chunk failed (c # chunk) s = Some (Some t)" and "c \<noteq> CHR ''[''"
  obtains (any) "c = CHR ''?''" "s \<noteq> []" "hd s \<noteq> CHR ''/''"
      "match_chunk False chunk (drop (snd (decode_rune s)) s) = Some (Some t)"
  | (escaped) d q where "c = CHR 0x5C" "chunk = d # q" "s \<noteq> []" "hd s = d"
      "match_chunk False q (tl s) = Some (Some t)"
  | (same) "c \<noteq> CHR ''?''" "c \<noteq> CHR 0x5C" "s \<noteq> []" "hd s = c"
      "match_chunk False chunk (tl s) = Some (Some t)"
proof -
  have ff: "match_chunk b k u = Some (Some t) \<Longrightarrow> \<not> b" for b k u
    using match_chunk_failed by (cases b) auto
  from assms(1) have nf: "\<not> failed" by (rule ff)
  show thesis
  proof (cases "c = CHR ''?''")
    case True
    with assms nf have m: "match_chunk (s = [] \<or> hd s = CHR ''/'') chunk (drop (snd (decode_rune s)) s)
        = Some (Some t)" by (simp add: match_chunk.simps(2))
    from ff [OF m] have "s \<noteq> []" and "hd s \<noteq> CHR ''/''" by auto
    moreover from this m have "match_chunk False chunk (drop (snd (decode_rune s)) s) = Some (Some t)"
      by simp
    ultimately show thesis using True by (intro any)
  next
    case no_any: False
    show thesis
    proof (cases "c = CHR 0x5C")
      case True
      with assms nf no_any obtain d q where ch: "chunk = d # q"
        and m: "match_chunk (s = [] \<or> d \<noteq> hd s) q (tl s) = Some (Some t)"
        by (auto simp: match_chunk.simps(2) split: list.splits)
      from ff [OF m] have "s \<noteq> []" and "hd s = d" by auto
      moreover from this m have "match_chunk False q (tl s) = Some (Some t)" by simp
      ultimately show thesis using True ch by (intro escaped)
    next
      case False
      with assms nf no_any have m: "match_chunk (s = [] \<or> c \<noteq> hd s) chunk (tl s) = Some (Some t)"
        by (simp add: match_chunk.simps(2))
      from ff [OF m] have "s \<noteq> []" and "hd s = c" by auto
      moreover from this m have "match_chunk False chunk (tl s) = Some (Some t)" by simp
      ultimately show thesis using no_any False by (intro same)
    qed
  qed
qed

lemma match_chunk_slashes:
  assumes "match_chunk failed chunk s = Some (Some t)" and "CHR ''['' \<notin> set chunk"
  shows "\<exists>u. s = u @ t \<and> slashes u = slashes chunk"
  using assms
proof (induction "length chunk" arbitrary: failed chunk s rule: less_induct)
  case less
  show ?case
  proof (cases chunk)
    case Nil
    with less.prems show ?thesis by (auto simp: match_chunk.simps(1) split: if_splits)
  next
    case (Cons c k)
    with less.prems have "c \<noteq> CHR ''[''" by auto
    with less.prems(1) Cons have "match_chunk failed (c # k) s = Some (Some t)" by simp
    from this \<open>c \<noteq> CHR ''[''\<close> show ?thesis
    proof (cases rule: match_chunk_cases)
      case any
      let ?n = "snd (decode_rune s)"
      from less.hyps [OF _ any(4)] less.prems(2) Cons obtain u
        where u: "drop ?n s = u @ t" "slashes u = slashes k" by auto
      have "slashes (take ?n s) = 0" using decode_rune_no_slash any by (simp add: slashes_0)
      with u any Cons have "slashes (take ?n s @ u) = slashes chunk" by (simp add: slashes_Cons)
      moreover have "s = (take ?n s @ u) @ t" using u(1) by (metis append_assoc append_take_drop_id)
      ultimately show ?thesis by blast
    next
      case (escaped d q)
      from less.hyps [OF _ escaped(5)] less.prems(2) Cons escaped obtain u
        where u: "tl s = u @ t" "slashes u = slashes q" by auto
      with escaped Cons have "s = (d # u) @ t" by (cases s) auto
      moreover from u escaped Cons have "slashes (d # u) = slashes chunk" by (simp add: slashes_Cons)
      ultimately show ?thesis by blast
    next
      case same
      from less.hyps [OF _ same(5)] less.prems(2) Cons obtain u
        where u: "tl s = u @ t" "slashes u = slashes k" by auto
      with same have "s = (c # u) @ t" by (cases s) auto
      moreover from u Cons have "slashes (c # u) = slashes chunk" by (simp add: slashes_Cons)
      ultimately show ?thesis by blast
    qed
  qed
qed

lemma star_try_slashes:
  "star_try chunk lc name = Some (Some t) \<Longrightarrow> CHR ''['' \<notin> set chunk \<Longrightarrow>
   slashes name = slashes chunk + slashes t"
proof (induction chunk lc name rule: star_try.induct)
  case (1 chunk lc)
  then show ?case by simp
next
  case (2 chunk lc c name)
  from "2.prems" have c: "c \<noteq> CHR ''/''" by (auto split: if_splits)
  show ?case
  proof (cases "\<exists>u. match_chunk False chunk name = Some (Some u) \<and> \<not> (lc \<and> u \<noteq> [])")
    case True
    then obtain u where "match_chunk False chunk name = Some (Some u)" "\<not> (lc \<and> u \<noteq> [])" by blast
    with "2.prems" c have "match_chunk False chunk name = Some (Some t)" by simp
    from match_chunk_slashes [OF this "2.prems"(2)] c show ?thesis by (auto simp: slashes_Cons)
  next
    case False
    with "2.prems" c have "star_try chunk lc name = Some (Some t)"
      by (auto split: option.splits if_splits)
    with "2.IH" False c "2.prems" show ?thesis
      by (auto simp: slashes_Cons split: option.splits if_splits)
  qed
qed

lemma scan_chunk_parts:
  assumes "scan_chunk p = (st, chunk, rest)"
  shows "slashes p = slashes chunk + slashes rest" and "set chunk \<subseteq> set p" and "set rest \<subseteq> set p"
proof -
  from assms have d: "dropWhile is_star p = chunk @ rest"
    by (auto simp: scan_chunk_def dest: scan_split_append)
  then show "slashes p = slashes chunk + slashes rest" by (metis slashes_append slashes_stars)
  from d show "set chunk \<subseteq> set p" and "set rest \<subseteq> set p"
    by (metis set_append set_dropWhileD subsetI Un_iff)+
qed

lemma syntax_only_never: "syntax_only p \<noteq> Some True"
proof (induction p rule: syntax_only.induct)
  case (1 p)
  then show ?case by (auto simp: syntax_only.simps [of p] split: option.splits prod.splits)
qed

lemma path_match_slashes:
  "path_match p name = Some True \<Longrightarrow> CHR ''['' \<notin> set p \<Longrightarrow> slashes name = slashes p"
proof (induction "length p" arbitrary: p name rule: less_induct)
  case less
  show ?case
  proof (cases "p = []")
    case True
    with less.prems show ?thesis by (simp add: path_match.simps)
  next
    case False
    obtain st chunk rest where sc: "scan_chunk p = (st, chunk, rest)" by (metis prod_cases3)
    note parts = scan_chunk_parts [OF sc] and shorter = scan_chunk_shorter [OF sc False]
    from parts less.prems(2) have nb: "CHR ''['' \<notin> set chunk" "CHR ''['' \<notin> set rest" by auto
    have IH: "path_match rest t = Some True \<Longrightarrow> slashes t = slashes rest" for t
      using less.hyps [OF shorter _ nb(2)] by blast
    show ?thesis
    proof (cases "st \<and> chunk = []")
      case True
      then have st: "is_star (hd p)" and d: "dropWhile is_star p = rest"
        using sc by (auto simp: scan_chunk_def dest: scan_split_append)
      with sc True have "rest = [] \<or> is_star (hd rest)"
        by (auto simp: scan_chunk_def dest: scan_split_Nil)
      with d have "rest = []" by (metis hd_dropWhile)
      with parts True have "slashes p = 0" by simp
      moreover from less.prems sc False True have "slashes name = 0"
        by (simp add: path_match.simps [of p] slashes_0)
      ultimately show ?thesis by simp
    next
      case no_tail: False
      from less.prems(1) sc False no_tail obtain r where m: "match_chunk False chunk name = Some r"
        by (auto simp: path_match.simps [of p] split: option.splits)
      show ?thesis
      proof (cases "r \<noteq> None \<and> (the r = [] \<or> rest \<noteq> [])")
        case True
        then obtain t where r: "r = Some t" by blast
        with True m less.prems(1) sc False no_tail have "path_match rest t = Some True"
          by (auto simp: path_match.simps [of p])
        moreover from match_chunk_slashes m r nb(1) have "slashes name = slashes chunk + slashes t"
          by fastforce
        ultimately show ?thesis using IH parts(1) by simp
      next
        case no_match: False
        with m less.prems(1) sc False no_tail syntax_only_never [of rest]
        obtain t where "star_try chunk (rest = []) name = Some (Some t)" "path_match rest t = Some True"
          by (simp add: path_match.simps [of p] split: if_splits option.splits)
        with star_try_slashes nb(1) IH parts(1) show ?thesis by fastforce
      qed
    qed
  qed
qed

section \<open>A pattern without special bytes matches itself\<close>

definition plain_char :: "char \<Rightarrow> bool" where
  "plain_char c \<longleftrightarrow> c \<noteq> CHR ''*'' \<and> c \<noteq> CHR ''?'' \<and> c \<noteq> CHR ''['' \<and> c \<noteq> CHR 0x5C"

lemma match_chunk_plain:
  "\<forall>c \<in> set chunk. plain_char c \<Longrightarrow>
   match_chunk failed chunk s =
     Some (if \<not> failed \<and> has_prefix s chunk then Some (drop (length chunk) s) else None)"
proof (induction chunk arbitrary: failed s)
  case Nil
  then show ?case by (simp add: match_chunk.simps(1) has_prefix_def)
next
  case (Cons c chunk)
  then have c: "plain_char c" and IH: "\<And>f s. match_chunk f chunk s =
     Some (if \<not> f \<and> has_prefix s chunk then Some (drop (length chunk) s) else None)" by auto
  show ?case using c
    by (cases s) (auto simp: match_chunk.simps(2) IH plain_char_def has_prefix_def)
qed

lemma scan_split_plain: "\<forall>c \<in> set p. plain_char c \<Longrightarrow> scan_split False p = (p, [])"
proof (induction p)
  case Nil
  then show ?case by simp
next
  case (Cons c p)
  then show ?case by (simp add: plain_char_def)
qed

lemma path_match_plain:
  assumes "\<forall>c \<in> set p. plain_char c"
  shows "path_match p name = Some (name = p)"
proof (cases "p = []")
  case True
  then show ?thesis by (simp add: path_match.simps)
next
  case False
  with assms have "\<not> is_star (hd p)" by (auto simp: plain_char_def is_star_def)
  with assms False have sc: "scan_chunk p = (False, p, [])"
    by (simp add: scan_chunk_def dropWhile_ident scan_split_plain)
  have "has_prefix name p \<and> drop (length p) name = [] \<longleftrightarrow> name = p"
    by (auto simp: has_prefix_iff)
  then show ?thesis using False
    by (auto simp: path_match.simps [of p] sc match_chunk_plain [OF assms] path_match.simps [of "[]"]
          syntax_only.simps [of "[]"])
qed

end
