(* ===== verification/GitPolicy.thy ===== *)
theory GitPolicy
  imports GoPath
begin

text \<open>
  The policy of a git proxy session (pkg/gitproxy/policy.go, the object name shapes of
  receivepack.go, and the two naming rules a write-back branch meets: the executor's
  \<open>ValidateWriteBackBranch\<close> and the proxy's \<open>ValidateRefName\<close>).

  A policy is deny-by-default: an allowlist of ref patterns, a second one that only narrows, and
  one authority each for creating, updating and deleting. Errors are values; the prose of a
  refusal is kept where the code keeps it (\<open>RefDenial\<close>), since \<open>Decision.Reason\<close> renders it.
\<close>

section \<open>Data\<close>

datatype DenyReason =
    DenyRefNotAllowed | DenyDelete | DenyCreate | DenyUpdate | DenyNoWrite | DenyTooManyCommands
  | DenyPushCert | DenySecretInPush | DenyScanLimit | DenyUnreadablePack

record RefDenial =
  denial_reason :: DenyReason
  denial_message :: string
  denial_ref :: string

definition ErrRefDenied :: string where
  "ErrRefDenied = ''ref update denied by policy''"

definition denial_error :: "RefDenial \<Rightarrow> string" where
  "denial_error d =
     (if denial_ref d \<noteq> [] then ErrRefDenied @ '': '' @ denial_ref d @ '' is '' @ denial_message d
      else ErrRefDenied @ '': '' @ denial_message d)"

record Policy =
  AllowedRefs :: "string list"
  AllowCreate :: bool
  AllowUpdate :: bool
  AllowDelete :: bool
  AllowFetch :: bool
  MaxCommands :: int
  MaxPackBytes :: int
  RestrictRefs :: "string list"

record RefUpdate =
  upd_old :: string
  upd_new :: string
  upd_ref :: string

definition MaxRefPatterns :: nat where "MaxRefPatterns = 256"
definition DefaultMaxCommands :: int where "DefaultMaxCommands = 16"
definition DefaultMaxPackBytes :: int where "DefaultMaxPackBytes = 2 * 1024 * 1024 * 1024"

definition WriteBackBranchPrefix :: string where "WriteBackBranchPrefix = ''cloop/''"

definition DefaultAllowedRef :: string where
  "DefaultAllowedRef = ''refs/heads/'' @ WriteBackBranchPrefix @ ''**''"

definition zero_policy :: Policy where
  "zero_policy = \<lparr>AllowedRefs = [], AllowCreate = False, AllowUpdate = False, AllowDelete = False,
     AllowFetch = False, MaxCommands = 0, MaxPackBytes = 0, RestrictRefs = []\<rparr>"

definition IsZero :: "Policy \<Rightarrow> bool" where
  "IsZero p \<longleftrightarrow> AllowedRefs p = [] \<and> RestrictRefs p = [] \<and> \<not> AllowCreate p \<and>
     \<not> AllowUpdate p \<and> \<not> AllowDelete p \<and> \<not> AllowFetch p"

definition WriteBackPolicy :: Policy where
  "WriteBackPolicy = zero_policy\<lparr>AllowedRefs := [DefaultAllowedRef], AllowCreate := True,
     AllowUpdate := True\<rparr>"

section \<open>Normalisation\<close>

definition normalizeRefPattern :: "string \<Rightarrow> string" where
  "normalizeRefPattern raw =
     (let pat = trim_space raw in
      if pat = [] then []
      else if has_prefix pat ''refs/'' then pat
      else ''refs/heads/'' @ trim_prefix pat ''/'')"

text \<open>The loop both allowlists run: the patterns kept so far are exactly the ones seen.\<close>

fun normalize_loop :: "string list \<Rightarrow> string list \<Rightarrow> string list" where
  "normalize_loop out [] = out"
| "normalize_loop out (raw # rest) =
     (let pat = normalizeRefPattern raw in
      if pat = [] \<or> pat \<in> set out then normalize_loop out rest
      else normalize_loop (out @ [pat]) rest)"

definition normalizeRefPatterns :: "string list \<Rightarrow> string list" where
  "normalizeRefPatterns xs =
     (if xs = [] then []
      else let out = normalize_loop [] xs in if out = [] then [[]] else out)"

definition Normalize_policy :: "Policy \<Rightarrow> Policy" where
  "Normalize_policy p =
     (let refs = (if AllowedRefs p = [] then [DefaultAllowedRef] else AllowedRefs p) in
      p\<lparr>AllowedRefs := normalize_loop [] refs,
        RestrictRefs := normalizeRefPatterns (RestrictRefs p),
        MaxCommands := (if MaxCommands p \<le> 0 then DefaultMaxCommands else MaxCommands p),
        MaxPackBytes := (if MaxPackBytes p \<le> 0 then DefaultMaxPackBytes else MaxPackBytes p)\<rparr>)"

section \<open>Validation\<close>

datatype pattern_error =
    NotUnderRefs | HasDotDot | HasEmptyComponent | EndsWithSlash | HasControlOrSpace | NotAGlob

datatype policy_error =
    NoPatterns
  | TooManyPatterns nat
  | PermitsNothing
  | BadRefPattern string pattern_error
  | TooManyRestrictions nat
  | BadRestriction string pattern_error

definition control_or_space :: "char \<Rightarrow> bool" where
  "control_or_space c \<longleftrightarrow> byte_val c < 32 \<or> byte_val c = 127 \<or> c = CHR '' ''"

definition trim_suffix :: "string \<Rightarrow> string \<Rightarrow> string" where
  "trim_suffix s suf = (case cut_suffix s suf of Some r \<Rightarrow> r | None \<Rightarrow> s)"

definition validateRefPattern :: "string \<Rightarrow> pattern_error option" where
  "validateRefPattern pat =
     (if \<not> has_prefix pat ''refs/'' then Some NotUnderRefs
      else if contains pat ''..'' then Some HasDotDot
      else if contains pat ''//'' then Some HasEmptyComponent
      else if has_suffix pat ''/'' then Some EndsWithSlash
      else if list_ex control_or_space pat then Some HasControlOrSpace
      else if path_match (trim_suffix pat ''/**'') ''refs/heads/probe'' = None then Some NotAGlob
      else None)"

fun first_bad :: "string list \<Rightarrow> (string \<times> pattern_error) option" where
  "first_bad [] = None"
| "first_bad (pat # rest) =
     (case validateRefPattern pat of Some e \<Rightarrow> Some (pat, e) | None \<Rightarrow> first_bad rest)"

definition Validate :: "Policy \<Rightarrow> policy_error option" where
  "Validate p =
     (if AllowedRefs p = [] then Some NoPatterns
      else if length (AllowedRefs p) > MaxRefPatterns then Some (TooManyPatterns (length (AllowedRefs p)))
      else if \<not> AllowCreate p \<and> \<not> AllowUpdate p \<and> \<not> AllowDelete p \<and> \<not> AllowFetch p
        then Some PermitsNothing
      else case first_bad (AllowedRefs p) of
        Some (pat, e) \<Rightarrow> Some (BadRefPattern pat e)
      | None \<Rightarrow>
          if length (RestrictRefs p) > MaxRefPatterns
          then Some (TooManyRestrictions (length (RestrictRefs p)))
          else (case first_bad (RestrictRefs p) of
                  Some (pat, e) \<Rightarrow> Some (BadRestriction pat e)
                | None \<Rightarrow> None))"

text \<open>The policy a session is minted with (the policy part of \<open>Registry.Mint\<close>).\<close>

definition mint_policy :: "Policy \<Rightarrow> policy_error + Policy" where
  "mint_policy req =
     (let pol = Normalize_policy (if IsZero req then WriteBackPolicy else req) in
      case Validate pol of Some e \<Rightarrow> Inl e | None \<Rightarrow> Inr pol)"

section \<open>Matching and deciding\<close>

definition matchRefPattern :: "string \<Rightarrow> string \<Rightarrow> bool" where
  "matchRefPattern pat ref =
     (case cut_suffix pat ''/**'' of
        Some pre \<Rightarrow> has_prefix ref (pre @ ''/'')
      | None \<Rightarrow> path_match pat ref = Some True)"

fun matchAnyRefPattern :: "string list \<Rightarrow> string \<Rightarrow> bool" where
  "matchAnyRefPattern [] ref = False"
| "matchAnyRefPattern (pat # pats) ref = (matchRefPattern pat ref \<or> matchAnyRefPattern pats ref)"

definition AllowsRef :: "Policy \<Rightarrow> string \<Rightarrow> bool" where
  "AllowsRef p ref \<longleftrightarrow> matchAnyRefPattern (AllowedRefs p) ref \<and>
     (RestrictRefs p = [] \<or> matchAnyRefPattern (RestrictRefs p) ref)"

definition Restricted :: "Policy \<Rightarrow> bool" where
  "Restricted p \<longleftrightarrow> length (RestrictRefs p) > 0"

definition RefSummary :: "Policy \<Rightarrow> string" where
  "RefSummary p = join '','' (AllowedRefs p) @
     (if Restricted p then '' narrowed to '' @ join '','' (RestrictRefs p) else [])"

definition isZeroSHA :: "string \<Rightarrow> bool" where
  "isZeroSHA s \<longleftrightarrow> (length s = 40 \<or> length s = 64) \<and>
     dropWhile (\<lambda>c. c = CHR ''0'') (rev (dropWhile (\<lambda>c. c = CHR ''0'') s)) = []"

definition IsCreate :: "RefUpdate \<Rightarrow> bool" where
  "IsCreate u \<longleftrightarrow> isZeroSHA (upd_old u) \<and> \<not> isZeroSHA (upd_new u)"

definition IsDelete :: "RefUpdate \<Rightarrow> bool" where
  "IsDelete u \<longleftrightarrow> isZeroSHA (upd_new u)"

definition IsUpdate :: "RefUpdate \<Rightarrow> bool" where
  "IsUpdate u \<longleftrightarrow> \<not> isZeroSHA (upd_old u) \<and> \<not> isZeroSHA (upd_new u)"

definition Action :: "RefUpdate \<Rightarrow> string" where
  "Action u = (if IsDelete u then ''delete'' else if IsCreate u then ''create'' else ''update'')"

definition plain_denial :: "DenyReason \<Rightarrow> string \<Rightarrow> RefDenial" where
  "plain_denial r m = \<lparr>denial_reason = r, denial_message = m, denial_ref = []\<rparr>"

definition Decide :: "Policy \<Rightarrow> RefUpdate \<Rightarrow> RefDenial option" where
  "Decide p u =
     (if \<not> matchAnyRefPattern (AllowedRefs p) (upd_ref u) then
        Some \<lparr>denial_reason = DenyRefNotAllowed,
              denial_message = ''not in this session's branch allowlist ('' @
                join '', '' (AllowedRefs p) @ '')'',
              denial_ref = upd_ref u\<rparr>
      else if Restricted p \<and> \<not> matchAnyRefPattern (RestrictRefs p) (upd_ref u) then
        Some \<lparr>denial_reason = DenyRefNotAllowed,
              denial_message = ''outside the branches this session's grant may push to ('' @
                join '', '' (RestrictRefs p) @ '')'',
              denial_ref = upd_ref u\<rparr>
      else if IsDelete u \<and> \<not> AllowDelete p then
        Some (plain_denial DenyDelete ''this session may not delete refs'')
      else if IsCreate u \<and> \<not> AllowCreate p then
        Some (plain_denial DenyCreate ''this session may not create refs'')
      else if IsUpdate u \<and> \<not> AllowUpdate p then
        Some (plain_denial DenyUpdate ''this session may not update existing refs'')
      else None)"

type_synonym Decision = "RefUpdate \<times> RefDenial option"

definition Allowed :: "Decision \<Rightarrow> bool" where
  "Allowed d \<longleftrightarrow> snd d = None"

definition elide :: "string \<Rightarrow> string" where
  "elide s = (if length s \<le> 120 then s else take 120 s @ [CHR 0xE2, CHR 0x80, CHR 0xA6])"

definition Reason :: "Decision \<Rightarrow> string" where
  "Reason d =
     (case snd d of
        None \<Rightarrow> []
      | Some e \<Rightarrow>
          let msg = (if denial_ref e \<noteq> [] then denial_message e
                     else trim_prefix (denial_error e) (ErrRefDenied @ '': ''))
          in elide (join '' '' (go_fields msg)))"

fun decide_loop :: "Policy \<Rightarrow> Decision list \<times> bool \<Rightarrow> RefUpdate list \<Rightarrow> Decision list \<times> bool" where
  "decide_loop p (out, ok) [] = (out, ok)"
| "decide_loop p (out, ok) (c # cmds) =
     (let err = Decide p c in
      decide_loop p (out @ [(c, err)], if err \<noteq> None then False else ok) cmds)"

definition DecideAll :: "Policy \<Rightarrow> RefUpdate list \<Rightarrow> Decision list \<times> bool" where
  "DecideAll p cmds = decide_loop p ([], True) cmds"

definition canWrite :: "Policy \<Rightarrow> bool" where
  "canWrite p \<longleftrightarrow> AllowCreate p \<or> AllowUpdate p \<or> AllowDelete p"

section \<open>Ref names\<close>

datatype ref_name_error =
    RefEmpty | RefTooLong nat | RefNoPrefix | RefBadEnd | RefBadSequence | RefControl
  | RefForbiddenChar char | RefEmptyComponent | RefDotComponent | RefLockComponent

definition git_forbidden :: "char \<Rightarrow> bool" where
  "git_forbidden c \<longleftrightarrow> c \<in> {CHR '' '', CHR ''~'', CHR ''^'', CHR '':'', CHR ''?'', CHR ''*'', CHR ''[''}"

definition control_char :: "char \<Rightarrow> bool" where
  "control_char c \<longleftrightarrow> byte_val c < 32 \<or> byte_val c = 127"

fun check_ref_bytes :: "string \<Rightarrow> ref_name_error option" where
  "check_ref_bytes [] = None"
| "check_ref_bytes (c # s) =
     (if control_char c then Some RefControl
      else if git_forbidden c then Some (RefForbiddenChar c)
      else check_ref_bytes s)"

fun check_components :: "string list \<Rightarrow> ref_name_error option" where
  "check_components [] = None"
| "check_components (part # parts) =
     (if part = [] then Some RefEmptyComponent
      else if has_prefix part ''.'' then Some RefDotComponent
      else if has_suffix part ''.lock'' then Some RefLockComponent
      else check_components parts)"

definition ValidateRefName :: "string \<Rightarrow> ref_name_error option" where
  "ValidateRefName ref =
     (if ref = [] then Some RefEmpty
      else if length ref > 1024 then Some (RefTooLong (length ref))
      else if \<not> has_prefix ref ''refs/'' then Some RefNoPrefix
      else if has_suffix ref ''/'' \<or> has_suffix ref ''.'' then Some RefBadEnd
      else if contains ref ''..'' \<or> contains ref ''//'' \<or> contains ref [CHR ''@'', CHR ''{''] \<or> contains ref [CHR 0x5C]
        then Some RefBadSequence
      else case check_ref_bytes ref of
        Some e \<Rightarrow> Some e
      | None \<Rightarrow> check_components (split_on CHR ''/'' ref))"

section \<open>The executor's rules for a write-back branch\<close>

datatype branch_error =
    BranchEmpty | BranchTooLong nat | BranchOutsideNamespace | BranchFullRef | BranchRefTooLong nat
  | BranchDash | BranchControl | BranchForbiddenChar | BranchDotDot | BranchDoubleSlash | BranchAtBrace
  | BranchBadEnd | BranchAt | BranchEmptyElement | BranchDotElement

definition MaxWriteBackBranchLen :: nat where "MaxWriteBackBranchLen = 200"
definition MaxWorkspaceRefLen :: nat where "MaxWorkspaceRefLen = 255"

fun check_branch_bytes :: "string \<Rightarrow> branch_error option" where
  "check_branch_bytes [] = None"
| "check_branch_bytes (c # s) =
     (if control_char c then Some BranchControl
      else if git_forbidden c \<or> c = CHR 0x5C then Some BranchForbiddenChar
      else check_branch_bytes s)"

definition validateGitRef :: "string \<Rightarrow> branch_error option" where
  "validateGitRef raw =
     (let ref = trim_space raw in
      if ref = [] then None
      else if length ref > MaxWorkspaceRefLen then Some (BranchRefTooLong (length ref))
      else if has_prefix ref ''-'' then Some BranchDash
      else case check_branch_bytes ref of
        Some e \<Rightarrow> Some e
      | None \<Rightarrow>
          if contains ref ''..'' then Some BranchDotDot
          else if contains ref ''//'' then Some BranchDoubleSlash
          else if contains ref [CHR ''@'', CHR ''{''] then Some BranchAtBrace
          else if has_suffix ref ''.lock'' \<or> has_suffix ref ''/'' \<or> has_suffix ref ''.''
            then Some BranchBadEnd
          else if ref = ''@'' then Some BranchAt
          else None)"

fun check_elements :: "string list \<Rightarrow> branch_error option" where
  "check_elements [] = None"
| "check_elements (e # es) =
     (if e = [] then Some BranchEmptyElement
      else if has_prefix e ''.'' then Some BranchDotElement
      else check_elements es)"

definition ValidateWriteBackBranch :: "string \<Rightarrow> branch_error option" where
  "ValidateWriteBackBranch branch =
     (let b = trim_space branch in
      if b = [] then Some BranchEmpty
      else if length b > MaxWriteBackBranchLen then Some (BranchTooLong (length b))
      else if \<not> has_prefix b WriteBackBranchPrefix then Some BranchOutsideNamespace
      else if has_prefix b ''refs/'' then Some BranchFullRef
      else case validateGitRef b of
        Some e \<Rightarrow> Some e
      | None \<Rightarrow> check_elements (split_on CHR ''/'' b))"

section \<open>Lemmas: normalisation\<close>

lemma matchAny_iff: "matchAnyRefPattern pats ref \<longleftrightarrow> (\<exists>pat \<in> set pats. matchRefPattern pat ref)"
  by (induction pats) auto

lemma trim_space_no_lead: "trim_space s \<noteq> [] \<Longrightarrow> \<not> is_space (hd (trim_space s))"
proof -
  assume ne: "trim_space s \<noteq> []"
  let ?d = "dropWhile is_space s"
  have "\<exists>r. ?d = trim_space s @ r"
    unfolding trim_space_def by (metis rev_append rev_rev_ident takeWhile_dropWhile_id)
  with ne have "hd ?d = hd (trim_space s)" and "?d \<noteq> []" by (metis hd_append2, force)
  then show ?thesis by (metis hd_dropWhile)
qed

lemma trim_space_suffix:
  assumes "p \<noteq> []" and "\<not> is_space (hd p)" and "q \<noteq> [] \<Longrightarrow> \<not> is_space (last q)"
    and "\<not> is_space (last p)"
  shows "trim_space (p @ q) = p @ q"
  by (rule trim_space_ident) (use assms in \<open>auto simp: hd_append last_append\<close>)

lemma trim_space_Nil [simp]: "trim_space [] = []"
  by (simp add: trim_space_def)

lemma normalizeRefPattern_Nil: "normalizeRefPattern raw = [] \<longleftrightarrow> trim_space raw = []"
  by (auto simp: normalizeRefPattern_def Let_def)

lemma is_space_slash: "\<not> is_space CHR ''/''" "\<not> is_space CHR ''r''"
  by (simp_all add: is_space_def byte_val_def)

lemma normalizeRefPattern_prefix:
  "normalizeRefPattern raw \<noteq> [] \<Longrightarrow> has_prefix (normalizeRefPattern raw) ''refs/''"
  by (auto simp: normalizeRefPattern_def Let_def has_prefix_def)

lemma normalizeRefPattern_idem: "normalizeRefPattern (normalizeRefPattern raw) = normalizeRefPattern raw"
proof (cases "trim_space raw = [] \<or> has_prefix (trim_space raw) ''refs/''")
  case True
  then show ?thesis by (auto simp: normalizeRefPattern_def Let_def)
next
  case False
  let ?t = "trim_space raw"
  let ?q = "trim_prefix ?t ''/''"
  have n: "normalizeRefPattern raw = ''refs/heads/'' @ ?q"
    using False by (simp add: normalizeRefPattern_def Let_def)
  have "\<exists>a. ?t = a @ ?q" unfolding trim_prefix_def by (metis append_Nil append_take_drop_id)
  moreover have "\<not> is_space (last ?t)" using False trim_space_last by blast
  ultimately have "?q \<noteq> [] \<Longrightarrow> \<not> is_space (last ?q)" by (metis last_append)
  then have "trim_space (''refs/heads/'' @ ?q) = ''refs/heads/'' @ ?q"
    by (intro trim_space_suffix) (simp_all add: is_space_slash)
  with n have "trim_space (normalizeRefPattern raw) = normalizeRefPattern raw" by metis
  moreover have "has_prefix (normalizeRefPattern raw) ''refs/''" by (simp add: n has_prefix_def)
  moreover have "normalizeRefPattern raw \<noteq> []" by (simp add: n)
  ultimately show ?thesis
    by (simp add: normalizeRefPattern_def [of "normalizeRefPattern raw"] Let_def)
qed

definition is_normal :: "string \<Rightarrow> bool" where
  "is_normal x \<longleftrightarrow> normalizeRefPattern x = x \<and> x \<noteq> []"

lemma is_normal_normalize: "normalizeRefPattern raw \<noteq> [] \<Longrightarrow> is_normal (normalizeRefPattern raw)"
  by (simp add: is_normal_def normalizeRefPattern_idem)

lemma normalize_loop_keeps:
  "list_all is_normal xs \<Longrightarrow> distinct (out @ xs) \<Longrightarrow> normalize_loop out xs = out @ xs"
proof (induction xs arbitrary: out)
  case Nil
  then show ?case by simp
next
  case (Cons x xs)
  then have "normalizeRefPattern x = x" and "x \<noteq> []" and "x \<notin> set out" by (auto simp: is_normal_def)
  moreover have "normalize_loop (out @ [x]) xs = (out @ [x]) @ xs" using Cons by (intro Cons.IH) auto
  ultimately show ?case by simp
qed

lemma normalize_loop_out:
  "list_all is_normal out \<Longrightarrow> distinct out \<Longrightarrow>
   list_all is_normal (normalize_loop out xs) \<and> distinct (normalize_loop out xs)"
  by (induction xs arbitrary: out) (auto simp: Let_def is_normal_normalize)

lemma normalize_loop_idem: "normalize_loop [] (normalize_loop [] xs) = normalize_loop [] xs"
  using normalize_loop_keeps [of "normalize_loop [] xs" "[]"] normalize_loop_out [of "[]" xs] by simp

lemma normalize_loop_set: "set (normalize_loop out xs) = set out \<union> (normalizeRefPattern ` set xs - {[]})"
  by (induction xs arbitrary: out) (auto simp: Let_def)

lemma normalize_loop_Nil: "normalize_loop [] xs = [] \<longleftrightarrow> filter (\<lambda>r. trim_space r \<noteq> []) xs = []"
proof -
  have "normalize_loop [] xs = [] \<longleftrightarrow> normalizeRefPattern ` set xs - {[]} = {}"
    using normalize_loop_set [of "[]" xs] by (metis Un_empty_left set_empty list.set(1))
  also have "\<dots> \<longleftrightarrow> filter (\<lambda>r. trim_space r \<noteq> []) xs = []"
    by (auto simp: filter_empty_conv normalizeRefPattern_Nil)
  finally show ?thesis .
qed

lemma normalizeRefPatterns_idem: "normalizeRefPatterns (normalizeRefPatterns xs) = normalizeRefPatterns xs"
  by (auto simp: normalizeRefPatterns_def Let_def normalize_loop_idem normalizeRefPattern_Nil)

lemma default_ref_pattern: "normalizeRefPattern DefaultAllowedRef = DefaultAllowedRef" "DefaultAllowedRef \<noteq> []"
  by code_simp+

lemma default_ref_normal: "normalize_loop [] [DefaultAllowedRef] = [DefaultAllowedRef]"
  by (simp add: default_ref_pattern Let_def)

lemma normalize_limits: "(if (if n \<le> 0 then d else n) \<le> 0 then d else (if n \<le> 0 then d else n))
    = (if n \<le> (0::int) then d else n)"
  by auto

lemma Normalize_twice:
  "Normalize_policy (Normalize_policy p) =
     (if normalize_loop [] (AllowedRefs (Normalize_policy p)) = [] \<and> AllowedRefs (Normalize_policy p) = []
      then (Normalize_policy p)\<lparr>AllowedRefs := [DefaultAllowedRef]\<rparr> else Normalize_policy p)"
  by (cases p)
     (auto simp: Normalize_policy_def Let_def normalizeRefPatterns_idem normalize_loop_idem default_ref_pattern
       DefaultMaxCommands_def DefaultMaxPackBytes_def)

lemma AllowedRefs_Normalize_Nil:
  "AllowedRefs (Normalize_policy p) = [] \<longleftrightarrow>
     AllowedRefs p \<noteq> [] \<and> filter (\<lambda>r. trim_space r \<noteq> []) (AllowedRefs p) = []"
  by (simp add: Normalize_policy_def Let_def default_ref_pattern normalize_loop_Nil [symmetric])

section \<open>Lemmas: deciding\<close>

lemma Decide_None:
  "Decide p u = None \<longleftrightarrow> AllowsRef p (upd_ref u) \<and>
     (if IsDelete u then AllowDelete p else if IsCreate u then AllowCreate p else AllowUpdate p)"
  by (auto simp: Decide_def AllowsRef_def Restricted_def IsDelete_def IsCreate_def IsUpdate_def)

lemma decide_loop_result:
  "decide_loop p (out, ok) cmds =
     (out @ map (\<lambda>c. (c, Decide p c)) cmds, ok \<and> (\<forall>c \<in> set cmds. Decide p c = None))"
  by (induction cmds arbitrary: out ok) (auto simp: Let_def)

lemma DecideAll_result:
  "DecideAll p cmds = (map (\<lambda>c. (c, Decide p c)) cmds, list_all (\<lambda>c. Decide p c = None) cmds)"
  by (simp add: DecideAll_def decide_loop_result list_all_iff)

lemma default_pattern_match: "matchRefPattern DefaultAllowedRef ref = has_prefix ref ''refs/heads/cloop/''"
proof -
  have "cut_suffix DefaultAllowedRef ''/**'' = Some ''refs/heads/cloop''" by code_simp
  then show ?thesis by (simp add: matchRefPattern_def)
qed

lemma mint_zero:
  "mint_policy zero_policy =
     Inr (WriteBackPolicy\<lparr>MaxCommands := DefaultMaxCommands, MaxPackBytes := DefaultMaxPackBytes\<rparr>)"
  by code_simp

section \<open>Lemmas: ref names\<close>

lemma check_ref_bytes_None:
  "check_ref_bytes s = None \<longleftrightarrow> (\<forall>c \<in> set s. \<not> control_char c \<and> \<not> git_forbidden c)"
  by (induction s) auto

lemma check_branch_bytes_None:
  "check_branch_bytes s = None \<longleftrightarrow>
     (\<forall>c \<in> set s. \<not> control_char c \<and> \<not> git_forbidden c \<and> c \<noteq> CHR 0x5C)"
  by (induction s) auto

lemma contains_single: "contains s [c] \<longleftrightarrow> c \<in> set s"
  by (metis append_Cons append_Nil contains_iff in_set_conv_decomp)

lemma has_suffix_single: "s \<noteq> [] \<Longrightarrow> has_suffix s [c] \<longleftrightarrow> last s = c"
  by (metis append_butlast_last_id has_suffix_iff last_snoc)

lemma ValidateRefName_bytes:
  "ValidateRefName ref = None \<Longrightarrow> c \<in> set ref \<Longrightarrow> \<not> control_char c \<and> \<not> git_forbidden c"
  by (auto simp: ValidateRefName_def check_ref_bytes_None [symmetric] split: if_splits option.splits)
     (metis check_ref_bytes_None)+

lemma check_elements_components:
  "check_elements xs = None \<Longrightarrow>
   check_components xs = (if list_ex (\<lambda>x. has_suffix x ''.lock'') xs then Some RefLockComponent else None)"
  by (induction xs) (auto split: if_splits)

section \<open>The properties\<close>

text \<open>a session minted from the zero request permits an update exactly when its ref lies
  strictly below refs/heads/cloop/ and it does not delete the ref: every other branch of the
  repository, main included, and every deletion is refused, whatever a sandbox sends.\<close>

theorem write_back_session_is_confined:
  "case mint_policy zero_policy of
     Inl e \<Rightarrow> False
   | Inr p \<Rightarrow> Decide p u = None \<longleftrightarrow>
       has_prefix (upd_ref u) ''refs/heads/cloop/'' \<and> \<not> IsDelete u"
  unfolding mint_zero
  by (simp add: Decide_None AllowsRef_def WriteBackPolicy_def zero_policy_def default_pattern_match)

text \<open>an update is permitted exactly when its ref clears both allowlists and the policy holds
  the one authority the shape of its object names needs: delete, create or update.\<close>

theorem decide_iff_authorised:
  "Decide p u = None \<longleftrightarrow>
     (\<exists>pat \<in> set (AllowedRefs p). matchRefPattern pat (upd_ref u)) \<and>
     (if RestrictRefs p = [] then True
      else \<exists>pat \<in> set (RestrictRefs p). matchRefPattern pat (upd_ref u)) \<and>
     (case Action u of
        [] \<Rightarrow> False
      | c # _ \<Rightarrow> if c = CHR ''d'' then AllowDelete p
                 else if c = CHR ''c'' then AllowCreate p else AllowUpdate p)"
  by (auto simp: Decide_None AllowsRef_def matchAny_iff Action_def)

text \<open>Normalize_policy changes nothing when applied again, unless the allowlist named only blank
  patterns: then the first application leaves an empty allowlist, which Validate refuses, and a
  second one turns it into the built-in write-back namespace.\<close>

theorem normalize_idempotent_unless_blank:
  "Normalize_policy (Normalize_policy p) =
     (if AllowedRefs p \<noteq> [] \<and> filter (\<lambda>r. trim_space r \<noteq> []) (AllowedRefs p) = []
      then (Normalize_policy p)\<lparr>AllowedRefs := [DefaultAllowedRef]\<rparr>
      else Normalize_policy p)
   \<and> Validate (Normalize_policy (zero_policy\<lparr>AllowedRefs := ['' ''], AllowCreate := True\<rparr>)) = Some NoPatterns
   \<and> Validate (Normalize_policy (Normalize_policy (zero_policy\<lparr>AllowedRefs := ['' ''], AllowCreate := True\<rparr>))) = None"
proof (intro conjI)
  show "Normalize_policy (Normalize_policy p) =
     (if AllowedRefs p \<noteq> [] \<and> filter (\<lambda>r. trim_space r \<noteq> []) (AllowedRefs p) = []
      then (Normalize_policy p)\<lparr>AllowedRefs := [DefaultAllowedRef]\<rparr> else Normalize_policy p)"
    unfolding Normalize_twice AllowedRefs_Normalize_Nil [symmetric] by auto
qed code_simp+

text \<open>a pattern with a glob character before its trailing /** passes validation, but matching
  takes what is before the /** literally, and no valid ref name contains such a character: the
  pattern admits no ref at all. Without one it admits the names below the prefix.\<close>

theorem deep_glob_prefix_is_literal:
  "{ref. ValidateRefName ref = None \<and> matchRefPattern (pre @ ''/**'') ref} =
     (if list_ex git_forbidden pre then {}
      else {ref. ValidateRefName ref = None \<and> has_prefix ref (pre @ ''/'')})
   \<and> validateRefPattern ''refs/heads/team-*/**'' = None"
proof (intro conjI)
  have cs: "cut_suffix (pre @ ''/**'') ''/**'' = Some pre" by (simp add: cut_suffix_Some)
  have "\<not> has_prefix ref (pre @ ''/'')" if "list_ex git_forbidden pre" and "ValidateRefName ref = None" for ref
    using that ValidateRefName_bytes [of ref] by (auto simp: has_prefix_iff list_ex_iff)
  then show "{ref. ValidateRefName ref = None \<and> matchRefPattern (pre @ ''/**'') ref} =
     (if list_ex git_forbidden pre then {}
      else {ref. ValidateRefName ref = None \<and> has_prefix ref (pre @ ''/'')})"
    by (auto simp: matchRefPattern_def cs simp del: append_assoc)
  show "validateRefPattern ''refs/heads/team-*/**'' = None" by code_simp
qed

text \<open>a star does not cross a slash: a pattern that has no class and does not end in /** admits
  only names with as many slashes as it has itself.\<close>

theorem star_stays_in_its_directory:
  assumes "matchRefPattern pat ref" and "\<not> has_suffix pat ''/**''" and "CHR ''['' \<notin> set pat"
  shows "count_list ref CHR ''/'' = count_list pat CHR ''/''"
proof -
  from assms(1,2) have "path_match pat ref = Some True"
    by (simp add: matchRefPattern_def cut_suffix_def)
  from path_match_slashes [OF this assms(3)] show ?thesis by (simp add: slashes_def)
qed

theorem star_stays_in_its_directory_witness:
  "count_list ''refs/heads/cloop/task-7'' CHR ''/'' = count_list ''refs/heads/cloop/*'' CHR ''/''"
  by (rule star_stays_in_its_directory) code_simp+

section \<open>Branch names accepted by the executor\<close>

lemma has_suffix_append_single: "b \<noteq> [] \<Longrightarrow> has_suffix (r @ b) [c] = has_suffix b [c]"
  by (simp add: has_suffix_single)

lemma contains_refs_heads:
  assumes "b = ''cloop/'' @ q" and "sub \<in> {''..'', ''//'', [CHR ''@'', CHR ''{'']}"
  shows "contains (''refs/heads/'' @ b) sub = contains b sub"
  using assms by (auto simp: has_prefix_def)

lemma split_refs_heads:
  "split_on CHR ''/'' (''refs/heads/'' @ b) = ''refs'' # ''heads'' # split_on CHR ''/'' b"
  by simp

lemma valid_branch_ref:
  assumes b: "b = ''cloop/'' @ q" and len: "length b \<le> MaxWriteBackBranchLen"
    and bytes: "check_branch_bytes b = None"
    and subs: "\<not> contains b ''..''" "\<not> contains b ''//''" "\<not> contains b [CHR ''@'', CHR ''{'']"
    and ends: "\<not> has_suffix b ''/''" "\<not> has_suffix b ''.''"
    and parts: "check_elements (split_on CHR ''/'' b) = None"
  shows "ValidateRefName (''refs/heads/'' @ b) =
     (if list_ex (\<lambda>x. has_suffix x ''.lock'') (split_on CHR ''/'' b) then Some RefLockComponent else None)"
proof -
  let ?r = "''refs/heads/'' @ b"
  have ne: "b \<noteq> []" using b by simp
  have "CHR 0x5C \<notin> set ?r" using bytes by (auto simp: check_branch_bytes_None)
  then have bs: "\<not> contains ?r [CHR 0x5C]" by (simp only: contains_single not_False_eq_True)
  have c: "\<not> contains ?r ''..''" "\<not> contains ?r ''//''" "\<not> contains ?r [CHR ''@'', CHR ''{'']"
    using subs contains_refs_heads [OF b] by auto
  have e: "\<not> has_suffix ?r ''/''" "\<not> has_suffix ?r ''.''"
    using ends has_suffix_append_single [OF ne] by metis+
  have "check_ref_bytes ?r = None" using bytes
    by (auto simp: check_ref_bytes_None check_branch_bytes_None control_char_def git_forbidden_def byte_val_def)
  moreover have "check_components (split_on CHR ''/'' ?r) =
     check_components (split_on CHR ''/'' b)"
    unfolding split_refs_heads by (simp add: has_prefix_def has_suffix_def)
  moreover have "length ?r \<le> 1024" using len by (simp add: MaxWriteBackBranchLen_def)
  moreover have "has_prefix ?r ''refs/''" by (simp add: has_prefix_def)
  ultimately show ?thesis using bs c e check_elements_components [OF parts]
    unfolding ValidateRefName_def by simp
qed

text \<open>C40: the executor and the proxy agree on write-back branches, with one exception. The ref of a
  branch ValidateWriteBackBranch accepts is in the default session's allowlist, and
  ValidateRefName accepts it unless a path component before the last ends in .lock, which git
  forbids and the executor's rules do not look for.\<close>

theorem accepted_branch_is_pushable:
  assumes "ValidateWriteBackBranch branch = None"
  shows "AllowsRef WriteBackPolicy (''refs/heads/'' @ trim_space branch)
    \<and> ValidateRefName (''refs/heads/'' @ trim_space branch) =
        (if list_ex (\<lambda>x. has_suffix x ''.lock'') (split_on CHR ''/'' (trim_space branch))
         then Some RefLockComponent else None)
    \<and> ValidateWriteBackBranch ''cloop/a.lock/b'' = None
    \<and> ValidateRefName ''refs/heads/cloop/a.lock/b'' = Some RefLockComponent"
proof (intro conjI)
  let ?b = "trim_space branch"
  from assms have ne: "?b \<noteq> []" and len: "length ?b \<le> MaxWriteBackBranchLen"
    and pre: "has_prefix ?b WriteBackBranchPrefix" and ref: "validateGitRef ?b = None"
    and parts: "check_elements (split_on CHR ''/'' ?b) = None"
    by (auto simp: ValidateWriteBackBranch_def Let_def split: if_splits option.splits)
  from pre obtain q where q: "?b = ''cloop/'' @ q" by (auto simp: has_prefix_iff WriteBackBranchPrefix_def)
  from ref ne have "check_branch_bytes ?b = None" "\<not> contains ?b ''..''" "\<not> contains ?b ''//''"
    "\<not> contains ?b [CHR ''@'', CHR ''{'']" "\<not> has_suffix ?b ''/''" "\<not> has_suffix ?b ''.''"
    by (auto simp: validateGitRef_def Let_def split: if_splits option.splits)
  from valid_branch_ref [OF q len this parts]
  show "ValidateRefName (''refs/heads/'' @ ?b) =
      (if list_ex (\<lambda>x. has_suffix x ''.lock'') (split_on CHR ''/'' ?b) then Some RefLockComponent else None)" .
  show "AllowsRef WriteBackPolicy (''refs/heads/'' @ ?b)"
    unfolding q by (simp add: AllowsRef_def WriteBackPolicy_def zero_policy_def default_pattern_match has_prefix_def)
qed code_simp+

theorem accepted_branch_is_pushable_witness:
  "ValidateRefName (''refs/heads/'' @ trim_space '' cloop/run-1'') = None"
proof -
  have "ValidateWriteBackBranch '' cloop/run-1'' = None" by code_simp
  from accepted_branch_is_pushable [OF this]
  have "ValidateRefName (''refs/heads/'' @ trim_space '' cloop/run-1'') =
      (if list_ex (\<lambda>x. has_suffix x ''.lock'') (split_on CHR ''/'' (trim_space '' cloop/run-1''))
       then Some RefLockComponent else None)" by blast
  also have "\<dots> = None" by code_simp
  finally show ?thesis .
qed

end
