(* ===== verification/PktLine.thy ===== *)
theory PktLine
  imports GitPolicy
begin

text \<open>
  Git's packet line framing (pkg/gitproxy/pktline.go): the reader that keeps every byte it
  consumed for replay, and the writers. A body is the bytes it holds and how it ends (\<open>AtEOF\<close>, or
  \<open>Broken\<close> when the read fails for another reason); \<open>io.ReadFull\<close> is \<open>read_full\<close>.
\<close>

definition pktHeaderLen :: nat where "pktHeaderLen = 4"
definition maxPktLen :: nat where "maxPktLen = 65520"
definition maxPayloadLen :: nat where "maxPayloadLen = maxPktLen - pktHeaderLen"

definition flushPkt :: string where "flushPkt = ''0000''"
definition delimPkt :: string where "delimPkt = ''0001''"
definition responseEndPkt :: string where "responseEndPkt = ''0002''"

datatype pktType = pktData | pktFlush | pktDelim | pktResponseEnd

text \<open>What a malformed request is refused with; the code wraps all but the first and the last
  in one sentinel, the text being the detail.\<close>

datatype bad_pkt =
    BadPrefixRead | BadNotHex string | BadBelowHeader nat | BadTooLong nat | BadPayloadRead nat
  | BadBudget | NoFlush | UnexpectedDelimiter | StrayNul | BadShallow | NotACommand string
  | BadObjectName | ZeroToZero | BadRefName ref_name_error

datatype git_error = ErrEOF | ErrBadPktLine bad_pkt | ErrPushCert

datatype stream_end = AtEOF | Broken

record pktReader =
  rd_unread :: string
  rd_end :: stream_end
  rd_raw :: string
  rd_budget :: int

definition newPktReader :: "string \<Rightarrow> stream_end \<Rightarrow> int \<Rightarrow> pktReader" where
  "newPktReader body e budget = \<lparr>rd_unread = body, rd_end = e, rd_raw = [], rd_budget = budget\<rparr>"

text \<open>\<open>io.ReadFull\<close>: \<open>Inl True\<close> is a bare \<open>io.EOF\<close>, \<open>Inl False\<close> any other failure.\<close>

definition read_full :: "nat \<Rightarrow> pktReader \<Rightarrow> bool + (string \<times> pktReader)" where
  "read_full n p =
     (if n \<le> length (rd_unread p)
      then Inr (take n (rd_unread p), p\<lparr>rd_unread := drop n (rd_unread p)\<rparr>)
      else Inl (rd_unread p = [] \<and> rd_end p = AtEOF))"

definition consume :: "string \<Rightarrow> pktReader \<Rightarrow> git_error + pktReader" where
  "consume b p =
     (if rd_budget p > 0 \<and> int (length (rd_raw p)) + int (length b) > rd_budget p
      then Inl (ErrBadPktLine BadBudget)
      else Inr (p\<lparr>rd_raw := rd_raw p @ b\<rparr>))"

definition hex_val :: "char \<Rightarrow> nat option" where
  "hex_val c =
     (let b = byte_val c in
      if 48 \<le> b \<and> b \<le> 57 then Some (b - 48)
      else if 97 \<le> b \<and> b \<le> 102 then Some (b - 87)
      else if 65 \<le> b \<and> b \<le> 70 then Some (b - 55)
      else None)"

text \<open>\<open>hex.Decode\<close> of the four bytes, and the big-endian length they hold.\<close>

definition decode_total :: "string \<Rightarrow> nat option" where
  "decode_total h =
     (case map hex_val h of
        [Some a, Some b, Some c, Some d] \<Rightarrow> Some ((a * 16 + b) * 256 + (c * 16 + d))
      | _ \<Rightarrow> None)"

definition next_payload :: "string \<Rightarrow> pktReader \<Rightarrow> git_error + (pktType \<times> string \<times> pktReader)" where
  "next_payload head p =
     (case decode_total head of
        None \<Rightarrow> Inl (ErrBadPktLine (BadNotHex head))
      | Some len \<Rightarrow>
          if len < pktHeaderLen then Inl (ErrBadPktLine (BadBelowHeader len))
          else if len > maxPktLen then Inl (ErrBadPktLine (BadTooLong len))
          else (case read_full (len - pktHeaderLen) p of
            Inl _ \<Rightarrow> Inl (ErrBadPktLine (BadPayloadRead (len - pktHeaderLen)))
          | Inr (payload, p1) \<Rightarrow>
              (case consume payload p1 of
                 Inl e \<Rightarrow> Inl e
               | Inr p2 \<Rightarrow> Inr (pktData, payload, p2))))"

definition next_pkt :: "pktReader \<Rightarrow> git_error + (pktType \<times> string \<times> pktReader)" where
  "next_pkt p =
     (case read_full pktHeaderLen p of
        Inl eof \<Rightarrow> Inl (if eof then ErrEOF else ErrBadPktLine BadPrefixRead)
      | Inr (head, p1) \<Rightarrow>
          (case consume head p1 of
             Inl e \<Rightarrow> Inl e
           | Inr p2 \<Rightarrow>
               if head = flushPkt then Inr (pktFlush, [], p2)
               else if head = delimPkt then Inr (pktDelim, [], p2)
               else if head = responseEndPkt then Inr (pktResponseEnd, [], p2)
               else next_payload head p2))"

text \<open>\<open>tail\<close>: the request as a whole again.\<close>

definition pkt_tail :: "pktReader \<Rightarrow> string" where
  "pkt_tail p = rd_raw p @ rd_unread p"

section \<open>Encoding\<close>

definition hex_digit :: "nat \<Rightarrow> char" where
  "hex_digit n = (if n < 10 then char_of (48 + n) else char_of (87 + n))"

definition hex4 :: "nat \<Rightarrow> string" where
  "hex4 n = [hex_digit (n div 4096 mod 16), hex_digit (n div 256 mod 16),
             hex_digit (n div 16 mod 16), hex_digit (n mod 16)]"

text \<open>The writers return what they append; \<open>None\<close> is the refusal of an oversized payload.\<close>

definition writePkt :: "string \<Rightarrow> string option" where
  "writePkt payload =
     (if length payload > maxPayloadLen then None
      else Some (hex4 (length payload + pktHeaderLen) @ payload))"

definition writeFlush :: string where "writeFlush = flushPkt"

definition sidebandMaxPayload :: nat where "sidebandMaxPayload = maxPayloadLen - 1"

function writeSideband :: "char \<Rightarrow> string \<Rightarrow> string option" where
  "writeSideband channel payload =
     (if payload = [] then Some []
      else let n = min (length payload) sidebandMaxPayload in
        (case writePkt (channel # take n payload) of
           None \<Rightarrow> None
         | Some w \<Rightarrow> map_option (\<lambda>r. w @ r) (writeSideband channel (drop n payload))))"
  by pat_completeness auto
termination
  by (relation "measure (\<lambda>(c, p). length p)")
     (auto simp: sidebandMaxPayload_def maxPayloadLen_def maxPktLen_def pktHeaderLen_def)

declare writeSideband.simps [simp del]

section \<open>The reader accounts for every byte\<close>

lemma hex_val_digit: "n < 16 \<Longrightarrow> hex_val (hex_digit n) = Some n"
  by (simp add: hex_val_def hex_digit_def Let_def byte_val_char_of)

lemma hex4_value:
  "n < 65536 \<Longrightarrow>
   (n div 4096 mod 16 * 16 + n div 256 mod 16) * 256 + (n div 16 mod 16 * 16 + n mod 16) = (n::nat)"
proof -
  assume n: "n < 65536"
  have d: "n div 256 = n div 16 div 16" "n div 4096 = n div 16 div 16 div 16"
    by (simp_all add: div_mult2_eq [symmetric])
  have "n div 4096 mod 16 = n div 4096" using n by simp
  moreover have "n div 4096 * 16 + n div 256 mod 16 = n div 256" unfolding d by (rule div_mult_mod_eq)
  moreover have "n div 256 * 16 + n div 16 mod 16 = n div 16" unfolding d by (rule div_mult_mod_eq)
  moreover have "n div 16 * 16 + n mod 16 = n" by (rule div_mult_mod_eq)
  ultimately show ?thesis by (simp only: mult.commute)
qed

lemma decode_hex4: "n < 65536 \<Longrightarrow> decode_total (hex4 n) = Some n"
  using hex4_value [of n] by (simp add: decode_total_def hex4_def hex_val_digit)

lemma length_hex4 [simp]: "length (hex4 n) = 4"
  by (simp add: hex4_def)

lemma decode_special: "decode_total flushPkt = Some 0" "decode_total delimPkt = Some 1"
  "decode_total responseEndPkt = Some 2"
  by code_simp+

definition rd_ok :: "pktReader \<Rightarrow> bool" where
  "rd_ok p \<longleftrightarrow> rd_budget p \<le> 0 \<or> int (length (rd_raw p)) \<le> rd_budget p"

text \<open>\<open>advanced p p'\<close>: \<open>p'\<close> is \<open>p\<close> after some bytes moved from the unread part to the replay copy.\<close>

definition advanced :: "pktReader \<Rightarrow> pktReader \<Rightarrow> bool" where
  "advanced p p' \<longleftrightarrow> pkt_tail p' = pkt_tail p \<and> rd_budget p' = rd_budget p \<and>
     rd_end p' = rd_end p \<and> rd_ok p' \<and> length (rd_unread p') \<le> length (rd_unread p)"

lemma advanced_trans: "advanced p q \<Longrightarrow> advanced q r \<Longrightarrow> advanced p r"
  by (auto simp: advanced_def)

lemma read_consume_advanced:
  assumes "read_full n p = Inr (b, p1)" and "consume b p1 = Inr p2"
  shows "advanced p p2" and "length (rd_unread p2) = length (rd_unread p) - n" and "n \<le> length (rd_unread p)"
  using assms by (auto simp: read_full_def consume_def advanced_def pkt_tail_def rd_ok_def split: if_splits)

lemma next_payload_advanced: "next_payload head p = Inr (t, pl, p') \<Longrightarrow> advanced p p'"
  by (auto simp: next_payload_def split: option.splits if_splits sum.splits prod.splits
      dest: read_consume_advanced(1))

lemma next_pkt_advanced:
  assumes "next_pkt p = Inr (t, pl, p')"
  shows "advanced p p' \<and> length (rd_unread p') < length (rd_unread p)"
proof -
  from assms obtain head p1 p2 where r: "read_full pktHeaderLen p = Inr (head, p1)"
    and c: "consume head p1 = Inr p2" and p': "p' = p2 \<or> next_payload head p2 = Inr (t, pl, p')"
    by (auto simp: next_pkt_def split: sum.splits if_splits prod.splits)
  note a = read_consume_advanced [OF r c]
  from p' have "p' = p2 \<or> advanced p2 p'" using next_payload_advanced by blast
  with a show ?thesis by (auto simp: advanced_def pktHeaderLen_def)
qed

lemma read_full_append:
  "length w = n \<Longrightarrow> rd_unread p = w @ z \<Longrightarrow> read_full n p = Inr (w, p\<lparr>rd_unread := z\<rparr>)"
  by (simp add: read_full_def)

definition fits :: "nat \<Rightarrow> pktReader \<Rightarrow> bool" where
  "fits n p \<longleftrightarrow> rd_budget p \<le> 0 \<or> int (length (rd_raw p) + n) \<le> rd_budget p"

lemma consume_fits: "fits (length b) p \<Longrightarrow> consume b p = Inr (p\<lparr>rd_raw := rd_raw p @ b\<rparr>)"
  by (auto simp: consume_def fits_def)

lemma next_pkt_write:
  assumes w: "writePkt payload = Some w" and u: "rd_unread p = w @ z" and f: "fits (length w) p"
  shows "next_pkt p = Inr (pktData, payload, p\<lparr>rd_unread := z, rd_raw := rd_raw p @ w\<rparr>)"
proof -
  let ?n = "length payload + 4"
  let ?h = "hex4 ?n"
  from w have len: "?n \<le> 65520" and weq: "w = ?h @ payload"
    by (auto simp: writePkt_def maxPayloadLen_def maxPktLen_def pktHeaderLen_def split: if_splits)
  have dec: "decode_total ?h = Some ?n" using len by (simp add: decode_hex4)
  have ns: "?h \<noteq> flushPkt" "?h \<noteq> delimPkt" "?h \<noteq> responseEndPkt"
    using dec decode_special by auto
  let ?p1 = "p\<lparr>rd_unread := payload @ z\<rparr>"
  let ?p2 = "p\<lparr>rd_unread := payload @ z, rd_raw := rd_raw p @ ?h\<rparr>"
  have r: "read_full pktHeaderLen p = Inr (?h, ?p1)"
    using u weq read_full_append [of ?h 4 p "payload @ z"] by (simp add: pktHeaderLen_def)
  have "fits (length ?h) ?p1" using f weq by (auto simp: fits_def)
  from consume_fits [OF this] have c: "consume ?h ?p1 = Inr ?p2" by simp
  have r2: "read_full (length payload) ?p2 = Inr (payload, ?p2\<lparr>rd_unread := z\<rparr>)"
    by (rule read_full_append) simp_all
  have "fits (length payload) (?p2\<lparr>rd_unread := z\<rparr>)" using f weq by (auto simp: fits_def)
  from consume_fits [OF this]
  have c2: "consume payload (?p2\<lparr>rd_unread := z\<rparr>) = Inr (p\<lparr>rd_unread := z, rd_raw := rd_raw p @ w\<rparr>)"
    by (simp add: weq)
  have "next_payload ?h ?p2 = Inr (pktData, payload, p\<lparr>rd_unread := z, rd_raw := rd_raw p @ w\<rparr>)"
    using dec len r2 c2 by (simp add: next_payload_def pktHeaderLen_def maxPktLen_def)
  with r c ns show ?thesis by (simp add: next_pkt_def)
qed

lemma next_pkt_flush:
  assumes "rd_unread p = writeFlush @ z" and "fits 4 p"
  shows "next_pkt p = Inr (pktFlush, [], p\<lparr>rd_unread := z, rd_raw := rd_raw p @ flushPkt\<rparr>)"
proof -
  have "read_full pktHeaderLen p = Inr (flushPkt, p\<lparr>rd_unread := z\<rparr>)"
    using assms(1) by (intro read_full_append) (simp_all add: writeFlush_def flushPkt_def pktHeaderLen_def)
  moreover have "consume flushPkt (p\<lparr>rd_unread := z\<rparr>)
      = Inr (p\<lparr>rd_unread := z, rd_raw := rd_raw p @ flushPkt\<rparr>)"
    using assms(2) by (subst consume_fits) (auto simp: fits_def flushPkt_def)
  ultimately show ?thesis by (simp add: next_pkt_def)
qed

lemma writeSideband_total: "writeSideband c payload \<noteq> None"
proof (induction c payload rule: writeSideband.induct)
  case (1 c payload)
  show ?case
  proof (cases "payload = []")
    case True
    then show ?thesis by (simp add: writeSideband.simps)
  next
    case False
    let ?n = "min (length payload) sidebandMaxPayload"
    have "length (c # take ?n payload) \<le> maxPayloadLen"
      by (simp add: sidebandMaxPayload_def maxPayloadLen_def maxPktLen_def pktHeaderLen_def)
    then obtain w where w: "writePkt (c # take ?n payload) = Some w" by (simp add: writePkt_def)
    from "1.IH" [OF False refl w] w False show ?thesis
      by (simp add: writeSideband.simps [of c payload] Let_def)
  qed
qed

end
