(* ===== verification/ReceivePack.thy ===== *)
theory ReceivePack
  imports PktLine
begin

text \<open>
  The head of a push and the handler that decides about it (pkg/gitproxy/receivepack.go, and
  \<open>handleReceivePack\<close> with \<open>refuse\<close> and its report in pkg/gitproxy/proxy.go). A request body is
  a parameter: the bytes left after the size cap and gzip, or \<open>None\<close> when it does not
  decompress. The scan of the pack is not modelled; whether it is off is an argument, and the
  outcome \<open>ScanThenForward\<close> is where the handler hands the push to it.
\<close>

section \<open>Parsing the command section\<close>

definition maxCommandSectionBytes :: int where "maxCommandSectionBytes = 1048576"

record ReceivePack =
  rp_commands :: "RefUpdate list"
  rp_capabilities :: "string list"
  rp_shallow :: "string list"

definition empty_pack :: ReceivePack where
  "empty_pack = \<lparr>rp_commands = [], rp_capabilities = [], rp_shallow = []\<rparr>"

definition HasCapability :: "ReceivePack \<Rightarrow> string \<Rightarrow> bool" where
  "HasCapability r name =
     list_ex (\<lambda>c. c = name \<or> (case cut_at CHR ''='' c of Some (k, _) \<Rightarrow> k = name | None \<Rightarrow> False))
       (rp_capabilities r)"

definition WantsReportStatus :: "ReceivePack \<Rightarrow> bool" where
  "WantsReportStatus r \<longleftrightarrow> HasCapability r ''report-status'' \<or> HasCapability r ''report-status-v2''"

definition WantsSideband :: "ReceivePack \<Rightarrow> bool" where
  "WantsSideband r \<longleftrightarrow> HasCapability r ''side-band-64k''"

definition object_char :: "char \<Rightarrow> bool" where
  "object_char c \<longleftrightarrow> (48 \<le> byte_val c \<and> byte_val c \<le> 57) \<or> (97 \<le> byte_val c \<and> byte_val c \<le> 102)"

definition validObjectName :: "string \<Rightarrow> bool" where
  "validObjectName s \<longleftrightarrow> (length s = 40 \<or> length s = 64) \<and> list_all object_char s"

text \<open>\<open>strings.SplitN(line, " ", 3)\<close> with three parts: the cuts at the first two spaces.\<close>

definition split3 :: "string \<Rightarrow> (string \<times> string \<times> string) option" where
  "split3 s =
     (case cut_at CHR '' '' s of
        None \<Rightarrow> None
      | Some (a, r) \<Rightarrow>
          (case cut_at CHR '' '' r of None \<Rightarrow> None | Some (b, c) \<Rightarrow> Some (a, b, c)))"

definition parseCommand :: "string \<Rightarrow> git_error + RefUpdate" where
  "parseCommand line =
     (case split3 line of
        None \<Rightarrow> Inl (ErrBadPktLine (NotACommand (elide line)))
      | Some (a, b, c) \<Rightarrow>
          let u = \<lparr>upd_old = a, upd_new = b, upd_ref = c\<rparr> in
          if \<not> validObjectName (upd_old u) \<or> \<not> validObjectName (upd_new u)
            then Inl (ErrBadPktLine BadObjectName)
          else if isZeroSHA (upd_old u) \<and> isZeroSHA (upd_new u) then Inl (ErrBadPktLine ZeroToZero)
          else (case ValidateRefName (upd_ref u) of
                  Some e \<Rightarrow> Inl (ErrBadPktLine (BadRefName e))
                | None \<Rightarrow> Inr u))"

definition nul :: char where "nul = CHR 0x00"

text \<open>The capabilities and the checks on NUL bytes: what is left of the line.\<close>

definition split_first :: "bool \<Rightarrow> ReceivePack \<Rightarrow> string \<Rightarrow> git_error + (ReceivePack \<times> string)" where
  "split_first first out line =
     (if first then
        (let (out1, line1) = (case cut_at nul line of
             Some (a, b) \<Rightarrow> (out\<lparr>rp_capabilities := go_fields b\<rparr>, a)
           | None \<Rightarrow> (out, line))
         in if has_prefix line1 ''push-cert'' then Inl ErrPushCert else Inr (out1, line1))
      else if nul \<in> set line then Inl (ErrBadPktLine StrayNul)
      else Inr (out, line))"

text \<open>One data line of the section.\<close>

definition parse_line :: "bool \<Rightarrow> ReceivePack \<Rightarrow> string \<Rightarrow> git_error + ReceivePack" where
  "parse_line first out payload =
     (case split_first first out (trim_suffix payload [CHR 0x0A]) of
        Inl e \<Rightarrow> Inl e
      | Inr (out1, line) \<Rightarrow>
          if has_prefix line ''shallow '' then
            (let sha = trim_space (drop (length ''shallow '') line) in
             if \<not> validObjectName sha then Inl (ErrBadPktLine BadShallow)
             else Inr (out1\<lparr>rp_shallow := rp_shallow out1 @ [sha]\<rparr>))
          else (case parseCommand line of
                  Inl e \<Rightarrow> Inl e
                | Inr u \<Rightarrow> Inr (out1\<lparr>rp_commands := rp_commands out1 @ [u]\<rparr>)))"

function parse_loop :: "bool \<Rightarrow> ReceivePack \<Rightarrow> pktReader \<Rightarrow> git_error + (ReceivePack \<times> pktReader)" where
  "parse_loop first out pr =
     (case next_pkt pr of
        Inl e \<Rightarrow> Inl (if e = ErrEOF then ErrBadPktLine NoFlush else e)
      | Inr (t, payload, pr') \<Rightarrow>
          if t = pktFlush then Inr (out, pr')
          else if t \<noteq> pktData then Inl (ErrBadPktLine UnexpectedDelimiter)
          else (case parse_line first out payload of
                  Inl e \<Rightarrow> Inl e
                | Inr out' \<Rightarrow> parse_loop False out' pr'))"
  by pat_completeness auto
termination
  by (relation "measure (\<lambda>(first, out, pr). length (rd_unread pr))") (auto dest!: next_pkt_advanced)

declare parse_loop.simps [simp del]

definition parseCommandSection :: "string \<Rightarrow> stream_end \<Rightarrow> git_error + (ReceivePack \<times> pktReader)" where
  "parseCommandSection body e = parse_loop True empty_pack (newPktReader body e maxCommandSectionBytes)"

text \<open>\<open>parseReceivePackSplit\<close>: the head, the section's bytes, the rest.\<close>

definition parseReceivePackSplit ::
    "string \<Rightarrow> stream_end \<Rightarrow> git_error + (ReceivePack \<times> string \<times> string)" where
  "parseReceivePackSplit body e =
     (case parseCommandSection body e of
        Inl err \<Rightarrow> Inl err
      | Inr (head, pr) \<Rightarrow> Inr (head, rd_raw pr, rd_unread pr))"

definition ParseReceivePack :: "string \<Rightarrow> stream_end \<Rightarrow> git_error + (ReceivePack \<times> string)" where
  "ParseReceivePack body e =
     (case parseReceivePackSplit body e of
        Inl err \<Rightarrow> Inl err
      | Inr (head, raw, rest) \<Rightarrow> Inr (head, raw @ rest))"

section \<open>Refusing\<close>

definition newline :: char where "newline = CHR 0x0A"

definition oneLine :: "string \<Rightarrow> string" where
  "oneLine s = elide (join '' '' (go_fields s))"

definition refusalSummary :: "string \<Rightarrow> Decision list \<Rightarrow> string" where
  "refusalSummary global ds =
     (if global \<noteq> [] then global
      else join '', '' (map (\<lambda>d. upd_ref (fst d) @ '' ('' @ Reason d @ '')'')
             (filter (\<lambda>d. \<not> Allowed d) ds)))"

definition ng_line :: "string \<Rightarrow> string \<Rightarrow> string" where
  "ng_line ref reason = ''ng '' @ ref @ '' '' @ reason"

definition report_lines :: "ReceivePack \<Rightarrow> Decision list \<Rightarrow> string \<Rightarrow> string list" where
  "report_lines head ds global =
     ''unpack ok'' #
     (if global \<noteq> [] then map (\<lambda>c. ng_line (upd_ref c) (oneLine global)) (rp_commands head)
      else map (\<lambda>d. ng_line (upd_ref (fst d))
                   (if Allowed d then ''push refused as a whole because another ref was denied''
                    else oneLine (Reason d))) ds)"

definition report_text :: "string list \<Rightarrow> string" where
  "report_text ls = concat (map (\<lambda>l. l @ [newline]) ls)"

definition written :: "string \<Rightarrow> string" where
  "written payload = (case writePkt payload of None \<Rightarrow> [] | Some w \<Rightarrow> w)"

definition reportPackets :: "string \<Rightarrow> string" where
  "reportPackets report =
     concat (map (\<lambda>l. written (l @ [newline])) (split_on newline (trim_suffix report [newline])))
     @ writeFlush"

datatype refusal =
    Forbidden string
  | StatusReport string
  | SidebandReport string

definition sideband_written :: "nat \<Rightarrow> string \<Rightarrow> string" where
  "sideband_written channel payload =
     (case writeSideband (char_of channel) payload of None \<Rightarrow> [] | Some w \<Rightarrow> w)"

definition refuse :: "ReceivePack \<Rightarrow> Decision list \<Rightarrow> string \<Rightarrow> refusal" where
  "refuse head ds global =
     (if \<not> WantsReportStatus head then
        Forbidden (if global \<noteq> [] then global
                   else case find (\<lambda>d. \<not> Allowed d) ds of
                          Some d \<Rightarrow> upd_ref (fst d) @ '': '' @ Reason d
                        | None \<Rightarrow> [])
      else
        let packets = reportPackets (report_text (report_lines head ds global)) in
        if WantsSideband head then
          SidebandReport
            (sideband_written 2 (''cloop git proxy refused this push: '' @
               oneLine (refusalSummary global ds) @ [newline])
             @ sideband_written 1 packets @ writeFlush)
        else StatusReport packets)"

section \<open>The handler\<close>

datatype push_outcome =
    RejectSession nat
  | ProbeOk
  | RefusePush refusal
  | ForwardUnscanned string
  | ScanThenForward ReceivePack string string

text \<open>What the request adds to the session's counter of denials and to the denial metric.\<close>

record push_log =
  log_denied :: nat
  log_denials :: "DenyReason list"

definition no_log :: push_log where
  "no_log = \<lparr>log_denied = 0, log_denials = []\<rparr>"

definition too_many_message :: "nat \<Rightarrow> int \<Rightarrow> string" where
  "too_many_message n m = ''push carries '' @ itoa (int n) @ '' ref updates; this session allows '' @ itoa m"

definition handleReceivePack ::
    "Policy \<Rightarrow> bool \<Rightarrow> (string \<times> stream_end) option \<Rightarrow> push_outcome \<times> push_log" where
  "handleReceivePack pol scan_off req =
     (if \<not> canWrite pol then (RejectSession 403, no_log)
      else case req of
        None \<Rightarrow> (RejectSession 400, no_log)
      | Some (body, e) \<Rightarrow>
          (case parseReceivePackSplit body e of
             Inl err \<Rightarrow>
               (if err = ErrPushCert
                then (RejectSession 403, \<lparr>log_denied = 1, log_denials = [DenyPushCert]\<rparr>)
                else (RejectSession 400, \<lparr>log_denied = 1, log_denials = []\<rparr>))
           | Inr (head, raw, rest) \<Rightarrow>
               if rp_commands head = [] then (ProbeOk, no_log)
               else if int (length (rp_commands head)) > MaxCommands pol then
                 (RefusePush (refuse head [] (too_many_message (length (rp_commands head)) (MaxCommands pol))),
                  \<lparr>log_denied = 1, log_denials = [DenyTooManyCommands]\<rparr>)
               else
                 (let (decisions, allowed) = DecideAll pol (rp_commands head) in
                  if \<not> allowed then
                    (RefusePush (refuse head decisions []),
                     \<lparr>log_denied = 1,
                      log_denials = map denial_reason (List.map_filter snd decisions)\<rparr>)
                  else if \<not> scan_off then (ScanThenForward head raw rest, no_log)
                  else (ForwardUnscanned (raw @ rest), no_log))))"

section \<open>What the parser guarantees\<close>

text \<open>A command the parser lets through.\<close>

definition wf_update :: "RefUpdate \<Rightarrow> bool" where
  "wf_update u \<longleftrightarrow> validObjectName (upd_old u) \<and> validObjectName (upd_new u) \<and>
     \<not> (isZeroSHA (upd_old u) \<and> isZeroSHA (upd_new u)) \<and> ValidateRefName (upd_ref u) = None"

definition command_line :: "RefUpdate \<Rightarrow> string" where
  "command_line u = upd_old u @ CHR '' '' # upd_new u @ CHR '' '' # upd_ref u"

lemma split3_Some: "split3 s = Some (a, b, c) \<longleftrightarrow>
   s = a @ CHR '' '' # b @ CHR '' '' # c \<and> CHR '' '' \<notin> set a \<and> CHR '' '' \<notin> set b"
proof
  assume "split3 s = Some (a, b, c)"
  then show "s = a @ CHR '' '' # b @ CHR '' '' # c \<and> CHR '' '' \<notin> set a \<and> CHR '' '' \<notin> set b"
    by (auto simp: split3_def split: option.splits prod.splits dest!: cut_at_Some)
next
  have cut: "cut_at CHR '' '' (x @ CHR '' '' # y) = Some (x, y)" if "CHR '' '' \<notin> set x" for x y
    using that by (induction x) auto
  assume "s = a @ CHR '' '' # b @ CHR '' '' # c \<and> CHR '' '' \<notin> set a \<and> CHR '' '' \<notin> set b"
  then show "split3 s = Some (a, b, c)" by (simp add: split3_def cut)
qed

lemma object_name_bytes: "validObjectName s \<Longrightarrow> c \<in> set s \<Longrightarrow> object_char c"
  by (simp add: validObjectName_def list_all_iff)

lemma object_char_not: "\<not> object_char CHR '' ''" "\<not> object_char nul" "\<not> object_char newline"
  "\<not> object_char CHR ''p''" "\<not> object_char CHR ''s''"
  by (simp_all add: object_char_def byte_val_def nul_def newline_def)

lemma parseCommand_exact: "parseCommand line = Inr u \<longleftrightarrow> line = command_line u \<and> wf_update u"
proof
  assume "parseCommand line = Inr u"
  then show "line = command_line u \<and> wf_update u"
    by (auto simp: parseCommand_def Let_def split3_Some command_line_def wf_update_def
        split: option.splits if_splits)
next
  assume a: "line = command_line u \<and> wf_update u"
  then have "CHR '' '' \<notin> set (upd_old u)" "CHR '' '' \<notin> set (upd_new u)"
    using object_name_bytes object_char_not(1) by (auto simp: wf_update_def)
  with a have "split3 line = Some (upd_old u, upd_new u, upd_ref u)"
    by (simp add: split3_Some command_line_def)
  with a show "parseCommand line = Inr u" by (auto simp: parseCommand_def Let_def wf_update_def)
qed

lemma split_first_commands:
  "split_first first out line = Inr (out1, l) \<Longrightarrow> rp_commands out1 = rp_commands out"
  by (auto simp: split_first_def Let_def split: if_splits option.splits prod.splits)

lemma parse_line_wf:
  assumes "parse_line first out payload = Inr out'" and "list_all wf_update (rp_commands out)"
  shows "list_all wf_update (rp_commands out')"
proof -
  from assms(1) obtain out1 l where sf: "split_first first out (trim_suffix payload [CHR 0x0A]) = Inr (out1, l)"
    by (auto simp: parse_line_def split: sum.splits)
  from split_first_commands [OF sf] assms(2) have o1: "list_all wf_update (rp_commands out1)" by simp
  show ?thesis
  proof (cases "has_prefix l ''shallow ''")
    case True
    with assms(1) sf o1 show ?thesis by (auto simp: parse_line_def Let_def split: if_splits)
  next
    case False
    with assms(1) sf obtain u where "parseCommand l = Inr u"
      and "out' = out1\<lparr>rp_commands := rp_commands out1 @ [u]\<rparr>"
      by (auto simp: parse_line_def split: sum.splits)
    with o1 parseCommand_exact show ?thesis by auto
  qed
qed

lemma parse_loop_step:
  assumes "parse_loop first out pr = Inr (head, pr')"
  obtains (flush) payload where "next_pkt pr = Inr (pktFlush, payload, pr')" "head = out"
  | (data) payload p1 out1 where "next_pkt pr = Inr (pktData, payload, p1)"
      "parse_line first out payload = Inr out1" "parse_loop False out1 p1 = Inr (head, pr')"
proof (cases "next_pkt pr")
  case (Inl e)
  with assms show thesis by (simp add: parse_loop.simps [of first])
next
  case (Inr x)
  obtain t payload p1 where x: "x = (t, payload, p1)" by (cases x)
  with assms Inr have "t = pktFlush \<or> t = pktData"
    by (auto simp: parse_loop.simps [of first] split: if_splits)
  then show thesis
  proof
    assume "t = pktFlush"
    with assms Inr x flush show thesis by (simp add: parse_loop.simps [of first])
  next
    assume t: "t = pktData"
    with assms Inr x obtain out1 where "parse_line first out payload = Inr out1"
      and "parse_loop False out1 p1 = Inr (head, pr')"
      by (auto simp: parse_loop.simps [of first] split: sum.splits)
    with t Inr x data show thesis by blast
  qed
qed

lemma parse_loop_result:
  "parse_loop first out pr = Inr (head, pr') \<Longrightarrow> list_all wf_update (rp_commands out) \<Longrightarrow>
   advanced pr pr' \<and> list_all wf_update (rp_commands head)"
proof (induction first out pr rule: parse_loop.induct)
  case (1 first out pr)
  from "1.prems"(1) show ?case
  proof (cases rule: parse_loop_step)
    case (flush payload)
    with "1.prems" next_pkt_advanced show ?thesis by blast
  next
    case (data payload p1 out1)
    from data(3) parse_line_wf [OF data(2) "1.prems"(2)]
    have "advanced p1 pr' \<and> list_all wf_update (rp_commands head)"
      using "1.IH" [OF data(1) refl refl _ _ data(2)] by simp
    with next_pkt_advanced [OF data(1)] advanced_trans show ?thesis by blast
  qed
qed

lemma parse_split_result:
  assumes "parseReceivePackSplit body e = Inr (head, raw, rest)"
  shows "raw @ rest = body" and "int (length raw) \<le> maxCommandSectionBytes"
    and "list_all wf_update (rp_commands head)"
proof -
  from assms obtain pr where "parse_loop True empty_pack (newPktReader body e maxCommandSectionBytes) = Inr (head, pr)"
    and raw: "raw = rd_raw pr" and rest: "rest = rd_unread pr"
    by (auto simp: parseReceivePackSplit_def parseCommandSection_def split: sum.splits)
  from parse_loop_result [OF this(1)]
  have a: "advanced (newPktReader body e maxCommandSectionBytes) pr"
    and w: "list_all wf_update (rp_commands head)" by (simp_all add: empty_pack_def)
  from a raw rest show "raw @ rest = body" and "int (length raw) \<le> maxCommandSectionBytes"
    by (auto simp: advanced_def pkt_tail_def newPktReader_def rd_ok_def maxCommandSectionBytes_def)
  from w show "list_all wf_update (rp_commands head)" .
qed

section \<open>What the handler lets through\<close>

text \<open>The commands of a body, and the push the handler lets through its own checks: to the scan,
  which may still refuse it and whose forge may fail, or straight to the forge's request where
  scanning is off.\<close>

datatype hand_over = ToForge string | ToScan string

fun let_through :: "push_outcome \<Rightarrow> hand_over option" where
  "let_through (ForwardUnscanned b) = Some (ToForge b)"
| "let_through (ScanThenForward head raw rest) = Some (ToScan (raw @ rest))"
| "let_through _ = None"

definition commands_of :: "string \<Rightarrow> stream_end \<Rightarrow> RefUpdate list" where
  "commands_of body e = (case ParseReceivePack body e of Inl _ \<Rightarrow> [] | Inr (head, _) \<Rightarrow> rp_commands head)"

definition push_ok :: "Policy \<Rightarrow> string \<Rightarrow> stream_end \<Rightarrow> bool" where
  "push_ok pol body e \<longleftrightarrow> canWrite pol \<and> commands_of body e \<noteq> [] \<and>
     int (length (commands_of body e)) \<le> MaxCommands pol \<and>
     list_all (\<lambda>u. Decide pol u = None) (commands_of body e)"

lemma commands_of_split:
  "commands_of body e =
     (case parseReceivePackSplit body e of Inl _ \<Rightarrow> [] | Inr (head, _, _) \<Rightarrow> rp_commands head)"
  by (auto simp: commands_of_def ParseReceivePack_def split: sum.splits)

lemma handle_parsed:
  assumes "canWrite pol" and "parseReceivePackSplit body e = Inr (head, raw, rest)"
  shows "let_through (fst (handleReceivePack pol scan_off (Some (body, e)))) =
     (if rp_commands head \<noteq> [] \<and> int (length (rp_commands head)) \<le> MaxCommands pol \<and>
         list_all (\<lambda>u. Decide pol u = None) (rp_commands head)
      then Some (if scan_off then ToForge (raw @ rest) else ToScan (raw @ rest)) else None)"
  using assms by (auto simp: handleReceivePack_def DecideAll_result Let_def)

lemma handle_lets_through:
  "let_through (fst (handleReceivePack pol scan_off (Some (body, e)))) =
     (if push_ok pol body e then Some (if scan_off then ToForge body else ToScan body) else None)"
proof (cases "canWrite pol")
  case False
  then show ?thesis by (simp add: handleReceivePack_def push_ok_def)
next
  case w: True
  show ?thesis
  proof (cases "parseReceivePackSplit body e")
    case (Inl err)
    with w show ?thesis by (simp add: handleReceivePack_def push_ok_def commands_of_split)
  next
    case (Inr x)
    obtain head raw rest where x: "x = (head, raw, rest)" by (cases x)
    with Inr have p: "parseReceivePackSplit body e = Inr (head, raw, rest)" by simp
    from handle_parsed [OF w p] parse_split_result(1) [OF p] w p show ?thesis
      by (simp add: push_ok_def commands_of_split)
  qed
qed

lemma commands_of_wf: "list_all wf_update (commands_of body e)"
  using parse_split_result(3) by (fastforce simp: commands_of_split split: sum.splits)

lemma handle_scans:
  "fst (handleReceivePack pol scan_off (Some (body, e))) = ScanThenForward head raw rest \<Longrightarrow>
   raw @ rest = body \<and> rp_commands head = commands_of body e"
  by (auto simp: handleReceivePack_def commands_of_split Let_def parse_split_result(1)
      split: if_splits sum.splits prod.splits)

lemma default_policy_decides:
  "push_ok (WriteBackPolicy\<lparr>MaxCommands := m, MaxPackBytes := n\<rparr>) body e \<longleftrightarrow>
     commands_of body e \<noteq> [] \<and> int (length (commands_of body e)) \<le> m \<and>
     list_all (\<lambda>u. has_prefix (upd_ref u) ''refs/heads/cloop/'' \<and> \<not> IsDelete u) (commands_of body e)"
proof -
  have "Decide (WriteBackPolicy\<lparr>MaxCommands := m, MaxPackBytes := n\<rparr>) u = None \<longleftrightarrow>
      has_prefix (upd_ref u) ''refs/heads/cloop/'' \<and> \<not> IsDelete u" for u
    by (simp add: Decide_None AllowsRef_def WriteBackPolicy_def zero_policy_def default_pattern_match)
  moreover have "canWrite (WriteBackPolicy\<lparr>MaxCommands := m, MaxPackBytes := n\<rparr>)"
    by (simp add: canWrite_def WriteBackPolicy_def)
  ultimately show ?thesis by (simp add: push_ok_def WriteBackPolicy_def)
qed

lemma commands_of_valid: "list_all (\<lambda>u. ValidateRefName (upd_ref u) = None) (commands_of body e)"
  using commands_of_wf [of body e] by (simp add: wf_update_def list_all_iff)

text \<open>a push is all or nothing under every policy: its body is let through, byte for byte, when
  the session may write and every command of it is permitted, and nothing of it is
  otherwise. A refusal counts one denial and one reason per refused command.\<close>

theorem push_is_atomic:
  "let_through (fst (handleReceivePack pol scan_off (Some (body, e)))) =
     (if canWrite pol \<and> commands_of body e \<noteq> [] \<and>
         int (length (commands_of body e)) \<le> MaxCommands pol \<and>
         filter (\<lambda>u. Decide pol u \<noteq> None) (commands_of body e) = []
      then Some (if scan_off then ToForge body else ToScan body) else None)
   \<and> (case handleReceivePack pol scan_off (Some (body, e)) of
        (RefusePush (StatusReport r), lg) \<Rightarrow>
          log_denied lg = 1 \<and>
          log_denials lg =
            (if int (length (commands_of body e)) > MaxCommands pol then [DenyTooManyCommands]
             else map denial_reason (List.map_filter (Decide pol) (commands_of body e)))
      | _ \<Rightarrow> True)"
proof
  have "filter (\<lambda>u. Decide pol u \<noteq> None) cs = [] \<longleftrightarrow> list_all (\<lambda>u. Decide pol u = None) cs" for cs
    by (auto simp: filter_empty_conv list_all_iff)
  then show "let_through (fst (handleReceivePack pol scan_off (Some (body, e)))) =
     (if canWrite pol \<and> commands_of body e \<noteq> [] \<and>
         int (length (commands_of body e)) \<le> MaxCommands pol \<and>
         filter (\<lambda>u. Decide pol u \<noteq> None) (commands_of body e) = []
      then Some (if scan_off then ToForge body else ToScan body) else None)"
    by (simp add: handle_lets_through push_ok_def)
  have mf: "List.map_filter snd (map (\<lambda>c. (c, Decide pol c)) cs) = List.map_filter (Decide pol) cs" for cs
    by (induction cs) (auto simp: map_filter_simps split: option.splits)
  show "case handleReceivePack pol scan_off (Some (body, e)) of
        (RefusePush (StatusReport r), lg) \<Rightarrow>
          log_denied lg = 1 \<and>
          log_denials lg =
            (if int (length (commands_of body e)) > MaxCommands pol then [DenyTooManyCommands]
             else map denial_reason (List.map_filter (Decide pol) (commands_of body e)))
      | _ \<Rightarrow> True"
    by (auto simp: handleReceivePack_def commands_of_split DecideAll_result mf Let_def no_log_def
        split: sum.split push_outcome.split refusal.split)
qed

section \<open>Reading back what a client writes\<close>

definition command_payload :: "RefUpdate \<Rightarrow> string" where
  "command_payload u = command_line u @ [newline]"

definition first_payload :: "RefUpdate \<Rightarrow> string \<Rightarrow> string" where
  "first_payload u caps = command_line u @ nul # caps @ [newline]"

text \<open>A push as git writes it: the first command carries the capabilities, a flush ends the
  section, the pack follows.\<close>

fun encode_push :: "RefUpdate list \<Rightarrow> string \<Rightarrow> string" where
  "encode_push [] caps = writeFlush"
| "encode_push (u # us) caps =
     written (first_payload u caps) @ concat (map (\<lambda>v. written (command_payload v)) us) @ writeFlush"

lemma ref_bytes_control: "ValidateRefName ref = None \<Longrightarrow> c \<in> set ref \<Longrightarrow> \<not> control_char c"
  using ValidateRefName_bytes by blast

lemma control_nul: "control_char nul" "control_char newline"
  by (simp_all add: control_char_def nul_def newline_def byte_val_def)

lemma command_line_clean: "wf_update u \<Longrightarrow> nul \<notin> set (command_line u) \<and> newline \<notin> set (command_line u)"
proof -
  assume w: "wf_update u"
  have "CHR '' '' \<noteq> nul" "CHR '' '' \<noteq> newline" by (simp_all add: nul_def newline_def)
  moreover have "nul \<notin> set (upd_ref u)" "newline \<notin> set (upd_ref u)"
    using w ref_bytes_control control_nul by (auto simp: wf_update_def)
  moreover have "nul \<notin> set (upd_old u)" "newline \<notin> set (upd_old u)" "nul \<notin> set (upd_new u)"
    "newline \<notin> set (upd_new u)"
    using w object_name_bytes object_char_not by (auto simp: wf_update_def)
  ultimately show ?thesis by (auto simp: command_line_def)
qed

lemma trim_suffix_append: "trim_suffix (s @ suf) suf = s"
proof -
  have "cut_suffix (s @ suf) suf = Some s" by (simp add: cut_suffix_Some)
  then show ?thesis by (simp add: trim_suffix_def)
qed

lemma cut_at_first: "c \<notin> set a \<Longrightarrow> cut_at c (a @ c # b) = Some (a, b)"
  by (induction a) auto

lemma command_line_hd: "wf_update u \<Longrightarrow> command_line u \<noteq> [] \<and> object_char (hd (command_line u))"
  using object_name_bytes [of "upd_old u"]
  by (cases "upd_old u") (auto simp: wf_update_def command_line_def validObjectName_def)

lemma not_prefix: "has_prefix s (c # p) \<Longrightarrow> hd s = c"
  by (auto simp: has_prefix_iff)

lemma command_no_keyword:
  "wf_update u \<Longrightarrow> \<not> has_prefix (command_line u) ''push-cert'' \<and> \<not> has_prefix (command_line u) ''shallow ''"
  using command_line_hd [of u] object_char_not(4,5) by (auto dest!: not_prefix)

lemma parse_line_command:
  assumes "wf_update u"
  shows "parse_line False out (command_payload u) = Inr (out\<lparr>rp_commands := rp_commands out @ [u]\<rparr>)"
proof -
  have "trim_suffix (command_payload u) [CHR 0x0A] = command_line u"
    unfolding command_payload_def newline_def by (rule trim_suffix_append)
  moreover have "parseCommand (command_line u) = Inr u" using assms parseCommand_exact by blast
  ultimately show ?thesis using assms command_line_clean command_no_keyword
    by (simp add: parse_line_def split_first_def)
qed

lemma parse_line_first:
  assumes "wf_update u"
  shows "parse_line True out (first_payload u caps) =
     Inr (out\<lparr>rp_capabilities := go_fields caps, rp_commands := rp_commands out @ [u]\<rparr>)"
proof -
  have "trim_suffix (first_payload u caps) [CHR 0x0A] = command_line u @ nul # caps"
    using trim_suffix_append [of "command_line u @ nul # caps" "[CHR 0x0A]"]
    by (simp add: first_payload_def newline_def)
  moreover have "cut_at nul (command_line u @ nul # caps) = Some (command_line u, caps)"
    using assms command_line_clean by (intro cut_at_first) blast
  moreover have "parseCommand (command_line u) = Inr u" using assms parseCommand_exact by blast
  ultimately show ?thesis using assms command_no_keyword
    by (simp add: parse_line_def split_first_def)
qed

lemma written_Some: "length p \<le> maxPayloadLen \<Longrightarrow> writePkt p = Some (written p)"
  by (simp add: written_def writePkt_def)

lemma length_written: "length p \<le> maxPayloadLen \<Longrightarrow> length (written p) = length p + 4"
  by (simp add: written_def writePkt_def)

lemma parse_loop_data:
  assumes "rd_unread pr = written pl @ z" and "length pl \<le> maxPayloadLen"
    and "fits (length (written pl)) pr" and "parse_line first out pl = Inr out1"
  shows "parse_loop first out pr =
     parse_loop False out1 (pr\<lparr>rd_unread := z, rd_raw := rd_raw pr @ written pl\<rparr>)"
  using next_pkt_write [OF written_Some [OF assms(2)] assms(1,3)] assms(4)
  by (simp add: parse_loop.simps [of first])

lemma parse_loop_flush:
  assumes "rd_unread pr = writeFlush @ z" and "fits 4 pr"
  shows "parse_loop first out pr = Inr (out, pr\<lparr>rd_unread := z, rd_raw := rd_raw pr @ flushPkt\<rparr>)"
  using next_pkt_flush [OF assms] by (simp add: parse_loop.simps [of first])

lemma command_payload_length:
  assumes "wf_update u"
  shows "length (command_line u) \<le> 1154"
proof -
  have "length (upd_old u) \<le> 64" "length (upd_new u) \<le> 64"
    using assms by (auto simp: wf_update_def validObjectName_def)
  moreover have "length (upd_ref u) \<le> 1024"
    using assms by (auto simp: wf_update_def ValidateRefName_def split: if_splits)
  ultimately show ?thesis by (simp add: command_line_def)
qed

lemma parse_loop_commands:
  "list_all wf_update us \<Longrightarrow>
   rd_unread pr = concat (map (\<lambda>v. written (command_payload v)) us) @ writeFlush @ z \<Longrightarrow>
   fits (length (concat (map (\<lambda>v. written (command_payload v)) us) @ writeFlush)) pr \<Longrightarrow>
   parse_loop False out pr =
     Inr (out\<lparr>rp_commands := rp_commands out @ us\<rparr>,
          pr\<lparr>rd_unread := z,
             rd_raw := rd_raw pr @ concat (map (\<lambda>v. written (command_payload v)) us) @ writeFlush\<rparr>)"
proof (induction us arbitrary: out pr)
  case Nil
  then have "fits 4 pr" by (auto simp: writeFlush_def flushPkt_def fits_def)
  with Nil parse_loop_flush [of pr z False out] show ?case by (simp add: writeFlush_def)
next
  case (Cons u us)
  let ?w = "written (command_payload u)"
  let ?ws = "concat (map (\<lambda>v. written (command_payload v)) us)"
  from Cons.prems(1) have u: "wf_update u" and us: "list_all wf_update us" by auto
  have len: "length (command_payload u) \<le> maxPayloadLen" using command_payload_length [OF u]
    by (simp add: command_payload_def maxPayloadLen_def maxPktLen_def pktHeaderLen_def)
  have "rd_unread pr = ?w @ (?ws @ writeFlush @ z)" using Cons.prems(2) by simp
  moreover have "fits (length ?w) pr" using Cons.prems(3) by (auto simp: fits_def)
  ultimately have step: "parse_loop False out pr =
      parse_loop False (out\<lparr>rp_commands := rp_commands out @ [u]\<rparr>)
        (pr\<lparr>rd_unread := ?ws @ writeFlush @ z, rd_raw := rd_raw pr @ ?w\<rparr>)"
    by (intro parse_loop_data [OF _ len _ parse_line_command [OF u]])
  show ?case unfolding step
    by (subst Cons.IH) (use us Cons.prems(3) in \<open>auto simp: fits_def\<close>)
qed

text \<open>C33: what a client writes is what the proxy decides about: a section that frames well-formed
  commands, with the capabilities on the first line, parses back to exactly these commands and
  capabilities, and the rest of the body is left as the pack.\<close>

theorem push_parses_back:
  assumes "list_all wf_update (u # us)" and "length caps \<le> 60000"
    and "int (length (encode_push (u # us) caps)) \<le> maxCommandSectionBytes"
  shows "parseReceivePackSplit (encode_push (u # us) caps @ pack) e =
    Inr (\<lparr>rp_commands = u # us, rp_capabilities = go_fields caps, rp_shallow = []\<rparr>,
         encode_push (u # us) caps, pack)"
proof -
  let ?w = "written (first_payload u caps)"
  let ?ws = "concat (map (\<lambda>v. written (command_payload v)) us)"
  let ?pr = "newPktReader (encode_push (u # us) caps @ pack) e maxCommandSectionBytes"
  from assms(1) have u: "wf_update u" and us: "list_all wf_update us" by auto
  have len: "length (first_payload u caps) \<le> maxPayloadLen" using command_payload_length [OF u] assms(2)
    by (simp add: first_payload_def maxPayloadLen_def maxPktLen_def pktHeaderLen_def)
  have "parse_loop True empty_pack ?pr =
      parse_loop False (empty_pack\<lparr>rp_capabilities := go_fields caps, rp_commands := rp_commands empty_pack @ [u]\<rparr>)
        (?pr\<lparr>rd_unread := ?ws @ writeFlush @ pack, rd_raw := rd_raw ?pr @ ?w\<rparr>)"
    by (rule parse_loop_data [OF _ len _ parse_line_first [OF u]])
       (use assms(3) in \<open>auto simp: newPktReader_def fits_def\<close>)
  also have "\<dots> = Inr (\<lparr>rp_commands = u # us, rp_capabilities = go_fields caps, rp_shallow = []\<rparr>,
      ?pr\<lparr>rd_unread := pack, rd_raw := encode_push (u # us) caps\<rparr>)"
    by (subst parse_loop_commands [OF us])
       (use assms(3) in \<open>auto simp: newPktReader_def fits_def empty_pack_def\<close>)
  finally show ?thesis
    by (simp add: parseReceivePackSplit_def parseCommandSection_def)
qed

theorem push_parses_back_witness:
  "parseReceivePackSplit
     (encode_push [\<lparr>upd_old = replicate 40 CHR ''0'', upd_new = replicate 40 CHR ''a'',
                    upd_ref = ''refs/heads/cloop/run-1''\<rparr>] ''report-status side-band-64k'' @ ''PACK'') AtEOF =
   Inr (\<lparr>rp_commands = [\<lparr>upd_old = replicate 40 CHR ''0'', upd_new = replicate 40 CHR ''a'',
                          upd_ref = ''refs/heads/cloop/run-1''\<rparr>],
         rp_capabilities = go_fields ''report-status side-band-64k'', rp_shallow = []\<rparr>,
        encode_push [\<lparr>upd_old = replicate 40 CHR ''0'', upd_new = replicate 40 CHR ''a'',
                      upd_ref = ''refs/heads/cloop/run-1''\<rparr>] ''report-status side-band-64k'', ''PACK'')"
proof (rule push_parses_back)
  show "list_all wf_update [\<lparr>upd_old = replicate 40 CHR ''0'', upd_new = replicate 40 CHR ''a'',
      upd_ref = ''refs/heads/cloop/run-1''\<rparr>]" by code_simp
qed (simp_all add: length_written first_payload_def command_line_def maxPayloadLen_def maxPktLen_def
      pktHeaderLen_def writeFlush_def flushPkt_def maxCommandSectionBytes_def)

section \<open>The report of a refusal\<close>

text \<open>The data lines of a section, read with the proxy's own reader.\<close>

function read_section :: "pktReader \<Rightarrow> string list" where
  "read_section p =
     (case next_pkt p of
        Inl _ \<Rightarrow> []
      | Inr (t, payload, p') \<Rightarrow> if t = pktData then payload # read_section p' else [])"
  by pat_completeness auto
termination
  by (relation "measure (\<lambda>p. length (rd_unread p))") (auto dest!: next_pkt_advanced)

declare read_section.simps [simp del]

definition lines_in :: "string \<Rightarrow> string list" where
  "lines_in s = read_section (newPktReader s AtEOF 0)"

lemma read_section_written:
  "list_all (\<lambda>p. length p \<le> maxPayloadLen) ps \<Longrightarrow> rd_budget p = 0 \<Longrightarrow>
   rd_unread p = concat (map written ps) @ writeFlush \<Longrightarrow> read_section p = ps"
proof (induction ps arbitrary: p)
  case Nil
  then have "next_pkt p = Inr (pktFlush, [], p\<lparr>rd_unread := [], rd_raw := rd_raw p @ flushPkt\<rparr>)"
    by (intro next_pkt_flush) (simp_all add: fits_def)
  then show ?case by (simp add: read_section.simps [of p])
next
  case (Cons x ps)
  then have len: "length x \<le> maxPayloadLen" and u: "rd_unread p = written x @ (concat (map written ps) @ writeFlush)"
    by auto
  have "fits (length (written x)) p" using Cons.prems(2) by (simp add: fits_def)
  from next_pkt_write [OF written_Some [OF len] u this]
  show ?case using Cons by (simp add: read_section.simps [of p])
qed

lemma lines_in_written:
  "list_all (\<lambda>p. length p \<le> maxPayloadLen) ps \<Longrightarrow> lines_in (concat (map written ps) @ writeFlush) = ps"
  unfolding lines_in_def by (rule read_section_written) (simp_all add: newPktReader_def)

lemma split_on_cons: "c \<notin> set l \<Longrightarrow> split_on c (l @ c # s) = l # split_on c s"
  by (induction l) auto

lemma split_report:
  "ls \<noteq> [] \<Longrightarrow> list_all (\<lambda>l. newline \<notin> set l) ls \<Longrightarrow>
   split_on newline (trim_suffix (report_text ls) [newline]) = ls"
proof -
  assume ne: "ls \<noteq> []" and clean: "list_all (\<lambda>l. newline \<notin> set l) ls"
  have t: "report_text (xs @ [x]) = (report_text xs @ x) @ [newline]" for xs x by (simp add: report_text_def)
  have s: "list_all (\<lambda>l. newline \<notin> set l) (xs @ [x]) \<Longrightarrow> split_on newline (report_text xs @ x) = xs @ [x]" for xs x
  proof (induction xs)
    case Nil
    then show ?case by (simp add: report_text_def split_on_single)
  next
    case (Cons y ys)
    then have "newline \<notin> set y" and "split_on newline (report_text ys @ x) = ys @ [x]" by auto
    then show ?case using split_on_cons [of newline y "report_text ys @ x"] by (simp add: report_text_def)
  qed
  from ne obtain xs x where "ls = xs @ [x]" by (metis append_butlast_last_id)
  with clean s [of xs x] show ?thesis by (metis t trim_suffix_append)
qed

lemma fields_no_space:
  "list_all (\<lambda>c. \<not> is_space c) acc \<Longrightarrow>
   list_all (list_all (\<lambda>c. \<not> is_space c)) (fields_acc acc s)"
  by (induction acc s rule: fields_acc.induct) (simp_all add: list_all_rev)

lemma join_no_newline:
  "newline \<notin> set sep \<Longrightarrow> \<forall>l \<in> set ls. newline \<notin> set l \<Longrightarrow> newline \<notin> set (join sep ls)"
  by (induction sep ls rule: join.induct) auto

lemma is_space_newline: "is_space newline"
  by (simp add: is_space_def newline_def byte_val_def)

lemma elide_clean: "newline \<notin> set s \<Longrightarrow> newline \<notin> set (elide s)"
proof -
  assume "newline \<notin> set s"
  moreover have "set (elide s) \<subseteq> set s \<union> {CHR 0xE2, CHR 0x80, CHR 0xA6}"
    by (auto simp: elide_def dest: in_set_takeD)
  moreover have "newline \<notin> {CHR 0xE2, CHR 0x80, CHR 0xA6}" by (simp add: newline_def)
  ultimately show ?thesis by blast
qed

lemma elide_length: "length (elide s) \<le> 123"
  by (simp add: elide_def)

lemma oneLine_clean: "newline \<notin> set (oneLine s)"
proof -
  have "\<forall>l \<in> set (go_fields s). newline \<notin> set l"
    using fields_no_space [of "[]" s] is_space_newline by (auto simp: go_fields_def list_all_iff)
  then have "newline \<notin> set (join '' '' (go_fields s))"
    by (intro join_no_newline) (simp_all add: newline_def)
  then show ?thesis unfolding oneLine_def by (rule elide_clean)
qed

text \<open>The reasons of a report: one per command, each a single short line.\<close>

definition whole_push :: string where
  "whole_push = ''push refused as a whole because another ref was denied''"

definition report_reasons :: "Policy \<Rightarrow> RefUpdate list \<Rightarrow> string \<Rightarrow> string list" where
  "report_reasons pol cmds global =
     map (\<lambda>u. if global \<noteq> [] then oneLine global
              else if Decide pol u = None then whole_push
              else oneLine (Reason (u, Decide pol u))) cmds"

lemma report_lines_reasons:
  "ds = (if global = [] then map (\<lambda>c. (c, Decide pol c)) (rp_commands head) else []) \<Longrightarrow>
   report_lines head ds global =
     ''unpack ok'' # map2 (\<lambda>u r. ng_line (upd_ref u) r) (rp_commands head)
       (report_reasons pol (rp_commands head) global)"
  by (auto simp: report_lines_def report_reasons_def Allowed_def whole_push_def zip_map2 zip_same_conv_map)

lemma reason_clean: "r \<in> set (report_reasons pol cmds global) \<Longrightarrow> newline \<notin> set r \<and> length r \<le> 123"
  using oneLine_clean elide_length
  by (auto simp: report_reasons_def oneLine_def whole_push_def newline_def)

lemma reportPackets_lines:
  assumes "ls \<noteq> []" and "list_all (\<lambda>l. newline \<notin> set l \<and> length l < maxPayloadLen) ls"
  shows "reportPackets (report_text ls) = concat (map written (map (\<lambda>l. l @ [newline]) ls)) @ writeFlush"
    and "lines_in (reportPackets (report_text ls)) = map (\<lambda>l. l @ [newline]) ls"
proof -
  have "list_all (\<lambda>l. newline \<notin> set l) ls" using assms(2) by (auto simp: list_all_iff)
  from split_report [OF assms(1) this]
  show r: "reportPackets (report_text ls) = concat (map written (map (\<lambda>l. l @ [newline]) ls)) @ writeFlush"
    by (simp add: reportPackets_def comp_def)
  show "lines_in (reportPackets (report_text ls)) = map (\<lambda>l. l @ [newline]) ls"
    unfolding r by (rule lines_in_written) (use assms(2) in \<open>auto simp: list_all_iff\<close>)
qed

text \<open>Every command has its line, whatever the reasons: \<open>expected_report\<close> is what git's status
  parser is owed.\<close>

definition expected_report :: "RefUpdate list \<Rightarrow> string list \<Rightarrow> bool" where
  "expected_report cmds ls \<longleftrightarrow>
     (\<exists>reasons. length reasons = length cmds \<and>
        list_all (\<lambda>r. newline \<notin> set r \<and> length r \<le> 123) reasons \<and>
        ls = (''unpack ok'' @ [newline]) # map2 (\<lambda>u r. ng_line (upd_ref u) r @ [newline]) cmds reasons)"

lemma ng_line_clean:
  assumes "wf_update u" and "newline \<notin> set r" and "length r \<le> 123"
  shows "newline \<notin> set (ng_line (upd_ref u) r)" and "length (ng_line (upd_ref u) r) < maxPayloadLen"
proof -
  have v: "ValidateRefName (upd_ref u) = None" using assms(1) by (simp add: wf_update_def)
  then have "newline \<notin> set (upd_ref u)" using ref_bytes_control control_nul(2) by blast
  moreover from v have "length (upd_ref u) \<le> 1024" by (auto simp: ValidateRefName_def split: if_splits)
  ultimately show "newline \<notin> set (ng_line (upd_ref u) r)"
    and "length (ng_line (upd_ref u) r) < maxPayloadLen"
    using assms(2,3) by (simp_all add: ng_line_def newline_def maxPayloadLen_def maxPktLen_def pktHeaderLen_def)
qed

lemma report_expected:
  assumes wf: "list_all wf_update (rp_commands head)"
    and ds: "ds = (if global = [] then map (\<lambda>c. (c, Decide pol c)) (rp_commands head) else [])"
  shows "expected_report (rp_commands head) (lines_in (reportPackets (report_text (report_lines head ds global))))"
proof -
  let ?rs = "report_reasons pol (rp_commands head) global"
  let ?ng = "map2 (\<lambda>u r. ng_line (upd_ref u) r) (rp_commands head) ?rs"
  have clean: "list_all (\<lambda>r. newline \<notin> set r \<and> length r \<le> 123) ?rs"
    using reason_clean by (auto simp: list_all_iff)
  have "list_all (\<lambda>l. newline \<notin> set l \<and> length l < maxPayloadLen) ?ng"
  proof (unfold list_all_iff, rule ballI)
    fix l
    assume "l \<in> set ?ng"
    then obtain u r where "u \<in> set (rp_commands head)" "r \<in> set ?rs" "l = ng_line (upd_ref u) r"
      by (auto dest: set_zip_leftD set_zip_rightD)
    with wf clean ng_line_clean show "newline \<notin> set l \<and> length l < maxPayloadLen"
      by (auto simp: list_all_iff)
  qed
  then have "list_all (\<lambda>l. newline \<notin> set l \<and> length l < maxPayloadLen) (''unpack ok'' # ?ng)"
    by (simp add: newline_def maxPayloadLen_def maxPktLen_def pktHeaderLen_def)
  from reportPackets_lines(2) [OF _ this]
  have "lines_in (reportPackets (report_text (report_lines head ds global))) =
      (''unpack ok'' @ [newline]) # map2 (\<lambda>u r. ng_line (upd_ref u) r @ [newline]) (rp_commands head) ?rs"
    unfolding report_lines_reasons [OF ds] by (simp add: comp_def split_def)
  moreover have "length ?rs = length (rp_commands head)" by (simp add: report_reasons_def)
  ultimately show ?thesis using clean unfolding expected_report_def by blast
qed

text \<open>The side band carries the report in chunks; \<open>channel_data\<close> is the client's demultiplexer.\<close>

definition channel_data :: "nat \<Rightarrow> string list \<Rightarrow> string" where
  "channel_data channel payloads =
     concat (map tl (filter (\<lambda>p. p \<noteq> [] \<and> hd p = char_of channel) payloads))"

lemma writeSideband_chunks:
  "\<exists>cs. writeSideband c payload = Some (concat (map written cs)) \<and>
     list_all (\<lambda>p. length p \<le> maxPayloadLen \<and> p \<noteq> [] \<and> hd p = c) cs \<and> concat (map tl cs) = payload"
proof (induction c payload rule: writeSideband.induct)
  case (1 c payload)
  show ?case
  proof (cases "payload = []")
    case True
    then show ?thesis by (intro exI [of _ "[]"]) (simp add: writeSideband.simps)
  next
    case False
    let ?n = "min (length payload) sidebandMaxPayload"
    have len: "length (c # take ?n payload) \<le> maxPayloadLen"
      by (simp add: sidebandMaxPayload_def maxPayloadLen_def maxPktLen_def pktHeaderLen_def)
    note w = written_Some [OF len]
    from "1.IH" [OF False refl w] obtain cs where
      cs: "writeSideband c (drop ?n payload) = Some (concat (map written cs))"
        "list_all (\<lambda>p. length p \<le> maxPayloadLen \<and> p \<noteq> [] \<and> hd p = c) cs"
        "concat (map tl cs) = drop ?n payload" by blast
    have "writeSideband c payload = Some (concat (map written ((c # take ?n payload) # cs)))"
      using False w cs(1) by (simp add: writeSideband.simps [of c payload] Let_def)
    moreover have "concat (map tl ((c # take ?n payload) # cs)) = payload"
      using cs(3) by simp
    ultimately show ?thesis using cs(2) len by (intro exI [of _ "(c # take ?n payload) # cs"]) simp
  qed
qed

lemma sideband_demux:
  "channel_data 1 (lines_in (sideband_written 2 a @ sideband_written 1 b @ writeFlush)) = b"
proof -
  obtain ca where a: "writeSideband (char_of (2::nat)) a = Some (concat (map written ca))"
      "list_all (\<lambda>p. length p \<le> maxPayloadLen \<and> p \<noteq> [] \<and> hd p = char_of (2::nat)) ca"
    using writeSideband_chunks [of "char_of (2::nat)" a] by blast
  obtain cb where b: "writeSideband (char_of (1::nat)) b = Some (concat (map written cb))"
      "list_all (\<lambda>p. length p \<le> maxPayloadLen \<and> p \<noteq> [] \<and> hd p = char_of (1::nat)) cb"
      "concat (map tl cb) = b"
    using writeSideband_chunks [of "char_of (1::nat)" b] by blast
  have "sideband_written 2 a @ sideband_written 1 b @ writeFlush = concat (map written (ca @ cb)) @ writeFlush"
    using a(1) b(1) by (simp add: sideband_written_def)
  moreover have "list_all (\<lambda>p. length p \<le> maxPayloadLen) (ca @ cb)"
    using a(2) b(2) by (auto simp: list_all_iff)
  ultimately have l: "lines_in (sideband_written 2 a @ sideband_written 1 b @ writeFlush) = ca @ cb"
    using lines_in_written by metis
  have "(char_of (2::nat) :: char) \<noteq> char_of (1::nat)" by code_simp
  then have "filter (\<lambda>p. p \<noteq> [] \<and> hd p = char_of (1::nat)) ca = []"
    and "filter (\<lambda>p. p \<noteq> [] \<and> hd p = char_of (1::nat)) cb = cb"
    using a(2) b(2) by (auto simp: filter_empty_conv list_all_iff filter_id_conv)
  with l b(3) show ?thesis by (simp add: channel_data_def)
qed

lemma refuse_expected:
  assumes "list_all wf_update (rp_commands head)"
    and "ds = (if global = [] then map (\<lambda>c. (c, Decide pol c)) (rp_commands head) else [])"
  shows "case refuse head ds global of
      Forbidden m \<Rightarrow> True
    | StatusReport s \<Rightarrow> expected_report (rp_commands head) (lines_in s)
    | SidebandReport s \<Rightarrow> expected_report (rp_commands head) (lines_in (channel_data 1 (lines_in s)))"
  using report_expected [OF assms] sideband_demux by (simp add: refuse_def Let_def)

text \<open>C26: a client that reads reports is told about every command of a refused push, in order, on
  one line each: the report, taken out of the side band where the client asked for it and read
  packet by packet, is the unpack line and then one "ng" line per command naming its ref with a
  reason of at most 123 bytes. No ref name and no reason can add a line.\<close>

theorem refusal_reports_every_command:
  "case fst (handleReceivePack pol scan_off (Some (body, e))) of
     RefusePush (StatusReport s) \<Rightarrow> expected_report (commands_of body e) (lines_in s)
   | RefusePush (SidebandReport s) \<Rightarrow>
       expected_report (commands_of body e) (lines_in (channel_data 1 (lines_in s)))
   | _ \<Rightarrow> True"
proof (cases "parseReceivePackSplit body e")
  case (Inl err)
  then show ?thesis by (simp add: handleReceivePack_def)
next
  case (Inr x)
  obtain head raw rest where "x = (head, raw, rest)" by (cases x)
  with Inr have p: "parseReceivePackSplit body e = Inr (head, raw, rest)" by simp
  note wf = parse_split_result(3) [OF p]
  have cmds: "commands_of body e = rp_commands head" by (simp add: commands_of_split p)
  let ?many = "too_many_message (length (rp_commands head)) (MaxCommands pol)"
  have "?many \<noteq> []" by (simp add: too_many_message_def)
  then have many: "case refuse head [] ?many of
      Forbidden m \<Rightarrow> True
    | StatusReport s \<Rightarrow> expected_report (rp_commands head) (lines_in s)
    | SidebandReport s \<Rightarrow> expected_report (rp_commands head) (lines_in (channel_data 1 (lines_in s)))"
    by (intro refuse_expected [where pol = pol, OF wf]) simp
  have each: "case refuse head (map (\<lambda>c. (c, Decide pol c)) (rp_commands head)) [] of
      Forbidden m \<Rightarrow> True
    | StatusReport s \<Rightarrow> expected_report (rp_commands head) (lines_in s)
    | SidebandReport s \<Rightarrow> expected_report (rp_commands head) (lines_in (channel_data 1 (lines_in s)))"
    by (intro refuse_expected [where pol = pol, OF wf]) simp
  show ?thesis unfolding cmds using many each
    by (auto simp: handleReceivePack_def p DecideAll_result Let_def split: refusal.splits)
qed

end
