(* ===== verification/PushGate.thy ===== *)
theory PushGate
  imports ReceivePack "HOL-Library.Sublist"
begin

text \<open>
  The gate between a push's scan and the forge (pkg/gitproxy/pushgate.go, and the \<open>packSource\<close>
  of pkg/gitproxy/packscan.go that feeds it). Four parties run at once: the scan's goroutine,
  which hands on the bytes it consumed and ends with a verdict; the pump, which writes queued
  buffers into the pipe; the transport of the forge's request, which reads the pipe once the
  request is sent, may stop reading at any time, and then closes the request's body, as net/http
  documents; and the push's handler, which sends the request, learns the forge's answer, and
  waits for the scan. A write into the pipe needs the transport at the other end.
  Their interleaving is a list of actions; \<open>gate_do\<close> is what one atomic step of one party does,
  \<open>None\<close> when the party cannot take it (it waits, or is elsewhere in its code). What the scan
  finds is its choice of action: the pack's parser is not modelled, only that it may hold back
  the rest of the body, report a finding, or end in one of its ways.
\<close>

section \<open>State\<close>

datatype wclose = CleanClose | ErrClose

text \<open>Where the pump is: waiting for a buffer, holding one, inside the pipe's Write with what is
  left of it, past the queue's end with what it read of the flags, done.\<close>

datatype pump_pc = PumpIdle | PumpHave string | PumpWrite string | PumpEnd bool | PumpDone

datatype scan_phase = Scanning | Releasing | Draining | Finishing | ScanDone

text \<open>The transport: no request yet, reading the body, past its last read with the body's Close
  still to come, done with the body. The handler: in \<open>upstreamRequest\<close>, waiting for the scan, past
  that wait.\<close>

datatype forge_pc = ForgeIdle | ForgeReading | ForgeStopped | ForgeClosed

datatype handler_pc = HandlerRequest | HandlerWait | HandlerDone

datatype verdict = VClean | VRefused | VIncomplete

record gate =
  g_refused :: bool
  g_gone :: bool
  g_complete :: bool
  g_queue :: "string list"
  g_closed :: bool
  g_pump :: pump_pc
  g_piped :: string
  g_wclose :: "wclose option"
  g_rclosed :: bool
  g_todo :: string
  g_pend :: string
  g_tee :: string
  g_held :: string
  g_holding :: bool
  g_heldFrom :: "nat option"
  g_off :: nat
  g_found :: bool
  g_phase :: scan_phase
  g_out :: "verdict option"
  g_forge :: forge_pc
  g_handler :: handler_pc

definition newPushGate :: "string \<Rightarrow> gate" where
  "newPushGate rest =
     \<lparr>g_refused = False, g_gone = False, g_complete = False, g_queue = [], g_closed = False,
      g_pump = PumpIdle, g_piped = [], g_wclose = None, g_rclosed = False,
      g_todo = rest, g_pend = [], g_tee = [], g_held = [], g_holding = False, g_heldFrom = None,
      g_off = 0, g_found = False, g_phase = Scanning, g_out = None,
      g_forge = ForgeIdle, g_handler = HandlerRequest\<rparr>"

definition pushGateQueue :: nat where "pushGateQueue = 64"
definition scanSourceBuffer :: nat where "scanSourceBuffer = 65536"

section \<open>Operations of the gate\<close>

text \<open>Closing the pipe's writing end: an earlier close keeps its result.\<close>

definition pipe_close :: "wclose \<Rightarrow> gate \<Rightarrow> gate" where
  "pipe_close w g = (if g_wclose g = None then g\<lparr>g_wclose := Some w\<rparr> else g)"

text \<open>\<open>refuse\<close>: the flag is set first; \<open>close_refused\<close> is the close that follows it.\<close>

definition gate_refuse :: "gate \<Rightarrow> gate" where
  "gate_refuse g = g\<lparr>g_refused := True\<rparr>"

definition close_refused :: "gate \<Rightarrow> gate" where
  "close_refused g = (if g_refused g then pipe_close ErrClose g else g)"

definition gate_finish :: "bool \<Rightarrow> gate \<Rightarrow> gate" where
  "gate_finish c g = g\<lparr>g_complete := c, g_closed := True, g_phase := Finishing\<rparr>"

definition abandonUpstream :: "gate \<Rightarrow> gate" where
  "abandonUpstream g = g\<lparr>g_gone := True, g_rclosed := True\<rparr>"

text \<open>\<open>Close\<close> of \<open>upstreamBody\<close>: the transport's close of the request's body closes the reading end of
  the pipe.\<close>

definition upstreamBody_Close :: "gate \<Rightarrow> gate" where
  "upstreamBody_Close g = g\<lparr>g_rclosed := True\<rparr>"

text \<open>\<open>handOn\<close>: what was consumed goes to the tee, or is kept back while holding.\<close>

definition handOn :: "gate \<Rightarrow> gate" where
  "handOn g =
     (if g_holding g then g\<lparr>g_held := g_held g @ g_pend g, g_pend := []\<rparr>
      else g\<lparr>g_tee := g_pend g, g_pend := []\<rparr>)"

definition startHolding :: "gate \<Rightarrow> gate" where
  "startHolding g = g\<lparr>g_holding := True, g_heldFrom := Some (g_off g)\<rparr>"

text \<open>\<open>release\<close>: the hand-on of what is left, then of what was held.\<close>

definition release :: "gate \<Rightarrow> gate" where
  "release g = g\<lparr>g_holding := False, g_tee := g_held g @ g_pend g, g_held := [], g_pend := []\<rparr>"

text \<open>One round of the loop of \<open>tee\<close>. Another party may set \<open>upstreamGone\<close> between the check and the
  send, so the send is possible whether or not the flag is up by then.\<close>

definition tee_put :: "gate \<Rightarrow> gate" where
  "tee_put g = g\<lparr>g_queue := g_queue g @ [take scanSourceBuffer (g_tee g)],
                 g_tee := drop scanSourceBuffer (g_tee g)\<rparr>"

definition pump_check :: "string \<Rightarrow> gate \<Rightarrow> gate" where
  "pump_check b g = g\<lparr>g_pump := (if \<not> g_refused g \<and> \<not> g_gone g then PumpWrite b else PumpIdle)\<rparr>"

definition pump_move :: "nat \<Rightarrow> string \<Rightarrow> gate \<Rightarrow> gate" where
  "pump_move n b g = g\<lparr>g_piped := g_piped g @ take n b,
                       g_pump := (if drop n b = [] then PumpIdle else PumpWrite (drop n b))\<rparr>"

definition pump_fail :: "gate \<Rightarrow> gate" where
  "pump_fail g = g\<lparr>g_gone := (g_gone g \<or> \<not> g_refused g), g_pump := PumpIdle\<rparr>"

definition pump_end_check :: "gate \<Rightarrow> gate" where
  "pump_end_check g = g\<lparr>g_pump := PumpEnd (g_complete g \<and> \<not> g_refused g \<and> \<not> g_gone g)\<rparr>"

definition pump_close :: "bool \<Rightarrow> gate \<Rightarrow> gate" where
  "pump_close c g = (pipe_close (if c then CleanClose else ErrClose) g)\<lparr>g_pump := PumpDone\<rparr>"

section \<open>The parties' steps\<close>

text \<open>\<open>ForgeStart\<close> sends the request, \<open>ForgeStop\<close> is the transport's last read, for whatever reason,
  \<open>ForgeClose\<close> its close of the body. \<open>ForgeAnswers\<close> is an answer below 400, early or not;
  \<open>ForgeAbandon\<close> any other end of \<open>upstreamRequest\<close>, also one before the request was sent.
  \<open>ScanAwaited\<close> is the handler's receive from the gate's done channel.\<close>

datatype gate_act =
    ScanRead nat | ScanHandOn | ScanHold | ScanFinding | CloseRefused
  | TeePut | TeeDrop | TeeGone
  | ScanClean | ReleaseDone | ScanRefused | DrainDone | ScanOther | ScanWait
  | PumpTake | PumpCheck | PumpMove nat | PumpFail | PumpEndCheck | PumpClosePipe
  | ForgeStart | ForgeStop | ForgeClose | ForgeAnswers | ForgeAbandon | ScanAwaited

definition scanning :: "gate \<Rightarrow> bool" where
  "scanning g \<longleftrightarrow> g_phase g = Scanning \<and> g_tee g = []"

fun gate_do :: "gate_act \<Rightarrow> gate \<Rightarrow> gate option" where
  "gate_do (ScanRead n) g =
     (if scanning g \<and> 0 < n \<and> n \<le> length (g_todo g)
      then Some (g\<lparr>g_pend := g_pend g @ take n (g_todo g), g_todo := drop n (g_todo g),
                   g_off := g_off g + n\<rparr>)
      else None)"
| "gate_do ScanHandOn g = (if scanning g then Some (handOn g) else None)"
| "gate_do ScanHold g =
     (if scanning g \<and> g_pend g = [] \<and> \<not> g_holding g then Some (startHolding g) else None)"
| "gate_do ScanFinding g =
     (if scanning g then Some (gate_refuse (g\<lparr>g_found := True\<rparr>)) else None)"
| "gate_do CloseRefused g = Some (close_refused g)"
| "gate_do TeePut g =
     (if g_tee g \<noteq> [] \<and> \<not> g_refused g \<and> \<not> g_closed g \<and> length (g_queue g) < pushGateQueue
      then Some (tee_put g) else None)"
| "gate_do TeeDrop g = (if g_tee g \<noteq> [] \<and> g_refused g then Some (g\<lparr>g_tee := []\<rparr>) else None)"
| "gate_do TeeGone g =
     (if g_tee g \<noteq> [] \<and> \<not> g_refused g \<and> g_gone g then
        (if g_phase g = Scanning
         then Some (gate_finish False (gate_refuse (g\<lparr>g_tee := [], g_out := Some VIncomplete\<rparr>)))
         else if g_phase g = Releasing then Some (gate_finish False (g\<lparr>g_tee := []\<rparr>))
         else None)
      else None)"
| "gate_do ScanClean g =
     (if scanning g \<and> \<not> g_found g \<and> g_todo g = []
      then Some (release (g\<lparr>g_out := Some VClean, g_phase := Releasing\<rparr>)) else None)"
| "gate_do ReleaseDone g =
     (if g_phase g = Releasing \<and> g_tee g = [] then Some (gate_finish True g) else None)"
| "gate_do ScanRefused g =
     (if scanning g
      then Some (gate_refuse (g\<lparr>g_out := Some VRefused, g_holding := False, g_held := [],
                                g_phase := Draining\<rparr>))
      else None)"
| "gate_do DrainDone g =
     (if g_phase g = Draining
      then Some (gate_finish False (g\<lparr>g_tee := [], g_pend := [], g_todo := []\<rparr>)) else None)"
| "gate_do ScanOther g =
     (if scanning g \<and> \<not> g_found g
      then Some (gate_finish False (gate_refuse (g\<lparr>g_out := Some VIncomplete\<rparr>))) else None)"
| "gate_do ScanWait g =
     (if g_phase g = Finishing \<and> g_pump g = PumpDone then Some (g\<lparr>g_phase := ScanDone\<rparr>) else None)"
| "gate_do PumpTake g =
     (case (g_pump g, g_queue g) of
        (PumpIdle, b # q) \<Rightarrow> Some (g\<lparr>g_pump := PumpHave b, g_queue := q\<rparr>)
      | _ \<Rightarrow> None)"
| "gate_do PumpCheck g = (case g_pump g of PumpHave b \<Rightarrow> Some (pump_check b g) | _ \<Rightarrow> None)"
| "gate_do (PumpMove n) g =
     (case g_pump g of
        PumpWrite b \<Rightarrow>
          if g_wclose g = None \<and> \<not> g_rclosed g \<and> g_forge g = ForgeReading \<and> 0 < n \<and> n \<le> length b
          then Some (pump_move n b g) else None
      | _ \<Rightarrow> None)"
| "gate_do PumpFail g =
     (case g_pump g of
        PumpWrite b \<Rightarrow> if g_wclose g \<noteq> None \<or> g_rclosed g then Some (pump_fail g) else None
      | _ \<Rightarrow> None)"
| "gate_do PumpEndCheck g =
     (if g_pump g = PumpIdle \<and> g_queue g = [] \<and> g_closed g then Some (pump_end_check g) else None)"
| "gate_do PumpClosePipe g = (case g_pump g of PumpEnd c \<Rightarrow> Some (pump_close c g) | _ \<Rightarrow> None)"
| "gate_do ForgeStart g =
     (if g_handler g = HandlerRequest \<and> g_forge g = ForgeIdle then Some (g\<lparr>g_forge := ForgeReading\<rparr>) else None)"
| "gate_do ForgeStop g = (if g_forge g = ForgeReading then Some (g\<lparr>g_forge := ForgeStopped\<rparr>) else None)"
| "gate_do ForgeClose g =
     (if g_forge g = ForgeStopped then Some (upstreamBody_Close (g\<lparr>g_forge := ForgeClosed\<rparr>)) else None)"
| "gate_do ForgeAnswers g =
     (if g_handler g = HandlerRequest \<and> g_forge g \<noteq> ForgeIdle then Some (g\<lparr>g_handler := HandlerWait\<rparr>) else None)"
| "gate_do ForgeAbandon g =
     (if g_handler g = HandlerRequest then Some (abandonUpstream (g\<lparr>g_handler := HandlerWait\<rparr>)) else None)"
| "gate_do ScanAwaited g =
     (if g_handler g = HandlerWait \<and> g_phase g = ScanDone then Some (g\<lparr>g_handler := HandlerDone\<rparr>) else None)"

text \<open>A schedule: actions of the parties in the order they happen.\<close>

fun gate_run :: "gate_act list \<Rightarrow> gate \<Rightarrow> gate option" where
  "gate_run [] g = Some g"
| "gate_run (a # acts) g = (case gate_do a g of None \<Rightarrow> None | Some g' \<Rightarrow> gate_run acts g')"

section \<open>The invariant\<close>

definition in_pump :: "pump_pc \<Rightarrow> string" where
  "in_pump p = (case p of PumpHave b \<Rightarrow> b | PumpWrite b \<Rightarrow> b | _ \<Rightarrow> [])"

definition in_write :: "pump_pc \<Rightarrow> string" where
  "in_write p = (case p of PumpWrite b \<Rightarrow> b | _ \<Rightarrow> [])"

lemma in_pump_simps [simp]: "in_pump PumpIdle = []" "in_pump (PumpHave b) = b" "in_pump (PumpWrite b) = b"
  "in_pump (PumpEnd c) = []" "in_pump PumpDone = []"
  by (simp_all add: in_pump_def)

lemma in_write_simps [simp]: "in_write PumpIdle = []" "in_write (PumpHave b) = []" "in_write (PumpWrite b) = b"
  "in_write (PumpEnd c) = []" "in_write PumpDone = []"
  by (simp_all add: in_write_def)

text \<open>The bytes handed to the pump, in order, and the ones the scan still has.\<close>

definition sent_part :: "gate \<Rightarrow> string" where
  "sent_part g = g_piped g @ in_pump (g_pump g) @ concat (g_queue g) @ g_tee g"

definition kept_part :: "gate \<Rightarrow> string" where
  "kept_part g = g_held g @ g_pend g @ g_todo g"

text \<open>While nothing was dropped, the body is where it should be.\<close>

definition inv_order :: "string \<Rightarrow> gate \<Rightarrow> bool" where
  "inv_order body g \<longleftrightarrow> (\<not> g_refused g \<and> \<not> g_gone g \<longrightarrow> body = sent_part g @ kept_part g) \<and>
     (\<not> g_holding g \<and> g_phase g = Scanning \<longrightarrow> g_held g = [])"

definition inv_prefix :: "string \<Rightarrow> gate \<Rightarrow> bool" where
  "inv_prefix body g \<longleftrightarrow> prefix (g_piped g @ in_write (g_pump g)) body"

definition inv_phase :: "gate \<Rightarrow> bool" where
  "inv_phase g \<longleftrightarrow>
     (g_out g = None \<longleftrightarrow> g_phase g = Scanning) \<and>
     (g_phase g = Scanning \<longrightarrow> \<not> g_closed g) \<and>
     (g_phase g = Releasing \<longrightarrow> g_out g = Some VClean \<and> kept_part g = [] \<and> \<not> g_closed g) \<and>
     (g_phase g = Draining \<longrightarrow> g_out g = Some VRefused \<and> \<not> g_closed g \<and> g_refused g) \<and>
     (g_complete g \<longrightarrow> g_out g = Some VClean \<and> kept_part g = [] \<and> g_tee g = [] \<and>
        (g_phase g = Finishing \<or> g_phase g = ScanDone)) \<and>
     (g_out g = Some VClean \<longrightarrow> \<not> g_found g)"

definition inv_close :: "string \<Rightarrow> gate \<Rightarrow> bool" where
  "inv_close body g \<longleftrightarrow>
     (g_pump g = PumpEnd True \<or> g_wclose g = Some CleanClose \<longrightarrow>
        g_piped g = body \<and> g_out g = Some VClean \<and> (g_phase g = Finishing \<or> g_phase g = ScanDone)) \<and>
     (g_wclose g = Some CleanClose \<longrightarrow> g_pump g = PumpDone)"

definition inv_held :: "string \<Rightarrow> gate \<Rightarrow> bool" where
  "inv_held body g \<longleftrightarrow>
     (g_phase g = Scanning \<longrightarrow> g_off g + length (g_todo g) = length body) \<and>
     length (g_piped g @ in_write (g_pump g)) + length (g_todo g) \<le> length body \<and>
     (\<forall>h. g_heldFrom g = Some h \<and> g_out g \<noteq> Some VClean \<longrightarrow>
        length (g_piped g @ in_write (g_pump g)) \<le> h \<and>
        (\<not> g_refused g \<and> \<not> g_gone g \<longrightarrow> length (sent_part g) = h \<and> g_holding g)) \<and>
     (g_holding g \<longrightarrow> g_heldFrom g \<noteq> None)"

definition gate_inv :: "string \<Rightarrow> gate \<Rightarrow> bool" where
  "gate_inv body g \<longleftrightarrow> inv_order body g \<and> inv_prefix body g \<and> inv_phase g \<and> inv_close body g \<and> inv_held body g"

lemmas gate_ops = pipe_close_def gate_refuse_def close_refused_def gate_finish_def abandonUpstream_def
  upstreamBody_Close_def handOn_def startHolding_def release_def tee_put_def pump_check_def pump_move_def pump_fail_def
  pump_end_check_def pump_close_def scanning_def

lemmas gate_parts = sent_part_def kept_part_def

lemma gate_inv_init: "gate_inv body (newPushGate body)"
  by (simp add: gate_inv_def inv_order_def inv_prefix_def inv_phase_def inv_close_def inv_held_def
      newPushGate_def gate_parts)

text \<open>Each part is kept by every action; the parts lean on one another only as stated.\<close>

lemma inv_phase_step: "gate_do a g = Some g' \<Longrightarrow> inv_phase g \<Longrightarrow> inv_phase g'"
  by (cases a; clarsimp simp: inv_phase_def gate_ops gate_parts split: if_splits pump_pc.splits list.splits)

lemma inv_order_step:
  "gate_do a g = Some g' \<Longrightarrow> inv_phase g \<Longrightarrow> inv_order body g \<Longrightarrow> inv_order body g'"
  by (cases a; clarsimp simp: inv_phase_def inv_order_def gate_ops gate_parts
        split: if_splits pump_pc.splits list.splits)

lemma inv_prefix_step:
  "gate_do a g = Some g' \<Longrightarrow> inv_order body g \<Longrightarrow> inv_prefix body g \<Longrightarrow> inv_prefix body g'"
  by (cases a; clarsimp simp: inv_order_def inv_prefix_def gate_ops gate_parts
        split: if_splits pump_pc.splits list.splits; erule append_prefixD)

lemma inv_close_step:
  "gate_do a g = Some g' \<Longrightarrow> inv_phase g \<Longrightarrow> inv_order body g \<Longrightarrow> inv_close body g \<Longrightarrow> inv_close body g'"
  by (cases a; clarsimp simp: inv_phase_def inv_order_def inv_close_def gate_ops gate_parts
        split: if_splits pump_pc.splits list.splits)

lemma take_drop_length: "min (length xs) n + (length xs - n) = length xs"
  by simp

lemma inv_held_step:
  "gate_do a g = Some g' \<Longrightarrow> inv_phase g \<Longrightarrow> inv_order body g \<Longrightarrow> inv_held body g \<Longrightarrow> inv_held body g'"
  by (cases a; clarsimp simp: inv_phase_def inv_order_def inv_held_def gate_ops gate_parts take_drop_length
        split: if_splits pump_pc.splits list.splits; linarith)

lemma gate_inv_step: "gate_do a g = Some g' \<Longrightarrow> gate_inv body g \<Longrightarrow> gate_inv body g'"
  unfolding gate_inv_def
  using inv_phase_step inv_order_step inv_prefix_step inv_close_step inv_held_step by blast

text \<open>Any party's step, and schedules as paths of such steps.\<close>

definition gate_step :: "gate \<Rightarrow> gate \<Rightarrow> bool" where
  "gate_step g g' \<longleftrightarrow> (\<exists>a. gate_do a g = Some g')"

lemma gate_run_steps: "gate_run acts g = Some g' \<Longrightarrow> gate_step\<^sup>*\<^sup>* g g'"
proof (induction acts arbitrary: g)
  case Nil
  then show ?case by simp
next
  case (Cons a acts)
  then obtain g1 where "gate_do a g = Some g1" and "gate_run acts g1 = Some g'"
    by (auto split: option.splits)
  with Cons.IH show ?case by (metis converse_rtranclp_into_rtranclp gate_step_def)
qed

interpretation gate_system: preserved gate_step "gate_inv body"
  for body
  by unfold_locales (auto simp: gate_step_def intro: gate_inv_step)

lemma gate_inv_reached: "gate_run acts (newPushGate body) = Some g \<Longrightarrow> gate_inv body g"
  using gate_system.steps_keep gate_run_steps gate_inv_init by blast

lemma gate_receives:
  assumes "gate_run acts (newPushGate body) = Some g"
  shows "prefix (g_piped g) body"
    and "g_wclose g = Some CleanClose \<Longrightarrow> g_piped g = body \<and> g_out g = Some VClean \<and> \<not> g_found g"
    and "g_heldFrom g = Some h \<Longrightarrow> g_out g \<noteq> Some VClean \<Longrightarrow> length (g_piped g) \<le> h"
  using gate_inv_reached [OF assms]
  by (auto simp: gate_inv_def inv_prefix_def inv_close_def inv_phase_def inv_held_def dest: append_prefixD)

section \<open>No deadlock\<close>

definition pump_has :: "pump_pc \<Rightarrow> bool" where
  "pump_has p \<longleftrightarrow> (case p of PumpHave b \<Rightarrow> b \<noteq> [] | PumpWrite b \<Rightarrow> b \<noteq> [] | _ \<Rightarrow> True)"

definition pump_over :: "pump_pc \<Rightarrow> bool" where
  "pump_over p \<longleftrightarrow> (case p of PumpEnd c \<Rightarrow> True | PumpDone \<Rightarrow> True | _ \<Rightarrow> False)"

lemma pump_has_simps [simp]: "pump_has PumpIdle" "pump_has (PumpHave b) = (b \<noteq> [])"
  "pump_has (PumpWrite b) = (b \<noteq> [])" "pump_has (PumpEnd c)" "pump_has PumpDone"
  by (simp_all add: pump_has_def)

lemma pump_over_simps [simp]: "\<not> pump_over PumpIdle" "\<not> pump_over (PumpHave b)"
  "\<not> pump_over (PumpWrite b)" "pump_over (PumpEnd c)" "pump_over PumpDone"
  by (simp_all add: pump_over_def)

definition inv_live :: "gate \<Rightarrow> bool" where
  "inv_live g \<longleftrightarrow> (g_closed g \<longleftrightarrow> g_phase g = Finishing \<or> g_phase g = ScanDone) \<and>
     (g_closed g \<longrightarrow> g_tee g = []) \<and> (pump_over (g_pump g) \<longrightarrow> g_closed g) \<and>
     pump_has (g_pump g) \<and> [] \<notin> set (g_queue g) \<and>
     (g_forge g = ForgeClosed \<longrightarrow> g_rclosed g) \<and>
     (g_forge g = ForgeIdle \<and> g_handler g \<noteq> HandlerRequest \<longrightarrow> g_rclosed g)"

lemma inv_live_init: "inv_live (newPushGate body)"
  by (simp add: inv_live_def newPushGate_def)

lemma scanSourceBuffer_pos: "scanSourceBuffer \<noteq> 0"
  by (simp add: scanSourceBuffer_def)

lemma inv_live_step: "gate_do a g = Some g' \<Longrightarrow> inv_live g \<Longrightarrow> inv_live g'"
  by (cases a; clarsimp simp: inv_live_def gate_ops scanSourceBuffer_pos
        split: if_splits pump_pc.splits list.splits)

interpretation live_system: preserved gate_step inv_live
  by unfold_locales (auto simp: gate_step_def intro: inv_live_step)

lemma inv_live_reached: "gate_run acts (newPushGate body) = Some g \<Longrightarrow> inv_live g"
  using live_system.steps_keep gate_run_steps inv_live_init by blast

text \<open>The steps that depend on nobody's choice: neither on what the scan finds nor on what the forge
  does. A move through the pipe is one, for it happens only while the transport reads; the close
  of a body the transport has stopped reading is one, for the transport owes it.\<close>

definition progress_acts :: "gate_act list" where
  "progress_acts = [TeePut, TeeDrop, TeeGone, ReleaseDone, DrainDone, ScanWait, PumpTake, PumpCheck,
     PumpMove 1, PumpFail, PumpEndCheck, PumpClosePipe, ForgeStart, ForgeClose, ScanAwaited]"

definition can_progress :: "gate \<Rightarrow> bool" where
  "can_progress g \<longleftrightarrow> filter (\<lambda>a. gate_do a g \<noteq> None) progress_acts \<noteq> []"

lemma can_progressI: "a \<in> set progress_acts \<Longrightarrow> gate_do a g \<noteq> None \<Longrightarrow> can_progress g"
  by (auto simp: can_progress_def filter_empty_conv)

lemma pump_progress:
  assumes "inv_live g" and "g_pump g \<noteq> PumpDone" and "g_queue g \<noteq> [] \<or> g_closed g"
  shows "can_progress g"
proof (cases "g_pump g")
  case PumpIdle
  show ?thesis
  proof (cases "g_queue g")
    case Nil
    with PumpIdle assms(3) show ?thesis
      by (intro can_progressI [of PumpEndCheck]) (simp_all add: progress_acts_def)
  next
    case (Cons b q)
    with PumpIdle show ?thesis by (intro can_progressI [of PumpTake]) (simp_all add: progress_acts_def)
  qed
next
  case (PumpHave b)
  then show ?thesis by (intro can_progressI [of PumpCheck]) (simp_all add: progress_acts_def)
next
  case (PumpWrite b)
  with assms(1) have "b \<noteq> []" by (simp add: inv_live_def)
  show ?thesis
  proof (cases "g_wclose g = None \<and> \<not> g_rclosed g")
    case open_pipe: True
    show ?thesis
    proof (cases "g_forge g")
      case ForgeIdle
      with open_pipe assms(1) show ?thesis
        by (intro can_progressI [of ForgeStart]) (auto simp: progress_acts_def inv_live_def)
    next
      case ForgeReading
      with open_pipe PumpWrite \<open>b \<noteq> []\<close> show ?thesis
        by (intro can_progressI [of "PumpMove 1"]) (simp_all add: progress_acts_def Suc_le_eq)
    next
      case ForgeStopped
      then show ?thesis by (intro can_progressI [of ForgeClose]) (simp_all add: progress_acts_def)
    next
      case ForgeClosed
      with open_pipe assms(1) show ?thesis by (simp add: inv_live_def)
    qed
  next
    case False
    with PumpWrite show ?thesis by (intro can_progressI [of PumpFail]) (auto simp: progress_acts_def)
  qed
next
  case (PumpEnd c)
  then show ?thesis by (intro can_progressI [of PumpClosePipe]) (simp_all add: progress_acts_def)
next
  case PumpDone
  with assms(2) show ?thesis by simp
qed

lemma tee_progress:
  assumes live: "inv_live g" and tee: "g_tee g \<noteq> []" and ph: "g_phase g = Scanning \<or> g_phase g = Releasing"
  shows "can_progress g"
proof -
  from live ph have open_q: "\<not> g_closed g" by (auto simp: inv_live_def)
  then have running: "g_pump g \<noteq> PumpDone" using live by (auto simp: inv_live_def)
  consider "g_refused g" | "\<not> g_refused g" "length (g_queue g) < pushGateQueue"
    | "\<not> g_refused g" "g_queue g \<noteq> []" by (cases "g_queue g") (auto simp: pushGateQueue_def)
  then show ?thesis
  proof cases
    case 1
    with tee show ?thesis by (intro can_progressI [of TeeDrop]) (simp_all add: progress_acts_def)
  next
    case 2
    with tee open_q show ?thesis by (intro can_progressI [of TeePut]) (simp_all add: progress_acts_def)
  next
    case 3
    with live running show ?thesis by (intro pump_progress) simp_all
  qed
qed

lemma gate_progress:
  assumes live: "inv_live g" and "g_phase g \<noteq> ScanDone" and "\<not> scanning g"
  shows "can_progress g"
proof (cases "g_phase g")
  case Scanning
  with assms(3) tee_progress [OF live] show ?thesis by (simp add: scanning_def)
next
  case Releasing
  show ?thesis
  proof (cases "g_tee g = []")
    case True
    with Releasing show ?thesis by (intro can_progressI [of ReleaseDone]) (simp_all add: progress_acts_def)
  next
    case False
    with Releasing tee_progress [OF live] show ?thesis by simp
  qed
next
  case Draining
  then show ?thesis by (intro can_progressI [of DrainDone]) (simp_all add: progress_acts_def)
next
  case Finishing
  show ?thesis
  proof (cases "g_pump g = PumpDone")
    case True
    with Finishing show ?thesis by (intro can_progressI [of ScanWait]) (simp_all add: progress_acts_def)
  next
    case False
    with Finishing live show ?thesis by (intro pump_progress) (auto simp: inv_live_def)
  qed
next
  case ScanDone
  with assms(2) show ?thesis by simp
qed

text \<open>Once the scan is done the handler goes on, or the forge owes it an answer.\<close>

definition awaits_answer :: "gate \<Rightarrow> bool" where
  "awaits_answer g \<longleftrightarrow> g_phase g = ScanDone \<and> g_handler g = HandlerRequest \<and> g_forge g \<noteq> ForgeIdle"

lemma handler_progress:
  assumes "g_phase g = ScanDone" and "g_handler g \<noteq> HandlerDone" and "\<not> awaits_answer g"
  shows "can_progress g"
proof (cases "g_handler g")
  case HandlerRequest
  with assms show ?thesis
    by (intro can_progressI [of ForgeStart]) (simp_all add: progress_acts_def awaits_answer_def)
next
  case HandlerWait
  with assms(1) show ?thesis by (intro can_progressI [of ScanAwaited]) (simp_all add: progress_acts_def)
next
  case HandlerDone
  with assms(2) show ?thesis by simp
qed

text \<open>What is left to do: a byte counts more the further it is from the pipe's end.\<close>

fun pump_work :: "pump_pc \<Rightarrow> nat" where
  "pump_work PumpIdle = 2"
| "pump_work (PumpHave b) = 2 + 2 * length b"
| "pump_work (PumpWrite b) = 2 + length b"
| "pump_work (PumpEnd c) = 1"
| "pump_work PumpDone = 0"

fun phase_work :: "scan_phase \<Rightarrow> nat" where
  "phase_work Scanning = 3"
| "phase_work Releasing = 2"
| "phase_work Draining = 2"
| "phase_work Finishing = 1"
| "phase_work ScanDone = 0"

fun forge_work :: "forge_pc \<Rightarrow> nat" where
  "forge_work ForgeIdle = 3"
| "forge_work ForgeReading = 2"
| "forge_work ForgeStopped = 1"
| "forge_work ForgeClosed = 0"

fun handler_work :: "handler_pc \<Rightarrow> nat" where
  "handler_work HandlerRequest = 2"
| "handler_work HandlerWait = 1"
| "handler_work HandlerDone = 0"

definition gate_work :: "gate \<Rightarrow> nat" where
  "gate_work g = 4 * length (g_tee g) + 3 * length (concat (g_queue g)) + pump_work (g_pump g) +
     phase_work (g_phase g) + forge_work (g_forge g) + handler_work (g_handler g)"

lemma queued_work:
  "xs \<noteq> [] \<Longrightarrow> 4 * (length xs - 65536) + 3 * min (length xs) 65536 < 4 * length xs"
  by (cases "length xs \<le> 65536") (auto simp: min_def)

lemma gate_work_step:
  assumes "inv_live g" and "a \<in> set progress_acts" and "gate_do a g = Some g'"
  shows "gate_work g' < gate_work g"
  using assms
  by (cases a; clarsimp simp: progress_acts_def gate_work_def inv_live_def gate_ops scanSourceBuffer_def queued_work
        split: if_splits pump_pc.splits list.splits)

text \<open>A schedule in which a clean push arrives: the pack is handed on, its checksum is held until
  the verdict, and the pipe closes cleanly.\<close>

definition clean_schedule :: "nat \<Rightarrow> nat \<Rightarrow> gate_act list" where
  "clean_schedule n m =
     [ForgeStart, ScanRead n, ScanHandOn, TeePut, ScanHold, ScanRead m, PumpTake, PumpCheck, PumpMove n,
      ScanClean, TeePut, ReleaseDone, PumpTake, PumpCheck, PumpMove m, PumpEndCheck, PumpClosePipe, ScanWait]"

lemma clean_push_completes:
  assumes "pack \<noteq> []" and "check \<noteq> []" and "length pack \<le> scanSourceBuffer" and "length check \<le> scanSourceBuffer"
  shows "\<exists>g. gate_run (clean_schedule (length pack) (length check)) (newPushGate (pack @ check)) = Some g \<and>
    g_wclose g = Some CleanClose \<and> g_piped g = pack @ check \<and> g_heldFrom g = Some (length pack)"
  using assms
  by (simp add: clean_schedule_def newPushGate_def gate_ops pushGateQueue_def)

section \<open>The properties\<close>

text \<open>C1: a push through a session minted with the default policy is let through, byte for byte,
  exactly when it carries between one and sixteen commands and each of them creates or moves a ref
  strictly below refs/heads/cloop/: to the forge where scanning is off, and else to the scan. From
  the scan's gate the forge then receives, under every interleaving, the section and a prefix of
  the rest, and a body that ends cleanly only when it is the whole push and the scan ended clean
  (the scan may refuse it, and the forge may fail). Any other push is answered with nothing sent.
  Whatever the body holds, every command read from it names a ref git accepts.\<close>

theorem default_session_pushes_only_cloop_refs:
  "(case mint_policy zero_policy of
      Inl err \<Rightarrow> False
    | Inr pol \<Rightarrow>
        let_through (fst (handleReceivePack pol scan_off (Some (body, e)))) =
          (if commands_of body e \<noteq> [] \<and> length (commands_of body e) \<le> 16 \<and>
              list_all (\<lambda>u. has_prefix (upd_ref u) ''refs/heads/cloop/'' \<and> \<not> IsDelete u) (commands_of body e)
           then Some (if scan_off then ToForge body else ToScan body) else None) \<and>
        (case fst (handleReceivePack pol scan_off (Some (body, e))) of
           ScanThenForward head raw rest \<Rightarrow>
             rp_commands head = commands_of body e \<and>
             (case gate_run acts (newPushGate rest) of
                None \<Rightarrow> True
              | Some g \<Rightarrow>
                  prefix raw body \<and> prefix (raw @ g_piped g) body \<and>
                  (if g_wclose g = Some CleanClose then raw @ g_piped g = body \<and> g_out g = Some VClean
                   else True))
         | _ \<Rightarrow> True))
   \<and> list_all (\<lambda>u. ValidateRefName (upd_ref u) = None) (commands_of body e)"
  unfolding mint_zero
  by (auto simp: handle_lets_through default_policy_decides DefaultMaxCommands_def commands_of_valid
      dest!: handle_scans dest: gate_receives split: push_outcome.split option.split)

text \<open>C2: under every interleaving of the scan, the pump and the forge's request, what the forge has
  received is a prefix of the body; its body ends cleanly only when it received all of it and the
  scan ended clean without a finding; and until then it holds nothing past the point the scan
  holds back from, the pack's checksum.\<close>

theorem forge_completes_only_a_clean_push:
  "case gate_run acts (newPushGate body) of
     None \<Rightarrow> True
   | Some g \<Rightarrow>
       prefix (g_piped g) body \<and>
       (if g_wclose g = Some CleanClose then g_piped g = body \<and> g_out g = Some VClean \<and> \<not> g_found g
        else True) \<and>
       (case g_heldFrom g of
          None \<Rightarrow> True
        | Some h \<Rightarrow> if g_out g = Some VClean then True else length (g_piped g) \<le> h)"
  using gate_receives by (fastforce split: option.split)

text \<open>C27: the gate cannot deadlock, although the queue is bounded, the pipe has no buffer, finish
  waits for the pump and the handler for the scan. In every reachable state the handler is past
  its wait, or the scan has the next move, or the scan is over and the forge owes its answer, or
  some party can take a step that waits for nobody's choice: bytes move only while the transport
  reads, and where it stopped reading its close of the body, or the handler's, lets the pump go.
  Each such step leaves less to do, so between two moves of the scan or the forge there are
  finitely many.\<close>

theorem push_gate_never_deadlocks:
  "case gate_run acts (newPushGate body) of
     None \<Rightarrow> True
   | Some g \<Rightarrow>
       (if g_handler g = HandlerDone \<or> scanning g \<or> awaits_answer g then True else can_progress g) \<and>
       list_all (\<lambda>a. case gate_do a g of None \<Rightarrow> True | Some g' \<Rightarrow> gate_work g' < gate_work g) progress_acts"
  using inv_live_reached gate_progress handler_progress gate_work_step
  by (fastforce split: option.split simp: list_all_iff)

end
