(* ===== verification/Authz.thy ===== *)
theory Authz
  imports GoStrings
begin

text \<open>
  Claim-based access control (pkg/authz: authz.go, audience.go, freshness.go). A role and a claim
  kind are the strings they are in configuration, since normalisation rewrites them; a permission
  is a datatype with the source's constants. A \<open>map[Permission]struct{}\<close> is a set: the code
  never tells nil from empty. The runtime bindings and the provisioning directory are interfaces:
  the bindings in force at the decision are an optional list, the directory an optional function.
\<close>

section \<open>Permissions and roles\<close>

datatype Permission =
    PermProjectRead | PermProjectWrite | PermRunStart | PermRunStop | PermTaskMutate
  | PermExecutorRead | PermExecutorManage | PermSecretGrant | PermSecretRevoke | PermConfigWrite
  | PermAuditRead | PermUserManage | PermTokenAdmin | PermSessionAdmin | PermViewPrefs
  | PermSandboxAttach | PermSandboxAttachWrite | PermSecretRequest | PermSecretOwn
  | PermProjectShare | PermKnowledgeAdmin | PermPublic | PermOther string

definition AllPermissions :: "Permission list" where
  "AllPermissions =
     [PermProjectRead, PermProjectWrite, PermRunStart, PermRunStop, PermTaskMutate,
      PermExecutorRead, PermExecutorManage, PermSecretGrant, PermSecretRevoke, PermConfigWrite,
      PermAuditRead, PermUserManage, PermTokenAdmin, PermSessionAdmin, PermViewPrefs,
      PermSandboxAttach, PermSandboxAttachWrite, PermSecretRequest, PermSecretOwn,
      PermProjectShare, PermKnowledgeAdmin]"

definition ValidPermission :: "Permission \<Rightarrow> bool" where
  "ValidPermission p \<longleftrightarrow> p \<in> set AllPermissions"

type_synonym Role = string

definition RoleNone :: Role where "RoleNone = ''none''"
definition RoleViewer :: Role where "RoleViewer = ''viewer''"
definition RoleOperator :: Role where "RoleOperator = ''operator''"
definition RoleMaintainer :: Role where "RoleMaintainer = ''maintainer''"
definition RoleAdmin :: Role where "RoleAdmin = ''admin''"

lemmas role_names = RoleNone_def RoleViewer_def RoleOperator_def RoleMaintainer_def RoleAdmin_def

definition AllRoles :: "Role list" where
  "AllRoles = [RoleNone, RoleViewer, RoleOperator, RoleMaintainer, RoleAdmin]"

definition role_rank :: "Role \<Rightarrow> int" where
  "role_rank r =
     (if r = RoleNone then 0 else if r = RoleViewer then 1 else if r = RoleOperator then 2
      else if r = RoleMaintainer then 3 else if r = RoleAdmin then 4 else -1)"

definition ValidRole :: "Role \<Rightarrow> bool" where
  "ValidRole r \<longleftrightarrow> role_rank r \<ge> 0"

definition AtLeast :: "Role \<Rightarrow> Role \<Rightarrow> bool" where
  "AtLeast r other \<longleftrightarrow> (if \<not> ValidRole r \<or> \<not> ValidRole other then False else role_rank r \<ge> role_rank other)"

definition rolePermissions :: "Role \<Rightarrow> Permission list" where
  "rolePermissions r =
     (if r = RoleViewer then [PermProjectRead, PermExecutorRead, PermViewPrefs]
      else if r = RoleOperator then
        [PermProjectRead, PermExecutorRead, PermViewPrefs, PermRunStart, PermRunStop, PermTaskMutate,
         PermSecretRequest, PermSecretOwn]
      else if r = RoleMaintainer then
        [PermProjectRead, PermExecutorRead, PermViewPrefs, PermRunStart, PermRunStop, PermTaskMutate,
         PermSecretRequest, PermSecretOwn, PermProjectWrite, PermConfigWrite, PermSecretGrant,
         PermSecretRevoke, PermProjectShare]
      else if r = RoleAdmin then AllPermissions
      else [])"

definition ParseRole :: "string \<Rightarrow> Role \<times> bool" where
  "ParseRole name =
     (let r = to_lower (trim_space name) in if \<not> ValidRole r then (RoleNone, False) else (r, True))"

section \<open>Bindings, scopes, subjects\<close>

type_synonym ClaimKind = string

definition ClaimGroup :: ClaimKind where "ClaimGroup = ''group''"
definition ClaimRole :: ClaimKind where "ClaimRole = ''role''"
definition ClaimEmail :: ClaimKind where "ClaimEmail = ''email''"
definition ClaimSub :: ClaimKind where "ClaimSub = ''sub''"
definition ClaimUsername :: ClaimKind where "ClaimUsername = ''username''"
definition ClaimOID :: ClaimKind where "ClaimOID = ''oid''"
definition ClaimSCIMGroup :: ClaimKind where "ClaimSCIMGroup = ''scim_group''"

lemmas claim_names = ClaimGroup_def ClaimRole_def ClaimEmail_def ClaimSub_def ClaimUsername_def
  ClaimOID_def ClaimSCIMGroup_def

definition AllClaimKinds :: "ClaimKind list" where
  "AllClaimKinds = [ClaimGroup, ClaimRole, ClaimEmail, ClaimSub, ClaimUsername, ClaimOID, ClaimSCIMGroup]"

definition ValidClaim :: "ClaimKind \<Rightarrow> bool" where
  "ValidClaim c \<longleftrightarrow> c \<in> set AllClaimKinds"

record RoleBinding =
  bd_Claim :: ClaimKind
  bd_Value :: string
  bd_Role :: Role
  bd_Project :: string
  bd_Executor :: string
  bd_Deny :: bool

record Scope =
  sc_Project :: string
  sc_ProjectPath :: string
  sc_Executor :: string

definition GlobalScope :: Scope where
  "GlobalScope = \<lparr>sc_Project = [], sc_ProjectPath = [], sc_Executor = []\<rparr>"

definition IsGlobal :: "Scope \<Rightarrow> bool" where
  "IsGlobal s \<longleftrightarrow> sc_Project s = [] \<and> sc_ProjectPath s = [] \<and> sc_Executor s = []"

definition projectLabel :: "Scope \<Rightarrow> string" where
  "projectLabel s = (if sc_Project s \<noteq> [] then sc_Project s else sc_ProjectPath s)"

record Subject =
  sj_Sub :: string
  sj_Email :: string
  sj_Groups :: "string list"
  sj_Roles :: "string list"
  sj_Username :: string
  sj_OID :: string
  sj_SCIMGroups :: "string list"

definition tier :: "RoleBinding \<Rightarrow> int" where
  "tier b = (if bd_Project b \<noteq> [] then 1 else 0) + (if bd_Executor b \<noteq> [] then 2 else 0)"

definition normalizeClaimValue :: "string \<Rightarrow> string" where
  "normalizeClaimValue v = trim_prefix (trim_space v) ''/''"

fun containsFold :: "string list \<Rightarrow> string \<Rightarrow> bool" where
  "containsFold [] w = False"
| "containsFold (v # vs) w = (equal_fold (normalizeClaimValue v) w \<or> containsFold vs w)"

definition projectMatches :: "string \<Rightarrow> Scope \<Rightarrow> bool" where
  "projectMatches w s \<longleftrightarrow>
     (if sc_Project s \<noteq> [] \<and> equal_fold w (sc_Project s) then True
      else sc_ProjectPath s \<noteq> [] \<and> equal_fold w (sc_ProjectPath s))"

definition appliesTo :: "RoleBinding \<Rightarrow> Scope \<Rightarrow> bool" where
  "appliesTo b s \<longleftrightarrow>
     (if bd_Project b \<noteq> [] \<and> \<not> projectMatches (bd_Project b) s then False
      else if bd_Executor b \<noteq> [] \<and> \<not> equal_fold (bd_Executor b) (sc_Executor s) then False
      else True)"

definition binding_matches :: "RoleBinding \<Rightarrow> Subject \<Rightarrow> bool" where
  "binding_matches b s \<longleftrightarrow>
     (if bd_Claim b = ClaimEmail then
        sj_Email s \<noteq> [] \<and> equal_fold (bd_Value b) (trim_space (sj_Email s))
      else if bd_Claim b = ClaimSub then sj_Sub s \<noteq> [] \<and> bd_Value b = trim_space (sj_Sub s)
      else if bd_Claim b = ClaimUsername then
        trim_space (sj_Username s) \<noteq> [] \<and> equal_fold (bd_Value b) (trim_space (sj_Username s))
      else if bd_Claim b = ClaimOID then
        trim_space (sj_OID s) \<noteq> [] \<and> equal_fold (bd_Value b) (trim_space (sj_OID s))
      else if bd_Claim b = ClaimGroup then containsFold (sj_Groups s) (bd_Value b)
      else if bd_Claim b = ClaimRole then containsFold (sj_Roles s) (bd_Value b)
      else if bd_Claim b = ClaimSCIMGroup then containsFold (sj_SCIMGroups s) (bd_Value b)
      else False)"

definition released :: "Subject option \<Rightarrow> ClaimKind \<Rightarrow> bool" where
  "released subj kind =
     (case subj of None \<Rightarrow> False
      | Some s \<Rightarrow>
          if kind = ClaimGroup then sj_Groups s \<noteq> []
          else if kind = ClaimRole then sj_Roles s \<noteq> []
          else if kind = ClaimEmail then trim_space (sj_Email s) \<noteq> []
          else if kind = ClaimSub then trim_space (sj_Sub s) \<noteq> []
          else if kind = ClaimUsername then trim_space (sj_Username s) \<noteq> []
          else if kind = ClaimOID then trim_space (sj_OID s) \<noteq> []
          else if kind = ClaimSCIMGroup then sj_SCIMGroups s \<noteq> []
          else False)"

definition PresentClaims :: "Subject option \<Rightarrow> ClaimKind list" where
  "PresentClaims subj = (case subj of None \<Rightarrow> [] | Some s \<Rightarrow> filter (released (Some s)) AllClaimKinds)"

definition subject_label :: "Subject option \<Rightarrow> string" where
  "subject_label subj =
     (case subj of None \<Rightarrow> ''anonymous''
      | Some s \<Rightarrow> if sj_Email s \<noteq> [] then to_lower (sj_Email s)
                  else if sj_Sub s \<noteq> [] then ''sub:'' @ sj_Sub s else ''anonymous'')"

section \<open>Decisions\<close>

datatype Source =
    SourceAuthzDisabled | SourceStaticToken | SourceAPIToken | SourceBinding | SourceAdminEmail
  | SourceRuntimeBinding | SourceRuntimeDeny | SourceProjectMember | SourceDefaultRole
  | SourceUnauthenticated | SourceRunSession

record Decision =
  dc_Role :: Role
  dc_Source :: Source
  dc_Scope :: Scope
  dc_Binding :: "RoleBinding option"
  dc_SubjectLabel :: string
  dc_perms :: "Permission set"
  dc_allowAll :: bool

definition Allows :: "Decision \<Rightarrow> Permission \<Rightarrow> bool" where
  "Allows d p \<longleftrightarrow> (if p = PermPublic then True else if dc_allowAll d then True else p \<in> dc_perms d)"

definition Intersect :: "Decision \<Rightarrow> Decision \<Rightarrow> Decision" where
  "Intersect a b =
     (let out = (if role_rank (dc_Role b) < role_rank (dc_Role a) then a\<lparr>dc_Role := dc_Role b\<rparr> else a);
          all = dc_allowAll a \<and> dc_allowAll b;
          ps = (if all then {} else if dc_allowAll a then dc_perms b
                else if dc_allowAll b then dc_perms a else dc_perms a \<inter> dc_perms b);
          out1 = out\<lparr>dc_allowAll := all, dc_perms := ps\<rparr>
      in if \<not> all \<and> ps = {} then out1\<lparr>dc_Role := RoleNone\<rparr> else out1)"

definition Union_decision :: "Decision \<Rightarrow> Decision \<Rightarrow> Decision" where
  "Union_decision a b =
     (if dc_allowAll a then a
      else let out = (if dc_allowAll b \<or> role_rank (dc_Role b) > role_rank (dc_Role a)
                      then b\<lparr>dc_Scope := dc_Scope a\<rparr> else a)
        in if dc_allowAll out then out
           else let ps = dc_perms a \<union> dc_perms b;
                    out1 = (if ps = {} then out\<lparr>dc_Role := RoleNone\<rparr> else out)
             in out1\<lparr>dc_perms := ps\<rparr>)"

definition AllowAll :: "Source \<Rightarrow> string \<Rightarrow> Decision" where
  "AllowAll src lbl = \<lparr>dc_Role = RoleAdmin, dc_Source = src, dc_Scope = GlobalScope, dc_Binding = None,
     dc_SubjectLabel = lbl, dc_perms = {}, dc_allowAll = True\<rparr>"

definition Deny :: "Source \<Rightarrow> string \<Rightarrow> Scope \<Rightarrow> Decision" where
  "Deny src lbl s = \<lparr>dc_Role = RoleNone, dc_Source = src, dc_Scope = s, dc_Binding = None,
     dc_SubjectLabel = lbl, dc_perms = {}, dc_allowAll = False\<rparr>"

fun from_roles_loop :: "Role \<Rightarrow> Permission set \<Rightarrow> Role list \<Rightarrow> Role \<times> Permission set" where
  "from_roles_loop strongest ps [] = (strongest, ps)"
| "from_roles_loop strongest ps (r # rs) =
     (if \<not> ValidRole r then from_roles_loop strongest ps rs
      else from_roles_loop (if role_rank r > role_rank strongest then r else strongest)
             (ps \<union> set (rolePermissions r)) rs)"

definition FromRoles :: "Role list \<Rightarrow> Source \<Rightarrow> string \<Rightarrow> Scope \<Rightarrow> Decision" where
  "FromRoles rs src lbl s =
     (let (strongest, ps) = from_roles_loop RoleNone {} rs in
      \<lparr>dc_Role = strongest, dc_Source = src, dc_Scope = s, dc_Binding = None, dc_SubjectLabel = lbl,
       dc_perms = ps, dc_allowAll = False\<rparr>)"

section \<open>Configuration\<close>

datatype binding_error =
    ClaimRequired | UnknownClaim string | ValueRequired | RoleRequired | UnknownRole string | TwoPins

datatype authz_error = BadDefaultRole string | BadMapping nat binding_error

definition normalizeBinding :: "RoleBinding \<Rightarrow> binding_error + RoleBinding" where
  "normalizeBinding b =
     (let c = to_lower (trim_space (bd_Claim b)) in
      if c = [] then Inl ClaimRequired
      else if \<not> ValidClaim c then Inl (UnknownClaim c)
      else let v = normalizeClaimValue (bd_Value b) in
        if v = [] then Inl ValueRequired
        else let r = to_lower (trim_space (bd_Role b)) in
          if r = [] then Inl RoleRequired
          else if \<not> ValidRole r then Inl (UnknownRole r)
          else Inr (b\<lparr>bd_Claim := c, bd_Value := v, bd_Role := r,
                      bd_Project := trim_space (bd_Project b),
                      bd_Executor := trim_space (bd_Executor b)\<rparr>))"

text \<open>The exported form, for bindings written at run time.\<close>

definition NormalizeBinding :: "RoleBinding \<Rightarrow> binding_error + RoleBinding" where
  "NormalizeBinding b0 =
     (let b = (if bd_Deny b0 \<and> trim_space (bd_Role b0) = [] then b0\<lparr>bd_Role := RoleNone\<rparr> else b0) in
      case normalizeBinding b of
        Inl e \<Rightarrow> Inl e
      | Inr nb \<Rightarrow>
          if bd_Project nb \<noteq> [] \<and> bd_Executor nb \<noteq> [] then Inl TwoPins
          else if bd_Claim nb = ClaimSub then
            (let v = trim_space (bd_Value b) in
             if v = [] then Inl ValueRequired else Inr (nb\<lparr>bd_Value := v\<rparr>))
          else Inr (nb\<lparr>bd_Value := to_lower (bd_Value nb)\<rparr>))"

record Config =
  cf_DefaultRole :: Role
  cf_Bindings :: "RoleBinding list"
  cf_AdminEmails :: "string list"
  cf_Runtime :: "RoleBinding list option"
  cf_Directory :: "(Subject \<Rightarrow> string list) option"

record Resolver =
  rv_defaultRole :: Role
  rv_bindings :: "RoleBinding list"
  rv_runtime :: "RoleBinding list option"
  rv_directory :: "(Subject \<Rightarrow> string list) option"
  rv_configured :: bool

fun normalize_all :: "nat \<Rightarrow> RoleBinding list \<Rightarrow> authz_error + RoleBinding list" where
  "normalize_all i [] = Inr []"
| "normalize_all i (b # bs) =
     (case normalizeBinding b of
        Inl e \<Rightarrow> Inl (BadMapping i e)
      | Inr nb \<Rightarrow> (case normalize_all (Suc i) bs of Inl e \<Rightarrow> Inl e | Inr nbs \<Rightarrow> Inr (nb # nbs)))"

definition admin_binding :: "string \<Rightarrow> RoleBinding" where
  "admin_binding email =
     \<lparr>bd_Claim = ClaimEmail, bd_Value = to_lower email, bd_Role = RoleAdmin, bd_Project = [],
      bd_Executor = [], bd_Deny = False\<rparr>"

definition admin_bindings :: "string list \<Rightarrow> RoleBinding list" where
  "admin_bindings es = map admin_binding (filter (\<lambda>e. e \<noteq> []) (map trim_space es))"

definition New :: "Config \<Rightarrow> authz_error + Resolver" where
  "New cfg =
     (let def = (if cf_DefaultRole cfg = [] then RoleNone else cf_DefaultRole cfg) in
      if \<not> ValidRole def then Inl (BadDefaultRole (cf_DefaultRole cfg))
      else case normalize_all 0 (cf_Bindings cfg) of
        Inl e \<Rightarrow> Inl e
      | Inr bs \<Rightarrow>
          Inr \<lparr>rv_defaultRole = def, rv_bindings = bs @ admin_bindings (cf_AdminEmails cfg),
               rv_runtime = cf_Runtime cfg, rv_directory = cf_Directory cfg,
               rv_configured = (length (cf_Bindings cfg) > 0 \<or> cf_DefaultRole cfg \<noteq> [])\<rparr>)"

definition Enforced_authz :: "bool \<Rightarrow> Resolver option \<Rightarrow> bool" where
  "Enforced_authz sso r \<longleftrightarrow> sso \<and> (case r of None \<Rightarrow> False | Some rv \<Rightarrow> rv_configured rv)"

section \<open>Resolution\<close>

definition runtimeBindings :: "Resolver \<Rightarrow> RoleBinding list" where
  "runtimeBindings r = (case rv_runtime r of None \<Rightarrow> [] | Some bs \<Rightarrow> bs)"

definition withDirectory :: "Resolver \<Rightarrow> Subject \<Rightarrow> Subject" where
  "withDirectory r s =
     (case rv_directory r of
        None \<Rightarrow> if sj_SCIMGroups s = [] then s else s\<lparr>sj_SCIMGroups := []\<rparr>
      | Some dir \<Rightarrow> s\<lparr>sj_SCIMGroups := dir s\<rparr>)"

definition firstDeny :: "RoleBinding list \<Rightarrow> Subject \<Rightarrow> Scope \<Rightarrow> RoleBinding option" where
  "firstDeny bs s sc = find (\<lambda>b. bd_Deny b \<and> appliesTo b sc \<and> binding_matches b s) bs"

text \<open>The loop of \<open>pickBinding\<close> over its three variables.\<close>

fun pick_loop :: "Subject \<Rightarrow> Scope \<Rightarrow> int \<Rightarrow> Role \<Rightarrow> RoleBinding option \<Rightarrow> RoleBinding list \<Rightarrow> RoleBinding option" where
  "pick_loop s sc bestTier bestRole best [] = best"
| "pick_loop s sc bestTier bestRole best (b # bs) =
     (if bd_Deny b \<or> \<not> appliesTo b sc \<or> \<not> binding_matches b s
      then pick_loop s sc bestTier bestRole best bs
      else if tier b > bestTier \<or> (tier b = bestTier \<and> role_rank (bd_Role b) > role_rank bestRole)
      then pick_loop s sc (tier b) (bd_Role b) (Some b) bs
      else pick_loop s sc bestTier bestRole best bs)"

definition pickBinding :: "RoleBinding list \<Rightarrow> Subject \<Rightarrow> Scope \<Rightarrow> RoleBinding option" where
  "pickBinding bs s sc = pick_loop s sc (-1) RoleNone None bs"

definition permSet :: "Role \<Rightarrow> Permission set" where
  "permSet r = set (rolePermissions r)"

definition bound_decision :: "Source \<Rightarrow> RoleBinding \<Rightarrow> Subject \<Rightarrow> Scope \<Rightarrow> Decision" where
  "bound_decision src b s sc =
     \<lparr>dc_Role = bd_Role b, dc_Source = src, dc_Scope = sc, dc_Binding = Some b,
      dc_SubjectLabel = subject_label (Some s), dc_perms = permSet (bd_Role b), dc_allowAll = False\<rparr>"

definition Resolve_authz :: "Resolver option \<Rightarrow> Subject option \<Rightarrow> Scope \<Rightarrow> Decision" where
  "Resolve_authz r subj sc =
     (case r of
        None \<Rightarrow> Deny SourceUnauthenticated [] sc
      | Some rv \<Rightarrow>
          (case subj of
             None \<Rightarrow> Deny SourceUnauthenticated [] sc
           | Some s0 \<Rightarrow>
               let s = withDirectory rv s0; runtime = runtimeBindings rv in
               (case firstDeny runtime s sc of
                  Some b \<Rightarrow> (Deny SourceRuntimeDeny (subject_label (Some s)) sc)\<lparr>dc_Binding := Some b\<rparr>
                | None \<Rightarrow>
                    (case pickBinding runtime s sc of
                       Some b \<Rightarrow> bound_decision SourceRuntimeBinding b s sc
                     | None \<Rightarrow>
                         (case pickBinding (rv_bindings rv) s sc of
                            None \<Rightarrow>
                              \<lparr>dc_Role = rv_defaultRole rv, dc_Source = SourceDefaultRole, dc_Scope = sc,
                               dc_Binding = None, dc_SubjectLabel = subject_label (Some s),
                               dc_perms = permSet (rv_defaultRole rv), dc_allowAll = False\<rparr>
                          | Some b \<Rightarrow>
                              bound_decision
                                (if bd_Claim b = ClaimEmail \<and> bd_Role b = RoleAdmin \<and> tier b = 0
                                 then SourceAdminEmail else SourceBinding) b s sc)))))"

definition DeniedBy :: "Resolver option \<Rightarrow> Subject option \<Rightarrow> Scope \<Rightarrow> RoleBinding option" where
  "DeniedBy r subj sc =
     (case (r, subj) of
        (Some rv, Some s) \<Rightarrow>
          (case rv_runtime rv of
             None \<Rightarrow> None
           | Some runtime \<Rightarrow>
               if runtime = [] then None
               else let s' = (if list_ex (\<lambda>b. bd_Deny b \<and> bd_Claim b = ClaimSCIMGroup) runtime
                              then withDirectory rv s else s)
                 in firstDeny runtime s' sc)
      | _ \<Rightarrow> None)"

definition GlobalAdminBindings :: "Resolver \<Rightarrow> RoleBinding list" where
  "GlobalAdminBindings r =
     filter (\<lambda>b. bd_Role b = RoleAdmin \<and> \<not> bd_Deny b \<and> bd_Project b = [] \<and> bd_Executor b = [])
       (rv_bindings r)"

definition UnsatisfiableBindings :: "Resolver option \<Rightarrow> Subject option \<Rightarrow> RoleBinding list" where
  "UnsatisfiableBindings r subj =
     (case (r, subj) of
        (Some rv, Some s) \<Rightarrow>
          filter (\<lambda>b. bd_Claim b \<noteq> ClaimSCIMGroup \<and> \<not> released (Some s) (bd_Claim b)) (rv_bindings rv)
      | _ \<Rightarrow> [])"

section \<open>Audiences and fresh claims\<close>

record AudienceMember =
  am_Kind :: ClaimKind
  am_Value :: string

definition no_member :: AudienceMember where
  "no_member = \<lparr>am_Kind = [], am_Value = []\<rparr>"

definition AudienceMemberFor :: "string \<Rightarrow> string \<Rightarrow> AudienceMember" where
  "AudienceMemberFor kind v0 =
     (let v = trim_space v0; k = to_lower (trim_space kind) in
      if v = [] then no_member
      else if k = ''group'' then \<lparr>am_Kind = ClaimGroup, am_Value = normalizeClaimValue v\<rparr>
      else if k = ''role'' then \<lparr>am_Kind = ClaimRole, am_Value = normalizeClaimValue v\<rparr>
      else if k = ''user'' then
        (if contains v ''@'' then \<lparr>am_Kind = ClaimEmail, am_Value = v\<rparr>
         else \<lparr>am_Kind = ClaimSub, am_Value = v\<rparr>)
      else no_member)"

definition member_binding :: "AudienceMember \<Rightarrow> RoleBinding" where
  "member_binding m = \<lparr>bd_Claim = am_Kind m, bd_Value = am_Value m, bd_Role = [], bd_Project = [],
     bd_Executor = [], bd_Deny = False\<rparr>"

fun admits_loop :: "AudienceMember list \<Rightarrow> Subject \<Rightarrow> bool" where
  "admits_loop [] s = False"
| "admits_loop (m # ms) s =
     (if trim_space (am_Value m) = [] then admits_loop ms s
      else if binding_matches (member_binding m) s then True
      else admits_loop ms s)"

definition Admits :: "AudienceMember list \<Rightarrow> Subject option \<Rightarrow> bool" where
  "Admits ms subj =
     (if ms = [] then True else case subj of None \<Rightarrow> False | Some s \<Rightarrow> admits_loop ms s)"

definition RequiresFreshClaims :: "Permission \<Rightarrow> bool" where
  "RequiresFreshClaims p \<longleftrightarrow>
     (if p = PermPublic \<or> p = PermOther [] then False else p \<notin> set (rolePermissions RoleOperator))"

definition FreshClaimPermissions :: "Permission list" where
  "FreshClaimPermissions = filter RequiresFreshClaims AllPermissions"

definition RequiresRecentSignIn :: "Permission \<Rightarrow> bool" where
  "RequiresRecentSignIn p =
     (if p \<in> {PermProjectWrite, PermConfigWrite, PermAuditRead} then False
      else if p = PermSecretOwn then True
      else RequiresFreshClaims p)"

section \<open>Lemmas: the role ladder\<close>

lemma role_distinct: "distinct AllRoles"
  by code_simp

lemma rank_bounds: "-1 \<le> role_rank r" "role_rank r \<le> 4"
  by (auto simp: role_rank_def)

lemma rank_valid_cases: "ValidRole r \<Longrightarrow> r \<in> set AllRoles"
  by (auto simp: ValidRole_def role_rank_def AllRoles_def split: if_splits)

lemma ladder_ranks: "role_rank RoleNone = 0" "role_rank RoleViewer = 1" "role_rank RoleOperator = 2"
  "role_rank RoleMaintainer = 3" "role_rank RoleAdmin = 4"
  by code_simp+

lemma ladder_perms: "permSet RoleNone = {}" "permSet RoleNone \<subseteq> permSet RoleViewer"
  "permSet RoleViewer \<subseteq> permSet RoleOperator" "permSet RoleOperator \<subseteq> permSet RoleMaintainer"
  "permSet RoleMaintainer \<subseteq> permSet RoleAdmin"
  by (simp_all add: permSet_def rolePermissions_def role_names AllPermissions_def)

lemma permSet_unknown: "\<not> ValidRole r \<Longrightarrow> permSet r = {}"
  by (auto simp: permSet_def rolePermissions_def ValidRole_def role_rank_def split: if_splits)

lemma permSet_mono: "role_rank r \<le> role_rank q \<Longrightarrow> permSet r \<subseteq> permSet q"
proof (cases "ValidRole r \<and> ValidRole q")
  case True
  then have "r \<in> set AllRoles" and "q \<in> set AllRoles" using rank_valid_cases by auto
  moreover assume "role_rank r \<le> role_rank q"
  ultimately show ?thesis using ladder_perms
    by (auto simp: AllRoles_def ladder_ranks)
next
  case False
  assume le: "role_rank r \<le> role_rank q"
  with False have "\<not> ValidRole r" by (auto simp: ValidRole_def)
  then show ?thesis by (simp add: permSet_unknown)
qed

lemma permSet_rank: "role_rank r = role_rank q \<Longrightarrow> permSet r = permSet q"
  by (simp add: permSet_mono subset_antisym)

lemma from_roles_loop_result:
  "from_roles_loop q ps rs = (q', ps') \<Longrightarrow> ValidRole q \<Longrightarrow> ps = permSet q \<Longrightarrow>
   ValidRole q' \<and> ps' = permSet q' \<and> ps' = ps \<union> (\<Union>r \<in> set rs. permSet r)"
proof (induction rs arbitrary: q ps)
  case Nil
  then show ?case by auto
next
  case (Cons r rs)
  show ?case
  proof (cases "ValidRole r")
    case False
    with Cons show ?thesis by (simp add: permSet_unknown)
  next
    case True
    let ?q = "if role_rank r > role_rank q then r else q"
    have "ps \<union> set (rolePermissions r) = permSet ?q"
      using permSet_mono [of r q] permSet_mono [of q r] Cons.prems(3) by (auto simp: permSet_def)
    moreover have "ValidRole ?q" using True Cons.prems(2) by simp
    moreover have "from_roles_loop ?q (ps \<union> set (rolePermissions r)) rs = (q', ps')"
      using Cons.prems(1) True by simp
    ultimately have "ValidRole q' \<and> ps' = permSet q' \<and>
        ps' = (ps \<union> set (rolePermissions r)) \<union> (\<Union>r \<in> set rs. permSet r)" by (intro Cons.IH)
    then show ?thesis by (auto simp: permSet_def)
  qed
qed

section \<open>Lemmas: picking a binding\<close>

definition candidate :: "Subject \<Rightarrow> Scope \<Rightarrow> RoleBinding \<Rightarrow> bool" where
  "candidate s sc b \<longleftrightarrow> \<not> bd_Deny b \<and> appliesTo b sc \<and> binding_matches b s"

text \<open>Specificity first, then strength.\<close>

definition outranks :: "RoleBinding \<Rightarrow> RoleBinding \<Rightarrow> bool" where
  "outranks b c \<longleftrightarrow> tier b > tier c \<or> (tier b = tier c \<and> role_rank (bd_Role b) > role_rank (bd_Role c))"

interpretation binding_order: strict_weak_order outranks
  by unfold_locales (auto simp: outranks_def)

lemma tier_nonneg: "0 \<le> tier b"
  by (simp add: tier_def)

lemma pick_loop_Some:
  "tr = tier w \<Longrightarrow> role = bd_Role w \<Longrightarrow>
   \<exists>b. pick_loop s sc tr role (Some w) bs = Some b \<and>
     (b = w \<or> b \<in> set (filter (candidate s sc) bs)) \<and> \<not> outranks w b \<and>
     (\<forall>c \<in> set (filter (candidate s sc) bs). \<not> outranks c b)"
proof (induction bs arbitrary: w tr role)
  case Nil
  then show ?case by (simp add: binding_order.irrefl)
next
  case (Cons c bs)
  show ?case
  proof (cases "candidate s sc c \<and> outranks c w")
    case True
    with Cons.prems have "pick_loop s sc tr role (Some w) (c # bs) = pick_loop s sc (tier c) (bd_Role c) (Some c) bs"
      by (auto simp: candidate_def outranks_def)
    moreover from Cons.IH [of "tier c" c "bd_Role c"] obtain b where
      b: "pick_loop s sc (tier c) (bd_Role c) (Some c) bs = Some b"
        "b = c \<or> b \<in> set (filter (candidate s sc) bs)" "\<not> outranks c b"
        "\<forall>c \<in> set (filter (candidate s sc) bs). \<not> outranks c b" by auto
    moreover have "\<not> outranks w b"
      using True b(3) binding_order.asym binding_order.ntrans by blast
    ultimately show ?thesis using True by auto
  next
    case False
    with Cons.prems have "pick_loop s sc tr role (Some w) (c # bs) = pick_loop s sc tr role (Some w) bs"
      by (auto simp: candidate_def outranks_def)
    moreover from Cons.IH [OF Cons.prems] obtain b where
      b: "pick_loop s sc tr role (Some w) bs = Some b"
        "b = w \<or> b \<in> set (filter (candidate s sc) bs)" "\<not> outranks w b"
        "\<forall>c \<in> set (filter (candidate s sc) bs). \<not> outranks c b" by auto
    moreover have "candidate s sc c \<Longrightarrow> \<not> outranks c b"
      using False b(3) binding_order.ntrans by blast
    ultimately show ?thesis by auto
  qed
qed

lemma pick_loop_filter:
  "pick_loop s sc tr role best (filter (candidate s sc) bs) = pick_loop s sc tr role best bs"
  by (induction bs arbitrary: tr role best) (auto simp: candidate_def)

lemma pick_loop_first:
  "pick_loop s sc (-1) RoleNone None bs =
     (case filter (candidate s sc) bs of
        [] \<Rightarrow> None
      | c # cs \<Rightarrow> pick_loop s sc (tier c) (bd_Role c) (Some c) cs)"
proof (induction bs)
  case Nil
  then show ?case by simp
next
  case (Cons c bs)
  show ?case
  proof (cases "candidate s sc c")
    case True
    then have "pick_loop s sc (-1) RoleNone None (c # bs) = pick_loop s sc (tier c) (bd_Role c) (Some c) bs"
      using tier_nonneg [of c] by (simp add: candidate_def)
    with True show ?thesis by (simp add: pick_loop_filter)
  next
    case False
    then have "pick_loop s sc (-1) RoleNone None (c # bs) = pick_loop s sc (-1) RoleNone None bs"
      by (auto simp: candidate_def)
    with False Cons.IH show ?thesis by simp
  qed
qed

lemma pickBinding_cases:
  obtains (none) "pickBinding bs s sc = None" "filter (candidate s sc) bs = []"
  | (some) b where "pickBinding bs s sc = Some b" "b \<in> set (filter (candidate s sc) bs)"
      "\<forall>c \<in> set (filter (candidate s sc) bs). \<not> outranks c b"
proof -
  show thesis
  proof (cases "filter (candidate s sc) bs")
    case Nil
    with pick_loop_first [of s sc bs] none show thesis by (simp add: pickBinding_def)
  next
    case (Cons c cs)
    then have "set (c # cs) = {x \<in> set bs. candidate s sc x}" by (metis set_filter)
    then have "\<forall>x \<in> set cs. candidate s sc x" by auto
    then have cs: "filter (candidate s sc) cs = cs" by simp
    from pick_loop_Some [of "tier c" c "bd_Role c" s sc cs] obtain b where
      "pick_loop s sc (tier c) (bd_Role c) (Some c) cs = Some b" "b = c \<or> b \<in> set cs" "\<not> outranks c b"
      "\<forall>c \<in> set cs. \<not> outranks c b" by (auto simp: cs)
    with pick_loop_first [of s sc bs] Cons some show thesis by (auto simp: pickBinding_def)
  qed
qed

text \<open>The declarative reading: what the most specific and strongest applicable bindings grant.\<close>

definition granted :: "RoleBinding list \<Rightarrow> Permission set" where
  "granted bs = (\<Union>b \<in> {b \<in> set bs. \<forall>c \<in> set bs. \<not> outranks c b}. permSet (bd_Role b))"

lemma granted_winner:
  assumes "b \<in> set bs" and "\<forall>c \<in> set bs. \<not> outranks c b"
  shows "granted bs = permSet (bd_Role b)"
proof -
  have "permSet (bd_Role c) = permSet (bd_Role b)"
    if "c \<in> set bs" "\<forall>d \<in> set bs. \<not> outranks d c" for c
  proof -
    from that assms have "\<not> outranks b c" "\<not> outranks c b" by auto
    then have "role_rank (bd_Role c) = role_rank (bd_Role b)" by (auto simp: outranks_def)
    then show ?thesis by (rule permSet_rank)
  qed
  then have "granted bs = (\<Union>c \<in> {b \<in> set bs. \<forall>c \<in> set bs. \<not> outranks c b}. permSet (bd_Role b))"
    unfolding granted_def by (intro SUP_cong) blast+
  moreover have "{b \<in> set bs. \<forall>c \<in> set bs. \<not> outranks c b} \<noteq> {}" using assms by blast
  ultimately show ?thesis by (simp only: UN_constant if_False)
qed

lemma find_None_filter: "find P xs = None \<longleftrightarrow> filter P xs = []"
  by (auto simp: find_None_iff filter_empty_conv)

section \<open>The properties\<close>

text \<open>C21: what a decision grants is what the declared precedence says: nothing where a runtime
  denial applies; otherwise what the most specific and then strongest applicable runtime
  bindings grant; where none applies, what the configured ones grant; where none of those
  applies either, what the default role grants. No other permission and no order of the bindings
  comes into it.\<close>

theorem resolve_follows_precedence:
  "dc_perms (Resolve_authz (Some rv) (Some s0) sc) =
     (let s = withDirectory rv s0;
          denies = filter (\<lambda>b. bd_Deny b \<and> appliesTo b sc \<and> binding_matches b s) (runtimeBindings rv);
          runtime = filter (candidate s sc) (runtimeBindings rv);
          configured = filter (candidate s sc) (rv_bindings rv)
      in if denies \<noteq> [] then {}
         else if runtime \<noteq> [] then granted runtime
         else if configured \<noteq> [] then granted configured
         else permSet (rv_defaultRole rv))
   \<and> dc_allowAll (Resolve_authz (Some rv) (Some s0) sc) = False"
proof -
  let ?s = "withDirectory rv s0"
  have layer: "pickBinding bs ?s sc = None \<and> filter (candidate ?s sc) bs = [] \<or>
      (\<exists>b. pickBinding bs ?s sc = Some b \<and> filter (candidate ?s sc) bs \<noteq> [] \<and>
        granted (filter (candidate ?s sc) bs) = permSet (bd_Role b))" for bs
  proof (cases rule: pickBinding_cases [of bs ?s sc])
    case none
    then show ?thesis by simp
  next
    case (some b)
    with granted_winner [OF some(2,3)] show ?thesis by (metis list.set_cases list.discI)
  qed
  show ?thesis
  proof (cases "firstDeny (runtimeBindings rv) ?s sc")
    case None
    then have "filter (\<lambda>b. bd_Deny b \<and> appliesTo b sc \<and> binding_matches b ?s) (runtimeBindings rv) = []"
      by (simp add: firstDeny_def find_None_filter)
    with None layer [of "runtimeBindings rv"] layer [of "rv_bindings rv"] show ?thesis
      by (elim disjE exE conjE) (simp_all add: Resolve_authz_def Let_def bound_decision_def)
  next
    case (Some b)
    then have "filter (\<lambda>b. bd_Deny b \<and> appliesTo b sc \<and> binding_matches b ?s) (runtimeBindings rv) \<noteq> []"
      by (metis find_None_filter firstDeny_def option.distinct(1))
    with Some show ?thesis by (simp add: Resolve_authz_def Let_def Deny_def)
  qed
qed

text \<open>a denial only withdraws: with one more deny binding anywhere in the runtime layer, a
  decision grants nothing it did not grant without it.\<close>

theorem deny_binding_only_withdraws:
  "Collect (Allows (Resolve_authz (Some (rv\<lparr>rv_runtime := Some (xs @ d\<lparr>bd_Deny := True\<rparr> # ys)\<rparr>)) subj sc))
   \<subseteq> Collect (Allows (Resolve_authz (Some (rv\<lparr>rv_runtime := Some (xs @ ys)\<rparr>)) subj sc))"
proof (cases subj)
  case None
  then show ?thesis by (simp add: Resolve_authz_def)
next
  case (Some s0)
  let ?d = "d\<lparr>bd_Deny := True\<rparr>"
  let ?s = "withDirectory rv s0"
  have dir: "withDirectory (rv\<lparr>rv_runtime := q\<rparr>) s0 = ?s" for q by (simp add: withDirectory_def)
  have pick: "pickBinding (xs @ ?d # ys) ?s sc = pickBinding (xs @ ys) ?s sc"
    unfolding pickBinding_def by (subst (1 2) pick_loop_filter [symmetric]) (simp add: candidate_def)
  show ?thesis
  proof (cases "firstDeny (xs @ ?d # ys) ?s sc")
    case (Some b)
    with \<open>subj = Some s0\<close> show ?thesis
      by (auto simp: Resolve_authz_def Let_def dir runtimeBindings_def Allows_def Deny_def)
  next
    case None
    then have "firstDeny (xs @ ys) ?s sc = None" by (auto simp: firstDeny_def find_None_filter split: if_splits)
    with None pick \<open>subj = Some s0\<close> show ?thesis
      by (auto simp: Resolve_authz_def Let_def dir runtimeBindings_def split: option.split)
  qed
qed

text \<open>a binding pinned to a project or to an executor has no say over the hub: decisions about
  the global scope are those of the policy without its pinned bindings.\<close>

theorem pinned_bindings_never_reach_the_hub:
  "Resolve_authz
     (Some (rv\<lparr>rv_bindings := filter (\<lambda>b. tier b = 0) (rv_bindings rv),
              rv_runtime := map_option (filter (\<lambda>b. tier b = 0)) (rv_runtime rv)\<rparr>)) subj GlobalScope
   = Resolve_authz (Some rv) subj GlobalScope"
proof (cases subj)
  case None
  then show ?thesis by (simp add: Resolve_authz_def)
next
  case (Some s0)
  let ?s = "withDirectory rv s0"
  let ?rv = "rv\<lparr>rv_bindings := filter (\<lambda>b. tier b = 0) (rv_bindings rv),
              rv_runtime := map_option (filter (\<lambda>b. tier b = 0)) (rv_runtime rv)\<rparr>"
  have fold: "equal_fold x [] \<longleftrightarrow> x = []" for x by (simp add: equal_fold_def to_lower_def)
  have pinned: "tier b = 0 \<or> \<not> appliesTo b GlobalScope" for b
    by (auto simp: tier_def appliesTo_def GlobalScope_def projectMatches_def fold)
  have deny: "firstDeny (filter (\<lambda>b. tier b = 0) bs) ?s GlobalScope = firstDeny bs ?s GlobalScope" for bs
    using pinned by (induction bs) (auto simp: firstDeny_def)
  have "filter (candidate ?s GlobalScope) (filter (\<lambda>b. tier b = 0) bs) = filter (candidate ?s GlobalScope) bs" for bs
    using pinned by (induction bs) (auto simp: candidate_def)
  then have pick: "pickBinding (filter (\<lambda>b. tier b = 0) bs) ?s GlobalScope = pickBinding bs ?s GlobalScope" for bs
    unfolding pickBinding_def by (subst (1 2) pick_loop_filter [symmetric]) simp
  have dir: "withDirectory ?rv s0 = ?s" by (simp add: withDirectory_def)
  have run: "runtimeBindings ?rv = filter (\<lambda>b. tier b = 0) (runtimeBindings rv)"
    by (simp add: runtimeBindings_def split: option.split)
  show ?thesis using Some
    by (auto simp: Resolve_authz_def Let_def dir run deny pick split: option.split)
qed

text \<open>the combinators mean what their names say: an intersection allows what both inputs
  allow, a union what either allows, and a decision made of roles what some known role grants,
  which is what its strongest role grants.\<close>

theorem combined_decisions_are_exact:
  "Allows (Intersect a b) p = (Allows a p \<and> Allows b p)
   \<and> Allows (Union_decision a b) p = (Allows a p \<or> Allows b p)
   \<and> Allows (FromRoles rs src lbl sc) p = (p = PermPublic \<or> (\<exists>r \<in> set rs. p \<in> permSet r))
   \<and> dc_perms (FromRoles rs src lbl sc) = permSet (dc_Role (FromRoles rs src lbl sc))"
proof (intro conjI)
  show "Allows (Intersect a b) p = (Allows a p \<and> Allows b p)"
    by (auto simp: Intersect_def Let_def Allows_def)
  show "Allows (Union_decision a b) p = (Allows a p \<or> Allows b p)"
    by (auto simp: Union_decision_def Let_def Allows_def)
  obtain q ps where l: "from_roles_loop RoleNone {} rs = (q, ps)" by fastforce
  have "ValidRole RoleNone" "({} :: Permission set) = permSet RoleNone"
    by (simp_all add: ValidRole_def ladder_ranks ladder_perms)
  from from_roles_loop_result [OF l this] l
  show "Allows (FromRoles rs src lbl sc) p = (p = PermPublic \<or> (\<exists>r \<in> set rs. p \<in> permSet r))"
    and "dc_perms (FromRoles rs src lbl sc) = permSet (dc_Role (FromRoles rs src lbl sc))"
    by (auto simp: FromRoles_def Allows_def)
qed

text \<open>DeniedBy, which the gate asks ahead of every bypass, and Resolve agree: a denial is
  reported exactly when the decision is a runtime denial, and it is the same binding.\<close>

theorem denied_by_agrees_with_resolve:
  "DeniedBy (Some rv) (Some s) sc =
     (if dc_Source (Resolve_authz (Some rv) (Some s) sc) = SourceRuntimeDeny
      then dc_Binding (Resolve_authz (Some rv) (Some s) sc) else None)"
proof -
  let ?s = "withDirectory rv s"
  let ?bs = "runtimeBindings rv"
  have same: "binding_matches b s = binding_matches b ?s" if "bd_Claim b \<noteq> ClaimSCIMGroup" for b
    using that by (auto simp: binding_matches_def withDirectory_def split: option.split)
  have "firstDeny ?bs s sc = firstDeny ?bs ?s sc"
    if "\<not> list_ex (\<lambda>b. bd_Deny b \<and> bd_Claim b = ClaimSCIMGroup) ?bs"
    using that same unfolding firstDeny_def by (intro find_cong) (auto simp: list_ex_iff)
  then have d: "DeniedBy (Some rv) (Some s) sc = firstDeny ?bs ?s sc"
    by (auto simp: DeniedBy_def runtimeBindings_def Let_def firstDeny_def split: option.split)
  show ?thesis unfolding d
    by (auto simp: Resolve_authz_def Let_def Deny_def bound_decision_def split: option.split)
qed

section \<open>Construction\<close>

definition wf_binding :: "RoleBinding \<Rightarrow> bool" where
  "wf_binding b \<longleftrightarrow> ValidClaim (bd_Claim b) \<and> bd_Value b \<noteq> [] \<and> ValidRole (bd_Role b)"

lemma normalizeBinding_wf: "normalizeBinding b = Inr nb \<Longrightarrow> wf_binding nb"
  by (auto simp: normalizeBinding_def wf_binding_def Let_def split: if_splits)

lemma normalize_all_result:
  "case normalize_all i bs of
     Inr nbs \<Rightarrow> map normalizeBinding bs = map Inr nbs
   | Inl (BadDefaultRole d) \<Rightarrow> False
   | Inl (BadMapping j e) \<Rightarrow> i \<le> j \<and> j < i + length bs \<and> normalizeBinding (bs ! (j - i)) = Inl e \<and>
       list_all (\<lambda>b. \<exists>nb. normalizeBinding b = Inr nb) (take (j - i) bs)"
proof (induction bs arbitrary: i)
  case Nil
  then show ?case by simp
next
  case (Cons b bs)
  show ?case
  proof (cases "normalizeBinding b")
    case (Inl e)
    then show ?thesis by simp
  next
    case (Inr nb)
    with Cons.IH [of "Suc i"] show ?thesis
      by (auto split: sum.splits authz_error.splits simp: nth_Cons' take_Cons' Suc_le_eq)
  qed
qed

text \<open>C39: a resolver is well formed whatever its configuration held: the default role and every
  binding's role are known, every claim kind is known, no binding has an empty value, and the
  configured bindings come first, one per mapping, with the administrators after them.\<close>

theorem resolver_is_well_formed:
  "case New cfg of
     Inl e \<Rightarrow> True
   | Inr rv \<Rightarrow> ValidRole (rv_defaultRole rv) \<and> list_all wf_binding (rv_bindings rv) \<and>
       map normalizeBinding (cf_Bindings cfg) = map Inr (take (length (cf_Bindings cfg)) (rv_bindings rv)) \<and>
       list_all (\<lambda>b. bd_Role b = RoleAdmin \<and> tier b = 0) (drop (length (cf_Bindings cfg)) (rv_bindings rv))"
proof (cases "New cfg")
  case (Inl e)
  then show ?thesis by simp
next
  case (Inr rv)
  then obtain nbs where n: "normalize_all 0 (cf_Bindings cfg) = Inr nbs"
    and rv: "rv_bindings rv = nbs @ admin_bindings (cf_AdminEmails cfg)"
    and def: "ValidRole (rv_defaultRole rv)"
    by (auto simp: New_def Let_def split: if_splits sum.splits)
  from normalize_all_result [of 0 "cf_Bindings cfg"] n
  have m: "map normalizeBinding (cf_Bindings cfg) = map Inr nbs" by simp
  then have len: "length nbs = length (cf_Bindings cfg)" by (metis length_map)
  have "wf_binding b" if "b \<in> set nbs" for b
  proof -
    from that m have "Inr b \<in> set (map normalizeBinding (cf_Bindings cfg))" by simp
    then show ?thesis using normalizeBinding_wf by (auto simp: image_iff)
  qed
  moreover have adm: "list_all (\<lambda>b. wf_binding b \<and> bd_Role b = RoleAdmin \<and> tier b = 0)
      (admin_bindings (cf_AdminEmails cfg))"
    by (auto simp: list_all_iff admin_bindings_def admin_binding_def wf_binding_def tier_def to_lower_def
        ValidClaim_def AllClaimKinds_def ValidRole_def ladder_ranks)
  ultimately show ?thesis using Inr rv def m len by (auto simp: list_all_iff)
qed

text \<open>New fails exactly on the first thing that is wrong: an unknown default role, or else the
  first mapping that does not normalise, named by its index with its own error.\<close>

theorem new_fails_at_first_bad_mapping:
  "case New cfg of
     Inl (BadDefaultRole d) \<Rightarrow> d = cf_DefaultRole cfg \<and> d \<noteq> [] \<and> \<not> ValidRole d
   | Inl (BadMapping i e) \<Rightarrow>
       i < length (cf_Bindings cfg) \<and> normalizeBinding (cf_Bindings cfg ! i) = Inl e \<and>
       list_all (\<lambda>b. \<exists>nb. normalizeBinding b = Inr nb) (take i (cf_Bindings cfg))
   | Inr rv \<Rightarrow> filter (\<lambda>b. \<exists>e. normalizeBinding b = Inl e) (cf_Bindings cfg) = []"
proof -
  have none: "ValidRole RoleNone" by (simp add: ValidRole_def ladder_ranks)
  have ok: "filter (\<lambda>b. \<exists>e. normalizeBinding b = Inl e) bs = []" if "map normalizeBinding bs = map Inr nbs"
    for bs nbs
  proof -
    from that have "\<forall>b \<in> set bs. \<exists>nb. normalizeBinding b = Inr nb"
      by (metis imageE image_eqI list.set_map)
    then show ?thesis by (auto simp: filter_empty_conv)
  qed
  show ?thesis
    using normalize_all_result [of 0 "cf_Bindings cfg"] none ok
    by (auto simp: New_def Let_def split: sum.splits authz_error.splits if_splits)
qed

definition slash_config :: Config where
  "slash_config =
     \<lparr>cf_DefaultRole = RoleNone,
      cf_Bindings = [\<lparr>bd_Claim = ClaimSub, bd_Value = ''/ci'', bd_Role = RoleAdmin, bd_Project = [],
                      bd_Executor = [], bd_Deny = False\<rparr>],
      cf_AdminEmails = [], cf_Runtime = None, cf_Directory = None\<rparr>"

definition subject_of :: "string \<Rightarrow> Subject" where
  "subject_of sub = \<lparr>sj_Sub = sub, sj_Email = [], sj_Groups = [], sj_Roles = [], sj_Username = [],
     sj_OID = [], sj_SCIMGroups = []\<rparr>"

text \<open>a configured binding on an opaque subject loses a leading slash: the mapping that names
  the subject "/ci" as administrator gives nothing to that subject and makes an administrator of
  the subject "ci"; the same binding written at run time keeps it.\<close>

theorem configured_subject_loses_slash:
  "(case New slash_config of
      Inl e \<Rightarrow> False
    | Inr rv \<Rightarrow>
        dc_Role (Resolve_authz (Some rv) (Some (subject_of ''/ci'')) GlobalScope) = RoleNone \<and>
        dc_Role (Resolve_authz (Some rv) (Some (subject_of ''ci'')) GlobalScope) = RoleAdmin)
   \<and> map_sum id bd_Value (NormalizeBinding (hd (cf_Bindings slash_config))) = Inr ''/ci''"
  by code_simp

end
