(* ===== verification/HubLease.thy ===== *)
theory HubLease
  imports GoStrings "HOL-Library.AList"
begin

text \<open>
  The lease that fences a control plane to one hub (pkg/hublease/hublease.go) over the row
  operations of pkg/statedb/hub_instances.go. The table is a list of rows by scope, each SQL
  statement one atomic step on it; a time is stored as text in the code and read back unchanged,
  the zero time as the empty text, so rows hold times. A driver error (\<open>fault\<close>) leaves the table
  as it was. The processes around the table are hubs with an identity, a pid namespace and a phase;
  \<open>lease_do\<close> is one atomic step of one hub, of the clock or of the operator's command, which is one
  more hub here, and a list of actions is an interleaving.
\<close>

section \<open>Rows and the table\<close>

record HubLeaseRow =
  lr_Scope :: string
  lr_InstanceID :: string
  lr_Hostname :: string
  lr_PID :: int
  lr_BootID :: string
  lr_Address :: string
  lr_Version :: string
  lr_AcquiredAt :: time
  lr_HeartbeatAt :: time
  lr_ReleasedAt :: time

definition no_row :: HubLeaseRow where
  "no_row = \<lparr>lr_Scope = [], lr_InstanceID = [], lr_Hostname = [], lr_PID = 0, lr_BootID = [],
     lr_Address = [], lr_Version = [], lr_AcquiredAt = 0, lr_HeartbeatAt = 0, lr_ReleasedAt = 0\<rparr>"

type_synonym lease_db = "(string \<times> HubLeaseRow) list"

declare AList.update_conv' [simp]

datatype lease_error = ErrInstanceRequired | ErrDriver | ErrLeaseLive | ErrRand
  | ErrConflict HubLeaseRow duration bool

definition HubScope :: string where "HubScope = ''hub''"

definition Held :: "HubLeaseRow \<Rightarrow> bool" where
  "Held r \<longleftrightarrow> lr_InstanceID r \<noteq> [] \<and> lr_ReleasedAt r = 0"

definition scope_of :: "string \<Rightarrow> string" where
  "scope_of scope = (if trim_space scope = [] then HubScope else scope)"

definition or_wall :: "time \<Rightarrow> time \<Rightarrow> time" where
  "or_wall wall t = (if t = 0 then wall else t)"

text \<open>The WHERE clause of the upsert: the row is still the one the caller read.\<close>

definition unchanged :: "HubLeaseRow \<Rightarrow> HubLeaseRow \<Rightarrow> bool" where
  "unchanged cur expect \<longleftrightarrow> lr_InstanceID cur = lr_InstanceID expect \<and>
     lr_HeartbeatAt cur = lr_HeartbeatAt expect \<and> lr_ReleasedAt cur = lr_ReleasedAt expect"

definition AcquireHubLease ::
    "time \<Rightarrow> bool \<Rightarrow> HubLeaseRow \<Rightarrow> HubLeaseRow \<Rightarrow> lease_db \<Rightarrow> (lease_error + bool) \<times> lease_db" where
  "AcquireHubLease wall fault row expect db =
     (let row = row\<lparr>lr_Scope := scope_of (lr_Scope row)\<rparr> in
      if trim_space (lr_InstanceID row) = [] then (Inl ErrInstanceRequired, db)
      else
        let row = row\<lparr>lr_AcquiredAt := or_wall wall (lr_AcquiredAt row),
                      lr_HeartbeatAt := or_wall wall (lr_HeartbeatAt row), lr_ReleasedAt := 0\<rparr> in
        if fault then (Inl ErrDriver, db)
        else case map_of db (lr_Scope row) of
               None \<Rightarrow> (Inr True, AList.update (lr_Scope row) row db)
             | Some cur \<Rightarrow>
                 if unchanged cur expect then (Inr True, AList.update (lr_Scope row) row db) else (Inr False, db))"

text \<open>An UPDATE of the row of a scope: how many rows change is whether the condition holds.\<close>

definition update_row ::
    "string \<Rightarrow> (HubLeaseRow \<Rightarrow> bool) \<Rightarrow> (HubLeaseRow \<Rightarrow> HubLeaseRow) \<Rightarrow> lease_db \<Rightarrow> bool \<times> lease_db" where
  "update_row scope cond upd db =
     (case map_of db scope of
        None \<Rightarrow> (False, db)
      | Some cur \<Rightarrow> if cond cur then (True, AList.update scope (upd cur) db) else (False, db))"

definition RenewHubLease ::
    "time \<Rightarrow> bool \<Rightarrow> string \<Rightarrow> string \<Rightarrow> time \<Rightarrow> lease_db \<Rightarrow> (lease_error + bool) \<times> lease_db" where
  "RenewHubLease wall fault scope inst at db =
     (if trim_space inst = [] then (Inl ErrInstanceRequired, db)
      else if fault then (Inl ErrDriver, db)
      else map_prod Inr id
             (update_row (scope_of scope) (\<lambda>r. lr_InstanceID r = inst \<and> lr_ReleasedAt r = 0)
                (lr_HeartbeatAt_update (\<lambda>_. or_wall wall at)) db))"

definition ReleaseHubLease ::
    "time \<Rightarrow> bool \<Rightarrow> string \<Rightarrow> string \<Rightarrow> time \<Rightarrow> lease_db \<Rightarrow> (lease_error + bool) \<times> lease_db" where
  "ReleaseHubLease wall fault scope inst at db =
     (if trim_space inst = [] then (Inl ErrInstanceRequired, db)
      else if fault then (Inl ErrDriver, db)
      else map_prod Inr id
             (update_row (scope_of scope) (\<lambda>r. lr_InstanceID r = inst \<and> lr_ReleasedAt r = 0)
                (lr_ReleasedAt_update (\<lambda>_. or_wall wall at)) db))"

definition ClearHubLease ::
    "time \<Rightarrow> bool \<Rightarrow> string \<Rightarrow> HubLeaseRow \<Rightarrow> time \<Rightarrow> lease_db \<Rightarrow> (lease_error + bool) \<times> lease_db" where
  "ClearHubLease wall fault scope expect at db =
     (if trim_space (lr_InstanceID expect) = [] then (Inl ErrInstanceRequired, db)
      else if fault then (Inl ErrDriver, db)
      else map_prod Inr id
             (update_row (scope_of scope)
                (\<lambda>r. lr_InstanceID r = lr_InstanceID expect \<and>
                     lr_HeartbeatAt r = lr_HeartbeatAt expect \<and> lr_ReleasedAt r = 0)
                (lr_ReleasedAt_update (\<lambda>_. or_wall wall at)) db))"

text \<open>\<open>GetHubLease\<close> as \<open>readLease\<close> sees it: no row is the zero row.\<close>

definition GetHubLease :: "string \<Rightarrow> lease_db \<Rightarrow> HubLeaseRow option" where
  "GetHubLease scope db = map_of db (scope_of scope)"

definition readLease :: "bool \<Rightarrow> string \<Rightarrow> lease_db \<Rightarrow> lease_error + HubLeaseRow" where
  "readLease fault scope db =
     (if fault then Inl ErrDriver
      else case GetHubLease scope db of None \<Rightarrow> Inr no_row | Some r \<Rightarrow> Inr r)"

section \<open>Judging a row\<close>

record Identity =
  id_Hostname :: string
  id_PID :: int
  id_BootID :: string

definition DefaultTTL :: duration where "DefaultTTL = 60 * go_second"
definition DefaultInterval :: duration where "DefaultInterval = 20 * go_second"

definition SameBoot :: "string \<Rightarrow> string \<Rightarrow> bool" where
  "SameBoot recorded self =
     (if recorded = [] \<or> self = [] then False
      else if recorded = self then True
      else if contains recorded ''+'' then False
      else recorded = (case cut_at CHR ''+'' self of None \<Rightarrow> self | Some (kern, _) \<Rightarrow> kern))"

datatype reason = NeverTaken | WasReleased | StoppedBeating | ProcessGone

text \<open>The verdict: \<open>Some\<close> with the reason when the lease may be taken.\<close>

definition evaluate ::
    "HubLeaseRow \<Rightarrow> Identity \<Rightarrow> time \<Rightarrow> duration \<Rightarrow> (int \<Rightarrow> bool) \<Rightarrow> reason option" where
  "evaluate row self now ttl alive =
     (if lr_InstanceID row = [] then Some NeverTaken
      else if lr_ReleasedAt row \<noteq> 0 then Some WasReleased
      else if lr_HeartbeatAt row = 0 \<or> time_sub now (lr_HeartbeatAt row) \<ge> ttl then Some StoppedBeating
      else if lr_Hostname row \<noteq> [] \<and> lr_Hostname row = id_Hostname self \<and>
              SameBoot (lr_BootID row) (id_BootID self) \<and> lr_PID row > 0 \<and> \<not> alive (lr_PID row)
      then Some ProcessGone
      else None)"

section \<open>Acquire, Inspect and Clear\<close>

record Options =
  op_Scope :: string
  op_Address :: string
  op_Version :: string
  op_TTL :: duration
  op_Interval :: duration
  op_Identity :: Identity
  op_InstanceID :: string

definition lease_scope :: "Options \<Rightarrow> string" where
  "lease_scope opts = (let s = trim_space (op_Scope opts) in if s = [] then HubScope else s)"

definition lease_ttl :: "Options \<Rightarrow> duration" where
  "lease_ttl opts = (if op_TTL opts \<le> 0 then DefaultTTL else op_TTL opts)"

definition lease_interval :: "Options \<Rightarrow> duration" where
  "lease_interval opts = (if op_Interval opts \<le> 0 then DefaultInterval else op_Interval opts)"

definition lease_self :: "Identity \<Rightarrow> Options \<Rightarrow> Identity" where
  "lease_self local_id opts =
     (let self = op_Identity opts in
      if id_Hostname self = [] \<and> id_PID self = 0 \<and> id_BootID self = [] then local_id else self)"

text \<open>What a call finds around it: the clock at each of its readings, the answer of the process
  probe, this process, the id minted for it (\<open>None\<close> when the random source fails), driver errors,
  and what others do to the table between its statements.\<close>

record lease_env =
  e_judge :: time
  e_at :: time
  e_age :: time
  e_wall :: time
  e_alive :: "int \<Rightarrow> bool"
  e_local :: Identity
  e_minted :: "string option"
  e_read_fault :: bool
  e_write_fault :: bool
  e_reread_fault :: bool
  e_between :: "lease_db \<Rightarrow> lease_db"
  e_after :: "lease_db \<Rightarrow> lease_db"

record Lease =
  ls_scope :: string
  ls_instanceID :: string
  ls_row :: HubLeaseRow
  ls_ttl :: duration
  ls_interval :: duration

definition acquire_row :: "string \<Rightarrow> string \<Rightarrow> Identity \<Rightarrow> string \<Rightarrow> string \<Rightarrow> time \<Rightarrow> HubLeaseRow" where
  "acquire_row scope inst self address version at =
     \<lparr>lr_Scope = scope, lr_InstanceID = inst, lr_Hostname = id_Hostname self, lr_PID = id_PID self,
      lr_BootID = id_BootID self, lr_Address = address, lr_Version = version,
      lr_AcquiredAt = at, lr_HeartbeatAt = at, lr_ReleasedAt = 0\<rparr>"

definition Acquire :: "Options \<Rightarrow> lease_env \<Rightarrow> lease_db \<Rightarrow> (lease_error + Lease) \<times> lease_db" where
  "Acquire opts env db =
     (let scope = lease_scope opts; ttl = lease_ttl opts; self = lease_self (e_local env) opts;
          given = trim_space (op_InstanceID opts) in
      case (if given = [] then e_minted env else Some given) of
        None \<Rightarrow> (Inl ErrRand, db)
      | Some inst \<Rightarrow>
          (case readLease (e_read_fault env) scope db of
             Inl e \<Rightarrow> (Inl e, db)
           | Inr observed \<Rightarrow>
               if evaluate observed self (e_judge env) ttl (e_alive env) = None
               then (Inl (ErrConflict observed (time_sub (e_age env) (lr_HeartbeatAt observed)) False), db)
               else
                 let row = acquire_row scope inst self (op_Address opts) (op_Version opts) (e_at env) in
                 (case AcquireHubLease (e_wall env) (e_write_fault env) row observed (e_between env db) of
                    (Inl e, db1) \<Rightarrow> (Inl e, db1)
                  | (Inr True, db1) \<Rightarrow>
                      (Inr \<lparr>ls_scope = scope, ls_instanceID = inst, ls_row = row, ls_ttl = ttl,
                            ls_interval = lease_interval opts\<rparr>, db1)
                  | (Inr False, db1) \<Rightarrow>
                      let db2 = e_after env db1 in
                      (case readLease (e_reread_fault env) scope db2 of
                         Inl e \<Rightarrow> (Inl e, db2)
                       | Inr winner \<Rightarrow>
                           (Inl (ErrConflict winner (time_sub (e_age env) (lr_HeartbeatAt winner)) True),
                            db2)))))"

record Status_lease =
  st_Present :: bool
  st_Row :: HubLeaseRow
  st_Live :: bool
  st_Age :: duration
  st_Expires :: duration
  st_Reason :: "reason option"
  st_TTL :: duration

definition Inspect :: "Options \<Rightarrow> lease_env \<Rightarrow> lease_db \<Rightarrow> lease_error + Status_lease" where
  "Inspect opts env db =
     (let ttl = lease_ttl opts; self = lease_self (e_local env) opts in
      case readLease (e_read_fault env) (lease_scope opts) db of
        Inl e \<Rightarrow> Inl e
      | Inr row \<Rightarrow>
          if lr_InstanceID row = []
          then Inr \<lparr>st_Present = False, st_Row = no_row, st_Live = False, st_Age = 0, st_Expires = 0,
                    st_Reason = Some NeverTaken, st_TTL = ttl\<rparr>
          else
            let v = evaluate row self (e_judge env) ttl (e_alive env);
                age = (if lr_HeartbeatAt row = 0 then 0 else time_sub (e_age env) (lr_HeartbeatAt row))
            in Inr \<lparr>st_Present = True, st_Row = row, st_Live = (v = None), st_Age = age,
                    st_Expires = (if lr_HeartbeatAt row \<noteq> 0 \<and> v = None then ttl - age else 0),
                    st_Reason = v, st_TTL = ttl\<rparr>)"

text \<open>The row is returned with and without an error.\<close>

definition Clear_lease ::
    "Options \<Rightarrow> lease_env \<Rightarrow> lease_db \<Rightarrow> (HubLeaseRow \<times> lease_error option) \<times> lease_db" where
  "Clear_lease opts env db =
     (let scope = lease_scope opts; self = lease_self (e_local env) opts in
      case readLease (e_read_fault env) scope db of
        Inl e \<Rightarrow> ((no_row, Some e), db)
      | Inr row \<Rightarrow>
          if lr_InstanceID row = [] \<or> lr_ReleasedAt row \<noteq> 0 then ((row, None), db)
          else if evaluate row self (e_judge env) (lease_ttl opts) (e_alive env) = None
          then ((row, Some ErrLeaseLive), db)
          else (case ClearHubLease (e_wall env) (e_write_fault env) scope row (e_at env) (e_between env db) of
                  (Inl e, db1) \<Rightarrow> ((row, Some e), db1)
                | (Inr True, db1) \<Rightarrow> ((row, None), db1)
                | (Inr False, db1) \<Rightarrow> ((row, Some ErrLeaseLive), db1)))"

section \<open>The system\<close>

text \<open>Where a hub is: between the statements of \<open>Acquire\<close> (\<open>Observed\<close> with the row read, \<open>Cleared\<close>
  for takeable by the verdict, \<open>Stamped\<close> with the row to write and the row expected); holding, with
  the heartbeat goroutine not started, waiting for its ticker (with \<open>lastOK\<close>), about to renew (with
  the stamp taken), or back from a renewal; stood down; or between the statements of \<open>Clear\<close>.\<close>

datatype hub_phase =
  Unborn | Resting
| Observed HubLeaseRow | MayTake HubLeaseRow | Stamped HubLeaseRow HubLeaseRow
| Acquired | Holding time | Beating time time | BeatFailed time | BeatLanded
| StoodDown
| ClearObserved HubLeaseRow | MayClear HubLeaseRow
| Crashed

record hub =
  hb_InstanceID :: string
  hb_Identity :: Identity
  hb_ns :: nat
  hb_phase :: hub_phase
  hb_beat :: time

record hub_system =
  sy_db :: lease_db
  sy_now :: time
  sy_ttl :: duration
  sy_hubs :: "hub list"

definition running :: "hub \<Rightarrow> bool" where
  "running h \<longleftrightarrow> hb_phase h \<noteq> Unborn \<and> hb_phase h \<noteq> Crashed"

text \<open>Signal 0 sent by a process: it reaches the processes of the sender's pid namespace, the hubs
  there and any other (\<open>other\<close>).\<close>

definition processAlive :: "hub_system \<Rightarrow> hub \<Rightarrow> bool \<Rightarrow> int \<Rightarrow> bool" where
  "processAlive s h other pid \<longleftrightarrow> pid > 0 \<and>
     (other \<or> list_ex (\<lambda>k. running k \<and> hb_ns k = hb_ns h \<and> id_PID (hb_Identity k) = pid) (sy_hubs s))"

definition hub_verdict :: "hub_system \<Rightarrow> hub \<Rightarrow> bool \<Rightarrow> HubLeaseRow \<Rightarrow> reason option" where
  "hub_verdict s h other row =
     evaluate row (hb_Identity h) (sy_now s) (sy_ttl s) (processAlive s h other)"

definition set_hub :: "nat \<Rightarrow> hub \<Rightarrow> hub_system \<Rightarrow> hub_system" where
  "set_hub i h s = s\<lparr>sy_hubs := (sy_hubs s)[i := h]\<rparr>"

text \<open>The heartbeat goroutine after a renewal.\<close>

definition after_renewal :: "time \<Rightarrow> lease_error + bool \<Rightarrow> hub_phase" where
  "after_renewal lastOK r =
     (case r of Inl e \<Rightarrow> BeatFailed lastOK | Inr False \<Rightarrow> StoodDown | Inr True \<Rightarrow> BeatLanded)"

definition after_failure :: "time \<Rightarrow> duration \<Rightarrow> time \<Rightarrow> hub_phase" where
  "after_failure now ttl lastOK = (if time_sub now lastOK \<ge> ttl then StoodDown else Holding lastOK)"

datatype lease_act =
  Pass duration
| Boot nat | Crash nat
| AcqRead nat | AcqJudge nat bool | AcqStamp nat | AcqWrite nat bool
| StartBeat nat | BeatStamp nat | BeatWrite nat bool | BeatNote nat
| GiveUp nat bool
| ClrRead nat | ClrJudge nat bool | ClrWrite nat bool

fun hub_do :: "hub_system \<Rightarrow> hub \<Rightarrow> lease_act \<Rightarrow> (hub \<times> lease_db) option" where
  "hub_do s h (Boot i) =
     (if hb_phase h = Unborn then Some (h\<lparr>hb_phase := Resting\<rparr>, sy_db s) else None)"
| "hub_do s h (Crash i) =
     (if running h then Some (h\<lparr>hb_phase := Crashed\<rparr>, sy_db s) else None)"
| "hub_do s h (AcqRead i) =
     (if hb_phase h = Resting
      then (case readLease False HubScope (sy_db s) of
              Inl e \<Rightarrow> None | Inr r \<Rightarrow> Some (h\<lparr>hb_phase := Observed r\<rparr>, sy_db s))
      else None)"
| "hub_do s h (AcqJudge i other) =
     (case hb_phase h of
        Observed r \<Rightarrow>
          Some (h\<lparr>hb_phase := (if hub_verdict s h other r = None then Resting else MayTake r)\<rparr>, sy_db s)
      | _ \<Rightarrow> None)"
| "hub_do s h (AcqStamp i) =
     (case hb_phase h of
        MayTake r \<Rightarrow>
          Some (h\<lparr>hb_phase :=
            Stamped (acquire_row HubScope (hb_InstanceID h) (hb_Identity h) [] [] (sy_now s)) r\<rparr>, sy_db s)
      | _ \<Rightarrow> None)"
| "hub_do s h (AcqWrite i fault) =
     (case hb_phase h of
        Stamped row r \<Rightarrow>
          (case AcquireHubLease (sy_now s) fault row r (sy_db s) of
             (Inr True, db) \<Rightarrow> Some (h\<lparr>hb_phase := Acquired, hb_beat := lr_HeartbeatAt row\<rparr>, db)
           | (_, db) \<Rightarrow> Some (h\<lparr>hb_phase := Resting\<rparr>, db))
      | _ \<Rightarrow> None)"
| "hub_do s h (StartBeat i) =
     (if hb_phase h = Acquired then Some (h\<lparr>hb_phase := Holding (sy_now s)\<rparr>, sy_db s) else None)"
| "hub_do s h (BeatStamp i) =
     (case hb_phase h of
        Holding lastOK \<Rightarrow> Some (h\<lparr>hb_phase := Beating lastOK (sy_now s)\<rparr>, sy_db s) | _ \<Rightarrow> None)"
| "hub_do s h (BeatWrite i fault) =
     (case hb_phase h of
        Beating lastOK at \<Rightarrow>
          (let (r, db) = RenewHubLease (sy_now s) fault HubScope (hb_InstanceID h) at (sy_db s)
           in Some (h\<lparr>hb_phase := after_renewal lastOK r,
                      hb_beat := (if r = Inr True then at else hb_beat h)\<rparr>, db))
      | _ \<Rightarrow> None)"
| "hub_do s h (BeatNote i) =
     (case hb_phase h of
        BeatLanded \<Rightarrow> Some (h\<lparr>hb_phase := Holding (sy_now s)\<rparr>, sy_db s)
      | BeatFailed lastOK \<Rightarrow>
          Some (h\<lparr>hb_phase := after_failure (sy_now s) (sy_ttl s) lastOK\<rparr>, sy_db s)
      | _ \<Rightarrow> None)"
| "hub_do s h (GiveUp i fault) =
     (case hb_phase h of
        Acquired \<Rightarrow> Some (h\<lparr>hb_phase := Resting\<rparr>,
                      snd (ReleaseHubLease (sy_now s) fault HubScope (hb_InstanceID h) (sy_now s) (sy_db s)))
      | Holding lastOK \<Rightarrow> Some (h\<lparr>hb_phase := Resting\<rparr>,
                      snd (ReleaseHubLease (sy_now s) fault HubScope (hb_InstanceID h) (sy_now s) (sy_db s)))
      | StoodDown \<Rightarrow> Some (h\<lparr>hb_phase := Resting\<rparr>,
                      snd (ReleaseHubLease (sy_now s) fault HubScope (hb_InstanceID h) (sy_now s) (sy_db s)))
      | _ \<Rightarrow> None)"
| "hub_do s h (ClrRead i) =
     (if hb_phase h = Resting
      then (case readLease False HubScope (sy_db s) of
              Inl e \<Rightarrow> None | Inr r \<Rightarrow> Some (h\<lparr>hb_phase := ClearObserved r\<rparr>, sy_db s))
      else None)"
| "hub_do s h (ClrJudge i other) =
     (case hb_phase h of
        ClearObserved r \<Rightarrow>
          Some (h\<lparr>hb_phase := (if lr_InstanceID r = [] \<or> lr_ReleasedAt r \<noteq> 0 \<or>
                                  hub_verdict s h other r = None then Resting else MayClear r)\<rparr>, sy_db s)
      | _ \<Rightarrow> None)"
| "hub_do s h (ClrWrite i fault) =
     (case hb_phase h of
        MayClear r \<Rightarrow>
          Some (h\<lparr>hb_phase := Resting\<rparr>,
                snd (ClearHubLease (sy_now s) fault HubScope r (sy_now s) (sy_db s)))
      | _ \<Rightarrow> None)"
| "hub_do s h (Pass d) = None"

fun act_hub :: "lease_act \<Rightarrow> nat" where
  "act_hub (Pass d) = 0"
| "act_hub (Boot i) = i" | "act_hub (Crash i) = i"
| "act_hub (AcqRead i) = i" | "act_hub (AcqJudge i b) = i" | "act_hub (AcqStamp i) = i"
| "act_hub (AcqWrite i b) = i"
| "act_hub (StartBeat i) = i" | "act_hub (BeatStamp i) = i" | "act_hub (BeatWrite i b) = i"
| "act_hub (BeatNote i) = i"
| "act_hub (GiveUp i b) = i"
| "act_hub (ClrRead i) = i" | "act_hub (ClrJudge i b) = i" | "act_hub (ClrWrite i b) = i"

definition lease_do :: "lease_act \<Rightarrow> hub_system \<Rightarrow> hub_system option" where
  "lease_do a s =
     (case a of
        Pass d \<Rightarrow> if 0 \<le> d then Some (s\<lparr>sy_now := sy_now s + d\<rparr>) else None
      | _ \<Rightarrow>
          if act_hub a < length (sy_hubs s) then
            (case hub_do s (sy_hubs s ! act_hub a) a of
               None \<Rightarrow> None
             | Some (h, db) \<Rightarrow> Some ((set_hub (act_hub a) h s)\<lparr>sy_db := db\<rparr>))
          else None)"

fun lease_run :: "lease_act list \<Rightarrow> hub_system \<Rightarrow> hub_system option" where
  "lease_run [] s = Some s"
| "lease_run (a # acts) s = (case lease_do a s of None \<Rightarrow> None | Some s' \<Rightarrow> lease_run acts s')"

definition lease_step :: "hub_system \<Rightarrow> hub_system \<Rightarrow> bool" where
  "lease_step s s' \<longleftrightarrow> (\<exists>a. lease_do a s = Some s')"

text \<open>A deployment before its first hub: every hub has an id of its own; where two hubs would trust
  each other's pid, they share a pid namespace; the table holds nothing of these hubs.\<close>

definition sys_start :: "hub_system \<Rightarrow> bool" where
  "sys_start s \<longleftrightarrow> sy_now s > 0 \<and> 0 < sy_ttl s \<and> sy_ttl s \<le> max_int64 \<and>
     distinct (map hb_InstanceID (sy_hubs s)) \<and>
     list_all (\<lambda>h. trim_space (hb_InstanceID h) \<noteq> [] \<and> hb_phase h = Unborn) (sy_hubs s) \<and>
     list_all (\<lambda>h. list_all (\<lambda>k. id_Hostname (hb_Identity h) = id_Hostname (hb_Identity k) \<and>
                SameBoot (id_BootID (hb_Identity h)) (id_BootID (hb_Identity k)) \<longrightarrow> hb_ns h = hb_ns k)
              (sy_hubs s)) (sy_hubs s) \<and>
     (case map_of (sy_db s) HubScope of None \<Rightarrow> True
      | Some r \<Rightarrow> lr_InstanceID r \<notin> set (map hb_InstanceID (sy_hubs s)) \<and> lr_HeartbeatAt r \<le> sy_now s)"

text \<open>A hub that believes it holds the lease, and whose last heartbeat is within the TTL.\<close>

definition believes :: "hub \<Rightarrow> bool" where
  "believes h = (case hb_phase h of Acquired \<Rightarrow> True | Holding t \<Rightarrow> True | Beating t u \<Rightarrow> True
     | BeatFailed t \<Rightarrow> True | BeatLanded \<Rightarrow> True | _ \<Rightarrow> False)"

definition entitled :: "hub_system \<Rightarrow> hub \<Rightarrow> bool" where
  "entitled s h \<longleftrightarrow> believes h \<and> sy_now s - hb_beat h < sy_ttl s"

section \<open>The invariant\<close>

definition rec_ok :: "hub_system \<Rightarrow> HubLeaseRow \<Rightarrow> bool" where
  "rec_ok s r \<longleftrightarrow> lr_HeartbeatAt r \<le> sy_now s \<and> (\<forall>h \<in> set (sy_hubs s). hb_InstanceID h = lr_InstanceID r \<longrightarrow>
     hb_phase h \<noteq> Unborn \<and> lr_Hostname r = id_Hostname (hb_Identity h) \<and>
     lr_PID r = id_PID (hb_Identity h) \<and> lr_BootID r = id_BootID (hb_Identity h))"

text \<open>Nobody can come back to a lease that the row of this kind describes.\<close>

definition gone :: "hub_system \<Rightarrow> HubLeaseRow \<Rightarrow> bool" where
  "gone s r \<longleftrightarrow> lr_InstanceID r = [] \<or> lr_ReleasedAt r \<noteq> 0 \<or> lr_HeartbeatAt r = 0 \<or>
     sy_now s - lr_HeartbeatAt r \<ge> sy_ttl s \<or>
     (\<forall>h \<in> set (sy_hubs s). hb_InstanceID h = lr_InstanceID r \<longrightarrow> hb_phase h = Crashed)"

definition mine :: "lease_db \<Rightarrow> hub \<Rightarrow> bool" where
  "mine db h = (case map_of db HubScope of None \<Rightarrow> False
     | Some r \<Rightarrow> lr_InstanceID r = hb_InstanceID h \<and> lr_HeartbeatAt r = hb_beat h \<and> lr_ReleasedAt r = 0)"

definition phase_ok :: "hub_system \<Rightarrow> hub \<Rightarrow> bool" where
  "phase_ok s h =
     (case hb_phase h of
        Observed r \<Rightarrow> rec_ok s r
      | MayTake r \<Rightarrow> gone s r
      | Stamped row r \<Rightarrow> gone s r \<and>
          (\<exists>t. row = acquire_row HubScope (hb_InstanceID h) (hb_Identity h) [] [] t \<and> 0 < t \<and> t \<le> sy_now s)
      | Beating lastOK at \<Rightarrow> 0 < at \<and> at \<le> sy_now s
      | ClearObserved r \<Rightarrow> rec_ok s r
      | MayClear r \<Rightarrow> gone s r \<and> lr_ReleasedAt r = 0
      | _ \<Rightarrow> True)"

definition hold_ok :: "hub_system \<Rightarrow> hub \<Rightarrow> bool" where
  "hold_ok s h \<longleftrightarrow> (believes h \<longrightarrow> 0 < hb_beat h \<and> hb_beat h \<le> sy_now s) \<and>
     (entitled s h \<longrightarrow> mine (sy_db s) h)"

definition sys_consts :: "hub_system \<Rightarrow> bool" where
  "sys_consts s \<longleftrightarrow> sy_now s > 0 \<and> 0 < sy_ttl s \<and> sy_ttl s \<le> max_int64 \<and>
     distinct (map hb_InstanceID (sy_hubs s)) \<and>
     (\<forall>h \<in> set (sy_hubs s). trim_space (hb_InstanceID h) \<noteq> [] \<and>
        (\<forall>k \<in> set (sy_hubs s). id_Hostname (hb_Identity h) = id_Hostname (hb_Identity k) \<and>
           SameBoot (id_BootID (hb_Identity h)) (id_BootID (hb_Identity k)) \<longrightarrow> hb_ns h = hb_ns k))"

definition lease_inv :: "hub_system \<Rightarrow> bool" where
  "lease_inv s \<longleftrightarrow> sys_consts s \<and>
     (case map_of (sy_db s) HubScope of None \<Rightarrow> True | Some r \<Rightarrow> rec_ok s r) \<and>
     (\<forall>h \<in> set (sy_hubs s). phase_ok s h \<and> hold_ok s h)"

lemma lease_inv_start:
  assumes "sys_start s"
  shows "lease_inv s"
proof -
  have un: "hb_phase h = Unborn" if "h \<in> set (sy_hubs s)" for h
    using assms that by (auto simp: sys_start_def list_all_iff)
  then have ok: "phase_ok s h \<and> hold_ok s h" if "h \<in> set (sy_hubs s)" for h
    using that by (simp add: phase_ok_def hold_ok_def entitled_def believes_def)
  have row: "case map_of (sy_db s) HubScope of None \<Rightarrow> True | Some r \<Rightarrow> rec_ok s r"
    using assms by (auto simp: sys_start_def rec_ok_def image_iff split: option.splits)
  have "sys_consts s"
    using assms unfolding sys_start_def sys_consts_def list_all_iff by blast
  with ok row show ?thesis by (simp add: lease_inv_def)
qed

text \<open>What a step may do to the hubs: identities stay, nothing goes back to unborn, the dead stay dead.\<close>

definition evolves :: "hub \<Rightarrow> hub \<Rightarrow> bool" where
  "evolves h h' \<longleftrightarrow> hb_InstanceID h' = hb_InstanceID h \<and> hb_Identity h' = hb_Identity h \<and> hb_ns h' = hb_ns h \<and>
     (hb_phase h \<noteq> Unborn \<longrightarrow> hb_phase h' \<noteq> Unborn) \<and> (hb_phase h = Crashed \<longrightarrow> hb_phase h' = Crashed)"

lemma evolves_refl [simp]: "evolves h h"
  by (simp add: evolves_def)

lemma set_hub_simps [simp]:
  "sy_now (set_hub i h s) = sy_now s" "sy_ttl (set_hub i h s) = sy_ttl s" "sy_db (set_hub i h s) = sy_db s"
  "sy_hubs (set_hub i h s) = (sy_hubs s)[i := h]"
  by (simp_all add: set_hub_def)

lemma evolved_from:
  assumes "evolves (hs ! i) h'" and "k \<in> set (hs[i := h'])"
  obtains h where "h \<in> set hs" and "evolves h k"
proof (cases "i < length hs \<and> k = h'")
  case True
  with assms(1) that nth_mem show thesis by blast
next
  case False
  with assms(2) have "k \<in> set hs"
    using set_update_subset_insert [of hs i h'] by (cases "i < length hs") (auto simp: list_update_beyond)
  with that show thesis by (auto intro: evolves_refl)
qed

text \<open>What was said of a row stays said after a step.\<close>

lemma rec_ok_step:
  assumes "rec_ok s r" and "evolves (sy_hubs s ! i) h'"
  shows "rec_ok ((set_hub i h' s)\<lparr>sy_db := db\<rparr>) r"
  unfolding rec_ok_def
proof (intro conjI ballI impI)
  show "lr_HeartbeatAt r \<le> sy_now ((set_hub i h' s)\<lparr>sy_db := db\<rparr>)" using assms(1) by (simp add: rec_ok_def)
next
  fix k
  assume "k \<in> set (sy_hubs ((set_hub i h' s)\<lparr>sy_db := db\<rparr>))" and "hb_InstanceID k = lr_InstanceID r"
  with assms evolved_from [of "sy_hubs s" i h' k] obtain h where "h \<in> set (sy_hubs s)" "evolves h k" by auto
  with assms(1) \<open>hb_InstanceID k = lr_InstanceID r\<close>
  show "hb_phase k \<noteq> Unborn" "lr_Hostname r = id_Hostname (hb_Identity k)"
     "lr_PID r = id_PID (hb_Identity k)" "lr_BootID r = id_BootID (hb_Identity k)"
    by (auto simp: rec_ok_def evolves_def)
qed

lemma gone_step:
  assumes "gone s r" and "evolves (sy_hubs s ! i) h'"
  shows "gone ((set_hub i h' s)\<lparr>sy_db := db\<rparr>) r"
proof (cases "\<forall>h \<in> set (sy_hubs s). hb_InstanceID h = lr_InstanceID r \<longrightarrow> hb_phase h = Crashed")
  case True
  have "hb_phase k = Crashed" if "k \<in> set ((sy_hubs s)[i := h'])" "hb_InstanceID k = lr_InstanceID r" for k
    using that True assms(2) evolved_from [of "sy_hubs s" i h' k] by (metis evolves_def)
  then show ?thesis by (auto simp: gone_def)
qed (use assms(1) in \<open>auto simp: gone_def\<close>)

lemma sys_consts_step:
  assumes "sys_consts s" and "evolves (sy_hubs s ! i) h'"
  shows "sys_consts ((set_hub i h' s)\<lparr>sy_db := db\<rparr>)"
proof -
  have "map hb_InstanceID ((sy_hubs s)[i := h']) = map hb_InstanceID (sy_hubs s)"
    using assms(2) by (cases "i < length (sy_hubs s)") (simp_all add: map_update evolves_def list_update_same_conv list_update_beyond)
  moreover have "\<exists>h \<in> set (sy_hubs s). hb_InstanceID k = hb_InstanceID h \<and> hb_Identity k = hb_Identity h \<and>
      hb_ns k = hb_ns h" if "k \<in> set ((sy_hubs s)[i := h'])" for k
    using evolved_from [OF assms(2) that] by (metis evolves_def)
  ultimately show ?thesis using assms(1) unfolding sys_consts_def
    by simp metis
qed

lemma phase_ok_step:
  assumes "phase_ok s h" and "evolves (sy_hubs s ! i) h'"
  shows "phase_ok ((set_hub i h' s)\<lparr>sy_db := db\<rparr>) h"
  using assms(1) by (cases "hb_phase h") (auto simp: phase_ok_def intro: rec_ok_step gone_step assms(2))

text \<open>The frame of every step of a hub: what is left to show is the hub's own part, the row it leaves,
  and that no other hub is deprived.\<close>

lemma lease_inv_hub:
  assumes inv: "lease_inv s" and i: "i < length (sy_hubs s)" and ev: "evolves (sy_hubs s ! i) h'"
    and row: "case map_of db HubScope of None \<Rightarrow> True
       | Some r \<Rightarrow> rec_ok ((set_hub i h' s)\<lparr>sy_db := db\<rparr>) r"
    and own: "phase_ok ((set_hub i h' s)\<lparr>sy_db := db\<rparr>) h'" "hold_ok ((set_hub i h' s)\<lparr>sy_db := db\<rparr>) h'"
    and others: "\<And>k. k \<in> set (sy_hubs s) \<Longrightarrow> hb_InstanceID k \<noteq> hb_InstanceID (sy_hubs s ! i) \<Longrightarrow>
       entitled s k \<Longrightarrow> mine (sy_db s) k \<Longrightarrow> mine db k"
  shows "lease_inv ((set_hub i h' s)\<lparr>sy_db := db\<rparr>)" (is "lease_inv ?t")
proof -
  have k_ok: "phase_ok ?t k \<and> hold_ok ?t k" if k: "k \<in> set (sy_hubs ?t)" for k
  proof (cases "k = h'")
    case True
    with own show ?thesis by simp
  next
    case False
    from k have "k \<in> set ((sy_hubs s)[i := h'])" by simp
    then obtain j where j: "j < length (sy_hubs s)" "(sy_hubs s)[i := h'] ! j = k" "j \<noteq> i"
      using False i by (metis in_set_conv_nth length_list_update nth_list_update_eq)
    then have mem: "k \<in> set (sy_hubs s)" and kj: "sy_hubs s ! j = k" by auto
    from inv have "distinct (map hb_InstanceID (sy_hubs s))" by (simp add: lease_inv_def sys_consts_def)
    with i j kj have ne: "hb_InstanceID k \<noteq> hb_InstanceID (sy_hubs s ! i)"
      by (metis (no_types, lifting) distinct_conv_nth length_map nth_map)
    from inv mem have "phase_ok s k" "hold_ok s k" by (auto simp: lease_inv_def)
    with others [OF mem ne] ev show ?thesis by (auto simp: hold_ok_def entitled_def intro: phase_ok_step)
  qed
  from inv ev have "sys_consts ?t" by (auto simp: lease_inv_def intro: sys_consts_step)
  with row k_ok show ?thesis by (simp add: lease_inv_def)
qed

lemma lease_inv_local:
  assumes "lease_inv s" and "i < length (sy_hubs s)" and "evolves (sy_hubs s ! i) h'"
    and "phase_ok s h'" and "hold_ok s h'"
  shows "lease_inv ((set_hub i h' s)\<lparr>sy_db := sy_db s\<rparr>)"
proof (rule lease_inv_hub [OF assms(1-3)])
  show "case map_of (sy_db s) HubScope of None \<Rightarrow> True | Some r \<Rightarrow> rec_ok ((set_hub i h' s)\<lparr>sy_db := sy_db s\<rparr>) r"
    using assms(1) rec_ok_step [OF _ assms(3)] by (auto simp: lease_inv_def split: option.split)
  show "phase_ok ((set_hub i h' s)\<lparr>sy_db := sy_db s\<rparr>) h'" by (rule phase_ok_step [OF assms(4,3)])
  show "hold_ok ((set_hub i h' s)\<lparr>sy_db := sy_db s\<rparr>) h'" using assms(5) by (simp add: hold_ok_def entitled_def)
qed

lemma judged_gone:
  assumes inv: "lease_inv s" and h: "h \<in> set (sy_hubs s)" and r: "rec_ok s r"
    and v: "hub_verdict s h other r = Some why"
  shows "gone s r"
proof (cases why)
  case ProcessGone
  with v have same: "lr_Hostname r = id_Hostname (hb_Identity h)" "SameBoot (lr_BootID r) (id_BootID (hb_Identity h))"
    and dead: "lr_PID r > 0" "\<not> processAlive s h other (lr_PID r)"
    by (auto simp: hub_verdict_def evaluate_def split: if_splits)
  have "hb_phase k = Crashed" if k: "k \<in> set (sy_hubs s)" "hb_InstanceID k = lr_InstanceID r" for k
  proof -
    from r k have id: "hb_phase k \<noteq> Unborn" "lr_Hostname r = id_Hostname (hb_Identity k)"
      "lr_PID r = id_PID (hb_Identity k)" "lr_BootID r = id_BootID (hb_Identity k)"
      by (auto simp: rec_ok_def)
    with same inv k(1) h have "hb_ns k = hb_ns h" by (simp add: lease_inv_def sys_consts_def)
    with dead k(1) id have "\<not> running k" by (auto simp: processAlive_def list_ex_iff)
    with id show ?thesis by (simp add: running_def)
  qed
  then show ?thesis by (simp add: gone_def)
next
  case StoppedBeating
  with v have "lr_HeartbeatAt r = 0 \<or> sy_ttl s \<le> time_sub (sy_now s) (lr_HeartbeatAt r)"
    by (auto simp: hub_verdict_def evaluate_def split: if_splits)
  moreover have "0 < sy_ttl s" "sy_ttl s \<le> max_int64" using inv by (auto simp: lease_inv_def sys_consts_def)
  ultimately show ?thesis by (auto simp: gone_def time_sub_def max_int64_def min_int64_def split: if_splits)
qed (use v in \<open>auto simp: hub_verdict_def evaluate_def gone_def split: if_splits\<close>)

text \<open>No hub that is entitled loses the row to a write on a row that is gone or that is another's.\<close>

lemma not_deprived:
  assumes inv: "lease_inv s" and k: "k \<in> set (sy_hubs s)" "entitled s k" "mine (sy_db s) k"
    and cur: "map_of (sy_db s) HubScope = Some r" and r: "gone s r \<or> lr_InstanceID r = j" and ne: "hb_InstanceID k \<noteq> j"
  shows False
proof -
  from k(3) cur have m: "lr_InstanceID r = hb_InstanceID k" "lr_HeartbeatAt r = hb_beat k" "lr_ReleasedAt r = 0"
    by (auto simp: mine_def)
  from inv k(1) have "trim_space (hb_InstanceID k) \<noteq> []" "hold_ok s k"
    by (auto simp: lease_inv_def sys_consts_def)
  moreover from this have "hb_InstanceID k \<noteq> []" by (auto simp: trim_space_def)
  ultimately show False using r ne m k by (auto simp: gone_def entitled_def hold_ok_def believes_def)
qed

lemma scope_HubScope [simp]: "scope_of HubScope = HubScope"
  by (simp add: scope_of_def HubScope_def)

text \<open>An update of the lease's row by a hub's own steps or of a row that is gone.\<close>

lemma lease_inv_write:
  assumes inv: "lease_inv s" and i: "i < length (sy_hubs s)" and ev: "evolves (sy_hubs s ! i) h'"
    and db: "db = sy_db s \<or> (\<exists>new. db = AList.update HubScope new (sy_db s) \<and> rec_ok s new \<and>
       (case map_of (sy_db s) HubScope of None \<Rightarrow> True | Some r \<Rightarrow> gone s r \<or> lr_InstanceID r = hb_InstanceID h'))"
    and own: "phase_ok s h'" "hold_ok (s\<lparr>sy_db := db\<rparr>) h'"
  shows "lease_inv ((set_hub i h' s)\<lparr>sy_db := db\<rparr>)"
proof (rule lease_inv_hub [OF inv i ev])
  show "case map_of db HubScope of None \<Rightarrow> True | Some r \<Rightarrow> rec_ok ((set_hub i h' s)\<lparr>sy_db := db\<rparr>) r"
    using db inv rec_ok_step [OF _ ev] by (auto simp: lease_inv_def split: option.split)
  show "phase_ok ((set_hub i h' s)\<lparr>sy_db := db\<rparr>) h'" by (rule phase_ok_step [OF own(1) ev])
  show "hold_ok ((set_hub i h' s)\<lparr>sy_db := db\<rparr>) h'" using own(2) by (simp add: hold_ok_def entitled_def)
next
  fix k
  assume k: "k \<in> set (sy_hubs s)" "hb_InstanceID k \<noteq> hb_InstanceID (sy_hubs s ! i)" "entitled s k" "mine (sy_db s) k"
  from ev k(2) have ne: "hb_InstanceID k \<noteq> hb_InstanceID h'" by (simp add: evolves_def)
  from k(4) obtain r where r: "map_of (sy_db s) HubScope = Some r" by (auto simp: mine_def split: option.splits)
  with not_deprived [OF inv k(1,3,4) r _ ne] db k(4) show "mine db k" by auto
qed

lemma update_row_cases:
  assumes "update_row scope cond upd db = (b, db')"
  obtains "\<not> b" "db' = db" | r where "b" "map_of db scope = Some r" "cond r" "db' = AList.update scope (upd r) db"
  using assms by (auto simp: update_row_def split: option.splits if_splits)

lemma same_hub:
  assumes "sys_consts s" and "h \<in> set (sy_hubs s)" and "k \<in> set (sy_hubs s)"
    and "hb_InstanceID k = hb_InstanceID h"
  shows "k = h"
  using assms by (auto simp: sys_consts_def distinct_map inj_on_def)

lemma own_row_ok:
  assumes "lease_inv s" and "h \<in> set (sy_hubs s)" and "hb_phase h \<noteq> Unborn"
    and "lr_InstanceID r = hb_InstanceID h" and "lr_Hostname r = id_Hostname (hb_Identity h)"
    and "lr_PID r = id_PID (hb_Identity h)" and "lr_BootID r = id_BootID (hb_Identity h)"
    and "lr_HeartbeatAt r \<le> sy_now s"
  shows "rec_ok s r"
  using assms same_hub [of s h] unfolding rec_ok_def lease_inv_def by metis

lemma rec_ok_fields:
  "rec_ok s r \<Longrightarrow> lr_InstanceID r' = lr_InstanceID r \<Longrightarrow> lr_Hostname r' = lr_Hostname r \<Longrightarrow>
   lr_PID r' = lr_PID r \<Longrightarrow> lr_BootID r' = lr_BootID r \<Longrightarrow> lr_HeartbeatAt r' \<le> sy_now s \<Longrightarrow> rec_ok s r'"
  by (simp add: rec_ok_def)

lemma db_row_ok: "lease_inv s \<Longrightarrow> map_of (sy_db s) HubScope = Some r \<Longrightarrow> rec_ok s r"
  by (simp add: lease_inv_def)

lemma read_row_ok: "lease_inv s \<Longrightarrow> readLease False HubScope (sy_db s) = Inr r \<Longrightarrow> rec_ok s r"
  by (auto simp: readLease_def GetHubLease_def db_row_ok no_row_def rec_ok_def lease_inv_def sys_consts_def
      trim_space_def split: option.splits)

lemma unchanged_gone: "unchanged cur r \<Longrightarrow> gone s r \<longleftrightarrow> gone s cur"
  by (simp add: unchanged_def gone_def)

lemma mine_phase [simp]: "mine db (h\<lparr>hb_phase := p\<rparr>) = mine db h"
  by (simp add: mine_def split: option.split)

text \<open>The four writes.\<close>

lemma acquire_step:
  assumes inv: "lease_inv s" and i: "i < length (sy_hubs s)" and h: "sy_hubs s ! i = h"
    and st: "hub_do s h (AcqWrite i fault) = Some (h', db)"
  shows "lease_inv ((set_hub i h' s)\<lparr>sy_db := db\<rparr>)"
proof -
  from st obtain row r where ph: "hb_phase h = Stamped row r" by (auto split: hub_phase.splits)
  have mem: "h \<in> set (sy_hubs s)" using i h nth_mem by blast
  with inv have pk: "phase_ok s h" and t: "trim_space (hb_InstanceID h) \<noteq> []"
    by (auto simp: lease_inv_def sys_consts_def)
  from pk ph obtain at where rowd: "row = acquire_row HubScope (hb_InstanceID h) (hb_Identity h) [] [] at"
    and hb: "0 < at" "at \<le> sy_now s" and g: "gone s r" by (auto simp: phase_ok_def)
  have rok: "rec_ok s row" using own_row_ok [OF inv mem] ph hb by (simp add: rowd acquire_row_def)
  have "h' = h\<lparr>hb_phase := Resting\<rparr> \<and> db = sy_db s \<or>
     h' = h\<lparr>hb_phase := Acquired, hb_beat := at\<rparr> \<and> db = AList.update HubScope row (sy_db s) \<and>
     (case map_of (sy_db s) HubScope of None \<Rightarrow> True | Some cur \<Rightarrow> unchanged cur r)"
    using st ph t hb by (auto simp: AcquireHubLease_def Let_def or_wall_def rowd acquire_row_def split: option.splits if_splits)
  then show ?thesis
  proof
    assume "h' = h\<lparr>hb_phase := Resting\<rparr> \<and> db = sy_db s"
    with inv i h show ?thesis
      by (intro lease_inv_write) (auto simp: evolves_def phase_ok_def hold_ok_def entitled_def believes_def ph)
  next
    assume a: "h' = h\<lparr>hb_phase := Acquired, hb_beat := at\<rparr> \<and> db = AList.update HubScope row (sy_db s) \<and>
      (case map_of (sy_db s) HubScope of None \<Rightarrow> True | Some cur \<Rightarrow> unchanged cur r)"
    show ?thesis
    proof (rule lease_inv_write [OF inv i])
      show "evolves (sy_hubs s ! i) h'" using a h by (simp add: evolves_def ph)
      show "phase_ok s h'" using a by (simp add: phase_ok_def)
      show "hold_ok (s\<lparr>sy_db := db\<rparr>) h'" using a hb by (simp add: hold_ok_def believes_def mine_def rowd acquire_row_def)
      show "db = sy_db s \<or> (\<exists>new. db = AList.update HubScope new (sy_db s) \<and> rec_ok s new \<and>
         (case map_of (sy_db s) HubScope of None \<Rightarrow> True | Some r \<Rightarrow> gone s r \<or> lr_InstanceID r = hb_InstanceID h'))"
        using a rok g unchanged_gone [of _ r s] by (auto split: option.splits)
    qed
  qed
qed

lemma renew_effect:
  assumes st: "hub_do s h (BeatWrite i fault) = Some (h', db)" and ph: "hb_phase h = Beating l at"
    and t: "trim_space (hb_InstanceID h) \<noteq> []" and at: "0 < at"
  shows "h' = h\<lparr>hb_phase := BeatFailed l\<rparr> \<and> db = sy_db s \<or> h' = h\<lparr>hb_phase := StoodDown\<rparr> \<and> db = sy_db s \<or>
    (\<exists>r. h' = h\<lparr>hb_phase := BeatLanded, hb_beat := at\<rparr> \<and> map_of (sy_db s) HubScope = Some r \<and>
       lr_InstanceID r = hb_InstanceID h \<and> lr_ReleasedAt r = 0 \<and>
       db = AList.update HubScope (r\<lparr>lr_HeartbeatAt := at\<rparr>) (sy_db s))"
proof (cases fault)
  case True
  from st have "(h', db) = (h\<lparr>hb_phase := BeatFailed l\<rparr>, sy_db s)"
    using True t by (simp add: ph RenewHubLease_def after_renewal_def)
  then show ?thesis by simp
next
  case False
  show ?thesis
  proof (cases "map_of (sy_db s) HubScope")
    case None
    from st have "(h', db) = (h\<lparr>hb_phase := StoodDown\<rparr>, sy_db s)"
      using None False t by (simp add: ph RenewHubLease_def update_row_def after_renewal_def)
    then show ?thesis by simp
  next
    case (Some r)
    show ?thesis
    proof (cases "lr_InstanceID r = hb_InstanceID h \<and> lr_ReleasedAt r = 0")
      case True
      from st have "(h', db) = (h\<lparr>hb_phase := BeatLanded, hb_beat := at\<rparr>, AList.update HubScope (r\<lparr>lr_HeartbeatAt := at\<rparr>) (sy_db s))"
        using True Some False t at by (simp add: ph RenewHubLease_def update_row_def after_renewal_def or_wall_def)
      with True Some show ?thesis by simp
    next
      case no: False
      from st have "(h', db) = (h\<lparr>hb_phase := StoodDown\<rparr>, sy_db s)"
        using no Some False t by (auto simp add: ph RenewHubLease_def update_row_def after_renewal_def)
      then show ?thesis by simp
    qed
  qed
qed

lemma renew_step:
  assumes inv: "lease_inv s" and i: "i < length (sy_hubs s)" and h: "sy_hubs s ! i = h"
    and st: "hub_do s h (BeatWrite i fault) = Some (h', db)"
  shows "lease_inv ((set_hub i h' s)\<lparr>sy_db := db\<rparr>)"
proof -
  from st obtain l at where ph: "hb_phase h = Beating l at" by (auto split: hub_phase.splits)
  have mem: "h \<in> set (sy_hubs s)" using i h nth_mem by blast
  with inv ph have at: "0 < at" "at \<le> sy_now s" and t: "trim_space (hb_InstanceID h) \<noteq> []"
    and hold: "hold_ok s h" by (auto simp: lease_inv_def phase_ok_def sys_consts_def)
  consider (failed) "h' = h\<lparr>hb_phase := BeatFailed l\<rparr>" "db = sy_db s"
    | (lost) "h' = h\<lparr>hb_phase := StoodDown\<rparr>" "db = sy_db s"
    | (ok) r where "h' = h\<lparr>hb_phase := BeatLanded, hb_beat := at\<rparr>" "map_of (sy_db s) HubScope = Some r"
        "lr_InstanceID r = hb_InstanceID h" "lr_ReleasedAt r = 0" "db = AList.update HubScope (r\<lparr>lr_HeartbeatAt := at\<rparr>) (sy_db s)"
    using renew_effect [OF st ph t at(1)] by blast
  then show ?thesis
  proof cases
    case failed
    with inv i h hold show ?thesis
      by (intro lease_inv_write) (auto simp: evolves_def phase_ok_def hold_ok_def entitled_def believes_def ph)
  next
    case lost
    with inv i h show ?thesis
      by (intro lease_inv_write) (auto simp: evolves_def phase_ok_def hold_ok_def entitled_def believes_def ph)
  next
    case ok
    have "rec_ok s (r\<lparr>lr_HeartbeatAt := at\<rparr>)"
      by (rule rec_ok_fields [OF db_row_ok [OF inv ok(2)]]) (simp_all add: at)
    with ok at inv i h show ?thesis
      by (intro lease_inv_write) (auto simp: evolves_def phase_ok_def hold_ok_def entitled_def believes_def ph mine_def)
  qed
qed

lemma free_step:
  assumes inv: "lease_inv s" and i: "i < length (sy_hubs s)" and h: "sy_hubs s ! i = h" and ph: "hb_phase h \<noteq> Unborn" "hb_phase h \<noteq> Crashed"
    and u: "update_row HubScope cond (lr_ReleasedAt_update (\<lambda>_. at)) (sy_db s) = (b, db)"
    and c: "\<And>r. cond r \<Longrightarrow> map_of (sy_db s) HubScope = Some r \<Longrightarrow> gone s r \<or> lr_InstanceID r = hb_InstanceID h"
  shows "lease_inv ((set_hub i (h\<lparr>hb_phase := Resting\<rparr>) s)\<lparr>sy_db := db\<rparr>)"
proof (rule lease_inv_write [OF inv i])
  show "evolves (sy_hubs s ! i) (h\<lparr>hb_phase := Resting\<rparr>)" using h ph by (simp add: evolves_def)
  show "phase_ok s (h\<lparr>hb_phase := Resting\<rparr>)" by (simp add: phase_ok_def)
  show "hold_ok (s\<lparr>sy_db := db\<rparr>) (h\<lparr>hb_phase := Resting\<rparr>)" by (simp add: hold_ok_def entitled_def believes_def)
  show "db = sy_db s \<or> (\<exists>new. db = AList.update HubScope new (sy_db s) \<and> rec_ok s new \<and>
      (case map_of (sy_db s) HubScope of None \<Rightarrow> True | Some r \<Rightarrow> gone s r \<or> lr_InstanceID r = hb_InstanceID (h\<lparr>hb_phase := Resting\<rparr>)))"
  proof (cases rule: update_row_cases [OF u])
    case (2 r)
    have "rec_ok s (r\<lparr>lr_ReleasedAt := at\<rparr>)" using db_row_ok [OF inv 2(2)] by (simp add: rec_ok_def)
    with 2 c show ?thesis by auto
  qed simp
qed

text \<open>The steps that do not write.\<close>

definition writes :: "lease_act \<Rightarrow> bool" where
  "writes a = (case a of AcqWrite i f \<Rightarrow> True | BeatWrite i f \<Rightarrow> True | GiveUp i f \<Rightarrow> True
     | ClrWrite i f \<Rightarrow> True | _ \<Rightarrow> False)"

lemma hold_okI: "\<not> believes h \<Longrightarrow> hold_ok s h"
  by (simp add: hold_ok_def entitled_def)

lemma hold_ok_phase: "hold_ok s h \<Longrightarrow> believes h \<Longrightarrow> hold_ok s (h\<lparr>hb_phase := p\<rparr>)"
  by (auto simp: hold_ok_def entitled_def)

lemma quiet_step:
  assumes inv: "lease_inv s" and mem: "h \<in> set (sy_hubs s)" and w: "\<not> writes a"
    and st: "hub_do s h a = Some (h', db)"
  shows "db = sy_db s \<and> evolves h h' \<and> phase_ok s h' \<and> hold_ok s h'"
proof -
  from inv mem have p: "phase_ok s h" and k: "hold_ok s h" and now: "sy_now s > 0"
    by (auto simp: lease_inv_def sys_consts_def)
  note facts = evolves_def phase_ok_def writes_def
  show ?thesis
  proof (cases a)
    case (AcqRead i)
    with st obtain r where r: "readLease False HubScope (sy_db s) = Inr r" and ph: "hb_phase h = Resting"
      and e: "h' = h\<lparr>hb_phase := Observed r\<rparr>" "db = sy_db s" by (auto split: if_splits sum.splits)
    with read_row_ok [OF inv r] show ?thesis by (simp add: facts hold_okI believes_def)
  next
    case (ClrRead i)
    with st obtain r where r: "readLease False HubScope (sy_db s) = Inr r" and ph: "hb_phase h = Resting"
      and e: "h' = h\<lparr>hb_phase := ClearObserved r\<rparr>" "db = sy_db s" by (auto split: if_splits sum.splits)
    with read_row_ok [OF inv r] show ?thesis by (simp add: facts hold_okI believes_def)
  next
    case (AcqJudge i other)
    with st obtain r where ph: "hb_phase h = Observed r" by (auto split: hub_phase.splits)
    with p have r: "rec_ok s r" by (simp add: phase_ok_def)
    from st AcqJudge ph have e: "db = sy_db s"
      "h' = h\<lparr>hb_phase := (if hub_verdict s h other r = None then Resting else MayTake r)\<rparr>" by auto
    with ph judged_gone [OF inv mem r] show ?thesis by (auto simp: facts hold_okI believes_def)
  next
    case (ClrJudge i other)
    with st obtain r where ph: "hb_phase h = ClearObserved r" by (auto split: hub_phase.splits)
    with p have r: "rec_ok s r" by (simp add: phase_ok_def)
    from st ClrJudge ph have e: "db = sy_db s"
      "h' = h\<lparr>hb_phase := (if lr_InstanceID r = [] \<or> lr_ReleasedAt r \<noteq> 0 \<or> hub_verdict s h other r = None
         then Resting else MayClear r)\<rparr>" by auto
    with ph judged_gone [OF inv mem r] show ?thesis by (auto simp: facts hold_okI believes_def)
  next
    case (AcqStamp i)
    with st obtain r where ph: "hb_phase h = MayTake r" by (auto split: hub_phase.splits)
    with st AcqStamp have e: "db = sy_db s"
      "h' = h\<lparr>hb_phase := Stamped (acquire_row HubScope (hb_InstanceID h) (hb_Identity h) [] [] (sy_now s)) r\<rparr>" by auto
    with ph p now show ?thesis by (auto simp: facts hold_okI believes_def)
  next
    case (StartBeat i)
    with st have ph: "hb_phase h = Acquired" and e: "db = sy_db s" "h' = h\<lparr>hb_phase := Holding (sy_now s)\<rparr>"
      by (auto split: if_splits)
    with k show ?thesis by (simp add: facts hold_ok_phase believes_def)
  next
    case (BeatStamp i)
    with st obtain l where ph: "hb_phase h = Holding l" and e: "db = sy_db s" "h' = h\<lparr>hb_phase := Beating l (sy_now s)\<rparr>"
      by (auto split: hub_phase.splits)
    with k now show ?thesis by (simp add: facts hold_ok_phase believes_def)
  next
    case (BeatNote i)
    show ?thesis
    proof (cases "hb_phase h")
      case BeatLanded
      with st \<open>a = BeatNote i\<close> have "db = sy_db s" "h' = h\<lparr>hb_phase := Holding (sy_now s)\<rparr>" by auto
      with k BeatLanded show ?thesis by (simp add: facts hold_ok_phase believes_def)
    next
      case (BeatFailed l)
      with st \<open>a = BeatNote i\<close> have "db = sy_db s" "h' = h\<lparr>hb_phase := after_failure (sy_now s) (sy_ttl s) l\<rparr>" by auto
      with k BeatFailed show ?thesis
        by (auto simp: facts after_failure_def hold_ok_phase hold_okI believes_def)
    qed (use st \<open>a = BeatNote i\<close> in auto)
  qed (use st w in \<open>auto simp: facts hold_okI believes_def running_def split: if_splits\<close>)
qed

lemma write_step:
  assumes inv: "lease_inv s" and i: "i < length (sy_hubs s)" and h: "sy_hubs s ! i = h" and w: "writes a"
    and ai: "act_hub a = i" and st: "hub_do s h a = Some (h', db)"
  shows "lease_inv ((set_hub i h' s)\<lparr>sy_db := db\<rparr>)"
proof -
  have mem: "h \<in> set (sy_hubs s)" using i h nth_mem by blast
  with inv have p: "phase_ok s h" and t: "trim_space (hb_InstanceID h) \<noteq> []" and inv0: "sys_consts s"
    by (auto simp: lease_inv_def sys_consts_def)
  have same: "lease_inv ((set_hub i (h\<lparr>hb_phase := Resting\<rparr>) s)\<lparr>sy_db := sy_db s\<rparr>)" if "hb_phase h \<noteq> Crashed"
    using that h by (intro lease_inv_local [OF inv i]) (auto simp: evolves_def phase_ok_def hold_okI believes_def)
  show ?thesis
  proof (cases a)
    case (GiveUp j fault)
    with st have ph: "hb_phase h \<noteq> Unborn" "hb_phase h \<noteq> Crashed" and e: "h' = h\<lparr>hb_phase := Resting\<rparr>"
      "db = snd (ReleaseHubLease (sy_now s) fault HubScope (hb_InstanceID h) (sy_now s) (sy_db s))"
      by (auto split: hub_phase.splits)
    show ?thesis
    proof (cases fault)
      case True
      with e t same ph show ?thesis by (simp add: ReleaseHubLease_def)
    next
      case False
      obtain b db1 where u: "update_row HubScope (\<lambda>r. lr_InstanceID r = hb_InstanceID h \<and> lr_ReleasedAt r = 0)
         (lr_ReleasedAt_update (\<lambda>_. or_wall (sy_now s) (sy_now s))) (sy_db s) = (b, db1)" by fastforce
      with e t False have "db = db1" by (simp add: ReleaseHubLease_def)
      with free_step [OF inv i h ph u] e show ?thesis by simp
    qed
  next
    case (ClrWrite j fault)
    with st obtain r where ph: "hb_phase h = MayClear r" and e: "h' = h\<lparr>hb_phase := Resting\<rparr>"
      "db = snd (ClearHubLease (sy_now s) fault HubScope r (sy_now s) (sy_db s))"
      by (auto split: hub_phase.splits)
    with p have g: "gone s r" and rel: "lr_ReleasedAt r = 0" by (simp_all add: phase_ok_def)
    show ?thesis
    proof (cases "fault \<or> trim_space (lr_InstanceID r) = []")
      case True
      then have "db = sy_db s" using e by (auto simp: ClearHubLease_def)
      with e same ph show ?thesis by simp
    next
      case False
      obtain b db1 where u: "update_row HubScope (\<lambda>c. lr_InstanceID c = lr_InstanceID r \<and>
           lr_HeartbeatAt c = lr_HeartbeatAt r \<and> lr_ReleasedAt c = 0)
         (lr_ReleasedAt_update (\<lambda>_. or_wall (sy_now s) (sy_now s))) (sy_db s) = (b, db1)" by fastforce
      with e False have db: "db = db1" by (simp add: ClearHubLease_def)
      have c: "gone s c \<or> lr_InstanceID c = hb_InstanceID h"
        if "lr_InstanceID c = lr_InstanceID r \<and> lr_HeartbeatAt c = lr_HeartbeatAt r \<and> lr_ReleasedAt c = 0"
          "map_of (sy_db s) HubScope = Some c" for c
        using that g rel by (auto simp: gone_def)
      have "hb_phase h \<noteq> Unborn" "hb_phase h \<noteq> Crashed" using ph by simp_all
      from free_step [OF inv i h this u c] show ?thesis unfolding e(1) db .
    qed
  next
    case (AcqWrite j fault)
    with ai st show ?thesis using acquire_step [OF inv i h, of fault] by (simp del: hub_do.simps)
  next
    case (BeatWrite j fault)
    with ai st show ?thesis using renew_step [OF inv i h, of fault] by (simp del: hub_do.simps)
  qed (use w in \<open>simp_all add: writes_def\<close>)
qed

lemma lease_inv_pass:
  assumes inv: "lease_inv s" and d: "0 \<le> d"
  shows "lease_inv (s\<lparr>sy_now := sy_now s + d\<rparr>)" (is "lease_inv ?t")
proof -
  have rec: "rec_ok s r \<Longrightarrow> rec_ok ?t r" and gone: "gone s r \<Longrightarrow> gone ?t r" for r
    using d by (auto simp: rec_ok_def gone_def)
  then have ph: "phase_ok s h \<Longrightarrow> phase_ok ?t h" for h
    using d by (cases "hb_phase h") (force simp: phase_ok_def)+
  have hold: "hold_ok s h \<Longrightarrow> hold_ok ?t h" for h using d by (auto simp: hold_ok_def entitled_def)
  from inv rec ph hold d show ?thesis
    by (auto simp: lease_inv_def sys_consts_def split: option.splits)
qed

lemma lease_inv_step:
  assumes inv: "lease_inv s" and st: "lease_do a s = Some s'"
  shows "lease_inv s'"
proof (cases "\<exists>d. a = Pass d")
  case True
  with assms show ?thesis by (auto simp: lease_do_def intro: lease_inv_pass split: if_splits)
next
  case False
  define i where "i = act_hub a"
  from st False obtain h' db where i: "i < length (sy_hubs s)" and do_: "hub_do s (sy_hubs s ! i) a = Some (h', db)"
    and s': "s' = (set_hub i h' s)\<lparr>sy_db := db\<rparr>"
    unfolding lease_do_def i_def by (cases a) (auto simp del: hub_do.simps split: if_splits option.splits)
  show ?thesis
  proof (cases "writes a")
    case True
    with write_step [OF inv i refl True i_def [symmetric] do_] s' show ?thesis by simp
  next
    case False
    from quiet_step [OF inv nth_mem [OF i] False do_] s' lease_inv_local [OF inv i] show ?thesis by auto
  qed
qed

interpretation lease_system: preserved lease_step lease_inv
  by unfold_locales (auto simp: lease_step_def intro: lease_inv_step)

lemma lease_run_steps: "lease_run acts s = Some s' \<Longrightarrow> lease_step\<^sup>*\<^sup>* s s'"
proof (induction acts arbitrary: s)
  case Nil
  then show ?case by simp
next
  case (Cons a acts)
  then obtain s1 where "lease_do a s = Some s1" and "lease_run acts s1 = Some s'"
    by (auto split: option.splits)
  with Cons.IH show ?case by (metis converse_rtranclp_into_rtranclp lease_step_def)
qed

lemma lease_inv_reached: "sys_start s \<Longrightarrow> lease_run acts s = Some s' \<Longrightarrow> lease_inv s'"
  using lease_system.steps_keep lease_run_steps lease_inv_start by blast

section \<open>The properties\<close>

lemma at_most_one:
  assumes "distinct xs" and "\<And>x y. x \<in> set xs \<Longrightarrow> y \<in> set xs \<Longrightarrow> x = y"
  shows "length xs \<le> 1"
proof (cases xs rule: remdups_adj.cases)
  case (3 x y ys)
  with assms(2) [of x y] assms(1) show ?thesis by simp
qed simp_all

lemma entitled_unique:
  assumes inv: "lease_inv s" and h: "h \<in> set (sy_hubs s)" "entitled s h" and k: "k \<in> set (sy_hubs s)" "entitled s k"
  shows "h = k"
proof -
  from inv h k have "mine (sy_db s) h" "mine (sy_db s) k" by (auto simp: lease_inv_def hold_ok_def)
  then have "hb_InstanceID h = hb_InstanceID k" by (auto simp: mine_def split: option.splits)
  with same_hub [of s k h] inv h(1) k(1) show ?thesis by (auto simp: lease_inv_def)
qed

text \<open>C3: mutual exclusion over time: in every state any interleaving of hubs reaches, with
  crashes, pauses, database errors, same-host probes and an operator's clears, at most one hub holds
  the lease within the TTL of its last heartbeat, and while one does the row is its own and not
  released.\<close>

theorem hub_lease_is_exclusive:
  assumes "sys_start s0" and "lease_run acts s0 = Some s"
  shows "length (filter (entitled s) (sy_hubs s)) \<le> 1 \<and>
    filter (\<lambda>h. entitled s h \<and> \<not> mine (sy_db s) h) (sy_hubs s) = []"
proof
  have inv: "lease_inv s" using assms by (rule lease_inv_reached)
  then have "distinct (filter (entitled s) (sy_hubs s))" by (auto simp: lease_inv_def sys_consts_def distinct_map)
  moreover have "h = k" if "h \<in> set (filter (entitled s) (sy_hubs s))" "k \<in> set (filter (entitled s) (sy_hubs s))" for h k
    using that entitled_unique [OF inv] by auto
  ultimately show "length (filter (entitled s) (sy_hubs s)) \<le> 1" by (rule at_most_one)
  show "filter (\<lambda>h. entitled s h \<and> \<not> mine (sy_db s) h) (sy_hubs s) = []"
    using inv by (auto simp: filter_empty_conv lease_inv_def hold_ok_def)
qed

definition hub_on :: "string \<Rightarrow> int \<Rightarrow> string \<Rightarrow> nat \<Rightarrow> hub" where
  "hub_on inst pid host ns =
     \<lparr>hb_InstanceID = inst,
      hb_Identity = \<lparr>id_Hostname = host, id_PID = pid, id_BootID = ''b+'' @ host\<rparr>,
      hb_ns = ns, hb_phase = Unborn, hb_beat = 0\<rparr>"

definition two_hubs :: hub_system where
  "two_hubs = \<lparr>sy_db = [], sy_now = 1, sy_ttl = DefaultTTL,
     sy_hubs = [hub_on ''A'' 7 ''n1'' 0, hub_on ''B'' 9 ''n2'' 1]\<rparr>"

definition acquire_acts :: "nat \<Rightarrow> lease_act list" where
  "acquire_acts i = [AcqRead i, AcqJudge i True, AcqStamp i, AcqWrite i False]"

definition beat_acts :: "nat \<Rightarrow> duration \<Rightarrow> bool \<Rightarrow> lease_act list" where
  "beat_acts i d fault = [BeatStamp i, Pass d, BeatWrite i fault, BeatNote i]"

lemma some_result: "(case x of None \<Rightarrow> False | Some s \<Rightarrow> P s) \<Longrightarrow> \<exists>s. x = Some s \<and> P s"
  by (cases x) simp_all

definition takeover :: "lease_act list" where
  "takeover = [Boot 0, Boot 1] @ acquire_acts 0 @ [StartBeat 0, BeatStamp 0, Pass DefaultTTL] @ acquire_acts 1 @
     [BeatWrite 0 False]"

theorem hub_lease_is_exclusive_witness:
  "\<exists>s. lease_run takeover two_hubs = Some s \<and> length (filter (entitled s) (sy_hubs s)) \<le> 1 \<and>
     map (entitled s) (sy_hubs s) = [False, True]"
proof -
  have st: "sys_start two_hubs" by code_simp
  have run: "case lease_run takeover two_hubs of None \<Rightarrow> False
    | Some s \<Rightarrow> map (entitled s) (sy_hubs s) = [False, True]" by code_simp
  obtain s where s: "lease_run takeover two_hubs = Some s \<and> map (entitled s) (sy_hubs s) = [False, True]"
    using some_result [OF run] ..
  show ?thesis
    using hub_lease_is_exclusive [OF st conjunct1 [OF s]] s by (intro exI [of _ s]) simp
qed

lemma lease_run_append: "lease_run (xs @ ys) s = (case lease_run xs s of None \<Rightarrow> None | Some s' \<Rightarrow> lease_run ys s')"
  by (induction xs arbitrary: s) (auto split: option.split)

text \<open>An attempt that nothing interferes with, on a row that may be taken whoever the prober is.\<close>

lemma verdict_True: "hub_verdict s h True r = evaluate r (hb_Identity h) (sy_now s) (sy_ttl s) (\<lambda>p. p > 0)"
proof -
  have "processAlive s h True = (\<lambda>p. p > 0)" by (rule ext) (simp add: processAlive_def)
  then show ?thesis by (simp add: hub_verdict_def)
qed

lemma acquire_alone:
  assumes inv: "lease_inv s" and i: "i < length (sy_hubs s)" and ph: "hb_phase (sy_hubs s ! i) = Resting"
    and v: "case map_of (sy_db s) HubScope of None \<Rightarrow> True
       | Some r \<Rightarrow> hub_verdict s (sy_hubs s ! i) True r \<noteq> None"
  shows "\<exists>s'. lease_run (acquire_acts i) s = Some s' \<and> entitled s' (sy_hubs s' ! i)"
proof -
  let ?h = "sy_hubs s ! i"
  define r where "r = (case map_of (sy_db s) HubScope of None \<Rightarrow> no_row | Some r \<Rightarrow> r)"
  define row where "row = acquire_row HubScope (hb_InstanceID ?h) (hb_Identity ?h) [] [] (sy_now s)"
  have read: "readLease False HubScope (sy_db s) = Inr r"
    by (simp add: readLease_def GetHubLease_def r_def split: option.split)
  have ttl: "sy_now s > 0" "0 < sy_ttl s" and t: "trim_space (hb_InstanceID ?h) \<noteq> []"
    using inv nth_mem [OF i] by (auto simp: lease_inv_def sys_consts_def)
  have free: "evaluate r (hb_Identity ?h) (sy_now s) (sy_ttl s) (\<lambda>p. p > 0) \<noteq> None"
  proof (cases "map_of (sy_db s) HubScope")
    case None
    then show ?thesis by (simp add: r_def evaluate_def no_row_def)
  next
    case (Some c)
    with v show ?thesis by (simp add: r_def verdict_True)
  qed
  have row: "lr_InstanceID row = hb_InstanceID ?h" "lr_Scope row = HubScope" "lr_HeartbeatAt row = sy_now s"
    by (simp_all add: row_def acquire_row_def)
  have wr: "AcquireHubLease (sy_now s) False row r (sy_db s) = (Inr True, snd (AcquireHubLease (sy_now s) False row r (sy_db s)))"
    using t row by (auto simp: AcquireHubLease_def Let_def r_def unchanged_def split: option.splits)
  obtain db where wrote: "AcquireHubLease (sy_now s) False row r (sy_db s) = (Inr True, db)" using wr by blast
  have put: "(sy_hubs s)[i := x] ! i = x" for x using i by simp
  have 1: "lease_do (AcqRead i) s = Some (set_hub i (?h\<lparr>hb_phase := Observed r\<rparr>) s)" (is "_ = Some ?s1")
    using i ph read by (simp add: lease_do_def set_hub_def)
  have 2: "lease_do (AcqJudge i True) ?s1 = Some (set_hub i (?h\<lparr>hb_phase := MayTake r\<rparr>) s)" (is "_ = Some ?s2")
    using i free by (auto simp: lease_do_def put verdict_True set_hub_def)
  have 3: "lease_do (AcqStamp i) ?s2 = Some (set_hub i (?h\<lparr>hb_phase := Stamped row r\<rparr>) s)" (is "_ = Some ?s3")
    using i by (simp add: lease_do_def put row_def set_hub_def)
  have 4: "lease_do (AcqWrite i False) ?s3 =
      Some ((set_hub i (?h\<lparr>hb_phase := Acquired, hb_beat := sy_now s\<rparr>) s)\<lparr>sy_db := db\<rparr>)" (is "_ = Some ?s4")
    using i wrote by (simp add: lease_do_def put row set_hub_def)
  have "entitled ?s4 (sy_hubs ?s4 ! i)" using i ttl by (simp add: entitled_def believes_def)
  then show ?thesis by (simp add: acquire_acts_def 1 2 3 4 del: set_hub_simps)
qed

text \<open>C29: no crash wedges the control plane: whatever state an interleaving has reached, when a TTL
  passes without a beat a resting hub that tries takes the lease and is then entitled to it.\<close>

theorem abandoned_lease_is_taken:
  assumes "sys_start s0" and "lease_run acts s0 = Some s"
    and "i < length (sy_hubs s)" and "hb_phase (sy_hubs s ! i) = Resting"
  shows "\<exists>s'. lease_run (Pass (sy_ttl s) # acquire_acts i) s = Some s' \<and> entitled s' (sy_hubs s' ! i)"
proof -
  let ?t = "s\<lparr>sy_now := sy_now s + sy_ttl s\<rparr>"
  have inv: "lease_inv s" using assms(1,2) by (rule lease_inv_reached)
  then have ttl: "0 < sy_ttl s" "sy_ttl s \<le> max_int64" by (auto simp: lease_inv_def sys_consts_def)
  have "hub_verdict ?t (sy_hubs ?t ! i) True r \<noteq> None" if r: "map_of (sy_db s) HubScope = Some r" for r
  proof -
    from db_row_ok [OF inv r] ttl have "sy_ttl s \<le> time_sub (sy_now s + sy_ttl s) (lr_HeartbeatAt r)"
      by (auto simp: rec_ok_def time_sub_def max_int64_def min_int64_def)
    then show ?thesis by (simp add: verdict_True evaluate_def)
  qed
  then have "\<exists>s'. lease_run (acquire_acts i) ?t = Some s' \<and> entitled s' (sy_hubs s' ! i)"
    using lease_inv_pass [OF inv] ttl assms(3,4) by (intro acquire_alone) (auto split: option.split)
  moreover have "lease_do (Pass (sy_ttl s)) s = Some ?t" using ttl by (simp add: lease_do_def)
  ultimately show ?thesis by simp
qed

theorem abandoned_lease_is_taken_witness:
  "\<exists>s. lease_run ([Boot 0, Boot 1] @ acquire_acts 0 @ [Crash 0]) two_hubs = Some s \<and>
     (\<exists>s'. lease_run (Pass (sy_ttl s) # acquire_acts 1) s = Some s' \<and> entitled s' (sy_hubs s' ! 1))"
proof -
  let ?acts = "[Boot 0, Boot 1] @ acquire_acts 0 @ [Crash 0]"
  have st: "sys_start two_hubs" by code_simp
  have run: "case lease_run ?acts two_hubs of None \<Rightarrow> False
    | Some s \<Rightarrow> 1 < length (sy_hubs s) \<and> hb_phase (sy_hubs s ! 1) = Resting" by code_simp
  obtain s where s: "lease_run ?acts two_hubs = Some s \<and> 1 < length (sy_hubs s) \<and> hb_phase (sy_hubs s ! 1) = Resting"
    using some_result [OF run] ..
  show ?thesis
    by (rule exI [of _ s], rule conjI [OF conjunct1 [OF s]],
        rule abandoned_lease_is_taken [OF st conjunct1 [OF s]]) (use s in blast)+
qed

text \<open>Three beats in a row fail, each at once, on the default schedule of one beat every twenty
  seconds; the beat before took five milliseconds.\<close>

definition missed_beats :: "lease_act list" where
  "missed_beats =
     [Boot 0, Boot 1] @ acquire_acts 0 @ [StartBeat 0, Pass DefaultInterval] @ beat_acts 0 5000000 False @
     [Pass (DefaultInterval - 5000000)] @ beat_acts 0 1000000 True @
     [Pass (DefaultInterval - 1000000)] @ beat_acts 0 1000000 True @
     [Pass (DefaultInterval - 1000000)] @ beat_acts 0 1000000 True"

text \<open>a hub that cannot renew does not stand down at the TTL: it measures from the end of its
  last good renewal, while the row carries the start of it, and it looks only at its next beat. With
  the default TTL and interval three failed beats in a row leave it serving, another hub takes the
  lease, and the first serves on for most of an interval beside it, until its next beat.\<close>

theorem stand_down_can_lag:
  "(case lease_run (missed_beats @ acquire_acts 1 @ [StartBeat 1, Pass (DefaultInterval - 2000000)]) two_hubs of
      None \<Rightarrow> False
    | Some s \<Rightarrow> believes (sy_hubs s ! 0) \<and> entitled s (sy_hubs s ! 1) \<and>
        sy_now s - hb_beat (sy_hubs s ! 0) = DefaultTTL + DefaultInterval - 1000000)
   \<and> (case lease_run (missed_beats @ acquire_acts 1 @ [StartBeat 1, Pass (DefaultInterval - 1000000)] @
          beat_acts 0 1 False) two_hubs of
        None \<Rightarrow> True
      | Some s \<Rightarrow> hb_phase (sy_hubs s ! 0) = StoodDown)"
  by code_simp

text \<open>what a call of Acquire comes to, whatever other processes do to the table between its
  statements: it takes the lease exactly when the row it judged may be taken and the table, at the
  moment of the write, still holds that row or none; it then leaves its own row and touches
  nothing else. A refusal changes nothing and names the row judged, or, after a lost race, the row
  that is there now. Every other error is the database's or a missing id.\<close>

theorem acquire_outcome:
  "case Acquire opts env db of (result, db') \<Rightarrow>
     let scope = lease_scope opts;
         seen = (case map_of db scope of None \<Rightarrow> no_row | Some r \<Rightarrow> r);
         mid = e_between env db;
         free = (evaluate seen (lease_self (e_local env) opts) (e_judge env) (lease_ttl opts) (e_alive env) \<noteq> None);
         kept = (case map_of mid scope of None \<Rightarrow> True | Some cur \<Rightarrow> unchanged cur seen)
     in case result of
          Inr l \<Rightarrow> free \<and> kept \<and> lr_InstanceID (ls_row l) = ls_instanceID l \<and> ls_scope l = scope \<and>
            map_of db' = (map_of mid)(scope \<mapsto> (ls_row l)\<lparr>lr_AcquiredAt := or_wall (e_wall env) (e_at env),
                                                        lr_HeartbeatAt := or_wall (e_wall env) (e_at env)\<rparr>)
        | Inl (ErrConflict holder age raced) \<Rightarrow>
            if raced then free \<and> \<not> kept \<and> db' = e_after env mid \<and>
              holder = (case map_of db' scope of None \<Rightarrow> no_row | Some r \<Rightarrow> r)
            else \<not> free \<and> db' = db \<and> holder = seen
        | Inl ErrDriver \<Rightarrow> e_read_fault env \<or> (free \<and> (e_write_fault env \<or> e_reread_fault env))
        | Inl ErrRand \<Rightarrow> db' = db \<and> trim_space (op_InstanceID opts) = [] \<and> e_minted env = None
        | Inl ErrInstanceRequired \<Rightarrow> db' = mid \<and> trim_space (the (e_minted env)) = []
        | Inl ErrLeaseLive \<Rightarrow> False"
proof -
  have sc: "scope_of (lease_scope opts) = lease_scope opts"
    by (simp add: lease_scope_def scope_of_def Let_def trim_space_idem)
  have ne: "trim_space (trim_space x) = [] \<longleftrightarrow> trim_space x = []" for x by (simp add: trim_space_idem)
  show ?thesis
    by (auto simp: Acquire_def Let_def readLease_def GetHubLease_def sc ne AcquireHubLease_def acquire_row_def
        split: option.splits if_splits sum.splits)
qed
end
