(* ===== verification/AuditChain.thy ===== *)
theory AuditChain
  imports GoTime Sha256 "HOL-Library.Sublist"
begin

text \<open>
  The hash-chained audit trail of pkg/statedb (audit.go, audit_anchor.go and the head of
  audit_checkpoint.go): appending in one transaction, pruning a sealed prefix behind an anchor,
  planning such a prune, and the walk that verifies the chain. The tables are lists of rows and
  every query spells out its ordering; a transaction that fails leaves the tables as they were,
  whichever of its statements failed. A stored timestamp is the instant its text denotes, and
  where SQL compares the texts the model compares them too. Reading a text back as the instant it was
  written for is right for the years 1 to 9999 and assumed: RFC 3339 writes a later year with five digits,
  which Go does not parse, so that the walk would take the zero time and report the row as altered; a
  clock there is outside this model. The count that a gap row's JSON
  payload carries is a parameter (\<open>lost\<close>).
\<close>

section \<open>Rows\<close>

record AuditEvent =
  ae_ID :: int
  ae_Timestamp :: time
  ae_Actor :: string
  ae_EventType :: string
  ae_EntityType :: string
  ae_EntityID :: string
  ae_Payload :: string
  ae_PrevHash :: string
  ae_RowHash :: string

record AuditAnchor =
  an_ID :: int
  an_CreatedAt :: time
  an_Actor :: string
  an_Cutoff :: time
  an_PrunedFirstID :: int
  an_PrunedThroughID :: int
  an_PrunedCount :: int
  an_BoundaryHash :: string
  an_RetainedFromID :: int
  an_ExportPath :: string
  an_ExportFormat :: string
  an_ExportSHA256 :: string
  an_ExportBytes :: int
  an_PrevAnchorHash :: string
  an_AnchorHash :: string

record audit_db =
  ad_events :: "AuditEvent list"
  ad_anchors :: "AuditAnchor list"

definition empty_audit :: audit_db where
  "empty_audit = \<lparr>ad_events = [], ad_anchors = []\<rparr>"

datatype audit_error = NilEvent nat | EmptyEventType nat | AuditLocked | AuditDriver
  | NonPositiveBoundary | Unsealed | BoundaryGone | BoundaryChanged

definition auditGapEventType :: string where "auditGapEventType = ''audit.gap''"

definition genesisHash :: string where "genesisHash = replicate 64 CHR ''0''"

definition tab :: char where "tab = char_of (9::nat)"

definition row_text :: "AuditEvent \<Rightarrow> string" where
  "row_text ev =
     ''v1'' @ tab # ae_PrevHash ev @ tab # itoa (ae_ID ev) @ tab # rfc3339nano (ae_Timestamp ev) @
     tab # ae_Actor ev @ tab # ae_EventType ev @ tab # ae_EntityType ev @ tab # ae_EntityID ev @
     tab # ae_Payload ev"

definition computeRowHash :: "AuditEvent \<Rightarrow> string" where
  "computeRowHash ev = sha256_hex (row_text ev)"

definition computeAnchorHash :: "AuditAnchor \<Rightarrow> string" where
  "computeAnchorHash a = sha256_hex
     (''anchor-v1'' @ tab # an_PrevAnchorHash a @ tab # itoa (an_ID a) @ tab # itoa (an_PrunedFirstID a) @
      tab # itoa (an_PrunedThroughID a) @ tab # itoa (an_PrunedCount a) @ tab #
      rfc3339nano (an_CreatedAt a) @ tab # an_Actor a @ tab # rfc3339nano (an_Cutoff a) @ tab #
      an_BoundaryHash a @ tab # itoa (an_RetainedFromID a) @ tab # an_ExportPath a @ tab #
      an_ExportFormat a @ tab # an_ExportSHA256 a @ tab # itoa (an_ExportBytes a))"

section \<open>Queries\<close>

definition events_by_id :: "audit_db \<Rightarrow> AuditEvent list" where
  "events_by_id db = sort_key ae_ID (ad_events db)"

text \<open>\<open>ORDER BY pruned_through_id DESC, id DESC LIMIT 1\<close>.\<close>

definition latestAuditAnchor :: "audit_db \<Rightarrow> AuditAnchor option" where
  "latestAuditAnchor db =
     (case rev (sort_key an_PrunedThroughID (sort_key an_ID (ad_anchors db))) of
        [] \<Rightarrow> None | a # _ \<Rightarrow> Some a)"

definition or_genesis :: "string \<Rightarrow> string" where
  "or_genesis h = (if h = [] then genesisHash else h)"

definition auditChainTip :: "audit_db \<Rightarrow> int \<times> string" where
  "auditChainTip db =
     (case rev (events_by_id db) of
        e # _ \<Rightarrow> (ae_ID e + 1, or_genesis (ae_RowHash e))
      | [] \<Rightarrow>
          (case latestAuditAnchor db of
             Some a \<Rightarrow> if an_PrunedThroughID a > 0 then (an_PrunedThroughID a + 1, or_genesis (an_BoundaryHash a))
                       else (1, genesisHash)
           | None \<Rightarrow> (1, genesisHash)))"

section \<open>Appending\<close>

text \<open>Defaults and refusals, event by event; \<open>clock i\<close> is the time read for event \<open>i\<close>.\<close>

fun normalize_from :: "(nat \<Rightarrow> time) \<Rightarrow> nat \<Rightarrow> AuditEvent option list \<Rightarrow> audit_error + AuditEvent list" where
  "normalize_from clock i [] = Inr []"
| "normalize_from clock i (None # evs) = Inl (NilEvent i)"
| "normalize_from clock i (Some ev # evs) =
     (let ev = ev\<lparr>ae_Timestamp := (if ae_Timestamp ev = 0 then clock i else ae_Timestamp ev),
                  ae_Actor := (if ae_Actor ev = [] then ''system'' else ae_Actor ev)\<rparr>
      in if ae_EventType ev = [] then Inl (EmptyEventType i)
         else map_sum id (Cons ev) (normalize_from clock (Suc i) evs))"

definition normalizeAuditEvents :: "(nat \<Rightarrow> time) \<Rightarrow> AuditEvent option list \<Rightarrow> audit_error + AuditEvent list" where
  "normalizeAuditEvents clock evs = normalize_from clock 0 evs"

fun link_events :: "int \<Rightarrow> string \<Rightarrow> AuditEvent list \<Rightarrow> AuditEvent list" where
  "link_events nextID prevHash [] = []"
| "link_events nextID prevHash (ev # evs) =
     (let ev = ev\<lparr>ae_ID := nextID, ae_PrevHash := prevHash\<rparr>;
          ev = ev\<lparr>ae_RowHash := computeRowHash ev\<rparr>
      in ev # link_events (nextID + 1) (ae_RowHash ev) evs)"

definition appendAuditEventsTx ::
    "(nat \<Rightarrow> time) \<Rightarrow> AuditEvent option list \<Rightarrow> audit_db \<Rightarrow> (audit_error + AuditEvent list) \<times> audit_db" where
  "appendAuditEventsTx clock evs db =
     (if evs = [] then (Inr [], db)
      else case normalizeAuditEvents clock evs of
             Inl e \<Rightarrow> (Inl e, db)
           | Inr nevs \<Rightarrow>
               (let (nextID, prevHash) = auditChainTip db; rows = link_events nextID prevHash nevs
                in (Inr rows, db\<lparr>ad_events := ad_events db @ rows\<rparr>)))"

text \<open>One transaction; the fault is the error the driver gives somewhere in it, if any.\<close>

datatype driver_fault = DbLocked | DbError

definition appendAuditEventsOnce ::
    "driver_fault option \<Rightarrow> (nat \<Rightarrow> time) \<Rightarrow> AuditEvent option list \<Rightarrow> audit_db \<Rightarrow>
     (audit_error + AuditEvent list) \<times> audit_db" where
  "appendAuditEventsOnce fault clock evs db =
     (case fault of
        Some DbLocked \<Rightarrow> (Inl AuditLocked, db)
      | Some DbError \<Rightarrow> (Inl AuditDriver, db)
      | None \<Rightarrow> appendAuditEventsTx clock evs db)"

definition auditAppendAttempts :: nat where "auditAppendAttempts = 10"

text \<open>The retry loop: another attempt only while the database is locked; \<open>faults\<close> by attempt.\<close>

fun appendAuditBatchN ::
    "(nat \<Rightarrow> driver_fault option) \<Rightarrow> nat \<Rightarrow> nat \<Rightarrow> (nat \<Rightarrow> time) \<Rightarrow> AuditEvent option list \<Rightarrow> audit_db \<Rightarrow>
     (audit_error + AuditEvent list) \<times> audit_db" where
  "appendAuditBatchN faults attempt 0 clock evs db = (Inr [], db)"
| "appendAuditBatchN faults attempt (Suc left) clock evs db =
     (case appendAuditEventsOnce (faults attempt) clock evs db of
        (Inl e, db') \<Rightarrow>
          if e = AuditLocked \<and> left > 0 then appendAuditBatchN faults (Suc attempt) left clock evs db'
          else (Inl e, db')
      | (Inr rows, db') \<Rightarrow> (Inr rows, db'))"

section \<open>Verifying\<close>

datatype chain_break = AnchorStart int int | IdGap int | PrevMismatch | RowMismatch

record AuditVerifyReport =
  vr_Total :: nat
  vr_OK :: bool
  vr_BreakAtID :: int
  vr_Reason :: "chain_break option"
  vr_ExpectedHash :: string
  vr_ActualHash :: string
  vr_Anchored :: bool
  vr_AnchorID :: int
  vr_PrunedCount :: int
  vr_ExportPath :: string
  vr_ExportSHA256 :: string
  vr_VerifiedFromID :: int
  vr_Gaps :: nat
  vr_GapEvents :: int
  vr_GapIDs :: "int list"
  vr_LastGapAt :: time

definition maxReportedGapIDs :: nat where "maxReportedGapIDs = 20"

definition AuditGapLostEvents :: "(string \<Rightarrow> int) \<Rightarrow> string \<Rightarrow> int" where
  "AuditGapLostEvents lost payload = (if lost payload < 0 then 0 else lost payload)"

definition noteGap :: "(string \<Rightarrow> int) \<Rightarrow> AuditEvent \<Rightarrow> AuditVerifyReport \<Rightarrow> AuditVerifyReport" where
  "noteGap lost ev r = r\<lparr>
     vr_Gaps := vr_Gaps r + 1,
     vr_GapEvents := vr_GapEvents r + AuditGapLostEvents lost (ae_Payload ev),
     vr_GapIDs := (if length (vr_GapIDs r) < maxReportedGapIDs then vr_GapIDs r @ [ae_ID ev] else vr_GapIDs r),
     vr_LastGapAt := (if ae_Timestamp ev > vr_LastGapAt r then ae_Timestamp ev else vr_LastGapAt r)\<rparr>"

definition verify_fail :: "int \<Rightarrow> chain_break \<Rightarrow> string \<Rightarrow> string \<Rightarrow> AuditVerifyReport \<Rightarrow> AuditVerifyReport" where
  "verify_fail i why expected actual r = r\<lparr>vr_OK := False, vr_BreakAtID := i, vr_Reason := Some why,
     vr_ExpectedHash := expected, vr_ActualHash := actual\<rparr>"

fun verify_loop ::
    "(string \<Rightarrow> int) \<Rightarrow> int \<Rightarrow> int \<Rightarrow> string \<Rightarrow> AuditVerifyReport \<Rightarrow> AuditEvent list \<Rightarrow> AuditVerifyReport" where
  "verify_loop lost requireFirst lastID expectedPrev r [] = r"
| "verify_loop lost requireFirst lastID expectedPrev r (ev # evs) =
     (let total = vr_Total r + 1;
          r = r\<lparr>vr_Total := total, vr_VerifiedFromID := (if total = 1 then ae_ID ev else vr_VerifiedFromID r)\<rparr>
      in if total = 1 \<and> requireFirst > 0 \<and> ae_ID ev \<noteq> requireFirst
         then verify_fail (ae_ID ev) (AnchorStart (vr_AnchorID r) requireFirst) [] [] r
         else if lastID > 0 \<and> ae_ID ev \<noteq> lastID + 1 then verify_fail (ae_ID ev) (IdGap (lastID + 1)) [] [] r
         else if ae_PrevHash ev \<noteq> expectedPrev
         then verify_fail (ae_ID ev) PrevMismatch expectedPrev (ae_PrevHash ev) r
         else if computeRowHash ev \<noteq> ae_RowHash ev
         then verify_fail (ae_ID ev) RowMismatch (computeRowHash ev) (ae_RowHash ev) r
         else verify_loop lost requireFirst (ae_ID ev) (ae_RowHash ev)
                (if ae_EventType ev = auditGapEventType then noteGap lost ev r else r) evs)"

definition new_report :: AuditVerifyReport where
  "new_report = \<lparr>vr_Total = 0, vr_OK = True, vr_BreakAtID = 0, vr_Reason = None, vr_ExpectedHash = [],
     vr_ActualHash = [], vr_Anchored = False, vr_AnchorID = 0, vr_PrunedCount = 0, vr_ExportPath = [],
     vr_ExportSHA256 = [], vr_VerifiedFromID = 0, vr_Gaps = 0, vr_GapEvents = 0, vr_GapIDs = [],
     vr_LastGapAt = 0\<rparr>"

text \<open>Where the walk starts: the id it requires (0 for none) and the hash it expects.\<close>

definition chain_start :: "audit_db \<Rightarrow> int \<times> string" where
  "chain_start db =
     (case latestAuditAnchor db of
        None \<Rightarrow> (0, genesisHash)
      | Some a \<Rightarrow> (if an_RetainedFromID a = 0 then an_PrunedThroughID a + 1 else an_RetainedFromID a,
                   an_BoundaryHash a))"

definition anchored_report :: "audit_db \<Rightarrow> AuditVerifyReport" where
  "anchored_report db =
     (case latestAuditAnchor db of
        None \<Rightarrow> new_report
      | Some a \<Rightarrow> new_report\<lparr>vr_Anchored := True, vr_AnchorID := an_ID a, vr_PrunedCount := an_PrunedCount a,
                             vr_ExportPath := an_ExportPath a, vr_ExportSHA256 := an_ExportSHA256 a\<rparr>)"

text \<open>The walk hashes the row as it was read back: its timestamp is the parsed text, the same instant in the
  years 1 to 9999.\<close>

definition VerifyAuditChain :: "(string \<Rightarrow> int) \<Rightarrow> audit_db \<Rightarrow> AuditVerifyReport" where
  "VerifyAuditChain lost db =
     (let (requireFirst, expectedPrev) = chain_start db
      in verify_loop lost requireFirst 0 expectedPrev (anchored_report db) (events_by_id db))"

datatype chain_status = AuditChainIntact | AuditChainGaps | AuditChainBroken

definition chain_status_of :: "AuditVerifyReport \<Rightarrow> chain_status" where
  "chain_status_of r = (if \<not> vr_OK r then AuditChainBroken else if vr_Gaps r > 0 then AuditChainGaps
     else AuditChainIntact)"

section \<open>Pruning\<close>

definition row_hash_of :: "audit_db \<Rightarrow> int \<Rightarrow> string option" where
  "row_hash_of db i = map_option ae_RowHash (find (\<lambda>e. ae_ID e = i) (ad_events db))"

text \<open>The anchor as it is written: defaults, the boundary and survivor as read, its place in the
  chain of anchors.\<close>

definition pruned_anchor :: "time \<Rightarrow> AuditAnchor \<Rightarrow> string \<Rightarrow> AuditEvent list \<Rightarrow> audit_db \<Rightarrow> AuditAnchor" where
  "pruned_anchor now a stored rest db =
     (let a = a\<lparr>an_CreatedAt := (if an_CreatedAt a = 0 then now else an_CreatedAt a),
                an_Actor := (if an_Actor a = [] then ''system'' else an_Actor a),
                an_BoundaryHash := stored,
                an_RetainedFromID := (case sort_key ae_ID rest of [] \<Rightarrow> 0 | e # _ \<Rightarrow> ae_ID e),
                an_PrunedCount := int (length (ad_events db) - length rest),
                an_PrevAnchorHash :=
                  (case latestAuditAnchor db of None \<Rightarrow> genesisHash | Some p \<Rightarrow> or_genesis (an_AnchorHash p)),
                an_ID := (if ad_anchors db = [] then 0 else Max (set (map an_ID (ad_anchors db)))) + 1\<rparr>
      in a\<lparr>an_AnchorHash := computeAnchorHash a\<rparr>)"

definition PruneAuditPrefix :: "time \<Rightarrow> AuditAnchor \<Rightarrow> audit_db \<Rightarrow> (audit_error + AuditAnchor) \<times> audit_db" where
  "PruneAuditPrefix now a db =
     (if an_PrunedThroughID a \<le> 0 then (Inl NonPositiveBoundary, db)
      else if an_ExportSHA256 a = [] \<or> an_ExportPath a = [] then (Inl Unsealed, db)
      else case row_hash_of db (an_PrunedThroughID a) of
             None \<Rightarrow> (Inl BoundaryGone, db)
           | Some stored \<Rightarrow>
               if an_BoundaryHash a \<noteq> [] \<and> an_BoundaryHash a \<noteq> stored then (Inl BoundaryChanged, db)
               else
                 (let rest = filter (\<lambda>e. ae_ID e > an_PrunedThroughID a) (ad_events db);
                      a' = pruned_anchor now a stored rest db
                  in (Inr a', \<lparr>ad_events = rest, ad_anchors = ad_anchors db @ [a']\<rparr>)))"

record AuditPruneCandidate =
  pc_FirstID :: int
  pc_ThroughID :: int
  pc_Count :: int
  pc_BoundaryHash :: string
  pc_Remaining :: int

text \<open>SQL compares the texts of the timestamps, byte by byte.\<close>

definition PlanAuditPruneThrough :: "time \<Rightarrow> int \<Rightarrow> audit_db \<Rightarrow> AuditPruneCandidate" where
  "PlanAuditPruneThrough cutoff maxID db =
     (let none = \<lparr>pc_FirstID = 0, pc_ThroughID = 0, pc_Count = 0, pc_BoundaryHash = [], pc_Remaining = 0\<rparr>;
          old = filter (\<lambda>e. rfc3339nano (ae_Timestamp e) < rfc3339nano cutoff \<and> ae_ID e \<le> maxID) (events_by_id db)
      in if maxID < 1 \<or> old = [] \<or> ae_ID (last old) \<le> 0 then none
         else let through = ae_ID (last old); gone = filter (\<lambda>e. ae_ID e \<le> through) (events_by_id db)
              in \<lparr>pc_FirstID = (case gone of [] \<Rightarrow> 0 | e # _ \<Rightarrow> ae_ID e), pc_ThroughID = through,
                  pc_Count = int (length gone),
                  pc_BoundaryHash = (case row_hash_of db through of None \<Rightarrow> [] | Some h \<Rightarrow> h),
                  pc_Remaining = int (length (filter (\<lambda>e. ae_ID e > through) (ad_events db)))\<rparr>)"

definition PlanAuditPrune :: "time \<Rightarrow> audit_db \<Rightarrow> AuditPruneCandidate" where
  "PlanAuditPrune cutoff db = PlanAuditPruneThrough cutoff max_int64 db"

section \<open>The head of the chain\<close>

record AuditHead =
  ah_LastID :: int
  ah_LastRowHash :: string
  ah_LastTimestamp :: time
  ah_FirstID :: int
  ah_Rows :: nat
  ah_Anchor :: "AuditAnchor option"

definition auditHead :: "audit_db \<Rightarrow> AuditHead" where
  "auditHead db =
     (let base = \<lparr>ah_LastID = 0, ah_LastRowHash = [], ah_LastTimestamp = 0,
            ah_FirstID = (case events_by_id db of [] \<Rightarrow> 0 | e # _ \<Rightarrow> ae_ID e),
            ah_Rows = length (ad_events db), ah_Anchor = latestAuditAnchor db\<rparr>
      in case rev (events_by_id db) of
           [] \<Rightarrow> base
         | e # _ \<Rightarrow> base\<lparr>ah_LastID := ae_ID e, ah_LastRowHash := ae_RowHash e, ah_LastTimestamp := ae_Timestamp e\<rparr>)"

section \<open>What the walk accepts\<close>

fun chain_from :: "int \<Rightarrow> string \<Rightarrow> AuditEvent list \<Rightarrow> bool" where
  "chain_from lst prev [] \<longleftrightarrow> True"
| "chain_from lst prev (e # es) \<longleftrightarrow> (lst > 0 \<longrightarrow> ae_ID e = lst + 1) \<and> ae_PrevHash e = prev \<and>
     computeRowHash e = ae_RowHash e \<and> chain_from (ae_ID e) (ae_RowHash e) es"

definition starts_at :: "int \<Rightarrow> AuditEvent list \<Rightarrow> bool" where
  "starts_at req evs \<longleftrightarrow> (case evs of [] \<Rightarrow> True | e # _ \<Rightarrow> req > 0 \<longrightarrow> ae_ID e = req)"

lemma noteGap_keeps [simp]: "vr_OK (noteGap lost ev r) = vr_OK r" "vr_Total (noteGap lost ev r) = vr_Total r"
  by (simp_all add: noteGap_def)

lemma verify_loop_ok:
  "vr_OK (verify_loop lost req lst prev r evs) \<longleftrightarrow>
     (if evs = [] then vr_OK r
      else vr_OK r \<and> chain_from lst prev evs \<and> (vr_Total r = 0 \<longrightarrow> starts_at req evs))"
proof (induction evs arbitrary: lst prev r)
  case (Cons e es)
  then show ?case by (auto simp add: Let_def verify_fail_def starts_at_def)
qed simp

lemma anchored_report_simps [simp]: "vr_OK (anchored_report db)" "vr_Total (anchored_report db) = 0"
  by (simp_all add: anchored_report_def new_report_def split: option.split)

lemma verify_ok_iff:
  "vr_OK (VerifyAuditChain lost db) \<longleftrightarrow>
     chain_from 0 (snd (chain_start db)) (events_by_id db) \<and> starts_at (fst (chain_start db)) (events_by_id db)"
  by (cases "chain_start db") (auto simp: VerifyAuditChain_def verify_loop_ok starts_at_def)

lemma verify_loop_total:
  "vr_OK (verify_loop lost req lst prev r evs) \<Longrightarrow> vr_Total (verify_loop lost req lst prev r evs) = vr_Total r + length evs"
proof (induction evs arbitrary: lst prev r)
  case (Cons e es)
  then show ?case by (auto simp: Let_def verify_fail_def split: if_splits)
qed simp

lemma chain_from_append:
  "chain_from lst prev (xs @ ys) \<longleftrightarrow> chain_from lst prev xs \<and>
     (if xs = [] then chain_from lst prev ys else chain_from (ae_ID (last xs)) (ae_RowHash (last xs)) ys)"
  by (induction xs arbitrary: lst prev) auto

lemma link_events_chain:
  "lst > 0 \<longrightarrow> n = lst + 1 \<Longrightarrow> 0 < n \<Longrightarrow> chain_from lst prev (link_events n prev evs)"
proof (induction evs arbitrary: n prev lst)
  case (Cons e es)
  then show ?case by (simp add: Let_def computeRowHash_def row_text_def)
qed simp

lemma link_events_ids: "map ae_ID (link_events n prev evs) = map (\<lambda>i. n + int i) [0..<length evs]"
proof (induction evs arbitrary: n prev)
  case (Cons e es)
  show ?case by (simp add: Let_def Cons.IH upt_conv_Cons map_Suc_upt [symmetric] algebra_simps del: upt_Suc)
qed simp

lemma length_link_events [simp]: "length (link_events n prev evs) = length evs"
  by (metis length_map link_events_ids map_nth length_upt minus_nat.diff_0)

section \<open>The invariant\<close>

text \<open>The table in id order with positive, consecutive ids, a chain that starts where the newest anchor
  says, every hash nonempty, and anchors that cut further and further.\<close>

definition audit_inv :: "audit_db \<Rightarrow> bool" where
  "audit_inv db \<longleftrightarrow>
     sorted_wrt (\<lambda>e f. ae_ID e < ae_ID f) (ad_events db) \<and>
     list_all (\<lambda>e. 0 < ae_ID e \<and> ae_RowHash e \<noteq> []) (ad_events db) \<and>
     sorted_wrt (\<lambda>a b. an_PrunedThroughID a < an_PrunedThroughID b) (ad_anchors db) \<and>
     sorted_wrt (\<lambda>a b. an_ID a < an_ID b) (ad_anchors db) \<and>
     (case rev (ad_anchors db) of
        [] \<Rightarrow> chain_from 0 genesisHash (ad_events db) \<and> starts_at 1 (ad_events db)
      | a # _ \<Rightarrow> 0 < an_PrunedThroughID a \<and> an_BoundaryHash a \<noteq> [] \<and>
          an_RetainedFromID a \<in> {0, an_PrunedThroughID a + 1} \<and>
          chain_from 0 (an_BoundaryHash a) (ad_events db) \<and>
          starts_at (an_PrunedThroughID a + 1) (ad_events db))"

lemma sort_key_strict: "sorted_wrt (\<lambda>x y. f x < f y) xs \<Longrightarrow> sort_key f xs = xs"
  for f :: "'a \<Rightarrow> 'b::linorder"
proof (induction xs)
  case (Cons x xs)
  then have "sort_key f xs = xs" and "\<forall>y \<in> set xs. f x < f y" by auto
  then show ?case by (cases xs) auto
qed simp

lemma events_by_id_inv: "audit_inv db \<Longrightarrow> events_by_id db = ad_events db"
  by (simp add: events_by_id_def audit_inv_def sort_key_strict)

lemma latest_inv: "audit_inv db \<Longrightarrow>
   latestAuditAnchor db = (case rev (ad_anchors db) of [] \<Rightarrow> None | a # _ \<Rightarrow> Some a)"
  by (simp add: latestAuditAnchor_def audit_inv_def sort_key_strict)

lemma audit_inv_empty: "audit_inv empty_audit"
  by (simp add: audit_inv_def empty_audit_def starts_at_def)

text \<open>The invariant is more than the walk checks.\<close>

lemma audit_inv_verifies: "audit_inv db \<Longrightarrow> vr_OK (VerifyAuditChain lost db)"
  by (auto simp: verify_ok_iff chain_start_def latest_inv events_by_id_inv starts_at_def audit_inv_def
      split: list.splits)


lemma sorted_from_head:
  "sorted_wrt (\<lambda>e f. ae_ID e < ae_ID f) evs \<Longrightarrow> starts_at n evs \<Longrightarrow> 0 < n \<Longrightarrow> e \<in> set evs \<Longrightarrow> n \<le> ae_ID e"
  by (cases evs) (auto simp: starts_at_def)

lemma link_events_sorted: "sorted_wrt (\<lambda>e f. ae_ID e < ae_ID f) (link_events n prev evs)"
proof -
  have "sorted_wrt (<) (map ae_ID (link_events n prev evs))"
    by (simp add: link_events_ids sorted_wrt_map sorted_wrt_upt sorted_wrt_iff_nth_less)
  then show ?thesis by (simp add: sorted_wrt_map)
qed

lemma link_events_bounds: "e \<in> set (link_events n prev evs) \<Longrightarrow> n \<le> ae_ID e \<and> ae_RowHash e \<noteq> []"
proof (induction evs arbitrary: n prev)
  case (Cons x xs)
  then show ?case by (fastforce simp: Let_def computeRowHash_def)
qed simp

lemma link_events_starts: "starts_at n (link_events n prev evs)"
  by (cases evs) (simp_all add: starts_at_def Let_def)

lemma tip_nonempty:
  assumes "audit_inv db" and "ad_events db \<noteq> []"
  shows "auditChainTip db = (ae_ID (last (ad_events db)) + 1, ae_RowHash (last (ad_events db)))"
proof -
  have "ae_RowHash (last (ad_events db)) \<noteq> []" using assms by (auto simp: audit_inv_def list_all_iff)
  with assms show ?thesis
    by (cases "ad_events db" rule: rev_cases) (simp_all add: auditChainTip_def events_by_id_inv or_genesis_def)
qed

lemma tip_pos: "audit_inv db \<Longrightarrow> 0 < fst (auditChainTip db)"
  by (cases "ad_events db = []")
    (auto simp: tip_nonempty auditChainTip_def events_by_id_inv latest_inv audit_inv_def list_all_iff
      split: list.splits dest: last_in_set)

lemma append_keeps_inv:
  assumes inv: "audit_inv db" and tip: "auditChainTip db = (n, prev)"
  shows "audit_inv (db\<lparr>ad_events := ad_events db @ link_events n prev evs\<rparr>)"
proof (cases "ad_events db = []")
  case True
  have n: "0 < n" using tip_pos [OF inv] tip by simp
  have "sorted_wrt (\<lambda>e f. ae_ID e < ae_ID f) (link_events n prev evs)"
    "list_all (\<lambda>e. 0 < ae_ID e \<and> ae_RowHash e \<noteq> []) (link_events n prev evs)"
    "chain_from 0 prev (link_events n prev evs)" "starts_at n (link_events n prev evs)"
    using n link_events_bounds [of _ n prev evs]
    by (auto simp: link_events_sorted link_events_starts list_all_iff intro!: link_events_chain intro: less_le_trans)
  moreover have "case rev (ad_anchors db) of [] \<Rightarrow> n = 1 \<and> prev = genesisHash
      | a # _ \<Rightarrow> n = an_PrunedThroughID a + 1 \<and> prev = an_BoundaryHash a"
    using inv tip True
    by (auto simp: auditChainTip_def events_by_id_inv latest_inv audit_inv_def or_genesis_def split: list.splits)
  ultimately show ?thesis using inv True by (auto simp: audit_inv_def split: list.splits)
next
  case False
  let ?l = "last (ad_events db)"
  from inv False have l: "0 < ae_ID ?l" by (auto simp: audit_inv_def list_all_iff)
  from tip tip_nonempty [OF inv False] have n: "n = ae_ID ?l + 1" "prev = ae_RowHash ?l" by auto
  have le: "ae_ID e \<le> ae_ID ?l" if "e \<in> set (ad_events db)" for e
    using that inv False
    by (cases "ad_events db" rule: rev_cases) (auto simp: audit_inv_def sorted_wrt_append)
  have "chain_from 0 h (ad_events db @ link_events n prev evs)" if "chain_from 0 h (ad_events db)" for h
    using that False n l by (simp add: chain_from_append link_events_chain)
  moreover have "starts_at k (ad_events db @ ys)" if "starts_at k (ad_events db)" for k ys
    using that False by (cases "ad_events db") (simp_all add: starts_at_def)
  moreover have "sorted_wrt (\<lambda>e f. ae_ID e < ae_ID f) (ad_events db @ link_events n prev evs)"
    using inv le n link_events_bounds [of _ n prev evs]
    by (force simp: audit_inv_def sorted_wrt_append link_events_sorted)
  moreover have "list_all (\<lambda>e. 0 < ae_ID e \<and> ae_RowHash e \<noteq> []) (ad_events db @ link_events n prev evs)"
    using inv l n link_events_bounds [of _ n prev evs] by (fastforce simp: audit_inv_def list_all_iff)
  ultimately show ?thesis using inv by (auto simp: audit_inv_def split: list.splits)
qed

lemma append_tx_inv: "audit_inv db \<Longrightarrow> audit_inv (snd (appendAuditEventsTx clock evs db))"
  by (auto simp: appendAuditEventsTx_def Let_def split: sum.split prod.split intro: append_keeps_inv)

lemma append_batch_inv: "audit_inv db \<Longrightarrow> audit_inv (snd (appendAuditBatchN faults attempt left clock evs db))"
proof (induction left arbitrary: attempt db)
  case (Suc left)
  have "audit_inv (snd (appendAuditEventsOnce (faults attempt) clock evs db))"
    using Suc.prems append_tx_inv by (simp add: appendAuditEventsOnce_def split: option.split driver_fault.split)
  with Suc.IH show ?case by (auto split: prod.split sum.split)
qed simp

lemma prune_split:
  assumes "sorted_wrt (\<lambda>e f. ae_ID e < ae_ID f) evs" and "find (\<lambda>e. ae_ID e = i) evs = Some b"
  obtains xs where "evs = xs @ b # filter (\<lambda>e. ae_ID e > i) evs" and "ae_ID b = i"
proof -
  from find_Some_in [OF assms(2)] obtain xs ys where e: "evs = xs @ b # ys" and b: "ae_ID b = i"
    by (metis split_list)
  from assms(1) e b have "filter (\<lambda>e. ae_ID e > i) xs = []" "filter (\<lambda>e. ae_ID e > i) ys = ys"
    by (auto simp: sorted_wrt_append filter_empty_conv filter_id_conv)
  with e b have "filter (\<lambda>e. ae_ID e > i) evs = ys" by simp
  with e b that show thesis by metis
qed

lemma prune_cases:
  obtains (no) e where "PruneAuditPrefix now a db = (Inl e, db)"
  | (yes) b rest a' where "0 < an_PrunedThroughID a" "an_ExportSHA256 a \<noteq> []" "an_ExportPath a \<noteq> []"
      "find (\<lambda>e. ae_ID e = an_PrunedThroughID a) (ad_events db) = Some b"
      "an_BoundaryHash a = [] \<or> an_BoundaryHash a = ae_RowHash b"
      "rest = filter (\<lambda>e. ae_ID e > an_PrunedThroughID a) (ad_events db)"
      "a' = pruned_anchor now a (ae_RowHash b) rest db"
      "PruneAuditPrefix now a db = (Inr a', \<lparr>ad_events = rest, ad_anchors = ad_anchors db @ [a']\<rparr>)"
proof (cases "an_PrunedThroughID a \<le> 0 \<or> an_ExportSHA256 a = [] \<or> an_ExportPath a = []")
  case True
  then have "PruneAuditPrefix now a db =
     (Inl (if an_PrunedThroughID a \<le> 0 then NonPositiveBoundary else Unsealed), db)"
    by (auto simp: PruneAuditPrefix_def)
  then show thesis by (rule no)
next
  case False
  show thesis
  proof (cases "find (\<lambda>e. ae_ID e = an_PrunedThroughID a) (ad_events db)")
    case None
    with False show thesis by (intro no [of BoundaryGone]) (auto simp: PruneAuditPrefix_def row_hash_of_def)
  next
    case (Some b)
    show thesis
    proof (cases "an_BoundaryHash a \<noteq> [] \<and> an_BoundaryHash a \<noteq> ae_RowHash b")
      case True
      with False Some show thesis by (intro no [of BoundaryChanged]) (auto simp: PruneAuditPrefix_def row_hash_of_def)
    next
      case bound: False
      with False Some show thesis
        by (intro yes [OF _ _ _ Some _ refl refl]) (auto simp: PruneAuditPrefix_def row_hash_of_def Let_def)
    qed
  qed
qed

lemma pruned_anchor_simps:
  "an_PrunedThroughID (pruned_anchor now a h rest db) = an_PrunedThroughID a"
  "an_BoundaryHash (pruned_anchor now a h rest db) = h"
  "an_RetainedFromID (pruned_anchor now a h rest db) = (case sort_key ae_ID rest of [] \<Rightarrow> 0 | e # _ \<Rightarrow> ae_ID e)"
  "an_ID (pruned_anchor now a h rest db) = (if ad_anchors db = [] then 0 else Max (set (map an_ID (ad_anchors db)))) + 1"
  by (simp_all add: pruned_anchor_def Let_def)

lemma prune_keeps_inv:
  assumes inv: "audit_inv db"
  shows "audit_inv (snd (PruneAuditPrefix now a db))"
proof (cases rule: prune_cases [of now a db])
  case (no e)
  with inv show ?thesis by simp
next
  case (yes b rest a')
  let ?t = "an_PrunedThroughID a"
  from inv have so: "sorted_wrt (\<lambda>e f. ae_ID e < ae_ID f) (ad_events db)" by (simp add: audit_inv_def)
  from prune_split [OF so yes(4)] yes(6) obtain xs where split: "ad_events db = xs @ b # rest" and bid: "ae_ID b = ?t"
    by metis
  have srest: "sorted_wrt (\<lambda>e f. ae_ID e < ae_ID f) rest" unfolding yes(6) using so by (rule sorted_wrt_filter)
  note a' = pruned_anchor_simps [of now a "ae_RowHash b" rest db, folded yes(7), unfolded sort_key_strict [OF srest]]
  obtain h where "chain_from 0 h (ad_events db)" using inv by (auto simp: audit_inv_def split: list.splits)
  then have "chain_from (ae_ID b) (ae_RowHash b) rest"
    unfolding split by (auto simp: chain_from_append split: if_splits)
  then have rest: "chain_from 0 (ae_RowHash b) rest" "starts_at (?t + 1) rest"
    using yes(1) bid by (cases rest; simp add: starts_at_def)+
  have mem: "b \<in> set (ad_events db)" by (simp add: split)
  then have bh: "ae_RowHash b \<noteq> []" using inv by (auto simp: audit_inv_def list_all_iff)
  have ids: "an_ID x < an_ID a'" if "x \<in> set (ad_anchors db)" for x
    using that by (auto simp: a' less_eq_Suc_le intro!: zle_add1_eq_le [THEN iffD2] Max_ge)
  have thr: "an_PrunedThroughID x < ?t" if x: "x \<in> set (ad_anchors db)" for x
  proof (cases "rev (ad_anchors db)")
    case (Cons l ls)
    then have as: "ad_anchors db = rev ls @ [l]" by (metis rev.simps(2) rev_rev_ident)
    from inv as have "0 < an_PrunedThroughID l" "starts_at (an_PrunedThroughID l + 1) (ad_events db)"
      "an_PrunedThroughID x \<le> an_PrunedThroughID l" using x
      by (auto simp: audit_inv_def sorted_wrt_append)
    with sorted_from_head [OF so _ _ mem] bid show ?thesis by fastforce
  qed (use x in simp)
  have ret: "an_RetainedFromID a' \<in> {0, ?t + 1}" using rest(2) yes(1) by (cases rest) (simp_all add: a' starts_at_def)
  have "list_all (\<lambda>e. 0 < ae_ID e \<and> ae_RowHash e \<noteq> []) rest"
    using inv yes(6) by (auto simp: audit_inv_def list_all_iff)
  then show ?thesis
    using inv srest ids thr ret rest bh yes(1)
    by (simp add: yes(8) audit_inv_def sorted_wrt_append a'(1,2))
qed

section \<open>Histories\<close>

text \<open>What happens to a trail: batches are appended, with whatever the driver does at each attempt, and
  prefixes are pruned, by a request with any contents.\<close>

datatype audit_act = DoAppend "nat \<Rightarrow> driver_fault option" "nat \<Rightarrow> time" "AuditEvent option list"
  | DoPrune time AuditAnchor

fun audit_do :: "audit_act \<Rightarrow> audit_db \<Rightarrow> audit_db" where
  "audit_do (DoAppend faults clock evs) db = snd (appendAuditBatchN faults 0 auditAppendAttempts clock evs db)"
| "audit_do (DoPrune now a) db = snd (PruneAuditPrefix now a db)"

definition audit_step :: "audit_db \<Rightarrow> audit_db \<Rightarrow> bool" where
  "audit_step db db' \<longleftrightarrow> (\<exists>a. db' = audit_do a db)"

lemma audit_do_inv: "audit_inv db \<Longrightarrow> audit_inv (audit_do a db)"
  by (cases a) (simp_all add: append_batch_inv prune_keeps_inv)

interpretation audit_system: preserved audit_step audit_inv
  by unfold_locales (auto simp: audit_step_def intro: audit_do_inv)

lemma audit_run_steps: "audit_step\<^sup>*\<^sup>* db (fold audit_do acts db)"
proof (induction acts arbitrary: db)
  case (Cons a acts)
  have "audit_step db (audit_do a db)" unfolding audit_step_def by blast
  with Cons.IH show ?case by (simp add: converse_rtranclp_into_rtranclp)
qed simp

lemma audit_reached: "audit_inv (fold audit_do acts empty_audit)"
  using audit_system.steps_keep audit_run_steps audit_inv_empty by blast

lemma chain_ids:
  "chain_from lst prev evs \<Longrightarrow> list_all (\<lambda>e. 0 < ae_ID e) evs \<Longrightarrow> 0 < lst \<Longrightarrow>
     i < length evs \<Longrightarrow> ae_ID (evs ! i) = lst + 1 + int i"
proof (induction evs arbitrary: lst prev i)
  case (Cons e es)
  then show ?case by (cases i) auto
qed simp

lemma chain_ids_hd:
  assumes "chain_from lst prev evs" and "list_all (\<lambda>e. 0 < ae_ID e) evs" and "i < length evs"
  shows "ae_ID (evs ! i) = ae_ID (hd evs) + int i"
proof (cases evs)
  case (Cons e es)
  with assms chain_ids [of "ae_ID e" "ae_RowHash e" es "i - 1"] show ?thesis by (cases i) auto
qed (use assms in simp)

lemma chain_links:
  "chain_from lst prev evs \<Longrightarrow> Suc i < length evs \<Longrightarrow> ae_PrevHash (evs ! Suc i) = ae_RowHash (evs ! i)"
proof (induction evs arbitrary: lst prev i)
  case (Cons e es)
  then show ?case by (cases i; cases es) auto
qed simp

section \<open>The properties\<close>

text \<open>C4: a trail vouches for itself: after any history of appends, with failed attempts, retries and
  lost transactions, and of prunes, accepted or refused, the walk verifies every row.\<close>

theorem audit_history_verifies:
  "let db = fold audit_do acts empty_audit; r = VerifyAuditChain lost db
   in vr_OK r \<and> vr_Total r = length (ad_events db) \<and> chain_status_of r \<noteq> AuditChainBroken"
proof -
  let ?db = "fold audit_do acts empty_audit"
  have inv: "audit_inv ?db" by (rule audit_reached)
  have ok: "vr_OK (VerifyAuditChain lost ?db)" by (rule audit_inv_verifies [OF inv])
  moreover have "vr_Total (VerifyAuditChain lost ?db) = length (ad_events ?db)"
    using ok events_by_id_inv [OF inv] unfolding VerifyAuditChain_def
    by (cases "chain_start ?db") (simp add: verify_loop_total)
  ultimately show ?thesis by (simp add: Let_def chain_status_of_def)
qed

text \<open>rows cannot be taken out unnoticed except from the newest end: when the walk still accepts a
  trail some of whose rows were deleted, what is left is a prefix of it, unless some row hashed to
  the all-zero genesis hash.\<close>

theorem deleted_rows_are_noticed:
  "let db = fold audit_do acts empty_audit; kept = filter P (ad_events db)
   in if vr_OK (VerifyAuditChain lost (db\<lparr>ad_events := kept\<rparr>))
      then prefix kept (ad_events db) \<or> genesisHash \<in> ae_RowHash ` set (ad_events db)
      else True"
proof -
  let ?db = "fold audit_do acts empty_audit"
  let ?evs = "ad_events ?db"
  let ?k = "filter P ?evs"
  let ?db' = "?db\<lparr>ad_events := ?k\<rparr>"
  have inv: "audit_inv ?db" by (rule audit_reached)
  then have so: "sorted_wrt (\<lambda>e f. ae_ID e < ae_ID f) ?evs" and pos: "list_all (\<lambda>e. 0 < ae_ID e) ?evs"
    by (auto simp: audit_inv_def list_all_iff)
  have "sorted_wrt (<) (map ae_ID ?evs)" using so by (simp add: sorted_wrt_map)
  then have dist: "inj_on ae_ID (set ?evs)" by (simp add: strict_sorted_iff distinct_map)
  have sk: "events_by_id ?db' = ?k" by (simp add: events_by_id_def sort_key_strict sorted_wrt_filter so)
  have start: "chain_start ?db' = chain_start ?db" by (simp add: chain_start_def latestAuditAnchor_def)
  have "prefix ?k ?evs \<or> genesisHash \<in> ae_RowHash ` set ?evs" if ok: "vr_OK (VerifyAuditChain lost ?db')"
  proof (cases "?k = []")
    case False
    define f where "f = hd ?k"
    obtain lst h where ch: "chain_from lst h ?evs" using inv by (auto simp: audit_inv_def split: list.splits)
    have ck: "chain_from 0 (snd (chain_start ?db)) ?k" and st: "starts_at (fst (chain_start ?db)) ?k"
      using ok sk start by (simp_all add: verify_ok_iff)
    have "f \<in> set ?evs" using False hd_in_set [of ?k] by (simp add: f_def)
    then obtain j where j: "j < length ?evs" "f = ?evs ! j" by (metis in_set_conv_nth)
    have idf: "ae_ID f = ae_ID (hd ?evs) + int j" using chain_ids_hd [OF ch pos j(1)] j by simp
    have prev: "ae_PrevHash f = snd (chain_start ?db)" using ck False by (cases ?k) (simp_all add: f_def)
    show ?thesis
    proof (cases j)
      case 0
      have "?k = take (length ?k) ?evs"
      proof (rule nth_equalityI)
        fix i
        assume i: "i < length ?k"
        then have l: "i < length ?evs" using length_filter_le [of P ?evs] by (rule less_le_trans)
        have "list_all (\<lambda>e. 0 < ae_ID e) ?k" using pos by (simp add: list_all_iff)
        from chain_ids_hd [OF ck this i] chain_ids_hd [OF ch pos l] idf 0 f_def
        have "ae_ID (?k ! i) = ae_ID (?evs ! i)" by simp
        moreover have "?k ! i \<in> set ?evs" using nth_mem [OF i] by simp
        ultimately have "?k ! i = ?evs ! i" using dist nth_mem [OF l] by (auto dest: inj_onD)
        with i show "?k ! i = take (length ?k) ?evs ! i" by simp
      qed (simp add: min.absorb2 [OF length_filter_le])
      then show ?thesis by (metis take_is_prefix)
    next
      case (Suc p)
      then have "snd (chain_start ?db) = ae_RowHash (?evs ! p)" using chain_links [OF ch, of p] j prev by simp
      moreover have "?evs ! p \<in> set ?evs" using j Suc by simp
      moreover have "ad_anchors ?db = []"
      proof (rule ccontr)
        assume "ad_anchors ?db \<noteq> []"
        then obtain a as where a: "rev (ad_anchors ?db) = a # as" by (metis rev_is_Nil_conv neq_Nil_conv)
        with inv have t: "0 < an_PrunedThroughID a" "an_RetainedFromID a \<in> {0, an_PrunedThroughID a + 1}"
          "starts_at (an_PrunedThroughID a + 1) ?evs" by (simp_all add: audit_inv_def)
        then have req: "fst (chain_start ?db) = an_PrunedThroughID a + 1"
          using a by (auto simp: chain_start_def latest_inv [OF inv])
        have "ae_ID f = fst (chain_start ?db)" using st t(1) req False by (cases ?k) (simp_all add: f_def starts_at_def)
        moreover have "ae_ID (hd ?evs) = an_PrunedThroughID a + 1" using t j by (cases ?evs) (simp_all add: starts_at_def)
        ultimately show False using idf req Suc by simp
      qed
      ultimately show ?thesis by (auto simp: chain_start_def latest_inv [OF inv])
    qed
  qed simp
  then show ?thesis by (simp add: Let_def)
qed


lemma row_text_prev:
  "row_text e = row_text f \<Longrightarrow> length (ae_PrevHash e) = length (ae_PrevHash f) \<Longrightarrow> ae_PrevHash e = ae_PrevHash f"
  by (simp add: row_text_def)

lemma chain_from_snoc:
  "chain_from lst prev (xs @ [e]) \<Longrightarrow> chain_from lst prev xs \<and> computeRowHash e = ae_RowHash e \<and>
     ae_PrevHash e = (if xs = [] then prev else ae_RowHash (last xs))"
  by (auto simp: chain_from_append split: if_splits)

lemma chain_row_hash: "chain_from lst prev xs \<Longrightarrow> e \<in> set xs \<Longrightarrow> ae_RowHash e = sha256_hex (row_text e)"
  by (induction xs arbitrary: lst prev) (auto simp: computeRowHash_def)

lemma same_head_same_rows:
  assumes "chain_from l1 prev xs" and "chain_from l2 prev ys" and "length xs = length ys"
    and "xs = [] \<or> ae_RowHash (last xs) = ae_RowHash (last ys)"
  shows "map row_text xs = map row_text ys \<or>
    (\<exists>(e, f) \<in> set (zip xs ys). row_text e \<noteq> row_text f \<and> sha256_hex (row_text e) = sha256_hex (row_text f))"
  using assms
proof (induction xs arbitrary: ys rule: rev_induct)
  case (snoc e xs)
  then obtain f ys' where ys: "ys = ys' @ [f]" by (metis length_0_conv rev_exhaust snoc_eq_iff_butlast)
  with snoc.prems(3) have len: "length xs = length ys'" by simp
  from snoc.prems(1,2,4) ys have c: "chain_from l1 prev xs" "chain_from l2 prev ys'"
    "ae_PrevHash e = (if xs = [] then prev else ae_RowHash (last xs))"
    "ae_PrevHash f = (if ys' = [] then prev else ae_RowHash (last ys'))"
    and h: "sha256_hex (row_text e) = sha256_hex (row_text f)"
    by (auto dest!: chain_from_snoc simp: computeRowHash_def)
  show ?case
  proof (cases "row_text e = row_text f")
    case False
    with h ys len show ?thesis by auto
  next
    case True
    have "xs = [] \<or> ae_RowHash (last xs) = ae_RowHash (last ys')"
    proof (cases "xs = []")
      case ne: False
      with len have ne': "ys' \<noteq> []" by auto
      with c ne have "length (ae_PrevHash e) = length (ae_PrevHash f)"
        using chain_row_hash [OF c(1) last_in_set [OF ne]] chain_row_hash [OF c(2) last_in_set [OF ne']] by simp
      with row_text_prev [OF True] c ne ne' show ?thesis by simp
    qed simp
    from snoc.IH [OF c(1,2) len this] True ys len show ?thesis by auto
  qed
qed simp

text \<open>C28: the head pins the trail: two trails that verify and show the same head, as a checkpoint
  records it, hold the same rows in the texts that are hashed, or they exhibit two different texts,
  rows at the same position, with one SHA-256 digest.\<close>

theorem checkpointed_head_pins_the_trail:
  "if vr_OK (VerifyAuditChain lost db) \<and> vr_OK (VerifyAuditChain lost' db') \<and> auditHead db = auditHead db'
   then map row_text (events_by_id db) = map row_text (events_by_id db') \<or>
     (\<exists>(e, f) \<in> set (zip (events_by_id db) (events_by_id db')).
        row_text e \<noteq> row_text f \<and> sha256_hex (row_text e) = sha256_hex (row_text f))
   else True"
proof -
  have "map row_text (events_by_id db) = map row_text (events_by_id db') \<or>
     (\<exists>(e, f) \<in> set (zip (events_by_id db) (events_by_id db')).
        row_text e \<noteq> row_text f \<and> sha256_hex (row_text e) = sha256_hex (row_text f))"
    if ok: "vr_OK (VerifyAuditChain lost db)" "vr_OK (VerifyAuditChain lost' db')" and head: "auditHead db = auditHead db'"
  proof (rule same_head_same_rows)
    have flds: "ah_Anchor (auditHead d) = latestAuditAnchor d" "ah_Rows (auditHead d) = length (ad_events d)"
      "events_by_id d \<noteq> [] \<Longrightarrow> ah_LastRowHash (auditHead d) = ae_RowHash (last (events_by_id d))" for d
      by (cases "events_by_id d" rule: rev_cases; simp add: auditHead_def Let_def)+
    from head flds have anch: "latestAuditAnchor db = latestAuditAnchor db'"
      and len: "length (ad_events db) = length (ad_events db')" by metis+
    show "length (events_by_id db) = length (events_by_id db')" using len by (simp add: events_by_id_def)
    show "chain_from 0 (snd (chain_start db)) (events_by_id db)"
      "chain_from 0 (snd (chain_start db)) (events_by_id db')"
      using ok anch by (simp_all add: verify_ok_iff chain_start_def)
    show "events_by_id db = [] \<or> ae_RowHash (last (events_by_id db)) = ae_RowHash (last (events_by_id db'))"
      using head flds(3) [of db] flds(3) [of db'] len by (metis events_by_id_def length_0_conv length_sort)
  qed
  then show ?thesis by simp
qed


lemma normalize_from_result:
  "case normalize_from clock i evs of
     Inl e \<Rightarrow> (\<exists>j < length evs. e = NilEvent (i + j) \<and> evs ! j = None \<or>
        e = EmptyEventType (i + j) \<and> map_option ae_EventType (evs ! j) = Some [])
   | Inr nevs \<Rightarrow> map (Some \<circ> ae_Payload) nevs = map (map_option ae_Payload) evs"
proof (induction evs arbitrary: i)
  case (Cons x evs)
  show ?case
  proof (cases x)
    case None
    then show ?thesis by (auto intro: exI [of _ 0])
  next
    case (Some ev)
    show ?thesis
    proof (cases "ae_EventType ev = []")
      case True
      with Some show ?thesis by (auto simp: Let_def intro: exI [of _ 0])
    next
      case False
      show ?thesis
      proof (cases "normalize_from clock (Suc i) evs")
        case (Inl e)
        with Cons.IH [where i = "Suc i"] obtain j where "j < length evs"
          "e = NilEvent (Suc i + j) \<and> evs ! j = None \<or>
           e = EmptyEventType (Suc i + j) \<and> map_option ae_EventType (evs ! j) = Some []" by auto
        with Inl False Some show ?thesis by (auto simp: Let_def intro!: exI [of _ "Suc j"])
      next
        case (Inr nevs)
        with Cons.IH [where i = "Suc i"] False Some show ?thesis by (simp add: Let_def)
      qed
    qed
  qed
qed simp

lemma link_events_payload: "map ae_Payload (link_events n prev evs) = map ae_Payload evs"
  by (induction evs arbitrary: n prev) (simp_all add: Let_def)

lemma append_tx_result:
  "case appendAuditEventsTx clock evs db of
     (Inl e, db') \<Rightarrow> db' = db \<and> (\<exists>j < length evs. e = NilEvent j \<and> evs ! j = None \<or>
        e = EmptyEventType j \<and> map_option ae_EventType (evs ! j) = Some [])
   | (Inr rows, db') \<Rightarrow> db' = db\<lparr>ad_events := ad_events db @ rows\<rparr> \<and>
       map (Some \<circ> ae_Payload) rows = map (map_option ae_Payload) evs \<and>
       map ae_ID rows = map (\<lambda>i. fst (auditChainTip db) + int i) [0..<length evs]"
proof (cases "normalizeAuditEvents clock evs")
  case (Inl e)
  with normalize_from_result [where clock = clock and i = 0 and evs = evs] show ?thesis
    by (auto simp: appendAuditEventsTx_def normalizeAuditEvents_def)
next
  case (Inr nevs)
  obtain n prev where tip: "auditChainTip db = (n, prev)" by fastforce
  have m: "map (Some \<circ> ae_Payload) nevs = map (map_option ae_Payload) evs"
    using normalize_from_result [where clock = clock and i = 0 and evs = evs] Inr by (simp add: normalizeAuditEvents_def)
  then have "length nevs = length evs" by (metis length_map)
  moreover have "map (Some \<circ> ae_Payload) (link_events n prev nevs) = map (map_option ae_Payload) evs"
    using m link_events_payload [of n prev nevs] by (metis map_map)
  ultimately show ?thesis using Inr tip by (simp add: appendAuditEventsTx_def Let_def link_events_ids)
qed

lemma batch_outcome:
  "case appendAuditBatchN faults k (Suc left) clock evs db of
     (Inl e, db') \<Rightarrow> db' = db \<and>
       (case e of
          AuditLocked \<Rightarrow> \<forall>i \<in> {k..k + left}. faults i = Some DbLocked
        | AuditDriver \<Rightarrow> \<exists>i \<in> {k..k + left}. faults i = Some DbError \<and> (\<forall>j \<in> {k..<i}. faults j = Some DbLocked)
        | _ \<Rightarrow> appendAuditEventsTx clock evs db = (Inl e, db))
   | (Inr rows, db') \<Rightarrow> appendAuditEventsTx clock evs db = (Inr rows, db')"
proof (induction left arbitrary: k)
  case 0
  show ?case using append_tx_result [where clock = clock and evs = evs and db = db]
    by (auto simp: appendAuditEventsOnce_def split: option.split driver_fault.split sum.split prod.split)
next
  case (Suc left)
  show ?case
  proof (cases "faults k")
    case None
    then show ?thesis using append_tx_result [where clock = clock and evs = evs and db = db]
      by (auto simp: appendAuditEventsOnce_def split: sum.split prod.split)
  next
    case (Some f)
    show ?thesis
    proof (cases f)
      case DbError
      with Some show ?thesis by (auto simp: appendAuditEventsOnce_def)
    next
      case DbLocked
      have step: "appendAuditBatchN faults k (Suc (Suc left)) clock evs db =
          appendAuditBatchN faults (Suc k) (Suc left) clock evs db"
        using Some DbLocked by (simp add: appendAuditEventsOnce_def)
      have all: "(\<forall>i \<in> {k..k + Suc left}. P i) \<longleftrightarrow> P k \<and> (\<forall>i \<in> {Suc k..Suc k + left}. P i)" for P
        by (auto simp: le_eq_less_or_eq Suc_le_eq)
      have ex: "\<exists>i \<in> {k..k + Suc left}. faults i = Some DbError \<and> (\<forall>j \<in> {k..<i}. faults j = Some DbLocked)"
        if "\<exists>i \<in> {Suc k..Suc k + left}. faults i = Some DbError \<and> (\<forall>j \<in> {Suc k..<i}. faults j = Some DbLocked)"
        using that Some DbLocked by (force simp: le_eq_less_or_eq Suc_le_eq)
      show ?thesis unfolding step using Suc.IH [where k = "Suc k"] Some DbLocked ex
        by (auto simp only: all split: prod.splits sum.splits audit_error.splits)
    qed
  qed
qed


text \<open>C30: a batch goes into the chain whole and in order, or not at all, and the error says why: the
  database was locked at every one of the ten attempts, or failed otherwise at the first attempt it
  was not locked, or the batch holds a nil event or one without a type at the index named.\<close>

theorem append_is_all_or_nothing:
  "case appendAuditBatchN faults 0 auditAppendAttempts clock evs db of
     (Inl e, db') \<Rightarrow> db' = db \<and>
       (case e of
          AuditLocked \<Rightarrow> {0..9} \<subseteq> {i. faults i = Some DbLocked}
        | AuditDriver \<Rightarrow> \<exists>i \<in> {0..9}. faults i = Some DbError \<and> {0..<i} \<subseteq> {j. faults j = Some DbLocked}
        | NilEvent j \<Rightarrow> j < length evs \<and> evs ! j = None
        | EmptyEventType j \<Rightarrow> j < length evs \<and> map_option ae_EventType (evs ! j) = Some []
        | _ \<Rightarrow> False)
   | (Inr rows, db') \<Rightarrow> db' = db\<lparr>ad_events := ad_events db @ rows\<rparr> \<and>
       map (Some \<circ> ae_Payload) rows = map (map_option ae_Payload) evs \<and>
       map ae_ID rows = map (\<lambda>i. fst (auditChainTip db) + int i) [0..<length evs]"
proof -
  have ten: "auditAppendAttempts = Suc 9" by (simp add: auditAppendAttempts_def)
  show ?thesis unfolding ten
    using batch_outcome [where faults = faults and k = 0 and left = 9 and clock = clock and evs = evs and db = db]
      append_tx_result [where clock = clock and evs = evs and db = db]
    by (auto simp del: appendAuditBatchN.simps split: prod.splits sum.splits audit_error.splits)
qed

text \<open>Rows that a verifier cannot tell apart.\<close>

definition same_link :: "AuditEvent \<Rightarrow> AuditEvent \<Rightarrow> bool" where
  "same_link e f \<longleftrightarrow> ae_ID e = ae_ID f \<and> ae_PrevHash e = ae_PrevHash f \<and> ae_RowHash e = ae_RowHash f \<and>
     computeRowHash e = computeRowHash f"

lemma same_link_chain:
  "list_all2 same_link xs ys \<Longrightarrow> chain_from lst prev xs = chain_from lst prev ys \<and> starts_at n xs = starts_at n ys"
proof (induction xs ys arbitrary: lst prev n rule: list_all2_induct)
  case (Cons x xs y ys)
  then show ?case by (auto simp: same_link_def starts_at_def)
qed (simp add: starts_at_def)

lemma same_link_id: "same_link e f \<Longrightarrow> ae_ID e = ae_ID f"
  by (simp add: same_link_def)

lemma same_link_insort:
  "list_all2 same_link xs ys \<Longrightarrow> same_link e f \<Longrightarrow>
     list_all2 same_link (insort_key ae_ID e xs) (insort_key ae_ID f ys)"
proof (induction xs ys rule: list_all2_induct)
  case (Cons x xs y ys)
  then show ?case using same_link_id [of e f] same_link_id [of x y] by simp
qed simp

lemma same_link_sort:
  "list_all2 same_link xs ys \<Longrightarrow> list_all2 same_link (sort_key ae_ID xs) (sort_key ae_ID ys)"
  by (induction xs ys rule: list_all2_induct) (auto simp: same_link_insort)

text \<open>the text that is hashed joins its fields with tabs and does not escape the tabs in them: in
  any trail, text after a tab in a row's entity id can be moved to the front of its payload, and
  the walk gives the same verdict.\<close>

theorem shifted_field_is_not_noticed:
  "vr_OK (VerifyAuditChain lost (db\<lparr>ad_events := xs @ r\<lparr>ae_EntityID := a, ae_Payload := b @ tab # ae_Payload r\<rparr> # ys\<rparr>))
   = vr_OK (VerifyAuditChain lost (db\<lparr>ad_events := xs @ r\<lparr>ae_EntityID := a @ tab # b\<rparr> # ys\<rparr>))"
proof -
  let ?e = "r\<lparr>ae_EntityID := a, ae_Payload := b @ tab # ae_Payload r\<rparr>"
  let ?f = "r\<lparr>ae_EntityID := a @ tab # b\<rparr>"
  have "same_link x x" for x by (simp add: same_link_def)
  moreover have "same_link ?e ?f" by (simp add: same_link_def computeRowHash_def row_text_def)
  ultimately have "list_all2 same_link (xs @ ?e # ys) (xs @ ?f # ys)"
    by (intro list_all2_appendI list_all2_Cons [THEN iffD2] conjI list_all2_refl) auto
  from same_link_sort [OF this] same_link_chain show ?thesis
    by (simp add: verify_ok_iff events_by_id_def chain_start_def latestAuditAnchor_def)
qed

definition noon :: time where "noon = 63844804800 * go_second"

definition one_event :: "time \<Rightarrow> audit_db" where
  "one_event t = \<lparr>ad_events = [\<lparr>ae_ID = 1, ae_Timestamp = t, ae_Actor = ''ui'', ae_EventType = ''task.create'',
     ae_EntityType = [], ae_EntityID = [], ae_Payload = [], ae_PrevHash = genesisHash, ae_RowHash = ''h''\<rparr>],
     ad_anchors = []\<rparr>"

lemma noon_texts:
  "rfc3339nano noon = ''2024-02-29T12:00:00Z''"
  "rfc3339nano (noon + 500000000) = ''2024-02-29T12:00:00.5Z''"
  by code_simp+

lemma noon_order: "''2024-02-29T12:00:00.5Z'' < ''2024-02-29T12:00:00Z''"
  by (simp add: less_char_def)

text \<open>the cutoff of a prune is compared as text, in which a whole second sorts after any fraction of
  it: an event half a second younger than a whole-second cutoff is in the prefix to be deleted, and
  an event on a whole second that is older than a fractional cutoff is not.\<close>

theorem prune_cutoff_is_compared_as_text:
  "pc_ThroughID (PlanAuditPrune noon (one_event (noon + 500000000))) = 1
   \<and> noon < noon + 500000000
   \<and> pc_ThroughID (PlanAuditPrune (noon + 500000000) (one_event noon)) = 0"
  using noon_order less_not_sym [OF noon_order]
  by (simp add: PlanAuditPrune_def PlanAuditPruneThrough_def events_by_id_def one_event_def noon_texts
      max_int64_def row_hash_of_def Let_def del: Cons_less_Cons)

end
