(* ===== verification/AuditLoss.thy ===== *)
theory AuditLoss
  imports AuditChain
begin

text \<open>
  The account of audit events that could not be appended (pkg/statedb/audit_failures.go), for one
  chain, and the append path that feeds it (\<open>appendAuditEvents\<close> of audit.go). What is owed is
  claimed, written as a gap row ahead of the next batch that succeeds or on its own by the
  reporter, and settled, or released again. Writers interleave between their critical sections:
  the account's lock makes claiming, releasing, settling and recording atomic, the database's a
  transaction. A histogram is a list of counts by name, in the order a range over the Go map
  takes. The text of a gap row's JSON payload is a parameter (\<open>payload\<close>), as is what is read back
  from it (\<open>lost\<close>).
\<close>

section \<open>A loss\<close>

record AuditLoss =
  al_Events :: int
  al_Appends :: int
  al_FirstAt :: time
  al_LastAt :: time
  al_FirstError :: string
  al_LastError :: string
  al_Actions :: "(string \<times> int) list"
  al_Reasons :: "(string \<times> int) list"
  al_PIDs :: "int list"
  al_AdoptedFrom :: "int list"

definition no_loss :: AuditLoss where
  "no_loss = \<lparr>al_Events = 0, al_Appends = 0, al_FirstAt = 0, al_LastAt = 0, al_FirstError = [],
     al_LastError = [], al_Actions = [], al_Reasons = [], al_PIDs = [], al_AdoptedFrom = []\<rparr>"

definition Empty :: "AuditLoss \<Rightarrow> bool" where
  "Empty l \<longleftrightarrow> al_Events l = 0"

definition auditLossMaxActions :: nat where "auditLossMaxActions = 64"
definition auditLossMaxPIDs :: nat where "auditLossMaxPIDs = 16"
definition auditLossOtherAction :: string where "auditLossOtherAction = ''(other)''"
definition maxAdoptedEvents :: int where "maxAdoptedEvents = 2 ^ 40"

fun bump :: "string \<Rightarrow> int \<Rightarrow> (string \<times> int) list \<Rightarrow> (string \<times> int) list" where
  "bump k n [] = [(k, n)]"
| "bump k n ((k', v) # m) = (if k = k' then (k', v + n) # m else (k', v) # bump k n m)"

definition countAction :: "string \<Rightarrow> int \<Rightarrow> AuditLoss \<Rightarrow> AuditLoss" where
  "countAction name n l =
     (let name = (if name \<notin> fst ` set (al_Actions l) \<and> length (al_Actions l) \<ge> auditLossMaxActions
                  then auditLossOtherAction else name)
      in l\<lparr>al_Actions := bump name n (al_Actions l)\<rparr>)"

definition addPIDTo :: "int list \<Rightarrow> int \<Rightarrow> int list" where
  "addPIDTo pids pid =
     (if pid \<in> set pids then pids else if length pids < auditLossMaxPIDs then pids @ [pid] else pids)"

definition action_name :: "AuditEvent \<Rightarrow> string" where
  "action_name ev = (if ae_EventType ev \<noteq> [] then ae_EventType ev else auditLossOtherAction)"

definition add_loss :: "AuditEvent list \<Rightarrow> string \<Rightarrow> string \<Rightarrow> time \<Rightarrow> int \<Rightarrow> AuditLoss \<Rightarrow> AuditLoss" where
  "add_loss evs reason msg at pid l =
     (let n = int (length evs);
          l = (if al_Events l = 0 then l\<lparr>al_FirstAt := at, al_FirstError := msg\<rparr> else l);
          l = l\<lparr>al_Events := al_Events l + n, al_Appends := al_Appends l + 1, al_LastAt := at, al_LastError := msg\<rparr>;
          l = fold (\<lambda>ev. countAction (action_name ev) 1) evs l
      in l\<lparr>al_Reasons := bump reason n (al_Reasons l), al_PIDs := addPIDTo (al_PIDs l) pid\<rparr>)"

definition merge_loss :: "AuditLoss \<Rightarrow> AuditLoss \<Rightarrow> AuditLoss" where
  "merge_loss l r =
     (if al_Events r = 0 then l
      else
        let l = (if al_Events l = 0 \<or> (al_FirstAt r \<noteq> 0 \<and> al_FirstAt r < al_FirstAt l)
                 then l\<lparr>al_FirstAt := al_FirstAt r, al_FirstError := al_FirstError r\<rparr> else l);
            l = (if al_LastAt r > al_LastAt l
                 then l\<lparr>al_LastAt := al_LastAt r, al_LastError := al_LastError r\<rparr> else l);
            l = l\<lparr>al_Events := al_Events l + al_Events r, al_Appends := al_Appends l + al_Appends r\<rparr>;
            l = fold (\<lambda>(k, v). countAction k v) (al_Actions r) l
        in l\<lparr>al_Reasons := fold (\<lambda>(k, v). bump k v) (al_Reasons r) (al_Reasons l),
             al_PIDs := foldl addPIDTo (al_PIDs l) (al_PIDs r),
             al_AdoptedFrom := foldl addPIDTo (al_AdoptedFrom l) (al_AdoptedFrom r)\<rparr>)"

section \<open>The account\<close>

record auditChainAccount =
  ac_owed :: AuditLoss
  ac_claimed :: "AuditLoss option"
  ac_total :: int
  ac_recorded :: int
  ac_gapRows :: int
  ac_lastGapID :: int
  ac_lastGapAt :: time
  ac_gapWriteFailures :: int
  ac_lastGapError :: string
  ac_reported :: int
  ac_orphaned :: bool
  lg_owed :: int

definition new_account :: auditChainAccount where
  "new_account = \<lparr>ac_owed = no_loss, ac_claimed = None, ac_total = 0, ac_recorded = 0, ac_gapRows = 0,
     ac_lastGapID = 0, ac_lastGapAt = 0, ac_gapWriteFailures = 0, ac_lastGapError = [], ac_reported = 0,
     ac_orphaned = False, lg_owed = 0\<rparr>"

definition unrecorded :: "auditChainAccount \<Rightarrow> AuditLoss" where
  "unrecorded c = (case ac_claimed c of None \<Rightarrow> ac_owed c | Some l \<Rightarrow> merge_loss (ac_owed c) l)"

definition record_failure ::
    "AuditEvent list \<Rightarrow> string \<Rightarrow> string \<Rightarrow> time \<Rightarrow> int \<Rightarrow> auditChainAccount \<Rightarrow> auditChainAccount" where
  "record_failure evs reason msg now pid c =
     (if evs = [] then c
      else c\<lparr>ac_owed := add_loss evs reason msg now pid (ac_owed c),
             ac_total := ac_total c + int (length evs),
             ac_orphaned := False,
             lg_owed := lg_owed c + int (length evs)\<rparr>)"

definition claim_loss :: "auditChainAccount \<Rightarrow> AuditLoss option \<times> auditChainAccount" where
  "claim_loss c =
     (if lg_owed c = 0 then (None, c)
      else if ac_claimed c \<noteq> None \<or> Empty (ac_owed c) then (None, c)
      else (Some (ac_owed c), c\<lparr>ac_owed := no_loss, ac_claimed := Some (ac_owed c)\<rparr>))"

definition release_loss :: "AuditLoss option \<Rightarrow> string \<Rightarrow> bool \<Rightarrow> auditChainAccount \<Rightarrow> auditChainAccount" where
  "release_loss g err alone c =
     (case g of
        None \<Rightarrow> c
      | Some loss \<Rightarrow>
          let c = c\<lparr>ac_owed := merge_loss loss (ac_owed c), ac_claimed := None\<rparr>
          in if alone then c\<lparr>ac_gapWriteFailures := ac_gapWriteFailures c + 1, ac_lastGapError := err\<rparr> else c)"

definition settle_loss :: "AuditLoss option \<Rightarrow> AuditEvent \<Rightarrow> auditChainAccount \<Rightarrow> auditChainAccount" where
  "settle_loss g ev c =
     (case g of
        None \<Rightarrow> c
      | Some loss \<Rightarrow>
          c\<lparr>ac_claimed := None, ac_recorded := ac_recorded c + al_Events loss, ac_gapRows := ac_gapRows c + 1,
            ac_lastGapID := ae_ID ev, ac_lastGapAt := ae_Timestamp ev,
            lg_owed := lg_owed c - al_Events loss\<rparr>)"

text \<open>An entry another process left behind: what of it is still to be recorded, given whether
  its path resolves to a database of ours and how many of its events gap rows already cover, then
  the account with it.\<close>

definition AuditFailOther :: string where "AuditFailOther = ''other''"

definition knownAuditFailure :: "string \<Rightarrow> string" where
  "knownAuditFailure s =
     (if s \<in> {''locked'', ''readonly'', ''full'', ''io'', ''closed''} then s else AuditFailOther)"

definition adoptable_rest :: "bool \<Rightarrow> int \<Rightarrow> AuditLoss \<Rightarrow> AuditLoss option" where
  "adoptable_rest adoptable already loss =
     (if al_Events loss < 0 \<or> al_Events loss > maxAdoptedEvents then None
      else if Empty loss then None
      else if \<not> adoptable then None
      else if already > 0 \<and> already \<ge> al_Events loss then None
      else
        let loss = (if already > 0
                    then let rest = al_Events loss - already
                      in loss\<lparr>al_Events := rest, al_Appends := (if al_Appends loss > rest then rest else al_Appends loss),
                              al_Actions := [(auditLossOtherAction, rest)], al_Reasons := [(AuditFailOther, rest)]\<rparr>
                    else loss)
        in Some (loss\<lparr>al_AdoptedFrom := foldl addPIDTo (al_AdoptedFrom loss) (al_PIDs loss),
                      al_Reasons := fold (\<lambda>(k, v). bump (knownAuditFailure k) v) (al_Reasons loss) []\<rparr>))"

definition adopt_loss :: "AuditLoss \<Rightarrow> auditChainAccount \<Rightarrow> auditChainAccount" where
  "adopt_loss loss c =
     c\<lparr>ac_owed := merge_loss (ac_owed c) loss, ac_total := ac_total c + al_Events loss,
       ac_reported := ac_reported c + al_Events loss, ac_orphaned := False,
       lg_owed := lg_owed c + al_Events loss\<rparr>"

section \<open>Writing\<close>

definition gapEvent :: "(AuditLoss \<Rightarrow> string \<Rightarrow> string) \<Rightarrow> AuditLoss \<Rightarrow> string \<Rightarrow> AuditEvent" where
  "gapEvent payload loss recorded =
     \<lparr>ae_ID = 0, ae_Timestamp = 0, ae_Actor = ''system'', ae_EventType = auditGapEventType,
      ae_EntityType = ''audit'', ae_EntityID = [], ae_Payload = payload loss recorded,
      ae_PrevHash = [], ae_RowHash = []\<rparr>"

definition GapRecordedOnRecovery :: string where "GapRecordedOnRecovery = ''recovery''"
definition GapRecordedByFlush :: string where "GapRecordedByFlush = ''flush''"

definition gap_batch ::
    "(AuditLoss \<Rightarrow> string \<Rightarrow> string) \<Rightarrow> AuditLoss option \<Rightarrow> string \<Rightarrow> AuditEvent list \<Rightarrow> AuditEvent list" where
  "gap_batch payload g recorded evs =
     (case g of None \<Rightarrow> evs | Some loss \<Rightarrow> gapEvent payload loss recorded # evs)"

text \<open>Where a writer is: between the claim and the transaction, between the transaction and the
  settlement (with the rows written, or the error), and between releasing and recording. A flush
  writes its gap row alone. The system also counts the events as callers offer them, when
  \<open>appendAuditEvents\<close> is entered and before anything is tried.\<close>

datatype writer = Quiet
  | Claimed bool "AuditLoss option" "AuditEvent list"
  | Written bool "AuditLoss option" "AuditEvent list" "audit_error + AuditEvent list"
  | Unrecorded "AuditEvent list"

record loss_system =
  lo_db :: audit_db
  lo_acct :: auditChainAccount
  lo_writers :: "writer list"
  lo_offered :: int
  lo_stored :: int

datatype loss_act =
  Offer nat "AuditEvent list"
| Flush nat
| Transact nat "nat \<Rightarrow> driver_fault option" "nat \<Rightarrow> time"
| Conclude nat string
| RecordLoss nat string string time int
| Adopt bool int AuditLoss

text \<open>Events as the entry points hand them on: normalised, and none is a gap row.\<close>

definition callable :: "AuditEvent list \<Rightarrow> bool" where
  "callable evs \<longleftrightarrow> evs \<noteq> [] \<and>
     list_all (\<lambda>ev. ae_EventType ev \<noteq> [] \<and> ae_EventType ev \<noteq> auditGapEventType) evs"

fun loss_do :: "(AuditLoss \<Rightarrow> string \<Rightarrow> string) \<Rightarrow> loss_act \<Rightarrow> loss_system \<Rightarrow> loss_system option" where
  "loss_do payload (Offer i evs) s =
     (if i < length (lo_writers s) \<and> lo_writers s ! i = Quiet \<and> callable evs
      then let (g, c) = claim_loss (lo_acct s)
        in Some (s\<lparr>lo_acct := c, lo_writers := (lo_writers s)[i := Claimed False g evs],
                   lo_offered := lo_offered s + int (length evs)\<rparr>)
      else None)"
| "loss_do payload (Flush i) s =
     (if i < length (lo_writers s) \<and> lo_writers s ! i = Quiet
      then (case claim_loss (lo_acct s) of
              (None, c) \<Rightarrow> Some (s\<lparr>lo_acct := c\<rparr>)
            | (Some l, c) \<Rightarrow>
                Some (s\<lparr>lo_acct := c, lo_writers := (lo_writers s)[i := Claimed True (Some l) []]\<rparr>))
      else None)"
| "loss_do payload (Transact i faults clock) s =
     (if i < length (lo_writers s)
      then (case lo_writers s ! i of
              Claimed alone g evs \<Rightarrow>
                (let batch = gap_batch payload g (if alone then GapRecordedByFlush else GapRecordedOnRecovery) evs;
                     (r, db) = appendAuditBatchN faults 0 (if alone then 1 else auditAppendAttempts) clock
                                 (map Some batch) (lo_db s)
                 in Some (s\<lparr>lo_db := db, lo_writers := (lo_writers s)[i := Written alone g evs r],
                            lo_stored := lo_stored s + (case r of Inl e \<Rightarrow> 0 | Inr rows \<Rightarrow> int (length evs))\<rparr>))
            | _ \<Rightarrow> None)
      else None)"
| "loss_do payload (Conclude i msg) s =
     (if i < length (lo_writers s)
      then (case lo_writers s ! i of
              Written alone g evs (Inl e) \<Rightarrow>
                Some (s\<lparr>lo_acct := release_loss g msg alone (lo_acct s),
                        lo_writers := (lo_writers s)[i := (if alone then Quiet else Unrecorded evs)]\<rparr>)
            | Written alone g evs (Inr rows) \<Rightarrow>
                Some (s\<lparr>lo_acct := (if g = None then lo_acct s else settle_loss g (hd rows) (lo_acct s)),
                        lo_writers := (lo_writers s)[i := Quiet]\<rparr>)
            | _ \<Rightarrow> None)
      else None)"
| "loss_do payload (RecordLoss i reason msg now pid) s =
     (if i < length (lo_writers s)
      then (case lo_writers s ! i of
              Unrecorded evs \<Rightarrow>
                Some (s\<lparr>lo_acct := record_failure evs reason msg now pid (lo_acct s),
                        lo_writers := (lo_writers s)[i := Quiet]\<rparr>)
            | _ \<Rightarrow> None)
      else None)"
| "loss_do payload (Adopt adoptable already loss) s =
     (case adoptable_rest adoptable already loss of
        None \<Rightarrow> Some s
      | Some l \<Rightarrow> Some (s\<lparr>lo_acct := adopt_loss l (lo_acct s), lo_offered := lo_offered s + al_Events l\<rparr>))"

fun loss_run :: "(AuditLoss \<Rightarrow> string \<Rightarrow> string) \<Rightarrow> loss_act list \<Rightarrow> loss_system \<Rightarrow> loss_system option" where
  "loss_run payload [] s = Some s"
| "loss_run payload (a # acts) s = (case loss_do payload a s of None \<Rightarrow> None | Some s' \<Rightarrow> loss_run payload acts s')"

definition loss_start :: "nat \<Rightarrow> loss_system" where
  "loss_start n = \<lparr>lo_db = empty_audit, lo_acct = new_account, lo_writers = replicate n Quiet,
     lo_offered = 0, lo_stored = 0\<rparr>"


section \<open>Counting\<close>

lemma countAction_keeps [simp]:
  "al_Events (countAction k v l) = al_Events l" "al_PIDs (countAction k v l) = al_PIDs l"
  "al_AdoptedFrom (countAction k v l) = al_AdoptedFrom l"
  by (simp_all add: countAction_def Let_def)

lemma fold_countAction_keeps [simp]:
  "al_Events (fold (\<lambda>ev. countAction (f ev) (g ev)) evs l) = al_Events l"
  "al_PIDs (fold (\<lambda>ev. countAction (f ev) (g ev)) evs l) = al_PIDs l"
  "al_AdoptedFrom (fold (\<lambda>ev. countAction (f ev) (g ev)) evs l) = al_AdoptedFrom l"
  by (induction evs arbitrary: l) simp_all

lemma fold_pairs: "fold (\<lambda>(k, v). countAction k v) kvs l = fold (\<lambda>ev. countAction (fst ev) (snd ev)) kvs l"
  by (simp add: case_prod_beta')

lemma add_loss_events [simp]: "al_Events (add_loss evs reason msg at pid l) = al_Events l + int (length evs)"
  by (simp add: add_loss_def Let_def)

lemma merge_loss_events [simp]: "al_Events (merge_loss l r) = al_Events l + al_Events r"
  by (simp add: merge_loss_def Let_def fold_pairs)

definition small :: "AuditLoss \<Rightarrow> bool" where
  "small l \<longleftrightarrow> length (al_Actions l) \<le> Suc auditLossMaxActions \<and>
     (length (al_Actions l) = Suc auditLossMaxActions \<longrightarrow> auditLossOtherAction \<in> fst ` set (al_Actions l)) \<and>
     length (al_PIDs l) \<le> auditLossMaxPIDs \<and> length (al_AdoptedFrom l) \<le> auditLossMaxPIDs"

lemma length_bump: "length (bump k n m) = (if k \<in> fst ` set m then length m else Suc (length m))"
  by (induction m) (auto split: if_splits)

lemma keys_bump: "fst ` set (bump k n m) = insert k (fst ` set m)"
  by (induction k n m rule: bump.induct) (simp_all add: insert_commute)

lemma small_countAction: "small l \<Longrightarrow> small (countAction k v l)"
  by (auto simp: small_def countAction_def Let_def length_bump keys_bump)

lemma small_fold: "small l \<Longrightarrow> small (fold (\<lambda>ev. countAction (f ev) (g ev)) evs l)"
  by (induction evs arbitrary: l) (simp_all add: small_countAction)

lemma length_addPIDs: "length pids \<le> auditLossMaxPIDs \<Longrightarrow> length (foldl addPIDTo pids qs) \<le> auditLossMaxPIDs"
  by (induction qs arbitrary: pids) (simp_all add: addPIDTo_def)

lemma small_fields:
  "small l \<Longrightarrow> al_Actions l' = al_Actions l \<Longrightarrow> length (al_PIDs l') \<le> auditLossMaxPIDs \<Longrightarrow>
     length (al_AdoptedFrom l') \<le> auditLossMaxPIDs \<Longrightarrow> small l'"
  by (simp add: small_def)

lemma small_no_loss [simp]: "small no_loss"
  by (simp add: small_def no_loss_def)

lemma small_add: "small l \<Longrightarrow> small (add_loss evs reason msg at pid l)"
proof -
  assume s: "small l"
  define l1 where "l1 = (if al_Events l = 0 then l\<lparr>al_FirstAt := at, al_FirstError := msg\<rparr> else l)"
  define l2 where "l2 = l1\<lparr>al_Events := al_Events l1 + int (length evs), al_Appends := al_Appends l1 + 1,
     al_LastAt := at, al_LastError := msg\<rparr>"
  have "small l2" using s by (simp add: small_def l1_def l2_def)
  then have f: "small (fold (\<lambda>ev. countAction (action_name ev) 1) evs l2)" by (rule small_fold)
  moreover have "al_PIDs l2 = al_PIDs l" "al_AdoptedFrom l2 = al_AdoptedFrom l" by (simp_all add: l1_def l2_def)
  ultimately show ?thesis
    unfolding add_loss_def Let_def l1_def [symmetric] l2_def [symmetric] 
    using s by (elim small_fields) (simp_all add: small_def addPIDTo_def)
qed

lemma small_merge: "small l \<Longrightarrow> small (merge_loss l r)"
proof (cases "al_Events r = 0")
  case False
  assume s: "small l"
  define l1 where "l1 = (if al_Events l = 0 \<or> (al_FirstAt r \<noteq> 0 \<and> al_FirstAt r < al_FirstAt l)
     then l\<lparr>al_FirstAt := al_FirstAt r, al_FirstError := al_FirstError r\<rparr> else l)"
  define l2 where "l2 = (if al_LastAt r > al_LastAt l1
     then l1\<lparr>al_LastAt := al_LastAt r, al_LastError := al_LastError r\<rparr> else l1)"
  define l3 where "l3 = l2\<lparr>al_Events := al_Events l2 + al_Events r, al_Appends := al_Appends l2 + al_Appends r\<rparr>"
  have "small l3" using s by (simp add: small_def l1_def l2_def l3_def)
  then have f: "small (fold (\<lambda>(k, v). countAction k v) (al_Actions r) l3)" unfolding fold_pairs by (rule small_fold)
  moreover have "al_PIDs l3 = al_PIDs l" "al_AdoptedFrom l3 = al_AdoptedFrom l" by (simp_all add: l1_def l2_def l3_def)
  moreover have "merge_loss l r = (let l = fold (\<lambda>(k, v). countAction k v) (al_Actions r) l3
      in l\<lparr>al_Reasons := fold (\<lambda>(k, v). bump k v) (al_Reasons r) (al_Reasons l),
             al_PIDs := foldl addPIDTo (al_PIDs l) (al_PIDs r),
             al_AdoptedFrom := foldl addPIDTo (al_AdoptedFrom l) (al_AdoptedFrom r)\<rparr>)"
    using False unfolding merge_loss_def Let_def l1_def [symmetric] l2_def [symmetric] l3_def [symmetric] by simp
  ultimately show ?thesis
    using s by (simp add: Let_def) (elim small_fields, simp_all add: small_def fold_pairs length_addPIDs)
qed (simp add: merge_loss_def)

section \<open>The invariant\<close>

text \<open>What a row says to the account.\<close>

definition kind_of :: "AuditEvent \<Rightarrow> string \<times> string" where
  "kind_of e = (ae_EventType e, ae_Payload e)"

definition gap_sum :: "(string \<Rightarrow> int) \<Rightarrow> AuditEvent list \<Rightarrow> int" where
  "gap_sum lost evs =
     sum_list (map (\<lambda>e. if ae_EventType e = auditGapEventType then AuditGapLostEvents lost (ae_Payload e) else 0) evs)"

definition plain_rows :: "AuditEvent list \<Rightarrow> AuditEvent list" where
  "plain_rows evs = filter (\<lambda>e. ae_EventType e \<noteq> auditGapEventType) evs"

lemma normalize_kinds:
  "normalize_from clock i (map Some evs) = Inr nevs \<Longrightarrow> map kind_of nevs = map kind_of evs"
proof (induction evs arbitrary: i nevs)
  case (Cons e evs)
  then show ?case
    by (cases "normalize_from clock (Suc i) (map Some evs)") (auto simp: Let_def kind_of_def split: if_splits)
qed simp

lemma link_kinds: "map kind_of (link_events n prev evs) = map kind_of evs"
  by (induction evs arbitrary: n prev) (simp_all add: Let_def kind_of_def)

lemma batch_rows:
  assumes "appendAuditBatchN faults 0 (Suc n) clock (map Some batch) db = (r, db')"
  shows "case r of Inl e \<Rightarrow> db' = db
    | Inr rows \<Rightarrow> db' = db\<lparr>ad_events := ad_events db @ rows\<rparr> \<and> map kind_of rows = map kind_of batch"
proof (cases r)
  case (Inl e)
  with assms batch_outcome [where faults = faults and k = 0 and left = n and clock = clock and evs = "map Some batch" and db = db]
  show ?thesis by (simp del: appendAuditBatchN.simps)
next
  case (Inr rows)
  with assms batch_outcome [where faults = faults and k = 0 and left = n and clock = clock and evs = "map Some batch" and db = db]
  have tx: "appendAuditEventsTx clock (map Some batch) db = (Inr rows, db')" by (simp del: appendAuditBatchN.simps)
  show ?thesis
  proof (cases "batch = []")
    case True
    then have "([], db) = (rows, db')" using tx by (simp add: appendAuditEventsTx_def)
    with Inr True show ?thesis by simp
  next
    case False
    show ?thesis
    proof (cases "normalizeAuditEvents clock (map Some batch)")
      case (Inl e)
      with tx False show ?thesis by (simp add: appendAuditEventsTx_def)
    next
      case nevs: (Inr nevs)
      obtain n prev where tip: "auditChainTip db = (n, prev)" by fastforce
      have eq: "appendAuditEventsTx clock (map Some batch) db =
          (Inr (link_events n prev nevs), db\<lparr>ad_events := ad_events db @ link_events n prev nevs\<rparr>)"
        using False nevs tip by (simp add: appendAuditEventsTx_def Let_def)
      have rows: "rows = link_events n prev nevs" and db': "db\<lparr>ad_events := ad_events db @ rows\<rparr> = db'"
        using tx unfolding eq by auto
      have "map kind_of rows = map kind_of batch"
        unfolding rows link_kinds by (rule normalize_kinds [OF nevs [unfolded normalizeAuditEvents_def]])
      with Inr db' show ?thesis by simp
    qed
  qed
qed

lemma gap_sum_Cons:
  "gap_sum lost (e # es) = (if fst (kind_of e) = auditGapEventType then AuditGapLostEvents lost (snd (kind_of e)) else 0) +
     gap_sum lost es"
  "length (plain_rows (e # es)) = (if fst (kind_of e) = auditGapEventType then 0 else 1) + length (plain_rows es)"
  by (simp_all add: gap_sum_def plain_rows_def kind_of_def)

lemma gap_sum_kinds:
  "map kind_of xs = map kind_of ys \<Longrightarrow> gap_sum lost xs = gap_sum lost ys \<and> length (plain_rows xs) = length (plain_rows ys)"
proof (induction xs arbitrary: ys)
  case (Cons x xs)
  then obtain y ys' where ys: "ys = y # ys'" and k: "kind_of x = kind_of y" and m: "map kind_of xs = map kind_of ys'" by auto
  show ?case unfolding ys gap_sum_Cons k using Cons.IH [OF m] by simp
qed simp

lemma gap_sum_append: "gap_sum lost (xs @ ys) = gap_sum lost xs + gap_sum lost ys"
  by (simp add: gap_sum_def)

lemma gap_sum_callable:
  "list_all (\<lambda>ev. ae_EventType ev \<noteq> [] \<and> ae_EventType ev \<noteq> auditGapEventType) evs \<Longrightarrow>
     gap_sum lost evs = 0 \<and> plain_rows evs = evs"
  by (induction evs) (auto simp: gap_sum_def plain_rows_def)

text \<open>The walk adds up what the gap rows carry.\<close>

lemma verify_gap_sum:
  "vr_OK (verify_loop lost req lst prev r evs) \<Longrightarrow>
     vr_GapEvents (verify_loop lost req lst prev r evs) = vr_GapEvents r + gap_sum lost evs"
proof (induction evs arbitrary: lst prev r)
  case (Cons e es)
  then show ?case by (auto simp: Let_def verify_fail_def gap_sum_def noteGap_def split: if_splits)
qed (simp add: gap_sum_def)

text \<open>What a writer holds of the account, and what it has put into the chain without having said so.\<close>

definition holding :: "writer \<Rightarrow> AuditLoss option" where
  "holding w = (case w of Claimed alone g evs \<Rightarrow> g | Written alone g evs r \<Rightarrow> g | _ \<Rightarrow> None)"

definition claims :: "writer \<Rightarrow> int" where
  "claims w = (if holding w = None then 0 else 1)"

definition events_of :: "AuditLoss option \<Rightarrow> int" where
  "events_of g = (case g of None \<Rightarrow> 0 | Some l \<Rightarrow> al_Events l)"

definition unsettled :: "writer \<Rightarrow> int" where
  "unsettled w = (case w of Written alone g evs (Inr rows) \<Rightarrow> events_of g | _ \<Rightarrow> 0)"

text \<open>The caller's events a writer still holds: neither stored nor on the account.\<close>

definition in_flight :: "writer \<Rightarrow> int" where
  "in_flight w = (case w of
     Claimed alone g evs \<Rightarrow> int (length evs)
   | Written alone g evs (Inl e) \<Rightarrow> int (length evs)
   | Unrecorded evs \<Rightarrow> int (length evs)
   | _ \<Rightarrow> 0)"

lemma in_flight_simps [simp]: "in_flight Quiet = 0" "in_flight (Claimed alone g evs) = int (length evs)"
  "in_flight (Written alone g evs (Inl e)) = int (length evs)" "in_flight (Written alone g evs (Inr rows)) = 0"
  "in_flight (Unrecorded evs) = int (length evs)"
  by (simp_all add: in_flight_def)

definition writer_ok :: "auditChainAccount \<Rightarrow> writer \<Rightarrow> bool" where
  "writer_ok c w \<longleftrightarrow> (holding w = None \<or> holding w = ac_claimed c) \<and>
     (case w of
        Claimed alone g evs \<Rightarrow> list_all (\<lambda>ev. ae_EventType ev \<noteq> [] \<and> ae_EventType ev \<noteq> auditGapEventType) evs \<and> (alone \<longrightarrow> evs = [])
      | Written alone g evs r \<Rightarrow> (alone \<longrightarrow> evs = [])
      | _ \<Rightarrow> True)"

definition account_ok :: "auditChainAccount \<Rightarrow> bool" where
  "account_ok c \<longleftrightarrow> al_Events (ac_owed c) \<ge> 0 \<and> events_of (ac_claimed c) \<ge> 0 \<and>
     ac_total c = ac_recorded c + al_Events (ac_owed c) + events_of (ac_claimed c) \<and>
     lg_owed c = al_Events (ac_owed c) + events_of (ac_claimed c) \<and>
     small (ac_owed c) \<and> (case ac_claimed c of None \<Rightarrow> True | Some l \<Rightarrow> small l)"

definition loss_inv :: "(string \<Rightarrow> int) \<Rightarrow> loss_system \<Rightarrow> bool" where
  "loss_inv lost s \<longleftrightarrow>
     audit_inv (lo_db s) \<and> account_ok (lo_acct s) \<and>
     list_all (writer_ok (lo_acct s)) (lo_writers s) \<and>
     sum_list (map claims (lo_writers s)) = (if ac_claimed (lo_acct s) = None then 0 else 1) \<and>
     lo_offered s = lo_stored s + ac_total (lo_acct s) + sum_list (map in_flight (lo_writers s)) \<and>
     lo_stored s = int (length (plain_rows (ad_events (lo_db s)))) \<and>
     gap_sum lost (ad_events (lo_db s)) = ac_recorded (lo_acct s) + sum_list (map unsettled (lo_writers s))"

lemma loss_inv_start: "loss_inv lost (loss_start n)"
proof -
  have z: "claims Quiet = 0" "unsettled Quiet = 0" by (simp_all add: claims_def holding_def unsettled_def)
  show ?thesis using audit_inv_empty
    by (auto simp: loss_inv_def loss_start_def account_ok_def new_account_def no_loss_def z sum_list_replicate
        events_of_def small_def list_all_iff writer_ok_def holding_def empty_audit_def gap_sum_def plain_rows_def)
qed

lemma sum_update: "i < length ws \<Longrightarrow> sum_list (map f (ws[i := w])) = sum_list (map f ws) + f w - (f (ws ! i) :: int)"
  by (induction ws arbitrary: i) (auto split: nat.splits)

text \<open>A writer that holds nothing sees nothing change when another claims or gives back.\<close>

lemma claims_nonneg: "0 \<le> sum_list (map claims ws)"
  by (induction ws) (simp_all add: claims_def)

lemma claims_one: "w \<in> set ws \<Longrightarrow> claims w \<le> sum_list (map claims ws)"
  using claims_nonneg by (induction ws) (auto simp: claims_def add_increasing2 add_increasing)

lemma no_claim_none:
  assumes "sum_list (map claims ws) = 0" and "w \<in> set ws"
  shows "holding w = None"
  using claims_one [OF assms(2)] assms(1) by (auto simp: claims_def split: if_splits)

lemma sole_claim:
  assumes "sum_list (map claims ws) = 1" and "i < length ws" and "holding (ws ! i) \<noteq> None" and "j < length ws" "j \<noteq> i"
  shows "holding (ws ! j) = None"
proof -
  have "sum_list (map claims (ws[i := Quiet])) = 0"
    using assms by (simp add: sum_update claims_def holding_def)
  moreover have "ws ! j \<in> set (ws[i := Quiet])" using assms by (metis length_list_update nth_list_update_neq nth_mem)
  ultimately show ?thesis by (rule no_claim_none)
qed

lemma writers_update:
  assumes "list_all (writer_ok c) ws" and "i < length ws" and "writer_ok c' w"
    and "ac_claimed c' = ac_claimed c \<or> (\<forall>j < length ws. j \<noteq> i \<longrightarrow> holding (ws ! j) = None)"
  shows "list_all (writer_ok c') (ws[i := w])"
  unfolding list_all_length
proof (intro allI impI)
  fix j
  assume j: "j < length (ws[i := w])"
  show "writer_ok c' (ws[i := w] ! j)"
  proof (cases "j = i")
    case True
    with assms(2,3) show ?thesis by simp
  next
    case False
    with assms(1) j have "writer_ok c (ws ! j)" by (simp add: list_all_length)
    with assms(4) False j show ?thesis by (auto simp: writer_ok_def)
  qed
qed

lemma claim_cases:
  obtains "claim_loss c = (None, c)"
  | "claim_loss c = (Some (ac_owed c), c\<lparr>ac_owed := no_loss, ac_claimed := Some (ac_owed c)\<rparr>)"
    "ac_claimed c = None"
  by (cases "lg_owed c = 0 \<or> ac_claimed c \<noteq> None \<or> Empty (ac_owed c)") (auto simp: claim_loss_def)

lemma no_loss_events [simp]: "al_Events no_loss = 0"
  by (simp add: no_loss_def)

lemma account_claim:
  "account_ok c \<Longrightarrow> ac_claimed c = None \<Longrightarrow>
     account_ok (c\<lparr>ac_owed := no_loss, ac_claimed := Some (ac_owed c)\<rparr>)"
  by (simp add: account_ok_def events_of_def)

lemma account_release:
  "account_ok c \<Longrightarrow> ac_claimed c = g \<Longrightarrow> account_ok (release_loss g msg alone c) \<and>
     ac_claimed (release_loss g msg alone c) = None \<and> ac_total (release_loss g msg alone c) = ac_total c \<and>
     ac_recorded (release_loss g msg alone c) = ac_recorded c"
  by (auto simp: release_loss_def account_ok_def events_of_def Let_def small_merge split: option.split)

lemma account_settle:
  "account_ok c \<Longrightarrow> ac_claimed c = Some l \<Longrightarrow> account_ok (settle_loss (Some l) ev c) \<and>
     ac_claimed (settle_loss (Some l) ev c) = None \<and> ac_total (settle_loss (Some l) ev c) = ac_total c \<and>
     ac_recorded (settle_loss (Some l) ev c) = ac_recorded c + al_Events l"
  by (auto simp: settle_loss_def account_ok_def events_of_def)

lemma account_record:
  "account_ok c \<Longrightarrow> account_ok (record_failure evs reason msg now pid c) \<and>
     ac_claimed (record_failure evs reason msg now pid c) = ac_claimed c \<and>
     ac_total (record_failure evs reason msg now pid c) = ac_total c + int (length evs) \<and>
     ac_recorded (record_failure evs reason msg now pid c) = ac_recorded c"
  by (auto simp: record_failure_def account_ok_def small_add)

lemma account_adopt:
  "account_ok c \<Longrightarrow> al_Events l \<ge> 0 \<Longrightarrow> account_ok (adopt_loss l c) \<and> ac_claimed (adopt_loss l c) = ac_claimed c \<and>
     ac_total (adopt_loss l c) = ac_total c + al_Events l \<and> ac_recorded (adopt_loss l c) = ac_recorded c"
  by (auto simp: adopt_loss_def account_ok_def small_merge)

lemma adoptable_nonneg: "adoptable_rest adoptable already loss = Some l \<Longrightarrow> al_Events l \<ge> 0"
  by (auto simp: adoptable_rest_def Let_def split: if_splits)

text \<open>A step of one writer: what is left to show of the invariant.\<close>

lemma loss_inv_writer:
  assumes inv: "loss_inv lost s" and i: "i < length (lo_writers s)"
    and acct: "account_ok c'" "ac_total c' - ac_total (lo_acct s) = dt" "ac_recorded c' - ac_recorded (lo_acct s) = dr"
    and w: "writer_ok c' w" "unsettled w - unsettled (lo_writers s ! i) = du"
    and cl: "claims w - claims (lo_writers s ! i) =
      (if ac_claimed c' = None then 0 else 1) - (if ac_claimed (lo_acct s) = None then 0 else 1)"
    and others: "ac_claimed c' = ac_claimed (lo_acct s) \<or>
      (\<forall>j < length (lo_writers s). j \<noteq> i \<longrightarrow> holding (lo_writers s ! j) = None)"
    and db: "audit_inv db" "int (length (plain_rows (ad_events db))) - lo_stored s = ds"
      "gap_sum lost (ad_events db) - gap_sum lost (ad_events (lo_db s)) = dr + du"
    and off: "ds + dt + (in_flight w - in_flight (lo_writers s ! i)) = df"
  shows "loss_inv lost (s\<lparr>lo_db := db, lo_acct := c', lo_writers := (lo_writers s)[i := w],
     lo_stored := lo_stored s + ds, lo_offered := lo_offered s + df\<rparr>)"
  using inv acct db cl w(2) off writers_update [OF _ i w(1) others] i
  by (simp add: loss_inv_def sum_update)

lemma writer_ok_same: "ac_claimed c' = ac_claimed c \<Longrightarrow> writer_ok c' w = writer_ok c w"
  by (simp add: writer_ok_def)

lemma plain_rows_append: "plain_rows (xs @ ys) = plain_rows xs @ plain_rows ys"
  by (simp add: plain_rows_def)

lemma writer_at: "loss_inv lost s \<Longrightarrow> i < length (lo_writers s) \<Longrightarrow> lo_writers s ! i = w \<Longrightarrow> writer_ok (lo_acct s) w"
  by (auto simp: loss_inv_def list_all_length)

lemma none_hold:
  assumes "loss_inv lost s" and "ac_claimed (lo_acct s) = None" and "j < length (lo_writers s)"
  shows "holding (lo_writers s ! j) = None"
  using assms no_claim_none [of "lo_writers s" "lo_writers s ! j"] by (simp add: loss_inv_def)

lemma others_hold_none:
  assumes "loss_inv lost s" and "i < length (lo_writers s)" and "holding (lo_writers s ! i) = Some l"
    and "j < length (lo_writers s)" and "j \<noteq> i"
  shows "holding (lo_writers s ! j) = None"
proof (rule sole_claim [OF _ assms(2) _ assms(4,5)])
  have "holding (lo_writers s ! i) = ac_claimed (lo_acct s)"
    using writer_at [OF assms(1,2) refl] assms(3) unfolding writer_ok_def by simp
  then have "ac_claimed (lo_acct s) \<noteq> None" unfolding assms(3) by (metis option.distinct(1))
  then show "sum_list (map claims (lo_writers s)) = 1" using assms(1) by (simp add: loss_inv_def)
qed (use assms(3) in simp)

lemma inv_parts: "loss_inv lost s \<Longrightarrow> audit_inv (lo_db s) \<and> account_ok (lo_acct s) \<and>
   int (length (plain_rows (ad_events (lo_db s)))) - lo_stored s = 0"
  by (simp add: loss_inv_def)

text \<open>The three kinds of step: one that only moves a claim, one that writes, one that concludes.\<close>

lemma step_claim:
  assumes inv: "loss_inv lost s" and i: "i < length (lo_writers s)" and q: "lo_writers s ! i = Quiet"
    and cl: "claim_loss (lo_acct s) = (g, c)" and evs: "alone \<longrightarrow> evs = []"
      "list_all (\<lambda>ev. ae_EventType ev \<noteq> [] \<and> ae_EventType ev \<noteq> auditGapEventType) evs"
  shows "loss_inv lost (s\<lparr>lo_acct := c, lo_writers := (lo_writers s)[i := Claimed alone g evs],
     lo_offered := lo_offered s + int (length evs)\<rparr>)"
proof -
  have p: "audit_inv (lo_db s)" "account_ok (lo_acct s)"
    "int (length (plain_rows (ad_events (lo_db s)))) - lo_stored s = 0" using inv_parts [OF inv] by auto
  have z: "unsettled (Claimed alone g evs) - unsettled Quiet = 0" by (simp add: unsettled_def)
  have "loss_inv lost (s\<lparr>lo_db := lo_db s, lo_acct := c, lo_writers := (lo_writers s)[i := Claimed alone g evs],
      lo_stored := lo_stored s + 0, lo_offered := lo_offered s + int (length evs)\<rparr>)"
  proof (cases rule: claim_cases [of "lo_acct s"])
    case 1
    with cl have gc: "g = None" "c = lo_acct s" by auto
    show ?thesis
      by (rule loss_inv_writer [OF inv i _ _ refl _ z [folded q] _ _ p(1) p(3)])
        (use p(2) q evs in \<open>auto simp: gc writer_ok_def claims_def holding_def\<close>)
  next
    case 2
    with cl have gc: "g = Some (ac_owed (lo_acct s))"
      "c = (lo_acct s)\<lparr>ac_owed := no_loss, ac_claimed := Some (ac_owed (lo_acct s))\<rparr>" by auto
    show ?thesis
      by (rule loss_inv_writer [OF inv i _ _ refl _ z [folded q] _ _ p(1) p(3)])
        (use account_claim [OF p(2) 2(2)] q evs none_hold [OF inv 2(2)] 2(2) in
          \<open>auto simp: gc writer_ok_def claims_def holding_def\<close>)
  qed
  then show ?thesis by simp
qed

lemma step_transact:
  assumes inv: "loss_inv lost s" and i: "i < length (lo_writers s)" and q: "lo_writers s ! i = Claimed alone g evs"
    and lp: "\<And>l r. lost (payload l r) = al_Events l"
    and b: "appendAuditBatchN faults 0 (Suc n) clock (map Some (gap_batch payload g rec evs)) (lo_db s) = (r, db)"
    and d: "d = (case r of Inl e \<Rightarrow> 0 | Inr rows \<Rightarrow> int (length evs))"
  shows "loss_inv lost (s\<lparr>lo_db := db, lo_writers := (lo_writers s)[i := Written alone g evs r],
     lo_stored := lo_stored s + d\<rparr>)"
proof -
  have p: "audit_inv (lo_db s)" "account_ok (lo_acct s)"
    "int (length (plain_rows (ad_events (lo_db s)))) - lo_stored s = 0" using inv_parts [OF inv] by auto
  have w: "writer_ok (lo_acct s) (Claimed alone g evs)" by (rule writer_at [OF inv i q])
  then have ev: "gap_sum lost evs = 0" "plain_rows evs = evs" using gap_sum_callable by (auto simp: writer_ok_def)
  have "events_of g \<ge> 0" using w p(2) by (auto simp: writer_ok_def holding_def account_ok_def events_of_def)
  then have gs: "gap_sum lost (gap_batch payload g rec evs) = events_of g"
    "length (plain_rows (gap_batch payload g rec evs)) = length evs"
    using ev by (auto simp: gap_batch_def gap_sum_Cons gapEvent_def kind_of_def AuditGapLostEvents_def lp events_of_def
        split: option.splits)
  have inv_db: "audit_inv db" using append_batch_inv [OF p(1)] b by (metis snd_conv)
  have rows: "case r of Inl e \<Rightarrow> db = lo_db s
    | Inr rows \<Rightarrow> db = (lo_db s)\<lparr>ad_events := ad_events (lo_db s) @ rows\<rparr> \<and>
        map kind_of rows = map kind_of (gap_batch payload g rec evs)" by (rule batch_rows [OF b])
  have eff: "int (length (plain_rows (ad_events db))) - lo_stored s = d \<and>
    gap_sum lost (ad_events db) - gap_sum lost (ad_events (lo_db s)) = (case r of Inl e \<Rightarrow> 0 | Inr rows \<Rightarrow> events_of g)"
  proof (cases r)
    case (Inl e)
    then have "db = lo_db s" using rows by simp
    then show ?thesis using p(3) d Inl by simp
  next
    case (Inr rs)
    then have db: "db = (lo_db s)\<lparr>ad_events := ad_events (lo_db s) @ rs\<rparr>"
      and k: "map kind_of rs = map kind_of (gap_batch payload g rec evs)" using rows by simp_all
    have evs_db: "ad_events db = ad_events (lo_db s) @ rs" unfolding db by simp
    show ?thesis using p(3) d gap_sum_kinds [OF k, of lost] gs
      unfolding evs_db gap_sum_append plain_rows_append Inr by simp
  qed
  have "loss_inv lost (s\<lparr>lo_db := db, lo_acct := lo_acct s, lo_writers := (lo_writers s)[i := Written alone g evs r],
      lo_stored := lo_stored s + d, lo_offered := lo_offered s + 0\<rparr>)"
    by (rule loss_inv_writer [OF inv i p(2) _ refl _ refl _ _ inv_db conjunct1 [OF eff]])
      (use w conjunct2 [OF eff] q d in \<open>auto simp: writer_ok_def claims_def holding_def unsettled_def split: sum.splits\<close>)
  then show ?thesis by simp
qed

lemma step_conclude:
  assumes inv: "loss_inv lost s" and i: "i < length (lo_writers s)" and q: "lo_writers s ! i = Written alone g evs r"
    and w: "holding w = None" "unsettled w = 0" "\<And>c. writer_ok c w"
      "in_flight w = in_flight (Written alone g evs r)"
    and c: "c = (case r of Inl e \<Rightarrow> release_loss g msg alone (lo_acct s)
       | Inr rows \<Rightarrow> if g = None then lo_acct s else settle_loss g (hd rows) (lo_acct s))"
  shows "loss_inv lost (s\<lparr>lo_acct := c, lo_writers := (lo_writers s)[i := w]\<rparr>)"
proof -
  have p: "audit_inv (lo_db s)" "account_ok (lo_acct s)"
    "int (length (plain_rows (ad_events (lo_db s)))) - lo_stored s = 0" using inv_parts [OF inv] by auto
  have wo: "writer_ok (lo_acct s) (Written alone g evs r)" by (rule writer_at [OF inv i q])
  have "loss_inv lost (s\<lparr>lo_db := lo_db s, lo_acct := c, lo_writers := (lo_writers s)[i := w],
      lo_stored := lo_stored s + 0, lo_offered := lo_offered s + 0\<rparr>)"
  proof (cases g)
    case None
    then have "c = lo_acct s" using c by (simp add: release_loss_def split: sum.splits)
    then show ?thesis
      by (intro loss_inv_writer [OF inv i _ _ refl _ refl _ _ p(1) p(3)])
        (use p(2) w q None in \<open>auto simp: claims_def holding_def unsettled_def events_of_def split: sum.splits\<close>)
  next
    case (Some l)
    with wo have cl: "ac_claimed (lo_acct s) = Some l" by (simp add: writer_ok_def holding_def)
    have oth: "\<forall>j < length (lo_writers s). j \<noteq> i \<longrightarrow> holding (lo_writers s ! j) = None"
      using others_hold_none [OF inv i] q Some by (simp add: holding_def)
    have "account_ok c \<and> ac_claimed c = None \<and> ac_total c = ac_total (lo_acct s) \<and>
      ac_recorded c = ac_recorded (lo_acct s) + (case r of Inl e \<Rightarrow> 0 | Inr rows \<Rightarrow> al_Events l)"
      using c Some account_release [OF p(2) cl] account_settle [OF p(2) cl] by (auto split: sum.splits)
    then show ?thesis
      by (intro loss_inv_writer [OF inv i _ _ refl _ refl _ _ p(1) p(3)])
        (use w q Some cl oth in \<open>auto simp: claims_def holding_def unsettled_def events_of_def split: sum.splits\<close>)
  qed
  then show ?thesis by simp
qed

lemma step_record:
  assumes inv: "loss_inv lost s" and i: "i < length (lo_writers s)" and q: "lo_writers s ! i = Unrecorded evs"
  shows "loss_inv lost (s\<lparr>lo_acct := record_failure evs reason msg now pid (lo_acct s),
     lo_writers := (lo_writers s)[i := Quiet]\<rparr>)"
proof -
  have p: "audit_inv (lo_db s)" "account_ok (lo_acct s)"
    "int (length (plain_rows (ad_events (lo_db s)))) - lo_stored s = 0" using inv_parts [OF inv] by auto
  note a = account_record [OF p(2), of evs reason msg now pid]
  have "loss_inv lost (s\<lparr>lo_db := lo_db s, lo_acct := record_failure evs reason msg now pid (lo_acct s),
      lo_writers := (lo_writers s)[i := Quiet], lo_stored := lo_stored s + 0,
      lo_offered := lo_offered s + 0\<rparr>)"
    by (rule loss_inv_writer [OF inv i _ _ refl _ refl _ _ p(1) p(3)])
      (use a q in \<open>auto simp: claims_def holding_def unsettled_def writer_ok_def\<close>)
  then show ?thesis by simp
qed

lemma step_adopt:
  assumes inv: "loss_inv lost s" and l: "al_Events l \<ge> 0"
  shows "loss_inv lost (s\<lparr>lo_acct := adopt_loss l (lo_acct s), lo_offered := lo_offered s + al_Events l\<rparr>)"
proof -
  have "account_ok (lo_acct s)" using inv by (simp add: loss_inv_def)
  from account_adopt [OF this l] have a: "account_ok (adopt_loss l (lo_acct s))"
    "ac_claimed (adopt_loss l (lo_acct s)) = ac_claimed (lo_acct s)"
    "ac_total (adopt_loss l (lo_acct s)) = ac_total (lo_acct s) + al_Events l"
    "ac_recorded (adopt_loss l (lo_acct s)) = ac_recorded (lo_acct s)" by auto
  have "list_all (writer_ok (adopt_loss l (lo_acct s))) (lo_writers s)"
    using inv unfolding loss_inv_def list_all_length writer_ok_same [OF a(2)] by simp
  with inv a show ?thesis by (simp add: loss_inv_def)
qed


lemma loss_inv_step:
  assumes lp: "\<And>l r. lost (payload l r) = al_Events l"
    and inv: "loss_inv lost s" and d: "loss_do payload a s = Some t"
  shows "loss_inv lost t"
proof (cases a)
  case (Offer i evs)
  with d have g: "i < length (lo_writers s)" "lo_writers s ! i = Quiet" "callable evs" by (auto split: if_splits)
  obtain h c where h: "claim_loss (lo_acct s) = (h, c)" by fastforce
  have "t = s\<lparr>lo_acct := c, lo_writers := (lo_writers s)[i := Claimed False h evs],
      lo_offered := lo_offered s + int (length evs)\<rparr>" using d Offer g h by simp
  then show ?thesis using step_claim [OF inv g(1,2) h, of False evs] g(3) by (simp add: callable_def)
next
  case (Flush i)
  with d have g: "i < length (lo_writers s)" "lo_writers s ! i = Quiet" by (auto split: if_splits)
  show ?thesis
  proof (cases rule: claim_cases [of "lo_acct s"])
    case 1
    then show ?thesis using d Flush g inv by simp
  next
    case 2
    then have "t = s\<lparr>lo_acct := (lo_acct s)\<lparr>ac_owed := no_loss, ac_claimed := Some (ac_owed (lo_acct s))\<rparr>,
        lo_writers := (lo_writers s)[i := Claimed True (Some (ac_owed (lo_acct s))) []]\<rparr>"
      using d Flush g by simp
    then show ?thesis using step_claim [OF inv g 2(1), of True "[]"] by simp
  qed
next
  case (Transact i faults clock)
  with d obtain alone g evs where q: "i < length (lo_writers s)" "lo_writers s ! i = Claimed alone g evs"
    by (auto split: if_splits writer.splits)
  obtain r db where b: "appendAuditBatchN faults 0 (if alone then 1 else auditAppendAttempts) clock
      (map Some (gap_batch payload g (if alone then GapRecordedByFlush else GapRecordedOnRecovery) evs)) (lo_db s) = (r, db)"
    by fastforce
  have t: "t = s\<lparr>lo_db := db, lo_writers := (lo_writers s)[i := Written alone g evs r],
      lo_stored := lo_stored s + (case r of Inl e \<Rightarrow> 0 | Inr rows \<Rightarrow> int (length evs))\<rparr>"
    using d q unfolding Transact loss_do.simps Let_def by (simp only: b q(2) writer.case prod.case if_True option.inject)
  have n: "(if alone then 1 else auditAppendAttempts) = Suc (if alone then 0 else 9)" by (simp add: auditAppendAttempts_def)
  show ?thesis unfolding t by (rule step_transact [where payload = payload, OF inv q lp b [unfolded n] refl])
next
  case (Conclude i msg)
  with d obtain alone g evs r where q: "i < length (lo_writers s)" "lo_writers s ! i = Written alone g evs r"
    by (auto split: if_splits writer.splits)
  define w where "w = (case r of Inl e \<Rightarrow> (if alone then Quiet else Unrecorded evs) | Inr rows \<Rightarrow> Quiet)"
  define c where "c = (case r of Inl e \<Rightarrow> release_loss g msg alone (lo_acct s)
    | Inr rows \<Rightarrow> if g = None then lo_acct s else settle_loss g (hd rows) (lo_acct s))"
  have "t = s\<lparr>lo_acct := c, lo_writers := (lo_writers s)[i := w]\<rparr>"
    using d Conclude q by (cases r) (simp_all add: w_def c_def)
  moreover have "holding w = None" "unsettled w = 0" "writer_ok c w" for c
    by (auto simp: w_def holding_def unsettled_def writer_ok_def split: sum.split)
  moreover have "in_flight w = in_flight (Written alone g evs r)"
    using writer_at [OF inv q] by (auto simp: w_def writer_ok_def split: sum.split)
  ultimately show ?thesis using step_conclude [OF inv q _ _ _ _ c_def] by simp
next
  case (RecordLoss i reason msg now pid)
  with d obtain evs where q: "i < length (lo_writers s)" "lo_writers s ! i = Unrecorded evs"
    by (auto split: if_splits writer.splits)
  have "t = s\<lparr>lo_acct := record_failure evs reason msg now pid (lo_acct s),
      lo_writers := (lo_writers s)[i := Quiet]\<rparr>" using d RecordLoss q by simp
  with step_record [OF inv q] show ?thesis by simp
next
  case (Adopt adoptable already loss)
  then show ?thesis using d inv step_adopt [OF inv adoptable_nonneg] by (auto split: option.splits)
qed

definition exact :: "(string \<Rightarrow> int) \<Rightarrow> (AuditLoss \<Rightarrow> string \<Rightarrow> string) \<Rightarrow> bool" where
  "exact lost payload \<longleftrightarrow> (\<forall>l r. lost (payload l r) = al_Events l)"

text \<open>A step of the whole: one action that the writers' state allows.\<close>

definition loss_step ::
    "(string \<Rightarrow> int) \<Rightarrow> (AuditLoss \<Rightarrow> string \<Rightarrow> string) \<Rightarrow> loss_system \<Rightarrow> loss_system \<Rightarrow> bool" where
  "loss_step lost payload s t \<longleftrightarrow> exact lost payload \<and> (\<exists>a. loss_do payload a s = Some t)"

interpretation loss_system: preserved "loss_step lost payload" "loss_inv lost" for lost payload
  by unfold_locales (auto simp: loss_step_def exact_def intro: loss_inv_step)

lemma loss_run_steps:
  "exact lost payload \<Longrightarrow> loss_run payload acts s = Some t \<Longrightarrow> (loss_step lost payload)\<^sup>*\<^sup>* s t"
proof (induction acts arbitrary: s)
  case (Cons a acts)
  then obtain u where u: "loss_do payload a s = Some u" "loss_run payload acts u = Some t"
    by (auto split: option.splits)
  have "loss_step lost payload s u" using Cons.prems(1) u(1) unfolding loss_step_def by blast
  with Cons.IH [OF Cons.prems(1) u(2)] show ?case by (simp add: converse_rtranclp_into_rtranclp)
qed simp

lemma loss_reached:
  "exact lost payload \<Longrightarrow> loss_run payload acts (loss_start n) = Some t \<Longrightarrow> loss_inv lost t"
  using loss_system.steps_keep loss_run_steps loss_inv_start by blast

lemma quiet_unsettled: "list_all (\<lambda>w. w = Quiet) ws \<Longrightarrow>
    sum_list (map unsettled ws) = 0 \<and> sum_list (map claims ws) = 0 \<and> sum_list (map in_flight ws) = 0"
  by (induction ws) (simp_all add: unsettled_def claims_def holding_def)

text \<open>What the counters of a loss add up to.\<close>

datatype loss_tree = NoLoss
  | Added loss_tree "AuditEvent list" string string time int
  | Merged loss_tree loss_tree

primrec build_loss :: "loss_tree \<Rightarrow> AuditLoss" where
  "build_loss NoLoss = no_loss"
| "build_loss (Added t evs reason msg at pid) = add_loss evs reason msg at pid (build_loss t)"
| "build_loss (Merged t u) = merge_loss (build_loss t) (build_loss u)"

definition total_of :: "(string \<times> int) list \<Rightarrow> int" where
  "total_of m = sum_list (map snd m)"

lemma total_bump [simp]: "total_of (bump k n m) = total_of m + n"
  by (induction k n m rule: bump.induct) (simp_all add: total_of_def)

lemma total_countAction [simp]: "total_of (al_Actions (countAction k n l)) = total_of (al_Actions l) + n"
  "al_Reasons (countAction k n l) = al_Reasons l"
  by (simp_all add: countAction_def Let_def)

lemma total_fold_count [simp]:
  "total_of (al_Actions (fold (\<lambda>ev. countAction (f ev) (g ev)) evs l)) = total_of (al_Actions l) + sum_list (map g evs)"
  "al_Reasons (fold (\<lambda>ev. countAction (f ev) (g ev)) evs l) = al_Reasons l"
  by (induction evs arbitrary: l) simp_all

lemma total_fold_bump [simp]: "total_of (fold (\<lambda>(k, v). bump k v) kvs m) = total_of m + total_of kvs"
  by (induction kvs arbitrary: m) (auto simp: total_of_def simp del: total_bump intro: total_bump [unfolded total_of_def, THEN trans])

definition tallied :: "AuditLoss \<Rightarrow> bool" where
  "tallied l \<longleftrightarrow> total_of (al_Actions l) = al_Events l \<and> total_of (al_Reasons l) = al_Events l"

lemma sum_ones: "sum_list (map (\<lambda>x. 1) xs) = int (length xs)"
  by (induction xs) simp_all

lemma tallied_add: "tallied l \<Longrightarrow> tallied (add_loss evs reason msg at pid l)"
  by (simp add: tallied_def add_loss_def Let_def sum_ones)

lemma tallied_merge: "tallied l \<Longrightarrow> tallied r \<Longrightarrow> tallied (merge_loss l r)"
  by (simp add: tallied_def merge_loss_def Let_def fold_pairs) (simp add: total_of_def)

lemma built_loss: "small (build_loss t) \<and> tallied (build_loss t)"
  by (induction t) (simp_all add: small_add small_merge tallied_add tallied_merge, simp add: tallied_def total_of_def no_loss_def)

section \<open>The properties\<close>

text \<open>C5: no event handed to the trail is forgotten. When no writer is between its steps, the walk still
  verifies the chain, and the events callers offered, counted when they call and before anything is
  tried, with those another process left behind, are as many as the rows stored for callers, plus the
  events the chain's gap rows admit to, plus those still owed; and nothing owed is claimed by anybody. Whatever attempts failed and however writers interleaved.\<close>

theorem every_event_is_accounted_for:
  assumes "\<And>l r. lost (payload l r) = al_Events l"
    and "loss_run payload acts (loss_start n) = Some s"
    and "list_all (\<lambda>w. w = Quiet) (lo_writers s)"
  shows "vr_OK (VerifyAuditChain lost (lo_db s)) \<and> ac_claimed (lo_acct s) = None \<and>
    lo_offered s = int (length (plain_rows (ad_events (lo_db s)))) +
      vr_GapEvents (VerifyAuditChain lost (lo_db s)) + al_Events (unrecorded (lo_acct s))"
proof -
  have inv: "loss_inv lost s" using assms(1,2) by (intro loss_reached [where payload = payload]) (auto simp: exact_def)
  then have db: "audit_inv (lo_db s)" and ok: "vr_OK (VerifyAuditChain lost (lo_db s))"
    using audit_inv_verifies by (auto simp: loss_inv_def)
  have free: "ac_claimed (lo_acct s) = None"
    using inv quiet_unsettled [OF assms(3)] by (auto simp: loss_inv_def split: if_splits)
  have "vr_GapEvents (anchored_report (lo_db s)) = 0" by (simp add: anchored_report_def new_report_def split: option.split)
  then have "vr_GapEvents (VerifyAuditChain lost (lo_db s)) = gap_sum lost (ad_events (lo_db s))"
    using ok verify_gap_sum events_by_id_inv [OF db] unfolding VerifyAuditChain_def
    by (cases "chain_start (lo_db s)") auto
  with inv free ok quiet_unsettled [OF assms(3)] show ?thesis
    by (simp add: loss_inv_def account_ok_def unrecorded_def events_of_def)
qed

definition two_failures :: "loss_act list" where
  "two_failures = (let ev = \<lparr>ae_ID = 0, ae_Timestamp = 1, ae_Actor = ''alice'', ae_EventType = ''project.create'',
        ae_EntityType = ''project'', ae_EntityID = ''p1'', ae_Payload = ''{}'', ae_PrevHash = [], ae_RowHash = []\<rparr>;
      broken = (\<lambda>_. Some DbError); clock = (\<lambda>_. 1)
    in [Offer 0 [ev, ev], Transact 0 broken clock, Conclude 0 ''disk full'', RecordLoss 0 ''disk'' ''disk full'' 2 7,
        Offer 1 [ev], Offer 0 [ev], Transact 1 broken clock, Transact 0 broken clock, Conclude 0 ''disk full'',
        RecordLoss 0 ''disk'' ''disk full'' 3 7, Conclude 1 ''disk full'', RecordLoss 1 ''disk'' ''disk full'' 4 7])"

definition unary_payload :: "AuditLoss \<Rightarrow> string \<Rightarrow> string" where
  "unary_payload l r = (if al_Events l < 0 then CHR ''-'' # replicate (nat (- al_Events l)) CHR ''1''
     else replicate (nat (al_Events l)) CHR ''1'')"

definition unary_lost :: "string \<Rightarrow> int" where
  "unary_lost p = (case p of [] \<Rightarrow> 0 | c # cs \<Rightarrow> if c = CHR ''-'' then - int (length cs) else int (length p))"

lemma unary_exact: "unary_lost (unary_payload l r) = al_Events l"
  by (cases "nat (al_Events l)") (auto simp: unary_payload_def unary_lost_def)

theorem every_event_is_accounted_for_witness:
  "\<exists>s. loss_run unary_payload two_failures (loss_start 2) = Some s \<and>
     lo_offered s = 4 \<and> ac_claimed (lo_acct s) = None \<and> al_Events (unrecorded (lo_acct s)) = 4"
proof -
  have "case loss_run unary_payload two_failures (loss_start 2) of None \<Rightarrow> False
    | Some s \<Rightarrow> list_all (\<lambda>w. w = Quiet) (lo_writers s) \<and> lo_offered s = 4 \<and> al_Events (unrecorded (lo_acct s)) = 4"
    by code_simp
  then obtain s where s: "loss_run unary_payload two_failures (loss_start 2) = Some s"
    "list_all (\<lambda>w. w = Quiet) (lo_writers s)" "lo_offered s = 4" "al_Events (unrecorded (lo_acct s)) = 4"
    by (auto split: option.splits)
  have "ac_claimed (lo_acct s) = None"
    using every_event_is_accounted_for [where lost = unary_lost, OF unary_exact s(1,2)] by simp
  with s show ?thesis by blast
qed

text \<open>C38: a gap row stays small and says everything: however losses are added and merged, it names at most
  64 actions and the rest as one other, at most 16 processes, and its counts by action and by reason
  each add up to the events lost.\<close>

theorem gap_rows_stay_small:
  "let l = build_loss t
   in length (al_Actions l) \<le> 65 \<and> length (al_PIDs l) \<le> 16 \<and> length (al_AdoptedFrom l) \<le> 16 \<and>
      sum_list (map snd (al_Actions l)) = al_Events l \<and> sum_list (map snd (al_Reasons l)) = al_Events l"
  using built_loss [of t]
  by (simp add: Let_def small_def tallied_def total_of_def auditLossMaxActions_def auditLossMaxPIDs_def)

end
