(* ===== verification/NetAddr.thy ===== *)
theory NetAddr
  imports CloopPrelude "HOL-Library.Word"
begin

text \<open>
  What the firewall packages use of Go's \<open>net/netip\<close>: addresses of the two families, prefixes,
  their order, and the bit arithmetic of prefix containment. An address is the word of its family;
  an IPv4 address spelled inside IPv6 (\<open>::ffff:a.b.c.d\<close>) is an IPv6 address until \<open>Unmap\<close>. The text
  of an address is not modelled: what a parser makes of a text is a datatype of the theories that
  parse. Every proof above this theory speaks of the set of addresses a prefix names (\<open>addrs\<close>).
\<close>

section \<open>Addresses\<close>

datatype addr = V4 "32 word" | V6 "128 word"

fun Is4 :: "addr \<Rightarrow> bool" where
  "Is4 (V4 w) \<longleftrightarrow> True"
| "Is4 (V6 w) \<longleftrightarrow> False"

fun BitLen :: "addr \<Rightarrow> nat" where
  "BitLen (V4 w) = 32"
| "BitLen (V6 w) = 128"

fun aval :: "addr \<Rightarrow> int" where
  "aval (V4 w) = uint w"
| "aval (V6 w) = uint w"

fun with_val :: "addr \<Rightarrow> int \<Rightarrow> addr" where
  "with_val (V4 w) v = V4 (word_of_int v)"
| "with_val (V6 w) v = V6 (word_of_int v)"

definition Is4In6 :: "addr \<Rightarrow> bool" where
  "Is4In6 a \<longleftrightarrow> \<not> Is4 a \<and> aval a div 2 ^ 32 = 0xFFFF"

definition Unmap :: "addr \<Rightarrow> addr" where
  "Unmap a = (if Is4In6 a then V4 (word_of_int (aval a)) else a)"

lemma addr_eqI: "Is4 a = Is4 b \<Longrightarrow> aval a = aval b \<Longrightarrow> a = b"
  by (cases a; cases b) (simp_all add: word_uint_eq_iff)

lemma BitLen_Is4: "BitLen a = (if Is4 a then 32 else 128)"
  by (cases a) simp_all

lemma aval_bounds: "0 \<le> aval a" "aval a < 2 ^ BitLen a"
  using uint_lt2p [where 'a = 32] uint_lt2p [where 'a = 128] by (cases a; simp)+

lemma with_val_simps [simp]: "Is4 (with_val a v) = Is4 a" "BitLen (with_val a v) = BitLen a"
  by (cases a; simp)+

lemma with_val_cong: "Is4 a = Is4 b \<Longrightarrow> with_val a v = with_val b v"
  by (cases a; cases b) simp_all

lemma aval_with_val: "0 \<le> v \<Longrightarrow> v < 2 ^ BitLen a \<Longrightarrow> aval (with_val a v) = v"
  by (cases a) (simp_all add: uint_word_of_int)

lemma Is4_Unmap_id: "Is4 a \<Longrightarrow> Unmap a = a"
  by (simp add: Unmap_def Is4In6_def)

lemma Unmap_idem [simp]: "Unmap (Unmap a) = Unmap a"
  by (simp add: Unmap_def Is4In6_def)

lemma not_mapped_Unmap: "\<not> Is4In6 (Unmap a)"
  by (simp add: Unmap_def Is4In6_def)

text \<open>\<open>Addr.Compare\<close>: the shorter family first, then the value.\<close>

instantiation addr :: linorder
begin

definition less_eq_addr :: "addr \<Rightarrow> addr \<Rightarrow> bool" where
  "a \<le> b \<longleftrightarrow> BitLen a < BitLen b \<or> BitLen a = BitLen b \<and> aval a \<le> aval b"

definition less_addr :: "addr \<Rightarrow> addr \<Rightarrow> bool" where
  "a < b \<longleftrightarrow> BitLen a < BitLen b \<or> BitLen a = BitLen b \<and> aval a < aval b"

instance
  by standard (auto simp: less_eq_addr_def less_addr_def BitLen_Is4 intro: addr_eqI split: if_splits)

end

section \<open>Prefixes\<close>

datatype Prefix = PrefixFrom (pAddr: addr) (pBits: nat)

text \<open>The first bits of an address.\<close>

definition top_bits :: "nat \<Rightarrow> addr \<Rightarrow> int" where
  "top_bits n a = aval a div 2 ^ (BitLen a - n)"

definition IsValid :: "Prefix \<Rightarrow> bool" where
  "IsValid p \<longleftrightarrow> pBits p \<le> BitLen (pAddr p)"

definition Contains :: "Prefix \<Rightarrow> addr \<Rightarrow> bool" where
  "Contains p a \<longleftrightarrow> Is4 (pAddr p) = Is4 a \<and> top_bits (pBits p) a = top_bits (pBits p) (pAddr p)"

definition Masked :: "Prefix \<Rightarrow> Prefix" where
  "Masked p = PrefixFrom (with_val (pAddr p)
     (top_bits (pBits p) (pAddr p) * 2 ^ (BitLen (pAddr p) - pBits p))) (pBits p)"

definition Overlaps :: "Prefix \<Rightarrow> Prefix \<Rightarrow> bool" where
  "Overlaps p q \<longleftrightarrow> Is4 (pAddr p) = Is4 (pAddr q) \<and>
     (let n = min (pBits p) (pBits q) in top_bits n (pAddr p) = top_bits n (pAddr q))"

definition hostPrefix :: "addr \<Rightarrow> Prefix" where
  "hostPrefix a = PrefixFrom (Unmap a) (BitLen (Unmap a))"

text \<open>The order every list of prefixes is sorted by: IPv4 first, then the address, then widest first.\<close>

instantiation Prefix :: linorder
begin

definition less_eq_Prefix :: "Prefix \<Rightarrow> Prefix \<Rightarrow> bool" where
  "p \<le> q \<longleftrightarrow> pAddr p < pAddr q \<or> pAddr p = pAddr q \<and> pBits p \<le> pBits q"

definition less_Prefix :: "Prefix \<Rightarrow> Prefix \<Rightarrow> bool" where
  "p < q \<longleftrightarrow> pAddr p < pAddr q \<or> pAddr p = pAddr q \<and> pBits p < pBits q"

instance
  by standard (auto simp: less_eq_Prefix_def less_Prefix_def intro: Prefix.expand)

end

section \<open>Prefixes as sets of addresses\<close>

definition addrs :: "Prefix \<Rightarrow> addr set" where
  "addrs p = {a. Contains p a}"

definition space :: "Prefix list \<Rightarrow> addr set" where
  "space ps = (\<Union>p \<in> set ps. addrs p)"

definition masked :: "Prefix \<Rightarrow> bool" where
  "masked p \<longleftrightarrow> IsValid p \<and> top_bits (pBits p) (pAddr p) * 2 ^ (BitLen (pAddr p) - pBits p) = aval (pAddr p)"

lemma space_simps [simp]:
  "space [] = {}" "space (p # ps) = addrs p \<union> space ps" "space (ps @ qs) = space ps \<union> space qs"
  by (auto simp: space_def)

lemma space_set: "set ps = set qs \<Longrightarrow> space ps = space qs"
  by (simp add: space_def)

lemma space_concat: "space (concat pss) = (\<Union>ps \<in> set pss. space ps)"
  by (auto simp: space_def)

lemma in_addrs: "a \<in> addrs p \<longleftrightarrow> Is4 (pAddr p) = Is4 a \<and> top_bits (pBits p) a = top_bits (pBits p) (pAddr p)"
  by (simp add: addrs_def Contains_def)

lemma top_bits_full: "top_bits (BitLen a) a = aval a"
  by (simp add: top_bits_def)

lemma top_bits_shorter:
  assumes "n \<le> m" and "m \<le> BitLen a"
  shows "top_bits n a = top_bits m a div 2 ^ (m - n)"
proof -
  have "(2::int) ^ (BitLen a - n) = 2 ^ (BitLen a - m) * 2 ^ (m - n)"
    using assms by (simp flip: power_add)
  then show ?thesis by (simp add: top_bits_def div_mult2_eq flip: zdiv_zmult2_eq)
qed

lemma top_bits_cong:
  assumes "Is4 a = Is4 b" and "n \<le> m" and "m \<le> BitLen a" and "top_bits m a = top_bits m b"
  shows "top_bits n a = top_bits n b"
  using assms top_bits_shorter [of n m a] top_bits_shorter [of n m b] by (simp add: BitLen_Is4)

lemma top_bits_nonneg: "0 \<le> top_bits n a"
  using aval_bounds(1) [of a] by (simp add: top_bits_def pos_imp_zdiv_nonneg_iff)

lemma div_less_pow:
  assumes "(x::int) < m * k" and "0 < k"
  shows "x div k < m"
proof (rule ccontr)
  assume "\<not> x div k < m"
  then have "m * k \<le> x div k * k" using assms(2) by simp
  also have "\<dots> \<le> x" using div_mult_mod_eq [of x k] pos_mod_sign [OF assms(2), of x] by linarith
  finally show False using assms(1) by simp
qed

lemma top_bits_less:
  assumes "n \<le> BitLen a"
  shows "top_bits n a < 2 ^ n"
proof -
  have "aval a < 2 ^ n * 2 ^ (BitLen a - n)" using aval_bounds(2) [of a] assms by (simp flip: power_add)
  then show ?thesis unfolding top_bits_def by (intro div_less_pow) simp_all
qed

text \<open>An address with given first bits and the rest zero.\<close>

lemma pad_bounds:
  fixes t :: int
  assumes "n \<le> BitLen a" and "0 \<le> t" and "t < 2 ^ n"
  shows "0 \<le> t * 2 ^ (BitLen a - n)" and "t * 2 ^ (BitLen a - n) < 2 ^ BitLen a"
proof -
  have "t * 2 ^ (BitLen a - n) < 2 ^ n * 2 ^ (BitLen a - n)" using assms(3) by simp
  also have "\<dots> = 2 ^ BitLen a" using assms(1) by (simp flip: power_add)
  finally show "t * 2 ^ (BitLen a - n) < 2 ^ BitLen a" .
qed (use assms in simp)

lemma Masked_simps [simp]:
  "pBits (Masked p) = pBits p" "Is4 (pAddr (Masked p)) = Is4 (pAddr p)" "BitLen (pAddr (Masked p)) = BitLen (pAddr p)"
  "IsValid (Masked p) = IsValid p"
  by (simp_all add: Masked_def IsValid_def)

lemma aval_Masked:
  "IsValid p \<Longrightarrow> aval (pAddr (Masked p)) = top_bits (pBits p) (pAddr p) * 2 ^ (BitLen (pAddr p) - pBits p)"
  using pad_bounds [OF _ top_bits_nonneg top_bits_less, of "pBits p" "pAddr p"]
  by (simp add: Masked_def IsValid_def aval_with_val)

lemma top_bits_Masked [simp]:
  "IsValid p \<Longrightarrow> top_bits (pBits p) (pAddr (Masked p)) = top_bits (pBits p) (pAddr p)"
  using aval_Masked [of p] by (simp add: top_bits_def)

lemma masked_Masked: "IsValid p \<Longrightarrow> masked (Masked p)"
  using aval_Masked [of p] top_bits_Masked [of p] by (simp add: masked_def)

lemma Masked_masked: "masked p \<Longrightarrow> Masked p = p"
  using aval_Masked [of p]
  by (auto simp: masked_def intro!: Prefix.expand addr_eqI)

lemma addrs_Masked [simp]: "IsValid p \<Longrightarrow> addrs (Masked p) = addrs p"
  by (auto simp: in_addrs)

lemma masked_valid: "masked p \<Longrightarrow> IsValid p"
  by (simp add: masked_def)

lemma pAddr_in_addrs: "pAddr p \<in> addrs p"
  by (simp add: in_addrs)

text \<open>Two prefixes nest or are disjoint.\<close>

lemma nested:
  assumes "IsValid p" and "IsValid q" and "pBits p \<le> pBits q" and "a \<in> addrs p" and "a \<in> addrs q"
  shows "addrs q \<subseteq> addrs p"
proof
  fix b
  assume b: "b \<in> addrs q"
  from assms(4,5) b have f: "Is4 (pAddr p) = Is4 a" "Is4 (pAddr q) = Is4 a" "Is4 b = Is4 a"
    and t: "top_bits (pBits q) b = top_bits (pBits q) a" "top_bits (pBits p) a = top_bits (pBits p) (pAddr p)"
    by (auto simp: in_addrs)
  have "pBits q \<le> BitLen b" using assms(2) f by (simp add: IsValid_def BitLen_Is4)
  then have "top_bits (pBits p) b = top_bits (pBits p) a" using top_bits_cong [OF f(3) assms(3) _ t(1)] by simp
  then show "b \<in> addrs p" using f t by (simp add: in_addrs)
qed

lemma Overlaps_iff:
  assumes "IsValid p" and "IsValid q"
  shows "Overlaps p q \<longleftrightarrow> addrs p \<inter> addrs q \<noteq> {}"
proof
  assume o: "Overlaps p q"
  show "addrs p \<inter> addrs q \<noteq> {}"
  proof (cases "pBits p \<le> pBits q")
    case True
    then have "pAddr q \<in> addrs p" using o by (auto simp: Overlaps_def in_addrs min_def Let_def)
    then show ?thesis using pAddr_in_addrs [of q] by auto
  next
    case False
    then have "pAddr p \<in> addrs q" using o by (auto simp: Overlaps_def in_addrs min_def Let_def)
    then show ?thesis using pAddr_in_addrs [of p] by auto
  qed
next
  assume "addrs p \<inter> addrs q \<noteq> {}"
  then obtain a where a: "a \<in> addrs p" "a \<in> addrs q" by auto
  then have f: "Is4 (pAddr p) = Is4 (pAddr q)" by (simp add: in_addrs)
  consider "pBits p \<le> pBits q" | "pBits q \<le> pBits p" by linarith
  then show "Overlaps p q"
  proof cases
    case 1
    then have "pAddr q \<in> addrs p" using nested [OF assms 1 a] pAddr_in_addrs by blast
    then show ?thesis using 1 by (simp add: Overlaps_def in_addrs min_def)
  next
    case 2
    then have "pAddr p \<in> addrs q" using nested [OF assms(2,1) 2 a(2,1)] pAddr_in_addrs by blast
    then show ?thesis using 2 by (auto simp: Overlaps_def in_addrs min_def)
  qed
qed

lemma contains_iff_subset:
  assumes "IsValid p" and "IsValid q" and "pBits p \<le> pBits q"
  shows "Contains p (pAddr q) \<longleftrightarrow> addrs q \<subseteq> addrs p"
proof
  assume "Contains p (pAddr q)"
  then have "pAddr q \<in> addrs p" by (simp add: addrs_def)
  then show "addrs q \<subseteq> addrs p" by (rule nested [OF assms _ pAddr_in_addrs])
qed (use pAddr_in_addrs in \<open>auto simp: addrs_def\<close>)

text \<open>A masked prefix is determined by its addresses.\<close>

lemma subset_bits:
  assumes "IsValid p" and "IsValid q" and "addrs q \<subseteq> addrs p"
  shows "pBits p \<le> pBits q"
proof (rule ccontr)
  assume less: "\<not> pBits p \<le> pBits q"
  let ?n = "pBits p"
  have f: "Is4 (pAddr p) = Is4 (pAddr q)" using assms(3) pAddr_in_addrs [of q] by (auto simp: in_addrs)
  have n: "?n \<le> BitLen (pAddr q)" using assms(1) f by (simp add: IsValid_def BitLen_Is4)
  let ?t = "top_bits ?n (pAddr q)"
  define t' where "t' = (if even ?t then ?t + 1 else ?t - 1)"
  have t': "0 \<le> t'" "t' < 2 ^ ?n" "t' div 2 = ?t div 2" "t' \<noteq> ?t"
  proof -
    obtain m :: int where "2 ^ ?n = 2 * m" using less by (cases ?n) auto
    then show "t' < 2 ^ ?n" using top_bits_less [OF n] by (auto simp: t'_def elim!: evenE)
    show "0 \<le> t'" using top_bits_nonneg [of ?n "pAddr q"] by (auto simp: t'_def elim!: oddE)
    show "t' div 2 = ?t div 2" "t' \<noteq> ?t" by (auto simp: t'_def elim!: oddE evenE)
  qed
  define b where "b = with_val (pAddr q) (t' * 2 ^ (BitLen (pAddr q) - ?n))"
  have tb: "top_bits ?n b = t'"
    using pad_bounds [OF n t'(1,2)] by (simp add: b_def top_bits_def aval_with_val)
  have s: "x div 2 ^ (?n - pBits q) = x div 2 div 2 ^ (?n - pBits q - 1)" for x :: int
    using less by (metis Suc_diff_Suc diff_Suc_1 not_le power_Suc zdiv_zmult2_eq zero_le_numeral zero_le_power)
  have "top_bits (pBits q) b = top_bits (pBits q) (pAddr q)"
    using top_bits_shorter [of "pBits q" ?n b] top_bits_shorter [of "pBits q" ?n "pAddr q"] less n tb t'(3)
    by (simp add: s b_def)
  then have "b \<in> addrs q" by (simp add: in_addrs b_def)
  moreover have "b \<notin> addrs p"
  proof
    assume "b \<in> addrs p"
    then have "top_bits ?n b = top_bits ?n (pAddr p)" by (simp add: in_addrs)
    moreover have "?t = top_bits ?n (pAddr p)" using assms(3) pAddr_in_addrs [of q] by (auto simp: in_addrs)
    ultimately show False using tb t'(4) by simp
  qed
  ultimately show False using assms(3) by auto
qed

lemma addrs_inj:
  assumes "masked p" and "masked q" and "addrs p = addrs q"
  shows "p = q"
proof -
  have v: "IsValid p" "IsValid q" using assms masked_valid by auto
  have b: "pBits p = pBits q" using subset_bits [OF v] subset_bits [OF v(2,1)] assms(3) by simp
  have "pAddr q \<in> addrs p" using assms(3) pAddr_in_addrs by auto
  then have "Is4 (pAddr p) = Is4 (pAddr q)" "top_bits (pBits p) (pAddr q) = top_bits (pBits p) (pAddr p)"
    by (simp_all add: in_addrs)
  with assms(1,2) b show ?thesis
    by (auto simp: masked_def BitLen_Is4 intro!: Prefix.expand addr_eqI)
qed

lemma addrs_host: "pBits p = BitLen (pAddr p) \<Longrightarrow> addrs p = {pAddr p}"
  by (auto simp: in_addrs top_bits_full BitLen_Is4 split: if_splits intro!: addr_eqI)
    (metis BitLen_Is4 top_bits_full)+

lemma masked_host: "pBits p = BitLen (pAddr p) \<Longrightarrow> masked p"
  by (simp add: masked_def IsValid_def top_bits_full)

end
