(* ===== verification/CloudMeta.thy ===== *)
theory CloudMeta
  imports NetAddr
begin

text \<open>
  pkg/cloudmeta: the table of cloud metadata services and the rule for an allow list that contains
  one. A service is its address; its name is text for a reader and left out, as are the sentences
  about findings.
\<close>

section \<open>The table\<close>

definition ip4 :: "int \<Rightarrow> int \<Rightarrow> int \<Rightarrow> int \<Rightarrow> addr" where
  "ip4 a b c d = V4 (word_of_int (((a * 256 + b) * 256 + c) * 256 + d))"

text \<open>The eight groups of an IPv6 address.\<close>

definition ip6 :: "int list \<Rightarrow> addr" where
  "ip6 groups = V6 (word_of_int (foldl (\<lambda>v g. v * 65536 + g) 0 groups))"

definition Services :: "addr list" where
  "Services = sort
     [ip4 169 254 169 254, ip4 169 254 169 252, ip4 169 254 170 2, ip4 169 254 170 23, ip4 169 254 0 23,
      ip4 169 254 42 42, ip4 100 100 100 200, ip4 168 63 129 16,
      ip6 [0xfd00, 0xec2, 0, 0, 0, 0, 0, 0x254], ip6 [0xfd00, 0xec2, 0, 0, 0, 0, 0, 0x23],
      ip6 [0xfd20, 0xce, 0, 0, 0, 0, 0, 0x254], ip6 [0xfd00, 0x42, 0, 0, 0, 0, 0, 0x42],
      ip6 [0xfd00, 0xa9fe, 0xa9fe, 0, 0, 0, 0, 1], ip6 [0xfe80, 0, 0, 0, 0, 0, 0xa9fe, 0xa9fe]]"

definition service_prefix :: "addr \<Rightarrow> Prefix" where
  "service_prefix s = PrefixFrom s (BitLen s)"

definition Lookup :: "addr \<Rightarrow> addr option" where
  "Lookup a = find (\<lambda>s. s = Unmap a) Services"

section \<open>Addresses inside addresses\<close>

definition nat64WKP :: Prefix where "nat64WKP = PrefixFrom (ip6 [0x64, 0xff9b, 0, 0, 0, 0, 0, 0]) 96"
definition nat64LocalUse :: Prefix where "nat64LocalUse = PrefixFrom (ip6 [0x64, 0xff9b, 1, 0, 0, 0, 0, 0]) 48"
definition v4Translated :: Prefix where "v4Translated = PrefixFrom (ip6 [0, 0, 0, 0, 0xffff, 0, 0, 0]) 96"
definition sixToFour :: Prefix where "sixToFour = PrefixFrom (ip6 [0x2002, 0, 0, 0, 0, 0, 0, 0]) 16"

text \<open>Byte \<open>i\<close> of the sixteen of an IPv6 address, the first the most significant.\<close>

definition byte16 :: "addr \<Rightarrow> nat \<Rightarrow> int" where
  "byte16 a i = aval a div 2 ^ (8 * (15 - i)) mod 256"

definition Unwrap :: "addr \<Rightarrow> addr" where
  "Unwrap addr =
     (let a = Unmap addr; v4 = (\<lambda>i j k l. ip4 (byte16 a i) (byte16 a j) (byte16 a k) (byte16 a l))
      in if Is4 a then a
         else if Contains nat64WKP a \<or> Contains v4Translated a then v4 12 13 14 15
         else if Contains sixToFour a then v4 2 3 4 5
         else if Contains nat64LocalUse a then v4 6 7 9 10
         else if aval a \<noteq> 0 \<and> aval a \<noteq> 1 \<and> list_all (\<lambda>i. byte16 a i = 0) [0..<12] then v4 12 13 14 15
         else a)"

definition LookupDialed :: "addr \<Rightarrow> addr option" where
  "LookupDialed a = (case Lookup a of Some s \<Rightarrow> Some s | None \<Rightarrow> Lookup (Unwrap a))"

section \<open>The rule\<close>

definition Canonical :: "Prefix \<Rightarrow> Prefix option" where
  "Canonical p =
     (if \<not> IsValid p then None
      else if Is4In6 (pAddr p)
      then (if pBits p < 96 then None else Some (Masked (PrefixFrom (Unmap (pAddr p)) (pBits p - 96))))
      else Some (Masked p))"

definition Within :: "Prefix \<Rightarrow> addr list" where
  "Within p =
     (case Canonical p of
        None \<Rightarrow> []
      | Some p \<Rightarrow> filter (\<lambda>s. Is4 s = Is4 (pAddr p) \<and> Contains p s \<and> pBits p < BitLen s) Services)"

fun first_uses :: "'a list \<Rightarrow> 'a list \<Rightarrow> 'a list" where
  "first_uses seen [] = []"
| "first_uses seen (x # xs) = (if x \<in> set seen then first_uses seen xs else x # first_uses (x # seen) xs)"

definition Check :: "Prefix list \<Rightarrow> Prefix list \<Rightarrow> (Prefix \<times> addr list) list" where
  "Check allow closed =
     (let canon = List.map_filter Canonical allow;
          shut = List.map_filter Canonical closed;
          named = map pAddr (filter (\<lambda>c. pBits c = BitLen (pAddr c)) canon);
          isClosed = (\<lambda>a. list_ex (\<lambda>c. Is4 (pAddr c) = Is4 a \<and> Contains c a) shut);
          open_in = (\<lambda>p. filter (\<lambda>s. s \<notin> set named \<and> \<not> isClosed s) (Within p))
      in sort_key fst (filter (\<lambda>f. snd f \<noteq> []) (map (\<lambda>p. (p, open_in p)) (first_uses [] canon))))"

definition Carved :: "Prefix list \<Rightarrow> Prefix list \<Rightarrow> addr list" where
  "Carved allow closed = sort (first_uses [] (concat (map snd (Check allow closed))))"

section \<open>What the rule says\<close>

lemma set_first_uses: "set (first_uses seen xs) = set xs - set seen"
  by (induction seen xs rule: first_uses.induct) auto

lemma distinct_first_uses: "distinct (first_uses seen xs)"
  by (induction seen xs rule: first_uses.induct) (auto simp: set_first_uses)

lemma set_map_filter': "set (List.map_filter f xs) = {y. \<exists>x \<in> set xs. f x = Some y}"
  by (induction xs) (auto simp: List.map_filter_def split: option.splits)

lemma Canonical_masked: "masked p \<Longrightarrow> \<not> Is4In6 (pAddr p) \<Longrightarrow> Canonical p = Some p"
  by (simp add: Canonical_def Masked_masked masked_valid)

lemma masked_Canonical: "Canonical p = Some q \<Longrightarrow> masked q"
  by (auto simp: Canonical_def IsValid_def Unmap_def Is4In6_def BitLen_Is4 intro!: masked_Masked split: if_splits)

lemma host_named: "pBits c = BitLen (pAddr c) \<and> pAddr c = s \<longleftrightarrow> c = service_prefix s"
  by (cases c) (auto simp: service_prefix_def)

lemma set_nonempty_findings:
  "(\<Union>f \<in> set (filter (\<lambda>f. snd f \<noteq> []) (map (\<lambda>p. (p, g p)) xs)). set (snd f)) = (\<Union>p \<in> set xs. set (g p))"
  by (induction xs) auto

text \<open>Services that canonical allows contain without naming, and no canonical denial contains.\<close>

lemma set_Carved:
  "s \<in> set (Carved allow closed) \<longleftrightarrow> s \<in> set Services \<and>
     (\<exists>p \<in> set allow. \<exists>c. Canonical p = Some c \<and> s \<in> set (Within c)) \<and>
     \<not> (\<exists>p \<in> set allow. Canonical p = Some (service_prefix s)) \<and>
     \<not> (\<exists>p \<in> set closed. \<exists>c. Canonical p = Some c \<and> s \<in> addrs c)"
  (is "_ \<longleftrightarrow> ?S \<and> ?W \<and> \<not> ?N \<and> \<not> ?C")
proof -
  let ?canon = "List.map_filter Canonical allow" let ?shut = "List.map_filter Canonical closed"
  let ?named = "map pAddr (filter (\<lambda>c. pBits c = BitLen (pAddr c)) ?canon)"
  have "s \<in> set ?named \<longleftrightarrow> (\<exists>c \<in> set ?canon. pBits c = BitLen (pAddr c) \<and> pAddr c = s)" by auto
  then have named: "s \<in> set ?named \<longleftrightarrow> ?N" unfolding host_named by (auto simp: set_map_filter')
  have closed: "list_ex (\<lambda>c. Is4 (pAddr c) = Is4 s \<and> Contains c s) ?shut \<longleftrightarrow> ?C"
    by (auto simp: list_ex_iff set_map_filter' addrs_def Contains_def)
  have "s \<in> set (Carved allow closed) \<longleftrightarrow>
      (\<exists>c \<in> set ?canon. s \<in> set (Within c)) \<and> s \<notin> set ?named \<and> \<not> list_ex (\<lambda>c. Is4 (pAddr c) = Is4 s \<and> Contains c s) ?shut"
  proof -
    have conc: "set (concat (map snd (sort_key fst fs))) = (\<Union>f \<in> set fs. set (snd f))" for fs :: "(Prefix \<times> addr list) list"
      by simp
    show ?thesis unfolding Carved_def Check_def Let_def set_sort set_first_uses conc set_nonempty_findings by auto
  qed
  also have "\<dots> \<longleftrightarrow> ?W \<and> \<not> ?N \<and> \<not> ?C" unfolding named closed by (auto simp: set_map_filter')
  also have "\<dots> \<longleftrightarrow> ?S \<and> ?W \<and> \<not> ?N \<and> \<not> ?C" by (auto simp: Within_def split: option.splits)
  finally show ?thesis .
qed

lemma in_Within:
  "masked c \<Longrightarrow> \<not> Is4In6 (pAddr c) \<Longrightarrow>
     s \<in> set (Within c) \<longleftrightarrow> s \<in> set Services \<and> s \<in> addrs c \<and> pBits c < BitLen s"
  by (auto simp: Within_def Canonical_masked addrs_def Contains_def)

lemma services_not_mapped: "s \<in> set Services \<Longrightarrow> \<not> Is4In6 s"
  unfolding Services_def set_sort list.set by (auto simp: ip4_def ip6_def Is4In6_def)

lemma addrs_service [simp]: "addrs (service_prefix s) = {s}"
  by (simp add: service_prefix_def addrs_host)

lemma masked_service [simp]: "masked (service_prefix s)" "IsValid (service_prefix s)"
  by (simp_all add: service_prefix_def masked_host masked_valid)

text \<open>For lists of canonical prefixes the rule is about sets of addresses.\<close>

definition canonical_list :: "Prefix list \<Rightarrow> bool" where
  "canonical_list ps \<longleftrightarrow> list_all (\<lambda>p. masked p \<and> \<not> Is4In6 (pAddr p)) ps"

lemma canonical_valid: "canonical_list ps \<Longrightarrow> list_all IsValid ps"
  by (auto simp: canonical_list_def list_all_iff masked_valid)

lemma Carved_canonical:
  assumes "canonical_list allow" and "canonical_list closed"
  shows "s \<in> set (Carved allow closed) \<longleftrightarrow>
    s \<in> set Services \<and> s \<in> space allow \<and> service_prefix s \<notin> set allow \<and> s \<notin> space closed"
proof -
  have c: "Canonical p = Some p" "masked p" "\<not> Is4In6 (pAddr p)" if "p \<in> set allow \<union> set closed" for p
    using assms that Canonical_masked by (auto simp: canonical_list_def list_all_iff)
  have "(\<exists>p \<in> set allow. \<exists>c. Canonical p = Some c \<and> s \<in> set (Within c)) \<and> service_prefix s \<notin> set allow
      \<longleftrightarrow> s \<in> set Services \<and> s \<in> space allow \<and> service_prefix s \<notin> set allow"
  proof -
    have "p = service_prefix s" if "p \<in> set allow" "s \<in> addrs p" "\<not> pBits p < BitLen s" for p
    proof -
      have "pBits p \<le> BitLen (pAddr p)" using masked_valid [OF c(2) [of p]] that(1) by (simp add: IsValid_def)
      then have "pBits p = BitLen (pAddr p)" using that(2,3) by (simp add: in_addrs BitLen_Is4)
      then show ?thesis using addrs_host [of p] that(2) by (cases p) (simp add: service_prefix_def)
    qed
    then show ?thesis using c in_Within by (auto simp: space_def) 
  qed
  moreover have "(\<exists>p \<in> set allow. Canonical p = Some (service_prefix s)) \<longleftrightarrow> service_prefix s \<in> set allow"
    using c by auto
  moreover have "(\<exists>p \<in> set closed. \<exists>c. Canonical p = Some c \<and> s \<in> addrs c) \<longleftrightarrow> s \<in> space closed"
    using c by (auto simp: space_def)
  ultimately show ?thesis unfolding set_Carved by blast
qed

end
