(* ===== verification/NetFilter.thy ===== *)
theory NetFilter
  imports CloudMeta
begin

text \<open>
  pkg/netfilter/policy.go: the compiler from an authorisation to an ordered packet filter, and the
  filter's own semantics (\<open>Evaluate\<close>, first match wins, with a final drop). The sentences on rules,
  tags and warnings are datatypes of what they say.
\<close>

section \<open>Data\<close>

datatype Verdict = VerdictDrop | VerdictAllow
datatype Proto = ProtoAny | ProtoTCP | ProtoUDP
datatype RuleScope = ScopeWire | ScopeLocal
datatype Mode = ModeIsolated | ModeBrokered | ModeFiltered

type_synonym port = "16 word"

datatype AddrPort = AddrPortFrom (apAddr: addr) (apZone: string) (apPort: port)

text \<open>The order of endpoints: the address, with its zone, then the port.\<close>

instantiation AddrPort :: linorder
begin

definition less_eq_AddrPort :: "AddrPort \<Rightarrow> AddrPort \<Rightarrow> bool" where
  "x \<le> y \<longleftrightarrow> apAddr x < apAddr y \<or> apAddr x = apAddr y \<and> (apZone x < apZone y \<or> apZone x = apZone y \<and> apPort x \<le> apPort y)"

definition less_AddrPort :: "AddrPort \<Rightarrow> AddrPort \<Rightarrow> bool" where
  "x < y \<longleftrightarrow> apAddr x < apAddr y \<or> apAddr x = apAddr y \<and> (apZone x < apZone y \<or> apZone x = apZone y \<and> apPort x < apPort y)"

instance
  by standard (auto simp: less_eq_AddrPort_def less_AddrPort_def intro: AddrPort.expand)

end

datatype block_reason = MetadataService addr | UnspecifiedAddress | LoopbackRange | MulticastRange
  | LinkLocal | PrivateRange | CarrierNAT | NAT64Range | NAT64LocalRange | TranslatableRange
  | SixToFourRange | CompatibleRange

datatype rule_reason = SandboxLoopback | OperatorDeny | EgressBroker | DNSResolver | DNSResolverTCP
  | BlockedBy block_reason | CarvedService addr | GrantedCIDR "block_reason option" | PublicInternet

datatype rule_tag = NoTag | TagDeny Prefix | TagMetadata Prefix | TagBlock Prefix | TagTranslation Prefix

record Rule =
  ru_Verdict :: Verdict
  ru_Prefix :: Prefix
  ru_Ports :: "port list"
  ru_Proto :: Proto
  ru_Scope :: RuleScope
  ru_Reason :: rule_reason
  ru_Denied :: bool
  ru_Carve :: bool
  ru_Tag :: rule_tag

datatype filter_warning = HostsNotEnforced | EveryPublicAddress | KeptClosed Prefix "addr list"
  | TranslationKept Prefix Prefix | NothingAllowed | NoResolver
  | ShadowedRange Prefix Prefix | ShadowedBroker AddrPort Prefix | ShadowedResolver AddrPort Prefix

record FilterPolicy =
  po_Mode :: Mode
  po_Rules :: "Rule list"
  po_Warnings :: "filter_warning list"
  po_DropDenied :: bool

record Input =
  in_AllowCIDRs :: "Prefix list"
  in_AllowPorts :: "port list"
  in_Brokers :: "AddrPort list"
  in_Resolvers :: "AddrPort list"
  in_AllowPublicInternet :: bool
  in_AllowAllPorts :: bool
  in_DenyCIDRs :: "Prefix list"
  in_HostPatterns :: "string list"
  in_DropDenied :: bool

datatype filter_error = TooManyPorts nat | PortZero | TooManyCIDRs nat | InvalidCIDR
  | TooManyEndpoints string nat | EndpointWithoutPort string | NoPortsNamed | PortsIgnored nat
  | CIDRNotAllowlist Prefix

section \<open>The block set\<close>

record Blocked =
  bl_Prefix :: Prefix
  bl_Reason :: block_reason
  bl_Metadata :: bool
  bl_Translation :: bool

definition range_block :: "Prefix \<Rightarrow> block_reason \<Rightarrow> Blocked" where
  "range_block p why = \<lparr>bl_Prefix = p, bl_Reason = why, bl_Metadata = False, bl_Translation = False\<rparr>"

definition baseBlockV4 :: "Blocked list" where
  "baseBlockV4 =
     [range_block (PrefixFrom (ip4 0 0 0 0) 32) UnspecifiedAddress,
      range_block (PrefixFrom (ip4 127 0 0 0) 8) LoopbackRange,
      range_block (PrefixFrom (ip4 224 0 0 0) 4) MulticastRange,
      range_block (PrefixFrom (ip4 169 254 0 0) 16) LinkLocal,
      range_block (PrefixFrom (ip4 10 0 0 0) 8) PrivateRange,
      range_block (PrefixFrom (ip4 172 16 0 0) 12) PrivateRange,
      range_block (PrefixFrom (ip4 192 168 0 0) 16) PrivateRange,
      range_block (PrefixFrom (ip4 100 64 0 0) 10) CarrierNAT]"

definition baseBlockV6 :: "Blocked list" where
  "baseBlockV6 =
     [range_block (PrefixFrom (ip6 [0, 0, 0, 0, 0, 0, 0, 0]) 128) UnspecifiedAddress,
      range_block (PrefixFrom (ip6 [0, 0, 0, 0, 0, 0, 0, 1]) 128) LoopbackRange,
      range_block (PrefixFrom (ip6 [0xff00, 0, 0, 0, 0, 0, 0, 0]) 8) MulticastRange,
      range_block (PrefixFrom (ip6 [0xfe80, 0, 0, 0, 0, 0, 0, 0]) 10) LinkLocal,
      range_block (PrefixFrom (ip6 [0xfc00, 0, 0, 0, 0, 0, 0, 0]) 7) PrivateRange]"

definition translationBlock :: "Blocked list" where
  "translationBlock = map (\<lambda>(p, why). (range_block p why)\<lparr>bl_Translation := True\<rparr>)
     [(PrefixFrom (ip6 [0x64, 0xff9b, 0, 0, 0, 0, 0, 0]) 96, NAT64Range),
      (PrefixFrom (ip6 [0x64, 0xff9b, 1, 0, 0, 0, 0, 0]) 48, NAT64LocalRange),
      (PrefixFrom (ip6 [0, 0, 0, 0, 0xffff, 0, 0, 0]) 96, TranslatableRange),
      (PrefixFrom (ip6 [0x2002, 0, 0, 0, 0, 0, 0, 0]) 16, SixToFourRange),
      (PrefixFrom (ip6 [0, 0, 0, 0, 0, 0, 0, 0]) 96, CompatibleRange)]"

definition blockSet :: "Blocked list" where
  "blockSet =
     (let metadata = map (\<lambda>s. (range_block (service_prefix s) (MetadataService s))\<lparr>bl_Metadata := True\<rparr>)
      in metadata (filter Is4 Services) @ baseBlockV4 @ metadata (filter (\<lambda>s. \<not> Is4 s) Services) @ baseBlockV6
         @ translationBlock)"

text \<open>Which blocked range an allow waives: the narrowest around it, else the first inside it that is
  not a metadata service.\<close>

fun narrowest :: "Blocked option \<Rightarrow> Blocked list \<Rightarrow> Blocked option" where
  "narrowest best [] = best"
| "narrowest best (b # bs) =
     (case best of
        None \<Rightarrow> narrowest (Some b) bs
      | Some c \<Rightarrow> narrowest (if pBits (bl_Prefix b) > pBits (bl_Prefix c) then Some b else Some c) bs)"

definition BlockReasonForPrefix :: "Prefix \<Rightarrow> block_reason option" where
  "BlockReasonForPrefix p =
     (case Canonical p of
        None \<Rightarrow> None
      | Some p \<Rightarrow>
          (case narrowest None (filter (\<lambda>b. Is4 (pAddr (bl_Prefix b)) = Is4 (pAddr p) \<and>
                   \<not> pBits (bl_Prefix b) > pBits p \<and> Contains (bl_Prefix b) (pAddr p)) blockSet) of
             Some b \<Rightarrow> Some (bl_Reason b)
           | None \<Rightarrow> map_option bl_Reason (find (\<lambda>b. \<not> bl_Metadata b \<and>
                Is4 (pAddr (bl_Prefix b)) = Is4 (pAddr p) \<and> Overlaps p (bl_Prefix b)) blockSet)))"

section \<open>Normalising\<close>

definition MaxPorts :: nat where "MaxPorts = 64"
definition MaxPrefixes :: nat where "MaxPrefixes = 256"

definition normalizePorts :: "port list \<Rightarrow> filter_error + port list" where
  "normalizePorts ports =
     (if length ports > MaxPorts then Inl (TooManyPorts (length ports))
      else if 0 \<in> set ports then Inl PortZero
      else Inr (sort (first_uses [] ports)))"

definition unmapped_prefix :: "Prefix \<Rightarrow> Prefix option" where
  "unmapped_prefix p =
     (if \<not> IsValid p then None
      else if Is4In6 (pAddr p)
      then (if pBits p < 96 then None else Some (Masked (PrefixFrom (Unmap (pAddr p)) (pBits p - 96))))
      else Some (Masked p))"

definition normalizePrefixes :: "Prefix list \<Rightarrow> filter_error + Prefix list" where
  "normalizePrefixes ps =
     (if length ps > MaxPrefixes then Inl (TooManyCIDRs (length ps))
      else case those (map unmapped_prefix ps) of
             None \<Rightarrow> Inl InvalidCIDR
           | Some ms \<Rightarrow> Inr (sort (first_uses [] ms)))"

definition normalizeAddrPorts :: "AddrPort list \<Rightarrow> string \<Rightarrow> filter_error + AddrPort list" where
  "normalizeAddrPorts aps kind =
     (if length aps > MaxPrefixes then Inl (TooManyEndpoints kind (length aps))
      else if list_ex (\<lambda>ap. apPort ap = 0) aps then Inl (EndpointWithoutPort kind)
      else Inr (sort (first_uses [] (map (\<lambda>ap. AddrPortFrom (Unmap (apAddr ap)) (apZone ap) (apPort ap)) aps))))"

section \<open>Compiling\<close>

definition modeFor :: "bool \<Rightarrow> bool \<Rightarrow> Mode" where
  "modeFor hasBroker hasDestinations =
     (if hasDestinations then ModeFiltered else if hasBroker then ModeBrokered else ModeIsolated)"

definition wire_rule :: "Verdict \<Rightarrow> Prefix \<Rightarrow> port list \<Rightarrow> Proto \<Rightarrow> rule_reason \<Rightarrow> Rule" where
  "wire_rule v p ports proto why = \<lparr>ru_Verdict = v, ru_Prefix = p, ru_Ports = ports, ru_Proto = proto,
     ru_Scope = ScopeWire, ru_Reason = why, ru_Denied = False, ru_Carve = False, ru_Tag = NoTag\<rparr>"

definition drop_rule :: "Prefix \<Rightarrow> rule_reason \<Rightarrow> rule_tag \<Rightarrow> Rule" where
  "drop_rule p why tag = (wire_rule VerdictDrop p [] ProtoAny why)\<lparr>ru_Tag := tag\<rparr>"

definition host_prefix :: "AddrPort \<Rightarrow> Prefix" where
  "host_prefix ap = PrefixFrom (apAddr ap) (BitLen (apAddr ap))"

definition local_rules :: "Rule list" where
  "local_rules = map (\<lambda>p. (wire_rule VerdictAllow p [] ProtoAny SandboxLoopback)\<lparr>ru_Scope := ScopeLocal\<rparr>)
     [PrefixFrom (ip4 127 0 0 0) 8, PrefixFrom (ip6 [0, 0, 0, 0, 0, 0, 0, 1]) 128]"

definition deny_rules :: "Prefix list \<Rightarrow> Rule list" where
  "deny_rules denies = map (\<lambda>d. (drop_rule d OperatorDeny (TagDeny d))\<lparr>ru_Denied := True\<rparr>) denies"

definition broker_rules :: "AddrPort list \<Rightarrow> Rule list" where
  "broker_rules brokers = map (\<lambda>b. wire_rule VerdictAllow (host_prefix b) [apPort b] ProtoTCP EgressBroker) brokers"

definition resolver_rules :: "AddrPort list \<Rightarrow> Rule list" where
  "resolver_rules resolvers = concat (map (\<lambda>r.
     [wire_rule VerdictAllow (host_prefix r) [apPort r] ProtoUDP DNSResolver,
      wire_rule VerdictAllow (host_prefix r) [apPort r] ProtoTCP DNSResolverTCP]) resolvers)"

definition translation_rules :: "Rule list" where
  "translation_rules = map (\<lambda>b. (drop_rule (bl_Prefix b) (BlockedBy (bl_Reason b))
     (TagTranslation (bl_Prefix b)))\<lparr>ru_Carve := True\<rparr>) (filter bl_Translation blockSet)"

definition carve_rules :: "addr list \<Rightarrow> Rule list" where
  "carve_rules carved = map (\<lambda>s. (drop_rule (service_prefix s) (CarvedService s)
     (TagMetadata (service_prefix s)))\<lparr>ru_Carve := True\<rparr>) carved"

definition grant_rules :: "port list \<Rightarrow> Prefix list \<Rightarrow> Rule list" where
  "grant_rules ports cidrs =
     map (\<lambda>c. wire_rule VerdictAllow c ports ProtoTCP (GrantedCIDR (BlockReasonForPrefix c))) cidrs"

definition block_rules :: "Rule list" where
  "block_rules = map (\<lambda>b. drop_rule (bl_Prefix b) (BlockedBy (bl_Reason b))
     (if bl_Metadata b then TagMetadata (bl_Prefix b) else TagBlock (bl_Prefix b)))
     (filter (\<lambda>b. \<not> bl_Translation b) blockSet)"

definition public_rules :: "port list \<Rightarrow> Rule list" where
  "public_rules ports = map (\<lambda>p. wire_rule VerdictAllow p ports ProtoTCP PublicInternet)
     [PrefixFrom (ip4 0 0 0 0) 0, PrefixFrom (ip6 [0, 0, 0, 0, 0, 0, 0, 0]) 0]"

definition covering :: "Prefix list \<Rightarrow> Prefix \<Rightarrow> Prefix option" where
  "covering denies p = find (\<lambda>d. Is4 (pAddr d) = Is4 (pAddr p) \<and> pBits d \<le> pBits p \<and> Contains d (pAddr p)) denies"

definition shadowWarnings ::
    "Prefix list \<Rightarrow> Prefix list \<Rightarrow> AddrPort list \<Rightarrow> AddrPort list \<Rightarrow> filter_warning list" where
  "shadowWarnings denies cidrs brokers resolvers =
     List.map_filter (\<lambda>c. map_option (ShadowedRange c) (covering denies c)) cidrs @
     List.map_filter (\<lambda>b. map_option (ShadowedBroker b) (covering denies (host_prefix b))) brokers @
     List.map_filter (\<lambda>r. map_option (ShadowedResolver r) (covering denies (host_prefix r))) resolvers"

definition compile_warnings ::
    "Input \<Rightarrow> Prefix list \<Rightarrow> Prefix list \<Rightarrow> AddrPort list \<Rightarrow> AddrPort list \<Rightarrow> Mode \<Rightarrow> filter_warning list" where
  "compile_warnings inp cidrs denies brokers resolvers mode =
     (if in_AllowPublicInternet inp
      then [if in_HostPatterns inp \<noteq> [] then HostsNotEnforced else EveryPublicAddress] else []) @
     map (\<lambda>(c, ss). KeptClosed c ss) (Check cidrs denies) @
     concat (map (\<lambda>c. map (\<lambda>b. TranslationKept c (bl_Prefix b))
       (filter (\<lambda>b. bl_Translation b \<and> Is4 (pAddr (bl_Prefix b)) = Is4 (pAddr c) \<and> Overlaps (bl_Prefix b) c) blockSet)) cidrs) @
     (if mode = ModeIsolated then [NothingAllowed] else []) @
     (if mode = ModeFiltered \<and> resolvers = [] \<and> in_AllowPublicInternet inp then [NoResolver] else []) @
     shadowWarnings denies cidrs brokers resolvers"

definition Compile :: "Input \<Rightarrow> filter_error + FilterPolicy" where
  "Compile inp =
     (case normalizePorts (in_AllowPorts inp) of Inl e \<Rightarrow> Inl e | Inr ports \<Rightarrow>
      (case normalizePrefixes (in_AllowCIDRs inp) of Inl e \<Rightarrow> Inl e | Inr cidrs \<Rightarrow>
      (case normalizePrefixes (in_DenyCIDRs inp) of Inl e \<Rightarrow> Inl e | Inr denies \<Rightarrow>
      (case normalizeAddrPorts (in_Brokers inp) ''broker'' of Inl e \<Rightarrow> Inl e | Inr brokers \<Rightarrow>
      (case normalizeAddrPorts (in_Resolvers inp) ''resolver'' of Inl e \<Rightarrow> Inl e | Inr resolvers \<Rightarrow>
        (let wantsDestinations = (cidrs \<noteq> [] \<or> in_AllowPublicInternet inp);
             mode = modeFor (brokers \<noteq> []) wantsDestinations
         in if wantsDestinations \<and> ports = [] \<and> \<not> in_AllowAllPorts inp then Inl NoPortsNamed
            else if in_AllowAllPorts inp \<and> ports \<noteq> [] then Inl (PortsIgnored (length ports))
            else case find (\<lambda>c. pBits c = 0) cidrs of
                   Some c \<Rightarrow> Inl (CIDRNotAllowlist c)
                 | None \<Rightarrow> Inr \<lparr>po_Mode = mode,
                     po_Rules = local_rules @ deny_rules denies @ broker_rules brokers @ resolver_rules resolvers @
                       translation_rules @ carve_rules (Carved cidrs denies) @ grant_rules ports cidrs @
                       block_rules @ (if in_AllowPublicInternet inp then public_rules ports else []),
                     po_Warnings = compile_warnings inp cidrs denies brokers resolvers mode,
                     po_DropDenied = in_DropDenied inp\<rparr>))))))"

section \<open>Evaluating\<close>

definition rule_matches :: "Rule \<Rightarrow> addr \<Rightarrow> port \<Rightarrow> Proto \<Rightarrow> bool" where
  "rule_matches r a port proto \<longleftrightarrow>
     (if Is4 (pAddr (ru_Prefix r)) \<noteq> Is4 a then False
      else if \<not> Contains (ru_Prefix r) a then False
      else if ru_Proto r \<noteq> ProtoAny \<and> ru_Proto r \<noteq> proto then False
      else ru_Ports r = [] \<or> port \<in> set (ru_Ports r))"

definition Evaluate :: "FilterPolicy \<Rightarrow> addr \<Rightarrow> port \<Rightarrow> Proto \<Rightarrow> Verdict \<times> rule_reason option" where
  "Evaluate p a port proto =
     (case find (\<lambda>r. rule_matches r (Unmap a) port proto) (po_Rules p) of
        Some r \<Rightarrow> (ru_Verdict r, Some (ru_Reason r))
      | None \<Rightarrow> (VerdictDrop, None))"

definition WireOnly :: "FilterPolicy \<Rightarrow> FilterPolicy" where
  "WireOnly p = p\<lparr>po_Rules := filter (\<lambda>r. ru_Scope r = ScopeWire) (po_Rules p)\<rparr>"

text \<open>Whether a packet can leave the sandbox.\<close>

definition reaches :: "FilterPolicy \<Rightarrow> addr \<Rightarrow> port \<Rightarrow> Proto \<Rightarrow> bool" where
  "reaches p a port proto \<longleftrightarrow> fst (Evaluate (WireOnly p) a port proto) = VerdictAllow"

section \<open>What a rule list lets through\<close>

definition lets :: "Rule list \<Rightarrow> addr \<Rightarrow> port \<Rightarrow> Proto \<Rightarrow> bool" where
  "lets rs a port proto \<longleftrightarrow>
     (case find (\<lambda>r. rule_matches r a port proto) rs of None \<Rightarrow> False | Some r \<Rightarrow> ru_Verdict r = VerdictAllow)"

lemma reaches_lets:
  "reaches p a port proto \<longleftrightarrow> lets (filter (\<lambda>r. ru_Scope r = ScopeWire) (po_Rules p)) (Unmap a) port proto"
  by (simp add: reaches_def Evaluate_def WireOnly_def lets_def split: option.split)

lemma matches_iff:
  "rule_matches r a port proto \<longleftrightarrow> a \<in> addrs (ru_Prefix r) \<and> (ru_Proto r = ProtoAny \<or> ru_Proto r = proto) \<and>
     (ru_Ports r = [] \<or> port \<in> set (ru_Ports r))"
  by (auto simp: rule_matches_def addrs_def Contains_def)

lemma find_append: "find P (xs @ ys) = (case find P xs of None \<Rightarrow> find P ys | Some x \<Rightarrow> Some x)"
  by (induction xs) auto

text \<open>A stage of drops takes its matches out; a stage of allows lets them through.\<close>

lemma lets_drops:
  "list_all (\<lambda>r. ru_Verdict r = VerdictDrop) rs \<Longrightarrow>
     lets (rs @ ss) a port proto \<longleftrightarrow> \<not> list_ex (\<lambda>r. rule_matches r a port proto) rs \<and> lets ss a port proto"
  by (induction rs) (auto simp: lets_def)

lemma lets_allows:
  "list_all (\<lambda>r. ru_Verdict r = VerdictAllow) rs \<Longrightarrow>
     lets (rs @ ss) a port proto \<longleftrightarrow> list_ex (\<lambda>r. rule_matches r a port proto) rs \<or> lets ss a port proto"
  by (induction rs) (auto simp: lets_def)

lemma lets_Nil [simp]: "\<not> lets [] a port proto"
  by (simp add: lets_def)

definition port_ok :: "port list \<Rightarrow> port \<Rightarrow> bool" where
  "port_ok ports p \<longleftrightarrow> ports = [] \<or> p \<in> set ports"

definition translation_space :: "addr set" where
  "translation_space = space (map bl_Prefix (filter bl_Translation blockSet))"

definition block_space :: "addr set" where
  "block_space = space (map bl_Prefix (filter (\<lambda>b. \<not> bl_Translation b) blockSet))"

lemma wire_rule_simps [simp]:
  "ru_Verdict (wire_rule v p ports proto why) = v" "ru_Prefix (wire_rule v p ports proto why) = p"
  "ru_Ports (wire_rule v p ports proto why) = ports" "ru_Proto (wire_rule v p ports proto why) = proto"
  "ru_Scope (wire_rule v p ports proto why) = ScopeWire"
  by (simp_all add: wire_rule_def)

lemma drop_rule_simps [simp]:
  "ru_Verdict (drop_rule p why tag) = VerdictDrop" "ru_Prefix (drop_rule p why tag) = p"
  "ru_Ports (drop_rule p why tag) = []" "ru_Proto (drop_rule p why tag) = ProtoAny"
  "ru_Scope (drop_rule p why tag) = ScopeWire"
  by (simp_all add: drop_rule_def)

lemma stage_wire:
  "filter (\<lambda>r. ru_Scope r = ScopeWire) local_rules = []"
  "filter (\<lambda>r. ru_Scope r = ScopeWire) (deny_rules ds) = deny_rules ds"
  "filter (\<lambda>r. ru_Scope r = ScopeWire) (broker_rules bs) = broker_rules bs"
  "filter (\<lambda>r. ru_Scope r = ScopeWire) (resolver_rules rs) = resolver_rules rs"
  "filter (\<lambda>r. ru_Scope r = ScopeWire) translation_rules = translation_rules"
  "filter (\<lambda>r. ru_Scope r = ScopeWire) (carve_rules ss) = carve_rules ss"
  "filter (\<lambda>r. ru_Scope r = ScopeWire) (grant_rules ports cs) = grant_rules ports cs"
  "filter (\<lambda>r. ru_Scope r = ScopeWire) block_rules = block_rules"
  "filter (\<lambda>r. ru_Scope r = ScopeWire) (public_rules ports) = public_rules ports"
  by (auto simp: local_rules_def deny_rules_def broker_rules_def resolver_rules_def translation_rules_def
      carve_rules_def grant_rules_def block_rules_def public_rules_def filter_id_conv)

lemma stage_verdicts:
  "list_all (\<lambda>r. ru_Verdict r = VerdictDrop) (deny_rules ds)"
  "list_all (\<lambda>r. ru_Verdict r = VerdictAllow) (broker_rules bs)"
  "list_all (\<lambda>r. ru_Verdict r = VerdictAllow) (resolver_rules rs)"
  "list_all (\<lambda>r. ru_Verdict r = VerdictDrop) translation_rules"
  "list_all (\<lambda>r. ru_Verdict r = VerdictDrop) (carve_rules ss)"
  "list_all (\<lambda>r. ru_Verdict r = VerdictAllow) (grant_rules ports cs)"
  "list_all (\<lambda>r. ru_Verdict r = VerdictDrop) block_rules"
  "list_all (\<lambda>r. ru_Verdict r = VerdictAllow) (public_rules ports)"
  by (auto simp: deny_rules_def broker_rules_def resolver_rules_def translation_rules_def
      carve_rules_def grant_rules_def block_rules_def public_rules_def list_all_iff)

lemma addrs_host_prefix: "addrs (host_prefix ap) = {apAddr ap}"
  by (simp add: host_prefix_def addrs_host)

lemma stage_matches:
  "list_ex (\<lambda>r. rule_matches r a port proto) (deny_rules ds) \<longleftrightarrow> a \<in> space ds"
  "list_ex (\<lambda>r. rule_matches r a port proto) (broker_rules bs) \<longleftrightarrow>
     proto = ProtoTCP \<and> (\<exists>b \<in> set bs. apAddr b = a \<and> apPort b = port)"
  "list_ex (\<lambda>r. rule_matches r a port proto) (resolver_rules rs) \<longleftrightarrow>
     proto \<in> {ProtoTCP, ProtoUDP} \<and> (\<exists>b \<in> set rs. apAddr b = a \<and> apPort b = port)"
  "list_ex (\<lambda>r. rule_matches r a port proto) translation_rules \<longleftrightarrow> a \<in> translation_space"
  "list_ex (\<lambda>r. rule_matches r a port proto) (carve_rules ss) \<longleftrightarrow> a \<in> set ss"
  "list_ex (\<lambda>r. rule_matches r a port proto) (grant_rules ports cs) \<longleftrightarrow>
     proto = ProtoTCP \<and> port_ok ports port \<and> a \<in> space cs"
  "list_ex (\<lambda>r. rule_matches r a port proto) block_rules \<longleftrightarrow> a \<in> block_space"
  "list_ex (\<lambda>r. rule_matches r a port proto) (public_rules ports) \<longleftrightarrow> proto = ProtoTCP \<and> port_ok ports port"
proof -
  have top0: "top_bits 0 b = 0" for b
    using top_bits_nonneg [of 0 b] top_bits_less [of 0 b] by simp
  have pub: "a \<in> addrs (PrefixFrom (ip4 0 0 0 0) 0) \<or> a \<in> addrs (PrefixFrom (ip6 [0, 0, 0, 0, 0, 0, 0, 0]) 0)"
    by (cases a) (simp_all add: in_addrs top0 ip4_def ip6_def)
  show "list_ex (\<lambda>r. rule_matches r a port proto) (public_rules ports) \<longleftrightarrow> proto = ProtoTCP \<and> port_ok ports port"
    using pub by (auto simp: public_rules_def matches_iff port_ok_def)
qed (auto simp: list_ex_iff matches_iff deny_rules_def broker_rules_def resolver_rules_def translation_rules_def
      carve_rules_def grant_rules_def block_rules_def space_def translation_space_def block_space_def
      addrs_host_prefix port_ok_def)

text \<open>The verdicts of a compiled filter, from its normalised lists.\<close>

definition filter_reach ::
    "port list \<Rightarrow> Prefix list \<Rightarrow> Prefix list \<Rightarrow> AddrPort list \<Rightarrow> AddrPort list \<Rightarrow> bool \<Rightarrow> addr \<Rightarrow> port \<Rightarrow> Proto \<Rightarrow> bool" where
  "filter_reach ports cidrs denies brokers resolvers public a port proto \<longleftrightarrow>
     a \<notin> space denies \<and>
     (proto = ProtoTCP \<and> (\<exists>b \<in> set brokers. apAddr b = a \<and> apPort b = port) \<or>
      proto \<in> {ProtoTCP, ProtoUDP} \<and> (\<exists>b \<in> set resolvers. apAddr b = a \<and> apPort b = port) \<or>
      a \<notin> translation_space \<and> a \<notin> set (Carved cidrs denies) \<and> proto = ProtoTCP \<and> port_ok ports port \<and>
        (a \<in> space cidrs \<or> public \<and> a \<notin> block_space))"

lemma lets_compiled:
  "lets (deny_rules denies @ broker_rules brokers @ resolver_rules resolvers @ translation_rules @
      carve_rules (Carved cidrs denies) @ grant_rules ports cidrs @ block_rules @
      (if public then public_rules ports else [])) a port proto
   \<longleftrightarrow> filter_reach ports cidrs denies brokers resolvers public a port proto"
proof -
  have "lets (if public then public_rules ports else []) a port proto \<longleftrightarrow>
      public \<and> proto = ProtoTCP \<and> port_ok ports port"
    using lets_allows [OF stage_verdicts(8) [of ports], of "[]"] stage_matches(8) by simp
  then show ?thesis
    by (simp add: lets_drops lets_allows stage_verdicts stage_matches filter_reach_def) blast
qed

lemma block_prefixes_valid: "list_all IsValid (map bl_Prefix blockSet)"
proof -
  have "list_all (\<lambda>b. IsValid (bl_Prefix b)) baseBlockV4" "list_all (\<lambda>b. IsValid (bl_Prefix b)) baseBlockV6"
    "list_all (\<lambda>b. IsValid (bl_Prefix b)) translationBlock"
    by (simp_all add: baseBlockV4_def baseBlockV6_def translationBlock_def range_block_def IsValid_def ip4_def ip6_def)
  then show ?thesis by (auto simp: blockSet_def Let_def list_all_iff range_block_def)
qed

lemma block_prefixes_space: "space (map bl_Prefix blockSet) = block_space \<union> translation_space"
  by (auto simp: block_space_def translation_space_def space_def)

lemma services_blocked: "set Services \<subseteq> block_space"
proof
  fix s assume s: "s \<in> set Services"
  let ?b = "(range_block (service_prefix s) (MetadataService s))\<lparr>bl_Metadata := True\<rparr>"
  have "?b \<in> set blockSet" using s by (auto simp: blockSet_def Let_def image_iff)
  moreover have "\<not> bl_Translation ?b" "bl_Prefix ?b = service_prefix s" by (simp_all add: range_block_def)
  ultimately show "s \<in> block_space" unfolding block_space_def space_def by force
qed

text \<open>The rule list of a policy that compiled, from its normalised lists.\<close>

definition stages :: "port list \<Rightarrow> Prefix list \<Rightarrow> Prefix list \<Rightarrow> AddrPort list \<Rightarrow> AddrPort list \<Rightarrow> bool \<Rightarrow> Rule list" where
  "stages ports cidrs denies brokers resolvers public =
     local_rules @ deny_rules denies @ broker_rules brokers @ resolver_rules resolvers @ translation_rules @
     carve_rules (Carved cidrs denies) @ grant_rules ports cidrs @ block_rules @
     (if public then public_rules ports else [])"

lemma compile_rules:
  assumes "Compile inp = Inr P"
  obtains ports cidrs denies brokers resolvers where
    "normalizePorts (in_AllowPorts inp) = Inr ports" "normalizePrefixes (in_AllowCIDRs inp) = Inr cidrs"
    "normalizePrefixes (in_DenyCIDRs inp) = Inr denies"
    "normalizeAddrPorts (in_Brokers inp) ''broker'' = Inr brokers"
    "normalizeAddrPorts (in_Resolvers inp) ''resolver'' = Inr resolvers"
    "po_Rules P = stages ports cidrs denies brokers resolvers (in_AllowPublicInternet inp)"
    "list_all (\<lambda>c. pBits c \<noteq> 0) cidrs"
    "cidrs \<noteq> [] \<or> in_AllowPublicInternet inp \<Longrightarrow> (ports = []) = in_AllowAllPorts inp"
proof -
  from assms obtain ports cidrs denies brokers resolvers where n:
    "normalizePorts (in_AllowPorts inp) = Inr ports" "normalizePrefixes (in_AllowCIDRs inp) = Inr cidrs"
    "normalizePrefixes (in_DenyCIDRs inp) = Inr denies"
    "normalizeAddrPorts (in_Brokers inp) ''broker'' = Inr brokers"
    "normalizeAddrPorts (in_Resolvers inp) ''resolver'' = Inr resolvers"
    by (auto simp: Compile_def split: sum.splits)
  have "po_Rules P = stages ports cidrs denies brokers resolvers (in_AllowPublicInternet inp)"
    "find (\<lambda>c. pBits c = 0) cidrs = None"
    "cidrs \<noteq> [] \<or> in_AllowPublicInternet inp \<Longrightarrow> (ports = []) = in_AllowAllPorts inp"
    using assms by (auto simp: Compile_def n stages_def Let_def split: if_splits option.splits)
  with n that show thesis by (auto simp: find_None_iff list_all_iff)
qed

lemma compile_reach:
  assumes "Compile inp = Inr P"
  obtains ports cidrs denies brokers resolvers where
    "normalizePorts (in_AllowPorts inp) = Inr ports" "normalizePrefixes (in_AllowCIDRs inp) = Inr cidrs"
    "normalizePrefixes (in_DenyCIDRs inp) = Inr denies"
    "normalizeAddrPorts (in_Brokers inp) ''broker'' = Inr brokers"
    "normalizeAddrPorts (in_Resolvers inp) ''resolver'' = Inr resolvers"
    "\<And>a port proto. reaches P a port proto \<longleftrightarrow>
       filter_reach ports cidrs denies brokers resolvers (in_AllowPublicInternet inp) (Unmap a) port proto"
proof (rule compile_rules [OF assms])
  fix ports cidrs denies brokers resolvers
  assume r: "po_Rules P = stages ports cidrs denies brokers resolvers (in_AllowPublicInternet inp)"
    and n: "normalizePorts (in_AllowPorts inp) = Inr ports" "normalizePrefixes (in_AllowCIDRs inp) = Inr cidrs"
    "normalizePrefixes (in_DenyCIDRs inp) = Inr denies"
    "normalizeAddrPorts (in_Brokers inp) ''broker'' = Inr brokers"
    "normalizeAddrPorts (in_Resolvers inp) ''resolver'' = Inr resolvers"
  from r have "reaches P a port proto \<longleftrightarrow>
      filter_reach ports cidrs denies brokers resolvers (in_AllowPublicInternet inp) (Unmap a) port proto" for a port proto
    unfolding reaches_lets lets_compiled [symmetric] by (simp add: stage_wire stages_def)
  with n that show thesis by blast
qed

lemma those_set: "those (map f ps) = Some cs \<Longrightarrow> set cs = {y. \<exists>p \<in> set ps. f p = Some y}"
  by (induction ps arbitrary: cs) (auto split: option.splits)

lemma normalizePrefixes_set:
  "normalizePrefixes ps = Inr ms \<Longrightarrow> set ms = {c. \<exists>p \<in> set ps. Canonical p = Some c}"
proof -
  assume n: "normalizePrefixes ps = Inr ms"
  have c: "unmapped_prefix = Canonical" by (simp add: fun_eq_iff unmapped_prefix_def Canonical_def)
  from n obtain cs where cs: "those (map Canonical ps) = Some cs" and ms: "ms = sort (first_uses [] cs)"
    unfolding normalizePrefixes_def c by (cases "those (map Canonical ps)") (simp_all split: if_splits)
  show ?thesis unfolding ms set_sort set_first_uses those_set [OF cs] by simp
qed

lemma masked_mapped_bits: "masked p \<Longrightarrow> Is4In6 (pAddr p) \<Longrightarrow> 96 \<le> pBits p"
proof (rule ccontr)
  assume m: "masked p" "Is4In6 (pAddr p)" and less: "\<not> 96 \<le> pBits p"
  have six: "BitLen (pAddr p) = 128" "aval (pAddr p) div 2 ^ 32 = 0xFFFF"
    using m(2) by (simp_all add: Is4In6_def BitLen_Is4)
  define d where "d = 95 - pBits p"
  have d: "BitLen (pAddr p) - pBits p = 32 + Suc d" using less six(1) by (simp add: d_def)
  have "aval (pAddr p) = (top_bits (pBits p) (pAddr p) * 2 ^ d * 2) * 2 ^ 32"
    using m(1) unfolding masked_def d power_add by (simp add: algebra_simps)
  then have "(0xFFFF :: int) = top_bits (pBits p) (pAddr p) * 2 ^ d * 2" using six(2) by simp
  then have "even (0xFFFF :: int)" by (metis dvd_triv_right)
  then show False by simp
qed

lemma Canonical_not_mapped: "Canonical p = Some c \<Longrightarrow> \<not> Is4In6 (pAddr c)"
proof
  assume c: "Canonical p = Some c" and m: "Is4In6 (pAddr c)"
  show False
  proof (cases "Is4In6 (pAddr p)")
    case True
    with c m show False by (auto simp: Canonical_def Is4In6_def Unmap_def split: if_splits)
  next
    case False
    with c have v: "IsValid p" and cp: "c = Masked p" by (auto simp: Canonical_def split: if_splits)
    have b: "96 \<le> pBits p" using masked_mapped_bits [OF masked_Masked [OF v]] m cp by simp
    have six: "BitLen (pAddr p) = 128" using m cp by (simp add: Is4In6_def BitLen_Is4)
    have "top_bits 96 (pAddr c) = top_bits 96 (pAddr p)"
      using top_bits_Masked [OF v] v b cp by (intro top_bits_cong [of _ _ 96 "pBits p"]) (auto simp: IsValid_def)
    then have "Is4In6 (pAddr p)" using m six cp by (simp add: Is4In6_def top_bits_def BitLen_Is4 split: if_splits)
    with False show False ..
  qed
qed

lemma canonical_normalizePrefixes: "normalizePrefixes ps = Inr ms \<Longrightarrow> canonical_list ms"
  using normalizePrefixes_set [of ps ms] masked_Canonical Canonical_not_mapped
  by (auto simp: canonical_list_def list_all_iff)

text \<open>Canonical lists pass through the compiler's normalisation as sets.\<close>

lemma normalizePrefixes_canonical:
  "normalizePrefixes ps = Inr ms \<Longrightarrow> canonical_list ps \<Longrightarrow> set ms = set ps"
  using normalizePrefixes_set [of ps ms] Canonical_masked by (auto simp: canonical_list_def list_all_iff)

lemma normalizeAddrPorts_set:
  "normalizeAddrPorts aps kind = Inr ms \<Longrightarrow> b \<in> set ms \<Longrightarrow>
     \<exists>c \<in> set aps. apAddr b = Unmap (apAddr c) \<and> apPort b = apPort c"
  by (force simp: normalizeAddrPorts_def set_first_uses split: if_splits)

section \<open>The property\<close>

text \<open>C10: a cloud metadata service is reached by its name only. Whatever ranges and denials a filter is
  compiled from, with or without the public Internet, a packet to a metadata service leaves the sandbox
  only if the allow list has the service's own host prefix, or the service is a broker or resolver on
  that port.\<close>

theorem metadata_needs_its_name:
  "case Compile inp of
     Inl e \<Rightarrow> True
   | Inr P \<Rightarrow> {(a, port, proto). reaches P a port proto \<and> Unmap a \<in> set Services} \<subseteq>
       {(a, port, proto). (\<exists>p \<in> set (in_AllowCIDRs inp). Canonical p = Some (service_prefix (Unmap a))) \<or>
          (\<exists>b \<in> set (in_Brokers inp) \<union> set (in_Resolvers inp). Unmap (apAddr b) = Unmap a \<and> apPort b = port)}"
proof (cases "Compile inp")
  case (Inr P)
  show ?thesis unfolding Inr sum.case
  proof (rule subsetI, clarify)
    fix a port proto assume r: "reaches P a port proto" and s: "Unmap a \<in> set Services"
      and e: "\<not> (\<exists>b \<in> set (in_Brokers inp) \<union> set (in_Resolvers inp). Unmap (apAddr b) = Unmap a \<and> apPort b = port)"
    show "\<exists>p \<in> set (in_AllowCIDRs inp). Canonical p = Some (service_prefix (Unmap a))"
    proof (rule compile_reach [OF Inr])
      fix ports cidrs denies brokers resolvers
      assume n: "normalizePrefixes (in_AllowCIDRs inp) = Inr cidrs" "normalizePrefixes (in_DenyCIDRs inp) = Inr denies"
          "normalizeAddrPorts (in_Brokers inp) ''broker'' = Inr brokers"
          "normalizeAddrPorts (in_Resolvers inp) ''resolver'' = Inr resolvers"
        and f: "\<And>a port proto. reaches P a port proto \<longleftrightarrow>
          filter_reach ports cidrs denies brokers resolvers (in_AllowPublicInternet inp) (Unmap a) port proto"
      have "\<not> (\<exists>b \<in> set brokers \<union> set resolvers. apAddr b = Unmap a \<and> apPort b = port)"
        using e normalizeAddrPorts_set [OF n(3)] normalizeAddrPorts_set [OF n(4)] by fastforce
      then have "Unmap a \<notin> space denies" "Unmap a \<notin> set (Carved cidrs denies)" "Unmap a \<in> space cidrs"
        using r f [of a port proto] s services_blocked by (auto simp: filter_reach_def)
      then have "service_prefix (Unmap a) \<in> set cidrs"
        using s Carved_canonical [OF canonical_normalizePrefixes canonical_normalizePrefixes, OF n(1,2)] by blast
      then show ?thesis unfolding normalizePrefixes_set [OF n(1)] by simp
    qed
  qed
qed simp

end
