(* ===== verification/FwRules.thy ===== *)
theory FwRules
  imports NetFilter
begin

text \<open>
  pkg/executor/firewall.go: the editable form of a firewall and its one parser, \<open>Normalize\<close>. The
  fields hold texts; a text is what Go's \<open>netip\<close> parsers make of it after trimming: nothing, a
  prefix (\<open>ParsePrefix\<close>; the length may be too long for the address), an address (\<open>ParseAddr\<close>), or
  neither, and likewise for a resolver, where an IPv6 zone is kept. A prefix that the code prints and
  parses again is that prefix. Resolvers are sorted by address here and by their text in the code;
  no order of theirs is observed below except by comparing whole lists.
\<close>

section \<open>Texts\<close>

datatype cidr_text = Blank | PrefixText addr nat | AddrText addr | OtherText

datatype resolver_text = BlankResolver | EndpointText addr string port | HostText addr string | OtherResolver

datatype firewall_error = TooMany string nat | NotCIDR string nat | MixedSpace string nat
  | WaivesAll string nat | NotPort nat int | BadResolver nat

definition MaxFirewallCIDRs :: nat where "MaxFirewallCIDRs = 256"
definition MaxFirewallPorts :: nat where "MaxFirewallPorts = 64"
definition MaxFirewallResolvers :: nat where "MaxFirewallResolvers = 16"

record FirewallRules =
  fw_AllowPublicInternet :: bool
  fw_AllowCIDRs :: "cidr_text list"
  fw_DenyCIDRs :: "cidr_text list"
  fw_AllowPorts :: "int list"
  fw_Resolvers :: "resolver_text list"
  fw_DropDenied :: bool

definition no_rules :: FirewallRules where
  "no_rules = \<lparr>fw_AllowPublicInternet = False, fw_AllowCIDRs = [], fw_DenyCIDRs = [], fw_AllowPorts = [],
     fw_Resolvers = [], fw_DropDenied = False\<rparr>"

definition HasDestination :: "FirewallRules \<Rightarrow> bool" where
  "HasDestination r \<longleftrightarrow> fw_AllowPublicInternet r \<or> fw_AllowCIDRs r \<noteq> [] \<or> fw_Resolvers r \<noteq> []"

definition cidr_string :: "Prefix \<Rightarrow> cidr_text" where
  "cidr_string p = PrefixText (pAddr p) (pBits p)"

definition endpoint_string :: "AddrPort \<Rightarrow> resolver_text" where
  "endpoint_string ap = EndpointText (apAddr ap) (apZone ap) (apPort ap)"

section \<open>Parsing\<close>

text \<open>Whether an IPv4-mapped prefix reaches outside the mapped range is an error of its own.\<close>

datatype parse_failure = NoCIDR | MixesSpace

definition ParseFirewallPrefix :: "cidr_text \<Rightarrow> parse_failure + Prefix" where
  "ParseFirewallPrefix t =
     (case t of
        PrefixText a n \<Rightarrow>
          if n > BitLen a then Inl NoCIDR
          else if Is4In6 a
          then (if n < 96 then Inl MixesSpace else Inr (Masked (PrefixFrom (Unmap a) (n - 96))))
          else Inr (Masked (PrefixFrom a n))
      | AddrText a \<Rightarrow> Inr (PrefixFrom (Unmap a) (BitLen (Unmap a)))
      | _ \<Rightarrow> Inl NoCIDR)"

definition ParseResolver :: "resolver_text \<Rightarrow> AddrPort option" where
  "ParseResolver t =
     (case t of
        EndpointText a zone p \<Rightarrow> if p = 0 then None else Some (AddrPortFrom (Unmap a) zone p)
      | HostText a zone \<Rightarrow> Some (AddrPortFrom (Unmap a) zone 53)
      | _ \<Rightarrow> None)"

text \<open>One list, entry by entry from index \<open>i\<close>, with the keys seen so far.\<close>

fun cidr_loop :: "string \<Rightarrow> bool \<Rightarrow> nat \<Rightarrow> Prefix list \<Rightarrow> cidr_text list \<Rightarrow> firewall_error + Prefix list" where
  "cidr_loop field allowAll i out [] = Inr out"
| "cidr_loop field allowAll i out (raw # rest) =
     (if raw = Blank then cidr_loop field allowAll (Suc i) out rest
      else case ParseFirewallPrefix raw of
             Inl NoCIDR \<Rightarrow> Inl (NotCIDR field i)
           | Inl MixesSpace \<Rightarrow> Inl (MixedSpace field i)
           | Inr p \<Rightarrow>
               if pBits p = 0 \<and> \<not> allowAll then Inl (WaivesAll field i)
               else cidr_loop field allowAll (Suc i) (if p \<in> set out then out else out @ [p]) rest)"

definition normalizeCIDRList :: "string \<Rightarrow> cidr_text list \<Rightarrow> bool \<Rightarrow> firewall_error + cidr_text list" where
  "normalizeCIDRList field texts allowAll =
     (if length texts > MaxFirewallCIDRs then Inl (TooMany field (length texts))
      else map_sum id (\<lambda>ps. map cidr_string (sort ps)) (cidr_loop field allowAll 0 [] texts))"

fun port_loop :: "nat \<Rightarrow> int list \<Rightarrow> int list \<Rightarrow> firewall_error + int list" where
  "port_loop i out [] = Inr out"
| "port_loop i out (p # rest) =
     (if p \<le> 0 \<or> p > 65535 then Inl (NotPort i p)
      else port_loop (Suc i) (if p \<in> set out then out else out @ [p]) rest)"

fun resolver_loop :: "nat \<Rightarrow> AddrPort list \<Rightarrow> resolver_text list \<Rightarrow> firewall_error + AddrPort list" where
  "resolver_loop i out [] = Inr out"
| "resolver_loop i out (raw # rest) =
     (if raw = BlankResolver then resolver_loop (Suc i) out rest
      else case ParseResolver raw of
             None \<Rightarrow> Inl (BadResolver i)
           | Some ap \<Rightarrow> resolver_loop (Suc i) (if ap \<in> set out then out else out @ [ap]) rest)"

definition Normalize_rules :: "FirewallRules \<Rightarrow> firewall_error + FirewallRules" where
  "Normalize_rules r =
     (case normalizeCIDRList ''allow_cidrs'' (fw_AllowCIDRs r) False of Inl e \<Rightarrow> Inl e | Inr allow \<Rightarrow>
      (case normalizeCIDRList ''deny_cidrs'' (fw_DenyCIDRs r) True of Inl e \<Rightarrow> Inl e | Inr deny \<Rightarrow>
        if length (fw_AllowPorts r) > MaxFirewallPorts then Inl (TooMany ''allow_ports'' (length (fw_AllowPorts r)))
        else (case port_loop 0 [] (fw_AllowPorts r) of Inl e \<Rightarrow> Inl e | Inr ports \<Rightarrow>
          if length (fw_Resolvers r) > MaxFirewallResolvers
          then Inl (TooMany ''resolvers'' (length (fw_Resolvers r)))
          else (case resolver_loop 0 [] (fw_Resolvers r) of Inl e \<Rightarrow> Inl e | Inr resolvers \<Rightarrow>
            Inr \<lparr>fw_AllowPublicInternet = fw_AllowPublicInternet r, fw_AllowCIDRs = allow, fw_DenyCIDRs = deny,
                 fw_AllowPorts = sort ports, fw_Resolvers = map endpoint_string (sort resolvers),
                 fw_DropDenied = fw_DropDenied r\<rparr>))))"

text \<open>The entries that parse, and the rule a save applies to them.\<close>

definition firewallPrefixes :: "cidr_text list \<Rightarrow> Prefix list" where
  "firewallPrefixes texts = List.map_filter (\<lambda>t. case ParseFirewallPrefix t of Inl e \<Rightarrow> None | Inr p \<Rightarrow> Some p) texts"

definition MetadataFindings :: "FirewallRules \<Rightarrow> (Prefix \<times> addr list) list" where
  "MetadataFindings r = Check (firewallPrefixes (fw_AllowCIDRs r)) (firewallPrefixes (fw_DenyCIDRs r))"

definition CheckMetadata :: "FirewallRules \<Rightarrow> bool" where
  "CheckMetadata r \<longleftrightarrow> MetadataFindings r = []"

section \<open>The normal form\<close>

definition normal_prefix :: "bool \<Rightarrow> Prefix \<Rightarrow> bool" where
  "normal_prefix allowAll p \<longleftrightarrow> masked p \<and> \<not> Is4In6 (pAddr p) \<and> (allowAll \<or> pBits p \<noteq> 0)"

definition normal_list :: "bool \<Rightarrow> Prefix list \<Rightarrow> bool" where
  "normal_list allowAll ps \<longleftrightarrow> list_all (normal_prefix allowAll) ps \<and> distinct ps \<and> sorted ps \<and>
     length ps \<le> MaxFirewallCIDRs"

definition normal_endpoint :: "AddrPort \<Rightarrow> bool" where
  "normal_endpoint ap \<longleftrightarrow> \<not> Is4In6 (apAddr ap) \<and> apPort ap \<noteq> 0"

text \<open>A rule set as \<open>Normalize\<close> leaves it.\<close>

definition normal :: "FirewallRules \<Rightarrow> bool" where
  "normal r \<longleftrightarrow>
     (\<exists>allow deny resolvers. fw_AllowCIDRs r = map cidr_string allow \<and> normal_list False allow \<and>
        fw_DenyCIDRs r = map cidr_string deny \<and> normal_list True deny \<and>
        fw_Resolvers r = map endpoint_string resolvers \<and> list_all normal_endpoint resolvers \<and>
        distinct resolvers \<and> sorted resolvers \<and> length resolvers \<le> MaxFirewallResolvers) \<and>
     sorted (fw_AllowPorts r) \<and> distinct (fw_AllowPorts r) \<and> length (fw_AllowPorts r) \<le> MaxFirewallPorts \<and>
     list_all (\<lambda>p. 0 < p \<and> p \<le> 65535) (fw_AllowPorts r)"

lemma parse_canonical: "ParseFirewallPrefix t = Inr p \<Longrightarrow> masked p \<and> \<not> Is4In6 (pAddr p)"
proof (cases t)
  case (PrefixText a n)
  moreover assume "ParseFirewallPrefix t = Inr p"
  ultimately have "Canonical (PrefixFrom a n) = Some p"
    by (auto simp: ParseFirewallPrefix_def Canonical_def IsValid_def split: if_splits)
  then show ?thesis using masked_Canonical Canonical_not_mapped by auto
next
  case (AddrText a)
  moreover assume "ParseFirewallPrefix t = Inr p"
  ultimately show ?thesis using not_mapped_Unmap by (auto simp: ParseFirewallPrefix_def intro: masked_host)
qed (simp_all add: ParseFirewallPrefix_def)

lemma parse_string: "masked p \<Longrightarrow> \<not> Is4In6 (pAddr p) \<Longrightarrow> ParseFirewallPrefix (cidr_string p) = Inr p"
  using masked_valid [of p] Masked_masked [of p] by (simp add: ParseFirewallPrefix_def cidr_string_def IsValid_def)

lemma cidr_loop_normal:
  "cidr_loop field allowAll i out texts = Inr ps \<Longrightarrow> list_all (normal_prefix allowAll) out \<Longrightarrow> distinct out \<Longrightarrow>
     list_all (normal_prefix allowAll) ps \<and> distinct ps \<and> length ps \<le> length out + length texts"
proof (induction field allowAll i out texts rule: cidr_loop.induct)
  case (2 field allowAll i out raw rest)
  show ?case
  proof (cases "raw = Blank")
    case True
    with 2 show ?thesis by force
  next
    case False
    with 2(3) obtain p where p: "ParseFirewallPrefix raw = Inr p"
      by (auto split: sum.splits parse_failure.splits)
    have np: "\<not> (pBits p = 0 \<and> \<not> allowAll)" using 2(3) False p by (auto split: if_splits)
    let ?out = "if p \<in> set out then out else out @ [p]"
    have "cidr_loop field allowAll (Suc i) ?out rest = Inr ps" using 2(3) False p np by auto
    moreover have "normal_prefix allowAll p" using parse_canonical [OF p] np by (auto simp: normal_prefix_def)
    then have "list_all (normal_prefix allowAll) ?out" "distinct ?out" using 2(4,5) by auto
    ultimately show ?thesis using 2(2) [OF False p np] by (auto split: if_splits)
  qed
qed simp

lemma cidr_loop_strings:
  "list_all (normal_prefix allowAll) ps \<Longrightarrow> distinct (out @ ps) \<Longrightarrow>
     cidr_loop field allowAll i out (map cidr_string ps) = Inr (out @ ps)"
proof (induction ps arbitrary: i out)
  case (Cons p ps)
  have "ParseFirewallPrefix (cidr_string p) = Inr p" "\<not> (pBits p = 0 \<and> \<not> allowAll)"
    using Cons.prems(1) parse_string by (auto simp: normal_prefix_def)
  then show ?case using Cons.IH [of "out @ [p]" "Suc i"] Cons.prems by (auto simp: cidr_string_def)
qed simp

lemma normalizeCIDRList_normal:
  assumes "normalizeCIDRList field texts allowAll = Inr ts"
  shows "\<exists>ps. ts = map cidr_string ps \<and> normal_list allowAll ps"
proof -
  from assms obtain qs where q: "cidr_loop field allowAll 0 [] texts = Inr qs" "ts = map cidr_string (sort qs)"
    and len: "length texts \<le> MaxFirewallCIDRs"
    unfolding normalizeCIDRList_def by (cases "cidr_loop field allowAll 0 [] texts") (auto split: if_splits)
  have "normal_list allowAll (sort qs)"
    using cidr_loop_normal [OF q(1)] len by (auto simp: normal_list_def list_all_iff)
  with q(2) show ?thesis by blast
qed

lemma normalizeCIDRList_strings:
  "normal_list allowAll ps \<Longrightarrow> normalizeCIDRList field (map cidr_string ps) allowAll = Inr (map cidr_string ps)"
  using cidr_loop_strings [of allowAll ps "[]"]
  by (simp add: normal_list_def normalizeCIDRList_def sorted_sort_id)

lemma port_loop_normal:
  "port_loop i out texts = Inr ps \<Longrightarrow> list_all (\<lambda>p. 0 < p \<and> p \<le> 65535) out \<Longrightarrow> distinct out \<Longrightarrow>
     list_all (\<lambda>p. 0 < p \<and> p \<le> 65535) ps \<and> distinct ps \<and> length ps \<le> length out + length texts"
proof (induction i out texts rule: port_loop.induct)
  case (2 i out p rest)
  have np: "\<not> (p \<le> 0 \<or> p > 65535)" using 2(2) by (auto split: if_splits)
  let ?out = "if p \<in> set out then out else out @ [p]"
  have "port_loop (Suc i) ?out rest = Inr ps" using 2(2) np by auto
  moreover have "list_all (\<lambda>p. 0 < p \<and> p \<le> 65535) ?out" "distinct ?out" using 2(3,4) np by auto
  ultimately show ?case using 2(1) [OF np] by (auto split: if_splits)
qed simp

lemma port_loop_id:
  "list_all (\<lambda>p. 0 < p \<and> p \<le> 65535) ps \<Longrightarrow> distinct (out @ ps) \<Longrightarrow> port_loop i out ps = Inr (out @ ps)"
  by (induction ps arbitrary: i out) auto

lemma resolver_loop_normal:
  "resolver_loop i out texts = Inr aps \<Longrightarrow> list_all normal_endpoint out \<Longrightarrow> distinct out \<Longrightarrow>
     list_all normal_endpoint aps \<and> distinct aps \<and> length aps \<le> length out + length texts"
proof (induction i out texts rule: resolver_loop.induct)
  case (2 i out raw rest)
  show ?case
  proof (cases "raw = BlankResolver")
    case True
    with 2 show ?thesis by force
  next
    case False
    with 2(3) obtain ap where ap: "ParseResolver raw = Some ap" by (auto split: option.splits)
    let ?out = "if ap \<in> set out then out else out @ [ap]"
    have "normal_endpoint ap" using ap not_mapped_Unmap
      by (auto simp: ParseResolver_def normal_endpoint_def split: resolver_text.splits if_splits)
    then have "list_all normal_endpoint ?out" "distinct ?out" using 2(4,5) by auto
    moreover have "resolver_loop (Suc i) ?out rest = Inr aps" using 2(3) False ap by auto
    ultimately show ?thesis using 2(2) [OF False ap] by (auto split: if_splits)
  qed
qed simp

lemma ParseResolver_string: "normal_endpoint ap \<Longrightarrow> ParseResolver (endpoint_string ap) = Some ap"
  by (cases ap) (simp add: normal_endpoint_def ParseResolver_def endpoint_string_def Unmap_def)

lemma resolver_loop_strings:
  "list_all normal_endpoint aps \<Longrightarrow> distinct (out @ aps) \<Longrightarrow>
     resolver_loop i out (map endpoint_string aps) = Inr (out @ aps)"
proof (induction aps arbitrary: i out)
  case (Cons ap aps)
  then show ?case using Cons.IH [of "out @ [ap]" "Suc i"] ParseResolver_string [of ap]
    by (auto simp: endpoint_string_def)
qed simp

lemma Normalize_normal: "Normalize_rules r = Inr n \<Longrightarrow> normal n"
proof -
  assume n: "Normalize_rules r = Inr n"
  then obtain allow deny ports resolvers where
    p: "normalizeCIDRList ''allow_cidrs'' (fw_AllowCIDRs r) False = Inr allow"
      "normalizeCIDRList ''deny_cidrs'' (fw_DenyCIDRs r) True = Inr deny"
      "port_loop 0 [] (fw_AllowPorts r) = Inr ports" "resolver_loop 0 [] (fw_Resolvers r) = Inr resolvers"
    and len: "length (fw_AllowPorts r) \<le> MaxFirewallPorts" "length (fw_Resolvers r) \<le> MaxFirewallResolvers"
    and nn: "n = \<lparr>fw_AllowPublicInternet = fw_AllowPublicInternet r, fw_AllowCIDRs = allow, fw_DenyCIDRs = deny,
                 fw_AllowPorts = sort ports, fw_Resolvers = map endpoint_string (sort resolvers),
                 fw_DropDenied = fw_DropDenied r\<rparr>"
    by (auto simp: Normalize_rules_def split: sum.splits if_splits)
  obtain as where "allow = map cidr_string as" "normal_list False as" using normalizeCIDRList_normal [OF p(1)] by auto
  moreover obtain ds where "deny = map cidr_string ds" "normal_list True ds" using normalizeCIDRList_normal [OF p(2)] by auto
  moreover have "list_all normal_endpoint (sort resolvers)" "distinct (sort resolvers)"
      "length (sort resolvers) \<le> MaxFirewallResolvers"
    using resolver_loop_normal [OF p(4)] len(2) by (auto simp: list_all_iff)
  moreover have "list_all (\<lambda>p. 0 < p \<and> p \<le> 65535) (sort ports)" "distinct (sort ports)"
      "length (sort ports) \<le> MaxFirewallPorts"
    using port_loop_normal [OF p(3)] len(1) by (auto simp: list_all_iff)
  moreover have "sorted (sort resolvers)" "sorted (sort ports)" by simp_all
  ultimately show ?thesis unfolding normal_def nn by (simp only: FirewallRules.simps) blast
qed

lemma Normalize_id: "normal r \<Longrightarrow> Normalize_rules r = Inr r"
proof -
  assume "normal r"
  then obtain allow deny resolvers where r: "fw_AllowCIDRs r = map cidr_string allow" "normal_list False allow"
      "fw_DenyCIDRs r = map cidr_string deny" "normal_list True deny"
      "fw_Resolvers r = map endpoint_string resolvers" "list_all normal_endpoint resolvers" "distinct resolvers"
      "sorted resolvers" "length resolvers \<le> MaxFirewallResolvers"
    and p: "sorted (fw_AllowPorts r)" "distinct (fw_AllowPorts r)" "length (fw_AllowPorts r) \<le> MaxFirewallPorts"
      "list_all (\<lambda>p. 0 < p \<and> p \<le> 65535) (fw_AllowPorts r)" by (auto simp: normal_def)
  show ?thesis
    using normalizeCIDRList_strings [OF r(2)] normalizeCIDRList_strings [OF r(4)] port_loop_id [of _ "[]", OF p(4)]
      resolver_loop_strings [of _ "[]", OF r(6)] p r
    by (simp add: Normalize_rules_def sorted_sort_id)
qed

end
