(* ===== verification/PrefixSet.thy ===== *)
theory PrefixSet
  imports NetAddr
begin

text \<open>
  pkg/fwpolicy/prefixset.go: exact set arithmetic on lists of prefixes. Each operation is given its
  meaning on sets of addresses, and \<open>aggregate\<close> is shown to compute the one shortest list for the
  addresses it is given.
\<close>

section \<open>Operations\<close>

definition halves :: "Prefix \<Rightarrow> Prefix \<times> Prefix" where
  "halves p =
     (let bits = pBits p + 1; a = pAddr p
      in (PrefixFrom a bits, PrefixFrom (with_val a (set_bit (BitLen a - bits) (aval a))) bits))"

text \<open>The loop of \<open>subtractOne\<close>: the half that does not hold \<open>b\<close> is kept, the other halved again.\<close>

function split_around :: "Prefix \<Rightarrow> Prefix \<Rightarrow> Prefix list" where
  "split_around cur b =
     (if pBits cur < pBits b
      then let (lo, hi) = halves cur
        in if Contains lo (pAddr b) then hi # split_around lo b else lo # split_around hi b
      else [])"
  by pat_completeness auto
termination by (relation "measure (\<lambda>(cur, b). pBits b - pBits cur)") (auto simp: halves_def Let_def)

declare split_around.simps [simp del]

definition subtractOne :: "Prefix \<Rightarrow> Prefix \<Rightarrow> Prefix list" where
  "subtractOne a b =
     (let a = Masked a; b = Masked b
      in if Is4 (pAddr a) \<noteq> Is4 (pAddr b) \<or> \<not> Overlaps a b then [a]
         else if pBits b \<le> pBits a then [] else split_around a b)"

definition subtract :: "Prefix list \<Rightarrow> Prefix list \<Rightarrow> Prefix list" where
  "subtract a b = fold (\<lambda>hole out. concat (map (\<lambda>p. subtractOne p hole) out)) b a"

definition covered :: "Prefix list \<Rightarrow> Prefix list \<Rightarrow> bool" where
  "covered a b \<longleftrightarrow> subtract a b = []"

definition siblings :: "Prefix \<Rightarrow> Prefix \<Rightarrow> bool" where
  "siblings a b \<longleftrightarrow> Is4 (pAddr a) = Is4 (pAddr b) \<and> pBits a = pBits b \<and> pBits a \<noteq> 0 \<and>
     Masked (PrefixFrom (pAddr a) (pBits a - 1)) = Masked (PrefixFrom (pAddr b) (pBits b - 1)) \<and> a \<noteq> b"

text \<open>One pass drops what the last kept prefix contains, the next merges neighbouring halves.\<close>

fun drop_contained :: "Prefix list \<Rightarrow> Prefix list" where
  "drop_contained (p # q # ps) =
     (if Is4 (pAddr p) = Is4 (pAddr q) \<and> pBits p \<le> pBits q \<and> Contains p (pAddr q)
      then drop_contained (p # ps) else p # drop_contained (q # ps))"
| "drop_contained ps = ps"

fun merge_siblings :: "Prefix list \<Rightarrow> Prefix list" where
  "merge_siblings (p # q # ps) =
     (if siblings p q then Masked (PrefixFrom (pAddr p) (pBits p - 1)) # merge_siblings ps
      else p # merge_siblings (q # ps))"
| "merge_siblings ps = ps"

lemma length_drop_contained: "length (drop_contained ps) \<le> length ps"
  by (induction ps rule: drop_contained.induct) auto

lemma length_merge: "length (merge_siblings ps) \<le> length ps"
  by (induction ps rule: merge_siblings.induct) auto

lemma merge_same_length: "length (merge_siblings ps) = length ps \<Longrightarrow> merge_siblings ps = ps"
proof (induction ps rule: merge_siblings.induct)
  case (1 p q ps)
  then show ?case using length_merge [of ps] by (auto split: if_splits)
qed simp_all

function aggregate_loop :: "Prefix list \<Rightarrow> Prefix list" where
  "aggregate_loop ps =
     (let ps = drop_contained (sort ps); out = merge_siblings ps
      in if length out = length ps then out else aggregate_loop out)"
  by pat_completeness auto
termination
proof (relation "measure length")
  fix ps :: "Prefix list" and x xa
  assume "x = drop_contained (sort ps)" "xa = merge_siblings x" "length xa \<noteq> length x"
  then show "(xa, ps) \<in> measure length"
    using length_merge [of x] length_drop_contained [of "sort ps"] by simp
qed simp

declare aggregate_loop.simps [simp del]

definition aggregate :: "Prefix list \<Rightarrow> Prefix list" where
  "aggregate ps = (if ps = [] then [] else aggregate_loop (map Masked ps))"

definition intersect :: "Prefix list \<Rightarrow> Prefix list \<Rightarrow> Prefix list" where
  "intersect a b = aggregate (concat (map (\<lambda>x. concat (map (\<lambda>y.
     if Is4 (pAddr x) \<noteq> Is4 (pAddr y) \<or> \<not> Overlaps x y then []
     else if pBits x \<ge> pBits y then [x] else [y]) b)) a))"

section \<open>Halving\<close>

lemma nat_parity_div: "(x::int) div 2 = y \<longleftrightarrow> x = 2 * y \<or> x = 2 * y + 1"
  by linarith

lemma top_bits_Suc:
  assumes "Is4 a = Is4 b" and "n < BitLen a"
  shows "top_bits n a = top_bits n b \<longleftrightarrow>
    top_bits (Suc n) a = 2 * top_bits n b \<or> top_bits (Suc n) a = 2 * top_bits n b + 1"
  using top_bits_shorter [of n "Suc n" a] assms by (simp add: nat_parity_div)

lemma halves_bits:
  assumes "masked p" and "pBits p < BitLen (pAddr p)" and "halves p = (lo, hi)"
  shows "Is4 (pAddr lo) = Is4 (pAddr p)" "Is4 (pAddr hi) = Is4 (pAddr p)"
    "pBits lo = Suc (pBits p)" "pBits hi = Suc (pBits p)" "masked lo" "masked hi"
    "top_bits (Suc (pBits p)) (pAddr lo) = 2 * top_bits (pBits p) (pAddr p)"
    "top_bits (Suc (pBits p)) (pAddr hi) = 2 * top_bits (pBits p) (pAddr p) + 1"
proof -
  let ?a = "pAddr p" let ?n = "pBits p" let ?t = "top_bits ?n ?a"
  define k where "k = BitLen ?a - Suc ?n"
  have len: "BitLen ?a - ?n = Suc k" using assms(2) by (simp add: k_def)
  have v: "aval ?a = 2 * ?t * 2 ^ k" using assms(1) by (simp add: masked_def len algebra_simps)
  have nb: "\<not> bit (aval ?a) k" unfolding v by (simp add: bit_iff_odd)
  have "set_bit k (aval ?a) = aval ?a + 2 ^ k"
    using nb by (simp add: set_bit_eq)
  then have sb: "set_bit k (aval ?a) = (2 * ?t + 1) * 2 ^ k" unfolding v by (simp add: algebra_simps)
  have t: "0 \<le> ?t" "?t < 2 ^ ?n" using top_bits_nonneg top_bits_less assms(2) by auto
  have "(2 * ?t + 1) * 2 ^ k < 2 ^ BitLen ?a"
    using pad_bounds(2) [of "Suc ?n" ?a "2 * ?t + 1"] t assms(2) by (simp add: k_def)
  then have av: "aval (with_val ?a (set_bit k (aval ?a))) = (2 * ?t + 1) * 2 ^ k"
    unfolding sb using t by (intro aval_with_val) simp_all
  have lo: "lo = PrefixFrom ?a (Suc ?n)" and hi: "hi = PrefixFrom (with_val ?a (set_bit k (aval ?a))) (Suc ?n)"
    using assms(3) by (auto simp: halves_def Let_def k_def)
  show "Is4 (pAddr lo) = Is4 ?a" "Is4 (pAddr hi) = Is4 ?a" "pBits lo = Suc ?n" "pBits hi = Suc ?n"
    by (simp_all add: lo hi)
  show tl: "top_bits (Suc ?n) (pAddr lo) = 2 * ?t" 
  proof -
    have "top_bits (Suc ?n) ?a = aval ?a div 2 ^ k" by (simp add: top_bits_def k_def)
    then show ?thesis unfolding lo v by simp
  qed
  show th: "top_bits (Suc ?n) (pAddr hi) = 2 * ?t + 1" by (simp add: hi top_bits_def av flip: k_def)
  show "masked lo" using tl v assms(2) by (simp add: lo masked_def IsValid_def flip: k_def)
  show "masked hi" using th av assms(2) by (simp add: hi masked_def IsValid_def flip: k_def)
qed

lemma halves_addrs:
  assumes "masked p" and "pBits p < BitLen (pAddr p)" and "halves p = (lo, hi)"
  shows "addrs lo \<union> addrs hi = addrs p" "addrs lo \<inter> addrs hi = {}"
proof -
  note h = halves_bits [OF assms]
  have "a \<in> addrs p \<longleftrightarrow> a \<in> addrs lo \<or> a \<in> addrs hi" for a
    using top_bits_Suc [of a "pAddr p" "pBits p"] assms(2) unfolding in_addrs h by (auto simp: BitLen_Is4)
  then show "addrs lo \<union> addrs hi = addrs p" by auto
  show "addrs lo \<inter> addrs hi = {}" unfolding set_eq_iff by (auto simp: in_addrs h)
qed

section \<open>Subtraction\<close>

definition disjoint_list :: "Prefix list \<Rightarrow> bool" where
  "disjoint_list ps \<longleftrightarrow> sorted_wrt (\<lambda>p q. addrs p \<inter> addrs q = {}) ps"

lemma split_around_spec:
  assumes "masked cur" and "masked b" and "addrs b \<subseteq> addrs cur"
  shows "space (split_around cur b) = addrs cur - addrs b \<and> list_all masked (split_around cur b)"
  using assms
proof (induction cur b rule: split_around.induct)
  case (1 cur b)
  show ?case
  proof (cases "pBits cur < pBits b")
    case False
    then have "pBits cur = pBits b" using subset_bits [of cur b] 1(3-5) masked_valid by force
    moreover have "pAddr b \<in> addrs cur" using 1(5) pAddr_in_addrs by auto
    ultimately have "addrs cur \<subseteq> addrs b"
      using nested [of b cur "pAddr b"] 1(3,4) masked_valid pAddr_in_addrs by auto
    with False 1(5) show ?thesis by (subst (1 2) split_around.simps) simp
  next
    case less: True
    obtain lo hi where h: "halves cur = (lo, hi)" by fastforce
    have f: "Is4 (pAddr b) = Is4 (pAddr cur)" using 1(5) pAddr_in_addrs [of b] by (auto simp: in_addrs)
    have n: "pBits cur < BitLen (pAddr cur)"
      using less f masked_valid [OF 1(4)] by (simp add: IsValid_def BitLen_Is4)
    note hb = halves_bits [OF 1(3) n h] and ha = halves_addrs [OF 1(3) n h]
    have v: "IsValid b" "IsValid lo" "IsValid hi" using 1(4) hb masked_valid by auto
    show ?thesis
    proof (cases "Contains lo (pAddr b)")
      case True
      then have sub: "addrs b \<subseteq> addrs lo" using contains_iff_subset [OF v(2,1)] hb less by simp
      from 1(1) [OF less h [symmetric] refl True hb(5) 1(4) sub]
      show ?thesis using less h True sub ha hb(6) by (subst (1 2) split_around.simps) auto
    next
      case False
      then have "pAddr b \<in> addrs hi" using 1(5) ha(1) pAddr_in_addrs [of b] by (auto simp: addrs_def)
      then have sub: "addrs b \<subseteq> addrs hi"
        using contains_iff_subset [OF v(3,1)] hb less by (simp add: addrs_def)
      from 1(2) [OF less h [symmetric] refl False hb(6) 1(4) sub]
      show ?thesis using less h False sub ha hb(5) by (subst (1 2) split_around.simps) auto
    qed
  qed
qed

lemma subtractOne_spec:
  assumes "IsValid a" and "IsValid b"
  shows "space (subtractOne a b) = addrs a - addrs b \<and> list_all masked (subtractOne a b)"
proof -
  let ?a = "Masked a" let ?b = "Masked b"
  have m: "masked ?a" "masked ?b" and v: "IsValid ?a" "IsValid ?b" using assms masked_Masked by auto
  have s: "addrs ?a = addrs a" "addrs ?b = addrs b" using assms by auto
  show ?thesis
  proof (cases "Overlaps ?a ?b")
    case False
    then show ?thesis using Overlaps_iff [OF v] m s by (auto simp: subtractOne_def Let_def)
  next
    case True
    then have f: "Is4 (pAddr ?a) = Is4 (pAddr ?b)" by (simp add: Overlaps_def)
    obtain x where x: "x \<in> addrs ?a" "x \<in> addrs ?b" using True Overlaps_iff [OF v] by auto
    show ?thesis
    proof (cases "pBits b \<le> pBits a")
      case le: True
      then have "addrs ?a \<subseteq> addrs ?b" using nested [OF v(2,1) _ x(2,1)] by simp
      with le True f s show ?thesis by (auto simp: subtractOne_def Let_def)
    next
      case False
      then have "addrs ?b \<subseteq> addrs ?a" using nested [OF v _ x] by simp
      from split_around_spec [OF m this] show ?thesis using False True f s by (auto simp: subtractOne_def Let_def)
    qed
  qed
qed

lemma masked_valid_list: "list_all masked ps \<Longrightarrow> list_all IsValid ps"
  by (auto simp: list_all_iff masked_valid)

lemma subtract_step:
  assumes "list_all IsValid a" and "IsValid b"
  shows "space (concat (map (\<lambda>p. subtractOne p b) a)) = space a - addrs b \<and>
    list_all masked (concat (map (\<lambda>p. subtractOne p b) a))"
  using assms subtractOne_spec by (induction a) (auto simp: list_all_append)

lemma subtract_spec:
  assumes "list_all IsValid a" and "list_all IsValid b"
  shows "space (subtract a b) = space a - space b \<and> list_all IsValid (subtract a b)"
  using assms
proof (induction b arbitrary: a)
  case (Cons h b)
  have "list_all IsValid (concat (map (\<lambda>p. subtractOne p h) a))"
    using subtract_step [of a h] Cons.prems masked_valid_list by simp
  from Cons.IH [OF this] Cons.prems subtract_step [of a h] show ?case
    by (auto simp: subtract_def)
qed (simp add: subtract_def)

lemmas space_subtract = subtract_spec [THEN conjunct1]
  and valid_subtract = subtract_spec [THEN conjunct2]

lemma masked_subtract:
  assumes "list_all masked a" and "list_all IsValid b"
  shows "list_all masked (subtract a b)"
  using assms
proof (induction b arbitrary: a)
  case (Cons h b)
  then show ?case using subtract_step [of a h] masked_valid_list [of a] by (simp add: subtract_def)
qed (simp add: subtract_def)

lemma space_empty_iff: "space ps = {} \<longleftrightarrow> ps = []"
  using pAddr_in_addrs by (cases ps) auto

lemma covered_iff:
  "list_all IsValid a \<Longrightarrow> list_all IsValid b \<Longrightarrow> covered a b \<longleftrightarrow> space a \<subseteq> space b"
  unfolding covered_def using space_subtract [of a b] by (simp flip: space_empty_iff)

section \<open>Aggregation\<close>

lemma pAddr_least: "masked p \<Longrightarrow> a \<in> addrs p \<Longrightarrow> aval (pAddr p) \<le> aval a"
proof -
  assume p: "masked p" and a: "a \<in> addrs p"
  have "aval (pAddr p) = top_bits (pBits p) a * 2 ^ (BitLen a - pBits p)"
    using p a by (simp add: masked_def in_addrs BitLen_Is4)
  also have "\<dots> \<le> aval a" unfolding top_bits_def
    using div_mult_mod_eq [of "aval a" "2 ^ (BitLen a - pBits p)"]
      pos_mod_sign [of "2 ^ (BitLen a - pBits p)" "aval a"] zero_less_power [of "2::int" "BitLen a - pBits p"]
    by linarith
  finally show ?thesis .
qed

lemma addrs_convex:
  assumes "a \<in> addrs p" and "c \<in> addrs p" and "a \<le> b" and "b \<le> c"
  shows "b \<in> addrs p"
proof -
  have f: "Is4 a = Is4 c" "Is4 (pAddr p) = Is4 a" using assms by (auto simp: in_addrs)
  then have b: "Is4 b = Is4 a" "aval a \<le> aval b" "aval b \<le> aval c"
    using assms(3,4) by (auto simp: less_eq_addr_def BitLen_Is4 split: if_splits)
  have "top_bits (pBits p) a \<le> top_bits (pBits p) b" "top_bits (pBits p) b \<le> top_bits (pBits p) c"
    using b f by (auto simp: top_bits_def BitLen_Is4 intro!: zdiv_mono1)
  then show ?thesis using assms(1,2) b f by (auto simp: in_addrs)
qed

lemma pAddr_mono: "p \<le> q \<Longrightarrow> pAddr p \<le> pAddr q"
  by (auto simp: less_eq_Prefix_def)

lemma overlap_ordered:
  assumes "masked p" and "masked q" and "p \<le> q" and "addrs p \<inter> addrs q \<noteq> {}"
  shows "addrs q \<subseteq> addrs p" and "pBits p \<le> pBits q"
proof -
  obtain a where a: "a \<in> addrs p" "a \<in> addrs q" using assms(4) by auto
  have v: "IsValid p" "IsValid q" using assms masked_valid by auto
  show le: "pBits p \<le> pBits q"
  proof (rule ccontr)
    assume "\<not> pBits p \<le> pBits q"
    then have "addrs p \<subseteq> addrs q" and lt: "pBits q < pBits p" using nested [OF v(2,1) _ a(2,1)] by auto
    then have pq: "pAddr p \<in> addrs q" using pAddr_in_addrs by auto
    then have "aval (pAddr q) \<le> aval (pAddr p)" "Is4 (pAddr p) = Is4 (pAddr q)"
      using pAddr_least [OF assms(2) pq] by (auto simp: in_addrs)
    with assms(3) lt show False
      by (auto simp: less_eq_Prefix_def less_addr_def less_eq_addr_def BitLen_Is4)
  qed
  show "addrs q \<subseteq> addrs p" by (rule nested [OF v le a])
qed

lemma drop_contained_spec:
  assumes "sorted ps" and "list_all masked ps"
  shows "space (drop_contained ps) = space ps \<and> set (drop_contained ps) \<subseteq> set ps \<and>
    sorted (drop_contained ps) \<and> disjoint_list (drop_contained ps)"
  using assms
proof (induction ps rule: drop_contained.induct)
  case (1 p q ps)
  have m: "masked p" "masked q" "IsValid p" "IsValid q" using 1(4) masked_valid by auto
  have pq: "p \<le> q" using 1(3) by simp
  show ?case
  proof (cases "addrs p \<inter> addrs q = {}")
    case False
    from overlap_ordered [OF m(1,2) pq False] have sub: "addrs q \<subseteq> addrs p" "pBits p \<le> pBits q" .
    then have "Is4 (pAddr p) = Is4 (pAddr q)" "Contains p (pAddr q)"
      using contains_iff_subset [OF m(3,4)] by (auto simp: Contains_def)
    with sub 1(1,3,4) show ?thesis by auto
  next
    case True
    then have no: "\<not> (Is4 (pAddr p) = Is4 (pAddr q) \<and> pBits p \<le> pBits q \<and> Contains p (pAddr q))"
      using pAddr_in_addrs [of q] by (auto simp: addrs_def)
    have IH: "space (drop_contained (q # ps)) = space (q # ps)" "set (drop_contained (q # ps)) \<subseteq> set (q # ps)"
      "sorted (drop_contained (q # ps))" "disjoint_list (drop_contained (q # ps))"
      using 1(2) [OF no] 1(3,4) by auto
    have "addrs p \<inter> addrs r = {}" if r: "r \<in> set (q # ps)" for r
    proof (rule ccontr)
      assume o: "addrs p \<inter> addrs r \<noteq> {}"
      have rm: "masked r" and qr: "q \<le> r" using r 1(3,4) by (auto simp: list_all_iff)
      have "addrs r \<subseteq> addrs p" using overlap_ordered(1) [OF m(1) rm _ o] pq qr by simp
      then have "pAddr r \<in> addrs p" using pAddr_in_addrs by auto
      then have "pAddr q \<in> addrs p"
        using addrs_convex [OF pAddr_in_addrs _ pAddr_mono [OF pq] pAddr_mono [OF qr]] by blast
      then show False using True pAddr_in_addrs [of q] by auto
    qed
    then have "disjoint_list (p # drop_contained (q # ps))"
      using IH(2,4) by (auto simp: disjoint_list_def)
    moreover have "sorted (p # drop_contained (q # ps))" using IH(2,3) 1(3) by auto
    ultimately show ?thesis using no IH(1,2) by auto
  qed
qed (auto simp: disjoint_list_def)

lemma siblings_spec:
  assumes "masked p" and "masked q" and "siblings p q"
  shows "masked (Masked (PrefixFrom (pAddr p) (pBits p - 1)))"
    and "addrs (Masked (PrefixFrom (pAddr p) (pBits p - 1))) = addrs p \<union> addrs q"
    and "addrs p \<inter> addrs q = {}"
proof -
  let ?n = "pBits p - 1"
  let ?P = "PrefixFrom (pAddr p) ?n" let ?Q = "PrefixFrom (pAddr q) ?n"
  have s: "Is4 (pAddr p) = Is4 (pAddr q)" "pBits q = pBits p" "pBits p = Suc ?n" "Masked ?P = Masked ?Q" "p \<noteq> q"
    using assms(3) by (auto simp: siblings_def)
  have n: "Suc ?n \<le> BitLen (pAddr p)" using masked_valid [OF assms(1)] s(3) by (simp add: IsValid_def)
  then have v: "IsValid ?P" "IsValid ?Q" using s(1) by (simp_all add: IsValid_def BitLen_Is4)
  show "masked (Masked ?P)" by (rule masked_Masked [OF v(1)])
  have "top_bits ?n (pAddr p) = top_bits ?n (pAddr q)"
    using top_bits_Masked [OF v(1)] top_bits_Masked [OF v(2)] s(4) by simp
  moreover have ne: "top_bits (Suc ?n) (pAddr p) \<noteq> top_bits (Suc ?n) (pAddr q)"
  proof
    assume "top_bits (Suc ?n) (pAddr p) = top_bits (Suc ?n) (pAddr q)"
    then have "aval (pAddr p) = aval (pAddr q)" using assms(1,2) s(1-3) by (simp add: masked_def BitLen_Is4)
    then show False using s(1,2,5) by (auto intro: Prefix.expand addr_eqI)
  qed
  moreover define t where "t = top_bits ?n (pAddr p)"
  ultimately have t: "{top_bits (Suc ?n) (pAddr p), top_bits (Suc ?n) (pAddr q)} = {2 * t, 2 * t + 1}"
    using top_bits_Suc [of "pAddr p" "pAddr p" ?n] top_bits_Suc [of "pAddr q" "pAddr p" ?n] n s(1)
    by (auto simp: BitLen_Is4)
  have "a \<in> addrs ?P \<longleftrightarrow> a \<in> addrs p \<or> a \<in> addrs q" for a
  proof (cases "Is4 a = Is4 (pAddr p)")
    case True
    then have "a \<in> addrs ?P \<longleftrightarrow> top_bits (Suc ?n) a \<in> {2 * t, 2 * t + 1}"
      using top_bits_Suc [of a "pAddr p" ?n] n by (simp add: in_addrs t_def BitLen_Is4)
    moreover have "Suc (pBits p - Suc 0) = pBits p" using s(3) by simp
    ultimately show ?thesis unfolding t [symmetric] using True s(1,2) by (simp add: in_addrs)
  qed (use s(1) in \<open>auto simp: in_addrs\<close>)
  then show "addrs (Masked ?P) = addrs p \<union> addrs q" unfolding addrs_Masked [OF v(1)] by auto
  show "addrs p \<inter> addrs q = {}" using ne s(1-3) by (auto simp: in_addrs)
qed

lemma merge_spec:
  assumes "list_all masked ps"
  shows "space (merge_siblings ps) = space ps \<and> list_all masked (merge_siblings ps)"
  using assms
proof (induction ps rule: merge_siblings.induct)
  case (1 p q ps)
  then show ?case using siblings_spec [of p q] by auto
qed simp_all

text \<open>What the loop stops at: sorted, disjoint and without two halves of one prefix.\<close>

definition irreducible :: "Prefix list \<Rightarrow> bool" where
  "irreducible ps \<longleftrightarrow> list_all masked ps \<and> sorted ps \<and> disjoint_list ps \<and>
     (\<forall>p \<in> set ps. \<forall>q \<in> set ps. \<not> siblings p q)"

lemma disjoint_distinct: "disjoint_list ps \<Longrightarrow> distinct ps"
  unfolding disjoint_list_def using pAddr_in_addrs by (induction ps) auto

lemma disjointD: "disjoint_list ps \<Longrightarrow> p \<in> set ps \<Longrightarrow> q \<in> set ps \<Longrightarrow> p \<noteq> q \<Longrightarrow> addrs p \<inter> addrs q = {}"
  unfolding disjoint_list_def by (induction ps) auto

lemma siblings_sym: "siblings p q \<longleftrightarrow> siblings q p"
  by (auto simp: siblings_def)

lemma siblings_adjacent:
  assumes "sorted (p # q # ps)" and "disjoint_list (p # q # ps)" and "list_all masked (p # q # ps)"
    and "r \<in> set (q # ps)" and "siblings p r"
  shows "r = q"
proof (rule ccontr)
  assume ne: "r \<noteq> q"
  have m: "masked p" "masked q" "masked r" using assms(3,4) by (auto simp: list_all_iff)
  have le: "p \<le> q" "q \<le> r" using assms(1,4) ne by auto
  have dj: "addrs p \<inter> addrs q = {}" "addrs q \<inter> addrs r = {}"
    using disjointD [OF assms(2)] assms(4) ne pAddr_in_addrs assms(2) disjoint_distinct [OF assms(2)] by auto
  let ?P = "Masked (PrefixFrom (pAddr p) (pBits p - 1))"
  note P = siblings_spec [OF m(1,3) assms(5)]
  have b: "pBits r = pBits p" "0 < pBits p" using assms(5) by (auto simp: siblings_def)
  have "pAddr q \<in> addrs ?P"
    using addrs_convex [OF _ _ pAddr_mono [OF le(1)] pAddr_mono [OF le(2)], of ?P] P(2) pAddr_in_addrs by auto
  then consider "pAddr q \<in> addrs p" | "pAddr q \<in> addrs r" using P(2) by auto
  then show False using dj pAddr_in_addrs [of q] by cases auto
qed

lemma no_siblings:
  assumes "sorted ps" and "disjoint_list ps" and "list_all masked ps" and "merge_siblings ps = ps"
  shows "\<forall>p \<in> set ps. \<forall>q \<in> set ps. \<not> siblings p q"
  using assms
proof (induction ps rule: merge_siblings.induct)
  case (1 p q ps)
  have ns: "\<not> siblings p q"
  proof
    assume "siblings p q"
    then have "length (merge_siblings (p # q # ps)) < length (p # q # ps)" using length_merge [of ps] by simp
    then show False using 1(6) by simp
  qed
  have IH: "\<forall>x \<in> set (q # ps). \<forall>y \<in> set (q # ps). \<not> siblings x y"
    using 1(2) [OF ns] 1(3-6) ns by (auto simp: disjoint_list_def)
  have pr: "\<not> siblings p r" if "r \<in> set (q # ps)" for r
    using siblings_adjacent [OF 1(3-5) that] ns by auto
  have pp: "\<not> siblings p p" by (simp add: siblings_def)
  have rp: "\<not> siblings r p" if "r \<in> set (q # ps)" for r using pr [OF that] siblings_sym [of r p] by simp
  have "set (p # q # ps) = insert p (set (q # ps))" by simp
  then show ?case using IH pr rp pp by (metis insertE)
qed (auto simp: siblings_def)

lemma aggregate_loop_spec:
  "list_all masked ps \<Longrightarrow> space (aggregate_loop ps) = space ps \<and> irreducible (aggregate_loop ps)"
proof (induction ps rule: aggregate_loop.induct)
  case (1 ps)
  let ?d = "drop_contained (sort ps)"
  have s: "space ?d = space ps" "sorted ?d" "disjoint_list ?d" "list_all masked ?d"
    using drop_contained_spec [of "sort ps"] 1(2) space_set [of "sort ps" ps] by (auto simp: list_all_iff)
  note m = merge_spec [OF s(4)]
  show ?case
  proof (cases "length (merge_siblings ?d) = length ?d")
    case True
    then have e: "merge_siblings ?d = ?d" by (rule merge_same_length)
    then show ?thesis using s no_siblings [OF s(2-4) e]
      by (subst (1 2) aggregate_loop.simps) (simp add: Let_def irreducible_def)
  next
    case False
    then show ?thesis using 1(1) [OF refl refl] m s(1) by (subst (1 2) aggregate_loop.simps) (simp add: Let_def)
  qed
qed

lemma aggregate_spec:
  "list_all IsValid ps \<Longrightarrow> space (aggregate ps) = space ps \<and> irreducible (aggregate ps)"
proof -
  assume v: "list_all IsValid ps"
  then have "list_all masked (map Masked ps)" by (auto simp: list_all_iff masked_Masked)
  moreover have "space (map Masked ps) = space ps" using v by (induction ps) simp_all
  ultimately show ?thesis using aggregate_loop_spec [of "map Masked ps"]
    by (auto simp: aggregate_def irreducible_def disjoint_list_def)
qed

lemmas space_aggregate = aggregate_spec [THEN conjunct1]

lemma masked_aggregate: "list_all IsValid ps \<Longrightarrow> list_all masked (aggregate ps)"
  using aggregate_spec by (auto simp: irreducible_def)

lemma valid_aggregate: "list_all IsValid ps \<Longrightarrow> list_all IsValid (aggregate ps)"
  using masked_aggregate masked_valid_list by blast

section \<open>The normal form\<close>

text \<open>A prefix inside an irreducible list's space is inside one of its members.\<close>

lemma irreducible_cover:
  assumes "irreducible ps" and "masked q" and "addrs q \<subseteq> space ps"
  shows "\<exists>p \<in> set ps. addrs q \<subseteq> addrs p"
  using assms(2,3)
proof (induction "BitLen (pAddr q) - pBits q" arbitrary: q)
  case 0
  then have "pBits q = BitLen (pAddr q)" using masked_valid [OF 0(2)] by (simp add: IsValid_def)
  then show ?case using addrs_host [of q] 0(3) by (auto simp: space_def)
next
  case (Suc k)
  have n: "pBits q < BitLen (pAddr q)" using Suc(2) by simp
  obtain lo hi where h: "halves q = (lo, hi)" by fastforce
  note hb = halves_bits [OF Suc(3) n h] and ha = halves_addrs [OF Suc(3) n h]
  have k: "k = BitLen (pAddr lo) - pBits lo" "k = BitLen (pAddr hi) - pBits hi"
    using Suc(2) hb by (simp_all add: BitLen_Is4)
  obtain p1 where p1: "p1 \<in> set ps" "addrs lo \<subseteq> addrs p1" using Suc(1) [OF k(1) hb(5)] ha(1) Suc(4) by blast
  obtain p2 where p2: "p2 \<in> set ps" "addrs hi \<subseteq> addrs p2" using Suc(1) [OF k(2) hb(6)] ha(1) Suc(4) by blast
  have m: "masked p1" "masked p2" using assms(1) p1 p2 by (auto simp: irreducible_def list_all_iff)
  have sub: "addrs q \<subseteq> addrs p \<or> p = h" if "masked p" "masked h" "addrs h \<subseteq> addrs p" "pBits h = Suc (pBits q)"
    "addrs h \<subseteq> addrs q" for p h
  proof (cases "pBits p \<le> pBits q")
    case True
    have "pAddr h \<in> addrs p" "pAddr h \<in> addrs q" using that pAddr_in_addrs by auto
    then show ?thesis using nested [OF _ _ True] that masked_valid Suc(3) by blast
  next
    case False
    have "pBits p \<le> pBits h" using subset_bits that masked_valid by blast
    then have e: "pBits p = pBits h" using False that(4) by simp
    have "addrs p \<subseteq> addrs h" using nested [of h p "pAddr h"] e that masked_valid pAddr_in_addrs by auto
    then show ?thesis using addrs_inj that by blast
  qed
  show ?case
  proof (rule ccontr)
    assume no: "\<not> (\<exists>p \<in> set ps. addrs q \<subseteq> addrs p)"
    then have "p1 = lo" "p2 = hi"
      using sub [OF m(1) hb(5) p1(2) hb(3)] sub [OF m(2) hb(6) p2(2) hb(4)] ha(1) p1(1) p2(1) by auto
    then have "siblings lo hi \<Longrightarrow> False" using assms(1) p1(1) p2(1) by (auto simp: irreducible_def)
    moreover have "siblings lo hi"
    proof -
      have "lo \<noteq> hi" using hb by auto
      moreover have "top_bits (pBits q) (pAddr lo) = top_bits (pBits q) (pAddr q)"
        "top_bits (pBits q) (pAddr hi) = top_bits (pBits q) (pAddr q)"
        using top_bits_Suc [of _ "pAddr q" "pBits q"] hb n by (auto simp: BitLen_Is4)
      ultimately show ?thesis using hb with_val_cong [of "pAddr lo" "pAddr hi"]
        by (auto simp: siblings_def Masked_def BitLen_Is4)
    qed
    ultimately show False by blast
  qed
qed

lemma irreducible_maximal:
  assumes "irreducible ps"
  shows "p \<in> set ps \<longleftrightarrow> masked p \<and> addrs p \<subseteq> space ps \<and>
    (\<forall>q. masked q \<and> addrs p \<subseteq> addrs q \<and> addrs q \<subseteq> space ps \<longrightarrow> q = p)"
proof
  assume p: "p \<in> set ps"
  have m: "masked p" and d: "disjoint_list ps" using assms p by (auto simp: irreducible_def list_all_iff)
  have "q = p" if q: "masked q" "addrs p \<subseteq> addrs q" "addrs q \<subseteq> space ps" for q
  proof -
    obtain p' where p': "p' \<in> set ps" "addrs q \<subseteq> addrs p'" using irreducible_cover [OF assms q(1,3)] by auto
    then have "p' = p" using disjointD [OF d p'(1) p] q(2) pAddr_in_addrs [of p] by blast
    then show ?thesis using addrs_inj [OF q(1) m] q(2) p'(2) by auto
  qed
  with m p show "masked p \<and> addrs p \<subseteq> space ps \<and>
      (\<forall>q. masked q \<and> addrs p \<subseteq> addrs q \<and> addrs q \<subseteq> space ps \<longrightarrow> q = p)"
    by (auto simp: space_def)
next
  assume p: "masked p \<and> addrs p \<subseteq> space ps \<and>
      (\<forall>q. masked q \<and> addrs p \<subseteq> addrs q \<and> addrs q \<subseteq> space ps \<longrightarrow> q = p)"
  then obtain p' where p': "p' \<in> set ps" "addrs p \<subseteq> addrs p'" using irreducible_cover [OF assms] by blast
  then have "masked p'" "addrs p' \<subseteq> space ps" using assms by (auto simp: irreducible_def list_all_iff space_def)
  with p p' show "p \<in> set ps" by blast
qed

lemma irreducible_unique:
  assumes "irreducible ps" and "irreducible qs" and "space ps = space qs"
  shows "ps = qs"
proof -
  have "set ps = set qs" using irreducible_maximal [OF assms(1)] irreducible_maximal [OF assms(2)] assms(3) by auto
  then show ?thesis using assms(1,2) disjoint_distinct
    by (intro sorted_distinct_set_unique) (auto simp: irreducible_def)
qed

lemma irreducible_shortest:
  assumes "irreducible ps" and "list_all IsValid qs" and "space ps = space qs"
  shows "length ps \<le> length qs"
proof -
  have d: "disjoint_list ps" using assms(1) by (simp add: irreducible_def)
  have "\<exists>q \<in> set qs. addrs q \<subseteq> addrs p" if p: "p \<in> set ps" for p
  proof -
    have "pAddr p \<in> space qs" using assms(3) p pAddr_in_addrs [of p] by (auto simp: space_def)
    then obtain q where q: "q \<in> set qs" "pAddr p \<in> addrs q" by (auto simp: space_def)
    have v: "IsValid q" using q assms(2) by (simp add: list_all_iff)
    have "addrs (Masked q) \<subseteq> space ps" using q(1) v assms(3) by (auto simp: space_def)
    then obtain p' where p': "p' \<in> set ps" "addrs q \<subseteq> addrs p'"
      using irreducible_cover [OF assms(1) masked_Masked [OF v]] v by auto
    then have "p' = p" using disjointD [OF d p'(1) p] q(2) pAddr_in_addrs [of p] by blast
    with p' q show ?thesis by auto
  qed
  then obtain f where f: "f p \<in> set qs" "addrs (f p) \<subseteq> addrs p" if "p \<in> set ps" for p by metis
  have "inj_on f (set ps)"
  proof (rule inj_onI)
    fix x y assume xy: "x \<in> set ps" "y \<in> set ps" "f x = f y"
    then have "pAddr (f x) \<in> addrs x \<inter> addrs y" using f(2) pAddr_in_addrs [of "f x"] by (metis IntI subsetD)
    then show "x = y" using disjointD [OF d xy(1,2)] by blast
  qed
  then have "card (set ps) \<le> card (set qs)" using f(1) by (intro card_inj_on_le) auto
  also have "\<dots> \<le> length qs" by (rule card_length)
  finally show ?thesis using disjoint_distinct [OF d] by (simp add: distinct_card)
qed

lemma intersect_spec:
  assumes "list_all IsValid a" and "list_all IsValid b"
  shows "space (intersect a b) = space a \<inter> space b \<and> list_all masked (intersect a b)"
proof -
  let ?pick = "\<lambda>x y. if Is4 (pAddr x) \<noteq> Is4 (pAddr y) \<or> \<not> Overlaps x y then []
     else if pBits x \<ge> pBits y then [x] else [y]"
  have pick: "space (?pick x y) = addrs x \<inter> addrs y \<and> list_all IsValid (?pick x y)"
    if v: "IsValid x" "IsValid y" for x y
  proof (cases "Overlaps x y")
    case True
    then obtain c where c: "c \<in> addrs x" "c \<in> addrs y" using Overlaps_iff [OF v] by auto
    have f: "Is4 (pAddr x) = Is4 (pAddr y)" using True by (simp add: Overlaps_def)
    show ?thesis
    proof (cases "pBits y \<le> pBits x")
      case le: True
      then have "addrs x \<subseteq> addrs y" using nested [OF v(2,1) _ c(2,1)] by simp
      with True f le v show ?thesis by auto
    next
      case False
      then have "addrs y \<subseteq> addrs x" using nested [OF v _ c] by simp
      with True f False v show ?thesis by auto
    qed
  next
    case False
    then show ?thesis using Overlaps_iff [OF v] by auto
  qed
  have inner: "space (concat (map (?pick x) b)) = addrs x \<inter> space b \<and> list_all IsValid (concat (map (?pick x) b))"
    if vx: "IsValid x" for x
    using assms(2)
  proof (induction b)
    case (Cons y b)
    then have "IsValid y" "list_all IsValid b" by simp_all
    with pick [OF vx] Cons.IH show ?case by (simp only: list.map concat.simps space_simps list_all_append) blast
  qed simp
  have "space (concat (map (\<lambda>x. concat (map (?pick x) b)) a)) = space a \<inter> space b \<and>
      list_all IsValid (concat (map (\<lambda>x. concat (map (?pick x) b)) a))"
    using assms(1)
  proof (induction a)
    case (Cons x a)
    then have "IsValid x" "list_all IsValid a" by simp_all
    with inner Cons.IH show ?case by (simp only: list.map concat.simps space_simps list_all_append) blast
  qed simp
  then show ?thesis using space_aggregate masked_aggregate unfolding intersect_def by auto
qed

section \<open>The property\<close>

text \<open>C37: \<open>aggregate\<close> is a normal form for sets of addresses: two lists of prefixes aggregate to the same
  list exactly when they name the same addresses, the result names them too, and no list of prefixes
  that names them is shorter.\<close>

theorem aggregate_is_shortest_normal_form:
  assumes "list_all IsValid ps" and "list_all IsValid qs"
  shows "(aggregate ps = aggregate qs) = (space ps = space qs) \<and> space (aggregate ps) = space ps \<and>
    (if space ps = space qs then length (aggregate ps) \<le> length qs else True)"
proof -
  note p = aggregate_spec [OF assms(1)] and q = aggregate_spec [OF assms(2)]
  have "length (aggregate ps) \<le> length qs" if "space ps = space qs"
    by (rule irreducible_shortest [OF _ assms(2)]) (use p that in auto)
  moreover have "aggregate ps = aggregate qs" if "space ps = space qs"
    by (rule irreducible_unique) (use p q that in auto)
  ultimately show ?thesis using p q by (metis (no_types))
qed

theorem aggregate_is_shortest_normal_form_witness:
  "(aggregate [PrefixFrom (V4 0x0A000000) 9, PrefixFrom (V4 0x0A800000) 9] = aggregate [PrefixFrom (V4 0x0A000000) 8]) =
     (space [PrefixFrom (V4 0x0A000000) 9, PrefixFrom (V4 0x0A800000) 9] = space [PrefixFrom (V4 0x0A000000) 8]) \<and>
   aggregate [PrefixFrom (V4 0x0A000000) 9, PrefixFrom (V4 0x0A800000) 9] = [PrefixFrom (V4 0x0A000000) 8]"
proof -
  have "list_all IsValid [PrefixFrom (V4 0x0A000000) 9, PrefixFrom (V4 0x0A800000) 9]" "list_all IsValid [PrefixFrom (V4 0x0A000000) 8]"
    by (simp_all add: IsValid_def)
  from aggregate_is_shortest_normal_form [OF this]
  have "(aggregate [PrefixFrom (V4 0x0A000000) 9, PrefixFrom (V4 0x0A800000) 9] = aggregate [PrefixFrom (V4 0x0A000000) 8]) =
     (space [PrefixFrom (V4 0x0A000000) 9, PrefixFrom (V4 0x0A800000) 9] = space [PrefixFrom (V4 0x0A000000) 8])" ..
  moreover have "aggregate [PrefixFrom (V4 0x0A000000) 9, PrefixFrom (V4 0x0A800000) 9] = [PrefixFrom (V4 0x0A000000) 8]"
    by code_simp
  ultimately show ?thesis ..
qed

end
