(* ===== verification/FwPolicy.thy ===== *)
theory FwPolicy
  imports FwRules PrefixSet
begin

text \<open>
  pkg/fwpolicy/fwpolicy.go: whether one firewall is contained in another (\<open>Permits\<close>), the rule set a
  level is enforced as under the levels above it (\<open>Effective\<close>), and the narrowing of a level that no
  longer fits (\<open>Constrain\<close>). A reason or note is a datatype of what its sentence says. The
  properties relate all of it to the filters pkg/netfilter compiles.
\<close>

section \<open>Address sets of a rule set\<close>

definition prefixes :: "cidr_text list \<Rightarrow> Prefix list" where
  "prefixes texts = List.map_filter (\<lambda>t. case ParseFirewallPrefix t of Inl e \<Rightarrow> None | Inr p \<Rightarrow> Some p) texts"

definition endpoints :: "resolver_text list \<Rightarrow> AddrPort list" where
  "endpoints texts = List.map_filter ParseResolver texts"

definition formatPrefixes :: "Prefix list \<Rightarrow> cidr_text list" where
  "formatPrefixes ps = map cidr_string (sort ps)"

definition hostPrefixes :: "addr list \<Rightarrow> Prefix list" where
  "hostPrefixes ss = map service_prefix ss"

definition everything :: "Prefix list" where
  "everything = [PrefixFrom (ip4 0 0 0 0) 0, PrefixFrom (ip6 [0, 0, 0, 0, 0, 0, 0, 0]) 0]"

definition mappedV4 :: "Prefix list" where
  "mappedV4 = [PrefixFrom (ip6 [0, 0, 0, 0, 0, 0xffff, 0, 0]) 96]"

definition publicSpace :: "Prefix list" where
  "publicSpace = aggregate (subtract (subtract everything mappedV4) (map bl_Prefix blockSet))"

definition isPublic :: "Prefix \<Rightarrow> bool" where
  "isPublic p \<longleftrightarrow> covered [p] publicSpace"

definition rawAllowSet :: "FirewallRules \<Rightarrow> Prefix list" where
  "rawAllowSet r = aggregate (prefixes (fw_AllowCIDRs r) @ (if fw_AllowPublicInternet r then publicSpace else []))"

definition carvedOf :: "FirewallRules \<Rightarrow> Prefix list" where
  "carvedOf r = hostPrefixes (Carved (prefixes (fw_AllowCIDRs r)) [])"

definition allowSet :: "FirewallRules \<Rightarrow> Prefix list" where
  "allowSet r = aggregate (subtract
     (aggregate (prefixes (fw_AllowCIDRs r) @ (if fw_AllowPublicInternet r then publicSpace else []))) (carvedOf r))"

section \<open>Operations\<close>

datatype policy_error = ChildError firewall_error | ParentError firewall_error | InheritedTooMany nat

definition Effective :: "FirewallRules option \<Rightarrow> FirewallRules \<Rightarrow> policy_error + FirewallRules" where
  "Effective parent child =
     (case Normalize_rules child of Inl e \<Rightarrow> Inl (ChildError e) | Inr c \<Rightarrow>
      (case parent of None \<Rightarrow> Inr c | Some par \<Rightarrow>
       (case Normalize_rules par of Inl e \<Rightarrow> Inl (ParentError e) | Inr p \<Rightarrow>
         (let c = c\<lparr>fw_DropDenied := fw_DropDenied c \<or> fw_DropDenied p\<rparr>
          in if fw_DenyCIDRs p = [] then Inr c
             else let denies = aggregate (prefixes (fw_DenyCIDRs c) @ prefixes (fw_DenyCIDRs p))
               in if length denies > MaxFirewallCIDRs then Inl (InheritedTooMany (length denies))
                  else map_sum ChildError id (Normalize_rules (c\<lparr>fw_DenyCIDRs := formatPrefixes denies\<rparr>))))))"

datatype exceed_reason = GoverningUnreadable firewall_error | RulesUnreadable firewall_error
  | EveryPortAllowed | PortNotAllowed int | PublicNotAllowed
  | MetadataNotOpened Prefix | NonPublicNotNamed Prefix block_reason | OutsideGoverning Prefix
  | BeyondGoverning Prefix "Prefix list" | ResolverNotNamed AddrPort

definition names_metadata :: "Prefix \<Rightarrow> bool" where
  "names_metadata p \<longleftrightarrow> Lookup (pAddr p) \<noteq> None \<and> pBits p = BitLen (pAddr p)"

definition cidr_reason :: "FirewallRules \<Rightarrow> Prefix list \<Rightarrow> Prefix list \<Rightarrow> Prefix \<Rightarrow> exceed_reason option" where
  "cidr_reason p cDeny pTCP cp =
     (let rest = subtract (subtract (subtract (subtract [cp] mappedV4) cDeny) (hostPrefixes (Within cp))) pTCP
      in case rest of
           [] \<Rightarrow> None
         | r # _ \<Rightarrow>
             if names_metadata cp then Some (MetadataNotOpened cp)
             else case (BlockReasonForPrefix cp, fw_AllowPublicInternet p \<and> \<not> isPublic r) of
                    (Some why, True) \<Rightarrow> Some (NonPublicNotNamed cp why)
                  | _ \<Rightarrow> if rest = [cp] then Some (OutsideGoverning cp) else Some (BeyondGoverning cp rest))"

definition port_reasons :: "FirewallRules \<Rightarrow> FirewallRules \<Rightarrow> exceed_reason list" where
  "port_reasons p c =
     (if fw_AllowPorts p = [] then []
      else if fw_AllowPorts c = [] then [EveryPortAllowed]
      else map PortNotAllowed (filter (\<lambda>port. port \<notin> set (fw_AllowPorts p)) (fw_AllowPorts c)))"

definition resolver_reasons :: "FirewallRules \<Rightarrow> FirewallRules \<Rightarrow> Prefix list \<Rightarrow> exceed_reason list" where
  "resolver_reasons p c cDeny = List.map_filter (\<lambda>ap.
     if covered [hostPrefix (apAddr ap)] cDeny \<or> endpoint_string ap \<in> set (fw_Resolvers p) then None
     else Some (ResolverNotNamed ap)) (endpoints (fw_Resolvers c))"

definition Permits :: "FirewallRules option \<Rightarrow> FirewallRules \<Rightarrow> exceed_reason list" where
  "Permits parent child =
     (case parent of None \<Rightarrow> [] | Some par \<Rightarrow>
      (case Normalize_rules par of Inl e \<Rightarrow> [GoverningUnreadable e] | Inr p \<Rightarrow>
       (case Normalize_rules child of Inl e \<Rightarrow> [RulesUnreadable e] | Inr c \<Rightarrow>
         (let pDeny = prefixes (fw_DenyCIDRs p);
              cDeny = prefixes (fw_DenyCIDRs c) @ pDeny;
              pTCP = subtract (subtract (allowSet p) mappedV4) pDeny;
              cTCP = subtract (subtract (allowSet c) mappedV4) cDeny
          in (if cTCP = [] then []
              else port_reasons p c @
                (if fw_AllowPublicInternet c \<and> \<not> fw_AllowPublicInternet p \<and>
                    subtract (subtract publicSpace cDeny) pTCP \<noteq> [] then [PublicNotAllowed] else []) @
                List.map_filter (cidr_reason p cDeny pTCP) (prefixes (fw_AllowCIDRs c))) @
             resolver_reasons p c cDeny))))"

section \<open>Projection to a filter\<close>

definition Input_of :: "FirewallRules \<Rightarrow> firewall_error + Input" where
  "Input_of r = map_sum id (\<lambda>n.
     \<lparr>in_AllowCIDRs = prefixes (fw_AllowCIDRs n), in_AllowPorts = map word_of_int (fw_AllowPorts n), in_Brokers = [],
      in_Resolvers = endpoints (fw_Resolvers n), in_AllowPublicInternet = fw_AllowPublicInternet n,
      in_AllowAllPorts = ((fw_AllowPublicInternet n \<or> fw_AllowCIDRs n \<noteq> []) \<and> fw_AllowPorts n = []),
      in_DenyCIDRs = prefixes (fw_DenyCIDRs n), in_HostPatterns = [], in_DropDenied = fw_DropDenied n\<rparr>)
     (Normalize_rules r)"

section \<open>Normalised rule sets\<close>

lemma prefixes_strings: "list_all (normal_prefix b) ps \<Longrightarrow> prefixes (map cidr_string ps) = ps"
  by (induction ps) (auto simp: prefixes_def List.map_filter_def normal_prefix_def parse_string)

lemma endpoints_strings: "list_all normal_endpoint aps \<Longrightarrow> endpoints (map endpoint_string aps) = aps"
  by (induction aps) (auto simp: endpoints_def List.map_filter_def ParseResolver_string)

lemma endpoint_string_inj: "endpoint_string x = endpoint_string y \<longleftrightarrow> x = y"
  by (cases x; cases y) (simp add: endpoint_string_def)

text \<open>What of a normalised rule set the proofs use.\<close>

lemma normal_facts:
  assumes "normal r"
  shows "canonical_list (prefixes (fw_AllowCIDRs r))" "canonical_list (prefixes (fw_DenyCIDRs r))"
    "list_all (\<lambda>p. pBits p \<noteq> 0) (prefixes (fw_AllowCIDRs r))"
    "length (prefixes (fw_AllowCIDRs r)) \<le> 256" "length (prefixes (fw_DenyCIDRs r)) \<le> 256"
    "fw_AllowCIDRs r = map cidr_string (prefixes (fw_AllowCIDRs r))"
    "fw_DenyCIDRs r = map cidr_string (prefixes (fw_DenyCIDRs r))"
    "fw_Resolvers r = map endpoint_string (endpoints (fw_Resolvers r))"
    "list_all normal_endpoint (endpoints (fw_Resolvers r))" "length (endpoints (fw_Resolvers r)) \<le> 16"
proof -
  obtain allow deny resolvers where n: "fw_AllowCIDRs r = map cidr_string allow" "normal_list False allow"
      "fw_DenyCIDRs r = map cidr_string deny" "normal_list True deny"
      "fw_Resolvers r = map endpoint_string resolvers" "list_all normal_endpoint resolvers"
      "length resolvers \<le> MaxFirewallResolvers" using assms by (auto simp: normal_def)
  have "prefixes (fw_AllowCIDRs r) = allow" "prefixes (fw_DenyCIDRs r) = deny" "endpoints (fw_Resolvers r) = resolvers"
    using n prefixes_strings endpoints_strings by (auto simp: normal_list_def)
  with n show "canonical_list (prefixes (fw_AllowCIDRs r))" "canonical_list (prefixes (fw_DenyCIDRs r))"
    "list_all (\<lambda>p. pBits p \<noteq> 0) (prefixes (fw_AllowCIDRs r))"
    "length (prefixes (fw_AllowCIDRs r)) \<le> 256" "length (prefixes (fw_DenyCIDRs r)) \<le> 256"
    "fw_AllowCIDRs r = map cidr_string (prefixes (fw_AllowCIDRs r))"
    "fw_DenyCIDRs r = map cidr_string (prefixes (fw_DenyCIDRs r))"
    "fw_Resolvers r = map endpoint_string (endpoints (fw_Resolvers r))"
    "list_all normal_endpoint (endpoints (fw_Resolvers r))" "length (endpoints (fw_Resolvers r)) \<le> 16"
    by (auto simp: canonical_list_def normal_list_def normal_prefix_def list_all_iff MaxFirewallCIDRs_def
        MaxFirewallResolvers_def)
qed

section \<open>The sets of addresses\<close>

lemma top_bits_0 [simp]: "top_bits 0 a = 0"
  using top_bits_nonneg [of 0 a] top_bits_less [of 0 a] by simp

lemma everything_space: "space everything = UNIV"
proof -
  have "a \<in> space everything" for a
    by (cases a) (simp_all add: everything_def in_addrs ip4_def ip6_def)
  then show ?thesis by auto
qed

lemma everything_valid: "list_all IsValid everything" "list_all IsValid mappedV4"
  by (simp_all add: everything_def mappedV4_def IsValid_def ip4_def ip6_def)

lemma mapped_space: "space mappedV4 = {a. Is4In6 a}"
proof -
  have "Is4 (ip6 gs) = False" "aval (ip6 [0, 0, 0, 0, 0, 0xffff, 0, 0]) = 0xffff00000000" for gs
    by (simp_all add: ip6_def)
  then show ?thesis
    by (auto simp: mappedV4_def in_addrs Is4In6_def top_bits_def BitLen_Is4 split: if_splits)
qed

lemma publicSpace_spec:
  "space publicSpace = {a. \<not> Is4In6 a \<and> a \<notin> block_space \<and> a \<notin> translation_space}" "list_all IsValid publicSpace"
proof -
  have v: "list_all IsValid (subtract everything mappedV4)" by (rule valid_subtract [OF everything_valid])
  have w: "list_all IsValid (subtract (subtract everything mappedV4) (map bl_Prefix blockSet))"
    by (rule valid_subtract [OF v block_prefixes_valid])
  show "list_all IsValid publicSpace" unfolding publicSpace_def by (rule valid_aggregate [OF w])
  show "space publicSpace = {a. \<not> Is4In6 a \<and> a \<notin> block_space \<and> a \<notin> translation_space}"
    unfolding publicSpace_def space_aggregate [OF w] space_subtract [OF v block_prefixes_valid]
      space_subtract [OF everything_valid] block_prefixes_space everything_space mapped_space by auto
qed

lemma hostPrefixes_spec: "space (hostPrefixes ss) = set ss" "list_all IsValid (hostPrefixes ss)"
  by (auto simp: hostPrefixes_def space_def list_all_iff)

text \<open>What a rule set's TCP allows name.\<close>

definition named_space :: "FirewallRules \<Rightarrow> addr set" where
  "named_space r = space (prefixes (fw_AllowCIDRs r)) \<union> (if fw_AllowPublicInternet r then space publicSpace else {})"

definition unnamed_services :: "FirewallRules \<Rightarrow> addr set" where
  "unnamed_services r = {s \<in> set Services. s \<in> space (prefixes (fw_AllowCIDRs r)) \<and>
     service_prefix s \<notin> set (prefixes (fw_AllowCIDRs r))}"

lemma canonical_Nil [simp]: "canonical_list []"
  by (simp add: canonical_list_def)

lemma carvedOf_spec: "normal r \<Longrightarrow> space (carvedOf r) = unnamed_services r"
  using Carved_canonical [of "prefixes (fw_AllowCIDRs r)" "[]"] normal_facts(1) [of r]
  by (auto simp: carvedOf_def hostPrefixes_spec unnamed_services_def)

lemma raw_list_valid:
  "normal r \<Longrightarrow> list_all IsValid (prefixes (fw_AllowCIDRs r) @ (if fw_AllowPublicInternet r then publicSpace else []))"
  using canonical_valid [OF normal_facts(1)] publicSpace_spec(2) by simp

lemma rawAllowSet_spec:
  "normal r \<Longrightarrow> space (rawAllowSet r) = named_space r \<and> list_all IsValid (rawAllowSet r)"
  using space_aggregate [OF raw_list_valid] valid_aggregate [OF raw_list_valid]
  by (simp add: rawAllowSet_def named_space_def)

lemma allowSet_spec:
  assumes "normal r"
  shows "space (allowSet r) = named_space r - unnamed_services r" "list_all IsValid (allowSet r)"
proof -
  let ?raw = "aggregate (prefixes (fw_AllowCIDRs r) @ (if fw_AllowPublicInternet r then publicSpace else []))"
  have v: "list_all IsValid ?raw" "list_all IsValid (carvedOf r)"
    using valid_aggregate [OF raw_list_valid [OF assms]] by (simp_all add: carvedOf_def hostPrefixes_spec)
  have s: "space ?raw = named_space r"
    using space_aggregate [OF raw_list_valid [OF assms]] by (simp add: named_space_def)
  note sub = valid_subtract [OF v]
  show "list_all IsValid (allowSet r)" unfolding allowSet_def by (rule valid_aggregate [OF sub])
  show "space (allowSet r) = named_space r - unnamed_services r"
    unfolding allowSet_def space_aggregate [OF sub] space_subtract [OF v] s carvedOf_spec [OF assms] ..
qed

text \<open>What it reaches over TCP under some denials.\<close>

lemma tcp_spec:
  assumes "normal r" and "list_all IsValid ds"
  shows "space (subtract (subtract (allowSet r) mappedV4) ds) =
      {a \<in> named_space r. a \<notin> unnamed_services r \<and> \<not> Is4In6 a \<and> a \<notin> space ds}"
    "list_all IsValid (subtract (subtract (allowSet r) mappedV4) ds)"
proof -
  have v: "list_all IsValid (subtract (allowSet r) mappedV4)"
    by (rule valid_subtract [OF allowSet_spec(2) [OF assms(1)] everything_valid(2)])
  show "list_all IsValid (subtract (subtract (allowSet r) mappedV4) ds)" by (rule valid_subtract [OF v assms(2)])
  show "space (subtract (subtract (allowSet r) mappedV4) ds) =
      {a \<in> named_space r. a \<notin> unnamed_services r \<and> \<not> Is4In6 a \<and> a \<notin> space ds}"
    unfolding space_subtract [OF v assms(2)] space_subtract [OF allowSet_spec(2) [OF assms(1)] everything_valid(2)]
      allowSet_spec(1) [OF assms(1)] mapped_space by auto
qed

section \<open>What the compiled filter opens\<close>

text \<open>What a normalised rule set opens of the unmapped addresses, in its own terms.\<close>

definition rules_open :: "FirewallRules \<Rightarrow> addr \<Rightarrow> port \<Rightarrow> Proto \<Rightarrow> bool" where
  "rules_open r a port proto \<longleftrightarrow> a \<notin> space (prefixes (fw_DenyCIDRs r)) \<and>
     (proto \<in> {ProtoTCP, ProtoUDP} \<and> (\<exists>b \<in> set (endpoints (fw_Resolvers r)). apAddr b = a \<and> apPort b = port) \<or>
      proto = ProtoTCP \<and> (fw_AllowPorts r = [] \<or> uint port \<in> set (fw_AllowPorts r)) \<and> a \<notin> translation_space \<and>
        a \<in> named_space r \<and> a \<notin> unnamed_services r)"

lemma ports_word:
  assumes "list_all (\<lambda>p. 0 < p \<and> p \<le> 65535) ps"
  shows "port_ok (map word_of_int ps) port \<longleftrightarrow> ps = [] \<or> uint port \<in> set ps" and "0 \<notin> set (map (word_of_int :: int \<Rightarrow> port) ps)"
proof -
  have u: "uint (word_of_int p :: port) = p" if "p \<in> set ps" for p
    using assms that by (auto simp: list_all_iff uint_word_of_int)
  then have "port \<in> set (map word_of_int ps) \<longleftrightarrow> uint port \<in> set ps"
    by (auto simp: image_iff) (metis word_of_int_uint)
  then show "port_ok (map word_of_int ps) port \<longleftrightarrow> ps = [] \<or> uint port \<in> set ps" by (auto simp: port_ok_def)
  show "0 \<notin> set (map (word_of_int :: int \<Rightarrow> port) ps)"
  proof
    assume "0 \<in> set (map (word_of_int :: int \<Rightarrow> port) ps)"
    then obtain p where p: "p \<in> set ps" "(word_of_int p :: port) = 0" by auto
    then have "p = 0" using u [OF p(1)] by simp
    then show False using assms p(1) by (auto simp: list_all_iff)
  qed
qed

lemma first_uses_Nil: "first_uses seen [] = []" "first_uses [] (x # xs) \<noteq> []"
  by simp_all

lemma first_uses_empty: "first_uses [] xs = [] \<longleftrightarrow> xs = []"
  by (cases xs) simp_all

lemma those_map_Some: "list_all (\<lambda>x. f x = Some x) xs \<Longrightarrow> those (map f xs) = Some xs"
  by (induction xs) simp_all

lemma normalizePrefixes_ok:
  assumes "canonical_list ps" and "length ps \<le> 256"
  shows "\<exists>ms. normalizePrefixes ps = Inr ms \<and> set ms = set ps \<and> canonical_list ms"
proof -
  have "list_all (\<lambda>p. unmapped_prefix p = Some p) ps"
    using assms(1) masked_valid Masked_masked by (auto simp: canonical_list_def list_all_iff unmapped_prefix_def)
  then have "normalizePrefixes ps = Inr (sort (first_uses [] ps))"
    using assms(2) those_map_Some [of unmapped_prefix ps] by (simp add: normalizePrefixes_def MaxPrefixes_def)
  moreover from this have "canonical_list (sort (first_uses [] ps))" by (rule canonical_normalizePrefixes)
  ultimately show ?thesis by (auto simp: set_first_uses)
qed

lemma normalizeAddrPorts_ok:
  assumes "list_all normal_endpoint aps" and "length aps \<le> 16"
  shows "\<exists>ms. normalizeAddrPorts aps kind = Inr ms \<and> set ms = set aps"
proof -
  have "map (\<lambda>ap. AddrPortFrom (Unmap (apAddr ap)) (apZone ap) (apPort ap)) aps = aps"
    using assms(1) by (intro map_idI) (auto simp: list_all_iff normal_endpoint_def Unmap_def intro: AddrPort.expand)
  moreover have "\<not> list_ex (\<lambda>ap. apPort ap = 0) aps"
    using assms(1) by (auto simp: list_all_iff list_ex_iff normal_endpoint_def)
  ultimately have "normalizeAddrPorts aps kind = Inr (sort (first_uses [] aps))"
    using assms(2) by (simp add: normalizeAddrPorts_def MaxPrefixes_def)
  then show ?thesis by (auto simp: set_first_uses)
qed

lemma named_iff:
  assumes "normal r" and "\<not> Is4In6 a" and "a \<notin> translation_space"
  shows "a \<in> space (prefixes (fw_AllowCIDRs r)) \<or> fw_AllowPublicInternet r \<and> a \<notin> block_space \<longleftrightarrow> a \<in> named_space r"
  using assms by (auto simp: named_space_def publicSpace_spec)

lemma compile_ok:
  assumes "normalizePorts (in_AllowPorts inp) = Inr ports" "normalizePrefixes (in_AllowCIDRs inp) = Inr cidrs"
    "normalizePrefixes (in_DenyCIDRs inp) = Inr denies" "normalizeAddrPorts (in_Brokers inp) ''broker'' = Inr brokers"
    "normalizeAddrPorts (in_Resolvers inp) ''resolver'' = Inr resolvers"
    and "find (\<lambda>c. pBits c = 0) cidrs = None"
    and "in_AllowAllPorts inp \<longleftrightarrow> (cidrs \<noteq> [] \<or> in_AllowPublicInternet inp) \<and> ports = []"
  shows "\<exists>P. Compile inp = Inr P"
  using assms(6,7) unfolding Compile_def assms(1-5) sum.case Let_def by simp

text \<open>A normalised rule set always compiles.\<close>

lemma compile_normal:
  assumes n: "normal r"
  obtains inp P where "Input_of r = Inr inp" "Compile inp = Inr P"
    "\<And>a port proto. reaches P a port proto \<longleftrightarrow> rules_open r (Unmap a) port proto"
proof -
  note f = normal_facts [OF n]
  have ports: "list_all (\<lambda>p. 0 < p \<and> p \<le> 65535) (fw_AllowPorts r)" "length (fw_AllowPorts r) \<le> 64"
    using n by (auto simp: normal_def MaxFirewallPorts_def)
  define inp where "inp = \<lparr>in_AllowCIDRs = prefixes (fw_AllowCIDRs r), in_AllowPorts = map word_of_int (fw_AllowPorts r),
      in_Brokers = [], in_Resolvers = endpoints (fw_Resolvers r), in_AllowPublicInternet = fw_AllowPublicInternet r,
      in_AllowAllPorts = ((fw_AllowPublicInternet r \<or> fw_AllowCIDRs r \<noteq> []) \<and> fw_AllowPorts r = []),
      in_DenyCIDRs = prefixes (fw_DenyCIDRs r), in_HostPatterns = [], in_DropDenied = fw_DropDenied r\<rparr>"
  have i: "Input_of r = Inr inp" by (simp add: Input_of_def Normalize_id [OF n] inp_def)
  obtain cs where cs: "normalizePrefixes (in_AllowCIDRs inp) = Inr cs" "set cs = set (prefixes (fw_AllowCIDRs r))"
      "canonical_list cs" using normalizePrefixes_ok [OF f(1,4)] by (auto simp: inp_def)
  obtain ds where ds: "normalizePrefixes (in_DenyCIDRs inp) = Inr ds" "set ds = set (prefixes (fw_DenyCIDRs r))"
      "canonical_list ds" using normalizePrefixes_ok [OF f(2,5)] by (auto simp: inp_def)
  obtain rs where rs: "normalizeAddrPorts (in_Resolvers inp) ''resolver'' = Inr rs" "set rs = set (endpoints (fw_Resolvers r))"
    using normalizeAddrPorts_ok [OF f(9,10)] by (auto simp: inp_def)
  have bs: "normalizeAddrPorts (in_Brokers inp) ''broker'' = Inr []" by (simp add: inp_def normalizeAddrPorts_def)
  let ?ps = "sort (first_uses [] (in_AllowPorts inp))"
  have ps: "normalizePorts (in_AllowPorts inp) = Inr ?ps"
    using ports ports_word(2) [OF ports(1)] by (simp add: normalizePorts_def MaxPorts_def inp_def)
  have pe: "?ps = [] \<longleftrightarrow> fw_AllowPorts r = []" by (metis first_uses_empty inp_def Input.simps(2) list.map_disc_iff set_empty set_sort)
  have cidrs: "cs = [] \<longleftrightarrow> fw_AllowCIDRs r = []" using cs(2) f(6) by (metis list.map_disc_iff set_empty)
  have none: "find (\<lambda>c. pBits c = 0) cs = None" using cs(2) f(3) by (auto simp: find_None_iff list_all_iff)
  obtain P where P: "Compile inp = Inr P"
  proof -
    have "in_AllowAllPorts inp \<longleftrightarrow> (cs \<noteq> [] \<or> in_AllowPublicInternet inp) \<and> ?ps = []"
      unfolding pe cidrs by (simp add: inp_def) blast
    then show thesis using compile_ok [OF ps cs(1) ds(1) bs rs(1) none] that by blast
  qed
  have "reaches P a port proto \<longleftrightarrow> rules_open r (Unmap a) port proto" for a port proto
  proof -
    let ?a = "Unmap a"
    have nm: "\<not> Is4In6 ?a" by (rule not_mapped_Unmap)
    have sp: "space cs = space (prefixes (fw_AllowCIDRs r))" "space ds = space (prefixes (fw_DenyCIDRs r))"
      using space_set [OF cs(2)] space_set [OF ds(2)] by simp_all
    have po: "port_ok ?ps port \<longleftrightarrow> fw_AllowPorts r = [] \<or> uint port \<in> set (fw_AllowPorts r)"
    proof -
      have "set ?ps = set (map (word_of_int :: int \<Rightarrow> port) (fw_AllowPorts r))"
        unfolding set_sort set_first_uses by (simp add: inp_def)
      then show ?thesis using ports_word(1) [OF ports(1), of port]
        unfolding port_ok_def pe by (simp only: map_is_Nil_conv)
    qed
    have "reaches P a port proto \<longleftrightarrow> filter_reach ?ps cs ds [] rs (fw_AllowPublicInternet r) ?a port proto"
    proof (rule compile_reach [OF P])
      fix ports cidrs denies brokers resolvers
      assume "normalizePorts (in_AllowPorts inp) = Inr ports" "normalizePrefixes (in_AllowCIDRs inp) = Inr cidrs"
        "normalizePrefixes (in_DenyCIDRs inp) = Inr denies"
        "normalizeAddrPorts (in_Brokers inp) ''broker'' = Inr brokers"
        "normalizeAddrPorts (in_Resolvers inp) ''resolver'' = Inr resolvers"
      then have eq: "ports = ?ps" "cidrs = cs" "denies = ds" "brokers = []" "resolvers = rs"
        using ps cs(1) ds(1) rs(1) bs by simp_all
      have pub: "in_AllowPublicInternet inp = fw_AllowPublicInternet r" by (simp add: inp_def)
      assume "\<And>a port proto. reaches P a port proto \<longleftrightarrow>
        filter_reach ports cidrs denies brokers resolvers (in_AllowPublicInternet inp) (Unmap a) port proto"
      then show ?thesis unfolding eq pub .
    qed
    also have "\<dots> \<longleftrightarrow> rules_open r ?a port proto"
      unfolding filter_reach_def rules_open_def sp po rs(2) Carved_canonical [OF cs(3) ds(3)] cs(2)
      using named_iff [OF n nm] by (auto simp: unnamed_services_def)
    finally show ?thesis .
  qed
  with i P that show thesis by blast
qed

end
