(* ===== verification/FwContain.thy ===== *)
theory FwContain
  imports FwPolicy
begin

text \<open>Containment of the compiled filters.\<close>

section \<open>Containment\<close>

lemma mapped_in_wide:
  assumes "a \<in> addrs q" and "Is4In6 a" and "96 \<le> pBits q" and "IsValid q"
  shows "Is4In6 (pAddr q)"
proof -
  have f: "Is4 a = Is4 (pAddr q)" "top_bits (pBits q) a = top_bits (pBits q) (pAddr q)" using assms(1) by (auto simp: in_addrs)
  have "pBits q \<le> BitLen a" using assms(4) f(1) by (simp add: IsValid_def BitLen_Is4)
  then have "top_bits 96 a = top_bits 96 (pAddr q)" using top_bits_cong [OF f(1) assms(3) _ f(2)] by simp
  then show ?thesis using assms(2) f(1) by (simp add: Is4In6_def top_bits_def BitLen_Is4)
qed

lemma canonical_aggregate:
  assumes "canonical_list ps"
  shows "canonical_list (aggregate ps)"
proof -
  note a = aggregate_spec [OF canonical_valid [OF assms]]
  have "\<not> Is4In6 (pAddr p)" if p: "p \<in> set (aggregate ps)" for p
  proof
    assume m: "Is4In6 (pAddr p)"
    have mp: "masked p" using masked_aggregate [OF canonical_valid [OF assms]] p by (simp add: list_all_iff)
    have b: "96 \<le> pBits p" by (rule masked_mapped_bits [OF mp m])
    have "pAddr p \<in> space (aggregate ps)" using p pAddr_in_addrs by (auto simp: space_def)
    then obtain q where q: "q \<in> set ps" "pAddr p \<in> addrs q" using a by (auto simp: space_def)
    have mq: "masked q" "\<not> Is4In6 (pAddr q)" using assms q(1) by (auto simp: canonical_list_def list_all_iff)
    have lt: "pBits q < 96" using mapped_in_wide [OF q(2) m _ masked_valid [OF mq(1)]] mq(2) by force
    have "addrs p \<subseteq> addrs q"
      using nested [OF masked_valid masked_valid, OF mq(1) mp _ q(2) pAddr_in_addrs] lt b by simp
    moreover have "addrs q \<subseteq> space (aggregate ps)" using a q(1) by (auto simp: space_def)
    ultimately have "q = p" using irreducible_maximal [OF conjunct2 [OF a]] p mq(1) by blast
    with lt b show False by simp
  qed
  then show ?thesis using masked_aggregate [OF canonical_valid [OF assms]] by (auto simp: canonical_list_def list_all_iff)
qed

lemma normal_deny:
  assumes "normal r" and "normal_list True ds"
  shows "normal (r\<lparr>fw_DenyCIDRs := map cidr_string ds\<rparr>)"
proof -
  obtain allow deny resolvers where "fw_AllowCIDRs r = map cidr_string allow" "normal_list False allow"
      "fw_Resolvers r = map endpoint_string resolvers" "list_all normal_endpoint resolvers" "distinct resolvers"
      "sorted resolvers" "length resolvers \<le> MaxFirewallResolvers"
    using assms(1) unfolding normal_def by blast
  then show ?thesis using assms unfolding normal_def
    by (intro conjI exI [of _ allow] exI [of _ ds] exI [of _ resolvers]) simp_all
qed

text \<open>Over readable rule sets \<open>Effective\<close> fails only when the denials are too many.\<close>

lemma effective_readable:
  assumes "Normalize_rules par = Inr p" and c: "Normalize_rules child = Inr c"
  obtains (too_many) n where "Effective (Some par) child = Inl (InheritedTooMany n)"
  | (ok) e where "Effective (Some par) child = Inr e" "normal e"
    "space (prefixes (fw_DenyCIDRs e)) = space (prefixes (fw_DenyCIDRs c)) \<union> space (prefixes (fw_DenyCIDRs p))"
    "fw_AllowCIDRs e = fw_AllowCIDRs c" "fw_AllowPublicInternet e = fw_AllowPublicInternet c"
    "fw_AllowPorts e = fw_AllowPorts c" "fw_Resolvers e = fw_Resolvers c"
proof -
  have n: "normal c" "normal p" using c assms(1) Normalize_normal by auto
  let ?c = "c\<lparr>fw_DropDenied := fw_DropDenied c \<or> fw_DropDenied p\<rparr>"
  let ?ds = "aggregate (prefixes (fw_DenyCIDRs c) @ prefixes (fw_DenyCIDRs p))"
  have nc: "normal ?c" using n(1) by (simp add: normal_def)
  consider "fw_DenyCIDRs p = []" | "fw_DenyCIDRs p \<noteq> []" "length ?ds > MaxFirewallCIDRs"
    | "fw_DenyCIDRs p \<noteq> []" "length ?ds \<le> MaxFirewallCIDRs" by linarith
  then show thesis
  proof cases
    case 1
    then have "Effective (Some par) child = Inr ?c" using assms c by (simp add: Effective_def)
    with ok [of ?c] nc 1 show thesis by (simp add: prefixes_def)
  next
    case 2
    then have "Effective (Some par) child = Inl (InheritedTooMany (length ?ds))"
      using assms c by (simp add: Effective_def Let_def)
    then show thesis by (rule too_many)
  next
    case 3
    let ?e = "?c\<lparr>fw_DenyCIDRs := formatPrefixes ?ds\<rparr>"
    have can: "canonical_list (prefixes (fw_DenyCIDRs c) @ prefixes (fw_DenyCIDRs p))"
      using normal_facts(2) [OF n(1)] normal_facts(2) [OF n(2)] by (simp add: canonical_list_def)
    note cd = canonical_aggregate [OF can] and ad = aggregate_spec [OF canonical_valid [OF can]]
    have nl: "normal_list True (sort ?ds)"
      using cd 3(2) disjoint_distinct ad
      by (auto simp: normal_list_def normal_prefix_def canonical_list_def list_all_iff irreducible_def)
    then have pe: "prefixes (formatPrefixes ?ds) = sort ?ds"
      using prefixes_strings [of True] by (simp add: formatPrefixes_def normal_list_def)
    have ne: "normal ?e" using normal_deny [OF nc nl] by (simp add: formatPrefixes_def)
    have "Effective (Some par) child = Inr ?e"
      using assms c 3 Normalize_id [OF ne] by (simp add: Effective_def Let_def)
    moreover have "space (prefixes (fw_DenyCIDRs ?e)) = space (prefixes (fw_DenyCIDRs c)) \<union> space (prefixes (fw_DenyCIDRs p))"
      using conjunct1 [OF ad] space_set [of "sort ?ds" ?ds] by (simp add: pe)
    ultimately show thesis using ok [of ?e] ne by simp
  qed
qed

text \<open>What \<open>Permits\<close> checks, as sets.\<close>

definition denied_space :: "FirewallRules \<Rightarrow> FirewallRules \<Rightarrow> addr set" where
  "denied_space p c = space (prefixes (fw_DenyCIDRs c)) \<union> space (prefixes (fw_DenyCIDRs p))"

definition tcp_space :: "FirewallRules \<Rightarrow> addr set \<Rightarrow> addr set" where
  "tcp_space r D = {a \<in> named_space r. a \<notin> unnamed_services r \<and> \<not> Is4In6 a \<and> a \<notin> D}"

definition fits :: "FirewallRules \<Rightarrow> FirewallRules \<Rightarrow> bool" where
  "fits p c \<longleftrightarrow>
     (let D = denied_space p c; T = tcp_space p (space (prefixes (fw_DenyCIDRs p)))
      in (tcp_space c D \<noteq> {} \<longrightarrow>
            (fw_AllowPorts p = [] \<or> fw_AllowPorts c \<noteq> [] \<and> set (fw_AllowPorts c) \<subseteq> set (fw_AllowPorts p)) \<and>
            (fw_AllowPublicInternet c \<and> \<not> fw_AllowPublicInternet p \<longrightarrow> space publicSpace - D \<subseteq> T) \<and>
            (\<forall>cp \<in> set (prefixes (fw_AllowCIDRs c)). addrs cp - {a. Is4In6 a} - D - set (Within cp) \<subseteq> T)) \<and>
         (\<forall>ap \<in> set (endpoints (fw_Resolvers c)). apAddr ap \<in> D \<or> ap \<in> set (endpoints (fw_Resolvers p))))"

lemma cidr_reason_None:
  "cidr_reason p cDeny pTCP cp = None \<longleftrightarrow>
     subtract (subtract (subtract (subtract [cp] mappedV4) cDeny) (hostPrefixes (Within cp))) pTCP = []"
  by (auto simp: cidr_reason_def Let_def split: list.split option.split bool.split)

text \<open>A resolver behind the denials, and one the parent names.\<close>

lemma resolver_covered:
  assumes "normal p" and "normal c" and "ap \<in> set (endpoints (fw_Resolvers c))"
  shows "covered [hostPrefix (apAddr ap)] (prefixes (fw_DenyCIDRs c) @ prefixes (fw_DenyCIDRs p)) \<longleftrightarrow>
    apAddr ap \<in> denied_space p c"
proof -
  let ?cd = "prefixes (fw_DenyCIDRs c) @ prefixes (fw_DenyCIDRs p)"
  have v: "list_all IsValid ?cd" using canonical_valid normal_facts(2) assms(1,2) by auto
  have "\<not> Is4In6 (apAddr ap)" using normal_facts(9) [OF assms(2)] assms(3) by (auto simp: list_all_iff normal_endpoint_def)
  then have "hostPrefix (apAddr ap) = service_prefix (apAddr ap)"
    by (simp add: hostPrefix_def service_prefix_def Unmap_def)
  moreover have "covered [service_prefix (apAddr ap)] ?cd \<longleftrightarrow> space [service_prefix (apAddr ap)] \<subseteq> space ?cd"
    by (rule covered_iff [OF _ v]) simp
  ultimately show ?thesis by (simp add: denied_space_def)
qed

lemma resolver_named:
  "normal p \<Longrightarrow> endpoint_string ap \<in> set (fw_Resolvers p) \<longleftrightarrow> ap \<in> set (endpoints (fw_Resolvers p))"
  by (subst normal_facts(8)) (auto simp: endpoint_string_inj)

lemma map_filter_Nil: "List.map_filter f xs = [] \<longleftrightarrow> (\<forall>x \<in> set xs. f x = None)"
  by (induction xs) (auto simp: List.map_filter_def split: option.splits)

lemma resolver_reasons_Nil:
  assumes "normal p" and "normal c"
  shows "resolver_reasons p c (prefixes (fw_DenyCIDRs c) @ prefixes (fw_DenyCIDRs p)) = [] \<longleftrightarrow>
    (\<forall>ap \<in> set (endpoints (fw_Resolvers c)). apAddr ap \<in> denied_space p c \<or> ap \<in> set (endpoints (fw_Resolvers p)))"
  using resolver_covered [OF assms] resolver_named [OF assms(1)] by (auto simp: resolver_reasons_def map_filter_Nil)

lemma permits_fits:
  assumes p: "Normalize_rules par = Inr p" and c: "Normalize_rules child = Inr c"
  shows "Permits (Some par) child = [] \<longleftrightarrow> fits p c"
proof -
  have n: "normal p" "normal c" using p c Normalize_normal by auto
  let ?pd = "prefixes (fw_DenyCIDRs p)" let ?cd = "prefixes (fw_DenyCIDRs c) @ ?pd"
  let ?pt = "subtract (subtract (allowSet p) mappedV4) ?pd" let ?ct = "subtract (subtract (allowSet c) mappedV4) ?cd"
  let ?D = "denied_space p c" let ?T = "tcp_space p (space ?pd)"
  have v: "list_all IsValid ?pd" "list_all IsValid ?cd"
    using canonical_valid normal_facts(2) n by auto
  have sD: "space ?cd = ?D" by (simp add: denied_space_def)
  have T: "space ?pt = ?T" "list_all IsValid ?pt" "space ?ct = tcp_space c ?D"
    unfolding tcp_space_def sD [symmetric] by (rule tcp_spec [OF n(1) v(1)] tcp_spec [OF n(2) v(2)])+
  have tcp: "?ct = [] \<longleftrightarrow> tcp_space c ?D = {}" using T(3) space_empty_iff [of ?ct] by simp
  have port: "port_reasons p c = [] \<longleftrightarrow>
      fw_AllowPorts p = [] \<or> fw_AllowPorts c \<noteq> [] \<and> set (fw_AllowPorts c) \<subseteq> set (fw_AllowPorts p)"
    by (auto simp: port_reasons_def filter_empty_conv)
  have sub: "subtract xs ys = [] \<longleftrightarrow> space xs - space ys = {}" if "list_all IsValid xs" "list_all IsValid ys" for xs ys
    using space_subtract [OF that] space_empty_iff [of "subtract xs ys"] by simp
  have pub: "subtract (subtract publicSpace ?cd) ?pt = [] \<longleftrightarrow> space publicSpace - ?D \<subseteq> ?T"
    using sub [OF valid_subtract [OF publicSpace_spec(2) v(2)] T(2)] space_subtract [OF publicSpace_spec(2) v(2)] sD T(1)
    by simp
  have cidr: "cidr_reason p ?cd ?pt cp = None \<longleftrightarrow> addrs cp - {a. Is4In6 a} - ?D - set (Within cp) \<subseteq> ?T"
    if cp: "cp \<in> set (prefixes (fw_AllowCIDRs c))" for cp
  proof -
    have v0: "list_all IsValid [cp]" using canonical_valid [OF normal_facts(1) [OF n(2)]] cp by (simp add: list_all_iff)
    note v1 = valid_subtract [OF v0 everything_valid(2)]
    note v2 = valid_subtract [OF v1 v(2)]
    note v3 = valid_subtract [OF v2 hostPrefixes_spec(2)]
    show ?thesis unfolding cidr_reason_None sub [OF v3 T(2)] space_subtract [OF v2 hostPrefixes_spec(2)]
        space_subtract [OF v1 v(2)] space_subtract [OF v0 everything_valid(2)] T(1) sD mapped_space hostPrefixes_spec(1)
      by auto
  qed
  note res = resolver_reasons_Nil [OF n]
  have "Permits (Some par) child = [] \<longleftrightarrow>
      (?ct \<noteq> [] \<longrightarrow> port_reasons p c = [] \<and>
         (fw_AllowPublicInternet c \<and> \<not> fw_AllowPublicInternet p \<longrightarrow> subtract (subtract publicSpace ?cd) ?pt = []) \<and>
         (\<forall>cp \<in> set (prefixes (fw_AllowCIDRs c)). cidr_reason p ?cd ?pt cp = None)) \<and>
      resolver_reasons p c ?cd = []"
    unfolding Permits_def option.case p c sum.case Let_def
    by (cases "?ct = []") (auto simp: map_filter_Nil)
  also have "\<dots> \<longleftrightarrow> fits p c"
    unfolding tcp port pub res fits_def Let_def using cidr by (simp cong: ball_cong)
  finally show ?thesis .
qed

text \<open>What fits reaches over TCP no more than its bound.\<close>

lemma fits_tcp:
  assumes n: "normal p" "normal c" and f: "fits p c"
  shows "tcp_space c (denied_space p c) \<subseteq> tcp_space p (space (prefixes (fw_DenyCIDRs p)))"
proof
  let ?D = "denied_space p c" let ?T = "tcp_space p (space (prefixes (fw_DenyCIDRs p)))"
  fix a assume t: "a \<in> tcp_space c ?D"
  then have a: "\<not> Is4In6 a" and aD: "a \<notin> ?D" and named: "a \<in> named_space c" "a \<notin> unnamed_services c"
    by (auto simp: tcp_space_def)
  then have ap: "a \<notin> space (prefixes (fw_DenyCIDRs p))" by (simp add: denied_space_def)
  have F: "fw_AllowPublicInternet c \<and> \<not> fw_AllowPublicInternet p \<longrightarrow> space publicSpace - ?D \<subseteq> ?T"
      "\<forall>cp \<in> set (prefixes (fw_AllowCIDRs c)). addrs cp - {a. Is4In6 a} - ?D - set (Within cp) \<subseteq> ?T"
    using f t by (auto simp: fits_def Let_def)
  show "a \<in> ?T"
  proof (cases "a \<in> space (prefixes (fw_AllowCIDRs c))")
    case True
    then obtain cp where cp: "cp \<in> set (prefixes (fw_AllowCIDRs c))" "a \<in> addrs cp" by (auto simp: space_def)
    show ?thesis
    proof (cases "a \<in> set (Within cp)")
      case False
      with cp a aD have "a \<in> addrs cp - {a. Is4In6 a} - ?D - set (Within cp)" by simp
      then show ?thesis by (rule subsetD [OF bspec [OF F(2) cp(1)]])
    next
      case w: True
      have "a \<in> set Services" using w by (auto simp: Within_def split: option.splits)
      then have s: "service_prefix a \<in> set (prefixes (fw_AllowCIDRs c))" using named(2) True by (simp add: unnamed_services_def)
      have "a \<notin> set (Within (service_prefix a))"
        using in_Within [OF masked_service(1), of a a] a by (simp add: service_prefix_def)
      then have "a \<in> addrs (service_prefix a) - {a. Is4In6 a} - ?D - set (Within (service_prefix a))"
        using a aD by simp
      then show ?thesis by (rule subsetD [OF bspec [OF F(2) s]])
    qed
  next
    case False
    then have pub: "fw_AllowPublicInternet c" "a \<in> space publicSpace" using named(1) by (auto simp: named_space_def split: if_splits)
    show ?thesis
    proof (cases "fw_AllowPublicInternet p")
      case True
      have "a \<notin> set Services" using pub(2) services_blocked by (auto simp: publicSpace_spec(1))
      with True pub a ap show ?thesis by (simp add: tcp_space_def named_space_def unnamed_services_def)
    next
      case np: False
      have "space publicSpace - ?D \<subseteq> ?T" using F(1) pub(1) np by simp
      then show ?thesis by (rule subsetD) (use pub(2) aD in simp)
    qed
  qed
qed

text \<open>A rule set that fits opens nothing its bound does not, outside the denials of the bound.\<close>

lemma fits_outside:
  assumes n: "normal p" "normal c" and f: "fits p c"
    and a: "\<not> Is4In6 a" "a \<notin> space (prefixes (fw_DenyCIDRs p))" and o: "rules_open c a port proto"
  shows "rules_open p a port proto"
proof -
  let ?D = "denied_space p c"
  have aD: "a \<notin> ?D" using o a(2) by (simp add: rules_open_def denied_space_def)
  consider (res) "proto \<in> {ProtoTCP, ProtoUDP}" "\<exists>b \<in> set (endpoints (fw_Resolvers c)). apAddr b = a \<and> apPort b = port"
    | (tcp) "proto = ProtoTCP" "fw_AllowPorts c = [] \<or> uint port \<in> set (fw_AllowPorts c)" "a \<notin> translation_space"
        "a \<in> named_space c" "a \<notin> unnamed_services c"
    using o by (auto simp: rules_open_def)
  then show ?thesis
  proof cases
    case res
    then show ?thesis using f aD a(2) by (auto simp: fits_def Let_def rules_open_def)
  next
    case tcp
    have t: "a \<in> tcp_space c ?D" using tcp a(1) aD by (simp add: tcp_space_def)
    then have "fw_AllowPorts p = [] \<or> fw_AllowPorts c \<noteq> [] \<and> set (fw_AllowPorts c) \<subseteq> set (fw_AllowPorts p)"
      using f by (auto simp: fits_def Let_def)
    then show ?thesis using tcp a(2) subsetD [OF fits_tcp [OF n f] t] by (auto simp: rules_open_def tcp_space_def)
  qed
qed

text \<open>An effective rule set opens nothing its child does not.\<close>

lemma effective_below_child:
  assumes "space (prefixes (fw_DenyCIDRs e)) = denied_space p c" "fw_AllowCIDRs e = fw_AllowCIDRs c"
      "fw_AllowPublicInternet e = fw_AllowPublicInternet c" "fw_AllowPorts e = fw_AllowPorts c"
      "fw_Resolvers e = fw_Resolvers c" and "rules_open e a port proto"
  shows "rules_open c a port proto"
  using assms by (auto simp: rules_open_def denied_space_def named_space_def unnamed_services_def)

text \<open>An effective rule set that fits opens nothing its parent does not.\<close>

lemma fits_contained:
  assumes "normal p" "normal c" and "fits p c"
    and e: "space (prefixes (fw_DenyCIDRs e)) = denied_space p c" "fw_AllowCIDRs e = fw_AllowCIDRs c"
      "fw_AllowPublicInternet e = fw_AllowPublicInternet c" "fw_AllowPorts e = fw_AllowPorts c"
      "fw_Resolvers e = fw_Resolvers c"
    and "\<not> Is4In6 a" and o: "rules_open e a port proto"
  shows "rules_open p a port proto"
proof (rule fits_outside [OF assms(1-3,9)])
  show "a \<notin> space (prefixes (fw_DenyCIDRs p))" using o e(1) by (simp add: rules_open_def denied_space_def)
  show "rules_open c a port proto" by (rule effective_below_child [OF e o])
qed

definition filter_of :: "FirewallRules \<Rightarrow> FilterPolicy option" where
  "filter_of r = (case Input_of r of Inl e \<Rightarrow> None | Inr inp \<Rightarrow>
     (case Compile inp of Inl e \<Rightarrow> None | Inr P \<Rightarrow> Some P))"

definition opens :: "FilterPolicy \<Rightarrow> (addr \<times> port \<times> Proto) set" where
  "opens P = {(a, port, proto). reaches P a port proto}"

lemma filter_of_normal:
  assumes "Normalize_rules r = Inr n"
  obtains P where "filter_of r = Some P" "opens P = {(a, port, proto). rules_open n (Unmap a) port proto}"
proof -
  have nn: "normal n" by (rule Normalize_normal [OF assms])
  have i: "Input_of r = Input_of n" by (simp add: Input_of_def assms Normalize_id [OF nn])
  from compile_normal [OF nn] obtain inp P where "Input_of n = Inr inp" "Compile inp = Inr P"
    "\<And>a port proto. reaches P a port proto \<longleftrightarrow> rules_open n (Unmap a) port proto" by metis
  with i that [of P] show thesis by (simp add: filter_of_def opens_def)
qed

lemma permits_readable: "Permits (Some par) child = [] \<Longrightarrow> \<exists>p c. Normalize_rules par = Inr p \<and> Normalize_rules child = Inr c"
  by (auto simp: Permits_def split: sum.splits)

lemma effective_opens:
  assumes par: "Normalize_rules par = Inr p" and per: "Permits (Some par) child = []"
    and eff: "Effective (Some par) child = Inr e"
  obtains E P C where "filter_of e = Some E" "filter_of par = Some P" "filter_of child = Some C"
    "opens E \<subseteq> opens P" "opens E \<subseteq> opens C"
proof -
  obtain c where c: "Normalize_rules child = Inr c" "normal e"
    "space (prefixes (fw_DenyCIDRs e)) = denied_space p c" "fw_AllowCIDRs e = fw_AllowCIDRs c"
    "fw_AllowPublicInternet e = fw_AllowPublicInternet c" "fw_AllowPorts e = fw_AllowPorts c"
    "fw_Resolvers e = fw_Resolvers c"
  proof -
    obtain c where c: "Normalize_rules child = Inr c" using permits_readable [OF per] by blast
    show thesis using effective_readable [OF par c] that [OF c] eff unfolding denied_space_def by (cases, auto)
  qed
  have n: "normal p" "normal c" using par c(1) Normalize_normal by auto
  have f: "fits p c" using permits_fits [OF par c(1)] per by simp
  obtain E where E: "filter_of e = Some E" "opens E = {(a, port, proto). rules_open e (Unmap a) port proto}"
    using filter_of_normal [OF Normalize_id [OF c(2)]] .
  obtain P where P: "filter_of par = Some P" "opens P = {(a, port, proto). rules_open p (Unmap a) port proto}"
    using filter_of_normal [OF par] .
  obtain C where C: "filter_of child = Some C" "opens C = {(a, port, proto). rules_open c (Unmap a) port proto}"
    using filter_of_normal [OF c(1)] .
  have "opens E \<subseteq> opens P" unfolding E(2) P(2)
    using fits_contained [OF n f c(3-7) not_mapped_Unmap] by auto
  moreover have "opens E \<subseteq> opens C" unfolding E(2) C(2)
    using effective_below_child [OF c(3-7)] by auto
  ultimately show thesis using that E(1) P(1) C(1) by blast
qed

text \<open>A service in a range but not strictly within it is the range.\<close>

lemma service_host:
  assumes "normal r" and "cp \<in> set (prefixes (fw_AllowCIDRs r))" and "a \<in> addrs cp"
    and "a \<in> set Services" and "a \<notin> set (Within cp)"
  shows "cp = service_prefix a"
proof -
  have m: "masked cp" "\<not> Is4In6 (pAddr cp)"
    using normal_facts(1) [OF assms(1)] assms(2) by (auto simp: canonical_list_def list_all_iff)
  then have "\<not> pBits cp < BitLen a" using in_Within [OF m] assms(3-5) by blast
  moreover have "pBits cp \<le> BitLen (pAddr cp)" "Is4 (pAddr cp) = Is4 a"
    using masked_valid [OF m(1)] assms(3) by (auto simp: IsValid_def in_addrs)
  ultimately have "pBits cp = BitLen (pAddr cp)" by (simp add: BitLen_Is4)
  then show ?thesis using addrs_host [of cp] assms(3) by (cases cp) (auto simp: service_prefix_def)
qed

text \<open>A rule set fits in itself, and so does one that differs in its denials.\<close>

lemma fits_same:
  assumes n: "normal p"
    and c: "fw_AllowCIDRs c = fw_AllowCIDRs p" "fw_AllowPublicInternet c = fw_AllowPublicInternet p" "fw_AllowPorts c = fw_AllowPorts p"
      "fw_Resolvers c = fw_Resolvers p"
  shows "fits p c"
proof -
  let ?T = "tcp_space p (space (prefixes (fw_DenyCIDRs p)))"
  have "a \<in> ?T" if cp: "cp \<in> set (prefixes (fw_AllowCIDRs p))" "a \<in> addrs cp" and a: "\<not> Is4In6 a"
    "a \<notin> space (prefixes (fw_DenyCIDRs p))" "a \<notin> set (Within cp)" for cp a
  proof -
    have "a \<notin> unnamed_services p" using service_host [OF n cp] a(3) cp(1) by (auto simp: unnamed_services_def)
    with cp a show ?thesis by (auto simp: tcp_space_def named_space_def space_def)
  qed
  then show ?thesis unfolding fits_def Let_def denied_space_def c by auto
qed

lemma fits_refl: "normal p \<Longrightarrow> fits p p"
  by (rule fits_same) simp_all

text \<open>Only the denials of both together matter.\<close>

lemma fits_cong:
  assumes "fits p c" and "denied_space p e = denied_space p c" and "fw_AllowCIDRs e = fw_AllowCIDRs c"
      "fw_AllowPublicInternet e = fw_AllowPublicInternet c" "fw_AllowPorts e = fw_AllowPorts c"
      "fw_Resolvers e = fw_Resolvers c"
  shows "fits p e"
  using assms(1) unfolding fits_def Let_def tcp_space_def named_space_def unnamed_services_def assms(2-6) .

text \<open>A chain of rule sets, each carrying the denials above it, fits link by link and so end to end.\<close>

lemma fits_trans:
  assumes n: "normal p" "normal q" "normal r" and f: "fits p q" "fits q r"
    and d: "space (prefixes (fw_DenyCIDRs p)) \<subseteq> space (prefixes (fw_DenyCIDRs q))"
      "space (prefixes (fw_DenyCIDRs q)) \<subseteq> space (prefixes (fw_DenyCIDRs r))"
  shows "fits p r"
proof -
  let ?T = "\<lambda>x. tcp_space x (space (prefixes (fw_DenyCIDRs x)))" let ?D = "space (prefixes (fw_DenyCIDRs r))"
  have D: "denied_space p q = space (prefixes (fw_DenyCIDRs q))" "denied_space q r = ?D" "denied_space p r = ?D"
    using d by (auto simp: denied_space_def)
  have pq: "?T q \<subseteq> ?T p" and qr: "?T r \<subseteq> ?T q"
    using fits_tcp [OF n(1,2) f(1)] fits_tcp [OF n(2,3) f(2)] by (simp_all add: D)
  have Q: "?T q \<noteq> {} \<Longrightarrow> fw_AllowPorts p = [] \<or> fw_AllowPorts q \<noteq> [] \<and> set (fw_AllowPorts q) \<subseteq> set (fw_AllowPorts p)"
      "?T q \<noteq> {} \<Longrightarrow> fw_AllowPublicInternet q \<Longrightarrow> \<not> fw_AllowPublicInternet p \<Longrightarrow>
         space publicSpace - space (prefixes (fw_DenyCIDRs q)) \<subseteq> ?T p"
      "\<forall>ap \<in> set (endpoints (fw_Resolvers q)). apAddr ap \<in> space (prefixes (fw_DenyCIDRs q)) \<or>
         ap \<in> set (endpoints (fw_Resolvers p))"
    using f(1) by (auto simp: fits_def Let_def D)
  have R: "?T r \<noteq> {} \<Longrightarrow> fw_AllowPorts q = [] \<or> fw_AllowPorts r \<noteq> [] \<and> set (fw_AllowPorts r) \<subseteq> set (fw_AllowPorts q)"
      "?T r \<noteq> {} \<Longrightarrow> fw_AllowPublicInternet r \<Longrightarrow> \<not> fw_AllowPublicInternet q \<Longrightarrow> space publicSpace - ?D \<subseteq> ?T q"
      "?T r \<noteq> {} \<Longrightarrow> \<forall>cp \<in> set (prefixes (fw_AllowCIDRs r)). addrs cp - {a. Is4In6 a} - ?D - set (Within cp) \<subseteq> ?T q"
      "\<forall>ap \<in> set (endpoints (fw_Resolvers r)). apAddr ap \<in> ?D \<or> ap \<in> set (endpoints (fw_Resolvers q))"
    using f(2) by (auto simp: fits_def Let_def D)
  show ?thesis unfolding fits_def Let_def D
  proof (intro conjI impI ballI)
    assume r: "?T r \<noteq> {}"
    then have q: "?T q \<noteq> {}" using qr by blast
    show "fw_AllowPorts p = [] \<or> fw_AllowPorts r \<noteq> [] \<and> set (fw_AllowPorts r) \<subseteq> set (fw_AllowPorts p)"
      using Q(1) [OF q] R(1) [OF r] by auto
    show "space publicSpace - ?D \<subseteq> ?T p" if "fw_AllowPublicInternet r \<and> \<not> fw_AllowPublicInternet p"
    proof (cases "fw_AllowPublicInternet q")
      case True
      from Q(2) [OF q True] that d(2) show ?thesis by blast
    next
      case False
      from R(2) [OF r _ False] that pq show ?thesis by blast
    qed
    fix cp assume "cp \<in> set (prefixes (fw_AllowCIDRs r))"
    from bspec [OF R(3) [OF r] this] pq show "addrs cp - {a. Is4In6 a} - ?D - set (Within cp) \<subseteq> ?T p" by (rule order_trans)
  next
    fix ap assume "ap \<in> set (endpoints (fw_Resolvers r))"
    then show "apAddr ap \<in> ?D \<or> ap \<in> set (endpoints (fw_Resolvers p))" using R(4) Q(3) d(2) by blast
  qed
qed

section \<open>The properties\<close>

text \<open>C9: a level that \<open>Permits\<close> accepts is contained: whatever packet the filter compiled from its
  effective rule set lets out of the sandbox, the filter compiled from the level above lets out too,
  and so does the filter compiled from the level's own rules, by address, port and protocol, through
  every spelling of an address; and all three compile. The rules enforced are missing only where the
  denials inherited from above are too many to list.\<close>

theorem permitted_rules_are_contained:
  "if Permits (Some par) child = []
   then case Effective (Some par) child of
          Inl e \<Rightarrow> (\<exists>n. e = InheritedTooMany n)
        | Inr e \<Rightarrow> (case (filter_of e, filter_of par, filter_of child) of
              (Some E, Some P, Some C) \<Rightarrow> opens E \<subseteq> opens P \<and> opens E \<subseteq> opens C
            | _ \<Rightarrow> False)
   else True"
proof (cases "Permits (Some par) child = []")
  case True
  then obtain p c where p: "Normalize_rules par = Inr p" "Normalize_rules child = Inr c" using permits_readable by blast
  show ?thesis
  proof (rule effective_readable [OF p])
    fix e assume e: "Effective (Some par) child = Inr e"
    obtain E P C where "filter_of e = Some E" "filter_of par = Some P" "filter_of child = Some C"
      "opens E \<subseteq> opens P" "opens E \<subseteq> opens C"
      using effective_opens [OF p(1) True e] by metis
    then show ?thesis using e by simp
  qed simp
qed simp

end
