(* ===== verification/FwConstrain.thy ===== *)
theory FwConstrain
  imports FwContain
begin

text \<open>
  The rest of pkg/fwpolicy/fwpolicy.go: the denials \<open>CloseMetadata\<close> writes down, and \<open>Constrain\<close>, which
  narrows a saved rule set under a level that was tightened. The sentences it returns are a datatype of
  what they say; the parts of its body are definitions of their own, in the body's order.
\<close>

section \<open>Closing metadata services\<close>

text \<open>Resolver addresses as a map's keys; an address with a zone equals no service's.\<close>

definition resolver_addrs :: "resolver_text list \<Rightarrow> addr list" where
  "resolver_addrs texts = List.map_filter (\<lambda>t. case t of
     EndpointText a zone p \<Rightarrow> if zone = [] then Some (Unmap a) else None | _ \<Rightarrow> None) texts"

definition closeMetadata :: "FirewallRules \<Rightarrow> FirewallRules \<times> addr list" where
  "closeMetadata n =
     (let add = filter (\<lambda>s. s \<notin> set (resolver_addrs (fw_Resolvers n)))
            (Carved (prefixes (fw_AllowCIDRs n)) (prefixes (fw_DenyCIDRs n)))
      in if add = [] then (n, [])
         else case Normalize_rules (n\<lparr>fw_DenyCIDRs := fw_DenyCIDRs n @ formatPrefixes (hostPrefixes add)\<rparr>) of
                Inl e \<Rightarrow> (n, [])
              | Inr norm \<Rightarrow> (norm, add))"

definition CloseMetadata :: "FirewallRules \<Rightarrow> FirewallRules" where
  "CloseMetadata r = (case Normalize_rules r of Inl e \<Rightarrow> r | Inr n \<Rightarrow> fst (closeMetadata n))"

section \<open>Narrowing\<close>

datatype constrain_note = WasUnreadable firewall_error | GoverningWasUnreadable firewall_error
  | PortsFromEvery "int list" | NoPortAllowed "int list" "int list" | PortsNarrowed "int list" "int list"
  | PublicNarrowed "Prefix list" | PublicRemoved
  | ServiceNotOpened Prefix | RangeOutside Prefix | RangeNarrowed Prefix "Prefix list"
  | RangesTooMany | ResolverRemoved AddrPort | DenylistNames "addr list" | NotNarrowed

definition publicOrMetadata :: "Prefix list" where
  "publicOrMetadata = aggregate (publicSpace @ hostPrefixes Services)"

definition withoutMetadataHosts :: "Prefix list \<Rightarrow> Prefix list" where
  "withoutMetadataHosts ps = filter (\<lambda>p. \<not> names_metadata p) ps"

definition intersectInts :: "int list \<Rightarrow> int list \<Rightarrow> int list" where
  "intersectInts a b = sort (filter (\<lambda>x. x \<in> set b) a)"

text \<open>The ports left of the child's, or none when its TCP destinations go.\<close>

definition narrowed_ports :: "FirewallRules \<Rightarrow> FirewallRules \<Rightarrow> int list option \<times> constrain_note list" where
  "narrowed_ports p c =
     (if fw_AllowPorts p = [] then (Some (fw_AllowPorts c), [])
      else if fw_AllowPorts c = [] then (Some (fw_AllowPorts p), [PortsFromEvery (fw_AllowPorts p)])
      else let ports = intersectInts (fw_AllowPorts c) (fw_AllowPorts p)
           in if ports = [] then (None, [NoPortAllowed (fw_AllowPorts c) (fw_AllowPorts p)])
              else if length ports < length (fw_AllowPorts c)
              then (Some ports, [PortsNarrowed (fw_AllowPorts c) ports])
              else (Some ports, []))"

definition narrowed_public ::
    "FirewallRules \<Rightarrow> FirewallRules \<Rightarrow> Prefix list \<Rightarrow> bool \<times> Prefix list \<times> constrain_note list" where
  "narrowed_public p c pRaw =
     (if \<not> fw_AllowPublicInternet c then (False, [], [])
      else if fw_AllowPublicInternet p then (True, [], [])
      else let pub = withoutMetadataHosts (intersect publicOrMetadata pRaw)
           in if pub \<noteq> [] then (False, pub, [PublicNarrowed pub]) else (False, [], [PublicRemoved]))"

text \<open>One range: what is left of it, itself as a name, and the sentence.\<close>

definition narrowed_range ::
    "Prefix list \<Rightarrow> Prefix list \<Rightarrow> Prefix \<Rightarrow> Prefix list \<times> Prefix list \<times> constrain_note list" where
  "narrowed_range pAllow pRaw cp =
     (if names_metadata cp
      then (if covered [cp] pAllow then ([], [cp], []) else ([], [], [ServiceNotOpened cp]))
      else let inside = withoutMetadataHosts (intersect [cp] pRaw)
           in if inside = [cp] then ([cp], [], [])
              else if inside = [] then ([], [], [RangeOutside cp])
              else (inside, [], [RangeNarrowed cp inside]))"

definition narrowed_tcp ::
    "FirewallRules \<Rightarrow> FirewallRules \<Rightarrow> FirewallRules \<Rightarrow> FirewallRules \<times> constrain_note list" where
  "narrowed_tcp p c out =
     (case narrowed_ports p c of
        (None, notes) \<Rightarrow> (out, notes)
      | (Some ports, notes) \<Rightarrow>
          (let (public, pub, notes_public) = narrowed_public p c (rawAllowSet p);
               ranges = map (narrowed_range (allowSet p) (rawAllowSet p)) (prefixes (fw_AllowCIDRs c));
               cidrs = aggregate (pub @ concat (map fst ranges)) @ concat (map (fst \<circ> snd) ranges);
               notes = notes @ notes_public @ concat (map (snd \<circ> snd) ranges);
               (public, cidrs, notes) =
                 (if length cidrs > MaxFirewallCIDRs then (False, [], notes @ [RangesTooMany]) else (public, cidrs, notes));
               allow = formatPrefixes cidrs
           in (out\<lparr>fw_AllowPublicInternet := public, fw_AllowCIDRs := allow,
                   fw_AllowPorts := if public \<or> allow \<noteq> [] then ports else []\<rparr>, notes)))"

definition Constrain :: "FirewallRules option \<Rightarrow> FirewallRules \<Rightarrow> FirewallRules \<times> constrain_note list" where
  "Constrain parent child =
     (case Normalize_rules child of Inl e \<Rightarrow> (no_rules, [WasUnreadable e]) | Inr c \<Rightarrow>
      (case parent of None \<Rightarrow> (c, []) | Some par \<Rightarrow>
       (case Normalize_rules par of
          Inl e \<Rightarrow> (no_rules\<lparr>fw_DenyCIDRs := fw_DenyCIDRs c\<rparr>, [GoverningWasUnreadable e])
        | Inr p \<Rightarrow>
         (if Permits (Some p) c = [] then (c, [])
          else
            let out = no_rules\<lparr>fw_DenyCIDRs := fw_DenyCIDRs c, fw_DropDenied := fw_DropDenied c\<rparr>;
                cDeny = prefixes (fw_DenyCIDRs c) @ prefixes (fw_DenyCIDRs p);
                (out, notes) =
                  (if subtract (subtract (allowSet c) mappedV4) cDeny = []
                   then (out\<lparr>fw_AllowPublicInternet := fw_AllowPublicInternet c, fw_AllowCIDRs := fw_AllowCIDRs c,
                             fw_AllowPorts := fw_AllowPorts c\<rparr>, [])
                   else narrowed_tcp p c out);
                keeps = (\<lambda>ap. endpoint_string ap \<in> set (fw_Resolvers p) \<or> covered [hostPrefix (apAddr ap)] cDeny);
                out = out\<lparr>fw_Resolvers := map endpoint_string (filter keeps (endpoints (fw_Resolvers c)))\<rparr>;
                notes = notes @ map ResolverRemoved (filter (\<lambda>ap. \<not> keeps ap) (endpoints (fw_Resolvers c)));
                fallback = (\<lambda>notes. (no_rules\<lparr>fw_DenyCIDRs := fw_DenyCIDRs c\<rparr>, notes @ [NotNarrowed]))
            in case Normalize_rules out of
                 Inl e \<Rightarrow> fallback notes
               | Inr n \<Rightarrow>
                   (let (n, closed) = closeMetadata n;
                        notes = notes @ (if closed \<noteq> [] then [DenylistNames closed] else [])
                    in if Permits (Some p) n \<noteq> [] \<or> Permits (Some c) n \<noteq> [] then fallback notes else (n, notes))))))"

section \<open>Closing opens nothing and closes nothing\<close>

lemma normal_no_rules: "normal c \<Longrightarrow> normal (no_rules\<lparr>fw_DenyCIDRs := fw_DenyCIDRs c\<rparr>)"
  unfolding normal_def no_rules_def
  by (auto simp: normal_list_def)

lemma closeMetadata_normal: "normal n \<Longrightarrow> normal (fst (closeMetadata n))"
  by (auto simp: closeMetadata_def Let_def dest: Normalize_normal split: sum.split)

lemma cidr_loop_set:
  "cidr_loop field allowAll i out texts = Inr ps \<Longrightarrow> set ps = set out \<union> set (prefixes texts)"
proof (induction field allowAll i out texts rule: cidr_loop.induct)
  case (2 field allowAll i out raw rest)
  show ?case
  proof (cases "raw = Blank")
    case True
    with 2 show ?thesis by (simp add: prefixes_def List.map_filter_def ParseFirewallPrefix_def)
  next
    case False
    with 2(3) obtain p where p: "ParseFirewallPrefix raw = Inr p"
      by (auto split: sum.splits parse_failure.splits)
    have np: "\<not> (pBits p = 0 \<and> \<not> allowAll)" using 2(3) False p by (auto split: if_splits)
    let ?out = "if p \<in> set out then out else out @ [p]"
    have "cidr_loop field allowAll (Suc i) ?out rest = Inr ps" using 2(3) False p np by auto
    then have "set ps = set ?out \<union> set (prefixes rest)" by (rule 2(2) [OF False p np])
    then show ?thesis using p by (auto simp: prefixes_def List.map_filter_def)
  qed
qed (simp add: prefixes_def List.map_filter_def)

lemma resolver_loop_set:
  "resolver_loop i out texts = Inr aps \<Longrightarrow> set aps = set out \<union> set (endpoints texts)"
proof (induction i out texts rule: resolver_loop.induct)
  case (2 i out raw rest)
  show ?case
  proof (cases "raw = BlankResolver")
    case True
    with 2 show ?thesis by (simp add: endpoints_def List.map_filter_def ParseResolver_def)
  next
    case False
    with 2(3) obtain ap where ap: "ParseResolver raw = Some ap" by (auto split: option.splits)
    let ?out = "if ap \<in> set out then out else out @ [ap]"
    have "resolver_loop (Suc i) ?out rest = Inr aps" using 2(3) False ap by auto
    then have "set aps = set ?out \<union> set (endpoints rest)" by (rule 2(2) [OF False ap])
    then show ?thesis using ap by (auto simp: endpoints_def List.map_filter_def)
  qed
qed (simp add: endpoints_def List.map_filter_def)

lemma normalizeCIDRList_set:
  assumes "normalizeCIDRList field texts allowAll = Inr ts"
  shows "set (prefixes ts) = set (prefixes texts)"
proof -
  from assms obtain qs where q: "cidr_loop field allowAll 0 [] texts = Inr qs" "ts = map cidr_string (sort qs)"
    unfolding normalizeCIDRList_def by (cases "cidr_loop field allowAll 0 [] texts") (auto split: if_splits)
  have "list_all (normal_prefix allowAll) (sort qs)"
    using cidr_loop_normal [OF q(1)] by (auto simp: list_all_iff)
  then show ?thesis using cidr_loop_set [OF q(1)] prefixes_strings [of allowAll "sort qs"] by (simp add: q(2))
qed

text \<open>What normalising keeps.\<close>

lemma Normalize_sets:
  assumes "Normalize_rules r = Inr n"
  shows "set (prefixes (fw_AllowCIDRs n)) = set (prefixes (fw_AllowCIDRs r))"
    "set (prefixes (fw_DenyCIDRs n)) = set (prefixes (fw_DenyCIDRs r))"
    "set (endpoints (fw_Resolvers n)) = set (endpoints (fw_Resolvers r))"
    "fw_AllowPublicInternet n = fw_AllowPublicInternet r" "fw_DropDenied n = fw_DropDenied r"
proof -
  obtain allow deny ports resolvers where p:
      "normalizeCIDRList ''allow_cidrs'' (fw_AllowCIDRs r) False = Inr allow"
      "normalizeCIDRList ''deny_cidrs'' (fw_DenyCIDRs r) True = Inr deny"
      "resolver_loop 0 [] (fw_Resolvers r) = Inr resolvers"
    and n: "n = \<lparr>fw_AllowPublicInternet = fw_AllowPublicInternet r, fw_AllowCIDRs = allow, fw_DenyCIDRs = deny,
                 fw_AllowPorts = sort ports, fw_Resolvers = map endpoint_string (sort resolvers),
                 fw_DropDenied = fw_DropDenied r\<rparr>"
    using assms by (auto simp: Normalize_rules_def split: sum.splits if_splits)
  have "list_all normal_endpoint (sort resolvers)" using resolver_loop_normal [OF p(3)] by (auto simp: list_all_iff)
  then show "set (endpoints (fw_Resolvers n)) = set (endpoints (fw_Resolvers r))"
    using resolver_loop_set [OF p(3)] endpoints_strings [of "sort resolvers"] by (simp add: n)
  show "set (prefixes (fw_AllowCIDRs n)) = set (prefixes (fw_AllowCIDRs r))"
    "set (prefixes (fw_DenyCIDRs n)) = set (prefixes (fw_DenyCIDRs r))"
    using normalizeCIDRList_set p(1,2) by (simp_all add: n)
qed (use assms in \<open>auto simp: Normalize_rules_def split: sum.splits if_splits\<close>)

lemma Normalize_deny:
  assumes "normal n" and "Normalize_rules (n\<lparr>fw_DenyCIDRs := ts\<rparr>) = Inr m"
  shows "m = n\<lparr>fw_DenyCIDRs := fw_DenyCIDRs m\<rparr>"
proof -
  obtain deny where d: "normalizeCIDRList ''deny_cidrs'' ts True = Inr deny"
    using assms(2) by (auto simp: Normalize_rules_def split: sum.splits if_splits)
  then have "normal (n\<lparr>fw_DenyCIDRs := deny\<rparr>)"
    using normalizeCIDRList_normal [OF d] normal_deny [OF assms(1)] by auto
  then have "Normalize_rules (n\<lparr>fw_DenyCIDRs := deny\<rparr>) = Inr (n\<lparr>fw_DenyCIDRs := deny\<rparr>)" by (rule Normalize_id)
  moreover have "normalizeCIDRList ''deny_cidrs'' deny True = Inr deny"
    using normalizeCIDRList_normal [OF d] normalizeCIDRList_strings by auto
  ultimately have "Normalize_rules (n\<lparr>fw_DenyCIDRs := ts\<rparr>) = Inr (n\<lparr>fw_DenyCIDRs := deny\<rparr>)"
    using d by (simp add: Normalize_rules_def split: sum.splits if_splits)
  with assms(2) show ?thesis by auto
qed

lemma prefixes_append: "prefixes (xs @ ys) = prefixes xs @ prefixes ys"
  by (induction xs) (auto simp: prefixes_def List.map_filter_def split: option.split)

lemma prefixes_hosts:
  assumes "list_all (\<lambda>s. \<not> Is4In6 s) ss"
  shows "set (prefixes (formatPrefixes (hostPrefixes ss))) = set (hostPrefixes ss)"
proof -
  have "list_all (normal_prefix True) (sort (hostPrefixes ss))"
    using assms by (auto simp: list_all_iff normal_prefix_def hostPrefixes_def) (simp_all add: service_prefix_def)
  then show ?thesis using prefixes_strings by (simp add: formatPrefixes_def)
qed

lemma closeMetadata_spec:
  assumes n: "normal n" and c: "closeMetadata n = (m, add)"
  shows "m = n\<lparr>fw_DenyCIDRs := fw_DenyCIDRs m\<rparr>"
    "space (prefixes (fw_DenyCIDRs m)) = space (prefixes (fw_DenyCIDRs n)) \<union> set add"
    "set add \<subseteq> set (Carved (prefixes (fw_AllowCIDRs n)) (prefixes (fw_DenyCIDRs n)))"
    "set add \<inter> set (resolver_addrs (fw_Resolvers n)) = {}"
proof -
  let ?C = "Carved (prefixes (fw_AllowCIDRs n)) (prefixes (fw_DenyCIDRs n))"
  let ?add = "filter (\<lambda>s. s \<notin> set (resolver_addrs (fw_Resolvers n))) ?C"
  let ?n = "n\<lparr>fw_DenyCIDRs := fw_DenyCIDRs n @ formatPrefixes (hostPrefixes ?add)\<rparr>"
  consider "m = n" "add = []" | "Normalize_rules ?n = Inr m" "add = ?add"
    using c by (auto simp: closeMetadata_def Let_def split: if_splits sum.splits)
  then have "m = n\<lparr>fw_DenyCIDRs := fw_DenyCIDRs m\<rparr> \<and>
    space (prefixes (fw_DenyCIDRs m)) = space (prefixes (fw_DenyCIDRs n)) \<union> set add \<and>
    set add \<subseteq> set ?C \<and> set add \<inter> set (resolver_addrs (fw_Resolvers n)) = {}"
  proof cases
    case 2
    have nm: "list_all (\<lambda>s. \<not> Is4In6 s) ?add"
      using services_not_mapped by (auto simp: list_all_iff set_Carved)
    have "set (prefixes (fw_DenyCIDRs m)) = set (prefixes (fw_DenyCIDRs n) @ hostPrefixes ?add)"
      using Normalize_sets(2) [OF 2(1)] prefixes_hosts [OF nm] by (simp add: prefixes_append)
    then have "space (prefixes (fw_DenyCIDRs m)) = space (prefixes (fw_DenyCIDRs n) @ hostPrefixes ?add)"
      by (rule space_set)
    then show ?thesis using Normalize_deny [OF n 2(1)] 2(2) hostPrefixes_spec(1) [of ?add] by auto
  qed simp
  then show "m = n\<lparr>fw_DenyCIDRs := fw_DenyCIDRs m\<rparr>"
    "space (prefixes (fw_DenyCIDRs m)) = space (prefixes (fw_DenyCIDRs n)) \<union> set add"
    "set add \<subseteq> set ?C" "set add \<inter> set (resolver_addrs (fw_Resolvers n)) = {}" by blast+
qed

lemma resolver_addrs_strings:
  "resolver_addrs (map endpoint_string aps) = map (\<lambda>ap. Unmap (apAddr ap)) (filter (\<lambda>ap. apZone ap = []) aps)"
  by (induction aps) (auto simp: resolver_addrs_def List.map_filter_def endpoint_string_def)

text \<open>A service written down was closed, but for a resolver spelled with a zone.\<close>

lemma closing_open:
  assumes n: "normal n" and c: "closeMetadata n = (m, add)"
  shows "rules_open m a port proto \<Longrightarrow> rules_open n a port proto"
    and "list_all (\<lambda>ap. apZone ap = []) (endpoints (fw_Resolvers n)) \<Longrightarrow> rules_open n a port proto \<Longrightarrow>
      rules_open m a port proto"
proof -
  note spec = closeMetadata_spec [OF n c]
  note f = normal_facts [OF n]
  have same: "fw_AllowCIDRs m = fw_AllowCIDRs n" "fw_AllowPublicInternet m = fw_AllowPublicInternet n"
    "fw_AllowPorts m = fw_AllowPorts n" "fw_Resolvers m = fw_Resolvers n"
    by (subst spec(1), simp)+
  have named: "named_space m = named_space n" "unnamed_services m = unnamed_services n"
    by (simp_all add: named_space_def unnamed_services_def same)
  show "rules_open m a port proto \<Longrightarrow> rules_open n a port proto"
    unfolding rules_open_def spec(2) same named by blast
  assume z: "list_all (\<lambda>ap. apZone ap = []) (endpoints (fw_Resolvers n))" and o: "rules_open n a port proto"
  have "a \<notin> set add"
  proof
    assume a: "a \<in> set add"
    then have "a \<in> unnamed_services n"
      using spec(3) Carved_canonical [OF f(1,2)] by (auto simp: unnamed_services_def)
    then obtain b where b: "b \<in> set (endpoints (fw_Resolvers n))" "apAddr b = a"
      using o by (auto simp: rules_open_def)
    have "Unmap a = a" using f(9) b by (auto simp: list_all_iff normal_endpoint_def Unmap_def)
    moreover have "apZone b = []" using z b(1) by (simp add: list_all_iff)
    ultimately have "a \<in> set (resolver_addrs (fw_Resolvers n))"
      using b by (subst f(8)) (force simp: resolver_addrs_strings)
    then show False using spec(4) a by blast
  qed
  then show "rules_open m a port proto" using o unfolding rules_open_def spec(2) same named by blast
qed

section \<open>The narrowed rule set\<close>

lemma constrain_readable:
  assumes p: "Normalize_rules par = Inr p" and c: "Normalize_rules child = Inr c"
  obtains (kept) "Permits (Some p) c = []" "Constrain (Some par) child = (c, [])"
  | (fallback) ns where "Permits (Some p) c \<noteq> []"
      "Constrain (Some par) child = (no_rules\<lparr>fw_DenyCIDRs := fw_DenyCIDRs c\<rparr>, ns @ [NotNarrowed])"
  | (narrowed) n ns where "Permits (Some p) c \<noteq> []" "Constrain (Some par) child = (n, ns)" "normal n"
      "Permits (Some p) n = []" "Permits (Some c) n = []"
      "space (prefixes (fw_DenyCIDRs c)) \<subseteq> space (prefixes (fw_DenyCIDRs n))"
      "ns = [] \<Longrightarrow>
        (subtract (subtract (allowSet c) mappedV4) (prefixes (fw_DenyCIDRs c) @ prefixes (fw_DenyCIDRs p)) = [] \<or>
           snd (narrowed_tcp p c (no_rules\<lparr>fw_DenyCIDRs := fw_DenyCIDRs c, fw_DropDenied := fw_DropDenied c\<rparr>)) = []) \<and>
        resolver_reasons p c (prefixes (fw_DenyCIDRs c) @ prefixes (fw_DenyCIDRs p)) = []"
proof (cases "Permits (Some p) c = []")
  case True
  then show thesis using kept p c by (simp add: Constrain_def)
next
  case False
  let ?out = "no_rules\<lparr>fw_DenyCIDRs := fw_DenyCIDRs c, fw_DropDenied := fw_DropDenied c\<rparr>"
  let ?cd = "prefixes (fw_DenyCIDRs c) @ prefixes (fw_DenyCIDRs p)"
  let ?tcp = "if subtract (subtract (allowSet c) mappedV4) ?cd = []
     then (?out\<lparr>fw_AllowPublicInternet := fw_AllowPublicInternet c, fw_AllowCIDRs := fw_AllowCIDRs c,
               fw_AllowPorts := fw_AllowPorts c\<rparr>, [])
     else narrowed_tcp p c ?out"
  obtain t ns where t: "?tcp = (t, ns)" by fastforce
  have td: "fw_DenyCIDRs t = fw_DenyCIDRs c"
    using t by (auto simp: narrowed_tcp_def Let_def split: if_splits prod.splits option.splits)
  let ?keeps = "\<lambda>ap. endpoint_string ap \<in> set (fw_Resolvers p) \<or> covered [hostPrefix (apAddr ap)] ?cd"
  let ?o = "t\<lparr>fw_Resolvers := map endpoint_string (filter ?keeps (endpoints (fw_Resolvers c)))\<rparr>"
  let ?notes = "ns @ map ResolverRemoved (filter (\<lambda>ap. \<not> ?keeps ap) (endpoints (fw_Resolvers c)))"
  let ?fb = "\<lambda>notes. (no_rules\<lparr>fw_DenyCIDRs := fw_DenyCIDRs c\<rparr>, notes @ [NotNarrowed])"
  have C: "Constrain (Some par) child = (case Normalize_rules ?o of Inl e \<Rightarrow> ?fb ?notes | Inr n \<Rightarrow>
      (let (n, closed) = closeMetadata n; notes = ?notes @ (if closed \<noteq> [] then [DenylistNames closed] else [])
       in if Permits (Some p) n \<noteq> [] \<or> Permits (Some c) n \<noteq> [] then ?fb notes else (n, notes)))"
    using t unfolding Constrain_def p c sum.case option.case if_not_P [OF False] Let_def by simp
  show thesis
  proof (cases "Normalize_rules ?o")
    case (Inl e)
    then show thesis using fallback [OF False, of ?notes] C by simp
  next
    case (Inr n0)
    obtain n closed where n: "closeMetadata n0 = (n, closed)" by fastforce
    have n0: "normal n0" by (rule Normalize_normal [OF Inr])
    have "set (prefixes (fw_DenyCIDRs n0)) = set (prefixes (fw_DenyCIDRs c))"
      using Normalize_sets(2) [OF Inr] td by simp
    from space_set [OF this] have d: "space (prefixes (fw_DenyCIDRs c)) \<subseteq> space (prefixes (fw_DenyCIDRs n))"
      using closeMetadata_spec(2) [OF n0 n] by blast
    have nn: "normal n" using closeMetadata_normal [OF n0] n by simp
    let ?N = "?notes @ (if closed \<noteq> [] then [DenylistNames closed] else [])"
    have C2: "Constrain (Some par) child =
        (if Permits (Some p) n \<noteq> [] \<or> Permits (Some c) n \<noteq> [] then ?fb ?N else (n, ?N))"
      using C Inr n by (simp add: Let_def)
    show thesis
    proof (cases "Permits (Some p) n \<noteq> [] \<or> Permits (Some c) n \<noteq> []")
      case True
      then show thesis using fallback [OF False, of ?N] C2 by simp
    next
      case fine: False
      have silent: "(subtract (subtract (allowSet c) mappedV4) ?cd = [] \<or> snd (narrowed_tcp p c ?out) = []) \<and>
          resolver_reasons p c ?cd = []" if "?N = []"
      proof -
        have "ns = []" "filter (\<lambda>ap. \<not> ?keeps ap) (endpoints (fw_Resolvers c)) = []" using that by auto
        then show ?thesis using t
          by (auto simp: resolver_reasons_def map_filter_Nil filter_empty_conv split: if_splits)
      qed
      show thesis using narrowed [OF False _ nn _ _ d silent] C2 fine by simp
    qed
  qed
qed

lemma nothing_open: "Normalize_rules (no_rules\<lparr>fw_DenyCIDRs := ds\<rparr>) = Inr n \<Longrightarrow> \<not> rules_open n a port proto"
  using Normalize_sets [of "no_rules\<lparr>fw_DenyCIDRs := ds\<rparr>" n]
  by (auto simp: rules_open_def named_space_def no_rules_def prefixes_def endpoints_def List.map_filter_def)

lemma subtract_Nil [simp]: "subtract [] ys = []"
  by (induction ys) (simp_all add: subtract_def)

lemma Carved_Nil [simp]: "Carved [] ys = []"
  by (simp add: Carved_def Check_def List.map_filter_def)

text \<open>A rule set without a destination fits under every readable one.\<close>

lemma permits_nothing:
  assumes "Normalize_rules par = Inr p" and "normal c"
  shows "Permits (Some par) (no_rules\<lparr>fw_DenyCIDRs := fw_DenyCIDRs c\<rparr>) = []"
proof -
  let ?e = "no_rules\<lparr>fw_DenyCIDRs := fw_DenyCIDRs c\<rparr>"
  have ne: "normal ?e" by (rule normal_no_rules [OF assms(2)])
  have "fits p ?e"
    by (simp add: fits_def Let_def tcp_space_def named_space_def no_rules_def prefixes_def endpoints_def List.map_filter_def)
  then show ?thesis using permits_fits [OF assms(1) Normalize_id [OF ne]] by simp
qed

lemma permits_normal: "Normalize_rules par = Inr p \<Longrightarrow> Normalize_rules child = Inr c \<Longrightarrow>
    Permits (Some par) child = [] \<longleftrightarrow> Permits (Some p) c = []"
  by (simp add: permits_fits Normalize_id [OF Normalize_normal])

lemma constrain_contained:
  assumes p: "Normalize_rules par = Inr p" and c: "Normalize_rules child = Inr c"
    and n: "Constrain (Some par) child = (n, ns)"
  shows "normal n \<and> Permits (Some par) n = [] \<and> (\<forall>a port proto. \<not> Is4In6 a \<longrightarrow> rules_open n a port proto \<longrightarrow> rules_open c a port proto)"
proof -
  have nc: "normal c" by (rule Normalize_normal [OF c])
  show ?thesis
  proof (rule constrain_readable [OF p c])
    assume "Permits (Some p) c = []" "Constrain (Some par) child = (c, [])"
    then show ?thesis using n nc permits_normal [OF p c] permits_normal [OF p Normalize_id [OF nc]] by auto
  next
    fix ns' assume "Constrain (Some par) child = (no_rules\<lparr>fw_DenyCIDRs := fw_DenyCIDRs c\<rparr>, ns' @ [NotNarrowed])"
    then have "n = no_rules\<lparr>fw_DenyCIDRs := fw_DenyCIDRs c\<rparr>" using n by simp
    then show ?thesis
      using permits_nothing [OF p nc] normal_no_rules [OF nc] nothing_open [OF Normalize_id [OF normal_no_rules [OF nc]]] by auto
  next
    fix n' ns' assume h: "Constrain (Some par) child = (n', ns')" "normal n'" "Permits (Some p) n' = []"
      "Permits (Some c) n' = []" "space (prefixes (fw_DenyCIDRs c)) \<subseteq> space (prefixes (fw_DenyCIDRs n'))"
    then have nn: "n' = n" using n by simp
    have f: "fits c n" using permits_fits [OF Normalize_id [OF nc] Normalize_id] h(2,4) nn by blast
    have d: "space (prefixes (fw_DenyCIDRs n)) = denied_space c n" using h(5) nn by (auto simp: denied_space_def)
    have "normal n" using h(2) nn by simp
    then show ?thesis
      using fits_contained [OF nc _ f d refl refl refl refl] h(3) permits_normal [OF p Normalize_id, of n] nn by blast
  qed
qed

text \<open>Where no sentence is written the child fitted.\<close>

lemma filter_all: "length (filter P xs) = length xs \<longleftrightarrow> (\<forall>x \<in> set xs. P x)"
  by (induction xs) (auto, metis length_filter_le Suc_n_not_le_n)

lemma narrowed_ports_silent:
  assumes "narrowed_ports p c = (Some ports, [])"
  shows "fw_AllowPorts p = [] \<or> fw_AllowPorts c \<noteq> [] \<and> set (fw_AllowPorts c) \<subseteq> set (fw_AllowPorts p)"
proof -
  have "\<not> length (filter (\<lambda>x. x \<in> set (fw_AllowPorts p)) (fw_AllowPorts c)) < length (fw_AllowPorts c) \<Longrightarrow>
      set (fw_AllowPorts c) \<subseteq> set (fw_AllowPorts p)"
    using filter_all [of "\<lambda>x. x \<in> set (fw_AllowPorts p)" "fw_AllowPorts c"]
      length_filter_le [of "\<lambda>x. x \<in> set (fw_AllowPorts p)" "fw_AllowPorts c"] by auto
  then show ?thesis using assms by (auto simp: narrowed_ports_def intersectInts_def Let_def split: if_splits)
qed

lemma narrowed_range_silent:
  assumes n: "normal p" "normal c" and cp: "cp \<in> set (prefixes (fw_AllowCIDRs c))"
    and s: "snd (snd (narrowed_range (allowSet p) (rawAllowSet p) cp)) = []"
  shows "addrs cp - {a. Is4In6 a} - D - set (Within cp) \<subseteq> {a \<in> named_space p. a \<notin> unnamed_services p}"
proof -
  have v: "list_all IsValid [cp]" using canonical_valid [OF normal_facts(1) [OF n(2)]] cp by (simp add: list_all_iff)
  show ?thesis
  proof (cases "names_metadata cp")
    case True
    then have "covered [cp] (allowSet p)" using s by (auto simp: narrowed_range_def split: if_splits)
    then have "addrs cp \<subseteq> named_space p - unnamed_services p"
      using covered_iff [OF v allowSet_spec(2) [OF n(1)]] allowSet_spec(1) [OF n(1)] by simp
    then show ?thesis by blast
  next
    case False
    then have "withoutMetadataHosts (intersect [cp] (rawAllowSet p)) = [cp]"
      using s by (auto simp: narrowed_range_def Let_def split: if_splits)
    then have "cp \<in> set (filter (\<lambda>p. \<not> names_metadata p) (intersect [cp] (rawAllowSet p)))"
      by (simp add: withoutMetadataHosts_def)
    then have "cp \<in> set (intersect [cp] (rawAllowSet p))" by simp
    then have "addrs cp \<subseteq> space (intersect [cp] (rawAllowSet p))" by (auto simp: space_def)
    then have named: "addrs cp \<subseteq> named_space p"
      using intersect_spec [OF v, of "rawAllowSet p"] rawAllowSet_spec [OF n(1)] by auto
    have "a \<notin> unnamed_services p" if a: "a \<in> addrs cp" "a \<notin> set (Within cp)" for a
    proof
      assume "a \<in> unnamed_services p"
      then have sv: "a \<in> set Services" by (simp add: unnamed_services_def)
      then have "cp = service_prefix a" using service_host [OF n(2) cp a(1) _ a(2)] by simp
      moreover have "Lookup a \<noteq> None"
        using sv services_not_mapped by (auto simp: Lookup_def find_None_iff Unmap_def)
      ultimately show False using False by (simp add: names_metadata_def service_prefix_def)
    qed
    with named show ?thesis by blast
  qed
qed

lemma narrowed_tcp_silent:
  assumes n: "normal p" "normal c" and s: "snd (narrowed_tcp p c out) = []"
  shows "(fw_AllowPorts p = [] \<or> fw_AllowPorts c \<noteq> [] \<and> set (fw_AllowPorts c) \<subseteq> set (fw_AllowPorts p)) \<and>
    \<not> (fw_AllowPublicInternet c \<and> \<not> fw_AllowPublicInternet p) \<and>
    (\<forall>cp \<in> set (prefixes (fw_AllowCIDRs c)).
       addrs cp - {a. Is4In6 a} - D - set (Within cp) \<subseteq> {a \<in> named_space p. a \<notin> unnamed_services p})"
proof -
  obtain ports ns where np: "narrowed_ports p c = (ports, ns)" by fastforce
  obtain public pub npub where pub: "narrowed_public p c (rawAllowSet p) = (public, pub, npub)" by (metis prod_cases3)
  let ?r = "map (narrowed_range (allowSet p) (rawAllowSet p)) (prefixes (fw_AllowCIDRs c))"
  have "ports \<noteq> None"
  proof
    assume "ports = None"
    then have "ns \<noteq> []" using np by (auto simp: narrowed_ports_def Let_def split: if_splits)
    then show False using s np \<open>ports = None\<close> by (simp add: narrowed_tcp_def)
  qed
  then obtain ps where ps: "ports = Some ps" by blast
  have "ns @ npub @ concat (map (snd \<circ> snd) ?r) = []"
    using s np pub by (auto simp: ps narrowed_tcp_def Let_def split: if_splits)
  then have e: "ns = []" "npub = []" "\<forall>cp \<in> set (prefixes (fw_AllowCIDRs c)).
      snd (snd (narrowed_range (allowSet p) (rawAllowSet p) cp)) = []" by auto
  have "\<not> (fw_AllowPublicInternet c \<and> \<not> fw_AllowPublicInternet p)"
    using pub e(2) by (auto simp: narrowed_public_def Let_def split: if_splits)
  moreover have "fw_AllowPorts p = [] \<or> fw_AllowPorts c \<noteq> [] \<and> set (fw_AllowPorts c) \<subseteq> set (fw_AllowPorts p)"
    using narrowed_ports_silent np ps e(1) by simp
  ultimately show ?thesis using narrowed_range_silent [OF n] e(3) by blast
qed

lemma constrain_silent:
  assumes p: "Normalize_rules par = Inr p" and c: "Normalize_rules child = Inr c"
  shows "snd (Constrain (Some par) child) = [] \<longleftrightarrow> Permits (Some par) child = []"
proof -
  have n: "normal p" "normal c" using p c Normalize_normal by auto
  let ?cd = "prefixes (fw_DenyCIDRs c) @ prefixes (fw_DenyCIDRs p)"
  let ?ct = "subtract (subtract (allowSet c) mappedV4) ?cd"
  have v: "list_all IsValid ?cd" using canonical_valid normal_facts(2) n by auto
  have sD: "space ?cd = denied_space p c" by (simp add: denied_space_def)
  have ct: "?ct = [] \<Longrightarrow> tcp_space c (denied_space p c) = {}"
    using tcp_spec(1) [OF n(2) v] space_empty_iff [of ?ct] unfolding tcp_space_def sD by simp
  show ?thesis
  proof (rule constrain_readable [OF p c])
    fix n' ns
    assume h: "Permits (Some p) c \<noteq> []" "Constrain (Some par) child = (n', ns)"
      and silent: "ns = [] \<Longrightarrow> (?ct = [] \<or> snd (narrowed_tcp p c
          (no_rules\<lparr>fw_DenyCIDRs := fw_DenyCIDRs c, fw_DropDenied := fw_DropDenied c\<rparr>)) = []) \<and> resolver_reasons p c ?cd = []"
    have "ns \<noteq> []"
    proof
      assume "ns = []"
      note s = silent [OF this]
      have res: "\<forall>ap \<in> set (endpoints (fw_Resolvers c)). apAddr ap \<in> denied_space p c \<or> ap \<in> set (endpoints (fw_Resolvers p))"
        using s resolver_reasons_Nil [OF n] by blast
      have "fits p c"
      proof (cases "?ct = []")
        case True
        from ct [OF this] res show ?thesis by (simp add: fits_def Let_def)
      next
        case False
        then have T: "snd (narrowed_tcp p c
            (no_rules\<lparr>fw_DenyCIDRs := fw_DenyCIDRs c, fw_DropDenied := fw_DropDenied c\<rparr>)) = []" using s by blast
        have "addrs cp - {a. Is4In6 a} - denied_space p c - set (Within cp)
            \<subseteq> tcp_space p (space (prefixes (fw_DenyCIDRs p)))" if "cp \<in> set (prefixes (fw_AllowCIDRs c))" for cp
          using narrowed_tcp_silent [OF n T, of "denied_space p c"] that
          by (force simp: tcp_space_def denied_space_def)
        then show ?thesis using narrowed_tcp_silent [OF n T] res by (auto simp: fits_def Let_def)
      qed
      then show False using permits_fits [OF p c] permits_normal [OF p c] h(1) by simp
    qed
    then show ?thesis using h permits_normal [OF p c] by simp
  qed (use permits_normal [OF p c] in auto)
qed

lemma constrain_settles:
  assumes p: "Normalize_rules par = Inr p" and c: "Normalize_rules child = Inr c"
    and n: "Constrain (Some par) child = (n, ns)"
  shows "Constrain (Some par) n = (n, [])"
proof -
  have h: "normal n" "Permits (Some par) n = []" using constrain_contained [OF p c n] by auto
  have "Permits (Some p) n = []" using permits_normal [OF p Normalize_id [OF h(1)]] h(2) by simp
  then show ?thesis using p by (simp add: Constrain_def Normalize_id [OF h(1)])
qed

section \<open>A narrowing that gives up\<close>

definition half_ranges :: "int list \<Rightarrow> FirewallRules" where
  "half_ranges ports = no_rules\<lparr>fw_AllowCIDRs := [PrefixText (V4 0) 1, PrefixText (V4 0x80000000) 1],
     fw_AllowPorts := ports\<rparr>"

lemma half_parts:
  "prefixes (fw_AllowCIDRs (half_ranges ports)) = [PrefixFrom (V4 0) 1, PrefixFrom (V4 0x80000000) 1]"
  "prefixes (fw_DenyCIDRs (half_ranges ports)) = []" "endpoints (fw_Resolvers (half_ranges ports)) = []"
  "fw_AllowPorts (half_ranges ports) = ports" "\<not> fw_AllowPublicInternet (half_ranges ports)"
proof -
  have "prefixes [PrefixText (V4 0) 1, PrefixText (V4 0x80000000) 1] = [PrefixFrom (V4 0) 1, PrefixFrom (V4 0x80000000) 1]"
    by code_simp
  then show "prefixes (fw_AllowCIDRs (half_ranges ports)) = [PrefixFrom (V4 0) 1, PrefixFrom (V4 0x80000000) 1]"
    by (simp add: half_ranges_def)
qed (simp_all add: half_ranges_def no_rules_def prefixes_def endpoints_def List.map_filter_def)

lemma half_Normalize: "Normalize_rules (half_ranges []) = Inr (half_ranges [])"
  "Normalize_rules (half_ranges [443]) = Inr (half_ranges [443])"
  by code_simp+

lemma half_tcp:
  "subtract (subtract (allowSet (half_ranges [])) mappedV4) [] \<noteq> []"
proof -
  have m: "V4 1 \<in> addrs (PrefixFrom (V4 0) 1)" by (simp add: in_addrs top_bits_def)
  have s: "V4 1 \<notin> set Services" by code_simp
  have "V4 1 \<in> space (subtract (subtract (allowSet (half_ranges [])) mappedV4) [])"
    using m s tcp_spec(1) [OF Normalize_normal [OF half_Normalize(1)], of "[]"]
    by (simp add: named_space_def unnamed_services_def half_parts Is4In6_def)
  then show ?thesis by auto
qed

lemma half_narrowed: "h \<in> {PrefixFrom (V4 0) 1, PrefixFrom (V4 0x80000000) 1} \<Longrightarrow>
   narrowed_range ps (rawAllowSet (half_ranges [443])) h = ([h], [], [])"
proof -
  have r: "rawAllowSet (half_ranges [443]) = [PrefixFrom (V4 0) 0]"
    unfolding rawAllowSet_def half_parts by code_simp
  have "\<not> names_metadata (PrefixFrom (V4 0) 1)" "\<not> names_metadata (PrefixFrom (V4 0x80000000) 1)"
    "withoutMetadataHosts (intersect [PrefixFrom (V4 0) 1] [PrefixFrom (V4 0) 0]) = [PrefixFrom (V4 0) 1]"
    "withoutMetadataHosts (intersect [PrefixFrom (V4 0x80000000) 1] [PrefixFrom (V4 0) 0]) = [PrefixFrom (V4 0x80000000) 1]"
    by code_simp+
  then show "h \<in> {PrefixFrom (V4 0) 1, PrefixFrom (V4 0x80000000) 1} \<Longrightarrow> ?thesis"
    unfolding r by (auto simp: narrowed_range_def)
qed

lemma half_out:
  "narrowed_tcp (half_ranges [443]) (half_ranges []) no_rules =
     (no_rules\<lparr>fw_AllowCIDRs := [PrefixText (V4 0) 0], fw_AllowPorts := [443]\<rparr>, [PortsFromEvery [443]])"
proof -
  have "aggregate [PrefixFrom (V4 0) 1, PrefixFrom (V4 0x80000000) 1] = [PrefixFrom (V4 0) 0]" by code_simp
  then show ?thesis
    by (simp add: narrowed_tcp_def narrowed_ports_def narrowed_public_def half_parts half_narrowed Let_def
        MaxFirewallCIDRs_def formatPrefixes_def cidr_string_def no_rules_def)
qed

lemma fits_ports: "fits p p \<Longrightarrow> fw_AllowPorts p = [] \<Longrightarrow> fits p (p\<lparr>fw_AllowPorts := ps\<rparr>)"
  by (simp add: fits_def Let_def denied_space_def tcp_space_def named_space_def unnamed_services_def)

section \<open>The properties\<close>

lemma opens_nothing:
  assumes "normal c"
  shows "\<exists>P. filter_of (no_rules\<lparr>fw_DenyCIDRs := fw_DenyCIDRs c\<rparr>) = Some P \<and> opens P = {}"
proof -
  note n = Normalize_id [OF normal_no_rules [OF assms]]
  show ?thesis by (rule filter_of_normal [OF n]) (use nothing_open [OF n] in auto)
qed

lemma normal_empty: "normal no_rules"
  by (simp add: normal_def no_rules_def normal_list_def)

lemma no_rules_deny: "no_rules\<lparr>fw_DenyCIDRs := fw_DenyCIDRs no_rules\<rparr> = no_rules"
  by (simp add: no_rules_def)

text \<open>The packets to addresses a rule set denies.\<close>

definition denied_packets :: "FirewallRules \<Rightarrow> (addr \<times> port \<times> Proto) set" where
  "denied_packets r = {(a, port, proto). Unmap a \<in> space (prefixes (fw_DenyCIDRs r))}"

text \<open>C8: the rule set \<open>Constrain\<close> writes back is in normal form, is accepted by the parent, and settles:
  constraining it again changes nothing. Its filter opens nothing the child's does not, and nothing the
  parent's does not but for packets to addresses the parent denies, which \<open>Permits\<close> counts on the composed
  filter to deny: the rules enforced under the parent, where their denials can be listed, open nothing the
  parent does not. Where either rule set is unreadable, it opens nothing at all.\<close>

theorem constrained_rules_are_contained:
  "case Constrain (Some par) child of (n, ns) \<Rightarrow>
     (case (Normalize_rules par, Normalize_rules child, filter_of n, filter_of child) of
        (Inr p, Inr c, Some N, Some C) \<Rightarrow> Normalize_rules n = Inr n \<and> Permits (Some par) n = [] \<and>
          Constrain (Some par) n = (n, []) \<and> opens N \<subseteq> opens C \<and>
          (case filter_of par of
             None \<Rightarrow> False
           | Some P \<Rightarrow> opens N - denied_packets p \<subseteq> opens P \<and>
               (case Effective (Some par) n of
                  Inl e \<Rightarrow> (\<exists>k. e = InheritedTooMany k)
                | Inr e \<Rightarrow> (case filter_of e of None \<Rightarrow> False | Some E \<Rightarrow> opens E \<subseteq> opens P \<and> opens E \<subseteq> opens N)))
      | (Inr p, Inr c, _) \<Rightarrow> False
      | (_, _, Some N, _) \<Rightarrow> opens N = {}
      | _ \<Rightarrow> False)"
proof (cases "Normalize_rules child")
  case (Inl e)
  then have "Constrain (Some par) child = (no_rules, [WasUnreadable e])" by (simp add: Constrain_def)
  then show ?thesis using opens_nothing [OF normal_empty] Inl by (auto simp: no_rules_deny split: sum.split)
next
  case c: (Inr c)
  have nc: "normal c" by (rule Normalize_normal [OF c])
  show ?thesis
  proof (cases "Normalize_rules par")
    case (Inl e)
    then have "Constrain (Some par) child = (no_rules\<lparr>fw_DenyCIDRs := fw_DenyCIDRs c\<rparr>, [GoverningWasUnreadable e])"
      using c by (simp add: Constrain_def)
    then show ?thesis using opens_nothing [OF nc] Inl by auto
  next
    case p: (Inr p)
    obtain n ns where n: "Constrain (Some par) child = (n, ns)" by fastforce
    note h = constrain_contained [OF p c n]
    have nn: "Normalize_rules n = Inr n" using h Normalize_id by blast
    obtain N where N: "filter_of n = Some N" "opens N = {(a, port, proto). rules_open n (Unmap a) port proto}"
      using filter_of_normal [OF nn] .
    obtain C where C: "filter_of child = Some C" "opens C = {(a, port, proto). rules_open c (Unmap a) port proto}"
      using filter_of_normal [OF c] .
    obtain P where P: "filter_of par = Some P" "opens P = {(a, port, proto). rules_open p (Unmap a) port proto}"
      using filter_of_normal [OF p] .
    have permits: "Permits (Some par) n = []" using h by simp
    then have fits: "fits p n" using permits_fits [OF p nn] by simp
    have NC: "opens N \<subseteq> opens C" unfolding N(2) C(2) using h not_mapped_Unmap by auto
    have NP: "opens N - denied_packets p \<subseteq> opens P" unfolding N(2) P(2) denied_packets_def
      using fits_outside [OF Normalize_normal [OF p] Normalize_normal [OF nn] fits not_mapped_Unmap] by auto
    have E: "case Effective (Some par) n of Inl e \<Rightarrow> (\<exists>k. e = InheritedTooMany k)
      | Inr e \<Rightarrow> (case filter_of e of None \<Rightarrow> False | Some E \<Rightarrow> opens E \<subseteq> opens P \<and> opens E \<subseteq> opens N)"
    proof (rule effective_readable [OF p nn])
      fix e assume e: "Effective (Some par) n = Inr e"
      show ?thesis by (rule effective_opens [OF p permits e]) (use e P(1) N(1) in simp)
    qed simp
    show ?thesis using n p c N(1) C(1) P(1) nn permits constrain_settles [OF p c n] NC NP E by simp
  qed
qed

text \<open>nothing narrows silently. \<open>Constrain\<close> returns no sentence exactly when the parent permits the
  child as it is, and then the child is unchanged but for its normal form.\<close>

theorem constrain_says_when_it_narrows:
  "(snd (Constrain (Some par) child) = []) = (Permits (Some par) child = []) \<and>
   (if Permits (Some par) child = [] then Normalize_rules child = Inr (fst (Constrain (Some par) child)) else True)"
proof (cases "Normalize_rules child")
  case (Inl e)
  then show ?thesis by (cases "Normalize_rules par") (simp_all add: Constrain_def Permits_def)
next
  case c: (Inr c)
  show ?thesis
  proof (cases "Normalize_rules par")
    case (Inl e)
    then show ?thesis using c by (simp add: Constrain_def Permits_def)
  next
    case p: (Inr p)
    have "Permits (Some p) c = [] \<Longrightarrow> Constrain (Some par) child = (c, [])" using p c by (simp add: Constrain_def)
    then show ?thesis using constrain_silent [OF p c] permits_normal [OF p c] c by auto
  qed
qed

text \<open>writing the metadata services into the denials changes no packet's fate, unless a resolver
  is spelled with an IPv6 zone; even then it opens nothing.\<close>

theorem closing_metadata_changes_nothing:
  "case (filter_of (CloseMetadata r), filter_of r) of
     (Some C, Some R) \<Rightarrow> opens C \<subseteq> opens R \<and>
       (if list_all (\<lambda>ap. apZone ap = []) (endpoints (fw_Resolvers r)) then opens C = opens R else True)
   | (None, None) \<Rightarrow> CloseMetadata r = r
   | _ \<Rightarrow> False"
proof (cases "Normalize_rules r")
  case (Inl e)
  then show ?thesis by (simp add: CloseMetadata_def filter_of_def Input_of_def)
next
  case (Inr n)
  obtain m add where m: "closeMetadata n = (m, add)" by fastforce
  have nn: "normal n" by (rule Normalize_normal [OF Inr])
  have nm: "normal m" using closeMetadata_normal [OF nn] m by simp
  obtain C where C: "filter_of m = Some C" "opens C = {(a, port, proto). rules_open m (Unmap a) port proto}"
    using filter_of_normal [OF Normalize_id [OF nm]] .
  obtain R where R: "filter_of r = Some R" "opens R = {(a, port, proto). rules_open n (Unmap a) port proto}"
    using filter_of_normal [OF Inr] .
  have "opens C \<subseteq> opens R" unfolding C(2) R(2) using closing_open(1) [OF nn m] by auto
  moreover have "opens R \<subseteq> opens C" if "list_all (\<lambda>ap. apZone ap = []) (endpoints (fw_Resolvers r))"
  proof -
    have "list_all (\<lambda>ap. apZone ap = []) (endpoints (fw_Resolvers n))"
      using that Normalize_sets(3) [OF Inr] by (simp add: list_all_iff)
    then show ?thesis unfolding C(2) R(2) using closing_open(2) [OF nn m] by auto
  qed
  ultimately show ?thesis using C(1) R(1) Inr m by (auto simp: CloseMetadata_def)
qed

text \<open>the fallback that the code calls unreachable is reached. A child that names both halves of the
  IPv4 space on every port, under a parent that names the same halves on port 443, is narrowed to
  nothing: merging the halves gives the all-zero range, which \<open>Normalize\<close> refuses, though the parent's
  own rule set is contained in both.\<close>

theorem constrain_gives_up:
  "Constrain (Some (half_ranges [443])) (half_ranges []) = (no_rules, [PortsFromEvery [443], NotNarrowed]) \<and>
   Permits (Some (half_ranges [443])) (half_ranges [443]) = [] \<and> Permits (Some (half_ranges [])) (half_ranges [443]) = []"
proof -
  note n = Normalize_normal [OF half_Normalize(1)] Normalize_normal [OF half_Normalize(2)]
  have "fits (half_ranges []) (half_ranges [443])"
    using fits_ports [OF fits_refl [OF n(1)], of "[443]"] by (simp add: half_ranges_def no_rules_def)
  then have fit: "Permits (Some (half_ranges [])) (half_ranges [443]) = []" "Permits (Some (half_ranges [443])) (half_ranges [443]) = []"
    using permits_fits half_Normalize fits_refl [OF n(2)] by auto
  have "port_reasons (half_ranges [443]) (half_ranges []) \<noteq> []" by (simp add: port_reasons_def half_parts)
  then have p: "Permits (Some (half_ranges [443])) (half_ranges []) \<noteq> []"
    using half_tcp unfolding Permits_def by (simp add: half_Normalize half_parts Let_def)
  have bad: "Normalize_rules (no_rules\<lparr>fw_AllowCIDRs := [PrefixText (V4 0) 0], fw_AllowPorts := [443]\<rparr>) = Inl (WaivesAll ''allow_cidrs'' 0)"
    by code_simp
  have r: "fw_DenyCIDRs (half_ranges []) = []" "fw_DropDenied (half_ranges []) = False" "no_rules\<lparr>fw_DropDenied := False\<rparr> = no_rules" "prefixes [] = []"
     "no_rules\<lparr>fw_DenyCIDRs := []\<rparr> = no_rules" "fw_Resolvers no_rules = []"
    by (simp_all add: half_ranges_def no_rules_def prefixes_def List.map_filter_def)
  have keep: "no_rules\<lparr>fw_AllowCIDRs := xs, fw_AllowPorts := ys, fw_Resolvers := []\<rparr> = no_rules\<lparr>fw_AllowCIDRs := xs, fw_AllowPorts := ys\<rparr>" for xs ys
    by (simp add: no_rules_def)
  have "Constrain (Some (half_ranges [443])) (half_ranges []) = (no_rules, [PortsFromEvery [443], NotNarrowed])"
    using half_tcp p bad
    by (simp add: Constrain_def half_Normalize half_parts r half_out keep Let_def)
  with fit show ?thesis by blast
qed

end
