(* ===== verification/FwDispatch.thy ===== *)
theory FwDispatch
  imports FwConstrain GoStrings
begin

text \<open>
  pkg/fwpolicy/dispatch.go: the levels composed for one workload (\<open>Chain\<close>, \<open>Resolve_egress\<close>) and the check a
  driver makes before it installs them (\<open>CheckAtDriver\<close>), with the posture an executor reports
  (pkg/executor/egressrules.go). The store is a \<open>RuleSource\<close> of functions that may fail; an error is a
  datatype of what its sentence says. The pointers the code may dereference are options, and a
  dereference of none is an error of its own.
\<close>

section \<open>Levels\<close>

record Level =
  lv_Kind :: string
  lv_Name :: string
  lv_Rules :: "FirewallRules option"

datatype dispatch_error = ExceedsError string string "exceed_reason list" | LevelError string policy_error
  | DeviceUnreadable string | ProjectUnreadable | InterfacesGranted "string list"
  | NotEnforceable "Level list" string | NoNetworkRemoval "Level list" string | SourceNeedsNetwork "Level list"
  | DeviceRulesUnreadable string firewall_error | BoundWithoutRules | DispatchedWithoutRules string
  | SpecRulesInvalid firewall_error | SpecBoundInvalid firewall_error | NilDereference

fun compose_levels :: "FirewallRules option \<Rightarrow> string \<Rightarrow> Level list \<Rightarrow> dispatch_error + FirewallRules option" where
  "compose_levels cur curName [] = Inr cur"
| "compose_levels cur curName (l # ls) =
     (case lv_Rules l of
        None \<Rightarrow> compose_levels cur curName ls
      | Some r \<Rightarrow>
          (let reasons = (if cur = None then [] else Permits cur r)
           in if reasons \<noteq> [] then Inl (ExceedsError (lv_Name l) curName reasons)
              else case Effective cur r of
                     Inl e \<Rightarrow> Inl (LevelError (lv_Name l) e)
                   | Inr eff \<Rightarrow> compose_levels (Some eff) (lv_Name l) ls))"

definition Chain :: "Level list \<Rightarrow> dispatch_error + FirewallRules option" where
  "Chain levels = compose_levels None '''' levels"

section \<open>Dispatching\<close>

record EgressPosture =
  ps_DeviceID :: string
  ps_Config :: "FirewallRules option"
  ps_Own :: "FirewallRules option"
  ps_OwnName :: string
  ps_Enforceable :: bool
  ps_RemovesNetwork :: bool
  ps_Reason :: string

record RuleSource =
  src_DeviceFirewall :: "string \<Rightarrow> unit + FirewallRules option"
  src_ProjectFirewall :: "string \<Rightarrow> unit + FirewallRules option"

datatype EgressScope = EgressScopeUnset | EgressScopePublic | EgressScopeNone | OtherEgressScope string

datatype WorkspaceKind = WorkspaceUnspecified | WorkspaceBind | WorkspaceGit | WorkspaceExecutor | WorkspaceBundle
  | WorkspaceNone | OtherWorkspace string

definition NeedsNetwork :: "WorkspaceKind \<Rightarrow> bool" where
  "NeedsNetwork k \<longleftrightarrow> k = WorkspaceGit"

definition NeedsProvisioning :: "WorkspaceKind \<Rightarrow> bool" where
  "NeedsProvisioning k \<longleftrightarrow> k = WorkspaceGit \<or> k = WorkspaceBundle"

record EgressSpec =
  sp_DisableNetwork :: bool
  sp_Interfaces :: "string list"
  sp_EgressScope :: EgressScope
  sp_Workspace :: WorkspaceKind
  sp_EgressRules :: "FirewallRules option"
  sp_EgressBound :: "FirewallRules option"

definition validateEgressRules :: "EgressSpec \<Rightarrow> dispatch_error option" where
  "validateEgressRules s =
     (case sp_EgressRules s of
        None \<Rightarrow> if sp_EgressBound s \<noteq> None then Some BoundWithoutRules else None
      | Some r \<Rightarrow>
          (case (Normalize_rules r, map_option Normalize_rules (sp_EgressBound s)) of
             (Inl e, _) \<Rightarrow> Some (SpecRulesInvalid e)
           | (Inr n, Some (Inl e)) \<Rightarrow> Some (SpecBoundInvalid e)
           | _ \<Rightarrow> if sp_Interfaces s \<noteq> [] then Some (InterfacesGranted (sp_Interfaces s)) else None))"

record Resolution =
  rs_Levels :: "Level list"
  rs_Effective :: "FirewallRules option"
  rs_Bound :: "FirewallRules option"

definition no_resolution :: Resolution where
  "no_resolution = \<lparr>rs_Levels = [], rs_Effective = None, rs_Bound = None\<rparr>"

definition ownName :: "EgressPosture \<Rightarrow> string" where
  "ownName p = (if ps_OwnName p \<noteq> [] then ps_OwnName p else ''the executor'' @ [CHR 0x27] @ ''s own network'')"

definition executor_levels :: "string \<Rightarrow> EgressPosture \<Rightarrow> FirewallRules option \<Rightarrow> Level list" where
  "executor_levels exID pos device =
     [\<lparr>lv_Kind = ''config'', lv_Name = ''executor '' @ exID @ [CHR 0x27] @ ''s configuration'', lv_Rules = ps_Config pos\<rparr>,
      \<lparr>lv_Kind = ''device'', lv_Name = ''device '' @ ps_DeviceID pos @ [CHR 0x27] @ ''s firewall'', lv_Rules = device\<rparr>,
      \<lparr>lv_Kind = ''own'', lv_Name = ownName pos, lv_Rules = ps_Own pos\<rparr>]"

definition project_name :: string where
  "project_name = ''this project'' @ [CHR 0x27] @ ''s firewall''"

definition scope_name :: string where
  "scope_name = ''this project'' @ [CHR 0x27] @ ''s .cloop/sandbox.yaml (egress: public)''"

text \<open>The project's rules, or the repository's coarse scope, as the innermost level.\<close>

definition innermost_level ::
    "Level list \<Rightarrow> FirewallRules option \<Rightarrow> EgressScope \<Rightarrow> FirewallRules option \<Rightarrow> dispatch_error + Level list \<times> FirewallRules option" where
  "innermost_level levels project scope cur =
     (case project of
        Some r \<Rightarrow>
          (let levels = levels @ [\<lparr>lv_Kind = ''project'', lv_Name = project_name, lv_Rules = Some r\<rparr>]
           in map_sum id (Pair levels) (Chain levels))
      | None \<Rightarrow>
          (if scope = EgressScopePublic
           then (case cur of
                   None \<Rightarrow> Inl NilDereference
                 | Some c \<Rightarrow>
                     (let levels = levels @ [\<lparr>lv_Kind = ''scope'', lv_Name = scope_name,
                            lv_Rules = Some (no_rules\<lparr>fw_AllowPublicInternet := True, fw_AllowPorts := fw_AllowPorts c,
                              fw_Resolvers := fw_Resolvers c\<rparr>)\<rparr>]
                      in map_sum id (Pair levels) (Chain levels)))
           else Inr (levels, cur)))"

text \<open>What the executor must be able to do for these rules; the rules and whether the network goes.\<close>

definition confinable ::
    "EgressSpec \<Rightarrow> EgressPosture \<Rightarrow> Level list \<Rightarrow> FirewallRules option \<Rightarrow> dispatch_error + FirewallRules \<times> bool" where
  "confinable spec pos levels cur =
     (if sp_DisableNetwork spec then Inr (no_rules, True)
      else case cur of
             None \<Rightarrow> Inl NilDereference
           | Some c \<Rightarrow>
               if HasDestination c
               then (if \<not> ps_Enforceable pos then Inl (NotEnforceable levels (ps_Reason pos)) else Inr (c, False))
               else if \<not> ps_RemovesNetwork pos \<and> \<not> ps_Enforceable pos then Inl (NoNetworkRemoval levels (ps_Reason pos))
               else if NeedsProvisioning (sp_Workspace spec) then Inl (SourceNeedsNetwork levels)
               else Inr (c, True))"

text \<open>Rules that reach nothing refuse every provisioned tree, a shipped bundle too, which needs no network.\<close>

lemma bundle_is_refused_offline:
  assumes "\<not> sp_DisableNetwork spec" and "sp_Workspace spec = WorkspaceBundle" and "ps_RemovesNetwork pos"
    and "\<not> HasDestination c"
  shows "\<not> NeedsNetwork (sp_Workspace spec)" "confinable spec pos levels (Some c) = Inl (SourceNeedsNetwork levels)"
  using assms by (simp_all add: confinable_def NeedsProvisioning_def NeedsNetwork_def)

text \<open>The levels of this workload and what is left of them, or nothing where no level is stored.\<close>

definition composed ::
    "RuleSource \<Rightarrow> EgressSpec \<Rightarrow> string \<Rightarrow> EgressPosture \<Rightarrow> string \<Rightarrow>
       dispatch_error + (FirewallRules option \<times> Level list \<times> FirewallRules \<times> bool) option" where
  "composed src spec exID pos projectPath =
     (case map_sum (\<lambda>e. DeviceUnreadable (ps_DeviceID pos)) id (src_DeviceFirewall src (ps_DeviceID pos)) of
        Inl e \<Rightarrow> Inl e | Inr device \<Rightarrow>
     (case map_sum (\<lambda>e. ProjectUnreadable) id
         (if trim_space projectPath \<noteq> [] then src_ProjectFirewall src projectPath else Inr None) of
        Inl e \<Rightarrow> Inl e | Inr project \<Rightarrow>
      if device = None \<and> project = None then Inr None
      else
     (case Chain (executor_levels exID pos device) of Inl e \<Rightarrow> Inl e | Inr cur \<Rightarrow>
     (case innermost_level (executor_levels exID pos device) project (sp_EgressScope spec) cur of
        Inl e \<Rightarrow> Inl e | Inr (levels, cur) \<Rightarrow>
      if sp_Interfaces spec \<noteq> [] then Inl (InterfacesGranted (sp_Interfaces spec))
      else
     (case confinable spec pos levels cur of Inl e \<Rightarrow> Inl e | Inr (c, offline) \<Rightarrow>
        Inr (Some (device, levels, c, offline)))))))"

definition Resolve_egress ::
    "RuleSource option \<Rightarrow> EgressSpec \<Rightarrow> (string \<times> EgressPosture) option \<Rightarrow> string \<Rightarrow> EgressSpec \<times> (dispatch_error + Resolution)" where
  "Resolve_egress source spec ex projectPath =
     (case (source, ex) of
        (Some src, Some (exID, pos)) \<Rightarrow>
          (case composed src spec exID pos projectPath of
             Inl e \<Rightarrow> (spec, Inl e)
           | Inr None \<Rightarrow> (spec, Inr no_resolution)
           | Inr (Some (device, levels, c, offline)) \<Rightarrow>
              (let eff = CloseMetadata c;
                   spec = spec\<lparr>sp_DisableNetwork := offline, sp_EgressRules := Some eff, sp_EgressBound := None\<rparr>
               in case device of
                    None \<Rightarrow> (spec, Inr \<lparr>rs_Levels = levels, rs_Effective = Some eff, rs_Bound = None\<rparr>)
                  | Some d \<Rightarrow>
                      (case Normalize_rules d of
                         Inl e \<Rightarrow> (spec, Inl (DeviceRulesUnreadable (ps_DeviceID pos) e))
                       | Inr b \<Rightarrow> (spec\<lparr>sp_EgressBound := Some b\<rparr>,
                           Inr \<lparr>rs_Levels = levels, rs_Effective = Some eff, rs_Bound = Some b\<rparr>))))
      | _ \<Rightarrow> (spec, Inr no_resolution))"

section \<open>At the driver\<close>

fun first_exceeded :: "FirewallRules \<Rightarrow> (string \<times> FirewallRules option) list \<Rightarrow> dispatch_error option" where
  "first_exceeded r [] = None"
| "first_exceeded r ((name, b) # bs) =
     (if b = None then first_exceeded r bs
      else let reasons = Permits b r
           in if reasons \<noteq> [] then Some (ExceedsError (''this workload'' @ [CHR 0x27] @ ''s firewall rules'') name reasons)
              else first_exceeded r bs)"

definition stored_rules :: "RuleSource option \<Rightarrow> string \<Rightarrow> unit + FirewallRules option" where
  "stored_rules source deviceID =
     (case source of
        None \<Rightarrow> Inr None
      | Some src \<Rightarrow> if trim_space deviceID \<noteq> [] then src_DeviceFirewall src deviceID else Inr None)"

definition CheckAtDriver ::
    "RuleSource option \<Rightarrow> EgressSpec \<Rightarrow> FirewallRules option \<Rightarrow> string \<Rightarrow> string \<Rightarrow> dispatch_error option" where
  "CheckAtDriver source spec own own_name deviceID =
     (case stored_rules source deviceID of
        Inl e \<Rightarrow> Some (DeviceUnreadable deviceID)
      | Inr stored \<Rightarrow>
          (case sp_EgressRules spec of
             None \<Rightarrow> if sp_EgressBound spec \<noteq> None then Some BoundWithoutRules
                     else if stored \<noteq> None then Some (DispatchedWithoutRules deviceID) else None
           | Some r \<Rightarrow> first_exceeded r
               [(if own_name = [] then ''this executor'' @ [CHR 0x27] @ ''s own firewall'' else own_name, own),
                (''the device firewall the dispatch carried'', sp_EgressBound spec),
                (''device '' @ deviceID @ [CHR 0x27] @ ''s firewall'', stored)]))"

section \<open>Networks as levels\<close>

definition NetworkLevel :: "string \<Rightarrow> FirewallRules option" where
  "NetworkLevel network = (if trim_space network \<in> {'''', ''none''} then Some no_rules else None)"

definition VirtualLevel :: "FirewallRules option \<Rightarrow> string \<Rightarrow> FirewallRules option" where
  "VirtualLevel firewall network = (case firewall of Some fw \<Rightarrow> Some fw | None \<Rightarrow> NetworkLevel network)"

section \<open>Bounds along a chain\<close>

text \<open>A rule set that carries its bound's denials and fits in it.\<close>

definition bounded :: "FirewallRules \<Rightarrow> FirewallRules \<Rightarrow> bool" where
  "bounded b c \<longleftrightarrow> normal b \<and> normal c \<and> fits b c \<and>
     space (prefixes (fw_DenyCIDRs b)) \<subseteq> space (prefixes (fw_DenyCIDRs c))"

lemma bounded_refl: "normal c \<Longrightarrow> bounded c c"
  by (simp add: bounded_def fits_refl)

lemma bounded_trans: "bounded a b \<Longrightarrow> bounded b c \<Longrightarrow> bounded a c"
  unfolding bounded_def using fits_trans by blast

lemma bounded_open:
  assumes "bounded b c" and "\<not> Is4In6 a" and "rules_open c a port proto"
  shows "rules_open b a port proto"
proof (rule fits_outside [of b c])
  show "a \<notin> space (prefixes (fw_DenyCIDRs b))" using assms by (auto simp: bounded_def rules_open_def)
qed (use assms in \<open>auto simp: bounded_def\<close>)

lemma bounded_effective:
  assumes "normal cur" and r: "Permits (Some cur) r = []" and e: "Effective (Some cur) r = Inr e"
  obtains n where "Normalize_rules r = Inr n" "bounded cur e" "bounded n e"
proof -
  note p = Normalize_id [OF assms(1)]
  obtain n where n: "Normalize_rules r = Inr n" using permits_readable [OF r] by blast
  have nn: "normal n" by (rule Normalize_normal [OF n])
  have f: "fits cur n" using permits_fits [OF p n] r by simp
  have "bounded cur e \<and> bounded n e"
  proof (rule effective_readable [OF p n])
    fix m assume "Effective (Some cur) r = Inl (InheritedTooMany m)"
    with e show ?thesis by simp
  next
    fix e' assume "Effective (Some cur) r = Inr e'" and h: "normal e'"
      "space (prefixes (fw_DenyCIDRs e')) = space (prefixes (fw_DenyCIDRs n)) \<union> space (prefixes (fw_DenyCIDRs cur))"
      "fw_AllowCIDRs e' = fw_AllowCIDRs n" "fw_AllowPublicInternet e' = fw_AllowPublicInternet n"
      "fw_AllowPorts e' = fw_AllowPorts n" "fw_Resolvers e' = fw_Resolvers n"
    then have ee: "e' = e" using e by simp
    have "denied_space cur e' = denied_space cur n" using h(2) by (auto simp: denied_space_def)
    then have "fits cur e'" using fits_cong [OF f _ h(3-6)] by blast
    moreover have "fits n e'" by (rule fits_same [OF nn h(3-6)])
    ultimately show ?thesis using h(1,2) assms(1) nn ee by (auto simp: bounded_def)
  qed
  with n that show thesis by blast
qed

lemma compose_levels_spec:
  "compose_levels cur name levels = Inr res \<Longrightarrow> (case cur of None \<Rightarrow> True | Some c \<Rightarrow> normal c) \<Longrightarrow>
     (case res of
        None \<Rightarrow> cur = None \<and> (\<forall>l \<in> set levels. lv_Rules l = None)
      | Some e \<Rightarrow> normal e \<and> (case cur of None \<Rightarrow> True | Some c \<Rightarrow> bounded c e) \<and>
          (\<forall>l \<in> set levels. \<forall>r. lv_Rules l = Some r \<longrightarrow> (\<exists>n. Normalize_rules r = Inr n \<and> bounded n e)))"
proof (induction cur name levels rule: compose_levels.induct)
  case (1 cur curName)
  then show ?case by (auto simp: bounded_refl split: option.splits)
next
  case (2 cur curName l ls)
  show ?case
  proof (cases "lv_Rules l")
    case None
    then show ?thesis using 2(1) [OF None] 2(3,4) by (auto split: option.splits)
  next
    case (Some r)
    let ?reasons = "if cur = None then [] else Permits cur r"
    have ok: "?reasons = []" using 2(3) Some by (auto simp: Let_def split: if_splits)
    obtain eff where eff: "Effective cur r = Inr eff"
      using 2(3) Some ok by (cases "Effective cur r") (auto simp: Let_def)
    have rest: "compose_levels (Some eff) (lv_Name l) ls = Inr res" using 2(3) Some ok eff by (simp add: Let_def)
    obtain n where n: "Normalize_rules r = Inr n" "bounded n eff" "case cur of None \<Rightarrow> True | Some c \<Rightarrow> bounded c eff"
    proof (cases cur)
      case None
      then have "Normalize_rules r = Inr eff" using eff by (simp add: Effective_def split: sum.splits)
      with that [of eff] show thesis using bounded_refl [OF Normalize_normal] None by simp
    next
      case cur: (Some c)
      have c: "normal c" using 2(4) cur by simp
      have pe: "Permits (Some c) r = []" "Effective (Some c) r = Inr eff" using ok eff cur by simp_all
      from bounded_effective [OF c pe] that show thesis using cur by auto
    qed
    have ne: "normal eff" using n(2) by (simp add: bounded_def)
    have "case res of None \<Rightarrow> False | Some e \<Rightarrow> normal e \<and> bounded eff e \<and>
        (\<forall>l \<in> set ls. \<forall>r. lv_Rules l = Some r \<longrightarrow> (\<exists>n. Normalize_rules r = Inr n \<and> bounded n e))"
      using 2(2) [OF Some refl _ eff] ok rest ne by (auto split: option.splits)
    then show ?thesis using n Some by (auto split: option.splits intro: bounded_trans)
  qed
qed

lemma Chain_bounds:
  "Chain levels = Inr (Some e) \<Longrightarrow> normal e \<and>
     (\<forall>l \<in> set levels. \<forall>r. lv_Rules l = Some r \<longrightarrow> (\<exists>n. Normalize_rules r = Inr n \<and> bounded n e))"
  and Chain_None: "Chain levels = Inr None \<Longrightarrow> \<forall>l \<in> set levels. lv_Rules l = None"
  using compose_levels_spec [of None "''''" levels] by (auto simp: Chain_def split: option.splits)

section \<open>What a dispatch ships\<close>

text \<open>One rule set's filter opens nothing another's does not, and both compile.\<close>

definition contained_in :: "FirewallRules \<Rightarrow> FirewallRules \<Rightarrow> bool" where
  "contained_in e r \<longleftrightarrow>
     (case (filter_of e, filter_of r) of (Some E, Some R) \<Rightarrow> opens E \<subseteq> opens R | _ \<Rightarrow> False)"

lemma contained_inI:
  assumes "normal e" and "Normalize_rules r = Inr n"
    and "\<And>a port proto. \<not> Is4In6 a \<Longrightarrow> rules_open e a port proto \<Longrightarrow> rules_open n a port proto"
  shows "contained_in e r"
proof -
  obtain E where E: "filter_of e = Some E" "opens E = {(a, port, proto). rules_open e (Unmap a) port proto}"
    using filter_of_normal [OF Normalize_id [OF assms(1)]] .
  obtain R where R: "filter_of r = Some R" "opens R = {(a, port, proto). rules_open n (Unmap a) port proto}"
    using filter_of_normal [OF assms(2)] .
  have "opens E \<subseteq> opens R" unfolding E(2) R(2) using assms(3) not_mapped_Unmap by auto
  then show ?thesis using E(1) R(1) by (simp add: contained_in_def)
qed

text \<open>A rule set a bound accepts, and that opens nothing the bound does not.\<close>

definition accepted :: "FirewallRules \<Rightarrow> FirewallRules \<Rightarrow> bool" where
  "accepted r e \<longleftrightarrow> (\<exists>n. Normalize_rules r = Inr n \<and> normal e \<and> fits n e \<and>
     (\<forall>a port proto. \<not> Is4In6 a \<longrightarrow> rules_open e a port proto \<longrightarrow> rules_open n a port proto))"

lemma accepted_contained: "accepted r e \<Longrightarrow> contained_in e r"
  unfolding accepted_def using contained_inI by blast

lemma accepted_permits: "accepted r e \<Longrightarrow> Permits (Some r) e = []"
  unfolding accepted_def using permits_fits Normalize_id by blast

lemma CloseMetadata_normal: "normal c \<Longrightarrow> CloseMetadata c = fst (closeMetadata c)"
  by (simp add: CloseMetadata_def Normalize_id)

lemma closed_destination:
  assumes "normal c"
  shows "HasDestination (CloseMetadata c) = HasDestination c"
proof -
  obtain m add where m: "closeMetadata c = (m, add)" by fastforce
  have "CloseMetadata c = m" using CloseMetadata_normal [OF assms] m by simp
  moreover have "HasDestination m = HasDestination c"
    by (subst closeMetadata_spec(1) [OF assms m]) (simp add: HasDestination_def)
  ultimately show ?thesis by simp
qed

lemma CloseMetadata_nothing: "CloseMetadata no_rules = no_rules"
  by (simp add: CloseMetadata_normal [OF normal_empty] closeMetadata_def)
     (simp add: no_rules_def prefixes_def List.map_filter_def)

lemma accepted_closed:
  assumes "Normalize_rules r = Inr n" and "bounded n c"
  shows "accepted r (CloseMetadata c)"
proof -
  have nc: "normal c" using assms(2) by (simp add: bounded_def)
  obtain m add where m: "closeMetadata c = (m, add)" by fastforce
  note spec = closeMetadata_spec [OF nc m]
  have nm: "normal m" using closeMetadata_normal [OF nc] m by simp
  have "fits c m" by (rule fits_same [OF nc]) (subst spec(1), simp)+
  then have "bounded c m" using nc nm spec(2) by (auto simp: bounded_def)
  then have "bounded n m" using bounded_trans [OF assms(2)] by blast
  moreover have "CloseMetadata c = m" using CloseMetadata_normal [OF nc] m by simp
  ultimately show ?thesis using assms(1) bounded_open [of n m] by (auto simp: accepted_def bounded_def)
qed

lemma accepted_nothing: "Normalize_rules r = Inr n \<Longrightarrow> accepted r no_rules"
  unfolding accepted_def
  using permits_nothing [OF _ normal_empty, of r n] permits_fits [of r n no_rules no_rules] Normalize_id [OF normal_empty]
    nothing_open [of "[]"] normal_empty
  by (auto simp: no_rules_deny) (simp add: no_rules_def nothing_open)

lemma innermost_chain:
  assumes "Chain levels = Inr cur" and "innermost_level levels project scope cur = Inr (levels', cur')"
  shows "Chain levels' = Inr cur' \<and> set levels \<subseteq> set levels' \<and>
    (\<forall>r. project = Some r \<longrightarrow> (\<exists>l \<in> set levels'. lv_Rules l = Some r))"
  using assms by (auto simp: innermost_level_def Let_def map_sum_def split: option.splits if_splits sum.splits)

lemma executor_levels_rules:
  "\<exists>l \<in> set (executor_levels exID pos device). lv_Rules l = device"
  "\<exists>l \<in> set (executor_levels exID pos device). lv_Rules l = ps_Config pos"
  "\<exists>l \<in> set (executor_levels exID pos device). lv_Rules l = ps_Own pos"
  by (simp_all add: executor_levels_def)

text \<open>The refusals that would be a fault of the composition itself.\<close>

definition internal_error :: "dispatch_error \<Rightarrow> bool" where
  "internal_error e \<longleftrightarrow> (case e of NilDereference \<Rightarrow> True | DeviceRulesUnreadable d err \<Rightarrow> True | _ \<Rightarrow> False)"

text \<open>A result that is no such refusal, and meets a condition where it is none at all.\<close>

definition ensures :: "dispatch_error + 'a \<Rightarrow> ('a \<Rightarrow> bool) \<Rightarrow> bool" where
  "ensures x P \<longleftrightarrow> (case x of Inl e \<Rightarrow> \<not> internal_error e | Inr y \<Rightarrow> P y)"

lemma ensures_bind:
  "ensures x Q \<Longrightarrow> (\<And>y. Q y \<Longrightarrow> ensures (f y) P) \<Longrightarrow> ensures (case x of Inl e \<Rightarrow> Inl e | Inr y \<Rightarrow> f y) P"
  by (cases x) (simp_all add: ensures_def)

lemma ensures_simps [simp]: "ensures (Inr y) P = P y" "ensures (Inl e) P = (\<not> internal_error e)"
  by (simp_all add: ensures_def)

lemma ensures_read: "\<not> internal_error err \<Longrightarrow> ensures (map_sum (\<lambda>e. err) id x) (\<lambda>y. x = Inr y)"
  by (cases x) simp_all

lemma chain_from_error: "compose_levels cur name ls = Inl e \<Longrightarrow> \<not> internal_error e"
  by (induction cur name ls rule: compose_levels.induct)
     (auto simp: Let_def internal_error_def split: option.splits if_splits sum.splits)

lemma ensures_Chain: "ensures (Chain levels) (\<lambda>cur. Chain levels = Inr cur)"
  using chain_from_error by (auto simp: ensures_def Chain_def split: sum.split)

lemma ensures_innermost:
  assumes "Chain levels = Inr cur" and "cur \<noteq> None \<or> project \<noteq> None"
  shows "ensures (innermost_level levels project scope cur) (\<lambda>(levels', cur'). Chain levels' = Inr cur' \<and>
    set levels \<subseteq> set levels' \<and> (\<forall>r. project = Some r \<longrightarrow> (\<exists>l \<in> set levels'. lv_Rules l = Some r)))"
proof -
  have "\<not> internal_error e" if "innermost_level levels project scope cur = Inl e" for e
    using that assms(2)
    by (auto simp: innermost_level_def Let_def map_sum_def Chain_def dest!: chain_from_error
        split: option.splits if_splits sum.splits)
  then show ?thesis using innermost_chain [OF assms(1)] by (auto simp: ensures_def split: sum.split)
qed

lemma ensures_confinable:
  "ensures (confinable spec pos levels (Some c)) (\<lambda>(c0, offline). c0 = no_rules \<and> offline \<or>
     c0 = c \<and> offline = (\<not> HasDestination c) \<and> (HasDestination c \<longrightarrow> ps_Enforceable pos))"
  by (auto simp: confinable_def internal_error_def)

lemma some_level:
  assumes "Chain levels = Inr cur" and "set (executor_levels exID pos device) \<subseteq> set levels"
    and "\<And>r. project = Some r \<Longrightarrow> \<exists>l \<in> set levels. lv_Rules l = Some r" and "\<not> (device = None \<and> project = None)"
  shows "cur \<noteq> None"
proof
  assume "cur = None"
  then have n: "\<forall>l \<in> set levels. lv_Rules l = None" using assms(1) Chain_None by blast
  then have "project = None" using assms(3) by (cases project) auto
  moreover have "device = None" using n assms(2) executor_levels_rules(1) [of exID pos device] by auto
  ultimately show False using assms(4) by blast
qed

text \<open>What a dispatch is composed of.\<close>

lemma composed_spec:
  "ensures (composed src spec exID pos path) (\<lambda>res. \<exists>device project.
     src_DeviceFirewall src (ps_DeviceID pos) = Inr device \<and>
     (if trim_space path \<noteq> [] then src_ProjectFirewall src path else Inr None) = Inr project \<and>
     (case res of
        None \<Rightarrow> device = None \<and> project = None
      | Some (device', levels, c0, offline) \<Rightarrow> device' = device \<and> sp_Interfaces spec = [] \<and> (\<exists>c. Chain levels = Inr (Some c) \<and>
          set (executor_levels exID pos device) \<subseteq> set levels \<and>
          (\<forall>r. project = Some r \<longrightarrow> (\<exists>l \<in> set levels. lv_Rules l = Some r)) \<and>
          (c0 = no_rules \<and> offline \<or>
           c0 = c \<and> offline = (\<not> HasDestination c) \<and> (HasDestination c \<longrightarrow> ps_Enforceable pos)))))"
  (is "ensures _ ?P")
  unfolding composed_def
proof (rule ensures_bind [of _ "\<lambda>device. src_DeviceFirewall src (ps_DeviceID pos) = Inr device"])
  fix device assume d: "src_DeviceFirewall src (ps_DeviceID pos) = Inr device"
  let ?levels = "executor_levels exID pos device"
  let ?project = "if trim_space path \<noteq> [] then src_ProjectFirewall src path else Inr None"
  show "ensures (case map_sum (\<lambda>e. ProjectUnreadable) id ?project of Inl e \<Rightarrow> Inl e | Inr project \<Rightarrow>
      if device = None \<and> project = None then Inr None
      else (case Chain ?levels of Inl e \<Rightarrow> Inl e | Inr cur \<Rightarrow>
        (case innermost_level ?levels project (sp_EgressScope spec) cur of Inl e \<Rightarrow> Inl e | Inr (levels, cur) \<Rightarrow>
          if sp_Interfaces spec \<noteq> [] then Inl (InterfacesGranted (sp_Interfaces spec))
          else (case confinable spec pos levels cur of Inl e \<Rightarrow> Inl e | Inr (c, offline) \<Rightarrow>
            Inr (Some (device, levels, c, offline)))))) ?P"
  proof (rule ensures_bind [of _ "\<lambda>project. ?project = Inr project"])
    fix project assume p: "?project = Inr project"
    show "ensures (if device = None \<and> project = None then Inr None
      else (case Chain ?levels of Inl e \<Rightarrow> Inl e | Inr cur \<Rightarrow>
        (case innermost_level ?levels project (sp_EgressScope spec) cur of Inl e \<Rightarrow> Inl e | Inr (levels, cur) \<Rightarrow>
          if sp_Interfaces spec \<noteq> [] then Inl (InterfacesGranted (sp_Interfaces spec))
          else (case confinable spec pos levels cur of Inl e \<Rightarrow> Inl e | Inr (c, offline) \<Rightarrow>
            Inr (Some (device, levels, c, offline)))))) ?P"
    proof (cases "device = None \<and> project = None")
      case False
      show ?thesis unfolding if_not_P [OF False]
      proof (rule ensures_bind [OF ensures_Chain])
        fix cur assume cur: "Chain ?levels = Inr cur"
        have cn: "cur \<noteq> None \<or> project \<noteq> None" using some_level [OF cur order_refl, of project] False by auto
        show "ensures (case innermost_level ?levels project (sp_EgressScope spec) cur of Inl e \<Rightarrow> Inl e | Inr (levels, cur) \<Rightarrow>
          if sp_Interfaces spec \<noteq> [] then Inl (InterfacesGranted (sp_Interfaces spec))
          else (case confinable spec pos levels cur of Inl e \<Rightarrow> Inl e | Inr (c, offline) \<Rightarrow>
            Inr (Some (device, levels, c, offline)))) ?P"
        proof (rule ensures_bind [OF ensures_innermost [OF cur cn]], clarify)
          fix levels cur' assume ch: "Chain levels = Inr cur'" and lv: "set ?levels \<subseteq> set levels"
            and pl: "\<forall>r. project = Some r \<longrightarrow> (\<exists>l \<in> set levels. lv_Rules l = Some r)"
          then obtain c where c: "cur' = Some c" using some_level [OF ch lv _ False] by auto
          show "ensures (if sp_Interfaces spec \<noteq> [] then Inl (InterfacesGranted (sp_Interfaces spec))
            else (case confinable spec pos levels cur' of Inl e \<Rightarrow> Inl e | Inr (c, offline) \<Rightarrow>
              Inr (Some (device, levels, c, offline)))) ?P"
          proof (cases "sp_Interfaces spec = []")
            case True
            have "ensures (case confinable spec pos levels cur' of Inl e \<Rightarrow> Inl e | Inr (c, offline) \<Rightarrow>
                Inr (Some (device, levels, c, offline))) ?P"
              unfolding c by (rule ensures_bind [OF ensures_confinable]) (use d p True ch lv pl c in auto)
            then show ?thesis using True by simp
          qed (simp add: internal_error_def)
        qed
      qed
    qed (use d p in auto)
  qed (rule ensures_read, simp add: internal_error_def)
qed (rule ensures_read, simp add: internal_error_def)

text \<open>What it ships.\<close>

lemma shipped:
  assumes ch: "Chain levels = Inr (Some c)"
    and c0: "c0 = no_rules \<and> offline \<or> c0 = c \<and> offline = (\<not> HasDestination c) \<and> (HasDestination c \<longrightarrow> ps_Enforceable pos)"
  shows "normal (CloseMetadata c0)" "offline = (\<not> HasDestination (CloseMetadata c0))"
    "HasDestination (CloseMetadata c0) \<Longrightarrow> ps_Enforceable pos"
    "l \<in> set levels \<Longrightarrow> lv_Rules l = Some r \<Longrightarrow> accepted r (CloseMetadata c0)"
proof -
  have cc: "normal c" "\<And>l r. l \<in> set levels \<Longrightarrow> lv_Rules l = Some r \<Longrightarrow> \<exists>n. Normalize_rules r = Inr n \<and> bounded n c"
    using Chain_bounds [OF ch] by blast+
  have nd: "\<not> HasDestination no_rules" by (simp add: HasDestination_def no_rules_def)
  show "normal (CloseMetadata c0)" using c0 cc(1) closeMetadata_normal normal_empty
    by (auto simp: CloseMetadata_normal)
  show "offline = (\<not> HasDestination (CloseMetadata c0))"
    using c0 nd closed_destination [OF cc(1)] by (auto simp: CloseMetadata_nothing)
  show "ps_Enforceable pos" if "HasDestination (CloseMetadata c0)"
    using c0 nd closed_destination [OF cc(1)] that by (auto simp: CloseMetadata_nothing)
  show "accepted r (CloseMetadata c0)" if l: "l \<in> set levels" "lv_Rules l = Some r"
  proof -
    obtain n where n: "Normalize_rules r = Inr n" "bounded n c" using cc(2) [OF l] by blast
    show ?thesis using c0 accepted_nothing [OF n(1)] accepted_closed [OF n] by (auto simp: CloseMetadata_nothing)
  qed
qed

definition within_level :: "FirewallRules \<Rightarrow> FirewallRules option \<Rightarrow> bool" where
  "within_level e bound \<longleftrightarrow> (case bound of None \<Rightarrow> True | Some r \<Rightarrow> accepted r e)"

text \<open>A refused spec is left alone, and so is one for which nothing is stored.\<close>

lemma Resolve_egress_refused:
  assumes "Resolve_egress (Some src) spec (Some (exID, pos)) path = (spec', Inl e)" and "\<not> internal_error e"
  shows "spec' = spec"
  using assms
  by (auto simp: Resolve_egress_def Let_def internal_error_def split: sum.splits option.splits)

lemma Resolve_egress_nothing_stored:
  assumes "src_DeviceFirewall src (ps_DeviceID pos) = Inr None"
    and "trim_space path = [] \<or> src_ProjectFirewall src path = Inr None"
  shows "Resolve_egress (Some src) spec (Some (exID, pos)) path = (spec, Inr no_resolution)"
  using assms by (auto simp: Resolve_egress_def composed_def)

lemma Resolve_egress_spec:
  "case Resolve_egress (Some src) spec (Some (exID, pos)) path of
     (spec', Inl e) \<Rightarrow> \<not> internal_error e
   | (spec', Inr res) \<Rightarrow> (\<exists>device project. src_DeviceFirewall src (ps_DeviceID pos) = Inr device \<and>
       (if trim_space path \<noteq> [] then src_ProjectFirewall src path else Inr None) = Inr project \<and>
       (case rs_Effective res of
          None \<Rightarrow> device = None \<and> project = None \<and> spec' = spec
        | Some eff \<Rightarrow> normal eff \<and> sp_EgressRules spec' = Some eff \<and> sp_Interfaces spec' = [] \<and>
            sp_DisableNetwork spec' = (\<not> HasDestination eff) \<and> (HasDestination eff \<longrightarrow> ps_Enforceable pos) \<and>
            within_level eff device \<and> within_level eff project \<and> within_level eff (ps_Config pos) \<and>
            within_level eff (ps_Own pos) \<and>
            sp_EgressBound spec' = (case device of None \<Rightarrow> None | Some d \<Rightarrow>
              (case Normalize_rules d of Inl e \<Rightarrow> None | Inr n \<Rightarrow> Some n))))"
proof (cases "composed src spec exID pos path")
  case (Inl e)
  then show ?thesis using composed_spec [of src spec exID pos path] by (simp add: Resolve_egress_def)
next
  case (Inr res)
  from composed_spec [of src spec exID pos path, unfolded Inr ensures_simps] obtain device project where
    d: "src_DeviceFirewall src (ps_DeviceID pos) = Inr device"
      "(if trim_space path \<noteq> [] then src_ProjectFirewall src path else Inr None) = Inr project" and
    R: "case res of None \<Rightarrow> device = None \<and> project = None
      | Some (device', levels, c0, offline) \<Rightarrow> device' = device \<and> sp_Interfaces spec = [] \<and> (\<exists>c. Chain levels = Inr (Some c) \<and>
          set (executor_levels exID pos device) \<subseteq> set levels \<and>
          (\<forall>r. project = Some r \<longrightarrow> (\<exists>l \<in> set levels. lv_Rules l = Some r)) \<and>
          (c0 = no_rules \<and> offline \<or>
           c0 = c \<and> offline = (\<not> HasDestination c) \<and> (HasDestination c \<longrightarrow> ps_Enforceable pos)))" by blast
  show ?thesis
  proof (cases res)
    case None
    then show ?thesis using Inr d R by (simp add: Resolve_egress_def no_resolution_def)
  next
    case (Some t)
    obtain levels c0 offline where t: "t = (device, levels, c0, offline)" using R Some by (cases t) auto
    obtain c where c: "Chain levels = Inr (Some c)" "set (executor_levels exID pos device) \<subseteq> set levels"
        "\<And>r. project = Some r \<Longrightarrow> \<exists>l \<in> set levels. lv_Rules l = Some r"
        "c0 = no_rules \<and> offline \<or> c0 = c \<and> offline = (\<not> HasDestination c) \<and> (HasDestination c \<longrightarrow> ps_Enforceable pos)"
      and ifs: "sp_Interfaces spec = []"
      using R unfolding Some t by auto
    note sh = shipped [OF c(1,4)]
    have w: "within_level (CloseMetadata c0) b" if "\<exists>l \<in> set levels. lv_Rules l = b" for b
      using sh(4) that by (auto simp: within_level_def split: option.split)
    have wl: "within_level (CloseMetadata c0) device" "within_level (CloseMetadata c0) (ps_Config pos)"
        "within_level (CloseMetadata c0) (ps_Own pos)"
      using c(2) executor_levels_rules [of exID pos device] by (blast intro: w)+
    have wp: "within_level (CloseMetadata c0) project"
      using w [of project] c(3) by (cases project) (auto simp: within_level_def)
    have "\<exists>n. Normalize_rules x = Inr n" if "device = Some x" for x
      using wl(1) that by (auto simp: within_level_def accepted_def)
    then show ?thesis
      using Inr Some t d ifs sh(1-3) wl wp
      by (auto simp: Resolve_egress_def Let_def split: option.split sum.split)
  qed
qed

section \<open>At the driver\<close>

lemma first_exceeded_None:
  "first_exceeded r bs = None \<longleftrightarrow> (\<forall>(name, b) \<in> set bs. \<forall>q. b = Some q \<longrightarrow> Permits (Some q) r = [])"
  by (induction r bs rule: first_exceeded.induct) (auto simp: Let_def)

lemma CheckAtDriver_None:
  "CheckAtDriver source spec own name deviceID = None \<longleftrightarrow>
     (case stored_rules source deviceID of
        Inl e \<Rightarrow> False
      | Inr stored \<Rightarrow>
          (case sp_EgressRules spec of
             None \<Rightarrow> sp_EgressBound spec = None \<and> stored = None
           | Some r \<Rightarrow> \<forall>b \<in> {own, sp_EgressBound spec, stored}. \<forall>q. b = Some q \<longrightarrow> Permits (Some q) r = []))"
proof -
  have "first_exceeded r [(x, own), (y, bound), (z, stored)] = None \<longleftrightarrow>
      (\<forall>b \<in> {own, bound, stored}. \<forall>q. b = Some q \<longrightarrow> Permits (Some q) r = [])" for r x y z bound stored
    unfolding first_exceeded_None by simp
  then show ?thesis unfolding CheckAtDriver_def by (simp split: sum.split option.split)
qed

lemma permits_outside:
  assumes "Permits (Some b) r = []"
  shows "\<exists>R B. filter_of r = Some R \<and> filter_of b = Some B \<and>
    opens R - {(a, port, proto). Unmap a \<in> space (prefixes (fw_DenyCIDRs b))} \<subseteq> opens B"
proof -
  obtain p c where p: "Normalize_rules b = Inr p" and c: "Normalize_rules r = Inr c"
    using permits_readable [OF assms] by blast
  have n: "normal p" "normal c" using p c Normalize_normal by auto
  have f: "fits p c" using permits_fits [OF p c] assms by simp
  obtain R where R: "filter_of r = Some R" "opens R = {(a, port, proto). rules_open c (Unmap a) port proto}"
    using filter_of_normal [OF c] .
  obtain B where B: "filter_of b = Some B" "opens B = {(a, port, proto). rules_open p (Unmap a) port proto}"
    using filter_of_normal [OF p] .
  have d: "space (prefixes (fw_DenyCIDRs b)) = space (prefixes (fw_DenyCIDRs p))"
    using space_set [OF Normalize_sets(2) [OF p]] by simp
  have "opens R - {(a, port, proto). Unmap a \<in> space (prefixes (fw_DenyCIDRs b))} \<subseteq> opens B"
    unfolding R(2) B(2) d using fits_outside [OF n f not_mapped_Unmap] by auto
  with R(1) B(1) show ?thesis by blast
qed

text \<open>Ten and its part: rules saved before and after a denial was added.\<close>

definition ten_rules :: "cidr_text list \<Rightarrow> FirewallRules" where
  "ten_rules denies = no_rules\<lparr>fw_AllowCIDRs := [PrefixText (ip4 10 0 0 0) 8], fw_DenyCIDRs := denies,
     fw_AllowPorts := [443]\<rparr>"

definition ten_denial :: "cidr_text list" where "ten_denial = [PrefixText (ip4 10 1 0 0) 16]"

lemma ten_Normalize: "Normalize_rules (ten_rules []) = Inr (ten_rules [])"
  "Normalize_rules (ten_rules ten_denial) = Inr (ten_rules ten_denial)"
  by code_simp+

lemma ten_parts: "prefixes (fw_AllowCIDRs (ten_rules ds)) = [PrefixFrom (ip4 10 0 0 0) 8]"
  "prefixes (fw_DenyCIDRs (ten_rules [])) = []"
  "prefixes (fw_DenyCIDRs (ten_rules ten_denial)) = [PrefixFrom (ip4 10 1 0 0) 16]"
proof -
  have "prefixes [PrefixText (ip4 10 0 0 0) 8] = [PrefixFrom (ip4 10 0 0 0) 8]"
    "prefixes [] = []" "prefixes ten_denial = [PrefixFrom (ip4 10 1 0 0) 16]" by code_simp+
  then show "prefixes (fw_AllowCIDRs (ten_rules ds)) = [PrefixFrom (ip4 10 0 0 0) 8]"
    "prefixes (fw_DenyCIDRs (ten_rules [])) = []"
    "prefixes (fw_DenyCIDRs (ten_rules ten_denial)) = [PrefixFrom (ip4 10 1 0 0) 16]"
    by (simp_all add: ten_rules_def)
qed

lemma ten_open: "rules_open (ten_rules []) (ip4 10 1 2 3) 443 ProtoTCP" "\<not> rules_open (ten_rules ten_denial) (ip4 10 1 2 3) 443 ProtoTCP"
proof -
  have c: "Contains (PrefixFrom (ip4 10 0 0 0) 8) (ip4 10 1 2 3)" "Contains (PrefixFrom (ip4 10 1 0 0) 16) (ip4 10 1 2 3)"
    "Is4 (ip4 10 0 0 0)" "Is4 (ip4 10 1 0 0)" "Is4 (ip4 10 1 2 3)" "ip4 10 1 2 3 \<notin> set Services"
    "list_all (\<lambda>b. \<not> Is4 (pAddr (bl_Prefix b))) (filter bl_Translation blockSet)" by code_simp+
  then have a: "ip4 10 1 2 3 \<in> addrs (PrefixFrom (ip4 10 0 0 0) 8)" "ip4 10 1 2 3 \<in> addrs (PrefixFrom (ip4 10 1 0 0) 16)"
    by (auto simp: addrs_def Contains_def)
  have "ip4 10 1 2 3 \<notin> translation_space"
    using c(5,7) by (auto simp: translation_space_def space_def list_all_iff in_addrs)
  then show "rules_open (ten_rules []) (ip4 10 1 2 3) 443 ProtoTCP"
    using a c(6) by (simp add: rules_open_def named_space_def unnamed_services_def ten_parts) (simp add: ten_rules_def)
  show "\<not> rules_open (ten_rules ten_denial) (ip4 10 1 2 3) 443 ProtoTCP"
    using a by (simp add: rules_open_def ten_parts)
qed

section \<open>The properties\<close>

text \<open>a chain of levels that composes yields one rule set that opens nothing any of its levels does
  not, or nothing at all where no level sets one.\<close>

theorem chain_contains_every_level:
  "case Chain levels of
     Inl e \<Rightarrow> True
   | Inr None \<Rightarrow> list_all (\<lambda>l. lv_Rules l = None) levels
   | Inr (Some e) \<Rightarrow> Normalize_rules e = Inr e \<and>
       list_all (\<lambda>l. case lv_Rules l of None \<Rightarrow> True | Some r \<Rightarrow> contained_in e r \<and> Permits (Some r) e = []) levels"
proof (cases "Chain levels")
  case (Inr res)
  show ?thesis
  proof (cases res)
    case None
    then show ?thesis using Inr Chain_None by (auto simp: list_all_iff)
  next
    case (Some e)
    have c: "normal e" "\<And>l r. l \<in> set levels \<Longrightarrow> lv_Rules l = Some r \<Longrightarrow> \<exists>n. Normalize_rules r = Inr n \<and> bounded n e"
      using Chain_bounds Inr Some by blast+
    have "contained_in e r \<and> Permits (Some r) e = []" if l: "l \<in> set levels" "lv_Rules l = Some r" for l r
    proof -
      obtain n where n: "Normalize_rules r = Inr n" "bounded n e" using c(2) [OF l] by blast
      have "accepted r e" using n c(1) bounded_open [OF n(2)] by (auto simp: accepted_def bounded_def)
      then show ?thesis using accepted_contained accepted_permits by blast
    qed
    then show ?thesis using Inr Some c(1) Normalize_id by (auto simp: list_all_iff split: option.split)
  qed
qed simp

text \<open>C6: what a dispatch ships is confined by everything stored. Where \<open>Resolve_egress\<close> applies rules, the
  workload's spec is valid, carries no host interface, has a network exactly when the rules name a
  destination the executor can enforce, and opens nothing that the executor's configuration, the
  device's stored rules, the executor's own level or the project's rules do not. It applies none exactly
  where neither the device nor the project has rules stored, and then it returns the spec untouched and
  no error; a spec it refuses is untouched too. It never fails by a fault of its own.\<close>

theorem resolve_confines_the_workload:
  "case Resolve_egress (Some src) spec (Some (exID, pos)) path of
     (spec', Inl e) \<Rightarrow> spec' = spec \<and> e \<noteq> NilDereference \<and>
       (case e of DeviceRulesUnreadable d err \<Rightarrow> False | _ \<Rightarrow> True) \<and>
       \<not> (src_DeviceFirewall src (ps_DeviceID pos) = Inr None \<and>
          (trim_space path = [] \<or> src_ProjectFirewall src path = Inr None))
   | (spec', Inr res) \<Rightarrow>
      (case (src_DeviceFirewall src (ps_DeviceID pos), if trim_space path \<noteq> [] then src_ProjectFirewall src path else Inr None) of
         (Inr device, Inr project) \<Rightarrow>
           (case rs_Effective res of
              None \<Rightarrow> device = None \<and> project = None \<and> spec' = spec
            | Some eff \<Rightarrow> \<not> (device = None \<and> project = None) \<and>
                sp_EgressRules spec' = Some eff \<and> validateEgressRules spec' = None \<and>
                sp_DisableNetwork spec' = (\<not> HasDestination eff) \<and> (if HasDestination eff then ps_Enforceable pos else True) \<and>
                list_all (\<lambda>bound. case bound of None \<Rightarrow> True | Some r \<Rightarrow> contained_in eff r)
                  [ps_Config pos, device, ps_Own pos, project])
       | _ \<Rightarrow> False)"
proof -
  have v: "validateEgressRules s = None"
    if "normal eff" "sp_EgressRules s = Some eff" "sp_Interfaces s = []" "within_level eff device"
      "sp_EgressBound s = (case device of None \<Rightarrow> None | Some d \<Rightarrow> (case Normalize_rules d of Inl e \<Rightarrow> None | Inr n \<Rightarrow> Some n))"
    for s eff device
    using that Normalize_id Normalize_normal
    by (auto simp: validateEgressRules_def within_level_def accepted_def split: option.splits)
  have w: "within_level eff b \<Longrightarrow> (case b of None \<Rightarrow> True | Some r \<Rightarrow> contained_in eff r)" for eff b
    using accepted_contained by (auto simp: within_level_def split: option.splits)
  note spec = Resolve_egress_spec [where src = src and spec = spec and exID = exID and pos = pos and path = path]
  obtain spec' result where R: "Resolve_egress (Some src) spec (Some (exID, pos)) path = (spec', result)" by fastforce
  show ?thesis
  proof (cases result)
    case (Inl e)
    moreover have "spec' = spec" using spec Resolve_egress_refused [OF R [unfolded Inl]] by (simp add: R Inl)
    moreover have "\<not> (src_DeviceFirewall src (ps_DeviceID pos) = Inr None \<and>
        (trim_space path = [] \<or> src_ProjectFirewall src path = Inr None))"
      using Resolve_egress_nothing_stored [of src pos path spec exID] R Inl by auto
    ultimately show ?thesis using spec by (cases e) (simp_all add: R internal_error_def)
  next
    case (Inr res)
    obtain device project where d: "src_DeviceFirewall src (ps_DeviceID pos) = Inr device"
        "(if trim_space path \<noteq> [] then src_ProjectFirewall src path else Inr None) = Inr project"
      and e: "case rs_Effective res of
          None \<Rightarrow> device = None \<and> project = None \<and> spec' = spec
        | Some eff \<Rightarrow> normal eff \<and> sp_EgressRules spec' = Some eff \<and> sp_Interfaces spec' = [] \<and>
            sp_DisableNetwork spec' = (\<not> HasDestination eff) \<and> (HasDestination eff \<longrightarrow> ps_Enforceable pos) \<and>
            within_level eff device \<and> within_level eff project \<and> within_level eff (ps_Config pos) \<and>
            within_level eff (ps_Own pos) \<and>
            sp_EgressBound spec' = (case device of None \<Rightarrow> None | Some d \<Rightarrow>
              (case Normalize_rules d of Inl e \<Rightarrow> None | Inr n \<Rightarrow> Some n))"
      using spec by (auto simp: R Inr)
    show ?thesis
    proof (cases "rs_Effective res")
      case None
      then show ?thesis unfolding R Inr d using e by simp
    next
      case (Some eff)
      have n: "\<not> (device = None \<and> project = None)"
      proof
        assume "device = None \<and> project = None"
        then have "Resolve_egress (Some src) spec (Some (exID, pos)) path = (spec, Inr no_resolution)"
          using d by (intro Resolve_egress_nothing_stored) (auto split: if_splits)
        then show False using R Inr Some by (auto simp: no_resolution_def)
      qed
      from Some have h: "normal eff" "sp_EgressRules spec' = Some eff" "sp_Interfaces spec' = []" "within_level eff device"
          "sp_EgressBound spec' = (case device of None \<Rightarrow> None | Some d \<Rightarrow>
            (case Normalize_rules d of Inl e \<Rightarrow> None | Inr n \<Rightarrow> Some n))"
        and k: "sp_DisableNetwork spec' = (\<not> HasDestination eff)" "HasDestination eff \<longrightarrow> ps_Enforceable pos"
          "within_level eff project" "within_level eff (ps_Config pos)" "within_level eff (ps_Own pos)" using e by simp_all
      show ?thesis unfolding R Inr d prod.case sum.case Some option.case
        using v [OF h] n h(2) k(1,2) w [OF h(4)] w [OF k(3)] w [OF k(4)] w [OF k(5)] by simp
    qed
  qed
qed

text \<open>what a dispatch ships, the driver accepts: with the store as it was, the check passes for the
  executor's configured level and for its own.\<close>

theorem driver_accepts_the_dispatch:
  "case Resolve_egress (Some src) spec (Some (exID, pos)) path of
     (spec', Inr res) \<Rightarrow>
       if rs_Effective res \<noteq> None
       then list_all (\<lambda>own. CheckAtDriver (Some src) spec' own name (ps_DeviceID pos) = None) [None, ps_Config pos, ps_Own pos]
       else True
   | _ \<Rightarrow> True"
proof -
  have "CheckAtDriver (Some src) spec' own name (ps_DeviceID pos) = None"
    if r: "Resolve_egress (Some src) spec (Some (exID, pos)) path = (spec', Inr res)" "rs_Effective res = Some eff"
      and own: "own \<in> {None, ps_Config pos, ps_Own pos}" for spec' res own eff
  proof -
    obtain device where d: "src_DeviceFirewall src (ps_DeviceID pos) = Inr device" "sp_EgressRules spec' = Some eff"
        "normal eff" "within_level eff device" "within_level eff (ps_Config pos)" "within_level eff (ps_Own pos)"
        "sp_EgressBound spec' = (case device of None \<Rightarrow> None | Some d \<Rightarrow>
          (case Normalize_rules d of Inl e \<Rightarrow> None | Inr n \<Rightarrow> Some n))"
      using Resolve_egress_spec [where src = src and spec = spec and exID = exID and pos = pos and path = path] r by auto
    have p: "Permits (Some q) eff = []" if "within_level eff (Some q)" for q
      using that accepted_permits by (simp add: within_level_def)
    have bound: "Permits (Some n) eff = []" if b: "sp_EgressBound spec' = Some n" for n
    proof -
      obtain x where x: "device = Some x" "Normalize_rules x = Inr n" using b d(7) by (auto split: option.splits sum.splits)
      then have "Permits (Some x) eff = []" using p d(4) by simp
      then show ?thesis using permits_normal [OF x(2) Normalize_id [OF d(3)]] by simp
    qed
    have "Permits (Some q) eff = []" if o: "own = Some q" for q
      by (rule p) (use own d(5,6) o in auto)
    then show ?thesis using d(1,2,4) p bound
      by (auto simp: CheckAtDriver_None stored_rules_def)
  qed
  then show ?thesis by (auto split: prod.split sum.split)
qed

text \<open>what the driver's check does show. When it passes, a workload without rules faces no stored
  and no carried bound, and one with rules opens nothing outside the denials of each bound that the
  bound does not open.\<close>

theorem driver_check_holds_outside_denials:
  "if CheckAtDriver source spec own name deviceID = None
   then case stored_rules source deviceID of
          Inl e \<Rightarrow> False
        | Inr stored \<Rightarrow>
            (case sp_EgressRules spec of
               None \<Rightarrow> stored = None \<and> sp_EgressBound spec = None
             | Some r \<Rightarrow> list_all (\<lambda>bound. case bound of None \<Rightarrow> True | Some b \<Rightarrow>
                 (case (filter_of r, filter_of b) of
                    (Some R, Some B) \<Rightarrow> opens R - {(a, port, proto). Unmap a \<in> space (prefixes (fw_DenyCIDRs b))} \<subseteq> opens B
                  | _ \<Rightarrow> False)) [own, sp_EgressBound spec, stored])
   else True"
proof -
  have "case (filter_of r, filter_of b) of
      (Some R, Some B) \<Rightarrow> opens R - {(a, port, proto). Unmap a \<in> space (prefixes (fw_DenyCIDRs b))} \<subseteq> opens B
    | _ \<Rightarrow> False" if "Permits (Some b) r = []" for b r
    using permits_outside [OF that] by auto
  then show ?thesis unfolding CheckAtDriver_None
    by (cases "stored_rules source deviceID"; cases "sp_EgressRules spec") (simp_all split: option.split)
qed

text \<open>the check does not see a denial added after the dispatch. A workload that carries the device's
  rules from before 10.1.0.0/16 was denied passes the check against the store that denies it, and the
  filter it installs opens an address the stored rules close.\<close>

theorem new_denial_passes_the_driver:
  "CheckAtDriver (Some \<lparr>src_DeviceFirewall = (\<lambda>d. Inr (Some (ten_rules ten_denial))), src_ProjectFirewall = (\<lambda>p. Inr None)\<rparr>)
     \<lparr>sp_DisableNetwork = False, sp_Interfaces = [], sp_EgressScope = EgressScopeUnset, sp_Workspace = WorkspaceNone,
      sp_EgressRules = Some (ten_rules []), sp_EgressBound = Some (ten_rules [])\<rparr> None name deviceID = None \<and>
   (case (filter_of (ten_rules []), filter_of (ten_rules ten_denial)) of
      (Some R, Some S) \<Rightarrow> (ip4 10 1 2 3, 443, ProtoTCP) \<in> opens R \<and> (ip4 10 1 2 3, 443, ProtoTCP) \<notin> opens S
    | _ \<Rightarrow> False)"
proof -
  note n = Normalize_normal [OF ten_Normalize(1)] Normalize_normal [OF ten_Normalize(2)]
  have "fits (ten_rules ten_denial) (ten_rules [])" by (rule fits_same [OF n(2)]) (simp_all add: ten_rules_def)
  then have p: "Permits (Some (ten_rules ten_denial)) (ten_rules []) = []" "Permits (Some (ten_rules [])) (ten_rules []) = []"
    using permits_fits ten_Normalize fits_refl [OF n(1)] by auto
  obtain R where R: "filter_of (ten_rules []) = Some R" "opens R = {(a, port, proto). rules_open (ten_rules []) (Unmap a) port proto}"
    using filter_of_normal [OF ten_Normalize(1)] .
  obtain S where S: "filter_of (ten_rules ten_denial) = Some S"
      "opens S = {(a, port, proto). rules_open (ten_rules ten_denial) (Unmap a) port proto}"
    using filter_of_normal [OF ten_Normalize(2)] .
  have u: "Unmap (ip4 10 1 2 3) = ip4 10 1 2 3" by code_simp
  show ?thesis using p R S u ten_open by (auto simp: CheckAtDriver_None stored_rules_def)
qed

end
