(* ===== verification/NetworkPolicy.thy ===== *)
theory NetworkPolicy
  imports NetFilter GoStrings
begin

text \<open>
  pkg/netfilter/networkpolicy.go: a compiled policy as a Kubernetes NetworkPolicy, an unordered union of
  allows with holes. The lists the code sorts as text are sorted as prefixes; a port is always set.
  What a cluster makes of the object is \<open>np_allows\<close>, the documented meaning of an egress policy; which
  pods a selector picks is a parameter.
\<close>

section \<open>The object\<close>

datatype Transport = TransportTCP | TransportUDP | TransportSCTP

record NetworkPolicyPort =
  npp_Protocol :: Transport
  npp_Port :: port

record IPBlock =
  ipb_CIDR :: Prefix
  ipb_Except :: "Prefix list"

type_synonym selector = "(string \<times> string) list"

datatype NetworkPolicyPeer = IPBlockPeer IPBlock | NamespacePeer selector

record NetworkPolicyRule =
  npr_To :: "NetworkPolicyPeer list"
  npr_Ports :: "NetworkPolicyPort list"

record NetworkPolicy =
  np_Name :: string
  np_Namespace :: string
  np_Labels :: selector
  np_Annotations :: selector
  np_PodSelector :: selector
  np_PolicyTypes :: "string list"
  np_Egress :: "NetworkPolicyRule list"

record NetworkPolicyOptions =
  npo_Name :: string
  npo_Namespace :: string
  npo_PodSelector :: selector
  npo_Labels :: selector
  npo_Annotations :: selector
  npo_AllowClusterDNS :: bool
  npo_DNSNamespaceLabels :: selector

datatype render_error = NeedsName | NeedsPodSelector string

section \<open>Ports\<close>

definition transports :: "Proto \<Rightarrow> Transport list" where
  "transports proto = (case proto of ProtoUDP \<Rightarrow> [TransportUDP] | ProtoTCP \<Rightarrow> [TransportTCP]
     | ProtoAny \<Rightarrow> [TransportTCP, TransportUDP, TransportSCTP])"

definition renderPorts :: "Proto \<Rightarrow> port list \<Rightarrow> NetworkPolicyPort list" where
  "renderPorts proto ports =
     (if ports = [] then []
      else concat (map (\<lambda>t. map (\<lambda>p. \<lparr>npp_Protocol = t, npp_Port = p\<rparr>) ports) (transports proto)))"

definition proto_string :: "Proto \<Rightarrow> string" where
  "proto_string p = (case p of ProtoTCP \<Rightarrow> ''tcp'' | ProtoUDP \<Rightarrow> ''udp'' | ProtoAny \<Rightarrow> ''any'')"

definition joinPorts :: "port list \<Rightarrow> string" where
  "joinPorts ports = (if ports = [] then ''any'' else join '', '' (map (\<lambda>p. itoa (uint p)) ports))"

definition portKey :: "Proto \<Rightarrow> port list \<Rightarrow> string" where
  "portKey proto ports = proto_string proto @ ''/'' @ joinPorts ports"

definition opensEveryPortOf :: "Rule \<Rightarrow> Rule \<Rightarrow> bool" where
  "opensEveryPortOf a w \<longleftrightarrow>
     (if ru_Proto a \<noteq> ProtoAny \<and> ru_Proto a \<noteq> ru_Proto w then False
      else if ru_Ports a = [] then True
      else if ru_Ports w = [] then False
      else list_all (\<lambda>p. p \<in> set (ru_Ports a)) (ru_Ports w))"

section \<open>Holes\<close>

definition deniedPrefixes :: "Rule list \<Rightarrow> Prefix list" where
  "deniedPrefixes rules = map ru_Prefix (filter (\<lambda>r. ru_Denied r \<and> ru_Verdict r = VerdictDrop) rules)"

definition coveredBy :: "Prefix \<Rightarrow> Prefix list \<Rightarrow> bool" where
  "coveredBy p denied \<longleftrightarrow>
     list_ex (\<lambda>d. Is4 (pAddr d) = Is4 (pAddr p) \<and> pBits d \<le> pBits p \<and> Contains d (pAddr p)) denied"

fun added_holes :: "Prefix list \<Rightarrow> Prefix \<Rightarrow> Prefix list \<Rightarrow> Prefix list \<Rightarrow> Prefix list" where
  "added_holes existing block added [] = added"
| "added_holes existing block added (d # ds) =
     (if Is4 (pAddr d) \<noteq> Is4 (pAddr block) \<or> pBits d \<le> pBits block \<or> \<not> Contains block (pAddr d)
      then added_holes existing block added ds
      else if coveredBy d existing \<or> coveredBy d added then added_holes existing block added ds
      else added_holes existing block (added @ [d]) ds)"

definition mergeExcepts :: "Prefix list \<Rightarrow> Prefix \<Rightarrow> Prefix list \<Rightarrow> Prefix list" where
  "mergeExcepts except block holes =
     (let added = added_holes except block [] holes in if added = [] then except else sort (except @ added))"

definition wire_allow :: "Rule \<Rightarrow> bool" where
  "wire_allow r \<longleftrightarrow> ru_Verdict r = VerdictAllow \<and> ru_Scope r = ScopeWire"

text \<open>The last allow of everything in a family, as the code's map keeps it.\<close>

definition wide_allow :: "Rule list \<Rightarrow> bool \<Rightarrow> Rule option" where
  "wide_allow rules v4 =
     (case filter (\<lambda>r. wire_allow r \<and> pBits (ru_Prefix r) = 0 \<and> Is4 (pAddr (ru_Prefix r)) = v4) rules of
        [] \<Rightarrow> None
      | ws \<Rightarrow> Some (last ws))"

definition outright :: "Rule list \<Rightarrow> Prefix list" where
  "outright rules = map ru_Prefix (filter (\<lambda>r. wire_allow r \<and> pBits (ru_Prefix r) \<noteq> 0 \<and>
     (case wide_allow rules (Is4 (pAddr (ru_Prefix r))) of None \<Rightarrow> False | Some w \<Rightarrow> opensEveryPortOf r w)) rules)"

definition exceptSet :: "Rule list \<Rightarrow> bool \<Rightarrow> Prefix list" where
  "exceptSet rules v4 = sort (map bl_Prefix (filter (\<lambda>b. bl_Prefix b \<notin> set (outright rules) \<and> pBits (bl_Prefix b) \<noteq> 0 \<and>
     Is4 (pAddr (bl_Prefix b)) = v4) blockSet))"

section \<open>Rendering\<close>

text \<open>The allows in order, each with its block, under the carves seen so far.\<close>

fun rendered :: "(bool \<Rightarrow> Prefix list) \<Rightarrow> Prefix list \<Rightarrow> Prefix list \<Rightarrow> Rule list \<Rightarrow> (Rule \<times> IPBlock) list" where
  "rendered excepts denied carved [] = []"
| "rendered excepts denied carved (r # rs) =
     (if ru_Scope r \<noteq> ScopeWire then rendered excepts denied carved rs
      else if ru_Verdict r = VerdictDrop
      then rendered excepts denied (if ru_Carve r then carved @ [ru_Prefix r] else carved) rs
      else if coveredBy (ru_Prefix r) denied \<or> coveredBy (ru_Prefix r) carved then rendered excepts denied carved rs
      else (r, \<lparr>ipb_CIDR = ru_Prefix r,
              ipb_Except = mergeExcepts (mergeExcepts
                (if pBits (ru_Prefix r) = 0 then excepts (Is4 (pAddr (ru_Prefix r))) else []) (ru_Prefix r) denied)
                (ru_Prefix r) carved\<rparr>) # rendered excepts denied carved rs)"

type_synonym group = "(Proto \<times> port list) \<times> NetworkPolicyPeer list"

fun insert_peer :: "Proto \<times> port list \<Rightarrow> NetworkPolicyPeer \<Rightarrow> group list \<Rightarrow> group list" where
  "insert_peer key peer [] = [(key, [peer])]"
| "insert_peer key peer ((k, peers) # gs) =
     (if k = key then (k, peers @ [peer]) # gs else (k, peers) # insert_peer key peer gs)"

definition grouped :: "(Rule \<times> IPBlock) list \<Rightarrow> group list" where
  "grouped rs = fold (\<lambda>(r, b) gs. insert_peer (ru_Proto r, ru_Ports r) (IPBlockPeer b) gs) rs []"

definition dns_rule :: "NetworkPolicyOptions \<Rightarrow> NetworkPolicyRule" where
  "dns_rule opts =
     \<lparr>npr_To = [NamespacePeer (if npo_DNSNamespaceLabels opts = [] then [(''kubernetes.io/metadata.name'', ''kube-system'')]
                               else npo_DNSNamespaceLabels opts)],
      npr_Ports = [\<lparr>npp_Protocol = TransportUDP, npp_Port = 53\<rparr>, \<lparr>npp_Protocol = TransportTCP, npp_Port = 53\<rparr>]\<rparr>"

definition RenderNetworkPolicy :: "FilterPolicy \<Rightarrow> NetworkPolicyOptions \<Rightarrow> render_error + NetworkPolicy" where
  "RenderNetworkPolicy p opts =
     (if npo_Name opts = [] then Inl NeedsName
      else if npo_PodSelector opts = [] then Inl (NeedsPodSelector (npo_Namespace opts))
      else Inr
        \<lparr>np_Name = npo_Name opts, np_Namespace = npo_Namespace opts, np_Labels = npo_Labels opts,
         np_Annotations = npo_Annotations opts, np_PodSelector = npo_PodSelector opts,
         np_PolicyTypes = [''Egress'', ''Ingress''],
         np_Egress = (if npo_AllowClusterDNS opts then [dns_rule opts] else []) @
           map (\<lambda>((proto, ports), peers). \<lparr>npr_To = peers, npr_Ports = renderPorts proto ports\<rparr>)
             (sort_key (\<lambda>((proto, ports), peers). portKey proto ports)
               (grouped (rendered (exceptSet (po_Rules p)) (deniedPrefixes (po_Rules p)) [] (po_Rules p))))\<rparr>)"

section \<open>What the cluster makes of it\<close>

definition peer_matches :: "(selector \<Rightarrow> addr \<Rightarrow> bool) \<Rightarrow> NetworkPolicyPeer \<Rightarrow> addr \<Rightarrow> bool" where
  "peer_matches selects peer a =
     (case peer of
        IPBlockPeer b \<Rightarrow> Contains (ipb_CIDR b) a \<and> \<not> list_ex (\<lambda>e. Contains e a) (ipb_Except b)
      | NamespacePeer l \<Rightarrow> selects l a)"

definition port_matches :: "NetworkPolicyPort list \<Rightarrow> port \<Rightarrow> Transport \<Rightarrow> bool" where
  "port_matches ports port t \<longleftrightarrow> ports = [] \<or> list_ex (\<lambda>p. npp_Protocol p = t \<and> npp_Port p = port) ports"

definition np_allows :: "(selector \<Rightarrow> addr \<Rightarrow> bool) \<Rightarrow> NetworkPolicy \<Rightarrow> addr \<Rightarrow> port \<Rightarrow> Transport \<Rightarrow> bool" where
  "np_allows selects np a port t \<longleftrightarrow>
     list_ex (\<lambda>r. (npr_To r = [] \<or> list_ex (\<lambda>peer. peer_matches selects peer a) (npr_To r)) \<and>
       port_matches (npr_Ports r) port t) (np_Egress np)"

section \<open>Holes as sets\<close>

lemma coveredBy_space: "coveredBy p ds \<Longrightarrow> list_all IsValid ds \<Longrightarrow> IsValid p \<Longrightarrow> addrs p \<subseteq> space ds"
  using contains_iff_subset by (fastforce simp: coveredBy_def list_ex_iff list_all_iff space_def)

lemma overlap_covers:
  assumes "IsValid p" and "IsValid d" and "a \<in> addrs p" and "a \<in> addrs d" and "pBits d \<le> pBits p"
  shows "Is4 (pAddr d) = Is4 (pAddr p)" "Contains d (pAddr p)"
  using nested [OF assms(2,1,5,4,3)] assms(3,4) contains_iff_subset [OF assms(2,1,5)] by (auto simp: in_addrs)

lemma added_holes_space:
  assumes "IsValid block" and "list_all IsValid existing" and "list_all IsValid added" and "list_all IsValid ds"
    and "\<not> coveredBy block ds" and "a \<in> addrs block"
  shows "list_all IsValid (added_holes existing block added ds) \<and>
    (a \<in> space existing \<or> a \<in> space (added_holes existing block added ds) \<longleftrightarrow>
     a \<in> space existing \<or> a \<in> space added \<or> a \<in> space ds)"
  using assms(3-5)
proof (induction ds arbitrary: added)
  case (Cons d ds)
  have rest: "\<not> coveredBy block ds" "IsValid d" using Cons.prems by (auto simp: coveredBy_def)
  show ?case
  proof (cases "Is4 (pAddr d) \<noteq> Is4 (pAddr block) \<or> pBits d \<le> pBits block \<or> \<not> Contains block (pAddr d)")
    case True
    have "a \<notin> addrs d"
    proof
      assume a: "a \<in> addrs d"
      consider "pBits d \<le> pBits block" | "pBits block \<le> pBits d" by linarith
      then show False
      proof cases
        case 1
        have "coveredBy block (d # ds)"
          using overlap_covers [OF assms(1) rest(2) assms(6) a 1] 1 by (simp add: coveredBy_def)
        with Cons.prems(3) show False ..
      next
        case 2
        from overlap_covers [OF rest(2) assms(1) a assms(6) 2] True 2
        have "pBits d = pBits block" by auto
        then have "coveredBy block (d # ds)"
          using overlap_covers [OF assms(1) rest(2) assms(6) a] by (simp add: coveredBy_def)
        with Cons.prems(3) show False ..
      qed
    qed
    then show ?thesis using Cons.IH [OF Cons.prems(1) _ rest(1)] Cons.prems(2) True by auto
  next
    case False
    show ?thesis
    proof (cases "coveredBy d existing \<or> coveredBy d added")
      case True
      then have "addrs d \<subseteq> space existing \<union> space added"
        using coveredBy_space [OF _ assms(2) rest(2)] coveredBy_space [OF _ Cons.prems(1) rest(2)] by auto
      then show ?thesis using Cons.IH [OF Cons.prems(1) _ rest(1)] Cons.prems(2) True False by auto
    next
      case new: False
      have "list_all IsValid (added @ [d])" using Cons.prems(1) rest(2) by simp
      from Cons.IH [OF this _ rest(1)] show ?thesis using Cons.prems(2) new False by auto
    qed
  qed
qed simp

lemma mergeExcepts_space:
  assumes "IsValid block" and "list_all IsValid except" and "list_all IsValid ds" and "\<not> coveredBy block ds"
    and "a \<in> addrs block"
  shows "list_all IsValid (mergeExcepts except block ds) \<and>
    (a \<in> space (mergeExcepts except block ds) \<longleftrightarrow> a \<in> space except \<or> a \<in> space ds)"
proof -
  note h = added_holes_space [OF assms(1,2) _ assms(3-5), of "[]"]
  have "space (sort xs) = space xs" for xs by (rule space_set) simp
  then show ?thesis using h assms(2) by (auto simp: mergeExcepts_def Let_def list_all_iff)
qed

text \<open>A rendered block is its range less the holes.\<close>

definition block_of :: "(bool \<Rightarrow> Prefix list) \<Rightarrow> Prefix list \<Rightarrow> Prefix list \<Rightarrow> Prefix \<Rightarrow> IPBlock" where
  "block_of excepts denied carved p = \<lparr>ipb_CIDR = p, ipb_Except = mergeExcepts (mergeExcepts
     (if pBits p = 0 then excepts (Is4 (pAddr p)) else []) p denied) p carved\<rparr>"

lemma block_matches:
  assumes v: "IsValid p" "list_all IsValid denied" "list_all IsValid carved" "\<And>f. list_all IsValid (excepts f)"
  shows "\<not> (coveredBy p denied \<or> coveredBy p carved) \<and>
      peer_matches selects (IPBlockPeer (block_of excepts denied carved p)) a \<longleftrightarrow>
    a \<in> addrs p \<and> a \<notin> space denied \<and> a \<notin> space carved \<and> (pBits p = 0 \<longrightarrow> a \<notin> space (excepts (Is4 a)))"
proof (cases "a \<in> addrs p \<and> \<not> (coveredBy p denied \<or> coveredBy p carved)")
  case True
  let ?e = "if pBits p = 0 then excepts (Is4 (pAddr p)) else []"
  have e: "list_all IsValid ?e" using v(4) by simp
  note m = mergeExcepts_space [OF v(1) e v(2), of a] mergeExcepts_space [OF v(1) _ v(3), of "mergeExcepts ?e p denied" a]
  have "peer_matches selects (IPBlockPeer (block_of excepts denied carved p)) a \<longleftrightarrow>
      a \<notin> space (mergeExcepts (mergeExcepts ?e p denied) p carved)"
    using True by (auto simp: peer_matches_def block_of_def addrs_def space_def list_ex_iff)
  moreover have "Is4 (pAddr p) = Is4 a" using True by (simp add: in_addrs)
  ultimately show ?thesis using m True by auto
next
  case False
  then consider "a \<notin> addrs p" | "coveredBy p denied \<or> coveredBy p carved" "a \<in> addrs p" by blast
  then show ?thesis
  proof cases
    case 1
    then show ?thesis by (auto simp: peer_matches_def block_of_def addrs_def)
  next
    case 2
    then show ?thesis using coveredBy_space [OF _ v(2,1)] coveredBy_space [OF _ v(3,1)] by auto
  qed
qed

section \<open>What a rendered rule list opens\<close>

definition pairs_open :: "(Rule \<times> IPBlock) list \<Rightarrow> addr \<Rightarrow> port \<Rightarrow> Transport \<Rightarrow> bool" where
  "pairs_open rs a port t \<longleftrightarrow> list_ex (\<lambda>(r, b). peer_matches (\<lambda>l a. False) (IPBlockPeer b) a \<and>
     port_matches (renderPorts (ru_Proto r) (ru_Ports r)) port t) rs"

definition members :: "group list \<Rightarrow> ((Proto \<times> port list) \<times> NetworkPolicyPeer) set" where
  "members gs = {(k, peer). \<exists>peers. (k, peers) \<in> set gs \<and> peer \<in> set peers}"

lemma members_simps: "members [] = {}" "members ((k, peers) # gs) = Pair k ` set peers \<union> members gs"
  by (auto simp: members_def)

lemma members_insert: "members (insert_peer k peer gs) = insert (k, peer) (members gs)"
  by (induction k peer gs rule: insert_peer.induct) (auto simp: members_simps)

lemma groups_nonempty: "list_all (\<lambda>(k, peers). peers \<noteq> []) gs \<Longrightarrow>
    list_all (\<lambda>(k, peers). peers \<noteq> []) (insert_peer k peer gs)"
  by (induction k peer gs rule: insert_peer.induct) auto

lemma grouped_from:
  "members (fold (\<lambda>(r, b) gs. insert_peer (ru_Proto r, ru_Ports r) (IPBlockPeer b) gs) rs gs) =
     members gs \<union> {((ru_Proto r, ru_Ports r), IPBlockPeer b) | r b. (r, b) \<in> set rs} \<and>
   (list_all (\<lambda>(k, peers). peers \<noteq> []) gs \<longrightarrow> list_all (\<lambda>(k, peers). peers \<noteq> [])
      (fold (\<lambda>(r, b) gs. insert_peer (ru_Proto r, ru_Ports r) (IPBlockPeer b) gs) rs gs))"
proof (induction rs arbitrary: gs)
  case (Cons x rs)
  obtain r b where "x = (r, b)" by fastforce
  then show ?case
    using Cons.IH [of "insert_peer (ru_Proto r, ru_Ports r) (IPBlockPeer b) gs"] groups_nonempty
    by (auto simp: members_insert)
qed simp

lemma members_grouped: "members (grouped rs) = {((ru_Proto r, ru_Ports r), IPBlockPeer b) | r b. (r, b) \<in> set rs}"
  and nonempty_grouped: "(k, peers) \<in> set (grouped rs) \<Longrightarrow> peers \<noteq> []"
  using grouped_from [of rs "[]"] by (auto simp: grouped_def members_def list_all_iff)

lemma ip_peer: "peer_matches selects (IPBlockPeer b) a = peer_matches (\<lambda>l a. False) (IPBlockPeer b) a"
  by (simp add: peer_matches_def)

lemma bex_triple: "(\<exists>x \<in> S. Q (fst (fst x)) (snd (fst x)) (snd x)) \<longleftrightarrow> (\<exists>a b c. ((a, b), c) \<in> S \<and> Q a b c)"
  by force

lemma grouped_open:
  "list_ex (\<lambda>r. (npr_To r = [] \<or> list_ex (\<lambda>peer. peer_matches selects peer a) (npr_To r)) \<and> port_matches (npr_Ports r) port t)
     (map (\<lambda>((proto, ports), peers). \<lparr>npr_To = peers, npr_Ports = renderPorts proto ports\<rparr>) (sort_key f (grouped rs)))
   \<longleftrightarrow> pairs_open rs a port t"
  (is "?L \<longleftrightarrow> _")
proof -
  have "?L \<longleftrightarrow> (\<exists>proto ports peers. ((proto, ports), peers) \<in> set (grouped rs) \<and>
      (peers = [] \<or> (\<exists>peer \<in> set peers. peer_matches selects peer a)) \<and> port_matches (renderPorts proto ports) port t)"
    unfolding bex_triple [symmetric] by (simp add: list_ex_iff split_def)
  also have "\<dots> \<longleftrightarrow> (\<exists>proto ports peer. ((proto, ports), peer) \<in> members (grouped rs) \<and>
      peer_matches selects peer a \<and> port_matches (renderPorts proto ports) port t)"
    using nonempty_grouped by (fastforce simp: members_def)
  also have "\<dots> \<longleftrightarrow> (\<exists>r b. (r, b) \<in> set rs \<and> peer_matches selects (IPBlockPeer b) a \<and>
      port_matches (renderPorts (ru_Proto r) (ru_Ports r)) port t)"
    unfolding members_grouped by blast
  finally show ?thesis unfolding pairs_open_def ip_peer [of selects] by (auto simp: list_ex_iff)
qed

text \<open>Stage by stage.\<close>

definition opened :: "(bool \<Rightarrow> Prefix list) \<Rightarrow> Prefix list \<Rightarrow> Prefix list \<Rightarrow> addr \<Rightarrow> port \<Rightarrow> Transport \<Rightarrow> Rule \<Rightarrow> bool" where
  "opened excepts denied carved a port t r \<longleftrightarrow> a \<in> addrs (ru_Prefix r) \<and> a \<notin> space denied \<and> a \<notin> space carved \<and>
     (pBits (ru_Prefix r) = 0 \<longrightarrow> a \<notin> space (excepts (Is4 a))) \<and>
     port_matches (renderPorts (ru_Proto r) (ru_Ports r)) port t"

lemma pairs_open_Cons: "pairs_open ((r, b) # rs) a port t \<longleftrightarrow>
    peer_matches (\<lambda>l a. False) (IPBlockPeer b) a \<and> port_matches (renderPorts (ru_Proto r) (ru_Ports r)) port t \<or>
    pairs_open rs a port t"
  by (simp add: pairs_open_def)

lemma rendered_allows:
  assumes "list_all wire_allow rs" and "list_all (\<lambda>r. IsValid (ru_Prefix r)) rs" and "list_all IsValid denied"
    and "list_all IsValid carved" and "\<And>f. list_all IsValid (excepts f)"
  shows "pairs_open (rendered excepts denied carved (rs @ ss)) a port t \<longleftrightarrow>
    list_ex (opened excepts denied carved a port t) rs \<or> pairs_open (rendered excepts denied carved ss) a port t"
  using assms(1,2)
proof (induction rs)
  case (Cons r rs)
  have v: "IsValid (ru_Prefix r)" using Cons.prems by simp
  have w: "\<not> ru_Scope r \<noteq> ScopeWire" "ru_Verdict r \<noteq> VerdictDrop" using Cons.prems(1) by (auto simp: wire_allow_def)
  let ?c = "coveredBy (ru_Prefix r) denied \<or> coveredBy (ru_Prefix r) carved"
  have "pairs_open (rendered excepts denied carved ((r # rs) @ ss)) a port t \<longleftrightarrow>
      (\<not> ?c \<and> peer_matches (\<lambda>l a. False) (IPBlockPeer (block_of excepts denied carved (ru_Prefix r))) a) \<and>
         port_matches (renderPorts (ru_Proto r) (ru_Ports r)) port t \<or>
      pairs_open (rendered excepts denied carved (rs @ ss)) a port t"
    using w by (simp add: pairs_open_Cons block_of_def)
  also have "\<dots> \<longleftrightarrow> opened excepts denied carved a port t r \<or> pairs_open (rendered excepts denied carved (rs @ ss)) a port t"
    unfolding block_matches [OF v assms(3,4,5)] opened_def by blast
  finally show ?case using Cons by auto
qed simp

lemma rendered_drops:
  "list_all (\<lambda>r. ru_Verdict r = VerdictDrop \<and> ru_Scope r = ScopeWire \<and> ru_Carve r = c) rs \<Longrightarrow>
     rendered excepts denied carved (rs @ ss) =
       rendered excepts denied (if c then carved @ map ru_Prefix rs else carved) ss"
  by (induction rs arbitrary: carved) auto

lemma rendered_local:
  "list_all (\<lambda>r. ru_Scope r \<noteq> ScopeWire) rs \<Longrightarrow> rendered excepts denied carved (rs @ ss) = rendered excepts denied carved ss"
  by (induction rs) auto

lemma rendered_Nil: "\<not> pairs_open (rendered excepts denied carved []) a port t"
  by (simp add: pairs_open_def)

lemma stage_kinds:
  "list_all (\<lambda>r. ru_Scope r \<noteq> ScopeWire) local_rules"
  "list_all (\<lambda>r. ru_Verdict r = VerdictDrop \<and> ru_Scope r = ScopeWire \<and> ru_Carve r = False) (deny_rules ds)"
  "list_all (\<lambda>r. ru_Verdict r = VerdictDrop \<and> ru_Scope r = ScopeWire \<and> ru_Carve r = False) block_rules"
  "list_all (\<lambda>r. ru_Verdict r = VerdictDrop \<and> ru_Scope r = ScopeWire \<and> ru_Carve r = True) translation_rules"
  "list_all (\<lambda>r. ru_Verdict r = VerdictDrop \<and> ru_Scope r = ScopeWire \<and> ru_Carve r = True) (carve_rules ss)"
  "list_all wire_allow (broker_rules bs)" "list_all wire_allow (resolver_rules rs)"
  "list_all wire_allow (grant_rules ports cs)" "list_all wire_allow (public_rules ports)"
  by (auto simp: local_rules_def deny_rules_def broker_rules_def resolver_rules_def translation_rules_def
      carve_rules_def grant_rules_def block_rules_def public_rules_def list_all_iff wire_allow_def wire_rule_def drop_rule_def)

lemma stage_valid:
  "list_all (\<lambda>r. IsValid (ru_Prefix r)) (broker_rules bs)" "list_all (\<lambda>r. IsValid (ru_Prefix r)) (resolver_rules rs)"
  "list_all IsValid cs \<Longrightarrow> list_all (\<lambda>r. IsValid (ru_Prefix r)) (grant_rules ports cs)"
  "list_all (\<lambda>r. IsValid (ru_Prefix r)) (public_rules ports)"
  by (auto simp: broker_rules_def resolver_rules_def grant_rules_def public_rules_def list_all_iff host_prefix_def
      IsValid_def ip4_def ip6_def)

lemma deniedPrefixes_stages: "deniedPrefixes (stages ports cidrs denies brokers resolvers public) = denies"
proof -
  have "deniedPrefixes (deny_rules denies) = denies"
    by (induction denies) (simp_all add: deniedPrefixes_def deny_rules_def drop_rule_def wire_rule_def)
  moreover have "deniedPrefixes local_rules = []" "deniedPrefixes (broker_rules brokers) = []"
    "deniedPrefixes (resolver_rules resolvers) = []" "deniedPrefixes translation_rules = []"
    "deniedPrefixes (carve_rules ss) = []" "deniedPrefixes (grant_rules ports cidrs) = []" "deniedPrefixes block_rules = []"
    "deniedPrefixes (public_rules ports) = []" for ss
    by (auto simp: deniedPrefixes_def local_rules_def broker_rules_def resolver_rules_def translation_rules_def
      carve_rules_def grant_rules_def block_rules_def public_rules_def wire_rule_def drop_rule_def filter_empty_conv)
  moreover have "deniedPrefixes (xs @ ys) = deniedPrefixes xs @ deniedPrefixes ys" for xs ys
    by (simp add: deniedPrefixes_def)
  ultimately show ?thesis by (simp add: stages_def deniedPrefixes_def [of "[]"])
qed

text \<open>The ports of a rule, to a cluster.\<close>

definition ports_open :: "port list \<Rightarrow> port \<Rightarrow> Transport \<Rightarrow> bool" where
  "ports_open ports port t \<longleftrightarrow> ports = [] \<or> t = TransportTCP \<and> port \<in> set ports"

lemma render_match:
  "port_matches (renderPorts ProtoTCP ports) port t \<longleftrightarrow> ports_open ports port t"
  "port_matches (renderPorts ProtoTCP [p]) port t \<longleftrightarrow> t = TransportTCP \<and> port = p"
  "port_matches (renderPorts ProtoUDP [p]) port t \<longleftrightarrow> t = TransportUDP \<and> port = p"
  by (auto simp: port_matches_def renderPorts_def transports_def ports_open_def list_ex_iff)

lemma bits_host: "pBits (host_prefix ap) \<noteq> 0"
  by (simp add: host_prefix_def BitLen_Is4)

lemma stage_opened:
  "list_ex (opened ex D C a port t) (broker_rules bs) \<longleftrightarrow> a \<notin> space D \<and> a \<notin> space C \<and>
     t = TransportTCP \<and> (\<exists>b \<in> set bs. apAddr b = a \<and> apPort b = port)"
  "list_ex (opened ex D C a port t) (resolver_rules rs) \<longleftrightarrow> a \<notin> space D \<and> a \<notin> space C \<and>
     t \<in> {TransportTCP, TransportUDP} \<and> (\<exists>b \<in> set rs. apAddr b = a \<and> apPort b = port)"
  "list_all (\<lambda>c. pBits c \<noteq> 0) cs \<Longrightarrow> list_ex (opened ex D C a port t) (grant_rules ports cs) \<longleftrightarrow>
     a \<notin> space D \<and> a \<notin> space C \<and> a \<in> space cs \<and> ports_open ports port t"
  "list_ex (opened ex D C a port t) (public_rules ports) \<longleftrightarrow>
     a \<notin> space D \<and> a \<notin> space C \<and> a \<notin> space (ex (Is4 a)) \<and> ports_open ports port t"
proof -
  have pub: "a \<in> addrs (PrefixFrom (ip4 0 0 0 0) 0) \<or> a \<in> addrs (PrefixFrom (ip6 [0, 0, 0, 0, 0, 0, 0, 0]) 0)"
  proof -
    have "top_bits 0 b = 0" for b using top_bits_nonneg [of 0 b] top_bits_less [of 0 b] by simp
    then show ?thesis by (cases a) (simp_all add: in_addrs ip4_def ip6_def)
  qed
  show "list_ex (opened ex D C a port t) (public_rules ports) \<longleftrightarrow>
     a \<notin> space D \<and> a \<notin> space C \<and> a \<notin> space (ex (Is4 a)) \<and> ports_open ports port t"
    using pub by (auto simp: public_rules_def opened_def render_match)
  show "list_ex (opened ex D C a port t) (broker_rules bs) \<longleftrightarrow> a \<notin> space D \<and> a \<notin> space C \<and>
     t = TransportTCP \<and> (\<exists>b \<in> set bs. apAddr b = a \<and> apPort b = port)"
    by (auto simp: list_ex_iff opened_def broker_rules_def render_match ports_open_def addrs_host_prefix bits_host)
  show "list_ex (opened ex D C a port t) (resolver_rules rs) \<longleftrightarrow> a \<notin> space D \<and> a \<notin> space C \<and>
     t \<in> {TransportTCP, TransportUDP} \<and> (\<exists>b \<in> set rs. apAddr b = a \<and> apPort b = port)"
    by (auto simp: list_ex_iff opened_def resolver_rules_def render_match ports_open_def addrs_host_prefix bits_host)
  show "list_ex (opened ex D C a port t) (grant_rules ports cs) \<longleftrightarrow>
     a \<notin> space D \<and> a \<notin> space C \<and> a \<in> space cs \<and> ports_open ports port t" if "list_all (\<lambda>c. pBits c \<noteq> 0) cs"
    using that by (induction cs) (auto simp: opened_def grant_rules_def render_match)
qed

section \<open>A compiled policy, rendered\<close>

text \<open>What a range left out of the holes was opened by.\<close>

lemma stages_wire_allow:
  "r \<in> set (stages ports cidrs denies brokers resolvers public) \<Longrightarrow> wire_allow r \<Longrightarrow>
     r \<in> set (broker_rules brokers) \<or> r \<in> set (resolver_rules resolvers) \<or> r \<in> set (grant_rules ports cidrs) \<or>
     r \<in> set (public_rules ports)"
  by (auto simp: stages_def wire_allow_def local_rules_def deny_rules_def translation_rules_def carve_rules_def
      block_rules_def wire_rule_def drop_rule_def split: if_splits)

lemma stages_narrow:
  "r \<in> set (broker_rules brokers) \<or> r \<in> set (resolver_rules resolvers) \<or> r \<in> set (grant_rules ports cidrs) \<Longrightarrow>
     list_all (\<lambda>c. pBits c \<noteq> 0) cidrs \<Longrightarrow> pBits (ru_Prefix r) \<noteq> 0"
  using bits_host by (auto simp: broker_rules_def resolver_rules_def grant_rules_def list_all_iff)

lemma wide_stages:
  assumes "wide_allow (stages ports cidrs denies brokers resolvers public) f = Some w" and "list_all (\<lambda>c. pBits c \<noteq> 0) cidrs"
  shows "ru_Proto w = ProtoTCP \<and> ru_Ports w = ports"
proof -
  let ?R = "stages ports cidrs denies brokers resolvers public"
  let ?P = "\<lambda>r. wire_allow r \<and> pBits (ru_Prefix r) = 0 \<and> Is4 (pAddr (ru_Prefix r)) = f"
  have "filter ?P ?R \<noteq> []" "w = last (filter ?P ?R)"
    using assms(1) unfolding wide_allow_def by (simp_all split: list.splits)
  then have "w \<in> set (filter ?P ?R)" using last_in_set by blast
  then have "w \<in> set ?R" "wire_allow w" "pBits (ru_Prefix w) = 0" by auto
  then have "w \<in> set (public_rules ports)" using stages_wire_allow stages_narrow [OF _ assms(2)] by metis
  then show ?thesis by (auto simp: public_rules_def)
qed

lemma outright_open:
  assumes p: "p \<in> set (outright (stages ports cidrs denies brokers resolvers public))" and a: "a \<in> addrs p"
    and c: "list_all (\<lambda>c. pBits c \<noteq> 0) cidrs" and o: "ports_open ports port t"
  shows "p \<in> set cidrs \<or> t = TransportTCP \<and> (\<exists>b \<in> set brokers \<union> set resolvers. apAddr b = a \<and> apPort b = port)"
proof -
  let ?R = "stages ports cidrs denies brokers resolvers public"
  obtain r w where r: "r \<in> set ?R" "wire_allow r" "pBits (ru_Prefix r) \<noteq> 0" "ru_Prefix r = p"
    and w: "wide_allow ?R (Is4 (pAddr p)) = Some w" "opensEveryPortOf r w"
    using p by (auto simp: outright_def split: option.splits)
  have e: "ru_Proto r = ProtoAny \<or> ru_Proto r = ProtoTCP" "ru_Ports r = [] \<or> ports \<noteq> [] \<and> set ports \<subseteq> set (ru_Ports r)"
    using w(2) wide_stages [OF w(1) c] by (auto simp: opensEveryPortOf_def list_all_iff split: if_splits)
  have "\<not> r \<in> set (public_rules ports)" using r(3) by (auto simp: public_rules_def)
  then consider "r \<in> set (broker_rules brokers)" | "r \<in> set (resolver_rules resolvers)" | "r \<in> set (grant_rules ports cidrs)"
    using stages_wire_allow [OF r(1,2)] by blast
  then show ?thesis
  proof cases
    case 1
    then obtain b where b: "b \<in> set brokers" "p = host_prefix b" "ru_Ports r = [apPort b]"
      using r(4) by (auto simp: broker_rules_def)
    then show ?thesis using a e(2) o by (auto simp: addrs_host_prefix ports_open_def)
  next
    case 2
    then obtain b where b: "b \<in> set resolvers" "p = host_prefix b" "ru_Ports r = [apPort b]"
      using r(4) by (auto simp: resolver_rules_def)
    then show ?thesis using a e(2) o by (auto simp: addrs_host_prefix ports_open_def)
  next
    case 3
    then show ?thesis using r(4) by (auto simp: grant_rules_def)
  qed
qed

lemma block_bits: "b \<in> set blockSet \<Longrightarrow> pBits (bl_Prefix b) \<noteq> 0"
  by (auto simp: blockSet_def Let_def baseBlockV4_def baseBlockV6_def translationBlock_def range_block_def
      service_prefix_def BitLen_Is4)

lemma exceptSet_space:
  "a \<in> space (exceptSet rules (Is4 a)) \<longleftrightarrow> (\<exists>b \<in> set blockSet. a \<in> addrs (bl_Prefix b) \<and> bl_Prefix b \<notin> set (outright rules))"
  using block_bits by (auto simp: exceptSet_def space_def in_addrs)

lemma exceptSet_valid: "list_all IsValid (exceptSet rules f)"
  using block_prefixes_valid by (auto simp: exceptSet_def list_all_iff)

text \<open>What the cluster lets through, from the normalised lists.\<close>

definition cluster_reach ::
    "port list \<Rightarrow> Prefix list \<Rightarrow> Prefix list \<Rightarrow> AddrPort list \<Rightarrow> AddrPort list \<Rightarrow> bool \<Rightarrow> addr \<Rightarrow> port \<Rightarrow> Transport \<Rightarrow> bool" where
  "cluster_reach ports cidrs denies brokers resolvers public a port t \<longleftrightarrow>
     a \<notin> space denies \<and>
     (t = TransportTCP \<and> (\<exists>b \<in> set brokers. apAddr b = a \<and> apPort b = port) \<or>
      t \<in> {TransportTCP, TransportUDP} \<and> (\<exists>b \<in> set resolvers. apAddr b = a \<and> apPort b = port) \<or>
      a \<notin> translation_space \<and> a \<notin> set (Carved cidrs denies) \<and> ports_open ports port t \<and>
        (a \<in> space cidrs \<or> public \<and> a \<notin> block_space))"

lemma rendered_stages:
  assumes c: "list_all IsValid cidrs" "list_all (\<lambda>c. pBits c \<noteq> 0) cidrs" and d: "list_all IsValid denies"
  shows "pairs_open (rendered (exceptSet (stages ports cidrs denies brokers resolvers public)) denies []
      (stages ports cidrs denies brokers resolvers public)) a port t \<longleftrightarrow>
    cluster_reach ports cidrs denies brokers resolvers public a port t"
proof -
  let ?R = "stages ports cidrs denies brokers resolvers public" let ?E = "exceptSet ?R"
  let ?C = "map ru_Prefix translation_rules @ map ru_Prefix (carve_rules (Carved cidrs denies))"
  have C: "space ?C = translation_space \<union> set (Carved cidrs denies)"
    by (auto simp: translation_rules_def carve_rules_def translation_space_def space_def)
  have Cv: "list_all IsValid ?C"
    using block_prefixes_valid by (auto simp: translation_rules_def carve_rules_def list_all_iff)
  have Nv: "list_all IsValid []" by simp
  have pub: "pairs_open (rendered ?E denies ?C (if public then public_rules ports else [])) a port t \<longleftrightarrow>
      public \<and> list_ex (opened ?E denies ?C a port t) (public_rules ports)"
    using rendered_allows [OF stage_kinds(9) stage_valid(4) d Cv exceptSet_valid, where ss = "[]"] rendered_Nil
    by simp
  let ?b = "\<exists>b \<in> set brokers. apAddr b = a \<and> apPort b = port" and ?r = "\<exists>b \<in> set resolvers. apAddr b = a \<and> apPort b = port"
  have "pairs_open (rendered ?E denies [] ?R) a port t \<longleftrightarrow>
      list_ex (opened ?E denies [] a port t) (broker_rules brokers) \<or>
      list_ex (opened ?E denies [] a port t) (resolver_rules resolvers) \<or>
      list_ex (opened ?E denies ?C a port t) (grant_rules ports cidrs) \<or>
      public \<and> list_ex (opened ?E denies ?C a port t) (public_rules ports)"
    unfolding stages_def [of ports cidrs denies brokers resolvers public]
      rendered_local [OF stage_kinds(1)] rendered_drops [OF stage_kinds(2)] if_False if_True
      rendered_allows [OF stage_kinds(6) stage_valid(1) d Nv exceptSet_valid]
      rendered_allows [OF stage_kinds(7) stage_valid(2) d Nv exceptSet_valid]
      rendered_drops [OF stage_kinds(4)] rendered_drops [OF stage_kinds(5)] append_Nil
      rendered_allows [OF stage_kinds(8) stage_valid(3) [OF c(1)] d Cv exceptSet_valid]
      rendered_drops [OF stage_kinds(3)]
      pub [unfolded stages_def [of ports cidrs denies brokers resolvers public]] by blast
  also have "\<dots> \<longleftrightarrow> a \<notin> space denies \<and> (t = TransportTCP \<and> ?b \<or> t \<in> {TransportTCP, TransportUDP} \<and> ?r \<or>
      a \<notin> translation_space \<and> a \<notin> set (Carved cidrs denies) \<and> ports_open ports port t \<and>
        (a \<in> space cidrs \<or> public \<and> a \<notin> space (?E (Is4 a))))"
    unfolding stage_opened(1,2,4) stage_opened(3) [OF c(2)] C by auto
  also have "\<dots> \<longleftrightarrow> cluster_reach ports cidrs denies brokers resolvers public a port t"
  proof -
    have "a \<notin> space (?E (Is4 a))" if "a \<notin> translation_space" "a \<notin> block_space"
    proof -
      have "a \<notin> space (map bl_Prefix blockSet)" unfolding block_prefixes_space using that by blast
      then show ?thesis unfolding exceptSet_space by (auto simp: space_def)
    qed
    moreover have "a \<in> space cidrs \<or> t = TransportTCP \<and> (?b \<or> ?r)"
      if h: "a \<notin> space (?E (Is4 a))" "a \<in> block_space" "ports_open ports port t"
    proof -
      obtain b where b: "b \<in> set blockSet" "a \<in> addrs (bl_Prefix b)" using h(2) by (auto simp: block_space_def space_def)
      then have "bl_Prefix b \<in> set (outright ?R)" using h(1) by (auto simp: exceptSet_space)
      from outright_open [OF this b(2) c(2) h(3)] b(2) show ?thesis by (auto simp: space_def)
    qed
    ultimately show ?thesis unfolding cluster_reach_def by blast
  qed
  finally show ?thesis .
qed

definition proto_of :: "Transport \<Rightarrow> Proto" where
  "proto_of t = (case t of TransportTCP \<Rightarrow> ProtoTCP | TransportUDP \<Rightarrow> ProtoUDP | TransportSCTP \<Rightarrow> ProtoAny)"

definition dns_open :: "NetworkPolicyOptions \<Rightarrow> (selector \<Rightarrow> addr \<Rightarrow> bool) \<Rightarrow> addr \<Rightarrow> port \<Rightarrow> Transport \<Rightarrow> bool" where
  "dns_open opts selects a port t \<longleftrightarrow> npo_AllowClusterDNS opts \<and> port = 53 \<and> t \<in> {TransportTCP, TransportUDP} \<and>
     selects (if npo_DNSNamespaceLabels opts = [] then [(''kubernetes.io/metadata.name'', ''kube-system'')]
              else npo_DNSNamespaceLabels opts) a"

lemma render_compiled:
  assumes "Compile inp = Inr P" and "RenderNetworkPolicy P opts = Inr np"
  obtains ports cidrs denies brokers resolvers where
    "\<And>a port t. np_allows selects np a port t \<longleftrightarrow> dns_open opts selects a port t \<or>
       cluster_reach ports cidrs denies brokers resolvers (in_AllowPublicInternet inp) a port t"
    "\<And>a port proto. reaches P a port proto \<longleftrightarrow>
       filter_reach ports cidrs denies brokers resolvers (in_AllowPublicInternet inp) (Unmap a) port proto"
    "normalizePorts (in_AllowPorts inp) = Inr ports" "normalizePrefixes (in_AllowCIDRs inp) = Inr cidrs"
    "normalizePrefixes (in_DenyCIDRs inp) = Inr denies"
    "normalizeAddrPorts (in_Resolvers inp) ''resolver'' = Inr resolvers"
    "cidrs \<noteq> [] \<or> in_AllowPublicInternet inp \<Longrightarrow> (ports = []) = in_AllowAllPorts inp"
proof (rule compile_rules [OF assms(1)])
  fix ports cidrs denies brokers resolvers
  assume n: "normalizePorts (in_AllowPorts inp) = Inr ports" "normalizePrefixes (in_AllowCIDRs inp) = Inr cidrs"
    "normalizePrefixes (in_DenyCIDRs inp) = Inr denies"
    "normalizeAddrPorts (in_Resolvers inp) ''resolver'' = Inr resolvers"
    and r: "po_Rules P = stages ports cidrs denies brokers resolvers (in_AllowPublicInternet inp)"
    and c: "list_all (\<lambda>c. pBits c \<noteq> 0) cidrs"
    and all: "cidrs \<noteq> [] \<or> in_AllowPublicInternet inp \<Longrightarrow> (ports = []) = in_AllowAllPorts inp"
  have v: "list_all IsValid cidrs" "list_all IsValid denies"
    using canonical_normalizePrefixes [OF n(2)] canonical_normalizePrefixes [OF n(3)] canonical_valid by auto
  let ?rs = "rendered (exceptSet (po_Rules P)) (deniedPrefixes (po_Rules P)) [] (po_Rules P)"
  have rs: "pairs_open ?rs a port t \<longleftrightarrow>
      cluster_reach ports cidrs denies brokers resolvers (in_AllowPublicInternet inp) a port t" for a port t
    unfolding r deniedPrefixes_stages by (rule rendered_stages [OF v(1) c v(2)])
  have e: "np_Egress np = (if npo_AllowClusterDNS opts then [dns_rule opts] else []) @
      map (\<lambda>((proto, ports), peers). \<lparr>npr_To = peers, npr_Ports = renderPorts proto ports\<rparr>)
        (sort_key (\<lambda>((proto, ports), peers). portKey proto ports) (grouped ?rs))"
    using assms(2) by (auto simp: RenderNetworkPolicy_def split: if_splits)
  have dns: "list_ex (\<lambda>r. (npr_To r = [] \<or> list_ex (\<lambda>peer. peer_matches selects peer a) (npr_To r)) \<and>
      port_matches (npr_Ports r) port t) (if npo_AllowClusterDNS opts then [dns_rule opts] else []) \<longleftrightarrow>
    dns_open opts selects a port t" for a port t
    by (cases t) (auto simp: dns_open_def dns_rule_def peer_matches_def port_matches_def)
  have "np_allows selects np a port t \<longleftrightarrow> dns_open opts selects a port t \<or>
      cluster_reach ports cidrs denies brokers resolvers (in_AllowPublicInternet inp) a port t" for a port t
    unfolding np_allows_def e list_ex_append dns grouped_open rs ..
  moreover have "reaches P a port proto \<longleftrightarrow>
      filter_reach ports cidrs denies brokers resolvers (in_AllowPublicInternet inp) (Unmap a) port proto" for a port proto
    unfolding reaches_lets r lets_compiled [symmetric] by (simp add: stage_wire stages_def)
  ultimately show thesis using that n all by blast
qed

section \<open>The properties\<close>

text \<open>C7: the NetworkPolicy of a compiled filter means what the filter means. A cluster that enforces it
  lets a packet out exactly when \<open>Evaluate\<close> does, by address, port and transport, or to the cluster's
  DNS pods; and for a filter on all ports it lets out at least that.\<close>

theorem network_policy_matches_the_filter:
  "case Compile inp of
     Inl e \<Rightarrow> True
   | Inr P \<Rightarrow>
      (case RenderNetworkPolicy P opts of
         Inl e \<Rightarrow> npo_Name opts = [] \<or> npo_PodSelector opts = []
       | Inr np \<Rightarrow>
          (let cluster = {(a, port, t). np_allows selects np (Unmap a) port t};
               filtered = {(a, port, t). reaches P a port (proto_of t) \<or> dns_open opts selects (Unmap a) port t}
           in filtered \<subseteq> cluster \<and> (if in_AllowAllPorts inp then True else cluster = filtered)))"
proof (cases "Compile inp")
  case P: (Inr P)
  show ?thesis
  proof (cases "RenderNetworkPolicy P opts")
    case (Inl e)
    then show ?thesis using P by (auto simp: RenderNetworkPolicy_def split: if_splits)
  next
    case np: (Inr np)
    obtain ports cidrs denies brokers resolvers where
      c: "\<And>a port t. np_allows selects np a port t \<longleftrightarrow> dns_open opts selects a port t \<or>
         cluster_reach ports cidrs denies brokers resolvers (in_AllowPublicInternet inp) a port t" and
      f: "\<And>a port proto. reaches P a port proto \<longleftrightarrow>
         filter_reach ports cidrs denies brokers resolvers (in_AllowPublicInternet inp) (Unmap a) port proto" and
      "normalizePorts (in_AllowPorts inp) = Inr ports" "normalizePrefixes (in_AllowCIDRs inp) = Inr cidrs"
      "normalizePrefixes (in_DenyCIDRs inp) = Inr denies" "normalizeAddrPorts (in_Resolvers inp) ''resolver'' = Inr resolvers" and
      all: "cidrs \<noteq> [] \<or> in_AllowPublicInternet inp \<Longrightarrow> (ports = []) = in_AllowAllPorts inp"
      by (rule render_compiled [OF P np, of selects]) blast
    have le: "filter_reach ports cidrs denies brokers resolvers public a port (proto_of t) \<Longrightarrow>
        cluster_reach ports cidrs denies brokers resolvers public a port t" for public a port t
      by (cases t) (auto simp: filter_reach_def cluster_reach_def proto_of_def port_ok_def ports_open_def)
    have eq: "cluster_reach ports cidrs denies brokers resolvers (in_AllowPublicInternet inp) a port t \<Longrightarrow>
        filter_reach ports cidrs denies brokers resolvers (in_AllowPublicInternet inp) a port (proto_of t)"
      if "\<not> in_AllowAllPorts inp" for a port t
    proof -
      have "a \<in> space cidrs \<or> in_AllowPublicInternet inp \<Longrightarrow> ports \<noteq> []" using that all by (cases cidrs) auto
      then show "cluster_reach ports cidrs denies brokers resolvers (in_AllowPublicInternet inp) a port t \<Longrightarrow>
        filter_reach ports cidrs denies brokers resolvers (in_AllowPublicInternet inp) a port (proto_of t)"
        by (cases t) (auto simp: filter_reach_def cluster_reach_def proto_of_def port_ok_def ports_open_def)
    qed
    have "\<And>a port t. reaches P a port (proto_of t) \<or> dns_open opts selects (Unmap a) port t \<Longrightarrow>
        np_allows selects np (Unmap a) port t" using c f le by blast
    moreover have "\<And>a port t. \<not> in_AllowAllPorts inp \<Longrightarrow> np_allows selects np (Unmap a) port t \<Longrightarrow>
        reaches P a port (proto_of t) \<or> dns_open opts selects (Unmap a) port t" using c f eq by blast
    ultimately have "{(a, port, t). reaches P a port (proto_of t) \<or> dns_open opts selects (Unmap a) port t}
          \<subseteq> {(a, port, t). np_allows selects np (Unmap a) port t}"
        "\<not> in_AllowAllPorts inp \<Longrightarrow> {(a, port, t). np_allows selects np (Unmap a) port t}
          \<subseteq> {(a, port, t). reaches P a port (proto_of t) \<or> dns_open opts selects (Unmap a) port t}" by blast+
    then show ?thesis unfolding P np sum.case Let_def by (simp add: set_eq_subset)
  qed
qed simp

definition public_all :: Input where
  "public_all = \<lparr>in_AllowCIDRs = [], in_AllowPorts = [], in_Brokers = [], in_Resolvers = [], in_AllowPublicInternet = True,
     in_AllowAllPorts = True, in_DenyCIDRs = [], in_HostPatterns = [], in_DropDenied = False\<rparr>"

definition sandbox_options :: NetworkPolicyOptions where
  "sandbox_options = \<lparr>npo_Name = ''egress'', npo_Namespace = ''cloop'', npo_PodSelector = [(''app'', ''sandbox'')],
     npo_Labels = [], npo_Annotations = [], npo_AllowClusterDNS = False, npo_DNSNamespaceLabels = []\<rparr>"

text \<open>on all ports the two differ. A filter that lets the sandbox reach the public Internet over TCP
  on every port is rendered without ports, which a cluster reads as every port of every transport: the
  NetworkPolicy opens UDP and SCTP to an address the filter opens over TCP only.\<close>

theorem all_ports_open_every_transport:
  "case Compile public_all of
     Inl e \<Rightarrow> False
   | Inr P \<Rightarrow>
      (case RenderNetworkPolicy P sandbox_options of
         Inl e \<Rightarrow> False
       | Inr np \<Rightarrow> np_allows selects np (ip4 8 8 8 8) 53 TransportUDP \<and> np_allows selects np (ip4 8 8 8 8) 53 TransportSCTP \<and>
           reaches P (ip4 8 8 8 8) 53 ProtoTCP \<and> \<not> reaches P (ip4 8 8 8 8) 53 ProtoUDP)"
proof -
  have "\<exists>P. Compile public_all = Inr P"
    by (simp add: Compile_def public_all_def normalizePorts_def normalizePrefixes_def normalizeAddrPorts_def Let_def)
  then obtain P where P: "Compile public_all = Inr P" by blast
  obtain np where np: "RenderNetworkPolicy P sandbox_options = Inr np"
    by (simp add: RenderNetworkPolicy_def sandbox_options_def)
  obtain ports cidrs denies brokers resolvers where
    c: "\<And>a port t. np_allows selects np a port t \<longleftrightarrow> dns_open sandbox_options selects a port t \<or>
       cluster_reach ports cidrs denies brokers resolvers (in_AllowPublicInternet public_all) a port t" and
    f: "\<And>a port proto. reaches P a port proto \<longleftrightarrow>
       filter_reach ports cidrs denies brokers resolvers (in_AllowPublicInternet public_all) (Unmap a) port proto" and
    n: "normalizePorts (in_AllowPorts public_all) = Inr ports" "normalizePrefixes (in_AllowCIDRs public_all) = Inr cidrs"
    "normalizePrefixes (in_DenyCIDRs public_all) = Inr denies"
    "normalizeAddrPorts (in_Resolvers public_all) ''resolver'' = Inr resolvers"
    "cidrs \<noteq> [] \<or> in_AllowPublicInternet public_all \<Longrightarrow> (ports = []) = in_AllowAllPorts public_all"
    by (rule render_compiled [OF P np, of selects]) blast
  have nil: "ports = []" "cidrs = []" "denies = []" "resolvers = []"
    using n by (simp_all add: public_all_def normalizePorts_def normalizePrefixes_def normalizeAddrPorts_def)
  have public: "in_AllowPublicInternet public_all = True" by (simp add: public_all_def)
  have b: "list_all (\<lambda>b. \<not> Contains (bl_Prefix b) (ip4 8 8 8 8)) blockSet" "Unmap (ip4 8 8 8 8) = ip4 8 8 8 8" by code_simp+
  then have "ip4 8 8 8 8 \<notin> block_space" "ip4 8 8 8 8 \<notin> translation_space"
    by (auto simp: block_space_def translation_space_def space_def addrs_def list_all_iff)
  moreover have "ip4 8 8 8 8 \<notin> set (Carved [] [])" by (auto simp: set_Carved)
  ultimately have "cluster_reach ports cidrs denies brokers resolvers True (ip4 8 8 8 8) 53 t"
      "filter_reach ports cidrs denies brokers resolvers True (ip4 8 8 8 8) 53 ProtoTCP"
      "\<not> filter_reach ports cidrs denies brokers resolvers True (ip4 8 8 8 8) 53 ProtoUDP" for t
    by (simp_all add: nil cluster_reach_def filter_reach_def ports_open_def port_ok_def)
  then show ?thesis unfolding P np sum.case c f public b(2) by simp
qed

end
