(* ===== verification/Quota.thy ===== *)
theory Quota
  imports Complex_Main Authz
begin

text \<open>
  pkg/quota, quota.go: ceilings per identity and the policy that assigns them. A \<open>float64\<close> is a rational:
  gauges count whole units and the model does not round the sums of the others. A \<open>Limits\<close> map is a
  partial map; in configuration it is the list of its entries in the order the loop meets them, keyed
  by text. The ceilings, not the order of the sources, are what resolution is judged by.
\<close>

section \<open>Resources\<close>

datatype Resource = ResProjects | ResConcurrentTasks | ResConcurrentReproductions | ResExecutors
  | ResSessions | ResDailyTokens | ResDailyCostUSD

definition AllResources :: "Resource list" where
  "AllResources = [ResProjects, ResConcurrentTasks, ResConcurrentReproductions, ResExecutors, ResSessions,
     ResDailyTokens, ResDailyCostUSD]"

definition resource_text :: "Resource \<Rightarrow> string" where
  "resource_text r =
     (case r of ResProjects \<Rightarrow> ''max_projects'' | ResConcurrentTasks \<Rightarrow> ''max_concurrent_tasks''
      | ResConcurrentReproductions \<Rightarrow> ''max_concurrent_reproductions'' | ResExecutors \<Rightarrow> ''max_executors''
      | ResSessions \<Rightarrow> ''max_sessions'' | ResDailyTokens \<Rightarrow> ''daily_token_budget''
      | ResDailyCostUSD \<Rightarrow> ''daily_cost_usd'')"

definition resource_of :: "string \<Rightarrow> Resource option" where
  "resource_of s = find (\<lambda>r. resource_text r = s) AllResources"

datatype QuotaKind = KindGauge | KindDaily

definition Kind_of :: "Resource \<Rightarrow> QuotaKind" where
  "Kind_of r = (if r = ResDailyTokens \<or> r = ResDailyCostUSD then KindDaily else KindGauge)"

definition ZeroAdmitsNone :: "Resource \<Rightarrow> bool" where
  "ZeroAdmitsNone r \<longleftrightarrow> r \<noteq> ResSessions"

text \<open>The conversion of a positive \<open>float64\<close> to \<open>int\<close> truncates.\<close>

definition SessionCap :: "rat option \<Rightarrow> int" where
  "SessionCap limit = (case limit of None \<Rightarrow> 0 | Some v \<Rightarrow> if v \<le> 0 then 0 else \<lfloor>v\<rfloor>)"

section \<open>Limits\<close>

type_synonym Limits = "Resource \<Rightarrow> rat option"

definition no_limits :: "Limits \<Rightarrow> bool" where
  "no_limits l \<longleftrightarrow> list_all (\<lambda>r. l r = None) AllResources"

definition Resources_of :: "Limits \<Rightarrow> Resource list" where
  "Resources_of l = filter (\<lambda>r. l r \<noteq> None) AllResources"

datatype quota_error = UnknownResource string | QuotaClaimRequired | QuotaUnknownClaim string
  | QuotaValueRequired | SetsNoLimits | BadDefaults quota_error | BadQuotaBinding nat quota_error

text \<open>The loop over the entries of a map, in the order they come.\<close>

fun normalize_entries :: "Limits \<Rightarrow> (string \<times> rat) list \<Rightarrow> quota_error + Limits" where
  "normalize_entries out [] = Inr out"
| "normalize_entries out ((r, v) # rest) =
     (case resource_of (to_lower (trim_space r)) of
        None \<Rightarrow> Inl (UnknownResource r)
      | Some key \<Rightarrow> normalize_entries (if v < 0 then out else out(key \<mapsto> v)) rest)"

definition Normalize_limits :: "(string \<times> rat) list \<Rightarrow> quota_error + Limits" where
  "Normalize_limits l = normalize_entries Map.empty l"

definition limits_constrain :: "Limits \<Rightarrow> bool" where
  "limits_constrain l \<longleftrightarrow> list_ex (\<lambda>r. case l r of None \<Rightarrow> False | Some v \<Rightarrow> ZeroAdmitsNone r \<or> SessionCap (Some v) > 0) AllResources"

section \<open>Bindings\<close>

record QuotaEntry =
  qe_Claim :: string
  qe_Value :: string
  qe_Limits :: "(string \<times> rat) list"

record QuotaBinding =
  qb_Claim :: ClaimKind
  qb_Value :: string
  qb_Limits :: Limits

definition quota_tier :: "QuotaBinding \<Rightarrow> nat" where
  "quota_tier b = (if qb_Claim b = ClaimSub then 4 else if qb_Claim b = ClaimEmail then 3
     else if qb_Claim b = ClaimRole then 2 else if qb_Claim b = ClaimGroup then 1 else 0)"

text \<open>The package's own copies of two functions of pkg/authz.\<close>

definition quota_claim_value :: "string \<Rightarrow> string" where
  "quota_claim_value v = trim_prefix (trim_space v) ''/''"

fun quota_contains_fold :: "string list \<Rightarrow> string \<Rightarrow> bool" where
  "quota_contains_fold [] want = False"
| "quota_contains_fold (v # vs) want = (if equal_fold (quota_claim_value v) want then True else quota_contains_fold vs want)"

definition quota_matches :: "QuotaBinding \<Rightarrow> Subject option \<Rightarrow> bool" where
  "quota_matches b subj \<longleftrightarrow>
     (case subj of None \<Rightarrow> False
      | Some s \<Rightarrow>
          if qb_Claim b = ClaimEmail then sj_Email s \<noteq> [] \<and> equal_fold (qb_Value b) (trim_space (sj_Email s))
          else if qb_Claim b = ClaimSub then sj_Sub s \<noteq> [] \<and> qb_Value b = trim_space (sj_Sub s)
          else if qb_Claim b = ClaimGroup then quota_contains_fold (sj_Groups s) (qb_Value b)
          else if qb_Claim b = ClaimRole then quota_contains_fold (sj_Roles s) (qb_Value b)
          else False)"

definition normalize_quota_binding :: "QuotaEntry \<Rightarrow> quota_error + QuotaBinding" where
  "normalize_quota_binding b =
     (let c = to_lower (trim_space (qe_Claim b)) in
      if c = [] then Inl QuotaClaimRequired
      else if \<not> ValidClaim c then Inl (QuotaUnknownClaim c)
      else let v = quota_claim_value (qe_Value b) in
        if v = [] then Inl QuotaValueRequired
        else case Normalize_limits (qe_Limits b) of
               Inl e \<Rightarrow> Inl e
             | Inr l \<Rightarrow> if no_limits l then Inl SetsNoLimits
                        else Inr \<lparr>qb_Claim = c, qb_Value = v, qb_Limits = l\<rparr>)"

section \<open>The resolver\<close>

record QuotaConfig =
  qc_Defaults :: "(string \<times> rat) list"
  qc_Bindings :: "QuotaEntry list"

record QuotaResolver =
  qr_defaults :: Limits
  qr_bindings :: "QuotaBinding list"
  qr_configured :: bool

fun normalize_quota_all :: "nat \<Rightarrow> QuotaEntry list \<Rightarrow> quota_error + QuotaBinding list" where
  "normalize_quota_all i [] = Inr []"
| "normalize_quota_all i (b # bs) =
     (case normalize_quota_binding b of
        Inl e \<Rightarrow> Inl (BadQuotaBinding i e)
      | Inr nb \<Rightarrow> map_sum id ((#) nb) (normalize_quota_all (Suc i) bs))"

definition New_quota :: "QuotaConfig \<Rightarrow> quota_error + QuotaResolver" where
  "New_quota cfg =
     (case Normalize_limits (qc_Defaults cfg) of
        Inl e \<Rightarrow> Inl (BadDefaults e)
      | Inr d \<Rightarrow>
          map_sum id (\<lambda>bs. \<lparr>qr_defaults = d, qr_bindings = bs, qr_configured = (bs \<noteq> [] \<or> \<not> no_limits d)\<rparr>)
            (normalize_quota_all 0 (qc_Bindings cfg)))"

definition Configured :: "QuotaResolver option \<Rightarrow> bool" where
  "Configured r \<longleftrightarrow> (case r of None \<Rightarrow> False | Some q \<Rightarrow> qr_configured q)"

definition Constrains :: "QuotaResolver option \<Rightarrow> bool" where
  "Constrains r \<longleftrightarrow> (case r of None \<Rightarrow> False
     | Some q \<Rightarrow> limits_constrain (qr_defaults q) \<or> list_ex (\<lambda>b. limits_constrain (qb_Limits b)) (qr_bindings q))"

definition HasClaimBindings :: "QuotaResolver option \<Rightarrow> bool" where
  "HasClaimBindings r \<longleftrightarrow> (case r of None \<Rightarrow> False
     | Some q \<Rightarrow> list_ex (\<lambda>b. qb_Claim b = ClaimGroup \<or> qb_Claim b = ClaimRole) (qr_bindings q))"

datatype limit_source = FromDefault | FromBinding ClaimKind string | FromOverride

record QuotaView =
  ef_Identity :: string
  ef_Limits :: Limits
  ef_Sources :: "Resource \<Rightarrow> limit_source option"

text \<open>One binding applied to what is resolved so far: per resource the ceiling, its tier and its source.
  The loop over a binding's entries touches each resource once, so their order does not matter.\<close>

type_synonym resolving = "Resource \<Rightarrow> (rat \<times> nat \<times> limit_source) option"

definition apply_binding :: "QuotaBinding \<Rightarrow> resolving \<Rightarrow> resolving" where
  "apply_binding b acc =
     (\<lambda>r. case qb_Limits b r of
            None \<Rightarrow> acc r
          | Some v \<Rightarrow>
              (let t = quota_tier b; new = Some (v, t, FromBinding (qb_Claim b) (qb_Value b))
               in case acc r of
                    None \<Rightarrow> new
                  | Some (cur, tr, src) \<Rightarrow>
                      if t > tr then new else if t = tr \<and> v < cur then new else acc r))"

definition apply_bindings :: "QuotaBinding list \<Rightarrow> Subject option \<Rightarrow> resolving \<Rightarrow> resolving" where
  "apply_bindings bs s acc = fold apply_binding (filter (\<lambda>b. quota_matches b s) bs) acc"

definition Resolve_quota :: "QuotaResolver option \<Rightarrow> Subject option \<Rightarrow> Limits \<Rightarrow> QuotaView" where
  "Resolve_quota resolver s over =
     (case resolver of
        None \<Rightarrow> \<lparr>ef_Identity = subject_label s, ef_Limits = Map.empty, ef_Sources = Map.empty\<rparr>
      | Some q \<Rightarrow>
          (let acc = apply_bindings (qr_bindings q) s (\<lambda>r. map_option (\<lambda>v. (v, 0, FromDefault)) (qr_defaults q r))
           in \<lparr>ef_Identity = subject_label s,
               ef_Limits = (\<lambda>r. case over r of Some v \<Rightarrow> Some v | None \<Rightarrow> map_option fst (acc r)),
               ef_Sources = (\<lambda>r. case over r of Some v \<Rightarrow> Some FromOverride | None \<Rightarrow> map_option (snd \<circ> snd) (acc r))\<rparr>))"

text \<open>Sorted by identity, as the admin panel shows them.\<close>

definition ResolveAll :: "QuotaResolver option \<Rightarrow> Subject list \<Rightarrow> (string \<Rightarrow> Limits) \<Rightarrow> QuotaView list" where
  "ResolveAll resolver subjects overrides =
     sort_key ef_Identity (map (\<lambda>s. Resolve_quota resolver (Some s) (overrides (subject_label (Some s)))) subjects)"

section \<open>The ceiling in force\<close>

text \<open>What the matching bindings say on one resource: tier and ceiling.\<close>

definition quota_claims :: "QuotaBinding list \<Rightarrow> Subject option \<Rightarrow> Resource \<Rightarrow> (nat \<times> rat) list" where
  "quota_claims bs s r = List.map_filter (\<lambda>b. map_option (Pair (quota_tier b)) (qb_Limits b r)) (filter (\<lambda>b. quota_matches b s) bs)"

definition tightest :: "(nat \<times> rat) list \<Rightarrow> rat" where
  "tightest cs = Min (snd ` {c \<in> set cs. fst c = Max (fst ` set cs)})"

text \<open>The one pair that is at least as specific as every other and, among those, at most as high.\<close>

definition is_tightest :: "(nat \<times> rat) set \<Rightarrow> nat \<times> rat \<Rightarrow> bool" where
  "is_tightest C c \<longleftrightarrow> c \<in> C \<and> (\<forall>d \<in> C. fst d < fst c \<or> fst d = fst c \<and> snd c \<le> snd d)"

lemma tightest_eqI: "is_tightest (set cs) (t, v) \<Longrightarrow> tightest cs = v"
proof -
  assume h: "is_tightest (set cs) (t, v)"
  have m: "Max (fst ` set cs) = t" using h by (intro Max_eqI) (force simp: is_tightest_def)+
  show ?thesis unfolding tightest_def m using h by (intro Min_eqI) (force simp: is_tightest_def)+
qed

lemma tier_positive: "quota_matches b s \<Longrightarrow> 0 < quota_tier b"
  by (auto simp: quota_matches_def quota_tier_def split: option.splits if_splits)

definition resolved :: "(nat \<times> rat) set \<Rightarrow> rat option \<Rightarrow> (rat \<times> nat \<times> limit_source) option \<Rightarrow> bool" where
  "resolved C d acc \<longleftrightarrow>
     (if C = {} then map_option (\<lambda>(v, t, src). (v, t)) acc = map_option (\<lambda>v. (v, 0)) d
      else case acc of None \<Rightarrow> False | Some (v, t, src) \<Rightarrow> is_tightest C (t, v))"

lemma apply_binding_resolved:
  assumes "resolved C d (acc r)" and "0 < quota_tier b" and "\<forall>c \<in> C. 0 < fst c"
  shows "resolved (case qb_Limits b r of None \<Rightarrow> C | Some v \<Rightarrow> insert (quota_tier b, v) C) d (apply_binding b acc r)"
proof (cases "qb_Limits b r")
  case (Some v)
  show ?thesis
  proof (cases "C = {}")
    case True
    then show ?thesis using assms Some
      by (cases "acc r"; cases d) (auto simp: resolved_def apply_binding_def Let_def is_tightest_def)
  next
    case False
    then obtain v' t' src where a: "acc r = Some (v', t', src)" "is_tightest C (t', v')"
      using assms(1) by (auto simp: resolved_def split: option.splits prod.splits)
    then show ?thesis using Some
      by (auto simp: resolved_def apply_binding_def Let_def is_tightest_def)
  qed
qed (use assms in \<open>simp add: apply_binding_def\<close>)

lemma set_quota_claims:
  "set (quota_claims bs s r) = {c. \<exists>b \<in> set bs. \<exists>v. quota_matches b s \<and> qb_Limits b r = Some v \<and> c = (quota_tier b, v)}"
  by (force simp: quota_claims_def List.map_filter_def)

lemma set_quota_claims_snoc:
  "set (quota_claims (bs @ [b]) s r) =
     (if quota_matches b s then case qb_Limits b r of None \<Rightarrow> set (quota_claims bs s r)
        | Some v \<Rightarrow> insert (quota_tier b, v) (set (quota_claims bs s r))
      else set (quota_claims bs s r))"
  by (auto simp: quota_claims_def List.map_filter_def split: option.split)

lemma claims_positive: "c \<in> set (quota_claims bs s r) \<Longrightarrow> 0 < fst c"
  by (auto simp: quota_claims_def List.map_filter_def intro: tier_positive)

lemma apply_bindings_resolved:
  "resolved (set (quota_claims bs s r)) (d r)
     (apply_bindings bs s (\<lambda>r. map_option (\<lambda>v. (v, 0, FromDefault)) (d r)) r)"
proof (induction bs rule: rev_induct)
  case Nil
  then show ?case by (cases "d r") (simp_all add: quota_claims_def apply_bindings_def resolved_def List.map_filter_def)
next
  case (snoc b bs)
  have s: "apply_bindings (bs @ [b]) s acc = (if quota_matches b s then apply_binding b (apply_bindings bs s acc) else apply_bindings bs s acc)"
    for acc by (simp add: apply_bindings_def)
  let ?acc = "apply_bindings bs s (\<lambda>r. map_option (\<lambda>v. (v, 0, FromDefault)) (d r))"
  show ?case unfolding s set_quota_claims_snoc
    using snoc apply_binding_resolved [where acc = ?acc and r = r and b = b, OF snoc] tier_positive claims_positive
    by (auto split: option.splits)
qed

lemma resolved_limit:
  "resolved (set cs) d acc \<Longrightarrow> map_option fst acc = (if cs = [] then d else Some (tightest cs))"
  by (cases acc; cases d) (auto simp: resolved_def tightest_eqI split: if_splits)

lemma ceiling:
  "ef_Limits (Resolve_quota (Some q) s over) r =
     (case over r of Some v \<Rightarrow> Some v | None \<Rightarrow> if quota_claims (qr_bindings q) s r = [] then qr_defaults q r
        else Some (tightest (quota_claims (qr_bindings q) s r)))"
  using resolved_limit [OF apply_bindings_resolved] by (simp add: Resolve_quota_def Let_def split: option.split)

text \<open>C35: the ceiling in force is the admin's override, else the lowest of the ceilings the most specific
  matching bindings set, else the default. It does not depend on the order of the bindings.\<close>

theorem most_specific_then_tightest:
  "ef_Limits (Resolve_quota (Some q) s over) r =
     (case over r of
        Some v \<Rightarrow> Some v
      | None \<Rightarrow> if quota_claims (qr_bindings q) s r = [] then qr_defaults q r
                else Some (tightest (quota_claims (qr_bindings q) s r)))"
  by (rule ceiling)

text \<open>Two lists of the same bindings give the same ceilings.\<close>

lemma tightest_set: "set cs = set ds \<Longrightarrow> tightest cs = tightest ds"
  by (simp add: tightest_def)

lemma order_of_bindings_irrelevant:
  assumes "set bs = set bs'"
  shows "ef_Limits (Resolve_quota (Some (q\<lparr>qr_bindings := bs\<rparr>)) s over) = ef_Limits (Resolve_quota (Some (q\<lparr>qr_bindings := bs'\<rparr>)) s over)"
proof
  fix r
  have "set (quota_claims bs s r) = set (quota_claims bs' s r)"
    by (simp add: set_quota_claims assms)
  then show "ef_Limits (Resolve_quota (Some (q\<lparr>qr_bindings := bs\<rparr>)) s over) r = ef_Limits (Resolve_quota (Some (q\<lparr>qr_bindings := bs'\<rparr>)) s over) r"
    unfolding ceiling using tightest_set [of "quota_claims bs s r" "quota_claims bs' s r"]
    by (cases "quota_claims bs s r"; cases "quota_claims bs' s r") (simp_all split: option.split)
qed

section \<open>Groups\<close>

lemma contains_fold_append: "quota_contains_fold (xs @ ys) v \<longleftrightarrow> quota_contains_fold xs v \<or> quota_contains_fold ys v"
  by (induction xs) auto

lemma is_tightest_exists:
  assumes "finite C" and "C \<noteq> {}"
  shows "\<exists>c. is_tightest C c"
proof -
  let ?t = "Max (fst ` C)" let ?D = "{c \<in> C. fst c = ?t}"
  have "?t \<in> fst ` C" using assms by simp
  then have ne: "snd ` ?D \<noteq> {}" by auto
  have fin: "finite (snd ` ?D)" using assms by simp
  have "Min (snd ` ?D) \<in> snd ` ?D" by (rule Min_in [OF fin ne])
  then obtain c where c: "c \<in> C" "fst c = ?t" "snd c = Min (snd ` ?D)" by auto
  have "fst d < fst c \<or> fst d = fst c \<and> snd c \<le> snd d" if "d \<in> C" for d
  proof -
    have "fst d \<le> ?t" using assms(1) that by simp
    moreover have "snd c \<le> snd d" if "fst d = ?t" using c fin \<open>d \<in> C\<close> that by simp
    ultimately show ?thesis using c(2) by linarith
  qed
  with c(1) show ?thesis unfolding is_tightest_def by blast
qed

lemma claims_tightest:
  assumes "quota_claims bs s r \<noteq> []"
  obtains t where "is_tightest (set (quota_claims bs s r)) (t, tightest (quota_claims bs s r))"
proof -
  obtain c where "is_tightest (set (quota_claims bs s r)) c" using is_tightest_exists assms by (metis List.finite_set set_empty)
  then show thesis using that tightest_eqI by (metis surj_pair)
qed

text \<open>More groups add claims of the lowest tier only.\<close>

lemma group_claims:
  "set (quota_claims bs (Some s) r) \<subseteq> set (quota_claims bs (Some (s\<lparr>sj_Groups := sj_Groups s @ extra\<rparr>)) r)"
  "c \<in> set (quota_claims bs (Some (s\<lparr>sj_Groups := sj_Groups s @ extra\<rparr>)) r) \<Longrightarrow>
     c \<in> set (quota_claims bs (Some s) r) \<or> fst c = 1"
  by (auto simp: quota_claims_def List.map_filter_def quota_matches_def quota_tier_def contains_fold_append
      claim_names split: if_splits)

lemma more_groups_lower:
  assumes "quota_claims bs (Some s) r \<noteq> []"
    and s'_def: "s' = s\<lparr>sj_Groups := sj_Groups s @ extra\<rparr>"
  shows "quota_claims bs (Some s') r \<noteq> []" and "tightest (quota_claims bs (Some s') r) \<le> tightest (quota_claims bs (Some s) r)"
proof -
  obtain c where c: "c \<in> set (quota_claims bs (Some s) r)" using assms(1) by (metis list.set_intros(1) neq_Nil_conv)
  then have "c \<in> set (quota_claims bs (Some s') r)" using group_claims(1) unfolding s'_def by blast
  then show ne: "quota_claims bs (Some s') r \<noteq> []" by auto
  obtain t where t: "is_tightest (set (quota_claims bs (Some s) r)) (t, tightest (quota_claims bs (Some s) r))"
    using claims_tightest [OF assms(1)] .
  obtain t' where t': "is_tightest (set (quota_claims bs (Some s') r)) (t', tightest (quota_claims bs (Some s') r))"
    using claims_tightest [OF ne] .
  let ?v = "tightest (quota_claims bs (Some s) r)" let ?v' = "tightest (quota_claims bs (Some s') r)"
  have "(t, ?v) \<in> set (quota_claims bs (Some s) r)" using t by (simp add: is_tightest_def)
  then have "(t, ?v) \<in> set (quota_claims bs (Some s') r)" using group_claims(1) unfolding s'_def by blast
  then have "t < t' \<or> t = t' \<and> ?v' \<le> ?v" using t' by (auto simp: is_tightest_def)
  moreover have "\<not> t < t'"
  proof
    assume "t < t'"
    have "(t', ?v') \<in> set (quota_claims bs (Some s') r)" using t' by (simp add: is_tightest_def)
    moreover have "0 < t" using claims_positive t by (force simp: is_tightest_def)
    ultimately have "(t', ?v') \<in> set (quota_claims bs (Some s) r)"
      using group_claims(2) \<open>t < t'\<close> unfolding s'_def by fastforce
    with t \<open>t < t'\<close> show False by (fastforce simp: is_tightest_def)
  qed
  ultimately show "?v' \<le> ?v" by simp
qed

text \<open>joining groups never raises a ceiling a binding sets.\<close>

theorem joining_groups_never_raises:
  "if quota_claims (qr_bindings q) (Some s) r = [] then True
   else case (ef_Limits (Resolve_quota (Some q) (Some (s\<lparr>sj_Groups := sj_Groups s @ extra\<rparr>)) over) r,
              ef_Limits (Resolve_quota (Some q) (Some s) over) r) of
          (Some v', Some v) \<Rightarrow> v' \<le> v
        | _ \<Rightarrow> False"
proof (cases "quota_claims (qr_bindings q) (Some s) r = []")
  case False
  show ?thesis unfolding ceiling using False more_groups_lower [OF False refl] by (auto split: option.split)
qed simp

section \<open>Claims\<close>

lemma contains_fold_authz: "quota_contains_fold vs v \<longleftrightarrow> containsFold vs v"
  by (induction vs) (simp_all add: quota_claim_value_def normalizeClaimValue_def)

text \<open>On the claims it knows a quota binding matches whom a role binding with its value matches.\<close>

lemma quota_matches_authz:
  assumes "qb_Claim b \<in> {ClaimGroup, ClaimRole, ClaimEmail, ClaimSub}"
    and "bd_Claim rb = qb_Claim b" "bd_Value rb = qb_Value b"
  shows "quota_matches b (Some s) \<longleftrightarrow> binding_matches rb s"
  using assms by (auto simp: quota_matches_def binding_matches_def contains_fold_authz claim_names)

definition username_quota :: "string \<Rightarrow> QuotaConfig" where
  "username_quota claim = \<lparr>qc_Defaults = [], qc_Bindings = [\<lparr>qe_Claim = claim, qe_Value = ''alice'', qe_Limits = [(''max_projects'', 2)]\<rparr>]\<rparr>"

text \<open>a quota binding on a user name, an object id or a provisioned group is accepted and matches
  nobody: the policy counts as configured and every identity keeps what its override says. A role binding
  with the same claim and value matches its user.\<close>

theorem accepted_quota_matches_nobody:
  "list_all (\<lambda>claim. case New_quota (username_quota claim) of
       Inl e \<Rightarrow> False
     | Inr q \<Rightarrow> Configured (Some q) \<and> Constrains (Some q) \<and> (\<forall>s over. ef_Limits (Resolve_quota (Some q) s over) = over))
     [ClaimUsername, ClaimOID, ClaimSCIMGroup] \<and>
   binding_matches \<lparr>bd_Claim = ClaimUsername, bd_Value = ''alice'', bd_Role = RoleViewer, bd_Project = [], bd_Executor = [], bd_Deny = False\<rparr>
     \<lparr>sj_Sub = [], sj_Email = [], sj_Groups = [], sj_Roles = [], sj_Username = ''alice'', sj_OID = [], sj_SCIMGroups = []\<rparr>"
proof -
  have l: "Normalize_limits [(''max_projects'', 2)] = Inr [ResProjects \<mapsto> 2]" "Normalize_limits [] = Inr Map.empty"
  proof -
    have "resource_of (to_lower (trim_space ''max_projects'')) = Some ResProjects" by code_simp
    then show "Normalize_limits [(''max_projects'', 2)] = Inr [ResProjects \<mapsto> 2]" by (simp add: Normalize_limits_def)
  qed (simp add: Normalize_limits_def)
  have c: "\<not> no_limits [ResProjects \<mapsto> 2]" "limits_constrain [ResProjects \<mapsto> 2]" "no_limits Map.empty"
    by (simp_all add: no_limits_def AllResources_def limits_constrain_def ZeroAdmitsNone_def)
  have v: "quota_claim_value ''alice'' = ''alice''" by code_simp
  have n: "New_quota (username_quota claim) = Inr \<lparr>qr_defaults = Map.empty,
      qr_bindings = [\<lparr>qb_Claim = claim, qb_Value = ''alice'', qb_Limits = [ResProjects \<mapsto> 2]\<rparr>], qr_configured = True\<rparr>"
    if "claim \<in> {ClaimUsername, ClaimOID, ClaimSCIMGroup}" for claim
  proof -
    have "to_lower (trim_space claim) = claim \<and> claim \<noteq> [] \<and> ValidClaim claim"
      using that by (elim insertE emptyE) (simp_all add: claim_names, code_simp+)
    then show ?thesis
      by (simp add: New_quota_def username_quota_def normalize_quota_binding_def Let_def l c v)
  qed
  have f: "\<not> quota_matches \<lparr>qb_Claim = claim, qb_Value = v, qb_Limits = ls\<rparr> s"
    if "claim \<in> {ClaimUsername, ClaimOID, ClaimSCIMGroup}" for claim v ls s
    using that by (auto simp: quota_matches_def claim_names split: option.splits)
  have b: "binding_matches \<lparr>bd_Claim = ClaimUsername, bd_Value = ''alice'', bd_Role = RoleViewer, bd_Project = [], bd_Executor = [], bd_Deny = False\<rparr>
     \<lparr>sj_Sub = [], sj_Email = [], sj_Groups = [], sj_Roles = [], sj_Username = ''alice'', sj_OID = [], sj_SCIMGroups = []\<rparr>"
    by code_simp
  have q: "ef_Limits (Resolve_quota (Some \<lparr>qr_defaults = Map.empty,
      qr_bindings = [\<lparr>qb_Claim = claim, qb_Value = v, qb_Limits = ls\<rparr>], qr_configured = True\<rparr>) s over) = over"
    if "claim \<in> {ClaimUsername, ClaimOID, ClaimSCIMGroup}" for claim v ls s over
    using f [OF that] by (auto simp: Resolve_quota_def apply_bindings_def Let_def fun_eq_iff split: option.split)
  show ?thesis using b by (simp add: n q Configured_def Constrains_def c)
qed
end
