(* ===== verification/QuotaEnforce.thy ===== *)
theory QuotaEnforce
  imports Quota GoTime
begin

text \<open>
  pkg/quota, enforce.go: admission against live counters, with the statements of pkg/statedb/quotas.go
  that back it. The process's memory is an \<open>Enforcer\<close>, the tables a \<open>QuotaStore\<close>; an operation takes
  and returns both, reads the clock once, and is told which of its statements fail. A failed
  statement leaves the tables as they were. Rows of resources the code does not know, which it passes
  over, are left out, as is the JSON of an override.
\<close>

section \<open>The tables\<close>

type_synonym qkey = "string \<times> Resource \<times> string"

record QuotaStore =
  st_counters :: "qkey \<Rightarrow> rat option"
  st_overrides :: "string \<Rightarrow> Limits option"

definition usable_key :: "qkey \<Rightarrow> bool" where
  "usable_key k \<longleftrightarrow> trim_space (fst k) \<noteq> []"

definition PutQuotaCounter :: "bool \<Rightarrow> qkey \<Rightarrow> rat \<Rightarrow> QuotaStore \<Rightarrow> QuotaStore" where
  "PutQuotaCounter fails k v st =
     (if fails \<or> \<not> usable_key k then st
      else st\<lparr>st_counters := (st_counters st)(k := (if v \<le> 0 then None else Some v))\<rparr>)"

text \<open>The value and whether the addition was taken; nothing for an error.\<close>

definition AdjustQuotaCounter ::
    "bool \<Rightarrow> qkey \<Rightarrow> rat \<Rightarrow> rat option \<Rightarrow> QuotaStore \<Rightarrow> (rat \<times> bool) option \<times> QuotaStore" where
  "AdjustQuotaCounter fails k delta limit st =
     (if fails \<or> \<not> usable_key k then (None, st)
      else let cur = (case st_counters st k of None \<Rightarrow> 0 | Some v \<Rightarrow> v);
               next = cur + delta
        in if (case limit of None \<Rightarrow> False | Some l \<Rightarrow> delta > 0 \<and> cur + delta > l) then (Some (cur, False), st)
           else if next \<le> 0 then (Some (0, True), st\<lparr>st_counters := (st_counters st)(k := None)\<rparr>)
           else (Some (next, True), st\<lparr>st_counters := (st_counters st)(k := Some next)\<rparr>))"

text \<open>The gauges replaced by \<open>rows\<close>, or nothing on failure.\<close>

definition ReplaceQuotaGauges :: "bool \<Rightarrow> (string \<times> Resource \<Rightarrow> rat option) \<Rightarrow> QuotaStore \<Rightarrow> QuotaStore" where
  "ReplaceQuotaGauges fails rows st =
     (if fails then st
      else st\<lparr>st_counters := (\<lambda>(i, r, b).
             if b \<noteq> [] then st_counters st (i, r, b)
             else case rows (i, r) of None \<Rightarrow> None | Some v \<Rightarrow> if trim_space i = [] \<or> v \<le> 0 then None else Some v)\<rparr>)"

definition PruneQuotaCounters :: "bool \<Rightarrow> string \<Rightarrow> QuotaStore \<Rightarrow> QuotaStore" where
  "PruneQuotaCounters fails bucket st =
     (if fails \<or> trim_space bucket = [] then st
      else st\<lparr>st_counters := (\<lambda>(i, r, b). if b \<noteq> [] \<and> b < bucket then None else st_counters st (i, r, b))\<rparr>)"

section \<open>The enforcer\<close>

datatype store_kind = NoStore | PlainStore | AtomicStore

record Enforcer =
  en_resolver :: "QuotaResolver option"
  en_counters :: "qkey \<Rightarrow> rat option"
  en_overrides :: "string \<Rightarrow> Limits option"
  en_subjects :: "string \<Rightarrow> Subject option"
  en_denials :: "Resource \<Rightarrow> nat"
  en_store :: store_kind
  en_shared :: bool
  en_lastSync :: time

definition NewEnforcer :: "QuotaResolver option \<Rightarrow> store_kind \<Rightarrow> bool \<Rightarrow> Enforcer" where
  "NewEnforcer resolver kind shared =
     \<lparr>en_resolver = resolver, en_counters = Map.empty, en_overrides = Map.empty, en_subjects = Map.empty,
      en_denials = (\<lambda>r. 0), en_store = kind, en_shared = shared, en_lastSync = 0\<rparr>"

record QuotaFaults =
  ft_adjust :: "Resource \<Rightarrow> bool"
  ft_put :: "Resource \<Rightarrow> bool"
  ft_load :: bool
  ft_write :: bool

record Denial =
  dn_Identity :: string
  dn_Resource :: Resource
  dn_Limit :: rat
  dn_Used :: rat
  dn_Requested :: rat
  dn_RetryAfter :: duration
  dn_Source :: "limit_source option"

definition Transient :: "Denial \<Rightarrow> bool" where
  "Transient d \<longleftrightarrow> dn_RetryAfter d > 0"

definition sharedSyncInterval :: duration where "sharedSyncInterval = go_second"

definition atomicStore :: "Enforcer \<Rightarrow> bool" where
  "atomicStore e \<longleftrightarrow> en_shared e \<and> en_store e = AtomicStore"

definition dayBucket :: "time \<Rightarrow> string" where
  "dayBucket t =
     (let days = t div (24 * go_hour); (m, d) = civil_month_day days
      in pad_zeros 4 (civil_year days) @ ''-'' @ pad_zeros 2 m @ ''-'' @ pad_zeros 2 d)"

definition bucketFor :: "time \<Rightarrow> Resource \<Rightarrow> string" where
  "bucketFor now res = (if Kind_of res = KindDaily then dayBucket now else [])"

definition retryAfter :: "time \<Rightarrow> Resource \<Rightarrow> duration" where
  "retryAfter now res =
     (if res = ResConcurrentTasks \<or> res = ResConcurrentReproductions then 30 * go_second
      else if res = ResDailyTokens \<or> res = ResDailyCostUSD then
        let midnight = now div (24 * go_hour) * (24 * go_hour) + 24 * go_hour; d = time_sub midnight now
        in if d > 0 then d else go_minute
      else 0)"

definition denial_of :: "time \<Rightarrow> string \<Rightarrow> Resource \<Rightarrow> QuotaView \<Rightarrow> rat \<Rightarrow> rat \<Rightarrow> Denial" where
  "denial_of now i res eff used requested =
     \<lparr>dn_Identity = i, dn_Resource = res, dn_Limit = (case ef_Limits eff res of None \<Rightarrow> 0 | Some l \<Rightarrow> l),
      dn_Used = used, dn_Requested = requested, dn_RetryAfter = retryAfter now res, dn_Source = ef_Sources eff res\<rparr>"

definition anonymous_label :: "string \<Rightarrow> bool" where
  "anonymous_label i \<longleftrightarrow> i = [] \<or> i = ''anonymous''"

definition overrides_for :: "Enforcer \<Rightarrow> string \<Rightarrow> Limits" where
  "overrides_for e i = (case en_overrides e i of None \<Rightarrow> Map.empty | Some l \<Rightarrow> l)"

definition rememberSubject :: "Subject option \<Rightarrow> Enforcer \<Rightarrow> Enforcer" where
  "rememberSubject s e =
     (case s of None \<Rightarrow> e
      | Some subj \<Rightarrow> if anonymous_label (subject_label s) then e
                     else e\<lparr>en_subjects := (en_subjects e)(subject_label s \<mapsto> subj)\<rparr>)"

definition resolveLocked :: "Enforcer \<Rightarrow> Subject option \<Rightarrow> QuotaView" where
  "resolveLocked e s = Resolve_quota (en_resolver e) s (overrides_for e (subject_label s))"

definition setCounter :: "qkey \<Rightarrow> rat \<Rightarrow> Enforcer \<Rightarrow> Enforcer" where
  "setCounter k v e = e\<lparr>en_counters := (en_counters e)(k := (if v \<le> 0 then None else Some v))\<rparr>"

definition counter :: "Enforcer \<Rightarrow> qkey \<Rightarrow> rat" where
  "counter e k = (case en_counters e k of None \<Rightarrow> 0 | Some v \<Rightarrow> v)"

definition persist :: "QuotaFaults \<Rightarrow> qkey \<Rightarrow> rat \<Rightarrow> Enforcer \<Rightarrow> QuotaStore \<Rightarrow> QuotaStore" where
  "persist ft k v e st = (if en_store e = NoStore then st else PutQuotaCounter (ft_put ft (fst (snd k))) k v st)"

definition denied :: "Resource \<Rightarrow> Enforcer \<Rightarrow> Enforcer" where
  "denied res e = e\<lparr>en_denials := (en_denials e)(res := en_denials e res + 1)\<rparr>"

definition no_view :: QuotaView where
  "no_view = \<lparr>ef_Identity = [], ef_Limits = Map.empty, ef_Sources = Map.empty\<rparr>"

text \<open>The rows a process reads back: those of the day, and of the gauges, that hold something.\<close>

definition current_rows :: "string \<Rightarrow> QuotaStore \<Rightarrow> qkey \<Rightarrow> rat option" where
  "current_rows today st = (\<lambda>(i, r, b).
     case st_counters st (i, r, b) of None \<Rightarrow> None
     | Some v \<Rightarrow> if i = [] \<or> (Kind_of r = KindDaily \<and> b \<noteq> today) \<or> v \<le> 0 then None else Some v)"

definition syncShared :: "time \<Rightarrow> QuotaFaults \<Rightarrow> Enforcer \<Rightarrow> QuotaStore \<Rightarrow> Enforcer" where
  "syncShared now ft e st =
     (if \<not> atomicStore e then e
      else if en_lastSync e \<noteq> 0 \<and> time_sub now (en_lastSync e) < sharedSyncInterval then e
      else if ft_load ft then e
      else e\<lparr>en_counters := current_rows (dayBucket now) st, en_lastSync := now\<rparr>)"

section \<open>Operations\<close>

definition Enabled :: "Enforcer \<Rightarrow> bool" where
  "Enabled e \<longleftrightarrow> Configured (en_resolver e) \<or> en_overrides e \<noteq> Map.empty"

text \<open>Both tables are read before either is used; the error names the one that failed.\<close>

definition Load_quota :: "time \<Rightarrow> QuotaFaults \<Rightarrow> Enforcer \<times> QuotaStore \<Rightarrow> bool \<times> Enforcer \<times> QuotaStore" where
  "Load_quota now ft s =
     (case s of (e, st) \<Rightarrow>
        if en_store e = NoStore then (True, e, st)
        else if ft_load ft then (False, e, st)
        else (True,
              e\<lparr>en_overrides := (\<lambda>i. if i = [] \<or> st_overrides st i = None then en_overrides e i else st_overrides st i),
                en_counters := (\<lambda>k. case current_rows (dayBucket now) st k of None \<Rightarrow> en_counters e k | Some v \<Rightarrow> Some v)\<rparr>,
              PruneQuotaCounters (ft_write ft) (dayBucket now) st))"

record LiveState =
  ls_Projects :: "string \<Rightarrow> rat option"
  ls_Tasks :: "string \<Rightarrow> rat option"
  ls_Executors :: "string \<Rightarrow> rat option"
  ls_Sessions :: "string \<Rightarrow> rat option"

definition live_gauge :: "LiveState \<Rightarrow> string \<times> Resource \<Rightarrow> rat option" where
  "live_gauge live = (\<lambda>(i, r).
     let counts = (if r = ResProjects then ls_Projects live else if r = ResConcurrentTasks then ls_Tasks live
                   else if r = ResExecutors then ls_Executors live else if r = ResSessions then ls_Sessions live
                   else Map.empty)
     in case counts i of None \<Rightarrow> None | Some v \<Rightarrow> if i = [] \<or> v \<le> 0 then None else Some v)"

definition Reconcile :: "QuotaFaults \<Rightarrow> LiveState \<Rightarrow> Enforcer \<times> QuotaStore \<Rightarrow> bool \<times> Enforcer \<times> QuotaStore" where
  "Reconcile ft live s =
     (case s of (e, st) \<Rightarrow>
        (en_store e = NoStore \<or> \<not> ft_write ft,
         e\<lparr>en_counters := (\<lambda>(i, r, b). if b = [] then live_gauge live (i, r) else en_counters e (i, r, b))\<rparr>,
         if en_store e = NoStore then st else ReplaceQuotaGauges (ft_write ft) (live_gauge live) st))"

definition Admit ::
    "time \<Rightarrow> QuotaFaults \<Rightarrow> Subject option \<Rightarrow> Resource \<Rightarrow> rat \<Rightarrow> Enforcer \<times> QuotaStore \<Rightarrow>
       (Denial + QuotaView) \<times> Enforcer \<times> QuotaStore" where
  "Admit now ft subject res n s =
     (case s of (e, st) \<Rightarrow>
      let i = subject_label subject in
      if anonymous_label i then (Inr no_view, e, st)
      else if n \<le> 0 then let e = rememberSubject subject e in (Inr (resolveLocked e subject), e, st)
      else
        let e = rememberSubject subject e; eff = resolveLocked e subject; key = (i, res, bucketFor now res);
            limit = ef_Limits eff res;
            denial = (\<lambda>used. denial_of now i res eff used n);
            here = (let used = counter e key in
              if (case limit of None \<Rightarrow> False | Some l \<Rightarrow> used + n > l) then (Inl (denial used), denied res e, st)
              else (Inr eff, e\<lparr>en_counters := (en_counters e)(key \<mapsto> used + n)\<rparr>, persist ft key (used + n) e st))
        in if \<not> atomicStore e then here
           else case AdjustQuotaCounter (ft_adjust ft res) key n limit st of
                  (None, st) \<Rightarrow> here
                | (Some (value, admitted), st) \<Rightarrow>
                    (let e = setCounter key value e
                     in if admitted then (Inr eff, e, st) else (Inl (denial value), denied res e, st)))"

definition ReleaseUnits :: "QuotaFaults \<Rightarrow> string \<Rightarrow> Resource \<Rightarrow> rat \<Rightarrow> Enforcer \<times> QuotaStore \<Rightarrow> Enforcer \<times> QuotaStore" where
  "ReleaseUnits ft i res n s =
     (case s of (e, st) \<Rightarrow>
      if i = [] \<or> n \<le> 0 \<or> Kind_of res \<noteq> KindGauge then (e, st)
      else
        let key = (i, res, []);
            here = (let remaining = counter e key - n in
              if remaining \<le> 0 then (e\<lparr>en_counters := (en_counters e)(key := None)\<rparr>, persist ft key 0 e st)
              else (e\<lparr>en_counters := (en_counters e)(key \<mapsto> remaining)\<rparr>, persist ft key remaining e st))
        in if \<not> atomicStore e then here
           else case AdjustQuotaCounter (ft_adjust ft res) key (- n) None st of
                  (None, st) \<Rightarrow> here
                | (Some (value, admitted), st) \<Rightarrow> (setCounter key value e, st))"

text \<open>The two additions at the store, in order; whether one failed.\<close>

fun spend_shared ::
    "QuotaFaults \<Rightarrow> string \<Rightarrow> string \<Rightarrow> (Resource \<times> rat) list \<Rightarrow> Enforcer \<times> QuotaStore \<Rightarrow> bool \<times> Enforcer \<times> QuotaStore" where
  "spend_shared ft i bucket [] s = (False, s)"
| "spend_shared ft i bucket ((res, n) # rest) (e, st) =
     (if n \<le> 0 then spend_shared ft i bucket rest (e, st)
      else case AdjustQuotaCounter (ft_adjust ft res) (i, res, bucket) n None st of
             (None, st) \<Rightarrow> (True, e, st)
           | (Some (value, admitted), st) \<Rightarrow> spend_shared ft i bucket rest (setCounter (i, res, bucket) value e, st))"

definition spend_here :: "QuotaFaults \<Rightarrow> qkey \<Rightarrow> rat \<Rightarrow> Enforcer \<times> QuotaStore \<Rightarrow> Enforcer \<times> QuotaStore" where
  "spend_here ft k n s =
     (case s of (e, st) \<Rightarrow>
      if n \<le> 0 then (e, st)
      else let v = counter e k + n in (e\<lparr>en_counters := (en_counters e)(k \<mapsto> v)\<rparr>, persist ft k v e st))"

definition Spend :: "time \<Rightarrow> QuotaFaults \<Rightarrow> string \<Rightarrow> rat \<Rightarrow> rat \<Rightarrow> Enforcer \<times> QuotaStore \<Rightarrow> Enforcer \<times> QuotaStore" where
  "Spend now ft i tokens usd s =
     (case s of (e, st) \<Rightarrow>
      if i = [] then (e, st)
      else
        let bucket = dayBucket now;
            (failed, s) = (if atomicStore e
              then spend_shared ft i bucket [(ResDailyTokens, tokens), (ResDailyCostUSD, usd)] (e, st)
              else (True, e, st))
        in if \<not> failed then s
           else spend_here ft (i, ResDailyCostUSD, bucket) usd (spend_here ft (i, ResDailyTokens, bucket) tokens s))"

text \<open>The first daily budget that is spent.\<close>

definition spend_denial :: "time \<Rightarrow> string \<Rightarrow> QuotaView \<Rightarrow> Enforcer \<Rightarrow> Denial option" where
  "spend_denial now i eff e =
     (let over = (\<lambda>res. case ef_Limits eff res of None \<Rightarrow> False
                         | Some l \<Rightarrow> counter e (i, res, dayBucket now) \<ge> l)
      in map_option (\<lambda>res. denial_of now i res eff (counter e (i, res, dayBucket now)) 0)
           (find over [ResDailyTokens, ResDailyCostUSD]))"

definition count_denial :: "Denial option \<Rightarrow> Enforcer \<Rightarrow> Enforcer" where
  "count_denial d e = (case d of None \<Rightarrow> e | Some x \<Rightarrow> denied (dn_Resource x) e)"

definition CheckSpend :: "time \<Rightarrow> QuotaFaults \<Rightarrow> Subject option \<Rightarrow> Enforcer \<times> QuotaStore \<Rightarrow> Denial option \<times> Enforcer" where
  "CheckSpend now ft subject s =
     (case s of (e, st) \<Rightarrow>
      let i = subject_label subject in
      if anonymous_label i then (None, e)
      else let e = rememberSubject subject (syncShared now ft e st); d = spend_denial now i (resolveLocked e subject) e
        in (d, count_denial d e))"

definition subjectFromIdentityKey :: "string \<Rightarrow> Subject" where
  "subjectFromIdentityKey i =
     (let nobody = \<lparr>sj_Sub = [], sj_Email = [], sj_Groups = [], sj_Roles = [], sj_Username = [], sj_OID = [], sj_SCIMGroups = []\<rparr>
      in if length i > 4 \<and> take 4 i = ''sub:'' then nobody\<lparr>sj_Sub := drop 4 i\<rparr>
         else if CHR ''@'' \<in> set i then nobody\<lparr>sj_Email := i\<rparr> else nobody\<lparr>sj_Sub := i\<rparr>)"

definition subjectForIdentity :: "Enforcer \<Rightarrow> string \<Rightarrow> Subject" where
  "subjectForIdentity e i = (case en_subjects e i of Some s \<Rightarrow> s | None \<Rightarrow> subjectFromIdentityKey i)"

definition CheckSpendIdentity :: "time \<Rightarrow> QuotaFaults \<Rightarrow> string \<Rightarrow> Enforcer \<times> QuotaStore \<Rightarrow> Denial option \<times> Enforcer" where
  "CheckSpendIdentity now ft i s =
     (case s of (e, st) \<Rightarrow>
      if anonymous_label i then (None, e)
      else let e = syncShared now ft e st;
               d = spend_denial now i (Resolve_quota (en_resolver e) (Some (subjectForIdentity e i)) (overrides_for e i)) e
        in (d, count_denial d e))"

definition Effective_quota :: "Subject option \<Rightarrow> Enforcer \<Rightarrow> QuotaView \<times> Enforcer" where
  "Effective_quota subject e = (let e = rememberSubject subject e in (resolveLocked e subject, e))"

definition usageLocked :: "Enforcer \<Rightarrow> string \<Rightarrow> string \<Rightarrow> Resource \<Rightarrow> rat" where
  "usageLocked e i bucket = (\<lambda>res. counter e (i, res, if Kind_of res = KindDaily then bucket else []))"

definition Usage_of :: "time \<Rightarrow> QuotaFaults \<Rightarrow> string \<Rightarrow> Enforcer \<times> QuotaStore \<Rightarrow> (Resource \<Rightarrow> rat) \<times> Enforcer" where
  "Usage_of now ft i s =
     (case s of (e, st) \<Rightarrow>
      if i = [] then (\<lambda>res. 0, e)
      else let e = syncShared now ft e st in (usageLocked e i (dayBucket now), e))"

definition SetOverride ::
    "QuotaFaults \<Rightarrow> string \<Rightarrow> (string \<times> rat) list \<Rightarrow> Enforcer \<times> QuotaStore \<Rightarrow> bool \<times> Enforcer \<times> QuotaStore" where
  "SetOverride ft i limits s =
     (case s of (e, st) \<Rightarrow>
      if i = [] then (False, e, st)
      else case Normalize_limits limits of
             Inl err \<Rightarrow> (False, e, st)
           | Inr l \<Rightarrow>
               (let e = e\<lparr>en_overrides := (en_overrides e)(i \<mapsto> l)\<rparr>
                in if en_store e = NoStore then (True, e, st)
                   else if ft_write ft \<or> trim_space i = [] then (False, e, st)
                   else (True, e, st\<lparr>st_overrides := (st_overrides st)(i \<mapsto> l)\<rparr>)))"

text \<open>Whether there was one, and whether the table could be written.\<close>

definition ClearOverride :: "QuotaFaults \<Rightarrow> string \<Rightarrow> Enforcer \<times> QuotaStore \<Rightarrow> (bool \<times> bool) \<times> Enforcer \<times> QuotaStore" where
  "ClearOverride ft i s =
     (case s of (e, st) \<Rightarrow>
      if i = [] then ((False, True), e, st)
      else let existed = en_overrides e i \<noteq> None; e = e\<lparr>en_overrides := (en_overrides e)(i := None)\<rparr>
        in if en_store e = NoStore then ((existed, True), e, st)
           else if ft_write ft then ((existed, False), e, st)
           else ((existed \<or> st_overrides st i \<noteq> None, True), e, st\<lparr>st_overrides := (st_overrides st)(i := None)\<rparr>))"

definition ReloadOverrides :: "QuotaFaults \<Rightarrow> Enforcer \<times> QuotaStore \<Rightarrow> bool \<times> Enforcer" where
  "ReloadOverrides ft s =
     (case s of (e, st) \<Rightarrow>
      if en_store e = NoStore then (True, e)
      else if ft_load ft then (False, e)
      else (True, e\<lparr>en_overrides := (\<lambda>i. if i = [] then None else st_overrides st i), en_lastSync := 0\<rparr>))"

definition KnowsSubject :: "Enforcer \<Rightarrow> string \<Rightarrow> bool" where
  "KnowsSubject e i \<longleftrightarrow> i \<noteq> [] \<and> en_subjects e i \<noteq> None"

text \<open>How many sessions go to make room for one; the conversion to \<open>int\<close> truncates.\<close>

definition SessionAdmission :: "Subject option \<Rightarrow> int \<Rightarrow> Enforcer \<Rightarrow> int \<times> Enforcer" where
  "SessionAdmission subject existing e =
     (if existing < 0 \<or> anonymous_label (subject_label subject) then (0, e)
      else let e = rememberSubject subject e
        in case ef_Limits (resolveLocked e subject) ResSessions of
             None \<Rightarrow> (0, e)
           | Some limit \<Rightarrow>
               (let surplus = of_int existing - (limit - 1) in (if surplus \<le> 0 then 0 else \<lfloor>surplus\<rfloor>, e)))"

end
