(* ===== verification/QuotaShared.thy ===== *)
theory QuotaShared
  imports QuotaEnforce
begin

text \<open>
  What the enforcers of pkg/quota/enforce.go promise: every operation is one step on a ledger of
  counters, wherever the authority for it lies, and hub processes that share the tables admit
  together no more than one of them would.
\<close>

section \<open>The store as an atomic counter\<close>

text \<open>The contract of \<open>AtomicStore\<close>: check and addition are one step, and a counter never goes below zero.\<close>

locale atomic_counters =
  fixes adjust :: "'st \<Rightarrow> 'k \<Rightarrow> rat \<Rightarrow> rat option \<Rightarrow> (rat \<times> bool) option \<times> 'st"
    and val :: "'st \<Rightarrow> 'k \<Rightarrow> rat" and usable :: "'k \<Rightarrow> bool" and sound :: "'st \<Rightarrow> bool"
  assumes val_nonneg: "sound st \<Longrightarrow> 0 \<le> val st k"
    and adjust_taken: "sound st \<Longrightarrow> usable k \<Longrightarrow> d \<le> 0 \<or> (case l of None \<Rightarrow> True | Some c \<Rightarrow> val st k + d \<le> c) \<Longrightarrow>
      \<exists>st'. adjust st k d l = (Some (max 0 (val st k + d), True), st') \<and> sound st' \<and>
        val st' = (val st)(k := max 0 (val st k + d))"
    and adjust_refused: "sound st \<Longrightarrow> usable k \<Longrightarrow> 0 < d \<Longrightarrow> l = Some c \<Longrightarrow> c < val st k + d \<Longrightarrow>
      adjust st k d l = (Some (val st k, False), st)"
begin

lemma adjust_cases:
  assumes "sound st" and "usable k"
  obtains (taken) st' where "d \<le> 0 \<or> (case l of None \<Rightarrow> True | Some c \<Rightarrow> val st k + d \<le> c)"
      "adjust st k d l = (Some (max 0 (val st k + d), True), st')" "sound st'" "val st' = (val st)(k := max 0 (val st k + d))"
  | (refused) c where "0 < d" "l = Some c" "c < val st k + d" "adjust st k d l = (Some (val st k, False), st)"
proof (cases "d \<le> 0 \<or> (case l of None \<Rightarrow> True | Some c \<Rightarrow> val st k + d \<le> c)")
  case True
  then show thesis using adjust_taken [OF assms True] that(1) by blast
next
  case False
  then obtain c where "0 < d" "l = Some c" "c < val st k + d" by (auto split: option.splits)
  then show thesis using adjust_refused [OF assms] that(2) by blast
qed

text \<open>A counter that holds the sum of what was reserved still does when one more is taken or one given back.\<close>

lemma take_one:
  assumes "sound st" "usable k" "val st k = sum_list ns" "0 < n" "adjust st k n l = (Some (v, True), st')"
  shows "val st' k = sum_list (n # ns)" "case l of None \<Rightarrow> True | Some c \<Rightarrow> sum_list (n # ns) \<le> c"
proof -
  have "0 \<le> sum_list ns" using val_nonneg [OF assms(1), of k] assms(3) by simp
  from assms(1,2) have "(case l of None \<Rightarrow> True | Some c \<Rightarrow> sum_list (n # ns) \<le> c) \<and> val st' k = sum_list (n # ns)"
  proof (cases rule: adjust_cases [where d = n and l = l])
    case (taken st'')
    then show ?thesis using assms(3-5) \<open>0 \<le> sum_list ns\<close> by (auto simp: ac_simps split: option.splits)
  next
    case (refused c)
    then show ?thesis using assms(5) by simp
  qed
  then show "val st' k = sum_list (n # ns)" "case l of None \<Rightarrow> True | Some c \<Rightarrow> sum_list (n # ns) \<le> c" by blast+
qed

lemma give_back:
  assumes "sound st" "usable k" "val st k = sum_list (xs @ n # ys)" "list_all ((<) 0) (xs @ n # ys)"
    and "adjust st k (- n) None = (r, st')"
  shows "val st' k = sum_list (xs @ ys)"
proof -
  have "0 \<le> sum_list (xs @ ys)" using assms(4) by (intro sum_list_nonneg) (auto simp: list_all_iff intro: less_imp_le)
  moreover have "val st' = (val st)(k := max 0 (val st k + - n))"
    using adjust_taken [OF assms(1,2), of "- n" None] assms(4,5) by auto
  ultimately show ?thesis using assms(3) by simp
qed

end

definition units :: "QuotaStore \<Rightarrow> qkey \<Rightarrow> rat" where
  "units st k = (case st_counters st k of None \<Rightarrow> 0 | Some v \<Rightarrow> v)"

definition positive :: "('k \<Rightarrow> rat option) \<Rightarrow> bool" where
  "positive m \<longleftrightarrow> (\<forall>k v. m k = Some v \<longrightarrow> 0 < v)"

lemma positiveD: "positive m \<Longrightarrow> m k = Some v \<Longrightarrow> 0 < v"
  by (simp add: positive_def)

definition sound_store :: "QuotaStore \<Rightarrow> bool" where
  "sound_store st \<longleftrightarrow> positive (st_counters st)"

lemma units_nonneg: "sound_store st \<Longrightarrow> 0 \<le> units st k"
  by (auto simp: sound_store_def units_def intro: less_imp_le dest: positiveD split: option.split)

interpretation shared_counters: atomic_counters "\<lambda>st k d l. AdjustQuotaCounter False k d l st" units usable_key sound_store
proof
  fix st k d l
  assume s: "sound_store st" and u: "usable_key k"
    and h: "d \<le> 0 \<or> (case l of None \<Rightarrow> True | Some c \<Rightarrow> units st k + d \<le> c)"
  have n: "\<not> (case l of None \<Rightarrow> False | Some c \<Rightarrow> 0 < d \<and> c < units st k + d)" using h by (auto split: option.splits)
  let ?v = "max 0 (units st k + d)"
  have "AdjustQuotaCounter False k d l st =
      (Some (?v, True), st\<lparr>st_counters := (st_counters st)(k := (if units st k + d \<le> 0 then None else Some (units st k + d)))\<rparr>)"
    using n u by (auto simp: AdjustQuotaCounter_def Let_def units_def split: option.splits if_splits)
  then show "\<exists>st'. AdjustQuotaCounter False k d l st = (Some (?v, True), st') \<and> sound_store st' \<and> units st' = (units st)(k := ?v)"
    using s by (auto simp: sound_store_def units_def fun_eq_iff positive_def)
next
  fix st k d l c
  assume "sound_store st" "usable_key k" "0 < d" "l = Some c" "c < units st k + d"
  then show "AdjustQuotaCounter False k d l st = (Some (units st k, False), st)"
    by (simp add: AdjustQuotaCounter_def Let_def units_def split: option.splits)
qed (rule units_nonneg)

section \<open>The ledger\<close>

text \<open>The counters that decide: the tables' where processes share them, the process's own otherwise.\<close>

definition ledger :: "Enforcer \<times> QuotaStore \<Rightarrow> qkey \<Rightarrow> rat" where
  "ledger s k = (if atomicStore (fst s) then units (snd s) k else counter (fst s) k)"

definition sound :: "Enforcer \<times> QuotaStore \<Rightarrow> bool" where
  "sound s \<longleftrightarrow> positive (en_counters (fst s)) \<and> positive (st_counters (snd s))"

text \<open>The statements the ledger rests on work: none where the memory decides.\<close>

definition reliable :: "QuotaFaults \<Rightarrow> string \<Rightarrow> Enforcer \<times> QuotaStore \<Rightarrow> bool" where
  "reliable ft i s \<longleftrightarrow> atomicStore (fst s) \<longrightarrow> trim_space i \<noteq> [] \<and> ft_adjust ft = (\<lambda>r. False)"

definition moved :: "qkey \<Rightarrow> rat \<Rightarrow> (qkey \<Rightarrow> rat) \<Rightarrow> qkey \<Rightarrow> rat" where
  "moved k d L = L(k := max 0 (L k + d))"

definition fits_ceiling :: "rat option \<Rightarrow> rat \<Rightarrow> bool" where
  "fits_ceiling limit v \<longleftrightarrow> (case limit of None \<Rightarrow> True | Some l \<Rightarrow> v \<le> l)"

lemma counter_nonneg: "positive (en_counters e) \<Longrightarrow> 0 \<le> counter e k"
  by (auto simp: counter_def intro: less_imp_le dest: positiveD split: option.split)

lemma positive_upd: "positive m \<Longrightarrow> (case v of None \<Rightarrow> True | Some x \<Rightarrow> 0 < x) \<Longrightarrow> positive (m(k := v))"
  by (auto simp: positive_def split: option.splits)

lemma counter_upd: "counter (e\<lparr>en_counters := (en_counters e')(k := v)\<rparr>) = (counter e')(k := (case v of None \<Rightarrow> 0 | Some x \<Rightarrow> x))"
  by (auto simp: counter_def fun_eq_iff)

lemma remember_simps [simp]:
  "en_counters (rememberSubject s e) = en_counters e" "en_overrides (rememberSubject s e) = en_overrides e"
  "en_resolver (rememberSubject s e) = en_resolver e" "en_store (rememberSubject s e) = en_store e"
  "atomicStore (rememberSubject s e) = atomicStore e" "counter (rememberSubject s e) = counter e"
  "resolveLocked (rememberSubject s e) s' = resolveLocked e s'"
  by (simp_all add: rememberSubject_def atomicStore_def counter_def [abs_def] resolveLocked_def overrides_for_def split: option.split)

lemma denied_simps [simp]:
  "en_counters (denied res e) = en_counters e" "atomicStore (denied res e) = atomicStore e" "counter (denied res e) = counter e"
  "en_store (denied res e) = en_store e" "en_overrides (denied res e) = en_overrides e" "en_resolver (denied res e) = en_resolver e"
  by (auto simp: denied_def atomicStore_def counter_def fun_eq_iff)

lemma setCounter_simps [simp]:
  "atomicStore (setCounter k v e) = atomicStore e" "en_store (setCounter k v e) = en_store e"
  "positive (en_counters e) \<Longrightarrow> positive (en_counters (setCounter k v e))"
  by (auto simp: setCounter_def atomicStore_def positive_def)

lemma upd_counters_simps [simp]:
  "atomicStore (e\<lparr>en_counters := m\<rparr>) = atomicStore e"
  by (simp add: atomicStore_def)

lemma persist_positive: "positive (st_counters st) \<Longrightarrow> positive (st_counters (persist ft k v e st))"
  by (auto simp: persist_def PutQuotaCounter_def positive_def)

lemma ledger_local: "\<not> atomicStore e \<Longrightarrow> ledger (e, st) = counter e"
  and ledger_shared: "atomicStore e \<Longrightarrow> ledger (e, st) = units st"
  by (auto simp: ledger_def fun_eq_iff)


section \<open>Each operation is a step of the ledger\<close>

lemma denial_simps [simp]:
  "dn_Identity (denial_of now i res eff used n) = i" "dn_Resource (denial_of now i res eff used n) = res"
  "dn_Used (denial_of now i res eff used n) = used"
  "ef_Limits eff res = Some l \<Longrightarrow> dn_Limit (denial_of now i res eff used n) = l"
  by (simp_all add: denial_of_def)

lemma positive_setCounter: "positive (en_counters e) \<Longrightarrow> positive (en_counters (setCounter k v e))"
  by (auto simp: setCounter_def positive_def)

lemma setCounter_atomic [simp]: "atomicStore (setCounter k v e) = atomicStore e"
  by (simp add: setCounter_def)

lemma Admit_ledger:
  assumes "sound (e, st)" and "reliable ft (subject_label subject) (e, st)"
    and "\<not> anonymous_label (subject_label subject)" and "0 < n"
    and k: "k = (subject_label subject, res, bucketFor now res)" and l: "l = ef_Limits (resolveLocked e subject) res"
  obtains (granted) s' where "fits_ceiling l (ledger (e, st) k + n)"
      "Admit now ft subject res n (e, st) = (Inr (resolveLocked e subject), s')"
      "ledger s' = moved k n (ledger (e, st))" "sound s'" "atomicStore (fst s') = atomicStore e"
  | (refused) d s' where "\<not> fits_ceiling l (ledger (e, st) k + n)" "Admit now ft subject res n (e, st) = (Inl d, s')"
      "dn_Identity d = subject_label subject" "dn_Resource d = res" "Some (dn_Limit d) = l" "dn_Used d = ledger (e, st) k"
      "ledger s' = ledger (e, st)" "sound s'" "atomicStore (fst s') = atomicStore e"
proof (cases "atomicStore e")
  case True
  let ?e = "rememberSubject subject e"
  have s: "sound_store st" "positive (en_counters ?e)" using assms(1) by (simp_all add: sound_def sound_store_def)
  have u: "usable_key k" and f: "ft_adjust ft res = False"
    using assms(2) True by (simp_all add: k usable_key_def reliable_def)
  from s(1) u show thesis
  proof (cases rule: shared_counters.adjust_cases [where d = n and l = l])
    case (taken st')
    then have "fits_ceiling l (units st k + n)" using assms(4) by (simp add: fits_ceiling_def)
    then show thesis
      by (rule granted [where s' = "(setCounter k (max 0 (units st k + n)) ?e, st')", unfolded ledger_shared [OF True]])
        (use taken assms(1-4) True in \<open>simp_all add: Admit_def Let_def k [symmetric] l [symmetric] f ledger_def moved_def
            sound_def sound_store_def s positive_setCounter fun_eq_iff\<close>)
  next
    case (refused c)
    then have "\<not> fits_ceiling l (units st k + n)" by (simp add: fits_ceiling_def)
    then show thesis
      by (rule that(2) [where d = "denial_of now (subject_label subject) res (resolveLocked e subject) (units st k) n" and s' = "(denied res (setCounter k (units st k) ?e), st)", unfolded ledger_shared [OF True]])
        (use refused assms(1-4) True in \<open>simp_all add: Admit_def Let_def k [symmetric] l [symmetric] f ledger_def
            sound_def sound_store_def s positive_setCounter fun_eq_iff\<close>)
  qed
next
  case False
  let ?e = "rememberSubject subject e"
  have s: "positive (en_counters e)" "positive (st_counters st)" using assms(1) by (simp_all add: sound_def)
  have nn: "0 \<le> counter e k" by (rule counter_nonneg [OF s(1)])
  show thesis
  proof (cases "fits_ceiling l (counter e k + n)")
    case fit: True
    show thesis
      by (rule granted [where s' = "(?e\<lparr>en_counters := (en_counters ?e)(k \<mapsto> counter e k + n)\<rparr>, persist ft k (counter e k + n) ?e st)"])
        (use fit False assms(1-4) nn in \<open>auto simp: Admit_def Let_def k [symmetric] l [symmetric] fits_ceiling_def ledger_local
            moved_def counter_upd sound_def s positive_upd persist_positive split: option.splits\<close>)
  next
    case fit: False
    show thesis
      by (rule refused [where d = "denial_of now (subject_label subject) res (resolveLocked e subject) (counter e k) n" and s' = "(denied res ?e, st)"])
        (use fit False assms(1-4) nn in \<open>auto simp: Admit_def Let_def k [symmetric] l [symmetric] fits_ceiling_def ledger_local
            sound_def s split: option.splits\<close>)
  qed
qed

lemma Release_ledger:
  assumes "sound (e, st)" and "reliable ft i (e, st)" and "i \<noteq> []" and "0 < n" and "Kind_of res = KindGauge"
  shows "ledger (ReleaseUnits ft i res n (e, st)) = moved (i, res, []) (- n) (ledger (e, st))"
    and "sound (ReleaseUnits ft i res n (e, st))" and "atomicStore (fst (ReleaseUnits ft i res n (e, st))) = atomicStore e"
proof -
  let ?k = "(i, res, [])" and ?s = "ReleaseUnits ft i res n (e, st)"
  have s: "positive (en_counters e)" "positive (st_counters st)" using assms(1) by (simp_all add: sound_def)
  have "ledger ?s = moved ?k (- n) (ledger (e, st)) \<and> sound ?s \<and> atomicStore (fst ?s) = atomicStore e"
  proof (cases "atomicStore e")
    case True
    then have u: "usable_key ?k" and f: "ft_adjust ft res = False"
      using assms(2) by (simp_all add: usable_key_def reliable_def)
    obtain st' where st': "AdjustQuotaCounter False ?k (- n) None st = (Some (max 0 (units st ?k + - n), True), st')"
        "sound_store st'" "units st' = (units st)(?k := max 0 (units st ?k + - n))"
      using shared_counters.adjust_taken [of st ?k "- n" None] s(2) u assms(4) by (auto simp: sound_store_def)
    then have "?s = (setCounter ?k (max 0 (units st ?k + - n)) e, st')"
      using assms(3-5) True f by (simp add: ReleaseUnits_def Let_def)
    then show ?thesis using st'(2,3) s(1) True by (simp add: ledger_shared moved_def sound_def sound_store_def positive_setCounter)
  next
    case False
    have nn: "0 \<le> counter e ?k" by (rule counter_nonneg [OF s(1)])
    show ?thesis using False assms(3-5) s nn
      by (auto simp: ReleaseUnits_def Let_def ledger_local moved_def counter_upd sound_def persist_positive positive_upd)
  qed
  then show "ledger ?s = moved ?k (- n) (ledger (e, st))" "sound ?s" "atomicStore (fst ?s) = atomicStore e" by blast+
qed

lemma spend_here_ledger:
  assumes "sound (e, st)" and "\<not> atomicStore e"
  shows "ledger (spend_here ft k n (e, st)) = moved k (max 0 n) (ledger (e, st))" (is ?L)
    and "sound (spend_here ft k n (e, st))" (is ?S) and "\<not> atomicStore (fst (spend_here ft k n (e, st)))" (is ?A)
proof -
  have s: "positive (en_counters e)" "positive (st_counters st)" using assms(1) by (simp_all add: sound_def)
  have nn: "0 \<le> counter e k" by (rule counter_nonneg [OF s(1)])
  then have "?L \<and> ?S \<and> ?A" using assms(2) s nn
    by (auto simp: spend_here_def Let_def ledger_local moved_def counter_upd sound_def persist_positive positive_upd fun_eq_iff)
  then show ?L ?S ?A by blast+
qed

lemma spend_shared_ledger:
  "sound (e, st) \<Longrightarrow> atomicStore e \<Longrightarrow> reliable ft i (e, st) \<Longrightarrow>
     (case spend_shared ft i bucket rns (e, st) of (failed, s') \<Rightarrow>
        \<not> failed \<and> sound s' \<and> atomicStore (fst s') \<and>
        ledger s' = fold (\<lambda>(res, n). moved (i, res, bucket) (max 0 n)) rns (ledger (e, st)))"
proof (induction rns arbitrary: e st)
  case (Cons rn rns)
  obtain res n where rn: "rn = (res, n)" by fastforce
  let ?k = "(i, res, bucket)"
  have s: "positive (en_counters e)" "positive (st_counters st)" using Cons.prems(1) by (simp_all add: sound_def)
  have z: "moved k (max 0 n) (ledger (e, st)) = ledger (e, st)" if "n \<le> 0" for k
    using units_nonneg [of st k] s(2) that Cons.prems(2) by (simp add: moved_def ledger_shared sound_store_def fun_upd_idem)
  show ?case
  proof (cases "n \<le> 0")
    case True
    then show ?thesis using Cons.IH [OF Cons.prems] z by (simp add: rn)
  next
    case False
    have u: "usable_key ?k" and f: "ft_adjust ft res = False"
      using Cons.prems(2,3) by (simp_all add: usable_key_def reliable_def)
    obtain st' where st': "AdjustQuotaCounter False ?k n None st = (Some (max 0 (units st ?k + n), True), st')"
        "sound_store st'" "units st' = (units st)(?k := max 0 (units st ?k + n))"
      using shared_counters.adjust_taken [of st ?k n None] s(2) u by (auto simp: sound_store_def)
    let ?e = "setCounter ?k (max 0 (units st ?k + n)) e"
    have "sound (?e, st')" "atomicStore ?e" "reliable ft i (?e, st')"
      using st'(2) s(1) Cons.prems(2,3) by (simp_all add: sound_def sound_store_def positive_setCounter reliable_def)
    note ih = Cons.IH [OF this]
    have "ledger (?e, st') = moved ?k (max 0 n) (ledger (e, st))"
      using st'(3) Cons.prems(2) False by (simp add: ledger_shared moved_def)
    then show ?thesis using ih False st'(1) f by (simp add: rn)
  qed
qed simp

lemma Spend_ledger:
  assumes "sound (e, st)" and "reliable ft i (e, st)" and "i \<noteq> []"
  shows "ledger (Spend now ft i tokens usd (e, st)) =
      moved (i, ResDailyCostUSD, dayBucket now) (max 0 usd) (moved (i, ResDailyTokens, dayBucket now) (max 0 tokens) (ledger (e, st)))"
    and "sound (Spend now ft i tokens usd (e, st))"
    and "atomicStore (fst (Spend now ft i tokens usd (e, st))) = atomicStore e"
proof -
  let ?s = "Spend now ft i tokens usd (e, st)"
  let ?L = "moved (i, ResDailyCostUSD, dayBucket now) (max 0 usd) (moved (i, ResDailyTokens, dayBucket now) (max 0 tokens) (ledger (e, st)))"
  have "ledger ?s = ?L \<and> sound ?s \<and> atomicStore (fst ?s) = atomicStore e"
  proof (cases "atomicStore e")
    case True
    let ?r = "spend_shared ft i (dayBucket now) [(ResDailyTokens, tokens), (ResDailyCostUSD, usd)] (e, st)"
    obtain s' where r: "?r = (False, s')" "sound s'" "atomicStore (fst s')" "ledger s' = ?L"
      using spend_shared_ledger [OF assms(1) True assms(2), of "dayBucket now" "[(ResDailyTokens, tokens), (ResDailyCostUSD, usd)]"]
      by (cases ?r) (simp del: spend_shared.simps)
    then have "?s = s'" using assms(3) True by (simp add: Spend_def Let_def del: spend_shared.simps)
    then show ?thesis using r True by simp
  next
    case False
    let ?t = "spend_here ft (i, ResDailyTokens, dayBucket now) tokens (e, st)"
    have t: "sound ?t" "\<not> atomicStore (fst ?t)" "ledger ?t = moved (i, ResDailyTokens, dayBucket now) (max 0 tokens) (ledger (e, st))"
      using spend_here_ledger [OF assms(1) False] by blast+
    have "?s = spend_here ft (i, ResDailyCostUSD, dayBucket now) usd ?t"
      using False assms(3) by (simp add: Spend_def Let_def)
    then show ?thesis using spend_here_ledger [of "fst ?t" "snd ?t"] t False by simp
  qed
  then show "ledger ?s = ?L" "sound ?s" "atomicStore (fst ?s) = atomicStore e" by blast+
qed

text \<open>C12: every operation on the counters is one step of an abstract ledger, whether the authority is the
  shared tables or the process's own memory: an admission is granted exactly when the units on the ledger
  and those asked for fit under the ceiling, and then adds them; a denial names the ceiling and what is in
  use and changes nothing; a release takes units off, never below zero; spending adds to the day's budgets.
  The memory decides even when its persistence fails; the shared tables decide when their statements work.\<close>

theorem enforcer_refines_ledger:
  "if sound s \<and> reliable ft i s \<and> subject_label subject = i \<and> \<not> anonymous_label i \<and> 0 < n
   then let k = (i, res, bucketFor now res); limit = ef_Limits (resolveLocked (fst s) subject) res
     in (case Admit now ft subject res n s of
           (Inr eff, s') \<Rightarrow> fits_ceiling limit (ledger s k + n) \<and> ledger s' = moved k n (ledger s) \<and> sound s'
         | (Inl d, s') \<Rightarrow> \<not> fits_ceiling limit (ledger s k + n) \<and> Some (dn_Limit d) = limit \<and>
             dn_Used d = ledger s k \<and> ledger s' = ledger s \<and> sound s') \<and>
        (if Kind_of res = KindGauge
         then ledger (ReleaseUnits ft i res n s) = moved (i, res, []) (- n) (ledger s) \<and> sound (ReleaseUnits ft i res n s) else True) \<and>
        ledger (Spend now ft i tokens usd s) = moved (i, ResDailyCostUSD, dayBucket now) (max 0 usd)
          (moved (i, ResDailyTokens, dayBucket now) (max 0 tokens) (ledger s)) \<and>
        sound (Spend now ft i tokens usd s)
   else True"
proof (cases "sound s \<and> reliable ft i s \<and> subject_label subject = i \<and> \<not> anonymous_label i \<and> 0 < n")
  case True
  obtain e st where s: "s = (e, st)" by fastforce
  have h: "sound (e, st)" "reliable ft i (e, st)" "i \<noteq> []" "0 < n" "reliable ft (subject_label subject) (e, st)"
    "\<not> anonymous_label (subject_label subject)" using True by (auto simp: s anonymous_label_def)
  let ?k = "(i, res, bucketFor now res)" and ?l = "ef_Limits (resolveLocked e subject) res"
  have k: "?k = (subject_label subject, res, bucketFor now res)" using True by simp
  have a: "case Admit now ft subject res n (e, st) of
      (Inr eff, s') \<Rightarrow> fits_ceiling ?l (ledger (e, st) ?k + n) \<and> ledger s' = moved ?k n (ledger (e, st)) \<and> sound s'
    | (Inl d, s') \<Rightarrow> \<not> fits_ceiling ?l (ledger (e, st) ?k + n) \<and> Some (dn_Limit d) = ?l \<and>
        dn_Used d = ledger (e, st) ?k \<and> ledger s' = ledger (e, st) \<and> sound s'"
    by (rule Admit_ledger [OF h(1,5,6,4) k refl]) simp_all
  show ?thesis unfolding s Let_def fst_conv using True [unfolded s] a Release_ledger [OF h(1-4)] Spend_ledger [OF h(1-3)] by simp
next
  case False
  then show ?thesis by (simp only: if_False)
qed

section \<open>Processes that share the tables\<close>

record QuotaSystem =
  qs_store :: QuotaStore
  qs_hub :: "nat \<Rightarrow> Enforcer"
  qs_held :: "(string \<times> Resource \<times> rat) list"

datatype quota_action =
    AdmitA nat time "Subject option" Resource rat
  | ReleaseA nat nat
  | SpendA nat time string rat rat
  | CheckA nat time "Subject option"
  | CheckIdentityA nat time string
  | UsageA nat time string
  | OverrideA nat string "(string \<times> rat) list"
  | ClearA nat string
  | ReloadA nat
  | LoadA nat time "QuotaResolver option"
  | ReconcileA nat LiveState

definition put_hub :: "nat \<Rightarrow> Enforcer \<times> QuotaStore \<Rightarrow> QuotaSystem \<Rightarrow> QuotaSystem" where
  "put_hub p es s = s\<lparr>qs_hub := (qs_hub s)(p := fst es), qs_store := snd es\<rparr>"

text \<open>One operation of one process. A grant of a gauge is remembered as held until it is released. A
  process that starts again loads the tables, and when no other process serves, rebuilds the gauges from
  the live state before it listens (\<open>ReconcileQuotas\<close>); by then every reproduction has ended, for it
  lives in the process that runs it.\<close>

definition survive_start :: "(string \<times> Resource \<times> rat) list \<Rightarrow> (string \<times> Resource \<times> rat) list" where
  "survive_start held = filter (\<lambda>h. fst (snd h) \<noteq> ResConcurrentReproductions) held"

fun quota_do :: "quota_action \<Rightarrow> QuotaFaults \<Rightarrow> QuotaSystem \<Rightarrow> QuotaSystem" where
  "quota_do (AdmitA p now subject res n) ft s =
     (let i = subject_label subject; (r, es) = Admit now ft subject res n (qs_hub s p, qs_store s);
          s' = put_hub p es s
      in case r of Inl d \<Rightarrow> s'
         | Inr eff \<Rightarrow> if anonymous_label i \<or> n \<le> 0 \<or> Kind_of res \<noteq> KindGauge then s'
                      else s'\<lparr>qs_held := (i, res, n) # qs_held s\<rparr>)"
| "quota_do (ReleaseA p j) ft s =
     (if j < length (qs_held s)
      then let (i, res, n) = qs_held s ! j
        in (put_hub p (ReleaseUnits ft i res n (qs_hub s p, qs_store s)) s)\<lparr>qs_held := take j (qs_held s) @ drop (Suc j) (qs_held s)\<rparr>
      else s)"
| "quota_do (SpendA p now i tokens usd) ft s = put_hub p (Spend now ft i tokens usd (qs_hub s p, qs_store s)) s"
| "quota_do (CheckA p now subject) ft s = put_hub p (snd (CheckSpend now ft subject (qs_hub s p, qs_store s)), qs_store s) s"
| "quota_do (CheckIdentityA p now i) ft s =
     put_hub p (snd (CheckSpendIdentity now ft i (qs_hub s p, qs_store s)), qs_store s) s"
| "quota_do (UsageA p now i) ft s = put_hub p (snd (Usage_of now ft i (qs_hub s p, qs_store s)), qs_store s) s"
| "quota_do (OverrideA p i limits) ft s = put_hub p (snd (SetOverride ft i limits (qs_hub s p, qs_store s))) s"
| "quota_do (ClearA p i) ft s = put_hub p (snd (ClearOverride ft i (qs_hub s p, qs_store s))) s"
| "quota_do (ReloadA p) ft s = put_hub p (snd (ReloadOverrides ft (qs_hub s p, qs_store s)), qs_store s) s"
| "quota_do (LoadA p now resolver) ft s =
     put_hub p (snd (Load_quota now ft (NewEnforcer resolver (en_store (qs_hub s p)) (en_shared (qs_hub s p)), qs_store s))) s"
| "quota_do (ReconcileA p live) ft s =
     (put_hub p (snd (Reconcile ft live (qs_hub s p, qs_store s))) s)\<lparr>qs_held := survive_start (qs_held s)\<rparr>"

text \<open>A start: the load, and the rebuild where other processes do not make it skip it.\<close>

definition start_up :: "nat \<Rightarrow> time \<Rightarrow> QuotaResolver option \<Rightarrow> LiveState option \<Rightarrow> quota_action list" where
  "start_up p now resolver live = LoadA p now resolver # (case live of None \<Rightarrow> [] | Some l \<Rightarrow> [ReconcileA p l])"

definition held_units :: "(string \<times> Resource \<times> rat) list \<Rightarrow> string \<Rightarrow> Resource \<Rightarrow> rat" where
  "held_units held i res = sum_list (map (snd \<circ> snd) (filter (\<lambda>h. fst h = i \<and> fst (snd h) = res) held))"

definition live_units :: "LiveState \<Rightarrow> string \<Rightarrow> Resource \<Rightarrow> rat" where
  "live_units live i res = (case live_gauge live (i, res) of None \<Rightarrow> 0 | Some v \<Rightarrow> v)"

text \<open>The statements that adjust a shared counter work, and a counter has an identity to be kept under;
  every other statement may fail. A start that rebuilds the gauges, when no other process serves, reads
  what is still held and its write works.\<close>

definition adjusts :: "quota_action \<Rightarrow> QuotaFaults \<Rightarrow> (string \<times> Resource \<times> rat) list \<Rightarrow> bool" where
  "adjusts a ft held \<longleftrightarrow> ft_adjust ft = (\<lambda>r. False) \<and>
     (case a of AdmitA p now subject res n \<Rightarrow> trim_space (subject_label subject) \<noteq> []
      | SpendA p now i tokens usd \<Rightarrow> i = [] \<or> trim_space i \<noteq> []
      | ReconcileA p live \<Rightarrow> \<not> ft_write ft \<and>
          (\<forall>i res. Kind_of res = KindGauge \<longrightarrow> trim_space i \<noteq> [] \<longrightarrow>
             live_units live i res = held_units (survive_start held) i res)
      | _ \<Rightarrow> True)"

definition quota_start :: "(nat \<Rightarrow> QuotaResolver option) \<Rightarrow> QuotaSystem" where
  "quota_start policy = \<lparr>qs_store = \<lparr>st_counters = Map.empty, st_overrides = Map.empty\<rparr>,
     qs_hub = (\<lambda>p. NewEnforcer (policy p) AtomicStore True), qs_held = []\<rparr>"

inductive quota_step :: "QuotaSystem \<Rightarrow> QuotaSystem \<Rightarrow> bool" where
  "adjusts a ft (qs_held s) \<Longrightarrow> quota_step s (quota_do a ft s)"

definition quota_inv :: "QuotaSystem \<Rightarrow> bool" where
  "quota_inv s \<longleftrightarrow> sound_store (qs_store s) \<and>
     (\<forall>p. atomicStore (qs_hub s p) \<and> positive (en_counters (qs_hub s p))) \<and>
     list_all (\<lambda>(i, res, n). 0 < n \<and> Kind_of res = KindGauge \<and> trim_space i \<noteq> []) (qs_held s) \<and>
     (\<forall>i res. Kind_of res = KindGauge \<longrightarrow> trim_space i \<noteq> [] \<longrightarrow> units (qs_store s) (i, res, []) = held_units (qs_held s) i res)"

definition same_gauges :: "QuotaStore \<Rightarrow> QuotaStore \<Rightarrow> bool" where
  "same_gauges st st' \<longleftrightarrow> (\<forall>i res. Kind_of res = KindGauge \<longrightarrow> units st' (i, res, []) = units st (i, res, []))"

lemma inv_put:
  assumes "quota_inv s" and "atomicStore (fst es)" and "positive (en_counters (fst es))" and "sound_store (snd es)"
    and "same_gauges (qs_store s) (snd es)"
  shows "quota_inv (put_hub p es s)"
  using assms by (simp add: quota_inv_def put_hub_def same_gauges_def)

lemma same_gauges_refl [simp]: "same_gauges st st"
  by (simp add: same_gauges_def)

lemma moved_gauge: "Kind_of res = KindGauge \<Longrightarrow> Kind_of r = KindDaily \<Longrightarrow> moved (j, r, b) d L (i, res, c) = L (i, res, c)"
  by (auto simp: moved_def)

lemma positive_rows: "positive (st_counters st) \<Longrightarrow> positive (current_rows b st)"
  by (auto simp: current_rows_def positive_def split: option.splits if_splits)

lemma sync_facts:
  assumes "atomicStore e" "positive (en_counters e)" "sound_store st"
  shows "atomicStore (syncShared now ft e st)" "positive (en_counters (syncShared now ft e st))"
  using assms positive_rows by (auto simp: syncShared_def atomicStore_def sound_store_def)

lemma count_denial_simps [simp]:
  "atomicStore (count_denial d e) = atomicStore e" "en_counters (count_denial d e) = en_counters e"
  by (auto simp: count_denial_def split: option.split)

lemma prune_facts:
  assumes "sound_store st"
  shows "sound_store (PruneQuotaCounters f b st)" "same_gauges st (PruneQuotaCounters f b st)"
  using assms by (auto simp: PruneQuotaCounters_def sound_store_def positive_def same_gauges_def units_def split: if_splits)

lemma Load_facts:
  assumes "sound_store st"
  shows "sound_store (snd (snd (Load_quota now ft (NewEnforcer r kind sh, st))))"
    "same_gauges st (snd (snd (Load_quota now ft (NewEnforcer r kind sh, st))))"
    "atomicStore (fst (snd (Load_quota now ft (NewEnforcer r kind sh, st)))) \<longleftrightarrow> sh \<and> kind = AtomicStore"
    "positive (en_counters (fst (snd (Load_quota now ft (NewEnforcer r kind sh, st)))))"
proof -
  have "positive (current_rows (dayBucket now) st)" using positive_rows assms by (simp add: sound_store_def)
  then have "positive (en_counters (NewEnforcer r kind sh) ++ current_rows (dayBucket now) st)"
    by (simp add: NewEnforcer_def)
  then show "positive (en_counters (fst (snd (Load_quota now ft (NewEnforcer r kind sh, st)))))"
    by (auto simp: Load_quota_def NewEnforcer_def map_add_def positive_def split: option.splits)
qed (use prune_facts [OF assms] assms in \<open>auto simp: Load_quota_def NewEnforcer_def atomicStore_def\<close>)

lemma held_units_Cons:
  "held_units ((j, r, n) # held) i res = (if j = i \<and> r = res then n else 0) + held_units held i res"
  by (simp add: held_units_def)

lemma held_units_append: "held_units (xs @ ys) i res = held_units xs i res + held_units ys i res"
  by (simp add: held_units_def)

lemma held_units_nonneg: "list_all (\<lambda>(i, res, n). 0 < n \<and> P i res) held \<Longrightarrow> 0 \<le> held_units held i res"
  by (induction held) (auto simp: held_units_def)

text \<open>The facts of the invariant about one process.\<close>

lemma inv_process:
  assumes "quota_inv s"
  shows "sound (qs_hub s p, qs_store s)" "atomicStore (qs_hub s p)" "positive (en_counters (qs_hub s p))"
    "ft_adjust ft = (\<lambda>r. False) \<Longrightarrow> trim_space i \<noteq> [] \<Longrightarrow> reliable ft i (qs_hub s p, qs_store s)"
    "ledger (qs_hub s p, qs_store s) = units (qs_store s)"
  using assms by (auto simp: quota_inv_def sound_def sound_store_def reliable_def ledger_shared)

lemma inv_store: "quota_inv s \<Longrightarrow> sound_store (qs_store s)"
  by (simp add: quota_inv_def)

lemma inv_units:
  "quota_inv s \<Longrightarrow> Kind_of res = KindGauge \<Longrightarrow> trim_space i \<noteq> [] \<Longrightarrow> units (qs_store s) (i, res, []) = held_units (qs_held s) i res"
  by (simp add: quota_inv_def)

lemma sound_parts: "sound es \<Longrightarrow> positive (en_counters (fst es)) \<and> sound_store (snd es)"
  by (simp add: sound_def sound_store_def)

lemma inv_admit:
  assumes inv: "quota_inv s" and ok: "adjusts (AdmitA p now subject res n) ft (qs_held s)"
  shows "quota_inv (quota_do (AdmitA p now subject res n) ft s)"
proof -
  let ?i = "subject_label subject" and ?e = "qs_hub s p" and ?st = "qs_store s"
  note P = inv_process [OF inv, where p = p]
  consider "anonymous_label ?i" | "\<not> anonymous_label ?i" "n \<le> 0" | "\<not> anonymous_label ?i" "0 < n" by linarith
  then show ?thesis
  proof cases
    case 1
    then show ?thesis using inv_put [OF inv, of "(?e, ?st)" p] P inv_store [OF inv] by (simp add: Admit_def Let_def)
  next
    case 2
    then show ?thesis using inv_put [OF inv, of "(rememberSubject subject ?e, ?st)" p] P inv_store [OF inv] by (simp add: Admit_def Let_def)
  next
    case 3
    have r: "reliable ft ?i (?e, ?st)" using ok by (intro P(4)) (simp_all add: adjusts_def)
    from P(1) r 3 show ?thesis
    proof (rule Admit_ledger [OF _ _ _ _ refl refl, where now = now and res = res])
      fix es
      assume a: "Admit now ft subject res n (?e, ?st) = (Inr (resolveLocked ?e subject), es)"
        "ledger es = moved (?i, res, bucketFor now res) n (ledger (?e, ?st))" "sound es" "atomicStore (fst es) = atomicStore ?e"
      have u: "units (snd es) = moved (?i, res, bucketFor now res) n (units ?st)"
        using a(2,4) P(2,5) by (cases es) (simp add: ledger_shared)
      note es = a(4) sound_parts [OF a(3)]
      show ?thesis
      proof (cases "Kind_of res = KindGauge")
        case True
        have "0 \<le> units ?st (?i, res, [])" by (rule units_nonneg [OF inv_store [OF inv]])
        then show ?thesis using inv es u True 3 ok P(2)
          by (auto simp: a(1) Let_def put_hub_def quota_inv_def held_units_Cons moved_def bucketFor_def adjusts_def)
      next
        case False
        then have "same_gauges ?st (snd es)"
          using u moved_gauge by (cases "Kind_of res") (auto simp: same_gauges_def)
        then show ?thesis using inv_put [OF inv, of es p] es P(2) False by (simp add: a(1) Let_def)
      qed
    next
      fix d es
      assume a: "Admit now ft subject res n (?e, ?st) = (Inl d, es)" "ledger es = ledger (?e, ?st)" "sound es"
        "atomicStore (fst es) = atomicStore ?e"
      then have "units (snd es) = units ?st" using P(2,5) by (cases es) (simp add: ledger_shared)
      then show ?thesis using inv_put [OF inv, of es p] a sound_parts [OF a(3)] P(2)
        by (simp add: Let_def same_gauges_def)
    qed
  qed
qed

lemma inv_release:
  assumes inv: "quota_inv s" and ok: "adjusts (ReleaseA p j) ft (qs_held s)"
  shows "quota_inv (quota_do (ReleaseA p j) ft s)"
proof (cases "j < length (qs_held s)")
  case True
  obtain i res n where h: "qs_held s ! j = (i, res, n)" by (metis prod_cases3)
  let ?e = "qs_hub s p" and ?st = "qs_store s" and ?s = "ReleaseUnits ft i res n (qs_hub s p, qs_store s)"
  note P = inv_process [OF inv, where p = p]
  have all: "list_all (\<lambda>(i, res, n). 0 < n \<and> Kind_of res = KindGauge \<and> trim_space i \<noteq> []) (qs_held s)"
    using inv by (simp add: quota_inv_def)
  have "(i, res, n) \<in> set (qs_held s)" using True h nth_mem by fastforce
  then have g: "0 < n" "Kind_of res = KindGauge" "trim_space i \<noteq> []" using all by (auto simp: list_all_iff)
  then have "i \<noteq> []" by (auto simp: trim_space_def)
  have r: "reliable ft i (?e, ?st)" using ok g by (intro P(4)) (simp_all add: adjusts_def)
  note R = Release_ledger [OF P(1) r \<open>i \<noteq> []\<close> g(1,2)]
  have u: "units (snd ?s) = moved (i, res, []) (- n) (units ?st)"
    using R(1,3) P(2,5) by (cases ?s) (simp add: ledger_shared)
  have split: "qs_held s = take j (qs_held s) @ (i, res, n) # drop (Suc j) (qs_held s)"
    using id_take_nth_drop [OF True] h by simp
  let ?rest = "take j (qs_held s) @ drop (Suc j) (qs_held s)"
  have all': "list_all (\<lambda>(i, res, n). 0 < n \<and> Kind_of res = KindGauge \<and> trim_space i \<noteq> []) ?rest"
    using all by (subst (asm) split) simp
  have held: "held_units (qs_held s) i' res' = (if i = i' \<and> res = res' then n else 0) + held_units ?rest i' res'" for i' res'
    by (subst split) (simp add: held_units_append held_units_Cons)
  have "units (snd ?s) (i', res', []) = held_units ?rest i' res'" if "Kind_of res' = KindGauge" "trim_space i' \<noteq> []" for i' res'
    using inv_units [OF inv that] held [of i' res'] held_units_nonneg [OF all', of i' res'] u by (auto simp: moved_def)
  then show ?thesis using inv R(2,3) sound_parts [OF R(2)] all' True P(2)
    by (simp add: h put_hub_def quota_inv_def)
qed (use inv in simp)

lemma inv_spend:
  assumes inv: "quota_inv s" and ok: "adjusts (SpendA p now i tokens usd) ft (qs_held s)"
  shows "quota_inv (quota_do (SpendA p now i tokens usd) ft s)"
proof (cases "i = []")
  case True
  then show ?thesis using inv_put [OF inv, of "(qs_hub s p, qs_store s)" p] inv_process [OF inv, where p = p] inv_store [OF inv] by (simp add: Spend_def)
next
  case False
  let ?e = "qs_hub s p" and ?st = "qs_store s"
  note P = inv_process [OF inv, where p = p]
  have r: "reliable ft i (?e, ?st)" using ok False by (intro P(4)) (simp_all add: adjusts_def)
  note S = Spend_ledger [OF P(1) r False, of now tokens usd]
  have "units (snd (Spend now ft i tokens usd (?e, ?st))) = moved (i, ResDailyCostUSD, dayBucket now) (max 0 usd)
      (moved (i, ResDailyTokens, dayBucket now) (max 0 tokens) (units ?st))"
    using S(1,3) P(2,5) by (cases "Spend now ft i tokens usd (?e, ?st)") (simp add: ledger_shared)
  then have "same_gauges ?st (snd (Spend now ft i tokens usd (?e, ?st)))"
    by (simp add: same_gauges_def moved_gauge Kind_of_def)
  then show ?thesis using inv_put [OF inv, of "Spend now ft i tokens usd (?e, ?st)" p] S(2,3) sound_parts [OF S(2)] P(2) by simp
qed

lemma inv_other:
  assumes inv: "quota_inv s"
  shows "quota_inv (quota_do (CheckA p now subject) ft s)" "quota_inv (quota_do (CheckIdentityA p now i) ft s)"
    "quota_inv (quota_do (UsageA p now i) ft s)" "quota_inv (quota_do (OverrideA p i limits) ft s)"
    "quota_inv (quota_do (ClearA p i) ft s)" "quota_inv (quota_do (ReloadA p) ft s)"
    "quota_inv (quota_do (LoadA p now resolver) ft s)"
proof -
  note P = inv_process [OF inv, where p = p]
  note S = sync_facts [OF P(2,3) inv_store [OF inv]]
  show "quota_inv (quota_do (CheckA p now subject) ft s)"
    using P S inv_store [OF inv] by (auto simp: CheckSpend_def Let_def intro!: inv_put [OF inv])
  show "quota_inv (quota_do (CheckIdentityA p now i) ft s)"
    using P S inv_store [OF inv] by (auto simp: CheckSpendIdentity_def Let_def intro!: inv_put [OF inv])
  show "quota_inv (quota_do (UsageA p now i) ft s)"
    using P S inv_store [OF inv] by (auto simp: Usage_of_def Let_def intro!: inv_put [OF inv])
  show "quota_inv (quota_do (OverrideA p i limits) ft s)"
    using P inv_store [OF inv] by (auto simp: SetOverride_def Let_def atomicStore_def sound_store_def same_gauges_def units_def
        intro!: inv_put [OF inv] split: sum.split)
  show "quota_inv (quota_do (ClearA p i) ft s)"
    using P inv_store [OF inv] by (auto simp: ClearOverride_def Let_def atomicStore_def sound_store_def same_gauges_def units_def
        intro!: inv_put [OF inv])
  show "quota_inv (quota_do (ReloadA p) ft s)"
    using P inv_store [OF inv] by (auto simp: ReloadOverrides_def atomicStore_def intro!: inv_put [OF inv])
  show "quota_inv (quota_do (LoadA p now resolver) ft s)"
    using Load_facts [OF inv_store [OF inv]] P(2) by (auto simp: atomicStore_def [of "qs_hub s p"] intro!: inv_put [OF inv])
qed

text \<open>The rebuilt gauges.\<close>

lemma live_gauge_positive: "live_gauge live ir = Some v \<Longrightarrow> 0 < v"
  by (cases ir) (auto simp: live_gauge_def Let_def split: option.splits if_splits)

lemma reconciled_store:
  assumes "sound_store st"
  shows "sound_store (ReplaceQuotaGauges False (live_gauge live) st)"
    and "trim_space i \<noteq> [] \<Longrightarrow> units (ReplaceQuotaGauges False (live_gauge live) st) (i, res, []) = live_units live i res"
  using assms live_gauge_positive [of live "(i, res)"]
  by (force simp: sound_store_def positive_def ReplaceQuotaGauges_def units_def live_units_def
      split: if_splits option.splits)+

lemma reconciled_counters:
  assumes "positive (en_counters e)"
  shows "positive (\<lambda>(i, r, b). if b = [] then live_gauge live (i, r) else en_counters e (i, r, b))"
  using assms live_gauge_positive by (force simp: positive_def split: if_splits)

lemma inv_reconcile:
  assumes inv: "quota_inv s" and ok: "adjusts (ReconcileA p live) ft (qs_held s)"
  shows "quota_inv (quota_do (ReconcileA p live) ft s)"
proof -
  let ?e = "qs_hub s p" and ?st = "qs_store s"
  note P = inv_process [OF inv, where p = p]
  have w: "\<not> ft_write ft" and l: "\<And>i res. Kind_of res = KindGauge \<Longrightarrow> trim_space i \<noteq> [] \<Longrightarrow>
      live_units live i res = held_units (survive_start (qs_held s)) i res"
    using ok by (auto simp: adjusts_def)
  have eq: "snd (Reconcile ft live (?e, ?st)) =
      (?e\<lparr>en_counters := \<lambda>(i, r, b). if b = [] then live_gauge live (i, r) else en_counters ?e (i, r, b)\<rparr>,
       ReplaceQuotaGauges False (live_gauge live) ?st)"
    using P(2) w by (simp add: Reconcile_def atomicStore_def)
  have h: "list_all (\<lambda>(i, res, n). 0 < n \<and> Kind_of res = KindGauge \<and> trim_space i \<noteq> []) (survive_start (qs_held s))"
    using inv by (auto simp: quota_inv_def survive_start_def list_all_iff)
  show ?thesis using inv P(2) l h reconciled_store [OF inv_store [OF inv]] reconciled_counters [OF P(3)]
    by (simp add: eq put_hub_def quota_inv_def)
qed

interpretation quota_system: preserved quota_step quota_inv
proof
  fix s t
  assume "quota_inv s" "quota_step s t"
  then show "quota_inv t"
  proof (cases rule: quota_step.cases [OF \<open>quota_step s t\<close>])
    case (1 a ft s')
    then show ?thesis using \<open>quota_inv s\<close> inv_admit inv_release inv_spend inv_other inv_reconcile
      by (cases a) auto
  qed
qed

lemma quota_start_inv: "quota_inv (quota_start policy)"
  by (auto simp: quota_inv_def quota_start_def NewEnforcer_def atomicStore_def sound_store_def positive_def units_def held_units_def)

text \<open>C11: hub processes that share the tables, however many and however their operations interleave,
  starts included, grant one more unit of a gauge exactly when what all of them hold, with it, fits under
  the ceiling of the one who asks: as long as no adjustment of a shared counter fails (where one does,
  \<open>fallback_overwrites_the_shared_count\<close> shows that the cap can be lost), and every start that rebuilds the
  gauges reads what is still held and can write it.\<close>

theorem shared_caps_are_exact:
  assumes "quota_step\<^sup>*\<^sup>* (quota_start policy) s"
    and "Kind_of res = KindGauge" and "0 < n" and "ft_adjust ft = (\<lambda>r. False)"
    and "trim_space (subject_label subject) \<noteq> []" and "\<not> anonymous_label (subject_label subject)"
  shows "(case Admit now ft subject res n (qs_hub s p, qs_store s) of (Inr eff, es) \<Rightarrow> True | (Inl d, es) \<Rightarrow> False) \<longleftrightarrow>
    fits_ceiling (ef_Limits (resolveLocked (qs_hub s p) subject) res) (held_units (qs_held s) (subject_label subject) res + n)"
proof -
  have inv: "quota_inv s" by (rule quota_system.steps_keep [OF assms(1) quota_start_inv])
  note P = inv_process [OF inv, where p = p]
  have u: "ledger (qs_hub s p, qs_store s) (subject_label subject, res, bucketFor now res) =
      held_units (qs_held s) (subject_label subject) res"
    using inv_units [OF inv assms(2,5)] P(5) assms(2) by (simp add: bucketFor_def)
  show ?thesis
    by (rule Admit_ledger [OF P(1) P(4) [OF assms(4,5)] assms(6,3) refl refl, where now = now and res = res, unfolded u]) simp_all
qed

section \<open>Restarts\<close>

text \<open>One process with a plain store and its own counters, on day \<open>b\<close>; its writes to the counters work.\<close>

definition plain_ok :: "string \<Rightarrow> quota_action \<Rightarrow> QuotaFaults \<Rightarrow> bool" where
  "plain_ok b a ft \<longleftrightarrow> ft_put ft = (\<lambda>r. False) \<and>
     (case a of LoadA p now r \<Rightarrow> dayBucket now = b \<and> \<not> ft_load ft | ReconcileA p live \<Rightarrow> \<not> ft_write ft | _ \<Rightarrow> True)"

definition on_process :: "quota_action \<Rightarrow> nat" where
  "on_process a = (case a of AdmitA p now subject res n \<Rightarrow> p | ReleaseA p j \<Rightarrow> p | SpendA p now i tokens usd \<Rightarrow> p
     | CheckA p now subject \<Rightarrow> p | CheckIdentityA p now i \<Rightarrow> p | UsageA p now i \<Rightarrow> p | OverrideA p i limits \<Rightarrow> p
     | ClearA p i \<Rightarrow> p | ReloadA p \<Rightarrow> p | LoadA p now r \<Rightarrow> p | ReconcileA p live \<Rightarrow> p)"

inductive plain_step :: "string \<Rightarrow> QuotaSystem \<Rightarrow> QuotaSystem \<Rightarrow> bool" for b where
  "plain_ok b a ft \<Longrightarrow> on_process a = 0 \<Longrightarrow> plain_step b s (quota_do a ft s)"

definition no_faults :: QuotaFaults where
  "no_faults = \<lparr>ft_adjust = (\<lambda>r. False), ft_put = (\<lambda>r. False), ft_load = False, ft_write = False\<rparr>"

definition plain_start :: "time \<Rightarrow> QuotaResolver option \<Rightarrow> QuotaStore \<Rightarrow> QuotaSystem" where
  "plain_start now policy st = quota_do (LoadA 0 now policy) no_faults
     \<lparr>qs_store = st, qs_hub = (\<lambda>p. NewEnforcer None PlainStore False), qs_held = []\<rparr>"

definition day_key :: "string \<Rightarrow> qkey \<Rightarrow> bool" where
  "day_key b k \<longleftrightarrow> (case k of (i, r, c) \<Rightarrow> trim_space i \<noteq> [] \<and> c = (if Kind_of r = KindDaily then b else []))"

text \<open>Memory and table hold the same for each counter of the day and each gauge.\<close>

definition agrees :: "string \<Rightarrow> Enforcer \<times> QuotaStore \<Rightarrow> bool" where
  "agrees b es \<longleftrightarrow> sound es \<and> \<not> en_shared (fst es) \<and> en_store (fst es) = PlainStore \<and>
     (\<forall>k. day_key b k \<longrightarrow> en_counters (fst es) k = st_counters (snd es) k)"

lemma agrees_atomic: "agrees b (e, st) \<Longrightarrow> \<not> atomicStore e"
  by (simp add: agrees_def atomicStore_def)

text \<open>A counter changed in memory and written through.\<close>

lemma agrees_write:
  assumes "agrees b (e, st)" and "ft_put ft = (\<lambda>r. False)" and "0 \<le> v"
    and "e' = e\<lparr>en_counters := (en_counters e)(k := (if v = 0 then None else Some v))\<rparr>"
  shows "agrees b (e', persist ft k v e'' st) \<or> en_store e'' = NoStore"
  using assms by (cases k)
    (auto simp: agrees_def sound_def persist_def PutQuotaCounter_def positive_def day_key_def usable_key_def)

lemma agrees_cong:
  "agrees b (e, st) \<Longrightarrow> en_counters e' = en_counters e \<Longrightarrow> en_shared e' = en_shared e \<Longrightarrow> en_store e' = en_store e \<Longrightarrow>
     st_counters st' = st_counters st \<Longrightarrow> agrees b (e', st')"
  by (simp add: agrees_def sound_def)

lemma remember_shared [simp]: "en_shared (rememberSubject s e) = en_shared e"
  by (simp add: rememberSubject_def split: option.split)

lemma denied_shared [simp]: "en_shared (denied res e) = en_shared e"
  by (simp add: denied_def)

lemma count_denial_more [simp]: "en_shared (count_denial d e) = en_shared e" "en_store (count_denial d e) = en_store e"
  by (simp_all add: count_denial_def split: option.split)

lemma sync_plain: "\<not> atomicStore e \<Longrightarrow> syncShared now ft e st = e"
  by (simp add: syncShared_def)

lemma Load_agrees:
  assumes "sound_store st" "\<not> ft_load ft"
  shows "agrees (dayBucket now) (snd (Load_quota now ft (NewEnforcer r PlainStore False, st)))"
    and "day_key (dayBucket now) k \<Longrightarrow>
      en_counters (fst (snd (Load_quota now ft (NewEnforcer r PlainStore False, st)))) k = st_counters st k"
proof -
  let ?b = "dayBucket now" and ?es = "snd (Load_quota now ft (NewEnforcer r PlainStore False, st))"
  have rows: "current_rows ?b st k = st_counters st k" if "day_key ?b k" for k
    using that assms(1)
    by (cases k) (auto simp: current_rows_def day_key_def sound_store_def trim_space_def dest: positiveD split: option.split)
  have es: "fst ?es = (NewEnforcer r PlainStore False)\<lparr>en_overrides := en_overrides (fst ?es),
      en_counters := current_rows ?b st\<rparr>" "snd ?es = PruneQuotaCounters (ft_write ft) ?b st"
    using assms(2) by (auto simp: Load_quota_def NewEnforcer_def fun_eq_iff split: option.split)
  show k: "day_key ?b k \<Longrightarrow> en_counters (fst ?es) k = st_counters st k" for k
    by (subst es) (simp add: rows)
  have kept: "st_counters (snd ?es) k = st_counters st k" if "day_key ?b k" for k
    using that unfolding es(2) by (cases k) (auto simp: PruneQuotaCounters_def day_key_def)
  have "sound ?es" using prune_facts(1) [OF assms(1)] positive_rows assms(1)
    by (subst surjective_pairing [of ?es], subst es(1), subst es(2)) (simp add: sound_def sound_store_def)
  moreover have "\<not> en_shared (fst ?es)" "en_store (fst ?es) = PlainStore"
    using assms(2) by (simp_all add: Load_quota_def NewEnforcer_def)
  ultimately show "agrees ?b ?es" using k kept by (simp add: agrees_def)
qed

lemma Admit_agrees:
  assumes "agrees b (e, st)" and "ft_put ft = (\<lambda>r. False)"
  shows "agrees b (snd (Admit now ft subject res n (e, st)))"
proof -
  let ?e = "rememberSubject subject e" and ?k = "(subject_label subject, res, bucketFor now res)"
  have r: "agrees b (?e, st)" by (rule agrees_cong [OF assms(1)]) simp_all
  have "0 \<le> counter e ?k" using assms(1) by (intro counter_nonneg) (simp add: agrees_def sound_def)
  moreover have "en_store ?e = PlainStore" using assms(1) by (simp add: agrees_def)
  ultimately have w: "0 < n \<Longrightarrow> agrees b (?e\<lparr>en_counters := (en_counters ?e)(?k \<mapsto> counter e ?k + n)\<rparr>, persist ft ?k (counter e ?k + n) ?e st)"
    using agrees_write [OF r assms(2), where v = "counter e ?k + n" and k = ?k and e'' = ?e] by auto
  have d: "agrees b (denied res ?e, st)" by (rule agrees_cong [OF r]) simp_all
  show ?thesis using assms(1) r w d agrees_atomic [OF assms(1)] by (simp add: Admit_def Let_def not_le)
qed

lemma Release_agrees:
  assumes "agrees b (e, st)" and "ft_put ft = (\<lambda>r. False)"
  shows "agrees b (ReleaseUnits ft i res n (e, st))"
proof -
  let ?k = "(i, res, [])" let ?v = "counter e ?k - n"
  have s: "en_store e = PlainStore" using assms(1) by (simp add: agrees_def)
  have "agrees b (e\<lparr>en_counters := (en_counters e)(?k := None)\<rparr>, persist ft ?k 0 e st)"
    using agrees_write [OF assms, where v = 0 and k = ?k and e'' = e] s by simp
  moreover have "0 < ?v \<Longrightarrow> agrees b (e\<lparr>en_counters := (en_counters e)(?k \<mapsto> ?v)\<rparr>, persist ft ?k ?v e st)"
    using agrees_write [OF assms, where v = ?v and k = ?k and e'' = e] s by simp
  ultimately show ?thesis using assms(1) agrees_atomic [OF assms(1)] by (simp add: ReleaseUnits_def Let_def not_le)
qed

lemma spend_here_agrees:
  assumes "agrees b es" and "ft_put ft = (\<lambda>r. False)"
  shows "agrees b (spend_here ft k n es)"
proof -
  obtain e st where es: "es = (e, st)" by fastforce
  have "0 \<le> counter e k" "en_store e = PlainStore"
    using assms(1) by (auto simp: es agrees_def sound_def intro: counter_nonneg)
  then have "0 < n \<Longrightarrow> agrees b (e\<lparr>en_counters := (en_counters e)(k \<mapsto> counter e k + n)\<rparr>, persist ft k (counter e k + n) e st)"
    using agrees_write [OF assms(1) [unfolded es] assms(2), where v = "counter e k + n" and k = k and e'' = e] by auto
  then show ?thesis using assms(1) by (simp add: es spend_here_def Let_def not_le)
qed

lemma Spend_agrees:
  assumes "agrees b (e, st)" and "ft_put ft = (\<lambda>r. False)"
  shows "agrees b (Spend now ft i tokens usd (e, st))"
  using assms agrees_atomic [OF assms(1)] by (simp add: Spend_def Let_def spend_here_agrees)

lemma Reconcile_agrees:
  assumes "agrees b (e, st)" and "\<not> ft_write ft"
  shows "agrees b (snd (Reconcile ft live (e, st)))"
proof -
  let ?m = "\<lambda>(i, r, b). if b = [] then live_gauge live (i, r) else en_counters e (i, r, b)"
  have e: "positive (en_counters e)" "positive (st_counters st)" "\<not> en_shared e" "en_store e = PlainStore"
    "\<And>k. day_key b k \<Longrightarrow> en_counters e k = st_counters st k"
    using assms(1) unfolding agrees_def sound_def fst_conv snd_conv by blast+
  have eq: "snd (Reconcile ft live (e, st)) = (e\<lparr>en_counters := ?m\<rparr>, ReplaceQuotaGauges False (live_gauge live) st)"
    using e(4) assms(2) by (simp add: Reconcile_def)
  have m: "positive ?m"
    unfolding positive_def using live_gauge_positive e(1) [THEN positiveD] by (force split: if_splits)
  have t: "positive (st_counters (ReplaceQuotaGauges False (live_gauge live) st))"
    unfolding positive_def ReplaceQuotaGauges_def using live_gauge_positive e(2) [THEN positiveD]
    by (force split: if_splits option.splits)
  have k: "?m k = st_counters (ReplaceQuotaGauges False (live_gauge live) st) k" if "day_key b k" for k
  proof -
    obtain i r c where i: "k = (i, r, c)" by (metis prod_cases3)
    have "trim_space i \<noteq> []" using that by (simp add: i day_key_def)
    then show ?thesis using e(5) [OF that] live_gauge_positive [of live "(i, r)"]
      by (cases "live_gauge live (i, r)") (force simp: i ReplaceQuotaGauges_def)+
  qed
  show ?thesis unfolding eq using e(3,4) m t k by (simp add: agrees_def sound_def)
qed

lemma plain_step_agrees:
  assumes "plain_step b s t" and "agrees b (qs_hub s 0, qs_store s)"
  shows "agrees b (qs_hub t 0, qs_store t)"
  using assms(1)
proof cases
  case (1 a ft)
  let ?e = "qs_hub s 0" and ?st = "qs_store s"
  have put: "ft_put ft = (\<lambda>r. False)" using 1(2) by (simp add: plain_ok_def)
  have na: "\<not> atomicStore ?e" by (rule agrees_atomic [OF assms(2)])
  have e: "en_store ?e = PlainStore" "\<not> en_shared ?e" "sound_store ?st"
    using assms(2) by (simp_all add: agrees_def sound_def sound_store_def)
  show ?thesis
  proof (cases a)
    case (AdmitA p now subject res n)
    then show ?thesis using 1(1,3) Admit_agrees [OF assms(2) put, of now subject res n]
      by (auto simp: on_process_def put_hub_def Let_def split: prod.split sum.split)
  next
    case (ReleaseA p j)
    then show ?thesis using 1(1,3) Release_agrees [OF assms(2) put] assms(2)
      by (auto simp: on_process_def put_hub_def split: prod.split)
  next
    case (SpendA p now i tokens usd)
    then show ?thesis using 1(1,3) Spend_agrees [OF assms(2) put] by (simp add: on_process_def put_hub_def)
  next
    case (CheckA p now subject)
    then show ?thesis using 1(1,3) sync_plain [OF na]
      by (auto simp: on_process_def put_hub_def CheckSpend_def Let_def intro!: agrees_cong [OF assms(2)])
  next
    case (CheckIdentityA p now i)
    then show ?thesis using 1(1,3) sync_plain [OF na]
      by (auto simp: on_process_def put_hub_def CheckSpendIdentity_def Let_def intro!: agrees_cong [OF assms(2)])
  next
    case (UsageA p now i)
    then show ?thesis using 1(1,3) sync_plain [OF na]
      by (auto simp: on_process_def put_hub_def Usage_of_def Let_def intro!: agrees_cong [OF assms(2)])
  next
    case (OverrideA p i limits)
    then show ?thesis using 1(1,3)
      by (auto simp: on_process_def put_hub_def SetOverride_def Let_def split: sum.split intro!: agrees_cong [OF assms(2)])
  next
    case (ClearA p i)
    then show ?thesis using 1(1,3)
      by (auto simp: on_process_def put_hub_def ClearOverride_def Let_def intro!: agrees_cong [OF assms(2)])
  next
    case (ReloadA p)
    then show ?thesis using 1(1,3)
      by (auto simp: on_process_def put_hub_def ReloadOverrides_def intro!: agrees_cong [OF assms(2)])
  next
    case (LoadA p now r)
    then have "dayBucket now = b" "\<not> ft_load ft" using 1(2) by (simp_all add: plain_ok_def)
    then show ?thesis using 1(1,3) LoadA e Load_agrees(1) [OF e(3), of ft now r]
      by (simp add: on_process_def put_hub_def)
  next
    case (ReconcileA p live)
    then show ?thesis using 1 Reconcile_agrees [OF assms(2), of ft live]
      by (simp add: on_process_def put_hub_def plain_ok_def)
  qed
qed

interpretation plain_system: preserved "plain_step b" "\<lambda>s. agrees b (qs_hub s 0, qs_store s)" for b
  by unfold_locales (rule plain_step_agrees)

lemma dayBucket_ne: "dayBucket now \<noteq> []"
  by (simp add: dayBucket_def Let_def split: prod.split)

lemma reconciled_counter:
  "counter (qs_hub (quota_do (ReconcileA p l) ft s) p) (i, res, bucketFor now res) =
     (if Kind_of res = KindGauge then live_units l i res else counter (qs_hub s p) (i, res, bucketFor now res))"
  using dayBucket_ne [of now]
  by (cases "Kind_of res") (simp_all add: put_hub_def Reconcile_def counter_def live_units_def bucketFor_def)

text \<open>C13: a restart hands out no budget. However often a process that has its counters to itself is killed
  and started again in a day, as long as its writes to the counters, its loads and its rebuilds work, a
  start in that day reads back the day's spend exactly as it was counted, and the gauges as they were too,
  unless it rebuilds them: then they are those of the live state, and zero where that names none.\<close>

theorem restart_keeps_the_counters:
  assumes "sound_store st" and "(plain_step (dayBucket now))\<^sup>*\<^sup>* (plain_start now policy st) s"
    and "dayBucket now' = dayBucket now" and "trim_space i \<noteq> []"
  shows "counter (qs_hub (fold (\<lambda>a. quota_do a no_faults) (start_up 0 now' policy' live) s) 0) (i, res, bucketFor now' res) =
    (case live of
       None \<Rightarrow> counter (qs_hub s 0) (i, res, bucketFor now' res)
     | Some l \<Rightarrow> if Kind_of res = KindGauge then live_units l i res
                 else counter (qs_hub s 0) (i, res, bucketFor now' res))"
proof -
  let ?b = "dayBucket now" and ?k = "(i, res, bucketFor now' res)"
  have "agrees ?b (qs_hub (plain_start now policy st) 0, qs_store (plain_start now policy st))"
    using Load_agrees(1) [OF assms(1), of no_faults now policy]
    by (simp add: plain_start_def put_hub_def no_faults_def) (simp add: NewEnforcer_def)
  then have a: "agrees ?b (qs_hub s 0, qs_store s)" by (rule plain_system.steps_keep [OF assms(2)])
  have k: "day_key ?b ?k" using assms(3,4) by (simp add: day_key_def bucketFor_def)
  have e: "en_store (qs_hub s 0) = PlainStore" "\<not> en_shared (qs_hub s 0)" "sound_store (qs_store s)"
    "en_counters (qs_hub s 0) ?k = st_counters (qs_store s) ?k"
    using a k by (simp_all add: agrees_def sound_def sound_store_def)
  have "day_key (dayBucket now') ?k" using k assms(3) by simp
  from Load_agrees(2) [OF e(3) _ this, of no_faults policy']
  have l: "counter (qs_hub (quota_do (LoadA 0 now' policy') no_faults s) 0) ?k = counter (qs_hub s 0) ?k"
    using e by (simp add: put_hub_def counter_def no_faults_def)
  show ?thesis
    by (cases live) (simp_all add: start_up_def l reconciled_counter del: quota_do.simps)
qed

section \<open>Concrete runs\<close>

definition alice :: Subject where
  "alice = \<lparr>sj_Sub = [], sj_Email = ''alice@x.org'', sj_Groups = [], sj_Roles = [], sj_Username = [], sj_OID = [], sj_SCIMGroups = []\<rparr>"

definition runs_policy :: "rat \<Rightarrow> QuotaResolver option" where
  "runs_policy v = Some \<lparr>qr_defaults = [ResConcurrentTasks \<mapsto> v], qr_bindings = [], qr_configured = True\<rparr>"

definition take_run :: "nat \<Rightarrow> quota_action" where
  "take_run p = AdmitA p 0 (Some alice) ResConcurrentTasks 1"

text \<open>With a cap of one, the second process refuses the run after the first has taken it.\<close>

theorem shared_caps_are_exact_witness:
  "\<not> (case Admit 0 no_faults (Some alice) ResConcurrentTasks 1
        (qs_hub (quota_do (take_run 0) no_faults (quota_start (\<lambda>p. runs_policy 1))) 1,
         qs_store (quota_do (take_run 0) no_faults (quota_start (\<lambda>p. runs_policy 1)))) of
      (Inr eff, es) \<Rightarrow> True | (Inl d, es) \<Rightarrow> False)"
proof -
  let ?s = "quota_do (take_run 0) no_faults (quota_start (\<lambda>p. runs_policy 1))"
  have h: "held_units (qs_held ?s) (subject_label (Some alice)) ResConcurrentTasks = 1"
    "ef_Limits (resolveLocked (qs_hub ?s 1) (Some alice)) ResConcurrentTasks = Some 1"
    "trim_space (subject_label (Some alice)) \<noteq> []" "\<not> anonymous_label (subject_label (Some alice))"
    by code_simp+
  have "quota_step (quota_start (\<lambda>p. runs_policy 1)) ?s"
    using h(3) by (intro quota_step.intros) (simp add: adjusts_def take_run_def no_faults_def)
  from shared_caps_are_exact [OF r_into_rtranclp [of quota_step, OF this], where subject = "Some alice" and res = ResConcurrentTasks
      and n = 1 and ft = no_faults and now = 0 and p = 1]
  show ?thesis using h(3,4) by (simp only: h(1,2)) (simp add: no_faults_def Kind_of_def fits_ceiling_def)
qed

definition no_rows :: QuotaStore where
  "no_rows = \<lparr>st_counters = Map.empty, st_overrides = Map.empty\<rparr>"

definition nothing_live :: LiveState where
  "nothing_live = \<lparr>ls_Projects = Map.empty, ls_Tasks = Map.empty, ls_Executors = Map.empty, ls_Sessions = Map.empty\<rparr>"

theorem restart_keeps_the_counters_witness:
  "counter (qs_hub (fold (\<lambda>a. quota_do a no_faults) (start_up 0 1 None (Some nothing_live))
      (quota_do (SpendA 0 0 ''alice@x.org'' 100 1) no_faults (plain_start 0 None no_rows))) 0)
     (''alice@x.org'', ResDailyTokens, bucketFor 1 ResDailyTokens) = 100"
proof -
  let ?s = "quota_do (SpendA 0 0 ''alice@x.org'' 100 1) no_faults (plain_start 0 None no_rows)"
  have b: "dayBucket 1 = dayBucket 0" "trim_space ''alice@x.org'' \<noteq> []"
    and c: "counter (qs_hub ?s 0) (''alice@x.org'', ResDailyTokens, bucketFor 1 ResDailyTokens) = 100" by code_simp+
  have "plain_step (dayBucket 0) (plain_start 0 None no_rows) ?s"
    by (intro plain_step.intros) (simp_all add: plain_ok_def on_process_def no_faults_def)
  moreover have "sound_store no_rows" by (simp add: sound_store_def positive_def no_rows_def)
  ultimately show ?thesis
    using restart_keeps_the_counters [OF _ r_into_rtranclp [of "plain_step (dayBucket 0)"] b, of no_rows None ?s None
        "Some nothing_live" ResDailyTokens] c by (simp add: Kind_of_def)
qed

section \<open>Where the promise is not kept\<close>

text \<open>when the second of the two additions of a spend fails at the shared store, the first has been made
  there already and is made again: the tokens are booked twice, in the table as in memory.\<close>

theorem failed_spend_books_tokens_twice:
  "if sound (e, st) \<and> atomicStore e \<and> trim_space i \<noteq> [] \<and> 0 < tokens \<and> 0 < usd
   then case Spend now (no_faults\<lparr>ft_adjust := (\<lambda>r. r = ResDailyCostUSD)\<rparr>) i tokens usd (e, st) of
          (e', st') \<Rightarrow> units st' (i, ResDailyTokens, dayBucket now) = units st (i, ResDailyTokens, dayBucket now) + 2 * tokens \<and>
            units st' (i, ResDailyCostUSD, dayBucket now) = counter e (i, ResDailyCostUSD, dayBucket now) + usd
   else True"
proof (cases "sound (e, st) \<and> atomicStore e \<and> trim_space i \<noteq> [] \<and> 0 < tokens \<and> 0 < usd")
  case True
  let ?t = "(i, ResDailyTokens, dayBucket now)" and ?c = "(i, ResDailyCostUSD, dayBucket now)"
  let ?ft = "no_faults\<lparr>ft_adjust := (\<lambda>r. r = ResDailyCostUSD)\<rparr>"
  have i: "i \<noteq> []" using True by (auto simp: trim_space_def)
  have u: "usable_key ?t" "usable_key ?c" using True by (simp_all add: usable_key_def)
  have ss: "sound_store st" "positive (en_counters e)" using True by (simp_all add: sound_def sound_store_def)
  have nn: "0 \<le> units st ?t" "0 \<le> counter e ?c" using ss units_nonneg counter_nonneg by blast+
  obtain st' where st': "AdjustQuotaCounter False ?t tokens None st = (Some (max 0 (units st ?t + tokens), True), st')"
      "sound_store st'" "units st' = (units st)(?t := max 0 (units st ?t + tokens))"
    using shared_counters.adjust_taken [of st ?t tokens None] ss(1) u(1) by auto
  let ?e = "setCounter ?t (units st ?t + tokens) e"
  have f: "AdjustQuotaCounter True ?c usd None st' = (None, st')" by (simp add: AdjustQuotaCounter_def)
  have m: "max 0 (units st ?t + tokens) = units st ?t + tokens" using nn True by simp
  have s: "spend_shared ?ft i (dayBucket now) [(ResDailyTokens, tokens), (ResDailyCostUSD, usd)] (e, st) = (True, ?e, st')"
    using st'(1) f True by (simp add: no_faults_def m)
  have ce: "counter ?e ?t = units st ?t + tokens" "counter ?e ?c = counter e ?c"
    using nn True by (simp_all add: setCounter_def counter_def)
  have p: "en_store e = AtomicStore" using True by (simp add: atomicStore_def)
  have spend: "Spend now ?ft i tokens usd (e, st) = spend_here ?ft ?c usd (spend_here ?ft ?t tokens (?e, st'))"
    using s i True by (simp add: Spend_def Let_def del: spend_shared.simps)
  have w: "units (PutQuotaCounter False k v st'') = (units st'')(k := max 0 v)" if "usable_key k" for k v st''
    using that by (auto simp: PutQuotaCounter_def units_def fun_eq_iff)
  show ?thesis unfolding spend using True nn(1) nn(2) [unfolded counter_def] p ce u
    by (auto simp: spend_here_def Let_def persist_def no_faults_def w counter_upd counter_def setCounter_def)
qed (simp only: if_False)

definition overwriting :: "(quota_action \<times> QuotaFaults) list" where
  "overwriting = [(take_run 0, no_faults), (take_run 0, no_faults),
     (take_run 1, no_faults\<lparr>ft_adjust := (\<lambda>r. True)\<rparr>), (take_run 0, no_faults)]"

text \<open>one failed statement costs more than the admission it concerns. With a cap of two runs, both
  taken, another process whose adjustment fails admits a third against its own memory and writes its own
  count over the shared one, so that a fourth is granted though nothing fails any more.\<close>

theorem fallback_overwrites_the_shared_count:
  "let s = fold (\<lambda>(a, ft). quota_do a ft) overwriting (quota_start (\<lambda>p. runs_policy 2))
   in held_units (qs_held s) ''alice@x.org'' ResConcurrentTasks = 4 \<and>
      units (qs_store s) (''alice@x.org'', ResConcurrentTasks, []) = 2"
  by code_simp

text \<open>A ceiling below one session evicts every session and one more in \<open>SessionAdmission\<close> and is no cap in
  \<open>SessionCap\<close>; a fractional ceiling admits one session more than its whole part.\<close>

lemma session_ceilings_disagree:
  "let e = (NewEnforcer (Some \<lparr>qr_defaults = [ResSessions \<mapsto> v], qr_bindings = [], qr_configured = True\<rparr>) NoStore False)
   in (v = 0 \<longrightarrow> fst (SessionAdmission (Some alice) 3 e) = 4 \<and> SessionCap (Some v) = 0) \<and>
      (v = 5 / 2 \<longrightarrow> fst (SessionAdmission (Some alice) 2 e) = 0 \<and> SessionCap (Some v) = 2)"
proof -
  have l: "\<not> anonymous_label (subject_label (Some alice))" by code_simp
  show ?thesis
    by (simp add: Let_def SessionAdmission_def l NewEnforcer_def resolveLocked_def overrides_for_def Resolve_quota_def
        apply_bindings_def SessionCap_def) (simp add: floor_eq_iff)
qed
end
