(* ===== verification/HubStore.thy ===== *)
theory HubStore
  imports HubLease
begin

text \<open>
  The tables hub processes share to serve one control plane (pkg/statedb/hub_cluster.go):
  \<open>hub_members\<close>, \<open>hub_bus\<close>, \<open>hub_owners\<close> and \<open>hub_seen\<close>. A table is a list of rows by primary key, and
  every SQL statement or transaction is one atomic step on the tables. The columns hold integer Unix
  milliseconds: the time fields of a row in a table are such numbers (\<open>member_cells\<close> and its kin
  write them, \<open>member_of_cells\<close> reads them back), the time fields of a row an operation takes or
  returns are times. A driver error (\<open>fault\<close>) leaves the tables as they were; \<open>wall\<close> is the clock
  of the process where an operation reads it.
\<close>

section \<open>Milliseconds\<close>

text \<open>The Unix epoch, in nanoseconds since Go's zero time.\<close>

definition unix_epoch :: time where "unix_epoch = 62135596800 * go_second"

definition unixMillis :: "time \<Rightarrow> int" where
  "unixMillis t = (if t = 0 then 0 else (t - unix_epoch) div 1000000)"

definition fromUnixMillis :: "int \<Rightarrow> time" where
  "fromUnixMillis ms = (if ms = 0 then 0 else unix_epoch + ms * 1000000)"

lemma unixMillis_zero [simp]: "unixMillis 0 = 0" "fromUnixMillis 0 = 0"
  by (simp_all add: unixMillis_def fromUnixMillis_def)

lemma unixMillis_fromUnixMillis [simp]: "ms \<noteq> - 62135596800000 \<Longrightarrow> unixMillis (fromUnixMillis ms) = ms"
  by (auto simp: unixMillis_def fromUnixMillis_def unix_epoch_def go_second_def)

lemma unixMillis_mono: "0 < t \<Longrightarrow> t \<le> u \<Longrightarrow> unixMillis t \<le> unixMillis u"
  by (simp add: unixMillis_def zdiv_mono1)

text \<open>A stored time is the time without its sub-millisecond part.\<close>

lemma fromUnixMillis_unixMillis:
  assumes "unix_epoch + 1000000 \<le> t"
  shows "fromUnixMillis (unixMillis t) \<le> t" "t < fromUnixMillis (unixMillis t) + 1000000"
proof -
  have e: "0 < unix_epoch" by (simp add: unix_epoch_def go_second_def)
  from assms have "1 \<le> (t - unix_epoch) div 1000000" using zdiv_mono1 [of 1000000 "t - unix_epoch" 1000000] by simp
  with assms e have eq: "fromUnixMillis (unixMillis t) = unix_epoch + (t - unix_epoch) div 1000000 * 1000000"
    by (simp add: unixMillis_def fromUnixMillis_def)
  show "fromUnixMillis (unixMillis t) \<le> t" "t < fromUnixMillis (unixMillis t) + 1000000"
    unfolding eq using pos_mod_sign [of 1000000 "t - unix_epoch"] pos_mod_bound [of 1000000 "t - unix_epoch"]
    by (simp_all add: minus_mod_eq_div_mult [symmetric])
qed

section \<open>Rows and tables\<close>

record HubMemberRow =
  mr_InstanceID :: string
  mr_Hostname :: string
  mr_PID :: int
  mr_BootID :: string
  mr_Address :: string
  mr_AdvertiseURL :: string
  mr_Version :: string
  mr_Meta :: string
  mr_StartedAt :: time
  mr_HeartbeatAt :: time
  mr_LeftAt :: time

record HubEventRow =
  he_Seq :: int
  he_Origin :: string
  he_Target :: string
  he_Topic :: string
  he_Key :: string
  he_Payload :: string
  he_CreatedAt :: time

record HubOwnerRow =
  ho_Kind :: string
  ho_Key :: string
  ho_InstanceID :: string
  ho_Meta :: string
  ho_ClaimedAt :: time
  ho_UpdatedAt :: time

definition no_owner :: HubOwnerRow where
  "no_owner = \<lparr>ho_Kind = [], ho_Key = [], ho_InstanceID = [], ho_Meta = [], ho_ClaimedAt = 0, ho_UpdatedAt = 0\<rparr>"

type_synonym owner_key = "string \<times> string"
type_synonym members_table = "(string \<times> HubMemberRow) list"
type_synonym owners_table = "(owner_key \<times> HubOwnerRow) list"
type_synonym seen_table = "(owner_key \<times> int) list"

text \<open>\<open>hub_bus\<close> by ascending number, with the row of \<open>sqlite_sequence\<close>, the highest number ever issued.\<close>

record bus_table =
  bt_rows :: "HubEventRow list"
  bt_issued :: int

datatype hub_error = IdRequired | KeyRequired | HubDriver | ErrHubOwnerNotFound

definition normalizeMeta :: "string \<Rightarrow> string" where
  "normalizeMeta meta = (if trim_space meta = [] then ''{}'' else meta)"

definition member_cells :: "HubMemberRow \<Rightarrow> HubMemberRow" where
  "member_cells r = r\<lparr>mr_Meta := normalizeMeta (mr_Meta r), mr_StartedAt := unixMillis (mr_StartedAt r),
     mr_HeartbeatAt := unixMillis (mr_HeartbeatAt r), mr_LeftAt := 0\<rparr>"

definition member_of_cells :: "HubMemberRow \<Rightarrow> HubMemberRow" where
  "member_of_cells r = r\<lparr>mr_StartedAt := fromUnixMillis (mr_StartedAt r),
     mr_HeartbeatAt := fromUnixMillis (mr_HeartbeatAt r), mr_LeftAt := fromUnixMillis (mr_LeftAt r)\<rparr>"

definition owner_cells :: "HubOwnerRow \<Rightarrow> HubOwnerRow" where
  "owner_cells r = r\<lparr>ho_Meta := normalizeMeta (ho_Meta r), ho_ClaimedAt := unixMillis (ho_ClaimedAt r),
     ho_UpdatedAt := unixMillis (ho_UpdatedAt r)\<rparr>"

definition scanHubOwnerRow :: "HubOwnerRow \<Rightarrow> HubOwnerRow" where
  "scanHubOwnerRow r = r\<lparr>ho_ClaimedAt := fromUnixMillis (ho_ClaimedAt r), ho_UpdatedAt := fromUnixMillis (ho_UpdatedAt r)\<rparr>"

text \<open>An UPDATE or DELETE of the row of a key where a condition holds.\<close>

definition update_where ::
    "'k \<Rightarrow> ('v \<Rightarrow> bool) \<Rightarrow> ('v \<Rightarrow> 'v) \<Rightarrow> ('k \<times> 'v) list \<Rightarrow> bool \<times> ('k \<times> 'v) list" where
  "update_where k cond upd tab =
     (case map_of tab k of
        None \<Rightarrow> (False, tab)
      | Some r \<Rightarrow> if cond r then (True, AList.update k (upd r) tab) else (False, tab))"

definition delete_where :: "'k \<Rightarrow> ('v \<Rightarrow> bool) \<Rightarrow> ('k \<times> 'v) list \<Rightarrow> bool \<times> ('k \<times> 'v) list" where
  "delete_where k cond tab =
     (case map_of tab k of
        None \<Rightarrow> (False, tab)
      | Some r \<Rightarrow> if cond r then (True, AList.delete k tab) else (False, tab))"

lemma set_update_distinct:
  "distinct (map fst xs) \<Longrightarrow> set (AList.update k v xs) = {p \<in> set xs. fst p \<noteq> k} \<union> {(k, v)}"
  by (induction xs) (auto simp: image_iff)

section \<open>Members\<close>

definition JoinHubMember ::
    "time \<Rightarrow> bool \<Rightarrow> HubMemberRow \<Rightarrow> members_table \<Rightarrow> (hub_error + unit) \<times> members_table" where
  "JoinHubMember wall fault row tab =
     (if trim_space (mr_InstanceID row) = [] then (Inl IdRequired, tab)
      else
        let row = row\<lparr>mr_StartedAt := or_wall wall (mr_StartedAt row),
                      mr_HeartbeatAt := or_wall wall (mr_HeartbeatAt row)\<rparr>
        in if fault then (Inl HubDriver, tab)
           else (Inr (), AList.update (mr_InstanceID row) (member_cells row) tab))"

definition HeartbeatHubMember ::
    "time \<Rightarrow> bool \<Rightarrow> string \<Rightarrow> time \<Rightarrow> members_table \<Rightarrow> (hub_error + bool) \<times> members_table" where
  "HeartbeatHubMember wall fault inst at tab =
     (if trim_space inst = [] then (Inl IdRequired, tab)
      else if fault then (Inl HubDriver, tab)
      else map_prod Inr id
             (update_where inst (\<lambda>r. mr_LeftAt r = 0)
                (mr_HeartbeatAt_update (\<lambda>_. unixMillis (or_wall wall at))) tab))"

definition LeaveHubMember ::
    "time \<Rightarrow> bool \<Rightarrow> string \<Rightarrow> time \<Rightarrow> members_table \<Rightarrow> (hub_error + unit) \<times> members_table" where
  "LeaveHubMember wall fault inst at tab =
     (if trim_space inst = [] then (Inl IdRequired, tab)
      else if fault then (Inl HubDriver, tab)
      else (Inr (), snd (update_where inst (\<lambda>r. mr_LeftAt r = 0)
              (mr_LeftAt_update (\<lambda>_. unixMillis (or_wall wall at))) tab)))"

definition ListHubMembers :: "bool \<Rightarrow> members_table \<Rightarrow> hub_error + HubMemberRow list" where
  "ListHubMembers fault tab =
     (if fault then Inl HubDriver
      else Inr (map member_of_cells
             (sort_key (\<lambda>r. mr_StartedAt r) (sort_key mr_InstanceID (map snd tab)))))"

definition PruneHubMembers :: "bool \<Rightarrow> time \<Rightarrow> members_table \<Rightarrow> (hub_error + int) \<times> members_table" where
  "PruneHubMembers fault cutoff tab =
     (if fault then (Inl HubDriver, tab)
      else let kept = filter (\<lambda>(k, r). \<not> mr_HeartbeatAt r < unixMillis cutoff) tab
           in (Inr (int (length tab) - int (length kept)), kept))"

text \<open>The statements processes make on the table, one atomic step each.\<close>

datatype member_stmt =
    JoinM time bool HubMemberRow
  | HeartbeatM time bool string time
  | LeaveM time bool string time
  | PruneM bool time

fun member_do :: "member_stmt \<Rightarrow> members_table \<Rightarrow> members_table" where
  "member_do (JoinM wall fault row) tab = snd (JoinHubMember wall fault row tab)"
| "member_do (HeartbeatM wall fault inst at) tab = snd (HeartbeatHubMember wall fault inst at tab)"
| "member_do (LeaveM wall fault inst at) tab = snd (LeaveHubMember wall fault inst at tab)"
| "member_do (PruneM fault cutoff) tab = snd (PruneHubMembers fault cutoff tab)"

definition member_run :: "member_stmt list \<Rightarrow> members_table \<Rightarrow> members_table" where
  "member_run stmts tab = fold member_do stmts tab"

section \<open>The bus\<close>

text \<open>The rows of a batch get the numbers after the highest one issued.\<close>

fun number_events :: "time \<Rightarrow> int \<Rightarrow> HubEventRow list \<Rightarrow> HubEventRow list" where
  "number_events wall seq [] = []"
| "number_events wall seq (ev # evs) =
     ev\<lparr>he_Seq := seq + 1, he_CreatedAt := unixMillis (or_wall wall (he_CreatedAt ev))\<rparr> #
     number_events wall (seq + 1) evs"

definition AppendHubEvents ::
    "time \<Rightarrow> bool \<Rightarrow> HubEventRow list \<Rightarrow> bus_table \<Rightarrow> (hub_error + int) \<times> bus_table" where
  "AppendHubEvents wall fault events tab =
     (if events = [] then (Inr 0, tab)
      else if fault then (Inl HubDriver, tab)
      else let top = bt_issued tab + int (length events)
           in (Inr top, \<lparr>bt_rows = bt_rows tab @ number_events wall (bt_issued tab) events, bt_issued = top\<rparr>))"

definition HubEventsAfter :: "bool \<Rightarrow> int \<Rightarrow> int \<Rightarrow> bus_table \<Rightarrow> hub_error + HubEventRow list" where
  "HubEventsAfter fault after limit tab =
     (let limit = (if limit \<le> 0 then 256 else limit) in
      if fault then Inl HubDriver
      else Inr (map (\<lambda>ev. ev\<lparr>he_CreatedAt := fromUnixMillis (he_CreatedAt ev)\<rparr>)
             (take (nat limit) (sort_key he_Seq (filter (\<lambda>ev. after < he_Seq ev) (bt_rows tab))))))"

text \<open>NULL, the minimum and maximum of no rows, reads as 0.\<close>

definition HubEventBounds :: "bool \<Rightarrow> bus_table \<Rightarrow> hub_error + int \<times> int \<times> int" where
  "HubEventBounds fault tab =
     (if fault then Inl HubDriver
      else let seqs = map he_Seq (bt_rows tab);
               lo = (if seqs = [] then 0 else Min (set seqs));
               hi = (if seqs = [] then 0 else Max (set seqs))
           in Inr (lo, hi, if bt_issued tab < hi then hi else bt_issued tab))"

definition PruneHubEvents :: "bool \<Rightarrow> time \<Rightarrow> bus_table \<Rightarrow> (hub_error + int) \<times> bus_table" where
  "PruneHubEvents fault cutoff tab =
     (if fault then (Inl HubDriver, tab)
      else let kept = filter (\<lambda>ev. \<not> he_CreatedAt ev < unixMillis cutoff) (bt_rows tab)
           in (Inr (int (length (bt_rows tab)) - int (length kept)), tab\<lparr>bt_rows := kept\<rparr>))"

section \<open>Owners\<close>

definition GetHubOwner :: "bool \<Rightarrow> string \<Rightarrow> string \<Rightarrow> owners_table \<Rightarrow> hub_error + HubOwnerRow" where
  "GetHubOwner fault kind key tab =
     (if fault then Inl HubDriver
      else case map_of tab (kind, key) of
             None \<Rightarrow> Inl ErrHubOwnerNotFound
           | Some r \<Rightarrow> Inr (scanHubOwnerRow r))"

definition ListHubOwners :: "bool \<Rightarrow> string \<Rightarrow> owners_table \<Rightarrow> hub_error + HubOwnerRow list" where
  "ListHubOwners fault kind tab =
     (if fault then Inl HubDriver
      else Inr (map scanHubOwnerRow
             (sort_key ho_Kind (sort_key ho_Key
                (filter (\<lambda>r. kind = [] \<or> ho_Kind r = kind) (map snd tab))))))"

definition stamp_owner :: "time \<Rightarrow> HubOwnerRow \<Rightarrow> HubOwnerRow" where
  "stamp_owner wall row =
     (let row = row\<lparr>ho_ClaimedAt := or_wall wall (ho_ClaimedAt row)\<rparr>
      in row\<lparr>ho_UpdatedAt := or_wall (ho_ClaimedAt row) (ho_UpdatedAt row)\<rparr>)"

text \<open>The row is written where there is none, or where it is still the claim the caller read.\<close>

definition same_claim :: "HubOwnerRow \<Rightarrow> HubOwnerRow \<Rightarrow> bool" where
  "same_claim expect cur \<longleftrightarrow> ho_InstanceID cur = ho_InstanceID expect \<and> ho_ClaimedAt cur = unixMillis (ho_ClaimedAt expect)"

definition owner_row_error :: "HubOwnerRow \<Rightarrow> hub_error option" where
  "owner_row_error row =
     (if trim_space (ho_Kind row) = [] \<or> trim_space (ho_Key row) = [] then Some KeyRequired
      else if trim_space (ho_InstanceID row) = [] then Some IdRequired
      else None)"

definition ClaimHubOwner ::
    "time \<Rightarrow> bool \<Rightarrow> HubOwnerRow \<Rightarrow> HubOwnerRow \<Rightarrow> owners_table \<Rightarrow> (hub_error + bool) \<times> owners_table" where
  "ClaimHubOwner wall fault row expect tab =
     (case owner_row_error row of
        Some e \<Rightarrow> (Inl e, tab)
      | None \<Rightarrow>
          if fault then (Inl HubDriver, tab)
          else
            let k = (ho_Kind row, ho_Key row);
                written = AList.update k (owner_cells (stamp_owner wall row)) tab
            in case map_of tab k of
                 None \<Rightarrow> (Inr True, written)
               | Some cur \<Rightarrow> if same_claim expect cur then (Inr True, written) else (Inr False, tab))"

definition PutHubOwner ::
    "time \<Rightarrow> bool \<Rightarrow> HubOwnerRow \<Rightarrow> owners_table \<Rightarrow> (hub_error + unit) \<times> owners_table" where
  "PutHubOwner wall fault row tab =
     (case owner_row_error row of
        Some e \<Rightarrow> (Inl e, tab)
      | None \<Rightarrow>
          if fault then (Inl HubDriver, tab)
          else (Inr (), AList.update (ho_Kind row, ho_Key row) (owner_cells (stamp_owner wall row)) tab))"

definition UpdateHubOwnerMeta ::
    "time \<Rightarrow> bool \<Rightarrow> string \<Rightarrow> string \<Rightarrow> string \<Rightarrow> string \<Rightarrow> time \<Rightarrow> owners_table \<Rightarrow> (hub_error + bool) \<times> owners_table" where
  "UpdateHubOwnerMeta wall fault kind key inst meta at tab =
     (if fault then (Inl HubDriver, tab)
      else map_prod Inr id
             (update_where (kind, key) (\<lambda>r. ho_InstanceID r = inst)
                (\<lambda>r. r\<lparr>ho_Meta := normalizeMeta meta, ho_UpdatedAt := unixMillis (or_wall wall at)\<rparr>) tab))"

definition ReleaseHubOwner ::
    "bool \<Rightarrow> string \<Rightarrow> string \<Rightarrow> string \<Rightarrow> owners_table \<Rightarrow> (hub_error + bool) \<times> owners_table" where
  "ReleaseHubOwner fault kind key inst tab =
     (if fault then (Inl HubDriver, tab)
      else map_prod Inr id (delete_where (kind, key) (\<lambda>r. ho_InstanceID r = inst) tab))"

definition ReleaseHubOwnerIfClaim ::
    "bool \<Rightarrow> HubOwnerRow \<Rightarrow> owners_table \<Rightarrow> (hub_error + bool) \<times> owners_table" where
  "ReleaseHubOwnerIfClaim fault expect tab =
     (if fault then (Inl HubDriver, tab)
      else map_prod Inr id (delete_where (ho_Kind expect, ho_Key expect) (same_claim expect) tab))"

text \<open>What a process that is not a member reads, through a handle that never writes: nothing when
  the control plane has no cluster tables.\<close>

definition PeekHubCluster ::
    "bool \<Rightarrow> string \<Rightarrow> (members_table \<times> owners_table) option \<Rightarrow> hub_error + HubMemberRow list \<times> HubOwnerRow list" where
  "PeekHubCluster fault kind tabs =
     (case tabs of
        None \<Rightarrow> if fault then Inl HubDriver else Inr ([], [])
      | Some (members, owners) \<Rightarrow>
          (case ListHubMembers fault members of
             Inl e \<Rightarrow> Inl e
           | Inr ms \<Rightarrow> (case ListHubOwners fault kind owners of Inl e \<Rightarrow> Inl e | Inr os \<Rightarrow> Inr (ms, os))))"

section \<open>Values seen once\<close>

definition MarkHubSeen ::
    "time \<Rightarrow> bool \<Rightarrow> string \<Rightarrow> string \<Rightarrow> time \<Rightarrow> time \<Rightarrow> seen_table \<Rightarrow> (hub_error + bool) \<times> seen_table" where
  "MarkHubSeen wall fault kind key expires now tab =
     (if trim_space kind = [] \<or> trim_space key = [] then (Inl KeyRequired, tab)
      else
        let now = or_wall wall now;
            fresh = (Inr True, AList.update (kind, key) (unixMillis expires) tab)
        in if fault then (Inl HubDriver, tab)
           else case map_of tab (kind, key) of
                  None \<Rightarrow> fresh
                | Some until \<Rightarrow> if until > unixMillis now then (Inr False, tab) else fresh)"

definition PruneHubSeen :: "bool \<Rightarrow> time \<Rightarrow> seen_table \<Rightarrow> (hub_error + int) \<times> seen_table" where
  "PruneHubSeen fault now tab =
     (if fault then (Inl HubDriver, tab)
      else let kept = filter (\<lambda>(k, until). \<not> until \<le> unixMillis now) tab
           in (Inr (int (length tab) - int (length kept)), kept))"

text \<open>What members and the leader do to the table, a transaction at a time, and the clock each reads.\<close>

datatype seen_act = Mark time bool owner_key time time | PruneSeen bool time

fun seen_do :: "seen_act \<Rightarrow> seen_table \<Rightarrow> seen_table" where
  "seen_do (Mark wall fault k expires now) tab = snd (MarkHubSeen wall fault (fst k) (snd k) expires now tab)"
| "seen_do (PruneSeen fault now) tab = snd (PruneHubSeen fault now tab)"

fun seen_clock :: "seen_act \<Rightarrow> int" where
  "seen_clock (Mark wall fault k expires now) = unixMillis (or_wall wall now)"
| "seen_clock (PruneSeen fault now) = unixMillis now"

definition recorded :: "owner_key \<Rightarrow> int \<Rightarrow> seen_table \<Rightarrow> bool" where
  "recorded k e tab \<longleftrightarrow> map_of tab k = Some e"

lemma MarkHubSeen_fresh: "fst (MarkHubSeen wall fault kind key expires now tab) = Inr True \<Longrightarrow>
    recorded (kind, key) (unixMillis expires) (snd (MarkHubSeen wall fault kind key expires now tab))"
  by (auto simp: MarkHubSeen_def recorded_def Let_def split: option.splits if_splits)

lemma MarkHubSeen_again: "recorded (kind, key) e tab \<Longrightarrow> unixMillis (or_wall wall now) < e \<Longrightarrow>
    fst (MarkHubSeen wall fault kind key expires now tab) \<noteq> Inr True"
  by (auto simp: MarkHubSeen_def recorded_def Let_def)

lemma map_of_filter_kept: "map_of tab k = Some v \<Longrightarrow> (\<And>k. P (k, v)) \<Longrightarrow> map_of (filter P tab) k = Some v"
  by (induction tab) (auto split: if_splits)

lemma recorded_do: "recorded k e tab \<Longrightarrow> seen_clock a < e \<Longrightarrow> recorded k e (seen_do a tab)"
proof (cases a)
  case (Mark wall fault k' expires now)
  assume "recorded k e tab" "seen_clock a < e"
  then show ?thesis using Mark
    by (cases k') (auto simp: recorded_def MarkHubSeen_def AList.update_conv' Let_def split: option.split)
next
  case (PruneSeen fault now)
  assume "recorded k e tab" "seen_clock a < e"
  then show ?thesis using PruneSeen by (auto simp: recorded_def PruneHubSeen_def Let_def intro: map_of_filter_kept)
qed

lemma recorded_run: "recorded k e tab \<Longrightarrow> list_all (\<lambda>a. seen_clock a < e) acts \<Longrightarrow> recorded k e (fold seen_do acts tab)"
  by (induction acts arbitrary: tab) (auto simp: recorded_do)

text \<open>C20: Once a member was told that a single-use value is fresh, no member is told so again, in any
  order of further presentations and prunes, as long as no clock read on the way is past the
  millisecond of its expiry: a token exchanged on one member is refused as replayed on every other.
\<close>

theorem single_use_value_is_fresh_once:
  assumes "fst (MarkHubSeen wall fault kind key expires now tab) = Inr True"
    and "list_all (\<lambda>a. seen_clock a < unixMillis expires) acts"
    and "unixMillis (or_wall wall' now') < unixMillis expires"
  shows "fst (MarkHubSeen wall' fault' kind key expires' now'
    (fold seen_do acts (snd (MarkHubSeen wall fault kind key expires now tab)))) \<noteq> Inr True"
  using MarkHubSeen_again [OF recorded_run [OF MarkHubSeen_fresh [OF assms(1)] assms(2)] assms(3)] .

theorem single_use_value_is_fresh_once_witness:
  "fst (MarkHubSeen 0 False ''ci_jti'' ''t1'' (fromUnixMillis 9000) (fromUnixMillis 3000)
     (fold seen_do [PruneSeen False (fromUnixMillis 2500), Mark 0 True (''ci_jti'', ''t1'') (fromUnixMillis 9000) (fromUnixMillis 2600)]
       (snd (MarkHubSeen 0 False ''ci_jti'' ''t1'' (fromUnixMillis 5000) (fromUnixMillis 2000) [])))) \<noteq> Inr True"
  by (rule single_use_value_is_fresh_once) code_simp+

end
