(* ===== verification/HubNode.thy ===== *)
theory HubNode
  imports HubStore
begin

text \<open>
  One member of the hub cluster (pkg/hubcluster/hubcluster.go, probe.go, leader.go): what it keeps
  (the member list of its last refresh, what it learned from probing its peers, its leadership), how
  it joins, beats, leaves and campaigns, and how it judges the others. A node is a value; operations
  return it updated. The network is a parameter: what each probe of a round answered, in the order
  the answers arrived. The endpoints a member advertises beside its URL, log lines and the goroutines
  that call these operations on their tickers are left out; a hook is called exactly where \<open>refresh\<close>
  or \<open>probe_round\<close> reports a change.
\<close>

section \<open>Members\<close>

record HubMember =
  mb_ID :: string
  mb_Hostname :: string
  mb_PID :: int
  mb_BootID :: string
  mb_Address :: string
  mb_AdvertiseURL :: string
  mb_Version :: string
  mb_StartedAt :: time
  mb_HeartbeatAt :: time
  mb_LeftAt :: time
  mb_Alive :: bool
  mb_Unresponsive :: bool
  mb_UnresponsiveSince :: time
  mb_Leader :: bool
  mb_Self :: bool

definition unknown_member :: HubMember where
  "unknown_member = \<lparr>mb_ID = [], mb_Hostname = [], mb_PID = 0, mb_BootID = [], mb_Address = [], mb_AdvertiseURL = [],
     mb_Version = [], mb_StartedAt = 0, mb_HeartbeatAt = 0, mb_LeftAt = 0, mb_Alive = False,
     mb_Unresponsive = False, mb_UnresponsiveSince = 0, mb_Leader = False, mb_Self = False\<rparr>"

record probeState =
  ps_failingSince :: time
  ps_failures :: int
  ps_unresponsive :: bool
  ps_since :: time
  ps_lastErr :: string

definition no_probe :: probeState where
  "no_probe = \<lparr>ps_failingSince = 0, ps_failures = 0, ps_unresponsive = False, ps_since = 0, ps_lastErr = []\<rparr>"

record ClusterOptions =
  co_Address :: string
  co_AdvertiseURL :: string
  co_Version :: string
  co_Heartbeat :: duration
  co_MemberTTL :: duration
  co_BusPoll :: duration
  co_BusFlush :: duration
  co_BusRetention :: duration
  co_Campaign :: duration
  co_LeaderTTL :: duration
  co_LeaderInterval :: duration
  co_ProbeInterval :: duration
  co_ProbeTimeout :: duration
  co_UnresponsiveAfter :: duration
  co_Identity :: Identity
  co_InstanceID :: string

record HubNode =
  nd_opts :: ClusterOptions
  nd_self :: HubMember
  nd_members :: "(string \<times> HubMember) list"
  nd_fenced :: nat
  nd_closed :: bool
  nd_probes :: "(string \<times> probeState) list"
  nd_lease :: "Lease option"
  nd_holder :: string
  nd_legacyWarned :: bool
  nd_terms :: nat

definition DefaultHeartbeat :: duration where "DefaultHeartbeat = 5 * go_second"
definition DefaultMemberTTL :: duration where "DefaultMemberTTL = 20 * go_second"
definition DefaultBusPoll :: duration where "DefaultBusPoll = 250000000"
definition DefaultBusFlush :: duration where "DefaultBusFlush = 50000000"
definition DefaultBusRetention :: duration where "DefaultBusRetention = 2 * go_minute"
definition DefaultCampaign :: duration where "DefaultCampaign = 5 * go_second"
definition DefaultProbeTimeout :: duration where "DefaultProbeTimeout = 5 * go_second"
definition memberRowRetention :: duration where "memberRowRetention = 24 * go_hour"

definition or_default :: "duration \<Rightarrow> duration \<Rightarrow> duration" where
  "or_default d given = (if given \<le> 0 then d else given)"

text \<open>The defaults of \<open>Join\<close>: a TTL not above the heartbeat becomes four heartbeats.\<close>

definition join_options :: "ClusterOptions \<Rightarrow> ClusterOptions" where
  "join_options opts =
     (let beat = or_default DefaultHeartbeat (co_Heartbeat opts);
          ttl = or_default DefaultMemberTTL (co_MemberTTL opts);
          ttl = (if ttl \<le> beat then 4 * beat else ttl)
      in opts\<lparr>co_Heartbeat := beat, co_MemberTTL := ttl,
              co_BusPoll := or_default DefaultBusPoll (co_BusPoll opts),
              co_BusFlush := or_default DefaultBusFlush (co_BusFlush opts),
              co_BusRetention := or_default DefaultBusRetention (co_BusRetention opts),
              co_Campaign := or_default DefaultCampaign (co_Campaign opts),
              co_ProbeTimeout := or_default DefaultProbeTimeout (co_ProbeTimeout opts),
              co_UnresponsiveAfter := or_default ttl (co_UnresponsiveAfter opts)\<rparr>)"

definition memberFromRow :: "HubMemberRow \<Rightarrow> HubMember" where
  "memberFromRow r = unknown_member\<lparr>mb_ID := mr_InstanceID r, mb_Hostname := mr_Hostname r, mb_PID := mr_PID r,
     mb_BootID := mr_BootID r, mb_Address := mr_Address r, mb_AdvertiseURL := mr_AdvertiseURL r,
     mb_Version := mr_Version r, mb_StartedAt := mr_StartedAt r, mb_HeartbeatAt := mr_HeartbeatAt r,
     mb_LeftAt := mr_LeftAt r\<rparr>"

definition memberRow :: "HubNode \<Rightarrow> HubMemberRow" where
  "memberRow n =
     (let s = nd_self n in
      \<lparr>mr_InstanceID = mb_ID s, mr_Hostname = mb_Hostname s, mr_PID = mb_PID s, mr_BootID = mb_BootID s,
       mr_Address = mb_Address s, mr_AdvertiseURL = mb_AdvertiseURL s, mr_Version = mb_Version s,
       mr_Meta = ''{}'', mr_StartedAt = mb_StartedAt s, mr_HeartbeatAt = mb_HeartbeatAt s, mr_LeftAt = 0\<rparr>)"

definition node_identity :: "HubNode \<Rightarrow> Identity" where
  "node_identity n = \<lparr>id_Hostname = mb_Hostname (nd_self n), id_PID = mb_PID (nd_self n), id_BootID = mb_BootID (nd_self n)\<rparr>"

section \<open>Who is alive\<close>

definition judgeRow :: "HubMemberRow \<Rightarrow> time \<Rightarrow> duration \<Rightarrow> Identity \<Rightarrow> (int \<Rightarrow> bool) \<Rightarrow> bool" where
  "judgeRow r now ttl self alive =
     (if mr_LeftAt r \<noteq> 0 then False
      else if mr_HeartbeatAt r = 0 \<or> time_sub now (mr_HeartbeatAt r) \<ge> ttl then False
      else if mr_Hostname r \<noteq> [] \<and> mr_Hostname r = id_Hostname self \<and>
              mr_BootID r \<noteq> [] \<and> mr_BootID r = id_BootID self \<and> mr_PID r > 0 \<and> \<not> alive (mr_PID r)
      then False
      else True)"

text \<open>What an operation of a node finds around it: its clock, the probe of a pid, whether reading
  the member table fails, and the table.\<close>

record cluster_env =
  ce_now :: time
  ce_alive :: "int \<Rightarrow> bool"
  ce_fault :: bool
  ce_members :: members_table

definition judgeAlive :: "HubNode \<Rightarrow> (int \<Rightarrow> bool) \<Rightarrow> HubMemberRow \<Rightarrow> time \<Rightarrow> bool" where
  "judgeAlive n alive r now = judgeRow r now (co_MemberTTL (nd_opts n)) (node_identity n) alive"

definition RowAlive :: "Identity \<Rightarrow> (int \<Rightarrow> bool) \<Rightarrow> HubMemberRow \<Rightarrow> time \<Rightarrow> bool" where
  "RowAlive local_id alive r now = judgeRow r now DefaultMemberTTL local_id alive"

definition LiveMemberRows :: "Identity \<Rightarrow> (int \<Rightarrow> bool) \<Rightarrow> time \<Rightarrow> bool \<Rightarrow> members_table \<Rightarrow> hub_error + HubMemberRow list" where
  "LiveMemberRows local_id alive now fault tab =
     map_sum id (filter (\<lambda>r. RowAlive local_id alive r now)) (ListHubMembers fault tab)"

definition IsLeader :: "HubNode \<Rightarrow> bool" where
  "IsLeader n \<longleftrightarrow> nd_lease n \<noteq> None"

definition LeaderID :: "HubNode \<Rightarrow> string" where
  "LeaderID n = (if IsLeader n then mb_ID (nd_self n) else nd_holder n)"

definition Self_of :: "HubNode \<Rightarrow> HubMember" where
  "Self_of n = (nd_self n)\<lparr>mb_Leader := IsLeader n\<rparr>"

definition liveSetChanged :: "(string \<times> HubMember) list \<Rightarrow> (string \<times> HubMember) list \<Rightarrow> bool" where
  "liveSetChanged prev next \<longleftrightarrow>
     (let count = (\<lambda>m. length (filter (\<lambda>(k, v). mb_Alive v) m));
          was = (\<lambda>k. case map_of prev k of None \<Rightarrow> False | Some v \<Rightarrow> mb_Alive v)
      in count prev \<noteq> count next \<or> list_ex (\<lambda>(k, v). mb_Alive v \<noteq> was k) next)"

definition seen_member :: "HubNode \<Rightarrow> cluster_env \<Rightarrow> HubMemberRow \<Rightarrow> HubMember" where
  "seen_member n env r =
     (let m = memberFromRow r; self = (mb_ID m = mb_ID (nd_self n))
      in m\<lparr>mb_Self := self, mb_Alive := self \<or> judgeAlive n (ce_alive env) r (ce_now env),
           mb_Leader := (mb_ID m \<noteq> [] \<and> mb_ID m = LeaderID n)\<rparr>)"

text \<open>The verdict on the member list: an error, or whether the membership hooks run.\<close>

definition refresh :: "cluster_env \<Rightarrow> HubNode \<Rightarrow> (hub_error + bool) \<times> HubNode" where
  "refresh env n =
     (case ListHubMembers (ce_fault env) (ce_members env) of
        Inl e \<Rightarrow> (Inl e, n)
      | Inr rows \<Rightarrow>
          let next = fold (\<lambda>r. AList.update (mr_InstanceID r) (seen_member n env r)) rows [];
              next = (if map_of next (mb_ID (nd_self n)) = None
                      then AList.update (mb_ID (nd_self n)) (Self_of n) next else next)
          in (Inr (liveSetChanged (nd_members n) next), n\<lparr>nd_members := next\<rparr>))"

definition unresponsiveErr :: "HubNode \<Rightarrow> string \<Rightarrow> (time \<times> string) option" where
  "unresponsiveErr n i =
     (if i = [] \<or> i = mb_ID (nd_self n) then None
      else case map_of (nd_probes n) i of
             None \<Rightarrow> None
           | Some st \<Rightarrow> if ps_unresponsive st then Some (ps_failingSince st, ps_lastErr st) else None)"

definition Responsive :: "HubNode \<Rightarrow> string \<Rightarrow> bool" where
  "Responsive n i \<longleftrightarrow> unresponsiveErr n i = None"

definition unresponsiveSince :: "HubNode \<Rightarrow> string \<Rightarrow> time" where
  "unresponsiveSince n i =
     (case map_of (nd_probes n) i of
        None \<Rightarrow> 0 | Some st \<Rightarrow> if ps_unresponsive st then ps_since st else 0)"

definition memberLess :: "HubMember \<Rightarrow> HubMember \<Rightarrow> bool" where
  "memberLess a b =
     (if mb_StartedAt a \<noteq> mb_StartedAt b then mb_StartedAt a < mb_StartedAt b else mb_ID a < mb_ID b)"

definition sortMembers :: "HubMember list \<Rightarrow> HubMember list" where
  "sortMembers ms = go_stable_sort memberLess ms"

definition Members :: "HubNode \<Rightarrow> HubMember list" where
  "Members n = sortMembers (map (\<lambda>(k, m).
     let since = unresponsiveSince n (mb_ID m)
     in if since \<noteq> 0 then m\<lparr>mb_Unresponsive := True, mb_UnresponsiveSince := since\<rparr> else m) (nd_members n))"

definition LiveMembers :: "HubNode \<Rightarrow> HubMember list" where
  "LiveMembers n = filter mb_Alive (Members n)"

definition Peers :: "HubNode \<Rightarrow> HubMember list" where
  "Peers n = filter (\<lambda>m. \<not> mb_Self m) (LiveMembers n)"

definition HasPeers :: "HubNode \<Rightarrow> bool" where
  "HasPeers n \<longleftrightarrow> list_ex (\<lambda>(k, m). mb_Alive m \<and> \<not> mb_Self m) (nd_members n)"

definition Member_of :: "HubNode \<Rightarrow> string \<Rightarrow> HubMember option" where
  "Member_of n i = map_of (nd_members n) i"

definition IsAlive :: "cluster_env \<Rightarrow> string \<Rightarrow> HubNode \<Rightarrow> bool \<times> HubNode" where
  "IsAlive env i n =
     (if i = [] then (False, n)
      else if i = mb_ID (nd_self n) then (True, n)
      else case Member_of n i of
             Some m \<Rightarrow> (mb_Alive m, n)
           | None \<Rightarrow>
               (case refresh env n of
                  (Inl e, n') \<Rightarrow> (False, n')
                | (Inr b, n') \<Rightarrow> (case Member_of n' i of None \<Rightarrow> False | Some m \<Rightarrow> mb_Alive m, n')))"

definition Serving :: "cluster_env \<Rightarrow> string \<Rightarrow> HubNode \<Rightarrow> bool \<times> HubNode" where
  "Serving env i n = (let (a, n') = IsAlive env i n in (a \<and> Responsive n' i, n'))"

definition servingMembers :: "HubNode \<Rightarrow> HubMember list" where
  "servingMembers n = filter (\<lambda>m. mb_Self m \<or> Responsive n (mb_ID m)) (LiveMembers n)"

section \<open>Probing\<close>

text \<open>One outcome: \<open>None\<close> for an answer, else the error. The result says whether the verdict changed.\<close>

definition probe_outcome :: "duration \<Rightarrow> string option \<Rightarrow> time \<Rightarrow> probeState \<Rightarrow> bool \<times> probeState" where
  "probe_outcome after err at st =
     (case err of
        None \<Rightarrow> (ps_unresponsive st, no_probe)
      | Some e \<Rightarrow>
          let st = (if ps_failures st = 0 then st\<lparr>ps_failingSince := at\<rparr> else st);
              st = st\<lparr>ps_failures := ps_failures st + 1, ps_lastErr := e\<rparr>
          in if \<not> ps_unresponsive st \<and> ps_failures st \<ge> 2 \<and> time_sub at (ps_failingSince st) \<ge> after
             then (True, st\<lparr>ps_unresponsive := True, ps_since := at\<rparr>) else (False, st))"

definition probe_of :: "HubNode \<Rightarrow> string \<Rightarrow> probeState" where
  "probe_of n i = (case map_of (nd_probes n) i of None \<Rightarrow> no_probe | Some st \<Rightarrow> st)"

definition recordProbe :: "string \<Rightarrow> string option \<Rightarrow> time \<Rightarrow> HubNode \<Rightarrow> bool \<times> HubNode" where
  "recordProbe i err at n =
     (let (changed, st) = probe_outcome (co_UnresponsiveAfter (nd_opts n)) err at (probe_of n i)
      in (changed, n\<lparr>nd_probes := AList.update i st (nd_probes n)\<rparr>))"

definition forgetProbes :: "HubMember list \<Rightarrow> HubNode \<Rightarrow> HubNode" where
  "forgetProbes live n = n\<lparr>nd_probes := filter (\<lambda>(k, st). list_ex (\<lambda>m. mb_ID m = k) live) (nd_probes n)\<rparr>"

text \<open>The peers of a round that are asked, and the round: its results in the order of their arrival,
  each with the clock when it is taken. Whether the hooks run is whether some verdict changed.\<close>

definition probe_asked :: "HubNode \<Rightarrow> string list" where
  "probe_asked n = map mb_ID (filter (\<lambda>m. trim_space (mb_AdvertiseURL m) \<noteq> []) (Peers n))"

fun take_results :: "(string \<times> string option \<times> time) list \<Rightarrow> bool \<times> HubNode \<Rightarrow> bool \<times> HubNode" where
  "take_results [] s = s"
| "take_results ((i, err, at) # rs) (changed, n) =
     (let (c, n') = recordProbe i err at n in take_results rs (changed \<or> c, n'))"

definition ProbePeers :: "(string \<times> string option \<times> time) list \<Rightarrow> HubNode \<Rightarrow> bool \<times> HubNode" where
  "ProbePeers results n =
     take_results (filter (\<lambda>(i, err, at). i \<in> set (probe_asked n)) results) (False, forgetProbes (Peers n) n)"

text \<open>The loop over the members, oldest first: the leader and the dead are passed over.\<close>

fun adoption_scan :: "HubNode \<Rightarrow> string \<Rightarrow> HubMember list \<Rightarrow> bool" where
  "adoption_scan n leader [] = False"
| "adoption_scan n leader (m # ms) =
     (if mb_ID m = leader \<or> \<not> mb_Alive m then adoption_scan n leader ms
      else if mb_Self m then True
      else if Responsive n (mb_ID m) then False
      else adoption_scan n leader ms)"

definition LeadsAdoption :: "cluster_env \<Rightarrow> HubNode \<Rightarrow> bool \<times> HubNode" where
  "LeadsAdoption env n =
     (if IsLeader n then (True, n)
      else
        let leader = LeaderID n in
        if leader = [] \<or> leader = mb_ID (nd_self n) then (False, n)
        else let (a, n') = IsAlive env leader n in
             if \<not> a \<or> Responsive n' leader then (False, n')
             else (adoption_scan n' leader (Members n'), n'))"

section \<open>Leadership\<close>

definition observeHolder :: "cluster_env \<Rightarrow> string \<Rightarrow> HubNode \<Rightarrow> HubNode" where
  "observeHolder env holder n =
     (let n1 = n\<lparr>nd_holder := holder\<rparr> in
      if nd_legacyWarned n1 \<or> holder = [] \<or> Member_of n1 holder \<noteq> None then n1
      else let n2 = snd (refresh env n1) in
           if Member_of n2 holder \<noteq> None then n2 else n2\<lparr>nd_legacyWarned := True\<rparr>)"

definition becomeLeader :: "cluster_env \<Rightarrow> Lease \<Rightarrow> HubNode \<Rightarrow> HubNode" where
  "becomeLeader env lease n =
     snd (refresh env (n\<lparr>nd_lease := Some lease, nd_holder := mb_ID (nd_self n), nd_legacyWarned := False,
                         nd_terms := nd_terms n + 1\<rparr>))"

definition campaign_options :: "HubNode \<Rightarrow> Options" where
  "campaign_options n = \<lparr>op_Scope = [], op_Address = mb_Address (nd_self n), op_Version = mb_Version (nd_self n),
     op_TTL = co_LeaderTTL (nd_opts n), op_Interval = co_LeaderInterval (nd_opts n),
     op_Identity = node_identity n, op_InstanceID = mb_ID (nd_self n)\<rparr>"

text \<open>One attempt at leadership; \<open>done\<close> for a context that ended.\<close>

definition campaign ::
    "bool \<Rightarrow> cluster_env \<Rightarrow> lease_env \<Rightarrow> HubNode \<times> lease_db \<Rightarrow> HubNode \<times> lease_db" where
  "campaign finished env lenv s =
     (let (n, db) = s in
      if IsLeader n \<or> finished then (n, db)
      else case Acquire (campaign_options n) lenv db of
             (Inl (ErrConflict holder age raced), db') \<Rightarrow> (observeHolder env (lr_InstanceID holder) n, db')
           | (Inl e, db') \<Rightarrow> (n, db')
           | (Inr lease, db') \<Rightarrow> (becomeLeader env lease n, db'))"

text \<open>Duties are cancelled and awaited before the lease is released.\<close>

definition stepDown :: "time \<Rightarrow> bool \<Rightarrow> HubNode \<times> lease_db \<Rightarrow> HubNode \<times> lease_db" where
  "stepDown now fault s =
     (let (n, db) = s in
      case nd_lease n of
        None \<Rightarrow> (n, db)
      | Some lease \<Rightarrow>
          (n\<lparr>nd_lease := None, nd_holder := []\<rparr>,
           snd (ReleaseHubLease now fault (ls_scope lease) (ls_instanceID lease) now db)))"

section \<open>What a refresh makes of a row\<close>

lemma refresh_consts [simp]:
  "nd_opts (snd (refresh env n)) = nd_opts n" "nd_self (snd (refresh env n)) = nd_self n"
  "nd_lease (snd (refresh env n)) = nd_lease n" "nd_probes (snd (refresh env n)) = nd_probes n"
  "nd_holder (snd (refresh env n)) = nd_holder n"
  by (simp_all add: refresh_def Let_def split: sum.split)

definition rows_keyed :: "members_table \<Rightarrow> bool" where
  "rows_keyed tab \<longleftrightarrow> distinct (map fst tab) \<and> list_all (\<lambda>(k, r). mr_InstanceID r = k) tab"

lemma map_of_fold_update_other:
  "k \<notin> f ` set rows \<Longrightarrow> map_of (fold (\<lambda>r. AList.update (f r) (g r)) rows acc) k = map_of acc k"
  by (induction rows arbitrary: acc) auto

lemma map_of_fold_update:
  "distinct (map f rows) \<Longrightarrow> r \<in> set rows \<Longrightarrow> map_of (fold (\<lambda>r. AList.update (f r) (g r)) rows acc) (f r) = Some (g r)"
  by (induction rows arbitrary: acc) (auto simp: map_of_fold_update_other)

definition listed :: "members_table \<Rightarrow> HubMemberRow list" where
  "listed tab = map member_of_cells (sort_key (\<lambda>r. mr_StartedAt r) (sort_key mr_InstanceID (map snd tab)))"

lemma listed_rows:
  assumes "rows_keyed tab"
  shows "distinct (map mr_InstanceID (listed tab))" "set (listed tab) = member_of_cells ` snd ` set tab"
    "mr_InstanceID ` set (listed tab) = fst ` set tab"
proof -
  have cells: "mr_InstanceID (member_of_cells r) = mr_InstanceID r" for r by (simp add: member_of_cells_def)
  have "map mr_InstanceID (map snd tab) = map fst tab" using assms by (auto simp: rows_keyed_def list_all_iff)
  then have "inj_on mr_InstanceID (set (map snd tab))" "distinct (map snd tab)"
    using assms by (metis distinct_map rows_keyed_def)+
  then show "distinct (map mr_InstanceID (listed tab))" by (simp add: listed_def distinct_map o_def cells inj_on_def)
  show s: "set (listed tab) = member_of_cells ` snd ` set tab" by (simp add: listed_def)
  show "mr_InstanceID ` set (listed tab) = fst ` set tab"
    using assms by (force simp: s image_image cells rows_keyed_def list_all_iff)
qed

lemma refreshed_member:
  assumes "rows_keyed (ce_members env)" "\<not> ce_fault env" "map_of (ce_members env) k = Some r"
  shows "Member_of (snd (refresh env obs)) k = Some (seen_member obs env (member_of_cells r))"
proof -
  have "member_of_cells r \<in> set (listed (ce_members env))"
    using assms(3) by (force simp: listed_rows(2) [OF assms(1)] dest: map_of_SomeD)
  moreover have "mr_InstanceID (member_of_cells r) = k"
    using assms(1,3) by (auto simp: member_of_cells_def rows_keyed_def list_all_iff dest: map_of_SomeD)
  ultimately have "map_of (fold (\<lambda>r. AList.update (mr_InstanceID r) (seen_member obs env r)) (listed (ce_members env)) []) k =
      Some (seen_member obs env (member_of_cells r))"
    using map_of_fold_update [OF listed_rows(1) [OF assms(1)]] by metis
  then show ?thesis using assms(2) by (auto simp: refresh_def ListHubMembers_def listed_def [symmetric] Member_of_def Let_def)
qed

lemma refreshed_stranger:
  assumes "rows_keyed (ce_members env)" "\<not> ce_fault env" "map_of (ce_members env) k = None" "k \<noteq> mb_ID (nd_self obs)"
  shows "Member_of (snd (refresh env obs)) k = None"
proof -
  have "k \<notin> mr_InstanceID ` set (listed (ce_members env))"
    using assms(3) by (simp add: listed_rows(3) [OF assms(1)] map_of_eq_None_iff)
  then have "map_of (fold (\<lambda>r. AList.update (mr_InstanceID r) (seen_member obs env r)) (listed (ce_members env)) []) k = None"
    by (simp add: map_of_fold_update_other)
  then show ?thesis using assms(2,4) by (auto simp: refresh_def ListHubMembers_def listed_def [symmetric] Member_of_def Let_def)
qed

end
