(* ===== verification/HubVerdict.thy ===== *)
theory HubVerdict
  imports HubNode
begin

text \<open>
  What the verdicts of pkg/hubcluster/probe.go rest on: a peer is judged unresponsive exactly when
  the failures since its last answer say so, and members that see the same cluster agree on one of
  them that adopts what others left.
\<close>

section \<open>The verdict and the failures behind it\<close>

text \<open>What a node learns about its peers, one probe result or one forgetting at a time, and the
  outcomes about one peer since it was last forgotten.\<close>

datatype probe_act = Result string "string option" time | Forget "HubMember list"

fun probe_do :: "probe_act \<Rightarrow> HubNode \<Rightarrow> HubNode" where
  "probe_do (Result i err at) n = snd (recordProbe i err at n)"
| "probe_do (Forget live) n = forgetProbes live n"

fun note_act :: "string \<Rightarrow> probe_act \<Rightarrow> (string option \<times> time) list \<Rightarrow> (string option \<times> time) list" where
  "note_act i (Result j err at) h = (if j = i then h @ [(err, at)] else h)"
| "note_act i (Forget live) h = (if list_ex (\<lambda>m. mb_ID m = i) live then h else [])"

definition outcomes :: "string \<Rightarrow> probe_act list \<Rightarrow> (string option \<times> time) list" where
  "outcomes i acts = fold (note_act i) acts []"

text \<open>The times of the failures since the last answer.\<close>

definition failing_run :: "(string option \<times> time) list \<Rightarrow> time list" where
  "failing_run h = map snd (rev (takeWhile (\<lambda>(err, at). err \<noteq> None) (rev h)))"

definition run_is_verdict :: "duration \<Rightarrow> time list \<Rightarrow> bool" where
  "run_is_verdict after ts = list_ex (\<lambda>t. time_sub t (hd ts) \<ge> after) (tl ts)"

lemma failing_run_snoc [simp]:
  "failing_run [] = []"
  "failing_run (h @ [(None, at)]) = []"
  "failing_run (h @ [(Some e, at)]) = failing_run h @ [at]"
  by (simp_all add: failing_run_def)

lemma run_is_verdict_snoc:
  "run_is_verdict after (ts @ [t]) \<longleftrightarrow> run_is_verdict after ts \<or> ts \<noteq> [] \<and> time_sub t (hd ts) \<ge> after"
  by (cases ts) (auto simp: run_is_verdict_def)

definition state_of_run :: "duration \<Rightarrow> time list \<Rightarrow> probeState \<Rightarrow> bool" where
  "state_of_run after ts st \<longleftrightarrow> ps_failures st = int (length ts) \<and> (ts \<noteq> [] \<longrightarrow> ps_failingSince st = hd ts) \<and>
     (ps_unresponsive st \<longleftrightarrow> run_is_verdict after ts)"

lemma state_of_no_run: "state_of_run after [] no_probe"
  by (simp add: state_of_run_def no_probe_def run_is_verdict_def)

lemma probe_outcome_run:
  assumes "state_of_run after (failing_run h) st"
  shows "state_of_run after (failing_run (h @ [(err, at)])) (snd (probe_outcome after err at st))"
proof (cases err)
  case None
  then show ?thesis by (simp add: probe_outcome_def state_of_no_run)
next
  case (Some e)
  have "failing_run h = [] \<or> 1 \<le> int (length (failing_run h))" by (cases "failing_run h") auto
  with assms Some show ?thesis
    by (auto simp: probe_outcome_def state_of_run_def Let_def run_is_verdict_snoc hd_append)
qed

lemma probe_of_record: "probe_of (snd (recordProbe j err at n)) i =
    (if i = j then snd (probe_outcome (co_UnresponsiveAfter (nd_opts n)) err at (probe_of n j)) else probe_of n i)"
  by (simp add: recordProbe_def probe_of_def AList.update_conv' split: prod.split)

lemma map_of_filter_keys: "map_of (filter (\<lambda>(k, v). P k) xs) i = (if P i then map_of xs i else None)"
  by (induction xs) auto

lemma probe_of_forget: "probe_of (forgetProbes live n) i = (if list_ex (\<lambda>m. mb_ID m = i) live then probe_of n i else no_probe)"
  by (simp add: forgetProbes_def probe_of_def map_of_filter_keys)

lemma probe_do_consts [simp]: "nd_opts (probe_do a n) = nd_opts n" "nd_self (probe_do a n) = nd_self n"
  by (cases a; simp add: recordProbe_def forgetProbes_def split: prod.split)+

lemma probe_do_state:
  assumes "state_of_run (co_UnresponsiveAfter (nd_opts n)) (failing_run h) (probe_of n i)"
  shows "state_of_run (co_UnresponsiveAfter (nd_opts n)) (failing_run (note_act i a h)) (probe_of (probe_do a n) i)"
  using assms by (cases a) (auto simp: probe_of_record probe_of_forget probe_outcome_run state_of_no_run)

lemma probe_run_state:
  "state_of_run (co_UnresponsiveAfter (nd_opts n)) (failing_run h) (probe_of n i) \<Longrightarrow>
   state_of_run (co_UnresponsiveAfter (nd_opts n)) (failing_run (fold (note_act i) acts h)) (probe_of (fold probe_do acts n) i)"
proof (induction acts arbitrary: n h)
  case (Cons a acts)
  show ?case using Cons.IH [of "probe_do a n" "note_act i a h"] probe_do_state [OF Cons.prems, of a] by simp
qed simp

lemma fold_probe_consts [simp]: "nd_self (fold probe_do acts n) = nd_self n"
  by (induction acts arbitrary: n) simp_all

lemma unresponsive_probe: "Responsive n i \<longleftrightarrow> i = [] \<or> i = mb_ID (nd_self n) \<or> \<not> ps_unresponsive (probe_of n i)"
  by (simp add: Responsive_def unresponsiveErr_def probe_of_def no_probe_def split: option.split)

text \<open>C18: A member that has probed nobody yet judges a peer unresponsive, after any sequence of probe
  results and forgettings, exactly when the failures since the last answer of that peer (or since it
  was forgotten) include a second or later one that comes \<open>UnresponsiveAfter\<close> or more after the
  first: one slow answer is never a verdict, and the first answer clears it.
\<close>

theorem verdict_follows_the_failures:
  "\<not> Responsive (fold probe_do acts (n\<lparr>nd_probes := []\<rparr>)) i \<longleftrightarrow>
     i \<noteq> [] \<and> i \<noteq> mb_ID (nd_self n) \<and>
     run_is_verdict (co_UnresponsiveAfter (nd_opts n)) (failing_run (outcomes i acts))"
proof -
  let ?n = "n\<lparr>nd_probes := []\<rparr>"
  have "state_of_run (co_UnresponsiveAfter (nd_opts ?n)) (failing_run []) (probe_of ?n i)"
    by (simp add: probe_of_def state_of_no_run)
  from probe_run_state [OF this, of acts] show ?thesis
    by (simp add: unresponsive_probe state_of_run_def outcomes_def)
qed

text \<open>A round of probes is such a sequence.\<close>

lemma take_results_acts: "snd (take_results rs (c, n)) = fold probe_do (map (\<lambda>(i, err, at). Result i err at) rs) n"
  by (induction rs arbitrary: c n) (auto split: prod.split)

lemma ProbePeers_acts:
  "snd (ProbePeers results n) =
     fold probe_do (Forget (Peers n) # map (\<lambda>(i, err, at). Result i err at)
       (filter (\<lambda>(i, err, at). i \<in> set (probe_asked n)) results)) n"
  by (simp add: ProbePeers_def take_results_acts)

section \<open>One member adopts\<close>

text \<open>What a refresh leaves: one entry per id, under its id, and only the own entry marked so.\<close>

definition wf_node :: "HubNode \<Rightarrow> bool" where
  "wf_node n \<longleftrightarrow> distinct (map fst (nd_members n)) \<and>
     list_all (\<lambda>(k, m). mb_ID m = k \<and> mb_Self m = (k = mb_ID (nd_self n))) (nd_members n)"

definition own_flag :: "HubNode \<Rightarrow> bool" where
  "own_flag n \<longleftrightarrow> mb_Self (nd_self n)"

lemma wf_entries_fold:
  assumes "distinct (map fst acc)" and "list_all (\<lambda>(k, m). mb_ID m = k \<and> mb_Self m = (k = mb_ID (nd_self n))) acc"
  shows "distinct (map fst (fold (\<lambda>r. AList.update (mr_InstanceID r) (seen_member n env r)) rows acc)) \<and>
     list_all (\<lambda>(k, m). mb_ID m = k \<and> mb_Self m = (k = mb_ID (nd_self n)))
       (fold (\<lambda>r. AList.update (mr_InstanceID r) (seen_member n env r)) rows acc)"
  using assms
proof (induction rows arbitrary: acc)
  case (Cons r rows)
  have "distinct (map fst (AList.update (mr_InstanceID r) (seen_member n env r) acc))"
    by (rule distinct_update [OF Cons.prems(1)])
  moreover have "list_all (\<lambda>(k, m). mb_ID m = k \<and> mb_Self m = (k = mb_ID (nd_self n)))
      (AList.update (mr_InstanceID r) (seen_member n env r) acc)"
    using Cons.prems by (auto simp: list_all_iff set_update_distinct seen_member_def memberFromRow_def unknown_member_def Let_def)
  ultimately show ?case using Cons.IH by simp
qed simp

lemma refresh_wf:
  assumes "wf_node n" "own_flag n"
  shows "wf_node (snd (refresh env n))"
proof (cases "ListHubMembers (ce_fault env) (ce_members env)")
  case (Inl e)
  with assms show ?thesis by (simp add: refresh_def)
next
  case (Inr rows)
  let ?next = "fold (\<lambda>r. AList.update (mr_InstanceID r) (seen_member n env r)) rows []"
  from wf_entries_fold [of "[]" n env rows]
  have "distinct (map fst ?next)" "list_all (\<lambda>(k, m). mb_ID m = k \<and> mb_Self m = (k = mb_ID (nd_self n))) ?next" by auto
  with Inr assms(2) show ?thesis
    by (auto simp: refresh_def wf_node_def Let_def distinct_update list_all_iff set_update_distinct Self_of_def own_flag_def)
qed

text \<open>Two nodes see the same cluster: the same ids, since when they serve, and which are alive.\<close>

definition view_entry :: "HubMember \<Rightarrow> time \<times> string \<times> bool" where
  "view_entry m = (mb_StartedAt m, mb_ID m, mb_Alive m)"

definition view :: "HubNode \<Rightarrow> (time \<times> string \<times> bool) list" where
  "view n = map view_entry (Members n)"

definition same_view :: "HubNode \<Rightarrow> HubNode \<Rightarrow> bool" where
  "same_view a b \<longleftrightarrow> mset (map (\<lambda>(k, m). view_entry m) (nd_members a)) = mset (map (\<lambda>(k, m). view_entry m) (nd_members b))"

definition entry_less :: "time \<times> string \<times> bool \<Rightarrow> time \<times> string \<times> bool \<Rightarrow> bool" where
  "entry_less a b = (if fst a \<noteq> fst b then fst a < fst b else fst (snd a) < fst (snd b))"

interpretation by_start: strict_weak_order entry_less
  by unfold_locales (auto simp: entry_less_def split: if_splits)

lemma wf_entry: "wf_node n \<Longrightarrow> (k, m) \<in> set (nd_members n) \<Longrightarrow> mb_ID m = k \<and> mb_Self m = (k = mb_ID (nd_self n))"
  by (auto simp: wf_node_def list_all_iff)

text \<open>The flag \<open>Unresponsive\<close> is all that \<open>Members\<close> adds to an entry.\<close>

definition flagged :: "HubNode \<Rightarrow> HubMember \<Rightarrow> HubMember" where
  "flagged n m = (let since = unresponsiveSince n (mb_ID m)
     in if since \<noteq> 0 then m\<lparr>mb_Unresponsive := True, mb_UnresponsiveSince := since\<rparr> else m)"

lemma flagged_simps [simp]:
  "mb_ID (flagged n m) = mb_ID m" "mb_StartedAt (flagged n m) = mb_StartedAt m" "mb_Alive (flagged n m) = mb_Alive m"
  "mb_Self (flagged n m) = mb_Self m" "view_entry (flagged n m) = view_entry m"
  by (simp_all add: flagged_def view_entry_def Let_def)

lemma Members_flagged: "Members n = go_stable_sort memberLess (map (\<lambda>(k, m). flagged n m) (nd_members n))"
  by (simp add: Members_def sortMembers_def flagged_def)

lemma view_sorted: "view n = go_stable_sort entry_less (map (\<lambda>(k, m). view_entry m) (nd_members n))"
proof -
  have less: "memberLess = (\<lambda>a b. entry_less (view_entry a) (view_entry b))"
    by (simp add: fun_eq_iff memberLess_def entry_less_def view_entry_def)
  have "map view_entry (go_stable_sort memberLess (map (\<lambda>(k, m). flagged n m) (nd_members n))) =
      go_stable_sort entry_less (map view_entry (map (\<lambda>(k, m). flagged n m) (nd_members n)))"
    unfolding less by (rule map_go_stable_sort)
  also have "map view_entry (map (\<lambda>(k, m). flagged n m) (nd_members n)) = map (\<lambda>(k, m). view_entry m) (nd_members n)"
    by auto
  finally show ?thesis by (simp add: view_def Members_flagged)
qed

lemma wf_entries_distinct:
  assumes "wf_node n" "e \<in> set (map (\<lambda>(k, m). view_entry m) (nd_members n))"
    "f \<in> set (map (\<lambda>(k, m). view_entry m) (nd_members n))" "e \<noteq> f"
  shows "entry_less e f \<or> entry_less f e"
proof -
  from assms obtain k m k' m' where e: "(k, m) \<in> set (nd_members n)" "e = view_entry m"
    and f: "(k', m') \<in> set (nd_members n)" "f = view_entry m'" by auto
  have "k \<noteq> k'" using assms(1,4) e f by (auto simp: wf_node_def dest: eq_key_imp_eq_value)
  then have "mb_ID m \<noteq> mb_ID m'" using wf_entry [OF assms(1) e(1)] wf_entry [OF assms(1) f(1)] by simp
  then show ?thesis using e f by (auto simp: entry_less_def view_entry_def)
qed

lemma same_view_eq:
  assumes "wf_node a" "same_view a b"
  shows "view a = view b"
  unfolding view_sorted
  by (rule by_start.sort_order_independent [OF assms(2) [unfolded same_view_def] wf_entries_distinct [OF assms(1)]])

lemma members_in:
  assumes "wf_node n" "m \<in> set (Members n)"
  obtains m' where "(mb_ID m, m') \<in> set (nd_members n)" "m = flagged n m'"
proof -
  from assms(2) obtain k m' where "(k, m') \<in> set (nd_members n)" "m = flagged n m'"
    by (auto simp: Members_flagged)
  with wf_entry [OF assms(1)] that show thesis by auto
qed

lemma member_self:
  assumes "wf_node n" "m \<in> set (Members n)"
  shows "mb_Self m \<longleftrightarrow> mb_ID m = mb_ID (nd_self n)"
proof -
  from members_in [OF assms] obtain m' where "(mb_ID m, m') \<in> set (nd_members n)" "m = flagged n m'" .
  from wf_entry [OF assms(1) this(1)] this(2) show ?thesis by simp
qed

lemma view_alive:
  assumes "wf_node n" "(s, i, True) \<in> set (view n)"
  obtains m where "Member_of n i = Some m" "mb_Alive m"
proof -
  from assms(2) obtain m where m: "m \<in> set (Members n)" "i = mb_ID m" "mb_Alive m" by (auto simp: view_def view_entry_def)
  from members_in [OF assms(1) m(1)] obtain m' where "(i, m') \<in> set (nd_members n)" "m = flagged n m'" using m(2) by auto
  then have "Member_of n i = Some m'" using assms(1) by (auto simp: Member_of_def wf_node_def)
  with m(3) \<open>m = flagged n m'\<close> that show thesis by simp
qed

text \<open>A node whose scan comes up true is found responsive by no other candidate before it.\<close>

definition candidates :: "string \<Rightarrow> (time \<times> string \<times> bool) list \<Rightarrow> string list" where
  "candidates leader v = map (\<lambda>e. fst (snd e)) (filter (\<lambda>e. fst (snd e) \<noteq> leader \<and> snd (snd e)) v)"

definition scan_ids :: "HubNode \<Rightarrow> string list \<Rightarrow> bool" where
  "scan_ids n ids = (case dropWhile (\<lambda>i. i \<noteq> mb_ID (nd_self n) \<and> \<not> Responsive n i) ids of
     [] \<Rightarrow> False | i # _ \<Rightarrow> i = mb_ID (nd_self n))"

lemma adoption_scan_ids:
  assumes "\<And>m. m \<in> set ms \<Longrightarrow> mb_Self m \<longleftrightarrow> mb_ID m = mb_ID (nd_self n)"
  shows "adoption_scan n leader ms \<longleftrightarrow> scan_ids n (candidates leader (map view_entry ms))"
  using assms by (induction ms) (auto simp: scan_ids_def candidates_def view_entry_def)

lemma LeadsAdoption_known:
  assumes "wf_node n" "LeaderID n \<in> set (map fst (nd_members n))"
  shows "fst (LeadsAdoption env n) \<longleftrightarrow> IsLeader n \<or>
    LeaderID n \<noteq> [] \<and> LeaderID n \<noteq> mb_ID (nd_self n) \<and> (\<exists>m. Member_of n (LeaderID n) = Some m \<and> mb_Alive m) \<and>
    \<not> Responsive n (LeaderID n) \<and> scan_ids n (candidates (LeaderID n) (view n))"
proof -
  from assms(2) obtain m where m: "Member_of n (LeaderID n) = Some m"
    unfolding Member_of_def by (metis map_of_eq_None_iff not_None_eq set_map)
  show ?thesis
    using adoption_scan_ids [OF member_self [OF assms(1)], of "Members n" "LeaderID n"] m
    by (auto simp: LeadsAdoption_def IsAlive_def Let_def view_def)
qed

lemma known_in_view: "wf_node n \<Longrightarrow> i \<in> set (map fst (nd_members n)) \<longleftrightarrow> i \<in> set (map (\<lambda>e. fst (snd e)) (view n))"
  by (force simp: view_sorted view_entry_def image_iff dest: wf_entry)

lemma same_view_known:
  "wf_node a \<Longrightarrow> wf_node b \<Longrightarrow> same_view a b \<Longrightarrow> i \<in> set (map fst (nd_members a)) \<longleftrightarrow> i \<in> set (map fst (nd_members b))"
  by (simp only: known_in_view same_view_eq)

lemma scan_split:
  assumes "scan_ids n ids"
  obtains us vs where "ids = us @ mb_ID (nd_self n) # vs" "\<And>i. i \<in> set us \<Longrightarrow> i \<noteq> mb_ID (nd_self n) \<and> \<not> Responsive n i"
proof -
  let ?P = "\<lambda>i. i \<noteq> mb_ID (nd_self n) \<and> \<not> Responsive n i"
  from assms obtain vs where "dropWhile ?P ids = mb_ID (nd_self n) # vs"
    by (auto simp: scan_ids_def split: list.splits)
  then have "ids = takeWhile ?P ids @ mb_ID (nd_self n) # vs" by (metis takeWhile_dropWhile_id)
  then show thesis by (rule that) (auto dest: set_takeWhileD)
qed

lemma scan_unique:
  assumes "scan_ids a ids" "scan_ids b ids" "Responsive a (mb_ID (nd_self b))" "Responsive b (mb_ID (nd_self a))"
  shows "mb_ID (nd_self a) = mb_ID (nd_self b)"
proof -
  obtain us vs where a: "ids = us @ mb_ID (nd_self a) # vs"
    "\<And>i. i \<in> set us \<Longrightarrow> i \<noteq> mb_ID (nd_self a) \<and> \<not> Responsive a i" using scan_split [OF assms(1)] by metis
  obtain us' vs' where b: "ids = us' @ mb_ID (nd_self b) # vs'"
    "\<And>i. i \<in> set us' \<Longrightarrow> i \<noteq> mb_ID (nd_self b) \<and> \<not> Responsive b i" using scan_split [OF assms(2)] by metis
  have "us @ mb_ID (nd_self a) # vs = us' @ mb_ID (nd_self b) # vs'" using a(1) b(1) by simp
  then show ?thesis using a(2) b(2) assms(3,4) by (auto simp: append_eq_append_conv2 append_eq_Cons_conv Cons_eq_append_conv)
qed

text \<open>C16: Two members that read the same cluster, name the same known leader and each find the other
  answering never both lead adoption, whatever they think of third members: a run whose owner
  stopped serving is offered to one of them.
\<close>

theorem adoption_has_one_leader:
  assumes "wf_node a" "wf_node b" "same_view a b" and "mb_ID (nd_self a) \<noteq> mb_ID (nd_self b)"
    and "LeaderID a = LeaderID b" "LeaderID a \<in> set (map fst (nd_members a))"
    and "Responsive a (mb_ID (nd_self b))" "Responsive b (mb_ID (nd_self a))"
  shows "\<not> (fst (LeadsAdoption env a) \<and> fst (LeadsAdoption env' b))"
proof
  assume both: "fst (LeadsAdoption env a) \<and> fst (LeadsAdoption env' b)"
  have kb: "LeaderID b \<in> set (map fst (nd_members b))"
    using same_view_known [OF assms(1-3)] assms(5,6) by metis
  note la = LeadsAdoption_known [OF assms(1,6), of env] and lb = LeadsAdoption_known [OF assms(2) kb, of env']
  show False
  proof (cases "IsLeader a \<or> IsLeader b")
    case True
    then have "LeaderID a = mb_ID (nd_self a) \<or> LeaderID b = mb_ID (nd_self b)" by (auto simp: LeaderID_def)
    then show False using both la lb assms(4,5,7,8) by (metis LeaderID_def)
  next
    case False
    then have "scan_ids a (candidates (LeaderID a) (view a))" "scan_ids b (candidates (LeaderID a) (view a))"
      using both la lb assms(5) same_view_eq [OF assms(1,3)] by auto
    from scan_unique [OF this assms(7,8)] assms(4) show False by simp
  qed
qed

text \<open>C17: While the leader heartbeats without answering, and every other live member reads the same
  cluster, names that leader and sees that, one of them leads adoption in its stead: the runs of a stuck
  leader are not left to nobody.
\<close>

theorem stuck_leader_is_stood_in_for:
  assumes "list_all (\<lambda>n. wf_node n \<and> same_view n0 n \<and> LeaderID n = leader \<and> leader \<noteq> mb_ID (nd_self n) \<and>
      \<not> Responsive n leader) nodes" and "wf_node n0"
    and "leader \<noteq> []" "case Member_of n0 leader of None \<Rightarrow> False | Some m \<Rightarrow> mb_Alive m"
    and "candidates leader (view n0) \<noteq> []" "set (candidates leader (view n0)) \<subseteq> set (map (\<lambda>n. mb_ID (nd_self n)) nodes)"
  shows "list_ex (\<lambda>n. fst (LeadsAdoption env n)) nodes"
proof -
  from assms(5) obtain i js where c: "candidates leader (view n0) = i # js" by (cases "candidates leader (view n0)") auto
  with assms(6) obtain n where n: "n \<in> set nodes" "i = mb_ID (nd_self n)" by auto
  with assms(1) have wf: "wf_node n" and same: "same_view n0 n" and l: "LeaderID n = leader" "leader \<noteq> mb_ID (nd_self n)"
    "\<not> Responsive n leader" by (auto simp: list_all_iff)
  have v: "view n = view n0" using same_view_eq [OF assms(2) same] by simp
  from assms(4) obtain m where m: "Member_of n0 leader = Some m" "mb_Alive m" by (auto split: option.splits)
  then have "(mb_StartedAt m, leader, True) \<in> set (view n0)"
    using wf_entry [OF assms(2)] by (force simp: view_sorted view_entry_def Member_of_def dest: map_of_SomeD)
  then obtain m' where m': "Member_of n leader = Some m'" "mb_Alive m'" using view_alive [OF wf] v by metis
  then have k: "LeaderID n \<in> set (map fst (nd_members n))" using l by (force simp: Member_of_def dest: map_of_SomeD)
  have "scan_ids n (candidates leader (view n))" using c n(2) v by (simp add: scan_ids_def)
  with m' l assms(3) have "fst (LeadsAdoption env n)" using LeadsAdoption_known [OF wf k, of env] by simp
  with n(1) show ?thesis by (auto simp: list_ex_iff)
qed

section \<open>A cluster of three\<close>

text \<open>Three members that joined a second apart, the first of which leads and has not answered the
  others for a minute.\<close>

definition sample_options :: ClusterOptions where
  "sample_options = join_options \<lparr>co_Address = '':8080'', co_AdvertiseURL = [], co_Version = [], co_Heartbeat = 0,
     co_MemberTTL = 0, co_BusPoll = 0, co_BusFlush = 0, co_BusRetention = 0, co_Campaign = 0, co_LeaderTTL = 0,
     co_LeaderInterval = 0, co_ProbeInterval = 0, co_ProbeTimeout = 0, co_UnresponsiveAfter = 0,
     co_Identity = \<lparr>id_Hostname = [], id_PID = 0, id_BootID = []\<rparr>, co_InstanceID = []\<rparr>"

definition sample_at :: "int \<Rightarrow> time" where "sample_at s = unix_epoch + (1700000000 + s) * go_second"

definition sample_self :: "string \<Rightarrow> int \<Rightarrow> HubMember" where
  "sample_self i s = unknown_member\<lparr>mb_ID := i, mb_Hostname := i, mb_PID := 1, mb_BootID := ''b'', mb_AdvertiseURL := ''http://'' @ i,
     mb_StartedAt := sample_at s, mb_HeartbeatAt := sample_at s, mb_Alive := True, mb_Self := True\<rparr>"

definition sample_new :: "string \<Rightarrow> int \<Rightarrow> HubNode" where
  "sample_new i s = \<lparr>nd_opts = sample_options, nd_self = sample_self i s, nd_members = [], nd_fenced = 0, nd_closed = False,
     nd_probes = [], nd_lease = None, nd_holder = ''hub1'', nd_legacyWarned = False, nd_terms = 0\<rparr>"

definition sample_table :: members_table where
  "sample_table = fold (\<lambda>(i, s). \<lambda>tab. snd (JoinHubMember 0 False (memberRow (sample_new i s)) tab))
     [(''hub2'', 1), (''hub1'', 0), (''hub3'', 2)] []"

definition sample_cluster_env :: cluster_env where
  "sample_cluster_env = \<lparr>ce_now = sample_at 3, ce_alive = (\<lambda>p. True), ce_fault = False, ce_members = sample_table\<rparr>"

definition sample_node :: "string \<Rightarrow> int \<Rightarrow> HubNode" where
  "sample_node i s = fold probe_do [Result ''hub1'' (Some ''timeout'') (sample_at 4), Result ''hub1'' (Some ''timeout'') (sample_at 64)]
     (snd (refresh sample_cluster_env (sample_new i s)))"

lemma sample_members:
  "map fst (nd_members (sample_node ''hub2'' 1)) = [''hub1'', ''hub2'', ''hub3'']"
  "map fst (nd_members (sample_node ''hub3'' 2)) = [''hub1'', ''hub2'', ''hub3'']"
  "wf_node (sample_node ''hub2'' 1)" "wf_node (sample_node ''hub3'' 2)"
  "map (\<lambda>(k, m). view_entry m) (nd_members (sample_node ''hub2'' 1)) =
     [(sample_at 0, ''hub1'', True), (sample_at 1, ''hub2'', True), (sample_at 2, ''hub3'', True)]"
  "map (\<lambda>(k, m). view_entry m) (nd_members (sample_node ''hub3'' 2)) =
     [(sample_at 0, ''hub1'', True), (sample_at 1, ''hub2'', True), (sample_at 2, ''hub3'', True)]"
  "Member_of (sample_node ''hub2'' 1) ''hub1'' = Some (seen_member (sample_new ''hub2'' 1) sample_cluster_env
     (member_of_cells (member_cells (memberRow (sample_new ''hub1'' 0)))))"
  "mb_Alive (seen_member (sample_new ''hub2'' 1) sample_cluster_env
     (member_of_cells (member_cells (memberRow (sample_new ''hub1'' 0)))))"
  by code_simp+

lemma sample_verdicts:
  "LeaderID (sample_node ''hub2'' 1) = ''hub1''" "LeaderID (sample_node ''hub3'' 2) = ''hub1''"
  "mb_ID (nd_self (sample_node ''hub2'' 1)) = ''hub2''" "mb_ID (nd_self (sample_node ''hub3'' 2)) = ''hub3''"
  "\<not> Responsive (sample_node ''hub2'' 1) ''hub1''" "\<not> Responsive (sample_node ''hub3'' 2) ''hub1''"
  "Responsive (sample_node ''hub2'' 1) ''hub3''" "Responsive (sample_node ''hub3'' 2) ''hub2''"
  by code_simp+

lemma sample_same_view: "same_view (sample_node ''hub2'' 1) (sample_node ''hub3'' 2)" "same_view (sample_node ''hub2'' 1) (sample_node ''hub2'' 1)"
  by (simp_all add: same_view_def sample_members)

lemma sample_candidates: "candidates ''hub1'' (view (sample_node ''hub2'' 1)) = [''hub2'', ''hub3'']"
  by code_simp

theorem adoption_has_one_leader_witness:
  "\<not> (fst (LeadsAdoption sample_cluster_env (sample_node ''hub2'' 1)) \<and> fst (LeadsAdoption sample_cluster_env (sample_node ''hub3'' 2)))"
  by (rule adoption_has_one_leader) (simp_all add: sample_members sample_verdicts sample_same_view)

theorem stuck_leader_is_stood_in_for_witness:
  "list_ex (\<lambda>n. fst (LeadsAdoption sample_cluster_env n)) [sample_node ''hub2'' 1, sample_node ''hub3'' 2]"
  by (rule stuck_leader_is_stood_in_for [where leader = "''hub1''" and ?n0.0 = "sample_node ''hub2'' 1"])
    (simp_all add: sample_members sample_verdicts sample_same_view sample_candidates)

end
