(* ===== verification/HubBus.thy ===== *)
theory HubBus
  imports HubNode
begin

text \<open>
  The bus of the hub cluster (pkg/hubcluster/bus.go) and the life of a member around it
  (pkg/hubcluster/hubcluster.go): joining beside or after a hub from before clustering, beating,
  the leader's housekeeping, leaving. A member's bus is a value: the queue its flusher writes, the
  cursor its reader moves, its counters, and the events handed to subscribers so far, each of which
  stands for the calls of every subscriber of its topic and of \<open>*\<close>; a gap counted stands for the
  calls of the hooks of \<open>OnBusGap\<close>. Payloads are their JSON text.
\<close>

section \<open>Publishing\<close>

definition busQueueMax :: nat where "busQueueMax = 8192"
definition busReadBatch :: int where "busReadBatch = 512"

record HubBus =
  bb_queue :: "HubEventRow list"
  bb_cursor :: int
  bb_heard :: "HubEventRow list"
  bb_published :: nat
  bb_delivered :: nat
  bb_dropped :: nat
  bb_gapCount :: nat
  bb_kick :: bool

definition newBus :: HubBus where
  "newBus = \<lparr>bb_queue = [], bb_cursor = 0, bb_heard = [], bb_published = 0, bb_delivered = 0, bb_dropped = 0,
     bb_gapCount = 0, bb_kick = False\<rparr>"

definition bus_init :: "bool \<Rightarrow> bus_table \<Rightarrow> HubBus \<Rightarrow> (hub_error + unit) \<times> HubBus" where
  "bus_init fault tab b =
     (case HubEventBounds fault tab of
        Inl e \<Rightarrow> (Inl e, b)
      | Inr (lo, hi, issued) \<Rightarrow> (Inr (), b\<lparr>bb_cursor := issued\<rparr>))"

definition publish_to :: "HubNode \<Rightarrow> time \<Rightarrow> string \<Rightarrow> string \<Rightarrow> string \<Rightarrow> string \<Rightarrow> HubBus \<Rightarrow> HubBus" where
  "publish_to n now target topic key payload b =
     (if target = [] \<and> \<not> HasPeers n then b
      else if length (bb_queue b) \<ge> busQueueMax then b\<lparr>bb_dropped := bb_dropped b + 1\<rparr>
      else b\<lparr>bb_queue := bb_queue b @
               [\<lparr>he_Seq = 0, he_Origin = mb_ID (nd_self n), he_Target = target, he_Topic = topic, he_Key = key,
                 he_Payload = payload, he_CreatedAt = now\<rparr>],
             bb_published := bb_published b + 1\<rparr>)"

definition Publish :: "HubNode \<Rightarrow> time \<Rightarrow> string \<Rightarrow> string \<Rightarrow> string \<Rightarrow> HubBus \<Rightarrow> HubBus" where
  "Publish n now topic key payload b = publish_to n now [] topic key payload b"

definition PublishTo :: "HubNode \<Rightarrow> time \<Rightarrow> string \<Rightarrow> string \<Rightarrow> string \<Rightarrow> string \<Rightarrow> HubBus \<Rightarrow> HubBus" where
  "PublishTo n now target topic key payload b =
     (if target = [] \<or> target = mb_ID (nd_self n) then b else publish_to n now target topic key payload b)"

text \<open>The queue is written as one batch, with one retry; then it is dropped.\<close>

definition flush :: "time \<Rightarrow> bool \<Rightarrow> bool \<Rightarrow> HubBus \<times> bus_table \<Rightarrow> HubBus \<times> bus_table" where
  "flush wall fault fault2 s =
     (let (b, tab) = s; batch = bb_queue b; b = b\<lparr>bb_queue := []\<rparr> in
      if batch = [] then (b, tab)
      else case AppendHubEvents wall fault batch tab of
             (Inr seq, tab1) \<Rightarrow> (b, tab1)
           | (Inl e, tab1) \<Rightarrow>
               (case AppendHubEvents wall fault2 batch tab1 of
                  (Inr seq, tab2) \<Rightarrow> (b, tab2)
                | (Inl e, tab2) \<Rightarrow> (b\<lparr>bb_dropped := bb_dropped b + length batch\<rparr>, tab2)))"

section \<open>Reading\<close>

definition memberTopic :: string where "memberTopic = ''hubcluster.member''"

definition deliver :: "HubNode \<Rightarrow> HubEventRow \<Rightarrow> HubBus \<Rightarrow> HubBus" where
  "deliver n row b =
     (if he_Origin row = mb_ID (nd_self n) then b
      else if he_Topic row = memberTopic then b\<lparr>bb_kick := True\<rparr>
      else
        let b = (if Member_of n (he_Origin row) = None then b\<lparr>bb_kick := True\<rparr> else b) in
        if he_Target row \<noteq> [] \<and> he_Target row \<noteq> mb_ID (nd_self n) then b
        else b\<lparr>bb_heard := bb_heard b @ [row], bb_delivered := bb_delivered b + 1\<rparr>)"

text \<open>One turn of the loop of \<open>poll\<close>, which touches the tables once; whether there is another.\<close>

definition poll_turn :: "HubNode \<Rightarrow> bool \<Rightarrow> bus_table \<Rightarrow> HubBus \<Rightarrow> bool \<times> HubBus" where
  "poll_turn n fault tab b =
     (case HubEventsAfter fault (bb_cursor b) busReadBatch tab of
        Inl e \<Rightarrow> (False, b)
      | Inr events \<Rightarrow>
          if events = [] then (False, b)
          else
            let b = (if he_Seq (hd events) > bb_cursor b + 1 \<and> bb_cursor b > 0
                     then b\<lparr>bb_gapCount := bb_gapCount b + 1\<rparr> else b);
                b = fold (deliver n) events b
            in (\<not> int (length events) < busReadBatch, b\<lparr>bb_cursor := he_Seq (last events)\<rparr>))"

definition unread :: "bus_table \<Rightarrow> HubBus \<Rightarrow> nat" where
  "unread tab b = length (filter (\<lambda>ev. bb_cursor b < he_Seq ev) (bt_rows tab))"

lemma deliver_simps [simp]:
  "bb_cursor (deliver n row b) = bb_cursor b" "bb_gapCount (deliver n row b) = bb_gapCount b"
  "bb_queue (deliver n row b) = bb_queue b"
  by (simp_all add: deliver_def Let_def)

lemma fold_deliver_simps [simp]:
  "bb_cursor (fold (deliver n) rows b) = bb_cursor b" "bb_gapCount (fold (deliver n) rows b) = bb_gapCount b"
  "bb_queue (fold (deliver n) rows b) = bb_queue b"
  by (induction rows arbitrary: b) simp_all

lemma HubEventsAfter_set:
  "HubEventsAfter fault after limit tab = Inr events \<Longrightarrow> he_Seq ` set events \<subseteq> he_Seq ` {ev \<in> set (bt_rows tab). after < he_Seq ev}"
  by (auto simp: HubEventsAfter_def Let_def split: if_splits dest!: in_set_takeD)

lemma poll_turn_reads:
  assumes "poll_turn n fault tab b = (True, b')"
  shows "unread tab b' < unread tab b"
proof -
  from assms obtain events where ev: "HubEventsAfter fault (bb_cursor b) busReadBatch tab = Inr events" "events \<noteq> []"
    and c: "bb_cursor b' = he_Seq (last events)"
    by (auto simp: poll_turn_def Let_def split: sum.splits if_splits)
  with HubEventsAfter_set [OF ev(1)] obtain r where r: "r \<in> set (bt_rows tab)" "bb_cursor b < he_Seq r" "he_Seq r = bb_cursor b'"
    by (metis (mono_tags, lifting) image_subset_iff image_iff last_in_set mem_Collect_eq)
  have "length (filter (\<lambda>ev. he_Seq r < he_Seq ev) rows) < length (filter (\<lambda>ev. bb_cursor b < he_Seq ev) rows)"
    if "r \<in> set rows" for rows
    using that
  proof (induction rows)
    case (Cons x xs)
    have "length (filter (\<lambda>ev. he_Seq r < he_Seq ev) xs) \<le> length (filter (\<lambda>ev. bb_cursor b < he_Seq ev) xs)"
      using r(2) by (induction xs) auto
    with Cons r(2) show ?case by auto
  qed simp
  from this [OF r(1)] show ?thesis by (simp add: unread_def r(3))
qed

function poll :: "HubNode \<Rightarrow> bus_table \<Rightarrow> HubBus \<Rightarrow> HubBus" where
  "poll n tab b = (let (more, b') = poll_turn n False tab b in if more then poll n tab b' else b')"
  by auto
termination
  by (relation "measure (\<lambda>(n, tab, b). unread tab b)") (auto simp: poll_turn_reads [OF sym])

declare poll.simps [simp del]

section \<open>The life of a member\<close>

record HubTables =
  ht_members :: members_table
  ht_bus :: bus_table
  ht_owners :: owners_table
  ht_seen :: seen_table

text \<open>Which statements of a call fail, the clock at its readings, and the statements other processes make
  on the members between its own: before a re-join, before the refresh, before the leader's pruning.\<close>

record beat_env =
  bn_beat :: time
  bn_rejoin :: time
  bn_refresh :: time
  bn_house :: time
  bn_alive :: "int \<Rightarrow> bool"
  bn_beat_fault :: bool
  bn_join_fault :: bool
  bn_list_fault :: bool
  bn_bus_fault :: bool
  bn_rows_fault :: bool
  bn_seen_fault :: bool
  bn_before_join :: "member_stmt list"
  bn_before_refresh :: "member_stmt list"
  bn_before_house :: "member_stmt list"

definition leaderHousekeeping :: "beat_env \<Rightarrow> HubNode \<Rightarrow> HubTables \<Rightarrow> HubTables" where
  "leaderHousekeeping env n t =
     (let now = bn_house env in
      t\<lparr>ht_bus := snd (PruneHubEvents (bn_bus_fault env) (now - co_BusRetention (nd_opts n)) (ht_bus t)),
        ht_members := snd (PruneHubMembers (bn_rows_fault env) (now - memberRowRetention) (ht_members t)),
        ht_seen := snd (PruneHubSeen (bn_seen_fault env) now (ht_seen t))\<rparr>)"

definition beat :: "beat_env \<Rightarrow> HubNode \<times> HubTables \<Rightarrow> HubNode \<times> HubTables" where
  "beat env s =
     (let (n, t) = s;
          (r, members) = HeartbeatHubMember (bn_beat env) (bn_beat_fault env) (mb_ID (nd_self n)) (bn_beat env) (ht_members t);
          t = t\<lparr>ht_members := member_run (bn_before_join env) members\<rparr>;
          (n, t) =
            (if r = Inr False
             then let n = n\<lparr>nd_fenced := nd_fenced n + 1, nd_self := (nd_self n)\<lparr>mb_HeartbeatAt := bn_rejoin env\<rparr>\<rparr>
                  in (n, t\<lparr>ht_members := snd (JoinHubMember (bn_rejoin env) (bn_join_fault env) (memberRow n) (ht_members t))\<rparr>)
             else (n, t));
          t = t\<lparr>ht_members := member_run (bn_before_refresh env) (ht_members t)\<rparr>;
          n = snd (refresh \<lparr>ce_now = bn_refresh env, ce_alive = bn_alive env, ce_fault = bn_list_fault env,
                            ce_members = ht_members t\<rparr> n)
      in if IsLeader n
         then (n, leaderHousekeeping env n (t\<lparr>ht_members := member_run (bn_before_house env) (ht_members t)\<rparr>))
         else (n, t))"

definition announce :: "time \<Rightarrow> bool \<Rightarrow> string \<Rightarrow> HubNode \<Rightarrow> bus_table \<Rightarrow> bus_table" where
  "announce now fault what n tab =
     snd (AppendHubEvents now fault
       [\<lparr>he_Seq = 0, he_Origin = mb_ID (nd_self n), he_Target = [], he_Topic = memberTopic, he_Key = what,
         he_Payload = ''null'', he_CreatedAt = now\<rparr>] tab)"

datatype cluster_error = LegacyHub HubLeaseRow duration duration | ClusterStore | MintFailed | PeerKeyFailed

text \<open>One look at the lease of a hub that may be from before clustering: the lease as read, as
  inspected a moment later, and the members.\<close>

record legacy_look =
  lk_fault :: bool
  lk_db :: lease_db
  lk_inspect :: lease_env
  lk_inspect_db :: lease_db
  lk_list_fault :: bool
  lk_members :: members_table
  lk_now :: time

definition refuseLegacyHolder :: "HubNode \<Rightarrow> legacy_look \<Rightarrow> cluster_error option" where
  "refuseLegacyHolder n lk =
     (if lk_fault lk then Some ClusterStore
      else case GetHubLease HubScope (lk_db lk) of
        None \<Rightarrow> None
      | Some row \<Rightarrow>
          if \<not> Held row then None
          else case Inspect \<lparr>op_Scope = [], op_Address = [], op_Version = [], op_TTL = co_LeaderTTL (nd_opts n),
                             op_Interval = 0, op_Identity = node_identity n, op_InstanceID = []\<rparr>
                       (lk_inspect lk) (lk_inspect_db lk) of
                 Inl e \<Rightarrow> Some ClusterStore
               | Inr st \<Rightarrow>
                   if \<not> st_Live st then None
                   else case ListHubMembers (lk_list_fault lk) (lk_members lk) of
                          Inl e \<Rightarrow> Some ClusterStore
                        | Inr rows \<Rightarrow>
                            if list_ex (\<lambda>m. mr_InstanceID m = lr_InstanceID row \<and> mr_LeftAt m = 0) rows then None
                            else Some (LegacyHub row (time_sub (lk_now lk) (lr_HeartbeatAt row)) (st_TTL st)))"

text \<open>The loop that waits for a holder that missed a renewal, over what it sees at each turn;
  \<open>None\<close> while it still waits after the last of them. The result is the verdict of \<open>Join\<close>.\<close>

definition missed_renewal :: "HubNode \<Rightarrow> duration" where
  "missed_renewal n =
     (let interval = or_default DefaultInterval (co_LeaderInterval (nd_opts n)) in interval + interval div 4)"

fun awaitLegacyHolder :: "HubNode \<Rightarrow> legacy_look list \<Rightarrow> cluster_error option option" where
  "awaitLegacyHolder n [] = None"
| "awaitLegacyHolder n (lk # lks) =
     (case refuseLegacyHolder n lk of
        Some (LegacyHub row age ttl) \<Rightarrow>
          if age \<le> missed_renewal n then Some (Some (LegacyHub row age ttl)) else awaitLegacyHolder n lks
      | r \<Rightarrow> Some r)"

record join_env =
  je_local :: Identity
  je_minted :: "string option"
  je_looks :: "legacy_look list"
  je_peer_key :: bool
  je_at :: time
  je_join_fault :: bool
  je_bus_fault :: bool
  je_leave_fault :: bool
  je_alive :: "int \<Rightarrow> bool"
  je_list_fault :: bool

definition joining_node :: "ClusterOptions \<Rightarrow> Identity \<Rightarrow> string \<Rightarrow> HubNode" where
  "joining_node opts local_id i =
     (let opts = join_options opts;
          ident = (let d = co_Identity opts in
                   if id_Hostname d = [] \<and> id_PID d = 0 \<and> id_BootID d = [] then local_id else d)
      in \<lparr>nd_opts = opts,
          nd_self = unknown_member\<lparr>mb_ID := i, mb_Hostname := id_Hostname ident, mb_PID := id_PID ident,
            mb_BootID := id_BootID ident, mb_Address := co_Address opts,
            mb_AdvertiseURL := rev (dropWhile (\<lambda>c. c = CHR ''/'') (rev (trim_space (co_AdvertiseURL opts)))),
            mb_Version := co_Version opts, mb_Self := True, mb_Alive := True\<rparr>,
          nd_members = [], nd_fenced = 0, nd_closed = False, nd_probes = [], nd_lease = None, nd_holder = [],
          nd_legacyWarned = False, nd_terms = 0\<rparr>)"

text \<open>\<open>None\<close> while the call has not returned. A member whose bus cannot be read leaves again.\<close>

definition Join :: "ClusterOptions \<Rightarrow> join_env \<Rightarrow> HubTables \<Rightarrow> ((cluster_error + HubNode \<times> HubBus) \<times> HubTables) option" where
  "Join opts env t =
     (let given = trim_space (co_InstanceID opts) in
      case (if given = [] then je_minted env else Some given) of
        None \<Rightarrow> Some (Inl MintFailed, t)
      | Some i \<Rightarrow>
          let n = joining_node opts (je_local env) i in
          case awaitLegacyHolder n (je_looks env) of
            None \<Rightarrow> None
          | Some (Some e) \<Rightarrow> Some (Inl e, t)
          | Some None \<Rightarrow>
              if \<not> je_peer_key env then Some (Inl PeerKeyFailed, t)
              else
                let n = n\<lparr>nd_self := (nd_self n)\<lparr>mb_StartedAt := je_at env, mb_HeartbeatAt := je_at env\<rparr>\<rparr> in
                case JoinHubMember (je_at env) (je_join_fault env) (memberRow n) (ht_members t) of
                  (Inl e, members) \<Rightarrow> Some (Inl ClusterStore, t\<lparr>ht_members := members\<rparr>)
                | (Inr _, members) \<Rightarrow>
                    (case bus_init (je_bus_fault env) (ht_bus t) newBus of
                       (Inl e, b) \<Rightarrow>
                         Some (Inl ClusterStore,
                               t\<lparr>ht_members := snd (LeaveHubMember (je_at env) (je_leave_fault env) i (je_at env) members)\<rparr>)
                     | (Inr _, b) \<Rightarrow>
                         Some (Inr (snd (refresh \<lparr>ce_now = je_at env, ce_alive = je_alive env, ce_fault = je_list_fault env,
                                                  ce_members = members\<rparr> n), b),
                               t\<lparr>ht_members := members\<rparr>)))"

text \<open>\<open>Close\<close>: leadership is given up, what is queued is written, the row is marked left, and the
  others are told if that worked.\<close>

definition Close ::
    "time \<Rightarrow> bool \<Rightarrow> bool \<Rightarrow> bool \<Rightarrow> bool \<Rightarrow> bool \<Rightarrow> HubNode \<times> HubBus \<times> HubTables \<times> lease_db \<Rightarrow>
     (hub_error + unit) \<times> HubNode \<times> HubBus \<times> HubTables \<times> lease_db" where
  "Close now lease_fault flush_fault flush_fault2 leave_fault announce_fault s =
     (let (n, b, t, db) = s in
      if nd_closed n then (Inr (), s)
      else
        let (n, db) = stepDown now lease_fault (n\<lparr>nd_closed := True\<rparr>, db);
            (b, bus) = flush now flush_fault flush_fault2 (b, ht_bus t);
            (r, members) = LeaveHubMember now leave_fault (mb_ID (nd_self n)) now (ht_members t);
            bus = (if r = Inr () then announce now announce_fault ''left'' n bus else bus)
        in (r, n, b, t\<lparr>ht_bus := bus, ht_members := members\<rparr>, db))"

section \<open>Sample members\<close>

text \<open>A member that joins with every option left at its default.\<close>

definition plain_options :: ClusterOptions where
  "plain_options = \<lparr>co_Address = '':8080'', co_AdvertiseURL = [], co_Version = [], co_Heartbeat = 0,
     co_MemberTTL = 0, co_BusPoll = 0, co_BusFlush = 0, co_BusRetention = 0, co_Campaign = 0, co_LeaderTTL = 0,
     co_LeaderInterval = 0, co_ProbeInterval = 0, co_ProbeTimeout = 0, co_UnresponsiveAfter = 0,
     co_Identity = \<lparr>id_Hostname = [], id_PID = 0, id_BootID = []\<rparr>, co_InstanceID = []\<rparr>"

definition plain_node :: "string \<Rightarrow> HubNode" where
  "plain_node i = joining_node plain_options \<lparr>id_Hostname = ''host'', id_PID = 42, id_BootID = ''boot''\<rparr> i"

end
