(* ===== verification/HubDelivery.thy ===== *)
theory HubDelivery
  imports HubBus "HOL-Library.Sublist"
begin

text \<open>
  What the bus of pkg/hubcluster/bus.go promises a reader: no event twice or out of order, and none
  lost without word. The writers and the pruning leader are arbitrary actions on the table, in any
  interleaving with the turns of one reader's loop.
\<close>

section \<open>The system\<close>

datatype bus_act = Write time bool "HubEventRow list" | Prune bool time | Turn bool

fun bus_do :: "HubNode \<Rightarrow> bus_act \<Rightarrow> bus_table \<times> HubBus \<Rightarrow> bus_table \<times> HubBus" where
  "bus_do n (Write wall fault events) (tab, b) = (snd (AppendHubEvents wall fault events tab), b)"
| "bus_do n (Prune fault cutoff) (tab, b) = (snd (PruneHubEvents fault cutoff tab), b)"
| "bus_do n (Turn fault) (tab, b) = (tab, snd (poll_turn n fault tab b))"

definition bus_run :: "HubNode \<Rightarrow> bus_act list \<Rightarrow> bus_table \<times> HubBus \<Rightarrow> bus_table \<times> HubBus" where
  "bus_run n acts s = fold (bus_do n) acts s"

text \<open>The rows the writers appended, from a highest number issued on.\<close>

fun appended :: "int \<Rightarrow> bus_act list \<Rightarrow> HubEventRow list" where
  "appended k [] = []"
| "appended k (Write wall fault events # acts) =
     (if fault then appended k acts
      else number_events wall k events @ appended (k + int (length events)) acts)"
| "appended k (a # acts) = appended k acts"

definition as_read :: "HubEventRow \<Rightarrow> HubEventRow" where
  "as_read r = r\<lparr>he_CreatedAt := fromUnixMillis (he_CreatedAt r)\<rparr>"

definition addressed :: "HubNode \<Rightarrow> HubEventRow \<Rightarrow> bool" where
  "addressed n r \<longleftrightarrow> he_Origin r \<noteq> mb_ID (nd_self n) \<and> he_Topic r \<noteq> memberTopic \<and>
     (he_Target r = [] \<or> he_Target r = mb_ID (nd_self n))"

definition empty_bus :: bus_table where
  "empty_bus = \<lparr>bt_rows = [], bt_issued = 0\<rparr>"

text \<open>A member that joins after other events: its table and its bus.\<close>

definition joined_bus :: "HubNode \<Rightarrow> bus_act list \<Rightarrow> bus_table \<times> HubBus" where
  "joined_bus n prior =
     (let tab = fst (bus_run n prior (empty_bus, newBus)) in (tab, snd (bus_init False tab newBus)))"

section \<open>Numbers\<close>

lemma number_events_simps [simp]:
  "length (number_events wall k evs) = length evs"
  "map he_Seq (number_events wall k evs) = [k + 1..k + int (length evs)]"
proof -
  show "length (number_events wall k evs) = length evs" by (induction evs arbitrary: k) simp_all
  show "map he_Seq (number_events wall k evs) = [k + 1..k + int (length evs)]"
    by (induction evs arbitrary: k) (simp_all add: upto_rec1 algebra_simps)
qed

lemma number_events_empty [simp]: "number_events wall k evs = [] \<longleftrightarrow> evs = []"
  by (cases evs) simp_all

lemma AppendHubEvents_table: "snd (AppendHubEvents wall fault evs tab) =
    (if fault then tab else \<lparr>bt_rows = bt_rows tab @ number_events wall (bt_issued tab) evs, bt_issued = bt_issued tab + int (length evs)\<rparr>)"
  by (simp add: AppendHubEvents_def Let_def)

lemma PruneHubEvents_table: "snd (PruneHubEvents fault cutoff tab) =
    (if fault then tab else tab\<lparr>bt_rows := filter (\<lambda>ev. \<not> he_CreatedAt ev < unixMillis cutoff) (bt_rows tab)\<rparr>)"
  by (simp add: PruneHubEvents_def Let_def)

text \<open>A table as the database keeps it: numbers ascend and none is above the highest issued.\<close>

definition wf_bus :: "bus_table \<Rightarrow> bool" where
  "wf_bus tab \<longleftrightarrow> sorted_wrt (<) (map he_Seq (bt_rows tab)) \<and> (\<forall>r \<in> set (bt_rows tab). he_Seq r \<le> bt_issued tab) \<and> 0 \<le> bt_issued tab"

lemma sorted_upto: "sorted_wrt (<) [i..j::int]"
  by (induction i j rule: upto.induct) (subst upto.simps, simp)

lemma number_events_range: "r \<in> set (number_events wall k evs) \<Longrightarrow> k < he_Seq r \<and> he_Seq r \<le> k + int (length evs)"
  by (induction evs arbitrary: k) fastforce+

lemma wf_bus_do: "wf_bus tab \<Longrightarrow> wf_bus (fst (bus_do n a (tab, b)))"
proof (cases a)
  case (Write wall fault evs)
  assume wf: "wf_bus tab"
  have "sorted_wrt (<) (map he_Seq (bt_rows tab @ number_events wall (bt_issued tab) evs))"
    using wf by (auto simp: wf_bus_def sorted_wrt_append sorted_upto simp del: number_events.simps)
  moreover have "\<forall>r \<in> set (bt_rows tab @ number_events wall (bt_issued tab) evs). he_Seq r \<le> bt_issued tab + int (length evs)"
    using wf number_events_range by (fastforce simp: wf_bus_def)
  ultimately show ?thesis using wf Write by (simp add: wf_bus_def AppendHubEvents_table del: set_append)
qed (auto simp: wf_bus_def PruneHubEvents_table sorted_wrt_map sorted_wrt_filter)

lemma wf_bus_run: "wf_bus tab \<Longrightarrow> wf_bus (fst (bus_run n acts (tab, b)))"
proof (induction acts arbitrary: tab b)
  case (Cons a acts)
  obtain tab' b' where "bus_do n a (tab, b) = (tab', b')" by fastforce
  with Cons wf_bus_do [OF Cons.prems, of n a b] show ?case by (simp add: bus_run_def)
qed (simp add: bus_run_def)

lemma joined_bus_start:
  assumes "joined_bus n prior = (tab, b)"
  shows "wf_bus tab" "bb_cursor b = bt_issued tab" "bb_heard b = []" "bb_gapCount b = 0"
proof -
  have e: "wf_bus empty_bus" by (simp add: wf_bus_def empty_bus_def)
  from assms have tab: "tab = fst (bus_run n prior (empty_bus, newBus))" and b: "b = snd (bus_init False tab newBus)"
    by (auto simp: joined_bus_def Let_def)
  show wf: "wf_bus tab" unfolding tab by (rule wf_bus_run [OF e])
  have top: "\<not> bt_issued tab < Max (he_Seq ` set (bt_rows tab))" if "bt_rows tab \<noteq> []"
    using wf that by (simp add: wf_bus_def not_less)
  show "bb_cursor b = bt_issued tab" "bb_heard b = []" "bb_gapCount b = 0"
    using wf by (cases "bt_rows tab = []"; simp add: b bus_init_def HubEventBounds_def newBus_def Let_def wf_bus_def top)+
qed

section \<open>What a turn reads\<close>

lemma wf_sorted: "wf_bus tab \<Longrightarrow> sorted_wrt (<) (map he_Seq (filter P (bt_rows tab)))"
  by (simp add: wf_bus_def sorted_wrt_map sorted_wrt_filter)

text \<open>The rows a turn finds.\<close>

definition turn_rows :: "bus_table \<Rightarrow> int \<Rightarrow> HubEventRow list" where
  "turn_rows tab cursor = take 512 (filter (\<lambda>ev. cursor < he_Seq ev) (bt_rows tab))"

lemma HubEventsAfter_wf:
  assumes "wf_bus tab"
  shows "HubEventsAfter False after busReadBatch tab = Inr (map as_read (turn_rows tab after))"
proof -
  have "sorted (map he_Seq (filter (\<lambda>ev. after < he_Seq ev) (bt_rows tab)))"
    using wf_sorted [OF assms] by (rule strict_sorted_imp_sorted)
  then show ?thesis by (simp add: HubEventsAfter_def busReadBatch_def as_read_def [abs_def] sort_key_id_if_sorted turn_rows_def)
qed

lemma deliver_heard: "bb_heard (deliver n r b) = bb_heard b @ (if addressed n r then [r] else [])"
  by (auto simp: deliver_def addressed_def Let_def)

lemma fold_deliver_heard: "bb_heard (fold (deliver n) rs b) = bb_heard b @ filter (addressed n) rs"
  by (induction rs arbitrary: b) (simp_all add: deliver_heard)

lemma as_read_simps [simp]:
  "he_Seq (as_read r) = he_Seq r" "addressed n (as_read r) = addressed n r"
  by (simp_all add: as_read_def addressed_def)

lemma filter_as_read: "filter (addressed n) (map as_read rs) = map as_read (filter (addressed n) rs)"
  by (simp add: filter_map o_def)

lemma poll_turn_fault: "poll_turn n True tab b = (False, b)"
  by (simp add: poll_turn_def HubEventsAfter_def)

lemma poll_turn_empty: "wf_bus tab \<Longrightarrow> turn_rows tab (bb_cursor b) = [] \<Longrightarrow> poll_turn n False tab b = (False, b)"
  by (simp add: poll_turn_def HubEventsAfter_wf)

lemma batch_bound: "int k < busReadBatch \<longleftrightarrow> k < 512"
  by (simp add: busReadBatch_def)

lemma poll_turn_some:
  assumes "wf_bus tab" "turn_rows tab (bb_cursor b) = es" "es \<noteq> []"
  shows "fst (poll_turn n False tab b) = (512 \<le> length es)"
    "bb_cursor (snd (poll_turn n False tab b)) = he_Seq (last es)"
    "bb_heard (snd (poll_turn n False tab b)) = bb_heard b @ map as_read (filter (addressed n) es)"
    "bb_gapCount (snd (poll_turn n False tab b)) =
       bb_gapCount b + (if he_Seq (hd es) > bb_cursor b + 1 \<and> bb_cursor b > 0 then 1 else 0)"
  using assms(3) HubEventsAfter_wf [OF assms(1), of "bb_cursor b"] assms(2)
  by (auto simp: poll_turn_def Let_def batch_bound fold_deliver_heard filter_as_read hd_map last_map)

text \<open>A sorted list splits at a value: what is taken of it up to its last is what is not above it.\<close>

lemma take_by_seq:
  assumes "sorted_wrt (<) (map he_Seq xs)" "take k xs \<noteq> []"
  shows "take k xs = filter (\<lambda>r. he_Seq r \<le> he_Seq (last (take k xs))) xs"
proof -
  let ?l = "he_Seq (last (take k xs))"
  have s: "sorted_wrt (\<lambda>a b. he_Seq a < he_Seq b) (take k xs @ drop k xs)" using assms(1) by (simp add: sorted_wrt_map)
  have t: "take k xs = butlast (take k xs) @ [last (take k xs)]" using assms(2) by (simp del: take_eq_Nil)
  have "\<forall>r \<in> set (take k xs). he_Seq r \<le> ?l"
    using s by (subst (asm) t, subst t) (auto simp: sorted_wrt_append intro: less_imp_le)
  moreover have "\<forall>r \<in> set (drop k xs). ?l < he_Seq r"
    using s last_in_set [OF assms(2)] by (simp only: sorted_wrt_append) blast
  ultimately have "filter (\<lambda>r. he_Seq r \<le> ?l) (take k xs @ drop k xs) = take k xs"
    by (simp only: filter_append) (auto simp: filter_empty_conv not_le)
  then show ?thesis by simp
qed

section \<open>Never twice, never out of order\<close>

definition heard_inv :: "HubNode \<Rightarrow> int \<Rightarrow> HubEventRow list \<Rightarrow> bus_table \<Rightarrow> HubBus \<Rightarrow> bool" where
  "heard_inv n base H tab b \<longleftrightarrow>
     wf_bus tab \<and> map he_Seq H = [base + 1..bt_issued tab] \<and> base \<le> bb_cursor b \<and> bb_cursor b \<le> bt_issued tab \<and>
     subseq (filter (\<lambda>r. base < he_Seq r) (bt_rows tab)) H \<and>
     subseq (bb_heard b) (map as_read (filter (addressed n) (filter (\<lambda>r. he_Seq r \<le> bb_cursor b) H)))"

lemma H_sorted: "map he_Seq H = [i..j] \<Longrightarrow> sorted_wrt (\<lambda>a b. he_Seq a < he_Seq b) H"
  using sorted_upto [of i j] by (simp add: sorted_wrt_map [symmetric])

lemma split_seq:
  assumes "sorted_wrt (\<lambda>a b. he_Seq a < he_Seq b) H" "c \<le> c'"
  shows "filter (\<lambda>r. he_Seq r \<le> c') H = filter (\<lambda>r. he_Seq r \<le> c) H @ filter (\<lambda>r. c < he_Seq r \<and> he_Seq r \<le> c') H"
  using assms
proof (induction H)
  case (Cons x H)
  show ?case
  proof (cases "he_Seq x \<le> c")
    case False
    then have "filter (\<lambda>r. he_Seq r \<le> c) H = []" using Cons.prems by (fastforce simp: filter_empty_conv)
    with False Cons show ?thesis by simp
  qed (use Cons in auto)
qed simp

lemma upto_append: "i \<le> j + 1 \<Longrightarrow> j \<le> k \<Longrightarrow> [i..j] @ [j + 1..k] = [i..(k::int)]"
  by (cases "i \<le> j") (auto simp: upto_split2 [of i j k] intro: arg_cong [of _ _ "\<lambda>i. [i..k]"])

text \<open>A turn that finds rows: what it reads lies between the old cursor and the new one.\<close>

lemma turn_rows_between:
  assumes "wf_bus tab" "turn_rows tab c = es" "es \<noteq> []" "base \<le> c"
  shows "es = filter (\<lambda>r. c < he_Seq r \<and> he_Seq r \<le> he_Seq (last es)) (filter (\<lambda>r. base < he_Seq r) (bt_rows tab))"
    "c < he_Seq (hd es)" "he_Seq (hd es) \<le> he_Seq (last es)" "set es \<subseteq> set (bt_rows tab)"
proof -
  let ?rest = "filter (\<lambda>r. c < he_Seq r) (bt_rows tab)"
  have es: "es = take 512 ?rest" "take 512 ?rest \<noteq> []" using assms(2,3) by (auto simp: turn_rows_def)
  from take_by_seq [OF wf_sorted [OF assms(1)] es(2)] es(1)
  have "es = filter (\<lambda>r. he_Seq r \<le> he_Seq (last es)) ?rest" by simp
  also have "\<dots> = filter (\<lambda>r. c < he_Seq r \<and> he_Seq r \<le> he_Seq (last es)) (filter (\<lambda>r. base < he_Seq r) (bt_rows tab))"
    using assms(4) by (auto intro: filter_cong)
  finally show eq: "es = filter (\<lambda>r. c < he_Seq r \<and> he_Seq r \<le> he_Seq (last es)) (filter (\<lambda>r. base < he_Seq r) (bt_rows tab))" .
  from arg_cong [OF eq, of set]
  have in_es: "r \<in> set es \<Longrightarrow> c < he_Seq r \<and> he_Seq r \<le> he_Seq (last es) \<and> r \<in> set (bt_rows tab)" for r by auto
  then show "set es \<subseteq> set (bt_rows tab)" by blast
  show "c < he_Seq (hd es)" "he_Seq (hd es) \<le> he_Seq (last es)" using in_es [OF hd_in_set [OF assms(3)]] by simp_all
qed

lemma heard_inv_turn:
  assumes "heard_inv n base H tab b"
  shows "heard_inv n base H tab (snd (poll_turn n fault tab b))"
proof (cases "fault \<or> turn_rows tab (bb_cursor b) = []")
  case True
  then show ?thesis using assms by (cases fault) (auto simp: poll_turn_fault poll_turn_empty heard_inv_def)
next
  case False
  define es where "es = turn_rows tab (bb_cursor b)"
  let ?c = "bb_cursor b" and ?c' = "he_Seq (last es)"
  have inv: "wf_bus tab" "map he_Seq H = [base + 1..bt_issued tab]" "base \<le> ?c"
    "subseq (filter (\<lambda>r. base < he_Seq r) (bt_rows tab)) H"
    "subseq (bb_heard b) (map as_read (filter (addressed n) (filter (\<lambda>r. he_Seq r \<le> ?c) H)))"
    using assms by (auto simp: heard_inv_def)
  have ne: "es \<noteq> []" using False es_def by simp
  note turn = poll_turn_some [OF inv(1) es_def [symmetric] ne, of n]
  note btw = turn_rows_between [OF inv(1) es_def [symmetric] ne inv(3)]
  have le: "?c \<le> ?c'" using btw by simp
  have "subseq es (filter (\<lambda>r. ?c < he_Seq r \<and> he_Seq r \<le> ?c') H)"
    by (subst btw(1)) (rule subseq_filter [OF inv(4)])
  then have "subseq (map as_read (filter (addressed n) es))
      (map as_read (filter (addressed n) (filter (\<lambda>r. ?c < he_Seq r \<and> he_Seq r \<le> ?c') H)))"
    by (intro subseq_map subseq_filter)
  then have "subseq (bb_heard b @ map as_read (filter (addressed n) es))
      (map as_read (filter (addressed n) (filter (\<lambda>r. he_Seq r \<le> ?c') H)))"
    unfolding split_seq [OF H_sorted [OF inv(2)] le] using inv(5) by (simp add: list_emb_append_mono)
  moreover have "last es \<in> set (bt_rows tab)" using btw(4) last_in_set [OF ne] by blast
  then have "?c' \<le> bt_issued tab" using inv(1) by (simp add: wf_bus_def)
  moreover have "base \<le> ?c'" using inv(3) le by simp
  ultimately show ?thesis using False turn(2,3) inv(1,2,4) by (simp add: heard_inv_def)
qed

lemma heard_inv_write:
  assumes "heard_inv n base H tab b"
  shows "heard_inv n base (H @ number_events wall (bt_issued tab) evs)
    \<lparr>bt_rows = bt_rows tab @ number_events wall (bt_issued tab) evs, bt_issued = bt_issued tab + int (length evs)\<rparr> b"
proof -
  let ?new = "number_events wall (bt_issued tab) evs"
  have inv: "wf_bus tab" "map he_Seq H = [base + 1..bt_issued tab]" "base \<le> bb_cursor b" "bb_cursor b \<le> bt_issued tab"
    "subseq (filter (\<lambda>r. base < he_Seq r) (bt_rows tab)) H"
    "subseq (bb_heard b) (map as_read (filter (addressed n) (filter (\<lambda>r. he_Seq r \<le> bb_cursor b) H)))"
    using assms by (auto simp: heard_inv_def)
  have new: "\<And>r. r \<in> set ?new \<Longrightarrow> bt_issued tab < he_Seq r" by (drule number_events_range) simp
  have "wf_bus \<lparr>bt_rows = bt_rows tab @ ?new, bt_issued = bt_issued tab + int (length evs)\<rparr>"
    using wf_bus_do [OF inv(1), of n "Write wall False evs" b] by (simp add: AppendHubEvents_table)
  moreover have "map he_Seq (H @ ?new) = [base + 1..bt_issued tab + int (length evs)]"
    using inv(2-4) by (simp add: upto_append)
  moreover have "filter (\<lambda>r. base < he_Seq r) ?new = ?new" using new inv(3,4) by (fastforce simp: filter_id_conv)
  moreover have "filter (\<lambda>r. he_Seq r \<le> bb_cursor b) ?new = []" using new inv(4) by (fastforce simp: filter_empty_conv)
  ultimately show ?thesis using inv by (simp add: heard_inv_def list_emb_append_mono)
qed

lemma heard_inv_prune:
  assumes "heard_inv n base H tab b"
  shows "heard_inv n base H (tab\<lparr>bt_rows := filter P (bt_rows tab)\<rparr>) b"
proof -
  have "filter (\<lambda>r. base < he_Seq r) (filter P (bt_rows tab)) = filter P (filter (\<lambda>r. base < he_Seq r) (bt_rows tab))"
    by (simp add: conj_commute)
  moreover have "subseq (filter P (filter (\<lambda>r. base < he_Seq r) (bt_rows tab))) H"
    using assms subseq_order.trans [OF subseq_filter_left] by (auto simp: heard_inv_def simp del: filter_filter)
  ultimately show ?thesis using assms by (simp add: heard_inv_def wf_bus_def sorted_wrt_map sorted_wrt_filter del: filter_filter)
qed

lemma heard_inv_do:
  assumes "heard_inv n base H tab b"
  shows "heard_inv n base (H @ appended (bt_issued tab) [a]) (fst (bus_do n a (tab, b))) (snd (bus_do n a (tab, b)))"
  using assms heard_inv_turn [OF assms] heard_inv_write [OF assms] heard_inv_prune [OF assms]
  by (cases a) (auto simp: AppendHubEvents_table PruneHubEvents_table)

lemma appended_issued:
  "appended k (a # acts) = appended k [a] @ appended (k + int (length (appended k [a]))) acts"
  by (cases a) auto

lemma issued_do: "bt_issued (fst (bus_do n a (tab, b))) = bt_issued tab + int (length (appended (bt_issued tab) [a]))"
  by (cases a) (auto simp: AppendHubEvents_table PruneHubEvents_table)

text \<open>An invariant every action keeps holds after a run.\<close>

lemma bus_run_keeps:
  assumes "I H tab b"
    and "\<And>H tab b a. I H tab b \<Longrightarrow> Q (H @ appended (bt_issued tab) [a]) \<Longrightarrow>
      I (H @ appended (bt_issued tab) [a]) (fst (bus_do n a (tab, b))) (snd (bus_do n a (tab, b)))"
    and "\<And>H H'. Q (H @ H') \<Longrightarrow> Q H" and "Q (H @ appended (bt_issued tab) acts)"
  shows "I (H @ appended (bt_issued tab) acts) (fst (bus_run n acts (tab, b))) (snd (bus_run n acts (tab, b)))"
  using assms(1,4)
proof (induction acts arbitrary: H tab b)
  case (Cons a acts)
  obtain tab' b' where step: "bus_do n a (tab, b) = (tab', b')" by fastforce
  have split: "appended (bt_issued tab) (a # acts) = appended (bt_issued tab) [a] @ appended (bt_issued tab') acts"
    using appended_issued [of "bt_issued tab" a acts] issued_do [of n a tab b] step by simp
  have "Q (H @ appended (bt_issued tab) [a])" using Cons.prems(2) assms(3) by (simp only: split append_assoc [symmetric])
  with assms(2) [OF Cons.prems(1)] step
  have "I (H @ appended (bt_issued tab) [a]) tab' b'" by (metis fst_conv snd_conv)
  from Cons.IH [OF this] Cons.prems(2) step show ?case by (simp only: split append_assoc bus_run_def fold_simps o_apply)
qed (simp add: bus_run_def)

lemma poll_keeps:
  assumes "P b" and "\<And>b. P b \<Longrightarrow> P (snd (poll_turn n False tab b))"
  shows "P (poll n tab b)"
  using assms
proof (induction n tab b rule: poll.induct)
  case (1 n tab b)
  obtain more b' where t: "poll_turn n False tab b = (more, b')" by fastforce
  have "P b'" using 1(3) [OF 1(2)] t by simp
  with 1 t show ?case by (subst poll.simps) simp
qed

text \<open>A turn that is the last of its poll leaves nothing unread.\<close>

lemma poll_reads_all: "wf_bus tab \<Longrightarrow> unread tab (poll n tab b) = 0"
proof (induction n tab b rule: poll.induct)
  case (1 n tab b)
  obtain more b' where t: "poll_turn n False tab b = (more, b')" by fastforce
  show ?case
  proof (cases more)
    case True
    with 1 t show ?thesis by (subst poll.simps) simp
  next
    case False
    let ?es = "turn_rows tab (bb_cursor b)"
    let ?rest = "filter (\<lambda>ev. bb_cursor b < he_Seq ev) (bt_rows tab)"
    have "unread tab b' = 0"
    proof (cases "?es = []")
      case True
      with poll_turn_empty [OF 1(2)] t show ?thesis by (simp add: turn_rows_def unread_def)
    next
      case ne: False
      note turn = poll_turn_some [OF 1(2) refl ne, of n]
      have "length ?es < 512" using turn(1) t \<open>\<not> more\<close> by (simp add: not_le)
      then have "?es = ?rest" unfolding turn_rows_def by (metis length_take min_less_iff_conj nat_neq_iff order.strict_implies_order take_all)
      moreover have "bb_cursor b' = he_Seq (last ?es)" using turn(2) t by simp
      ultimately have "filter (\<lambda>r. he_Seq r \<le> bb_cursor b') ?rest = ?rest"
        using take_by_seq [OF wf_sorted [OF 1(2)], of 512] ne by (metis turn_rows_def)
      then have "\<And>r. r \<in> set (bt_rows tab) \<Longrightarrow> bb_cursor b < he_Seq r \<Longrightarrow> he_Seq r \<le> bb_cursor b'"
        by (simp only: filter_id_conv) auto
      moreover have "bb_cursor b < bb_cursor b'"
        using turn_rows_between(2,3) [OF 1(2) refl ne order.refl] turn(2) t by simp
      ultimately show ?thesis by (fastforce simp: unread_def filter_empty_conv)
    qed
    with False t show ?thesis by (subst poll.simps) simp
  qed
qed

lemma heard_inv_start:
  assumes "joined_bus n prior = (tab, b)"
  shows "heard_inv n (bt_issued tab) [] tab b"
  using joined_bus_start [OF assms] by (auto simp: heard_inv_def wf_bus_def filter_empty_conv not_less)

lemma subseq_sorted_wrt: "subseq xs ys \<Longrightarrow> sorted_wrt P ys \<Longrightarrow> sorted_wrt P xs"
  by (induction rule: list_emb.induct) (auto dest: list_emb_set)

text \<open>Whatever the writers append, the leader prunes and the reader polls, in any interleaving and
  with any failures, what a member has heard since it joined is a subsequence of what was appended
  since, in the order of the numbers and without repetition, and only events of other members that
  are addressed to it or to all.
\<close>

theorem bus_never_repeats:
  "(case joined_bus n prior of (tab, b) \<Rightarrow>
      subseq (bb_heard (snd (bus_run n acts (tab, b)))) (map as_read (filter (addressed n) (appended (bt_issued tab) acts))) \<and>
      sorted_wrt (<) (map he_Seq (bb_heard (snd (bus_run n acts (tab, b))))))"
proof -
  obtain tab b where j: "joined_bus n prior = (tab, b)" by fastforce
  let ?H = "appended (bt_issued tab) acts" and ?b = "snd (bus_run n acts (tab, b))"
  have "heard_inv n (bt_issued tab) ([] @ ?H) (fst (bus_run n acts (tab, b))) ?b"
    by (rule bus_run_keeps [where Q = "\<lambda>H. True"]) (simp_all add: heard_inv_start [OF j] heard_inv_do)
  then have sub: "subseq (bb_heard ?b) (map as_read (filter (addressed n) (filter (\<lambda>r. he_Seq r \<le> bb_cursor ?b) ?H)))"
    and H: "sorted_wrt (\<lambda>a b. he_Seq a < he_Seq b) ?H" by (auto simp: heard_inv_def dest: H_sorted)
  from sub have "subseq (bb_heard ?b) (map as_read (filter (addressed n) ?H))"
    by (rule subseq_order.trans) (intro subseq_map subseq_filter subseq_filter_left)
  moreover have "sorted_wrt (<) (map he_Seq (map as_read (filter (addressed n) ?H)))"
    using H by (simp add: sorted_wrt_map sorted_wrt_filter)
  ultimately show ?thesis using j by (auto simp: sorted_wrt_map intro: subseq_sorted_wrt)
qed

section \<open>No loss without word\<close>

text \<open>Where events were stamped in the order of their numbers, pruning takes the oldest.\<close>

lemma filter_sorted_suffix:
  assumes "sorted (map f xs)"
  shows "suffix (filter (\<lambda>x. \<not> f x < (c :: int)) xs) xs"
  using assms
proof (induction xs)
  case (Cons x xs)
  show ?case
  proof (cases "f x < c")
    case True
    with Cons show ?thesis by (auto intro: suffix_ConsI)
  next
    case False
    then have "filter (\<lambda>x. \<not> f x < c) (x # xs) = x # xs" using Cons.prems by (fastforce simp: filter_id_conv)
    then show ?thesis by simp
  qed
qed simp

lemma sorted_suffix_map: "suffix xs ys \<Longrightarrow> sorted (map f ys) \<Longrightarrow> sorted (map f xs)"
  by (auto simp: suffix_def sorted_append)

definition exact_inv :: "HubNode \<Rightarrow> int \<Rightarrow> HubEventRow list \<Rightarrow> bus_table \<Rightarrow> HubBus \<Rightarrow> bool" where
  "exact_inv n base H tab b \<longleftrightarrow>
     heard_inv n base H tab b \<and> suffix (filter (\<lambda>r. base < he_Seq r) (bt_rows tab)) H \<and>
     (bb_gapCount b = 0 \<longrightarrow> bb_heard b = map as_read (filter (addressed n) (filter (\<lambda>r. he_Seq r \<le> bb_cursor b) H)))"

lemma exact_inv_turn:
  assumes "exact_inv n base H tab b" "0 < base"
  shows "exact_inv n base H tab (snd (poll_turn n fault tab b))"
proof (cases "fault \<or> turn_rows tab (bb_cursor b) = []")
  case True
  then show ?thesis using assms by (cases fault) (auto simp: poll_turn_fault poll_turn_empty exact_inv_def heard_inv_def)
next
  case False
  define es where "es = turn_rows tab (bb_cursor b)"
  let ?c = "bb_cursor b" and ?c' = "he_Seq (last es)" and ?b' = "snd (poll_turn n False tab b)"
  let ?tail = "filter (\<lambda>r. base < he_Seq r) (bt_rows tab)"
  have inv: "heard_inv n base H tab b" "wf_bus tab" "map he_Seq H = [base + 1..bt_issued tab]" "base \<le> ?c" "suffix ?tail H"
    using assms by (auto simp: exact_inv_def heard_inv_def)
  have ne: "es \<noteq> []" using False es_def by simp
  note turn = poll_turn_some [OF inv(2) es_def [symmetric] ne, of n]
  note btw = turn_rows_between [OF inv(2) es_def [symmetric] ne inv(4)]
  have "bb_heard ?b' = map as_read (filter (addressed n) (filter (\<lambda>r. he_Seq r \<le> bb_cursor ?b') H))" if g: "bb_gapCount ?b' = 0"
  proof -
    from g turn(4) have g0: "bb_gapCount b = 0" and first: "he_Seq (hd es) \<le> ?c + 1"
      using assms(2) inv(4) by (auto split: if_splits)
    obtain pre where H: "H = pre @ ?tail" using inv(5) by (auto simp: suffix_def)
    have "hd es \<in> set ?tail" using hd_in_set [OF ne] arg_cong [OF btw(1), of set] by auto
    then have "\<forall>r \<in> set pre. he_Seq r < he_Seq (hd es)"
      using H_sorted [OF inv(3)] by (subst (asm) H) (simp only: sorted_wrt_append, blast)
    then have "filter (\<lambda>r. ?c < he_Seq r \<and> he_Seq r \<le> ?c') pre = []"
      using first by (fastforce simp: filter_empty_conv)
    then have "es = filter (\<lambda>r. ?c < he_Seq r \<and> he_Seq r \<le> ?c') H"
      by (subst btw(1), subst H) (simp only: filter_append append_Nil)
    then show ?thesis
      using assms(1) g0 turn(2,3) split_seq [OF H_sorted [OF inv(3)], of ?c ?c'] btw(2,3) by (simp add: exact_inv_def)
  qed
  with False heard_inv_turn [OF inv(1), of False] inv(5) show ?thesis by (simp add: exact_inv_def)
qed

lemma exact_inv_do:
  assumes "exact_inv n base H tab b" "0 < base" "sorted (map he_CreatedAt (H @ appended (bt_issued tab) [a]))"
  shows "exact_inv n base (H @ appended (bt_issued tab) [a]) (fst (bus_do n a (tab, b))) (snd (bus_do n a (tab, b)))"
proof -
  have h: "heard_inv n base H tab b" "suffix (filter (\<lambda>r. base < he_Seq r) (bt_rows tab)) H"
    using assms(1) by (simp_all add: exact_inv_def)
  note next_heard = heard_inv_do [OF h(1), of a]
  show ?thesis
  proof (cases a)
    case (Write wall fault evs)
    let ?new = "number_events wall (bt_issued tab) evs"
    have le: "base \<le> bt_issued tab" "bb_cursor b \<le> bt_issued tab" using h(1) by (auto simp: heard_inv_def)
    then have "filter (\<lambda>r. base < he_Seq r) ?new = ?new" "filter (\<lambda>r. he_Seq r \<le> bb_cursor b) ?new = []"
      using number_events_range [of _ wall "bt_issued tab" evs] by (fastforce simp: filter_id_conv filter_empty_conv)+
    with Write next_heard assms(1) show ?thesis by (auto simp: exact_inv_def AppendHubEvents_table simp del: filter_filter)
  next
    case (Prune fault cutoff)
    let ?keep = "\<lambda>r. \<not> he_CreatedAt r < unixMillis cutoff"
    let ?tail = "filter (\<lambda>r. base < he_Seq r) (bt_rows tab)"
    have "sorted (map he_CreatedAt ?tail)" using sorted_suffix_map [OF h(2)] assms(3) Prune by simp
    then have "suffix (filter ?keep ?tail) H" using filter_sorted_suffix suffix_order.trans h(2) by blast
    then have "suffix (filter (\<lambda>r. base < he_Seq r) (filter ?keep (bt_rows tab))) H" by (simp add: conj_commute)
    with Prune next_heard assms(1) show ?thesis by (auto simp: exact_inv_def PruneHubEvents_table)
  next
    case (Turn fault)
    with exact_inv_turn [OF assms(1,2), of fault] show ?thesis by simp
  qed
qed

text \<open>C15: Where events were stamped in the order of their numbers and the bus was in use before the
  member joined, a poll leaves the member having heard every event addressed to it that was appended
  since it joined, up to its cursor, unless it has been told of a gap; and nothing on the table is
  left unread.
\<close>

theorem bus_loss_is_told:
  assumes "joined_bus n prior = (tab0, b0)" "0 < bt_issued tab0" "bus_run n acts (tab0, b0) = (tab, b)"
    and "sorted (map he_CreatedAt (appended (bt_issued tab0) acts))"
  shows "(0 < bb_gapCount (poll n tab b) \<or>
      bb_heard (poll n tab b) = map as_read (filter (addressed n)
        (filter (\<lambda>r. he_Seq r \<le> bb_cursor (poll n tab b)) (appended (bt_issued tab0) acts)))) \<and>
    unread tab (poll n tab b) = 0"
proof -
  let ?H = "appended (bt_issued tab0) acts" and ?base = "bt_issued tab0"
  have "exact_inv n ?base [] tab0 b0"
    using heard_inv_start [OF assms(1)] joined_bus_start [OF assms(1)]
    by (auto simp: exact_inv_def wf_bus_def filter_empty_conv not_less)
  then have "exact_inv n ?base ([] @ ?H) (fst (bus_run n acts (tab0, b0))) (snd (bus_run n acts (tab0, b0)))"
    by (rule bus_run_keeps [where Q = "\<lambda>H. sorted (map he_CreatedAt H)"])
      (use assms(2,4) in \<open>auto simp: sorted_append intro!: exact_inv_do\<close>)
  then have run: "exact_inv n ?base ?H tab b" using assms(3) by simp
  then have "exact_inv n ?base ?H tab (poll n tab b)"
    by (rule poll_keeps) (rule exact_inv_turn [OF _ assms(2)])
  moreover have "unread tab (poll n tab b) = 0" using run by (intro poll_reads_all) (simp add: exact_inv_def heard_inv_def)
  ultimately show ?thesis by (auto simp: exact_inv_def)
qed

section \<open>A reader among writers\<close>

definition bus_reader :: HubNode where "bus_reader = plain_node ''hub1''"

definition bus_event :: "string \<Rightarrow> string \<Rightarrow> string \<Rightarrow> int \<Rightarrow> HubEventRow" where
  "bus_event origin target key ms = \<lparr>he_Seq = 0, he_Origin = origin, he_Target = target, he_Topic = ''log'', he_Key = key,
     he_Payload = [], he_CreatedAt = fromUnixMillis ms\<rparr>"

definition busy_bus :: "bus_act list" where
  "busy_bus =
     [Write 1 False [bus_event ''hub2'' [] ''a'' 1000, bus_event ''hub3'' ''hub1'' ''b'' 1010], Turn False,
      Write 1 False [bus_event ''hub2'' ''hub3'' ''c'' 1020], Prune False (fromUnixMillis 1005), Turn True,
      Write 1 False [bus_event ''hub1'' [] ''d'' 1030, bus_event ''hub3'' [] ''e'' 1040]]"

theorem bus_loss_is_told_witness:
  "(let (tab0, b0) = joined_bus bus_reader [Write 1 False [bus_event ''hub2'' [] ''before'' 900]];
        (tab, b) = bus_run bus_reader busy_bus (tab0, b0)
    in bb_gapCount (poll bus_reader tab b) = 0 \<and>
       map he_Key (bb_heard (poll bus_reader tab b)) = [''a'', ''b'', ''e''])"
proof -
  let ?j = "joined_bus bus_reader [Write 1 False [bus_event ''hub2'' [] ''before'' 900]]"
  let ?r = "bus_run bus_reader busy_bus ?j"
  have issued: "bt_issued (fst ?j) = 1" by code_simp
  have stamps: "map he_CreatedAt (appended 1 busy_bus) = [1000, 1010, 1020, 1030, 1040]" by code_simp
  have end_of: "bb_gapCount (poll bus_reader (fst ?r) (snd ?r)) = 0" "bb_cursor (poll bus_reader (fst ?r) (snd ?r)) = 6" by code_simp+
  have all: "map he_Key (map as_read (filter (addressed bus_reader) (filter (\<lambda>r. he_Seq r \<le> 6) (appended 1 busy_bus)))) =
      [''a'', ''b'', ''e'']" by code_simp
  have "bb_heard (poll bus_reader (fst ?r) (snd ?r)) =
      map as_read (filter (addressed bus_reader) (filter (\<lambda>r. he_Seq r \<le> 6) (appended 1 busy_bus)))"
    using bus_loss_is_told [of bus_reader "[Write 1 False [bus_event ''hub2'' [] ''before'' 900]]" "fst ?j" "snd ?j" busy_bus "fst ?r" "snd ?r"]
    by (simp add: issued stamps end_of)
  then show ?thesis using all end_of by (simp add: case_prod_unfold Let_def del: map_map)
qed

text \<open>Writers queue events and write them later: an event can carry a higher number and an older
  stamp than another member's. Pruning by stamp then takes it from between two that stay, and a
  reader that stalled reads on over the hole: only the first number of a batch is compared with the
  cursor. Neither is a hole noticed by a reader whose cursor is still 0.\<close>

theorem hole_in_a_batch_is_silent:
  "(let (tab, b) = bus_run bus_reader
        [Write 1 False [bus_event ''hub2'' [] ''a'' 1010], Write 1 False [bus_event ''hub3'' [] ''b'' 1000],
         Write 1 False [bus_event ''hub2'' [] ''c'' 1020], Prune False (fromUnixMillis 1005), Turn False]
        (joined_bus bus_reader [Write 1 False [bus_event ''hub2'' [] ''before'' 900]])
    in map he_Key (bb_heard b) = [''a'', ''c''] \<and> bb_gapCount b = 0)"
  "(let (tab, b) = bus_run bus_reader
        [Write 1 False [bus_event ''hub2'' [] ''a'' 1000, bus_event ''hub2'' [] ''b'' 1010], Prune False (fromUnixMillis 1005), Turn False]
        (joined_bus bus_reader [])
    in map he_Key (bb_heard b) = [''b''] \<and> bb_gapCount b = 0)"
  by code_simp+

end
