(* ===== verification/HubLife.thy ===== *)
theory HubLife
  imports HubBus
begin

text \<open>
  A member of pkg/hubcluster/hubcluster.go that beats is seen: whatever was done to its row before, and
  whatever statements of other processes run between those of its beat and after it, the others judge it
  alive until the TTL has passed, unless a statement marks it as left.
\<close>

section \<open>Members and their rows\<close>







section \<open>What leaves a member's row alone\<close>











section \<open>The own row after a beat\<close>








section \<open>What the others see\<close>









end
