(* ===== verification/HubOwners.thy ===== *)
theory HubOwners
  imports HubNode
begin

text \<open>
  Which member holds a thing that cannot be shared (pkg/hubcluster/owners.go), and whether a claim on
  a project's run means the run is executing (pkg/hubcluster/runclaim.go). An operation with several
  statements on the table is modelled statement by statement: \<open>claim_step\<close> is the next statement of a
  \<open>Claim\<close> in progress. Metadata is its JSON text; what a run claim's text decodes to is a parameter.
\<close>

section \<open>Owners\<close>

record Owner =
  ow_Kind :: string
  ow_Key :: string
  ow_InstanceID :: string
  ow_Member :: HubMember
  ow_Self :: bool
  ow_Alive :: bool
  ow_Row :: HubOwnerRow

definition zero_owner :: Owner where
  "zero_owner = \<lparr>ow_Kind = [], ow_Key = [], ow_InstanceID = [], ow_Member = unknown_member, ow_Self = False,
     ow_Alive = False, ow_Row = no_owner\<rparr>"

text \<open>\<open>None\<close> is a nil value; a value that is not a string is its JSON text.\<close>

definition encodeMeta :: "string option \<Rightarrow> string" where
  "encodeMeta meta = (case meta of None \<Rightarrow> ''{}'' | Some m \<Rightarrow> if m = [] then ''{}'' else m)"

text \<open>The member is read before the refresh that judging an unknown id may take.\<close>

definition ownerFrom :: "cluster_env \<Rightarrow> HubOwnerRow \<Rightarrow> HubNode \<Rightarrow> Owner \<times> HubNode" where
  "ownerFrom env row n =
     (let self = (ho_InstanceID row = mb_ID (nd_self n));
          member = (case Member_of n (ho_InstanceID row) of None \<Rightarrow> unknown_member | Some m \<Rightarrow> m);
          (serving, n') = (if self then (True, n) else Serving env (ho_InstanceID row) n)
      in (\<lparr>ow_Kind = ho_Kind row, ow_Key = ho_Key row, ow_InstanceID = ho_InstanceID row, ow_Member = member,
           ow_Self = self, ow_Alive = serving, ow_Row = row\<rparr>, n'))"

definition Lookup_owner :: "cluster_env \<Rightarrow> bool \<Rightarrow> string \<Rightarrow> string \<Rightarrow> owners_table \<Rightarrow> HubNode \<Rightarrow> (hub_error + Owner option) \<times> HubNode" where
  "Lookup_owner env fault kind key tab n =
     (case GetHubOwner fault kind key tab of
        Inl ErrHubOwnerNotFound \<Rightarrow> (Inr None, n)
      | Inl e \<Rightarrow> (Inl e, n)
      | Inr row \<Rightarrow> map_prod (\<lambda>o'. Inr (Some o')) id (ownerFrom env row n))"

text \<open>Where a \<open>Claim\<close> is: about to read in one of its attempts, about to refresh the metadata of a key
  it found itself to hold, about to write a row over the one it read (the zero row for none), about
  to read one last time, or done, with the owner and whether this member is it.\<close>

datatype claim_phase =
  Reading nat | Refreshing Owner | Taking nat HubOwnerRow HubOwnerRow | ReadingLast
| Answered Owner bool | ClaimFailed hub_error

text \<open>A statement of a \<open>Claim\<close> by a node, with the clock it reads in \<open>env\<close>.\<close>

definition claim_read :: "cluster_env \<Rightarrow> bool \<Rightarrow> string \<Rightarrow> string \<Rightarrow> string \<Rightarrow> nat \<Rightarrow> owners_table \<Rightarrow> HubNode \<Rightarrow> claim_phase \<times> HubNode" where
  "claim_read env fault kind key encoded attempt tab n =
     (case Lookup_owner env fault kind key tab n of
        (Inl e, n') \<Rightarrow> (ClaimFailed e, n')
      | (Inr found, n') \<Rightarrow>
          let row = \<lparr>ho_Kind = kind, ho_Key = key, ho_InstanceID = mb_ID (nd_self n), ho_Meta = encoded,
                     ho_ClaimedAt = ce_now env, ho_UpdatedAt = ce_now env\<rparr>
          in case found of
               None \<Rightarrow> (Taking attempt row no_owner, n')
             | Some cur \<Rightarrow>
                 if ow_Self cur then (Refreshing cur, n')
                 else if ow_Alive cur then (Answered cur False, n')
                 else (Taking attempt row (ow_Row cur), n'))"

definition claim_step ::
    "cluster_env \<Rightarrow> bool \<Rightarrow> string \<Rightarrow> string \<Rightarrow> string option \<Rightarrow> claim_phase \<Rightarrow> owners_table \<times> HubNode \<Rightarrow>
     claim_phase \<times> owners_table \<times> HubNode" where
  "claim_step env fault kind key meta ph s =
     (let (tab, n) = s; encoded = encodeMeta meta in
      case ph of
        Reading attempt \<Rightarrow>
          let (ph', n') = claim_read env fault kind key encoded attempt tab n in (ph', tab, n')
      | Refreshing cur \<Rightarrow>
          (case UpdateHubOwnerMeta (ce_now env) fault kind key (mb_ID (nd_self n)) encoded (ce_now env) tab of
             (Inl e, tab') \<Rightarrow> (ClaimFailed e, tab', n)
           | (Inr changed, tab') \<Rightarrow>
               (Answered (cur\<lparr>ow_Row := (ow_Row cur)\<lparr>ho_Meta := encoded\<rparr>\<rparr>) True, tab', n))
      | Taking attempt row expect \<Rightarrow>
          (case ClaimHubOwner (ce_now env) fault row expect tab of
             (Inl e, tab') \<Rightarrow> (ClaimFailed e, tab', n)
           | (Inr True, tab') \<Rightarrow> let (own, n') = ownerFrom env row n in (Answered own True, tab', n')
           | (Inr False, tab') \<Rightarrow> (if attempt < 2 then Reading (attempt + 1) else ReadingLast, tab', n))
      | ReadingLast \<Rightarrow>
          (case Lookup_owner env fault kind key tab n of
             (Inl e, n') \<Rightarrow> (ClaimFailed e, tab, n')
           | (Inr None, n') \<Rightarrow> (Answered zero_owner False, tab, n')
           | (Inr (Some cur), n') \<Rightarrow> (Answered cur (ow_Self cur), tab, n'))
      | _ \<Rightarrow> (ph, tab, n))"

text \<open>A whole \<open>Claim\<close>, over what it finds at each statement: what others did to the table since the
  one before, its surroundings, and whether the statement fails.\<close>

fun Claim :: "((owners_table \<Rightarrow> owners_table) \<times> cluster_env \<times> bool) list \<Rightarrow> string \<Rightarrow> string \<Rightarrow> string option \<Rightarrow>
    claim_phase \<Rightarrow> owners_table \<times> HubNode \<Rightarrow> claim_phase \<times> owners_table \<times> HubNode" where
  "Claim [] kind key meta ph s = (ph, s)"
| "Claim ((others, env, fault) # moments) kind key meta ph s =
     (case ph of
        Answered own taken \<Rightarrow> (ph, s)
      | ClaimFailed e \<Rightarrow> (ph, s)
      | _ \<Rightarrow> let (ph', s') = claim_step env fault kind key meta ph (others (fst s), snd s)
             in Claim moments kind key meta ph' s')"

definition Assert :: "time \<Rightarrow> bool \<Rightarrow> string \<Rightarrow> string \<Rightarrow> string option \<Rightarrow> HubNode \<Rightarrow> owners_table \<Rightarrow> (hub_error + unit) \<times> owners_table" where
  "Assert now fault kind key meta n tab =
     PutHubOwner now fault
       \<lparr>ho_Kind = kind, ho_Key = key, ho_InstanceID = mb_ID (nd_self n), ho_Meta = encodeMeta meta,
        ho_ClaimedAt = now, ho_UpdatedAt = now\<rparr> tab"

definition UpdateMeta :: "time \<Rightarrow> bool \<Rightarrow> string \<Rightarrow> string \<Rightarrow> string option \<Rightarrow> HubNode \<Rightarrow> owners_table \<Rightarrow> (hub_error + bool) \<times> owners_table" where
  "UpdateMeta now fault kind key meta n tab =
     UpdateHubOwnerMeta now fault kind key (mb_ID (nd_self n)) (encodeMeta meta) now tab"

definition Release_owner :: "bool \<Rightarrow> string \<Rightarrow> string \<Rightarrow> HubNode \<Rightarrow> owners_table \<Rightarrow> (hub_error + bool) \<times> owners_table" where
  "Release_owner fault kind key n tab = ReleaseHubOwner fault kind key (mb_ID (nd_self n)) tab"

text \<open>A read that fails is no evidence of having lost the key.\<close>

definition Owns :: "cluster_env \<Rightarrow> bool \<Rightarrow> string \<Rightarrow> string \<Rightarrow> owners_table \<Rightarrow> HubNode \<Rightarrow> bool" where
  "Owns env fault kind key tab n =
     (case fst (Lookup_owner env fault kind key tab n) of
        Inl e \<Rightarrow> True
      | Inr None \<Rightarrow> False
      | Inr (Some own) \<Rightarrow> ow_Self own)"

fun owners_from :: "cluster_env \<Rightarrow> HubOwnerRow list \<Rightarrow> HubNode \<Rightarrow> Owner list \<times> HubNode" where
  "owners_from env [] n = ([], n)"
| "owners_from env (r # rs) n =
     (let (own, n1) = ownerFrom env r n; (owns, n2) = owners_from env rs n1 in (own # owns, n2))"

definition Owned :: "cluster_env \<Rightarrow> bool \<Rightarrow> string \<Rightarrow> owners_table \<Rightarrow> HubNode \<Rightarrow> hub_error + Owner list \<times> HubNode" where
  "Owned env fault kind tab n = map_sum id (\<lambda>rows. owners_from env rows n) (ListHubOwners fault kind tab)"

definition Orphans :: "cluster_env \<Rightarrow> bool \<Rightarrow> string \<Rightarrow> owners_table \<Rightarrow> HubNode \<Rightarrow> hub_error + Owner list \<times> HubNode" where
  "Orphans env fault kind tab n =
     map_sum id (map_prod (filter (\<lambda>own. \<not> ow_Alive own)) id) (Owned env fault kind tab n)"

definition Adopt :: "time \<Rightarrow> bool \<Rightarrow> Owner \<Rightarrow> string option \<Rightarrow> HubNode \<Rightarrow> owners_table \<Rightarrow> (hub_error + bool) \<times> owners_table" where
  "Adopt now fault own meta n tab =
     (let meta = (case meta of None \<Rightarrow> Some (ho_Meta (ow_Row own)) | Some m \<Rightarrow> Some m)
      in ClaimHubOwner now fault
           \<lparr>ho_Kind = ow_Kind own, ho_Key = ow_Key own, ho_InstanceID = mb_ID (nd_self n), ho_Meta = encodeMeta meta,
            ho_ClaimedAt = now, ho_UpdatedAt = now\<rparr> (ow_Row own) tab)"

definition Drop :: "bool \<Rightarrow> Owner \<Rightarrow> owners_table \<Rightarrow> (hub_error + bool) \<times> owners_table" where
  "Drop fault own tab = ReleaseHubOwnerIfClaim fault (ow_Row own) tab"

section \<open>Run claims\<close>

definition OwnerKindRun :: string where "OwnerKindRun = ''run''"
definition DefaultOrphanRunGrace :: duration where "DefaultOrphanRunGrace = 2 * go_minute"

record RunClaimMeta =
  rc_Dispatching :: bool
  rc_RunID :: string

definition MayHaveWorkload :: "RunClaimMeta \<Rightarrow> bool" where
  "MayHaveWorkload m \<longleftrightarrow> \<not> rc_Dispatching m \<or> rc_RunID m \<noteq> []"

text \<open>\<open>Owner.Meta\<close>: no text decodes to the zero value.\<close>

definition owner_meta :: "(string \<Rightarrow> RunClaimMeta option) \<Rightarrow> Owner \<Rightarrow> RunClaimMeta option" where
  "owner_meta decode own =
     (if ho_Meta (ow_Row own) = [] then Some \<lparr>rc_Dispatching = False, rc_RunID = []\<rparr>
      else decode (ho_Meta (ow_Row own)))"

definition RunClaimLive :: "(string \<Rightarrow> RunClaimMeta option) \<Rightarrow> Owner \<Rightarrow> time \<Rightarrow> duration \<Rightarrow> bool" where
  "RunClaimLive decode own now grace =
     (if ow_Alive own then True
      else if (case owner_meta decode own of None \<Rightarrow> False | Some m \<Rightarrow> \<not> MayHaveWorkload m) then False
      else
        let since = (if mb_HeartbeatAt (ow_Member own) = 0 then ho_ClaimedAt (ow_Row own) else mb_HeartbeatAt (ow_Member own))
        in time_sub now since < grace)"

text \<open>Every run claim as a process that is not a member judges it: a later row of an id wins.\<close>

definition PeekRunClaims ::
    "Identity \<Rightarrow> (int \<Rightarrow> bool) \<Rightarrow> bool \<Rightarrow> (members_table \<times> owners_table) option \<Rightarrow> time \<Rightarrow> hub_error + Owner list" where
  "PeekRunClaims local_id alive fault tabs now =
     map_sum id (\<lambda>(members, rows).
       map (\<lambda>row.
         let own = \<lparr>ow_Kind = ho_Kind row, ow_Key = ho_Key row, ow_InstanceID = ho_InstanceID row, ow_Member = unknown_member,
                    ow_Self = False, ow_Alive = False, ow_Row = row\<rparr>
         in case map_of (rev (map (\<lambda>m. (mr_InstanceID m, m)) members)) (ho_InstanceID row) of
              None \<Rightarrow> own
            | Some m \<Rightarrow> own\<lparr>ow_Member := memberFromRow m, ow_Alive := RowAlive local_id alive m now\<rparr>) rows)
     (PeekHubCluster fault OwnerKindRun tabs)"

end
