(* ===== verification/HubClaims.thy ===== *)
theory HubClaims
  imports HubOwners HubBus
begin

text \<open>
  What the ownership rows of the hub cluster promise. Members claim, adopt, drop, release and assert
  keys through the operations of pkg/hubcluster/owners.go, a statement at a time and in any
  interleaving; what each of them thinks of the others at a statement is arbitrary. A claim that was
  granted is lost only to a member that judged its owner not serving.
\<close>

section \<open>The table as a store of owners\<close>

locale owner_store =
  fixes holder :: "'t \<Rightarrow> owner_key \<Rightarrow> string option" and sound :: "'t \<Rightarrow> bool"
    and claim :: "time \<Rightarrow> bool \<Rightarrow> HubOwnerRow \<Rightarrow> HubOwnerRow \<Rightarrow> 't \<Rightarrow> (hub_error + bool) \<times> 't"
    and give_up :: "bool \<Rightarrow> string \<Rightarrow> string \<Rightarrow> string \<Rightarrow> 't \<Rightarrow> (hub_error + bool) \<times> 't"
    and remove :: "bool \<Rightarrow> HubOwnerRow \<Rightarrow> 't \<Rightarrow> (hub_error + bool) \<times> 't"
  assumes claim_taken: "sound t \<Longrightarrow> claim w f row expect t = (Inr True, t') \<Longrightarrow>
      sound t' \<and> holder t' = (holder t)((ho_Kind row, ho_Key row) := Some (ho_InstanceID row)) \<and>
      (holder t (ho_Kind row, ho_Key row) = None \<or>
       holder t (ho_Kind row, ho_Key row) = Some (ho_InstanceID expect) \<and> ho_InstanceID expect \<noteq> [])"
    and claim_lost: "claim w f row expect t = (r, t') \<Longrightarrow> r \<noteq> Inr True \<Longrightarrow> t' = t"
    and given_up: "sound t \<Longrightarrow> give_up f kind key i t = (r, t') \<Longrightarrow>
      sound t' \<and> (holder t' = holder t \<or> holder t (kind, key) = Some i \<and> holder t' = (holder t)((kind, key) := None))"
    and removed: "sound t \<Longrightarrow> remove f expect t = (r, t') \<Longrightarrow>
      sound t' \<and> (holder t' = holder t \<or>
        holder t (ho_Kind expect, ho_Key expect) = Some (ho_InstanceID expect) \<and>
        holder t' = (holder t)((ho_Kind expect, ho_Key expect) := None))"
begin

text \<open>Who loses a key, and to what.\<close>

lemma claim_displaces:
  assumes "sound t" "claim w f row expect t = (r, t')" "holder t k = Some m" "holder t' k \<noteq> Some m"
  shows "k = (ho_Kind row, ho_Key row)" "m = ho_InstanceID expect" "m \<noteq> []"
proof -
  have "r = Inr True" using claim_lost [OF assms(2)] assms(3,4) by auto
  with claim_taken [OF assms(1), of w f row expect t'] assms(2-4)
  show "k = (ho_Kind row, ho_Key row)" "m = ho_InstanceID expect" "m \<noteq> []" by (auto split: if_splits)
qed

lemma claim_sound: "sound t \<Longrightarrow> claim w f row expect t = (r, t') \<Longrightarrow> sound t'"
  using claim_taken claim_lost by (cases "r = Inr True") blast+

lemma give_up_displaces:
  "sound t \<Longrightarrow> give_up f kind key i t = (r, t') \<Longrightarrow> holder t k = Some m \<Longrightarrow> holder t' k \<noteq> Some m \<Longrightarrow> k = (kind, key) \<and> m = i"
  using given_up by (fastforce split: if_splits)

lemma remove_displaces:
  "sound t \<Longrightarrow> remove f expect t = (r, t') \<Longrightarrow> holder t k = Some m \<Longrightarrow> holder t' k \<noteq> Some m \<Longrightarrow>
   k = (ho_Kind expect, ho_Key expect) \<and> m = ho_InstanceID expect"
  using removed by (fastforce split: if_splits)

end

definition holder :: "owners_table \<Rightarrow> owner_key \<Rightarrow> string option" where
  "holder tab k = map_option ho_InstanceID (map_of tab k)"

text \<open>Rows stand under their own key, one each, and name an owner.\<close>

definition sound_owners :: "owners_table \<Rightarrow> bool" where
  "sound_owners tab \<longleftrightarrow> distinct (map fst tab) \<and>
     list_all (\<lambda>(k, r). (ho_Kind r, ho_Key r) = k \<and> ho_InstanceID r \<noteq> []) tab"

lemma sound_update:
  "sound_owners tab \<Longrightarrow> (ho_Kind r, ho_Key r) = k \<Longrightarrow> ho_InstanceID r \<noteq> [] \<Longrightarrow> sound_owners (AList.update k r tab)"
  by (auto simp: sound_owners_def distinct_update list_all_iff set_update_distinct)

lemma sound_delete: "sound_owners tab \<Longrightarrow> sound_owners (AList.delete k tab)"
  by (auto simp: sound_owners_def AList.delete_eq list_all_iff intro: distinct_map_filter)

lemma sound_owner_of: "sound_owners tab \<Longrightarrow> map_of tab k = Some r \<Longrightarrow> (ho_Kind r, ho_Key r) = k \<and> ho_InstanceID r \<noteq> []"
  by (auto simp: sound_owners_def list_all_iff dest: map_of_SomeD)

lemma holder_update: "holder (AList.update k r tab) = (holder tab)(k := Some (ho_InstanceID r))"
  and holder_delete: "holder (AList.delete k tab) = (holder tab)(k := None)"
  by (auto simp: holder_def fun_eq_iff AList.update_conv' AList.delete_conv')

lemma stamped_owner_simps [simp]:
  "ho_Kind (owner_cells (stamp_owner w r)) = ho_Kind r" "ho_Key (owner_cells (stamp_owner w r)) = ho_Key r"
  "ho_InstanceID (owner_cells (stamp_owner w r)) = ho_InstanceID r"
  by (simp_all add: owner_cells_def stamp_owner_def Let_def)

lemma trim_space_ne: "trim_space s \<noteq> [] \<Longrightarrow> s \<noteq> []"
  by (auto simp: trim_space_def)

lemma owner_row_error_None: "owner_row_error row = None \<Longrightarrow> ho_InstanceID row \<noteq> []"
  by (auto simp: owner_row_error_def trim_space_ne split: if_splits)

lemma sound_update_where:
  assumes "sound_owners tab" "\<And>r. (ho_Kind (f r), ho_Key (f r)) = (ho_Kind r, ho_Key r) \<and> ho_InstanceID (f r) = ho_InstanceID r"
    and "update_where k c f tab = (b, tab')"
  shows "sound_owners tab' \<and> holder tab' = holder tab"
proof (cases "map_of tab k")
  case (Some r)
  have "sound_owners (AList.update k (f r) tab)" "holder (AList.update k (f r) tab) = holder tab"
    using sound_owner_of [OF assms(1) Some] assms(1,2) Some by (auto intro!: sound_update simp: holder_update) (auto simp: holder_def)
  with assms(1,3) Some show ?thesis by (auto simp: update_where_def split: if_splits)
qed (use assms in \<open>simp add: update_where_def\<close>)

lemma sound_delete_where:
  assumes "sound_owners tab" "delete_where k c tab = (b, tab')"
  shows "sound_owners tab' \<and> (holder tab' = holder tab \<or>
    (\<exists>r. map_of tab k = Some r \<and> c r) \<and> holder tab' = (holder tab)(k := None))"
  using assms by (auto simp: delete_where_def holder_delete sound_delete split: option.splits if_splits)

interpretation owner_rows: owner_store holder sound_owners ClaimHubOwner ReleaseHubOwner ReleaseHubOwnerIfClaim
proof
  fix t t' w f row expect
  assume s: "sound_owners t" and c: "ClaimHubOwner w f row expect t = (Inr True, t')"
  let ?k = "(ho_Kind row, ho_Key row)"
  from c have e: "owner_row_error row = None"
    and t': "t' = AList.update ?k (owner_cells (stamp_owner w row)) t"
    and m: "case map_of t ?k of None \<Rightarrow> True | Some cur \<Rightarrow> same_claim expect cur"
    by (auto simp: ClaimHubOwner_def Let_def split: option.splits if_splits)
  have "sound_owners t'" unfolding t' by (rule sound_update [OF s]) (simp_all add: owner_row_error_None [OF e])
  moreover have "holder t ?k = None \<or> holder t ?k = Some (ho_InstanceID expect) \<and> ho_InstanceID expect \<noteq> []"
    using m sound_owner_of [OF s] by (auto simp: holder_def same_claim_def split: option.splits)
  ultimately show "sound_owners t' \<and> holder t' = (holder t)(?k := Some (ho_InstanceID row)) \<and>
      (holder t ?k = None \<or> holder t ?k = Some (ho_InstanceID expect) \<and> ho_InstanceID expect \<noteq> [])"
    by (simp add: t' holder_update)
next
  fix t t' w f row expect r
  assume "ClaimHubOwner w f row expect t = (r, t')" "r \<noteq> Inr True"
  then show "t' = t" by (auto simp: ClaimHubOwner_def Let_def split: option.splits if_splits)
next
  fix t t' f kind key i r
  assume s: "sound_owners t" and c: "ReleaseHubOwner f kind key i t = (r, t')"
  show "sound_owners t' \<and> (holder t' = holder t \<or> holder t (kind, key) = Some i \<and> holder t' = (holder t)((kind, key) := None))"
  proof (cases f)
    case False
    then obtain b where "delete_where (kind, key) (\<lambda>r. ho_InstanceID r = i) t = (b, t')"
      using c by (auto simp: ReleaseHubOwner_def map_prod_def split: prod.splits)
    from sound_delete_where [OF s this] show ?thesis by (auto simp: holder_def)
  qed (use s c in \<open>simp add: ReleaseHubOwner_def\<close>)
next
  fix t t' f expect r
  assume s: "sound_owners t" and c: "ReleaseHubOwnerIfClaim f expect t = (r, t')"
  show "sound_owners t' \<and> (holder t' = holder t \<or>
      holder t (ho_Kind expect, ho_Key expect) = Some (ho_InstanceID expect) \<and>
      holder t' = (holder t)((ho_Kind expect, ho_Key expect) := None))"
  proof (cases f)
    case False
    then obtain b where "delete_where (ho_Kind expect, ho_Key expect) (same_claim expect) t = (b, t')"
      using c by (auto simp: ReleaseHubOwnerIfClaim_def map_prod_def split: prod.splits)
    from sound_delete_where [OF s this] show ?thesis by (auto simp: holder_def same_claim_def)
  qed (use s c in \<open>simp add: ReleaseHubOwnerIfClaim_def\<close>)
qed

section \<open>The system\<close>

record claim_task =
  tk_member :: string
  tk_key :: owner_key
  tk_meta :: "string option"
  tk_phase :: claim_phase

text \<open>The table, the claims in progress or answered, the orphans members read and may act on, and
  what happened: whom a member judged not serving for which key, who gave up which key itself, and
  which keys were asserted.\<close>

record owner_system =
  os_tab :: owners_table
  os_tasks :: "claim_task list"
  os_orphans :: "(string \<times> Owner) list"
  os_condemned :: "(string \<times> string \<times> owner_key) list"
  os_given :: "(string \<times> owner_key) list"
  os_asserted :: "owner_key list"

datatype owner_act =
  ClaimNew string owner_key "string option"
| ClaimGo nat HubNode cluster_env bool
| OrphansGo HubNode cluster_env bool string
| AdoptGo nat HubNode time bool "string option"
| DropGo nat bool
| ReleaseGo HubNode bool owner_key
| MetaGo HubNode time bool owner_key "string option"
| AssertGo HubNode time bool owner_key "string option"

definition self_id :: "HubNode \<Rightarrow> string" where "self_id n = mb_ID (nd_self n)"

text \<open>Whom a read of a claim finds holding the key without serving.\<close>

definition condemns :: "HubNode \<Rightarrow> cluster_env \<Rightarrow> bool \<Rightarrow> owners_table \<Rightarrow> claim_task \<Rightarrow> (string \<times> string \<times> owner_key) list" where
  "condemns n env fault tab tk =
     (case tk_phase tk of
        Reading a \<Rightarrow>
          (case fst (Lookup_owner env fault (fst (tk_key tk)) (snd (tk_key tk)) tab n) of
             Inr (Some own) \<Rightarrow> if ow_Alive own then [] else [(self_id n, ow_InstanceID own, tk_key tk)]
           | _ \<Rightarrow> [])
      | _ \<Rightarrow> [])"

fun owner_do :: "owner_act \<Rightarrow> owner_system \<Rightarrow> owner_system" where
  "owner_do (ClaimNew i k meta) s =
     s\<lparr>os_tasks := os_tasks s @ [\<lparr>tk_member = i, tk_key = k, tk_meta = meta, tk_phase = Reading 0\<rparr>]\<rparr>"
| "owner_do (ClaimGo j n env fault) s =
     (if j < length (os_tasks s) \<and> tk_member (os_tasks s ! j) = self_id n
      then
        let tk = os_tasks s ! j;
            (ph, tab, n') = claim_step env fault (fst (tk_key tk)) (snd (tk_key tk)) (tk_meta tk) (tk_phase tk) (os_tab s, n)
        in s\<lparr>os_tab := tab, os_tasks := (os_tasks s)[j := tk\<lparr>tk_phase := ph\<rparr>],
             os_condemned := os_condemned s @ condemns n env fault (os_tab s) tk\<rparr>
      else s)"
| "owner_do (OrphansGo n env fault kind) s =
     (case Orphans env fault kind (os_tab s) n of
        Inl e \<Rightarrow> s
      | Inr (owns, n') \<Rightarrow>
          s\<lparr>os_orphans := os_orphans s @ map (Pair (self_id n)) owns,
            os_condemned := os_condemned s @ map (\<lambda>own. (self_id n, ow_InstanceID own, ow_Kind own, ow_Key own))
              (filter (\<lambda>own. \<not> ow_Alive own) owns)\<rparr>)"
| "owner_do (AdoptGo j n now fault meta) s =
     (if j < length (os_orphans s) \<and> fst (os_orphans s ! j) = self_id n
      then s\<lparr>os_tab := snd (Adopt now fault (snd (os_orphans s ! j)) meta n (os_tab s))\<rparr>
      else s)"
| "owner_do (DropGo j fault) s =
     (if j < length (os_orphans s) then s\<lparr>os_tab := snd (Drop fault (snd (os_orphans s ! j)) (os_tab s))\<rparr> else s)"
| "owner_do (ReleaseGo n fault k) s =
     s\<lparr>os_tab := snd (Release_owner fault (fst k) (snd k) n (os_tab s)), os_given := os_given s @ [(self_id n, k)]\<rparr>"
| "owner_do (MetaGo n now fault k meta) s =
     s\<lparr>os_tab := snd (UpdateMeta now fault (fst k) (snd k) meta n (os_tab s))\<rparr>"
| "owner_do (AssertGo n now fault k meta) s =
     s\<lparr>os_tab := snd (Assert now fault (fst k) (snd k) meta n (os_tab s)), os_asserted := os_asserted s @ [k]\<rparr>"

definition owner_step :: "owner_system \<Rightarrow> owner_system \<Rightarrow> bool" where
  "owner_step s t \<longleftrightarrow> (\<exists>a. t = owner_do a s)"

definition owner_run :: "owner_act list \<Rightarrow> owner_system \<Rightarrow> owner_system" where
  "owner_run acts s = fold owner_do acts s"

definition owner_start :: "owners_table \<Rightarrow> owner_system" where
  "owner_start tab = \<lparr>os_tab = tab, os_tasks = [], os_orphans = [], os_condemned = [], os_given = [], os_asserted = []\<rparr>"

text \<open>What excuses a member that was granted a key from holding it: somebody judged it not serving,
  it gave the key up itself, or the key is one that members assert.\<close>

definition excused :: "owner_system \<Rightarrow> string \<Rightarrow> owner_key \<Rightarrow> bool" where
  "excused s m k \<longleftrightarrow> list_ex (\<lambda>(obs, i, k'). i = m \<and> k' = k) (os_condemned s) \<or> (m, k) \<in> set (os_given s) \<or> k \<in> set (os_asserted s)"

definition held :: "owner_system \<Rightarrow> string \<Rightarrow> owner_key \<Rightarrow> bool" where
  "held s m k \<longleftrightarrow> holder (os_tab s) k = Some m \<or> excused s m k"

definition claim_granted :: "claim_task \<Rightarrow> bool" where
  "claim_granted tk \<longleftrightarrow> (case tk_phase tk of Answered own taken \<Rightarrow> taken | _ \<Rightarrow> False)"

section \<open>A grant is lost only to a verdict\<close>

definition task_ok :: "owner_system \<Rightarrow> claim_task \<Rightarrow> bool" where
  "task_ok s tk \<longleftrightarrow>
     (case tk_phase tk of
        Refreshing own \<Rightarrow> held s (tk_member tk) (tk_key tk)
      | Answered own taken \<Rightarrow> taken \<longrightarrow> held s (tk_member tk) (tk_key tk)
      | Taking a row expect \<Rightarrow>
          (ho_Kind row, ho_Key row) = tk_key tk \<and> ho_InstanceID row = tk_member tk \<and>
          (expect = no_owner \<or> excused s (ho_InstanceID expect) (tk_key tk))
      | _ \<Rightarrow> True)"

definition orphan_ok :: "owner_system \<Rightarrow> string \<times> Owner \<Rightarrow> bool" where
  "orphan_ok s p \<longleftrightarrow> (let own = snd p in
     ow_Kind own = ho_Kind (ow_Row own) \<and> ow_Key own = ho_Key (ow_Row own) \<and>
     excused s (ho_InstanceID (ow_Row own)) (ow_Kind own, ow_Key own))"

definition owners_inv :: "owner_system \<Rightarrow> bool" where
  "owners_inv s \<longleftrightarrow> sound_owners (os_tab s) \<and> list_all (task_ok s) (os_tasks s) \<and> list_all (orphan_ok s) (os_orphans s)"

text \<open>A step that only adds excuses and takes keys from the excused keeps what holds of every task.\<close>

definition fair :: "owner_system \<Rightarrow> owner_system \<Rightarrow> bool" where
  "fair s t \<longleftrightarrow> (\<forall>m k. excused s m k \<longrightarrow> excused t m k) \<and>
     (\<forall>m k. holder (os_tab s) k = Some m \<longrightarrow> holder (os_tab t) k = Some m \<or> excused t m k)"

lemma fair_excused: "fair s t \<Longrightarrow> excused s m k \<Longrightarrow> excused t m k"
  unfolding fair_def by blast

lemma fair_held: "fair s t \<Longrightarrow> held s m k \<Longrightarrow> held t m k"
  unfolding fair_def held_def by blast

lemma fair_task: "fair s t \<Longrightarrow> task_ok s tk \<Longrightarrow> task_ok t tk"
  by (auto simp: task_ok_def intro: fair_held fair_excused split: claim_phase.splits)

lemma fair_orphan: "fair s t \<Longrightarrow> orphan_ok s p \<Longrightarrow> orphan_ok t p"
  by (auto simp: orphan_ok_def Let_def intro: fair_excused)

lemma owners_inv_step:
  assumes "owners_inv s" "fair s t" "sound_owners (os_tab t)"
    and "os_tasks t = os_tasks s \<or> (\<exists>j tk. os_tasks t = (os_tasks s)[j := tk] \<and> task_ok t tk) \<or>
      (\<exists>tk. os_tasks t = os_tasks s @ [tk] \<and> task_ok t tk)"
    and "\<exists>ps. os_orphans t = os_orphans s @ ps \<and> list_all (orphan_ok t) ps"
  shows "owners_inv t"
proof -
  have tasks: "list_all (task_ok t) (os_tasks s)" and orphans: "list_all (orphan_ok t) (os_orphans s)"
    using assms(1,2) by (auto simp: owners_inv_def list_all_iff fair_task fair_orphan)
  from assms(4) tasks have "list_all (task_ok t) (os_tasks t)"
    by (auto simp: list_all_iff dest!: set_update_subset_insert [THEN subsetD])
  with assms(3,5) orphans show ?thesis by (auto simp: owners_inv_def)
qed

text \<open>What a read finds.\<close>

lemma ownerFrom_simps:
  "ow_Kind (fst (ownerFrom env row n)) = ho_Kind row" "ow_Key (fst (ownerFrom env row n)) = ho_Key row"
  "ow_InstanceID (fst (ownerFrom env row n)) = ho_InstanceID row" "ow_Row (fst (ownerFrom env row n)) = row"
  "ow_Self (fst (ownerFrom env row n)) = (ho_InstanceID row = self_id n)"
  by (simp_all add: ownerFrom_def self_id_def Let_def split: prod.split)

lemma scan_simps [simp]:
  "ho_InstanceID (scanHubOwnerRow r) = ho_InstanceID r" "ho_Kind (scanHubOwnerRow r) = ho_Kind r" "ho_Key (scanHubOwnerRow r) = ho_Key r"
  by (simp_all add: scanHubOwnerRow_def)

lemma Lookup_owner_found:
  assumes "Lookup_owner env fault kind key tab n = (Inr (Some own), n')"
  obtains r where "map_of tab (kind, key) = Some r" "ow_Row own = scanHubOwnerRow r" "ow_Self own = (ho_InstanceID r = self_id n)"
    "ow_InstanceID own = ho_InstanceID r"
  using assms ownerFrom_simps(3-5) [of env _ n]
  by (auto simp: Lookup_owner_def GetHubOwner_def map_prod_def split: if_splits option.splits prod.splits)
    (metis fst_conv scan_simps(1))+

lemma owners_from_rows: "own \<in> set (fst (owners_from env rows n)) \<Longrightarrow>
    \<exists>r \<in> set rows. ow_Row own = r \<and> ow_Kind own = ho_Kind r \<and> ow_Key own = ho_Key r \<and> ow_InstanceID own = ho_InstanceID r"
proof (induction rows arbitrary: n)
  case (Cons r rows)
  obtain o1 n1 where o1: "ownerFrom env r n = (o1, n1)" by fastforce
  obtain os n2 where os: "owners_from env rows n1 = (os, n2)" by fastforce
  from Cons.prems o1 os have "own = o1 \<or> own \<in> set os" by simp
  then show ?case using ownerFrom_simps [of env r n] Cons.IH [of n1] o1 os by auto
qed simp

lemma holder_Some: "map_of tab k = Some r \<Longrightarrow> holder tab k = Some (ho_InstanceID r)"
  by (simp add: holder_def)

lemma excused_more: "excused s m k \<Longrightarrow> os_condemned t = os_condemned s @ cs \<Longrightarrow> os_given t = os_given s @ gs \<Longrightarrow>
    os_asserted t = os_asserted s @ as \<Longrightarrow> excused t m k"
  by (auto simp: excused_def)

lemma fair_same_holder:
  assumes "holder (os_tab t) = holder (os_tab s)" "os_condemned t = os_condemned s @ cs" "os_given t = os_given s @ gs"
    "os_asserted t = os_asserted s @ as"
  shows "fair s t"
  unfolding fair_def assms(1) using excused_more [OF _ assms(2-4)] by blast

lemma fair_displaced:
  assumes "\<And>m k. holder (os_tab s) k = Some m \<Longrightarrow> holder (os_tab t) k \<noteq> Some m \<Longrightarrow> excused t m k"
    and "os_condemned t = os_condemned s @ cs" "os_given t = os_given s @ gs" "os_asserted t = os_asserted s @ as"
  shows "fair s t"
  unfolding fair_def using excused_more [OF _ assms(2-4)] assms(1) by blast

lemma update_meta_same:
  assumes "sound_owners tab0" "UpdateHubOwnerMeta w fault kind key i meta at tab0 = (r, tab)"
  shows "sound_owners tab \<and> holder tab = holder tab0"
proof (cases fault)
  case False
  with assms(2) obtain b where "update_where (kind, key) (\<lambda>r. ho_InstanceID r = i)
      (\<lambda>r. r\<lparr>ho_Meta := normalizeMeta meta, ho_UpdatedAt := unixMillis (or_wall w at)\<rparr>) tab0 = (b, tab)"
    by (auto simp: UpdateHubOwnerMeta_def map_prod_def split: prod.splits)
  from sound_update_where [OF assms(1) _ this] show ?thesis by simp
qed (use assms in \<open>simp add: UpdateHubOwnerMeta_def\<close>)

text \<open>The statements of a claim, one by one: \<open>after_claim\<close> is the system after one of task \<open>j\<close>.\<close>

definition after_claim ::
    "nat \<Rightarrow> (string \<times> string \<times> owner_key) list \<Rightarrow> claim_task \<Rightarrow> claim_phase \<Rightarrow> owners_table \<Rightarrow> owner_system \<Rightarrow> owner_system" where
  "after_claim j cs tk ph tab s =
     s\<lparr>os_tab := tab, os_tasks := (os_tasks s)[j := tk\<lparr>tk_phase := ph\<rparr>],
       os_condemned := os_condemned s @ cs\<rparr>"

lemma after_claim_simps [simp]:
  "os_tab (after_claim j cs tk ph tab s) = tab" "os_orphans (after_claim j cs tk ph tab s) = os_orphans s"
  "os_tasks (after_claim j cs tk ph tab s) = (os_tasks s)[j := tk\<lparr>tk_phase := ph\<rparr>]"
  "os_condemned (after_claim j cs tk ph tab s) = os_condemned s @ cs"
  "os_given (after_claim j cs tk ph tab s) = os_given s @ []" "os_asserted (after_claim j cs tk ph tab s) = os_asserted s @ []"
  by (simp_all add: after_claim_def)

lemma after_claim_same: "holder tab = holder (os_tab s) \<Longrightarrow> fair s (after_claim j cs tk ph tab s)"
  by (rule fair_same_holder) simp_all

lemma claim_read_ok:
  assumes "claim_read env fault (fst (tk_key tk)) (snd (tk_key tk)) encoded a (os_tab s) n = (ph, n')"
    and "tk_member tk = self_id n" "tk_phase tk = Reading a" "cs = condemns n env fault (os_tab s) tk"
  shows "task_ok (after_claim j cs tk ph (os_tab s) s) (tk\<lparr>tk_phase := ph\<rparr>)"
proof -
  obtain r n'' where l: "Lookup_owner env fault (fst (tk_key tk)) (snd (tk_key tk)) (os_tab s) n = (r, n'')" by fastforce
  show ?thesis
  proof (cases r)
    case (Inl e)
    with assms l have "ph = ClaimFailed e" by (simp add: claim_read_def)
    then show ?thesis by (simp add: task_ok_def)
  next
    case (Inr found)
    show ?thesis
    proof (cases found)
      case None
      with assms l Inr show ?thesis by (auto simp: claim_read_def task_ok_def self_id_def)
    next
      case (Some cur)
      from Lookup_owner_found [OF l [unfolded Inr Some]] obtain row
        where row: "map_of (os_tab s) (tk_key tk) = Some row" "ow_Row cur = scanHubOwnerRow row"
          "ow_Self cur = (ho_InstanceID row = self_id n)" "ow_InstanceID cur = ho_InstanceID row" by auto
      show ?thesis
        using assms l Inr Some row holder_Some [OF row(1)]
        by (auto simp: claim_read_def task_ok_def self_id_def held_def excused_def condemns_def Let_def split: if_splits)
    qed
  qed
qed

lemma claim_taking_ok:
  assumes "sound_owners (os_tab s)" "ClaimHubOwner w fault row expect (os_tab s) = (r, tab)"
    and "task_ok s (tk\<lparr>tk_phase := Taking a row expect\<rparr>)"
  shows "fair s (after_claim j cs tk ph tab s)" "r = Inr True \<Longrightarrow> held (after_claim j cs tk ph tab s) (tk_member tk) (tk_key tk)"
proof -
  have ok: "(ho_Kind row, ho_Key row) = tk_key tk" "ho_InstanceID row = tk_member tk"
    "expect = no_owner \<or> excused s (ho_InstanceID expect) (tk_key tk)" using assms(3) by (simp_all add: task_ok_def)
  show "fair s (after_claim j cs tk ph tab s)"
  proof (rule fair_displaced)
    fix m k
    assume "holder (os_tab s) k = Some m" "holder (os_tab (after_claim j cs tk ph tab s)) k \<noteq> Some m"
    then have "k = tk_key tk" "m = ho_InstanceID expect" "m \<noteq> []"
      using owner_rows.claim_displaces [OF assms(1,2)] ok(1) by simp_all
    then have "excused s m k" using ok(3) by (auto simp: no_owner_def)
    then show "excused (after_claim j cs tk ph tab s) m k" by (rule excused_more) simp_all
  qed simp_all
  show "held (after_claim j cs tk ph tab s) (tk_member tk) (tk_key tk)" if "r = Inr True"
    using owner_rows.claim_taken [OF assms(1) assms(2) [unfolded that]] ok by (simp add: held_def)
qed

lemma claim_step_ok:
  assumes "sound_owners (os_tab s)" "task_ok s tk" "tk_member tk = self_id n"
    and "claim_step env fault (fst (tk_key tk)) (snd (tk_key tk)) (tk_meta tk) (tk_phase tk) (os_tab s, n) = (ph, tab, n')"
    and cs: "cs = condemns n env fault (os_tab s) tk"
  shows "sound_owners tab \<and> fair s (after_claim j cs tk ph tab s) \<and> task_ok (after_claim j cs tk ph tab s) (tk\<lparr>tk_phase := ph\<rparr>)"
proof (cases "tk_phase tk")
  case (Reading a)
  with assms(4) have "claim_read env fault (fst (tk_key tk)) (snd (tk_key tk)) (encodeMeta (tk_meta tk)) a (os_tab s) n = (ph, n')" "tab = os_tab s"
    by (auto simp: claim_step_def Let_def split: prod.splits)
  with claim_read_ok [OF this(1) assms(3) Reading cs] assms(1) show ?thesis by (simp add: after_claim_same)
next
  case (Refreshing cur)
  obtain r where u: "UpdateHubOwnerMeta (ce_now env) fault (fst (tk_key tk)) (snd (tk_key tk)) (mb_ID (nd_self n))
      (encodeMeta (tk_meta tk)) (ce_now env) (os_tab s) = (r, tab)"
    and ph: "ph = ClaimFailed HubDriver \<or> (\<exists>own. ph = Answered own True)"
    using assms(4) Refreshing
    by (auto simp: claim_step_def UpdateHubOwnerMeta_def Let_def map_prod_def split: if_splits prod.splits sum.splits)
  have same: "sound_owners tab \<and> holder tab = holder (os_tab s)" by (rule update_meta_same [OF assms(1) u])
  have "held s (tk_member tk) (tk_key tk)" using assms(2) Refreshing by (simp add: task_ok_def)
  with same ph show ?thesis by (auto simp: after_claim_same task_ok_def intro: fair_held [OF after_claim_same])
next
  case (Taking a row expect)
  obtain r where c: "ClaimHubOwner (ce_now env) fault row expect (os_tab s) = (r, tab)"
    and ph: "(\<exists>e. ph = ClaimFailed e) \<or> (\<exists>k. ph = Reading k) \<or> ph = ReadingLast \<or> (r = Inr True \<and> (\<exists>own. ph = Answered own True))"
    using assms(4) Taking by (auto simp: claim_step_def Let_def split: sum.splits bool.splits prod.splits if_splits)
  have ok: "task_ok s (tk\<lparr>tk_phase := Taking a row expect\<rparr>)" using assms(2) Taking by (metis (full_types) claim_task.surjective claim_task.update_convs(4))
  note taking = claim_taking_ok [OF assms(1) c ok]
  from owner_rows.claim_sound [OF assms(1) c] taking ph show ?thesis by (auto simp: task_ok_def)
next
  case ReadingLast
  then obtain r where l: "Lookup_owner env fault (fst (tk_key tk)) (snd (tk_key tk)) (os_tab s) n = (r, n')" and tab: "tab = os_tab s"
    and ph: "ph = (case r of Inl e \<Rightarrow> ClaimFailed e | Inr None \<Rightarrow> Answered zero_owner False | Inr (Some cur) \<Rightarrow> Answered cur (ow_Self cur))"
    using assms(4) by (auto simp: claim_step_def Let_def split: sum.splits option.splits prod.splits)
  have "held (after_claim j cs tk ph tab s) (tk_member tk) (tk_key tk)" if "ph = Answered own True" for own
  proof -
    from that ph have "r = Inr (Some own)" "ow_Self own" by (auto split: sum.splits option.splits)
    from Lookup_owner_found [OF l [unfolded this(1)]] this(2) have "holder tab (tk_key tk) = Some (self_id n)"
      unfolding tab by (metis holder_Some prod.collapse)
    with assms(3) show ?thesis by (simp add: held_def)
  qed
  with ph tab assms(1) show ?thesis by (auto simp: after_claim_same task_ok_def split: sum.splits option.splits)
next
  case (Answered own taken)
  with assms(4) have eq: "ph = Answered own taken" "tab = os_tab s" by (simp_all add: claim_step_def Let_def)
  have "taken \<Longrightarrow> held s (tk_member tk) (tk_key tk)" using assms(2) Answered by (simp add: task_ok_def)
  then show ?thesis unfolding eq using assms(1) by (auto simp: after_claim_same task_ok_def intro: fair_held [OF after_claim_same])
next
  case (ClaimFailed e)
  with assms(4) have eq: "ph = ClaimFailed e" "tab = os_tab s" by (simp_all add: claim_step_def Let_def)
  show ?thesis unfolding eq using assms(1) by (simp add: after_claim_same task_ok_def)
qed

text \<open>Each action is a fair step.\<close>

lemma Orphans_rows:
  assumes "Orphans env fault kind tab n = Inr (owns, n')" "own \<in> set owns"
  shows "ow_Kind own = ho_Kind (ow_Row own)" "ow_Key own = ho_Key (ow_Row own)" "ow_InstanceID own = ho_InstanceID (ow_Row own)" "\<not> ow_Alive own"
proof -
  show "\<not> ow_Alive own" using assms by (auto simp: Orphans_def map_sum_def split: sum.splits)
  from assms obtain rows owns' where "owners_from env rows n = (owns', n')" "own \<in> set owns'"
    by (auto simp: Orphans_def Owned_def map_sum_def split: sum.splits)
  then have "own \<in> set (fst (owners_from env rows n))" by simp
  from owners_from_rows [OF this] show "ow_Kind own = ho_Kind (ow_Row own)" "ow_Key own = ho_Key (ow_Row own)"
    "ow_InstanceID own = ho_InstanceID (ow_Row own)" by auto
qed

lemma orphan_excused:
  "orphan_ok s p \<Longrightarrow> excused s (ho_InstanceID (ow_Row (snd p))) (ho_Kind (ow_Row (snd p)), ho_Key (ow_Row (snd p)))"
  by (metis orphan_ok_def)

lemma put_owner:
  assumes "sound_owners tab"
  shows "sound_owners (snd (PutHubOwner w fault row tab))"
    "k \<noteq> (ho_Kind row, ho_Key row) \<Longrightarrow> holder (snd (PutHubOwner w fault row tab)) k = holder tab k"
  using assms by (auto simp: PutHubOwner_def holder_update owner_row_error_None intro!: sound_update split: option.split)

lemma owners_inv_do:
  assumes "owners_inv s"
  shows "owners_inv (owner_do a s)"
proof -
  have inv: "sound_owners (os_tab s)" "list_all (task_ok s) (os_tasks s)" "list_all (orphan_ok s) (os_orphans s)"
    using assms by (simp_all add: owners_inv_def)
  note step = owners_inv_step [OF assms]
  show ?thesis
  proof (cases a)
    case (ClaimNew i k meta)
    have "fair s (owner_do a s)" by (rule fair_same_holder [of _ _ "[]" "[]" "[]"]) (simp_all add: ClaimNew)
    then show ?thesis by (rule step) (simp_all add: ClaimNew inv task_ok_def)
  next
    case (ClaimGo j n env fault)
    show ?thesis
    proof (cases "j < length (os_tasks s) \<and> tk_member (os_tasks s ! j) = self_id n")
      case True
      let ?tk = "os_tasks s ! j"
      obtain ph tab n' where c: "claim_step env fault (fst (tk_key ?tk)) (snd (tk_key ?tk)) (tk_meta ?tk) (tk_phase ?tk) (os_tab s, n) =
          (ph, tab, n')" by (metis prod_cases3)
      have do: "owner_do a s = after_claim j (condemns n env fault (os_tab s) ?tk) ?tk ph tab s" using ClaimGo True c by (simp add: after_claim_def Let_def)
      have "task_ok s ?tk" using inv(2) True by (simp add: list_all_length)
      from claim_step_ok [OF inv(1) this _ c refl, of j] True
      have "sound_owners tab" "fair s (owner_do a s)" "task_ok (owner_do a s) (?tk\<lparr>tk_phase := ph\<rparr>)" by (simp_all add: do)
      then show ?thesis by (intro step) (auto simp: do)
    qed (use ClaimGo assms in auto)
  next
    case (OrphansGo n env fault kind)
    show ?thesis
    proof (cases "Orphans env fault kind (os_tab s) n")
      case (Inr r)
      obtain owns n' where r: "r = (owns, n')" by fastforce
      have "fair s (owner_do a s)"
        by (rule fair_same_holder [of _ _ "map (\<lambda>own. (self_id n, ow_InstanceID own, ow_Kind own, ow_Key own)) (filter (\<lambda>own. \<not> ow_Alive own) owns)" "[]" "[]"])
          (simp_all add: OrphansGo Inr r)
      moreover have "list_all (orphan_ok (owner_do a s)) (map (Pair (self_id n)) owns)"
        using Orphans_rows [OF Inr [unfolded r]] by (fastforce simp: list_all_iff orphan_ok_def excused_def OrphansGo Inr r list_ex_iff)
      ultimately show ?thesis by (intro step) (auto simp: OrphansGo Inr r inv)
    qed (use OrphansGo assms in simp)
  next
    case (AdoptGo j n now fault meta)
    show ?thesis
    proof (cases "j < length (os_orphans s) \<and> fst (os_orphans s ! j) = self_id n")
      case True
      let ?own = "snd (os_orphans s ! j)"
      have ok: "orphan_ok s (os_orphans s ! j)" using inv(3) True by (simp add: list_all_length)
      obtain row r tab where c: "ClaimHubOwner now fault row (ow_Row ?own) (os_tab s) = (r, tab)"
        and row: "(ho_Kind row, ho_Key row) = (ow_Kind ?own, ow_Key ?own)" and tab: "os_tab (owner_do a s) = tab"
        using AdoptGo True by (simp add: Adopt_def Let_def) (metis HubOwnerRow.select_convs(1,2) prod.collapse)
      have "fair s (owner_do a s)"
      proof (rule fair_displaced [of _ _ "[]" "[]" "[]"])
        fix m k
        assume "holder (os_tab s) k = Some m" "holder (os_tab (owner_do a s)) k \<noteq> Some m"
        then have "k = (ho_Kind row, ho_Key row)" "m = ho_InstanceID (ow_Row ?own)"
          using owner_rows.claim_displaces [OF inv(1) c] tab by simp_all
        then have "excused s m k" using orphan_excused [OF ok] ok row by (simp add: orphan_ok_def Let_def)
        then show "excused (owner_do a s) m k" by (rule excused_more [of _ _ _ _ "[]" "[]" "[]"]) (use AdoptGo True in simp_all)
      qed (use AdoptGo True in simp_all)
      then show ?thesis by (rule step) (use AdoptGo True owner_rows.claim_sound [OF inv(1) c] tab in simp_all)
    qed (use AdoptGo assms in auto)
  next
    case (DropGo j fault)
    show ?thesis
    proof (cases "j < length (os_orphans s)")
      case True
      let ?own = "snd (os_orphans s ! j)"
      have ok: "orphan_ok s (os_orphans s ! j)" using inv(3) True by (simp add: list_all_length)
      obtain r tab where c: "ReleaseHubOwnerIfClaim fault (ow_Row ?own) (os_tab s) = (r, tab)" by fastforce
      then have tab: "os_tab (owner_do a s) = tab" using DropGo True by (simp add: Drop_def)
      have "fair s (owner_do a s)"
      proof (rule fair_displaced [of _ _ "[]" "[]" "[]"])
        fix m k
        assume "holder (os_tab s) k = Some m" "holder (os_tab (owner_do a s)) k \<noteq> Some m"
        then have "k = (ho_Kind (ow_Row ?own), ho_Key (ow_Row ?own)) \<and> m = ho_InstanceID (ow_Row ?own)"
          using owner_rows.remove_displaces [OF inv(1) c] tab by simp
        then have "excused s m k" using orphan_excused [OF ok] by simp
        then show "excused (owner_do a s) m k" by (rule excused_more [of _ _ _ _ "[]" "[]" "[]"]) (use DropGo True in simp_all)
      qed (use DropGo True in simp_all)
      then show ?thesis by (rule step) (use DropGo True owner_rows.removed [OF inv(1) c] tab in simp_all)
    qed (use DropGo assms in simp)
  next
    case (ReleaseGo n fault k)
    obtain r tab where c: "ReleaseHubOwner fault (fst k) (snd k) (self_id n) (os_tab s) = (r, tab)" by fastforce
    then have tab: "os_tab (owner_do a s) = tab" using ReleaseGo by (simp add: Release_owner_def self_id_def)
    have "fair s (owner_do a s)"
    proof (rule fair_displaced [of _ _ "[]" "[(self_id n, k)]" "[]"])
      fix m k'
      assume "holder (os_tab s) k' = Some m" "holder (os_tab (owner_do a s)) k' \<noteq> Some m"
      then have "k' = k \<and> m = self_id n" using owner_rows.give_up_displaces [OF inv(1) c] tab by simp
      then show "excused (owner_do a s) m k'" by (simp add: excused_def ReleaseGo)
    qed (use ReleaseGo in simp_all)
    then show ?thesis by (rule step) (use ReleaseGo owner_rows.given_up [OF inv(1) c] tab in simp_all)
  next
    case (MetaGo n now fault k meta)
    obtain r tab where c: "UpdateHubOwnerMeta now fault (fst k) (snd k) (mb_ID (nd_self n)) (encodeMeta meta) now (os_tab s) = (r, tab)" by fastforce
    then have tab: "os_tab (owner_do a s) = tab" using MetaGo by (simp add: UpdateMeta_def)
    have same: "sound_owners tab \<and> holder tab = holder (os_tab s)" by (rule update_meta_same [OF inv(1) c])
    have "fair s (owner_do a s)" by (rule fair_same_holder [of _ _ "[]" "[]" "[]"]) (use MetaGo tab same in simp_all)
    then show ?thesis by (rule step) (use MetaGo tab same in simp_all)
  next
    case (AssertGo n now fault k meta)
    let ?row = "\<lparr>ho_Kind = fst k, ho_Key = snd k, ho_InstanceID = mb_ID (nd_self n), ho_Meta = encodeMeta meta, ho_ClaimedAt = now, ho_UpdatedAt = now\<rparr>"
    have tab: "os_tab (owner_do a s) = snd (PutHubOwner now fault ?row (os_tab s))" by (simp add: AssertGo Assert_def)
    note put = put_owner [OF inv(1), where w = now and fault = fault and row = ?row]
    have "fair s (owner_do a s)"
    proof (rule fair_displaced [of _ _ "[]" "[]" "[k]"])
      fix m k'
      assume "holder (os_tab s) k' = Some m" "holder (os_tab (owner_do a s)) k' \<noteq> Some m"
      then have "k' = k" using put(2) [where k = k'] tab by (cases "k' = k") auto
      then show "excused (owner_do a s) m k'" by (simp add: excused_def AssertGo)
    qed (use AssertGo in simp_all)
    then show ?thesis by (rule step) (use AssertGo tab put(1) in simp_all)
  qed
qed

interpretation owners_sys: preserved owner_step owners_inv
  by unfold_locales (auto simp: owner_step_def owners_inv_do)

lemma owner_run_steps: "owner_step\<^sup>*\<^sup>* s (owner_run acts s)"
proof (induction acts arbitrary: s)
  case (Cons a acts)
  have "owner_step s (owner_do a s)" by (auto simp: owner_step_def)
  with Cons.IH [of "owner_do a s"] show ?case by (simp add: owner_run_def converse_rtranclp_into_rtranclp)
qed (simp add: owner_run_def)

text \<open>C14: In every interleaving of the statements of claims, adoptions, drops, releases and assertions,
  with any failures and whatever the members think of one another, of two different members that were
  granted one key one was judged not serving by some member, or gave the key up itself, or the key is
  one that members assert: a run is not dispatched twice while its owner is seen to serve.
\<close>

theorem claims_exclude_each_other:
  assumes "sound_owners tab" and "s = owner_run acts (owner_start tab)"
    and "a \<in> set (os_tasks s)" "b \<in> set (os_tasks s)" "claim_granted a" "claim_granted b"
    and "tk_key a = tk_key b" "tk_member a \<noteq> tk_member b"
  shows "excused s (tk_member a) (tk_key a) \<or> excused s (tk_member b) (tk_key a)"
proof -
  have "owners_inv (owner_start tab)" using assms(1) by (simp add: owners_inv_def owner_start_def)
  then have "owners_inv s" unfolding assms(2) by (rule owners_sys.steps_keep [OF owner_run_steps])
  then have "task_ok s a" "task_ok s b" using assms(3,4) by (auto simp: owners_inv_def list_all_iff)
  then have "held s (tk_member a) (tk_key a)" "held s (tk_member b) (tk_key a)"
    using assms(5-7) by (auto simp: task_ok_def claim_granted_def split: claim_phase.splits)
  with assms(8) show ?thesis by (auto simp: held_def)
qed

text \<open>The first member claims a run; the second finds no row of the first and takes it over.\<close>

definition lone_view :: "int \<Rightarrow> cluster_env" where
  "lone_view s = \<lparr>ce_now = unix_epoch + (1700000000 + s) * go_second, ce_alive = (\<lambda>p. True), ce_fault = False, ce_members = []\<rparr>"

definition project_run :: owner_key where "project_run = (OwnerKindRun, ''/srv/p'')"

definition run_takeover :: "owner_act list" where
  "run_takeover = [ClaimNew ''hub1'' project_run None, ClaimGo 0 (plain_node ''hub1'') (lone_view 0) False,
     ClaimGo 0 (plain_node ''hub1'') (lone_view 1) False, ClaimNew ''hub2'' project_run None,
     ClaimGo 1 (plain_node ''hub2'') (lone_view 2) False, ClaimGo 1 (plain_node ''hub2'') (lone_view 3) False]"

lemma run_takeover_tasks:
  "length (os_tasks (owner_run run_takeover (owner_start []))) = 2"
  "claim_granted (os_tasks (owner_run run_takeover (owner_start [])) ! 0)" "claim_granted (os_tasks (owner_run run_takeover (owner_start [])) ! 1)"
  "tk_key (os_tasks (owner_run run_takeover (owner_start [])) ! 0) = project_run" "tk_key (os_tasks (owner_run run_takeover (owner_start [])) ! 1) = project_run"
  "tk_member (os_tasks (owner_run run_takeover (owner_start [])) ! 0) = ''hub1''" "tk_member (os_tasks (owner_run run_takeover (owner_start [])) ! 1) = ''hub2''"
  "sound_owners []"
  by code_simp+

theorem claims_exclude_each_other_witness:
  "excused (owner_run run_takeover (owner_start [])) ''hub1'' project_run \<or> excused (owner_run run_takeover (owner_start [])) ''hub2'' project_run"
proof -
  let ?ts = "os_tasks (owner_run run_takeover (owner_start []))"
  have "?ts ! 0 \<in> set ?ts" "?ts ! 1 \<in> set ?ts" using run_takeover_tasks(1) by (simp_all add: nth_mem)
  from claims_exclude_each_other [OF run_takeover_tasks(8) refl this run_takeover_tasks(2,3)] run_takeover_tasks(4-7) show ?thesis by simp
qed

section \<open>A claim answers\<close>

text \<open>How many statements a claim has left at most.\<close>

fun statements_left :: "claim_phase \<Rightarrow> nat" where
  "statements_left (Reading a) = 2 * (2 - a) + 3"
| "statements_left (Taking a row expect) = 2 * (2 - a) + 2"
| "statements_left (Refreshing own) = 1"
| "statements_left ReadingLast = 1"
| "statements_left (Answered own taken) = 0"
| "statements_left (ClaimFailed e) = 0"

lemma claim_step_progress:
  "statements_left ph \<noteq> 0 \<Longrightarrow> statements_left (fst (claim_step env fault kind key meta ph s)) < statements_left ph"
  by (cases ph)
    (auto simp: claim_step_def claim_read_def Let_def split: prod.split sum.split option.split bool.split)

lemma claim_moments: "statements_left ph \<le> length moments \<Longrightarrow> statements_left (fst (Claim moments kind key meta ph s)) = 0"
proof (induction moments arbitrary: ph s)
  case (Cons m moments)
  obtain others env fault where m: "m = (others, env, fault)" by (metis prod_cases3)
  show ?case
  proof (cases "statements_left ph = 0")
    case True
    then show ?thesis unfolding m by (cases ph) simp_all
  next
    case False
    obtain ph' s' where step: "claim_step env fault kind key meta ph (others (fst s), snd s) = (ph', s')" by (metis surj_pair)
    with claim_step_progress [OF False, of env fault kind key meta "(others (fst s), snd s)"] Cons.prems
    have "statements_left ph' \<le> length moments" by simp
    from Cons.IH [OF this, of s'] False step show ?thesis unfolding m by (cases ph) simp_all
  qed
qed simp

text \<open>A claim answers after at most seven statements, whatever others do to the table between them:
  three attempts of two statements each, and a last read.
\<close>

theorem claim_answers_within_seven_statements:
  "7 \<le> length moments \<Longrightarrow>
   case fst (Claim moments kind key meta (Reading 0) s) of Answered own taken \<Rightarrow> True | ClaimFailed e \<Rightarrow> True | _ \<Rightarrow> False"
  using claim_moments [of "Reading 0" moments kind key meta s]
  by (cases "fst (Claim moments kind key meta (Reading 0) s)") simp_all

text \<open>Two other members hand the key back and forth between the statements of the third.\<close>

definition other_row :: "string \<Rightarrow> int \<Rightarrow> HubOwnerRow" where
  "other_row i s = \<lparr>ho_Kind = OwnerKindRun, ho_Key = ''/srv/p'', ho_InstanceID = i, ho_Meta = ''{}'', ho_ClaimedAt = ce_now (lone_view s),
     ho_UpdatedAt = ce_now (lone_view s)\<rparr>"

definition contended :: "((owners_table \<Rightarrow> owners_table) \<times> cluster_env \<times> bool) list" where
  "contended = map (\<lambda>s. (\<lambda>tab. snd (PutHubOwner 0 False (other_row (if s mod 2 = 0 then ''hub1'' else ''hub3'') s) tab), lone_view s, False))
     [0, 1, 2, 3, 4, 5, 6]"

theorem claim_answers_within_seven_statements_witness:
  "case fst (Claim contended OwnerKindRun ''/srv/p'' None (Reading 0) ([], plain_node ''hub2'')) of
     Answered own taken \<Rightarrow> True | ClaimFailed e \<Rightarrow> True | _ \<Rightarrow> False"
  by (rule claim_answers_within_seven_statements) (simp add: contended_def)

section \<open>Where the answer of a call and the table part\<close>

text \<open>A \<open>Claim\<close> of a key the member holds ignores whether the refresh of its metadata found the row:
  it answers that the key is held after another member adopted it between the two statements.\<close>

theorem claim_reports_a_lost_key:
  "(let tab = snd (PutHubOwner 0 False (other_row ''hub2'' 0) []);
        adopt = (\<lambda>tab. snd (ClaimHubOwner 0 False (other_row ''hub3'' 1) (other_row ''hub2'' 0) tab));
        (ph, tab', n) = Claim [(id, lone_view 1, False), (adopt, lone_view 2, False)] OwnerKindRun ''/srv/p'' None (Reading 0)
          (tab, plain_node ''hub2'')
    in (case ph of Answered own taken \<Rightarrow> taken | _ \<Rightarrow> False) \<and> holder tab' project_run = Some ''hub3'')"
  by code_simp

text \<open>An adoption is conditioned on the row only where there is one: after the owner settled its run
  and released the claim, a member that read it as an orphan before adopts it still.\<close>

theorem adopt_revives_a_released_claim:
  "(let tab = snd (PutHubOwner 0 False (other_row ''hub1'' 0) []);
        orphans = (case Orphans (lone_view 1) False OwnerKindRun tab (plain_node ''hub2'') of Inl e \<Rightarrow> [] | Inr (owns, n) \<Rightarrow> owns);
        tab1 = snd (Release_owner False OwnerKindRun ''/srv/p'' (plain_node ''hub1'') tab);
        (r, tab2) = Adopt (ce_now (lone_view 2)) False (hd orphans) None (plain_node ''hub2'') tab1
    in length orphans = 1 \<and> holder tab1 project_run = None \<and> r = Inr True \<and> holder tab2 project_run = Some ''hub2'')"
  by code_simp

section \<open>Members and observers judge a run claim alike\<close>

text \<open>What a process that is not a member makes of a row.\<close>

definition peeked :: "Identity \<Rightarrow> (int \<Rightarrow> bool) \<Rightarrow> time \<Rightarrow> members_table \<Rightarrow> HubOwnerRow \<Rightarrow> Owner" where
  "peeked local_id alive now tab row =
     (let own = \<lparr>ow_Kind = ho_Kind row, ow_Key = ho_Key row, ow_InstanceID = ho_InstanceID row, ow_Member = unknown_member,
                 ow_Self = False, ow_Alive = False, ow_Row = row\<rparr>
      in case map_of (rev (map (\<lambda>m. (mr_InstanceID m, m)) (listed tab))) (ho_InstanceID row) of
           None \<Rightarrow> own
         | Some m \<Rightarrow> own\<lparr>ow_Member := memberFromRow m, ow_Alive := RowAlive local_id alive m now\<rparr>)"

lemma PeekRunClaims_rows:
  "PeekRunClaims local_id alive False (Some (members, owners)) now =
     map_sum id (map (peeked local_id alive now members)) (ListHubOwners False OwnerKindRun owners)"
  by (simp add: PeekRunClaims_def PeekHubCluster_def ListHubMembers_def listed_def ListHubOwners_def peeked_def [abs_def] Let_def)

lemma peeked_found:
  assumes "rows_keyed tab" "map_of tab (ho_InstanceID row) = Some r"
  shows "ow_Member (peeked local_id alive now tab row) = memberFromRow (member_of_cells r)"
    "ow_Alive (peeked local_id alive now tab row) = RowAlive local_id alive (member_of_cells r) now"
proof -
  note l = listed_rows [OF assms(1)]
  have r: "member_of_cells r \<in> set (listed tab)" using assms(2) by (force simp: l(2) dest: map_of_SomeD)
  have i: "mr_InstanceID (member_of_cells r) = ho_InstanceID row"
    using assms by (auto simp: member_of_cells_def rows_keyed_def list_all_iff dest: map_of_SomeD)
  have "map_of (rev (map (\<lambda>m. (mr_InstanceID m, m)) (listed tab))) (ho_InstanceID row) = Some (member_of_cells r)"
    using l(1) r i by (intro map_of_is_SomeI) (auto simp: rev_map [symmetric] o_def image_iff)
  then show "ow_Member (peeked local_id alive now tab row) = memberFromRow (member_of_cells r)"
    "ow_Alive (peeked local_id alive now tab row) = RowAlive local_id alive (member_of_cells r) now"
    by (simp_all add: peeked_def Let_def)
qed

lemma peeked_stranger:
  assumes "rows_keyed tab" "map_of tab (ho_InstanceID row) = None"
  shows "ow_Member (peeked local_id alive now tab row) = unknown_member" "\<not> ow_Alive (peeked local_id alive now tab row)"
proof -
  have "ho_InstanceID row \<notin> mr_InstanceID ` set (listed tab)"
    using assms(2) by (simp add: listed_rows(3) [OF assms(1)] map_of_eq_None_iff)
  then have "map_of (rev (map (\<lambda>m. (mr_InstanceID m, m)) (listed tab))) (ho_InstanceID row) = None"
    by (auto simp: map_of_eq_None_iff)
  then show "ow_Member (peeked local_id alive now tab row) = unknown_member" "\<not> ow_Alive (peeked local_id alive now tab row)"
    by (simp_all add: peeked_def Let_def)
qed

lemma peeked_row [simp]: "ow_Row (peeked local_id alive now tab row) = row"
  by (simp add: peeked_def Let_def split: option.split)

lemma RunClaimLive_cong:
  "ow_Alive a = ow_Alive b \<Longrightarrow> ow_Row a = ow_Row b \<Longrightarrow> mb_HeartbeatAt (ow_Member a) = mb_HeartbeatAt (ow_Member b) \<Longrightarrow>
   RunClaimLive decode a now grace = RunClaimLive decode b now grace"
  by (simp add: RunClaimLive_def owner_meta_def)

lemma Responsive_same: "nd_self a = nd_self b \<Longrightarrow> nd_probes a = nd_probes b \<Longrightarrow> Responsive a i \<longleftrightarrow> Responsive b i"
  by (simp add: Responsive_def unresponsiveErr_def)

text \<open>A member with the default TTL that has just read the member table, and has not judged the owner
  unresponsive, and a process on the same machine that only peeks at the tables agree on whether a
  claim of another member means the project's run is executing.
\<close>

theorem observers_agree_on_run_claims:
  assumes "rows_keyed (ce_members env)" "\<not> ce_fault env" "n = snd (refresh env n0)"
    and "co_MemberTTL (nd_opts n0) = DefaultMemberTTL" "ho_InstanceID row \<noteq> mb_ID (nd_self n0)" "ho_InstanceID row \<noteq> []"
    and "Responsive n0 (ho_InstanceID row)"
  shows "RunClaimLive decode (fst (ownerFrom env row n)) now grace =
    RunClaimLive decode (peeked (node_identity n0) (ce_alive env) (ce_now env) (ce_members env) row) now grace"
proof -
  let ?i = "ho_InstanceID row"
  have same: "nd_self n = nd_self n0" "nd_probes n = nd_probes n0" "nd_opts n = nd_opts n0"
    by (simp_all add: assms(3))
  have resp: "Responsive (snd (refresh env n)) ?i" "Responsive n ?i"
    using assms(7) Responsive_same [of n n0] Responsive_same [of "snd (refresh env n)" n0] same by simp_all
  show ?thesis
  proof (cases "map_of (ce_members env) ?i")
    case None
    have "Member_of n ?i = None" "Member_of (snd (refresh env n)) ?i = None"
      using refreshed_stranger [OF assms(1,2) None] assms(3,5) same by simp_all
    then have "ow_Member (fst (ownerFrom env row n)) = unknown_member" "\<not> ow_Alive (fst (ownerFrom env row n))"
      using assms(5,6) same by (auto simp: ownerFrom_def Serving_def IsAlive_def Let_def split: prod.split sum.split)
    with peeked_stranger [OF assms(1) None] show ?thesis by (intro RunClaimLive_cong) (simp_all add: ownerFrom_simps)
  next
    case (Some r)
    have m: "Member_of n ?i = Some (seen_member n0 env (member_of_cells r))"
      unfolding assms(3) by (rule refreshed_member [OF assms(1,2) Some])
    have i: "mr_InstanceID (member_of_cells r) = ?i"
      using assms(1) Some by (auto simp: member_of_cells_def rows_keyed_def list_all_iff dest: map_of_SomeD)
    have "ow_Member (fst (ownerFrom env row n)) = seen_member n0 env (member_of_cells r)"
      "ow_Alive (fst (ownerFrom env row n)) = mb_Alive (seen_member n0 env (member_of_cells r))"
      using m assms(5,6) same resp by (simp_all add: ownerFrom_def Serving_def IsAlive_def Let_def)
    moreover have "mb_Alive (seen_member n0 env (member_of_cells r)) =
        RowAlive (node_identity n0) (ce_alive env) (member_of_cells r) (ce_now env)"
      using assms(4,5) i by (simp add: seen_member_def judgeAlive_def RowAlive_def memberFromRow_def Let_def)
    moreover have "mb_HeartbeatAt (seen_member n0 env (member_of_cells r)) = mb_HeartbeatAt (memberFromRow (member_of_cells r))"
      by (simp add: seen_member_def Let_def)
    ultimately show ?thesis
      using peeked_found [OF assms(1) Some] by (intro RunClaimLive_cong) (simp_all add: ownerFrom_simps)
  qed
qed

text \<open>The owner stopped beating a minute ago.\<close>

definition stale_view :: cluster_env where
  "stale_view = (lone_view 60)\<lparr>ce_members := snd (JoinHubMember (ce_now (lone_view 0)) False (memberRow (plain_node ''hub1'')) [])\<rparr>"

theorem observers_agree_on_run_claims_witness:
  "RunClaimLive (\<lambda>s. None) (fst (ownerFrom stale_view (other_row ''hub1'' 0) (snd (refresh stale_view (plain_node ''hub2''))))) (ce_now (lone_view 70)) DefaultOrphanRunGrace =
   RunClaimLive (\<lambda>s. None) (peeked (node_identity (plain_node ''hub2'')) (ce_alive stale_view) (ce_now stale_view) (ce_members stale_view)
     (other_row ''hub1'' 0)) (ce_now (lone_view 70)) DefaultOrphanRunGrace"
proof -
  have facts: "rows_keyed (ce_members stale_view)" "\<not> ce_fault stale_view" "co_MemberTTL (nd_opts (plain_node ''hub2'')) = DefaultMemberTTL"
    "ho_InstanceID (other_row ''hub1'' 0) \<noteq> mb_ID (nd_self (plain_node ''hub2''))" "ho_InstanceID (other_row ''hub1'' 0) \<noteq> []"
    "Responsive (plain_node ''hub2'') (ho_InstanceID (other_row ''hub1'' 0))" by code_simp+
  show ?thesis by (rule observers_agree_on_run_claims [OF facts(1,2) refl facts(3-6)])
qed

end
