(* ===== verification/Spec2Isabelle.thy ===== *)
theory Spec2Isabelle
  imports Plan PlanOps Gate Cron Version Health Executor Isolated Placement GitPolicy PktLine ReceivePack
    PushGate Authz HubLease AuditChain AuditLoss FwDispatch NetworkPolicy
    QuotaShared HubStore HubVerdict HubDelivery HubLife HubClaims
begin

text \<open>
  A verification development for cloop, a hub that plans tasks for coding agents and runs them on
  executors (the repository's Go code below \<open>src/pkg\<close>).

  The program. A plan (\<open>pkg/pm\<close>) is a list of tasks with statuses, priorities and dependencies.
  The orchestrator (\<open>pkg/orchestrator\<close>) asks the execution gate which tasks run next, runs them
  through a provider, and follows their outcome: branches, recurrence, deadlines, quarantine. A
  workload runs on an executor (\<open>pkg/executor\<close>): the registry resolves the project's binding, the
  supervisor keeps a health record per executor, placement chooses among candidates, and
  process-wide policies (no host execution, a minimum agent build, isolation evidence) restrict
  all of them. Versions (\<open>pkg/version\<close>) order the builds of devices and releases. A workload
  reaches its forge only through the hub's git proxy (\<open>pkg/gitproxy\<close>), which reads the commands
  of a push, decides each against the session's policy, scans the pack and forwards the bytes or
  answers with a refusal. Whoever calls the hub is held to a decision of the authorization core
  (\<open>pkg/authz\<close>). Hubs that share a database agree on who serves through a lease row
  (\<open>pkg/hublease\<close>), serve one control plane together as members of a cluster (\<open>pkg/hubcluster\<close>) and
  share the counters that cap what an identity may hold or spend (\<open>pkg/quota\<close>), and what they do is kept in a hash-chained audit trail (\<open>pkg/statedb\<close>). What a
  workload may reach on the network is set in levels, by the executor's configuration, the device,
  the executor and the project; a dispatch composes them (\<open>pkg/fwpolicy\<close>) and the driver installs
  the filter compiled from the result (\<open>pkg/netfilter\<close>).

  Theories, in the order they import each other.
  \<^item> \<open>CloopPrelude\<close>: times, the stable sort, the locales \<open>strict_weak_order\<close> (a comparison a sort
    may be given), \<open>ratchet\<close> (a switch configuration can only tighten) and \<open>preserved\<close> (a step
    relation with an invariant).
  \<^item> \<open>GoStrings\<close>: the functions of Go's \<open>strings\<close> and \<open>strconv\<close> the code calls.
  \<^item> \<open>Plan\<close>: \<open>pm/pm.go\<close>, with \<open>TaskAbort\<close> of \<open>abort.go\<close> and \<open>Quarantined\<close> of
    \<open>quarantine.go\<close>. Data, the execution order (\<open>LessByExecutionOrder\<close>, an instance of
    \<open>strict_weak_order\<close>), \<open>DepsReady\<close>, \<open>NextTask\<close>, \<open>IsComplete\<close>. The properties: the next task
    heads the queue and the queue does not depend on storage order; beside them, a complete plan
    has no work.
  \<^item> \<open>PlanOps\<close>: \<open>branch.go\<close>, \<open>resolveIDCollisions\<close>, \<open>move.go\<close>, \<open>abort.go\<close>, \<open>quarantine.go\<close>,
    \<open>deadline.go\<close> and \<open>validateDependsOn\<close> of \<open>pkg/ui/validate.go\<close>. The properties: branching
    refines per-task rules, new ids are fresh and sibling dependencies survive renumbering;
    beside them, suspicion needs two nodes, accepted dependency lists are sound and the deadline
    sweep settles.
  \<^item> \<open>Gate\<close>: \<open>orchestrator/gate.go\<close> and \<open>condition/condition.go\<close>, with the caller's loop. The
    properties: what runs was allowed to run and the loop ends; beside them, the sweep is
    simultaneous.
  \<^item> \<open>Cron\<close>: \<open>pm/recurrence.go\<close>. The property: the trigger found is the first one; beside it, the
    value 7 is read as 0 in every field and a due task is reset once.
  \<^item> \<open>Version\<close>: \<open>version.go\<close>, \<open>edge.go\<close>, \<open>sequence.go\<close>, \<open>releases.go\<close>. Theorems: comparison is a linear order, release bounds are
    sound, classification follows the order.
  \<^item> \<open>Health\<close>: \<open>executor/health.go\<close> with its step relation. The property: counter and state are what
    the history of probes and of an operator's requests says, probes of a held node included; beside
    it, sustained failure is seen, an operator's hold is kept and transitions are truthful.
  \<^item> \<open>Executor\<close>: \<open>executor/registry.go\<close>, \<open>policy.go\<close>, \<open>policypath.go\<close>, \<open>agentbuild.go\<close> and the
    capabilities of \<open>executor.go\<close>. Goroutines interleave the two halves of a registration (the check,
    the insertion under the lock) with those of a policy (the switch, the list, one eviction at a
    time). The property: a strict registry isolates, with its two exceptions named; beside it, the
    race that makes the second, resolution fails closed, and the floor, which rises when applied
    sequentially, can fall when applied concurrently.
  \<^item> \<open>Isolated\<close>: \<open>isolationprobe/classify.go\<close>, \<open>evidence.go\<close>, \<open>executor/isolation.go\<close> and
    \<open>virtualization.go\<close>. The properties: verdicts never invent isolation and a claim is judged by
    an order; beside them, refusals survive configuration.
  \<^item> \<open>Placement\<close>: \<open>executor/placement.go\<close> and the build ranking of \<open>agentbuild.go\<close>. The
    property: a selection respects the security policies, where a node that declares no isolation
    level passes for one that has some; beside it, selection is sound and complete and follows the
    ranking.
  \<^item> \<open>GoPath\<close>: Go's \<open>path.Match\<close>, with its scanning of chunks and classes and the decoding of
    UTF-8 it rests on; no star or class crosses a slash.
  \<^item> \<open>GitPolicy\<close>: \<open>gitproxy/policy.go\<close> (patterns, \<open>Normalize\<close>, \<open>Validate\<close>, \<open>Decide\<close>), the ref
    names of \<open>receivepack.go\<close>, the policy \<open>Mint\<close> gives a session and the branch names
    \<open>executor/writeback.go\<close> and \<open>workspace.go\<close> accept. The properties: which accepted branches the
    proxy takes, where normalising is idempotent, what a glob before \<open>/**\<close> admits.
  \<^item> \<open>PktLine\<close>: \<open>gitproxy/pktline.go\<close>, reading and writing of packets over a stream that may end
    or fail, and the sideband; \<open>ReceivePack\<close>: \<open>gitproxy/receivepack.go\<close> and \<open>handleReceivePack\<close> of
    \<open>proxy.go\<close>. The properties: commands parse back from what was written, and a client reads one line
    per command in a refusal; beside them, a push is let through whole or refused.
  \<^item> \<open>PushGate\<close>: \<open>gitproxy/pushgate.go\<close> and the held bytes of \<open>packscan.go\<close>, four parties (the scan,
    the pump, the transport that reads and closes the request's body, the handler that waits for
    the scan) whose interleaving is a list of actions; bytes move only while the transport reads.
    The properties: what a default session pushes, from the decision to the forge, the forge
    completes only a clean push, and no reachable state is stuck.
  \<^item> \<open>Authz\<close>: \<open>pkg/authz\<close>: roles and permissions, bindings and their normalisation, \<open>Resolve\<close>,
    \<open>DeniedBy\<close>, the combinators of decisions, audiences and fresh claims. The properties: a
    decision follows the declared precedence and \<open>New\<close> builds well-formed resolvers; beside them,
    denials only withdraw, pinned bindings never reach the hub, combinators are exact, and \<open>New\<close>
    names the first bad mapping.
  \<^item> \<open>HubLease\<close>: \<open>hublease/hublease.go\<close> and the statements of \<open>statedb/hub_instances.go\<close>: one step per
    statement, and runs of several hubs with crashes, pauses, driver errors and operator clears. The
    properties: one holder at a time, an abandoned lease is taken; beside them, what \<open>Acquire\<close>
    answers and that a hub whose beats fail can serve on beside its successor.
  \<^item> \<open>GoTime\<close>, \<open>Sha256\<close>: the RFC 3339 text of a time and SHA-256, both executable.
  \<^item> \<open>AuditChain\<close>: \<open>statedb/audit.go\<close>, \<open>audit_anchor.go\<close> and the head of \<open>audit_checkpoint.go\<close>:
    appending with its retries, the walk, pruning behind an anchor. The properties: any history of
    operations verifies, a head pins the rows or shows a collision, deletions are noticed, an append
    is all or nothing; beside them, text can shift between two fields and a cutoff is compared as text.
  \<^item> \<open>AuditLoss\<close>: \<open>statedb/audit_failures.go\<close>, the account of events that could not be written. The
    properties: every event offered, counted at the call, is accounted for, and gap rows stay small.
  \<^item> \<open>NetAddr\<close>: what the code uses of Go's \<open>net/netip\<close>, a prefix being also the set of its addresses;
    \<open>PrefixSet\<close>: the set algebra of \<open>fwpolicy/prefixset.go\<close>. The property: \<open>aggregate\<close> keeps the
    addresses and gives a shortest list.
  \<^item> \<open>CloudMeta\<close>: the table and rule of \<open>cloudmeta/cloudmeta.go\<close>; \<open>NetFilter\<close>: \<open>netfilter/policy.go\<close>,
    the compiler stage by stage and \<open>Evaluate\<close>. What a compiled filter reaches is given in closed
    form (\<open>filter_reach\<close>). The property: a metadata service needs its own name.
  \<^item> \<open>FwRules\<close>: \<open>executor/firewall.go\<close>, the editable rule set and its normal form; \<open>FwPolicy\<close>,
    \<open>FwContain\<close>: \<open>Effective\<close> and \<open>Permits\<close> of \<open>fwpolicy/fwpolicy.go\<close>; \<open>FwConstrain\<close>: \<open>Constrain\<close> and
    \<open>CloseMetadata\<close>. The properties: rules without an objection compile to a filter contained in the
    governing one and in their own, and a narrowing is contained in its source, and in the level above
    once that level's denials are added as \<open>Effective\<close> adds them; beside them, it says when it narrows, closing metadata
    services changes nothing and the fallback of \<open>Constrain\<close> is reached.
  \<^item> \<open>FwDispatch\<close>: \<open>fwpolicy/dispatch.go\<close>. The property: a dispatch confines the workload to every
    level, exactly where something is stored, and leaves a spec it refuses alone; beside it, what the
    driver's check shows and what it does not, and that the driver accepts what a dispatch ships.
  \<^item> \<open>NetworkPolicy\<close>: \<open>netfilter/networkpolicy.go\<close>. The property: the rendered object admits
    exactly what the filter allows where ports are listed; beside it, more where they are not.
  \<^item> \<open>Quota\<close>: \<open>quota/quota.go\<close>, ceilings and the policy that assigns them to identities of \<open>Authz\<close>. The
    properties: the most specific and then the tightest binding rules, joining groups never raises;
    beside them, accepted bindings that match nobody.
  \<^item> \<open>QuotaEnforce\<close>: \<open>quota/enforce.go\<close> with the statements of \<open>statedb/quotas.go\<close>; \<open>QuotaShared\<close>: what
    they promise, by the locale \<open>atomic_counters\<close> interpreted on \<open>AdjustQuotaCounter\<close>, an abstract
    ledger and runs of several processes with their starts, each a load and a rebuild of the gauges
    unless peers are alive. The properties: shared caps are exact while no adjustment fails and a
    rebuild reads what is held, each operation is one step of the ledger, a restart hands out no
    budget while the counters can be written and read; beside them, where a failed statement breaks
    that.

  \<^item> \<open>HubStore\<close>: \<open>statedb/hub_cluster.go\<close>, the four tables of a cluster and every statement on them,
    times as integer milliseconds. The property: a single-use value is fresh once.
  \<^item> \<open>HubNode\<close>: membership, liveness, probing and leadership of a member (\<open>hubcluster/hubcluster.go\<close>,
    \<open>probe.go\<close>, \<open>leader.go\<close>, the last over \<open>Acquire\<close> of \<open>HubLease\<close>); \<open>HubVerdict\<close>: verdicts follow
    failures, adoption has one leader, and a stuck leader is stood in for.
  \<^item> \<open>HubBus\<close>: \<open>hubcluster/bus.go\<close> with joining, beating and leaving; \<open>HubDelivery\<close>: a reader among
    arbitrary writers and prunes hears every event addressed to it or is told of a gap, and none
    twice; beside it, holes that are passed over. \<open>HubLife\<close>: a beat keeps the member, whatever
    statements other processes make between its own and after it, unless one undoes it.
  \<^item> \<open>HubOwners\<close>: \<open>hubcluster/owners.go\<close> statement by statement, and \<open>runclaim.go\<close>; \<open>HubClaims\<close>: the
    locale \<open>owner_store\<close> interpreted on the owner rows, and runs of all members. The property: claims
    exclude each other; beside it, a claim answers within seven statements, members and observers
    judge a run claim alike, and two calls whose answer and table part.

  Conventions. A Go struct is a record with the source's field names behind a prefix, a string
  enumeration a datatype with the source's constant names (and a constructor for any other
  string), a pointer that may be nil an option, a map an association list or a function, an error
  a value of a datatype. A method with a pointer receiver returns the updated record; a
  \<open>*Task\<close> is an index into the plan. Process-wide state (the switches of \<open>pkg/executor\<close>) is an
  argument and a result. A lock makes a step atomic; \<open>Register\<close> and
  \<open>ApplyHostExecutionPolicy\<close> are steps of their own on either side of it, and \<open>ApplyMinAgentBuild\<close>,
  which takes none, is also modelled at the granularity of its loads and its exchange. The text of a
  stored audit timestamp is read back as the instant it was written for, which Go's RFC 3339 grants in
  the years 1 to 9999; a clock beyond them is outside the model.

  Bounds. Integers are unbounded where the code has \<open>int\<close> counters, ids and priorities;
  numbers parsed from text respect the 64-bit range of \<open>strconv\<close>, and a difference of times
  saturates as \<open>time.Sub\<close> does. Case folding and white space are ASCII. Sorting is the
  insertion sort Go uses up to twenty elements; under a strict weak order every stable sort gives
  the same list. A packet holds at most 65520 bytes with its prefix and a refusal's sideband
  chunks are those of the code; the push gate's queue has its 64 slots of at most 65536 bytes,
  and its steps are enabled or not, so no fuel is involved. The gate's loop of \<open>Gate\<close> takes fuel, and one unit more than the plan has pending tasks is
  proved to be enough; the trigger search, the search for an unused id and the merging loop of
  \<open>aggregate\<close> are total functions with termination proofs. A lease lives 60 s and is beaten every 20 s
  by default; an append tries ten times; a gap row names 64 actions and one other, and 16
  processes. A cluster member lives 20 s after a beat; a bus read returns 512 events, a queue holds
  8192, a claim tries three times. A rule set has at most 256 ranges a list, 64 ports and 16 resolvers; addresses are
  32 and 128 bit words and ports 16 bit words.

  Texts of addresses. A firewall field is a datatype of what Go's parsers make of its text, so a
  range printed and parsed again is itself; lists the code sorts as text are sorted by address.
  Sentences, reasons and notes are datatypes of what they say.

  Parameters. Of the lease and the trail: whether a process is alive, the faults of the database
  driver, the JSON text of a payload; the account of losses is that of one process and its writers.
  Of the firewall: the stored rules (\<open>RuleSource\<close>), and which pods a cluster's selector picks; what a
  cluster makes of a NetworkPolicy (\<open>np_allows\<close>) is Kubernetes' documented meaning of one. Of the hub
  cluster: what probes answer, clocks, and what the JSON of a run claim decodes to.

  Not modelled: text shown to a reader (console lines, sentences of errors), prompts, the
  provider and the shell (parameters), the time-zone database (a parameter), SQL, files, network
  and subprocesses. Of the git proxy: routing, the upstream request, and the pack parser
  and secret matcher of the scan, whose findings are the scan's choice of action; the body a push
  is parsed from is the one after decompression and the size cap, given with how it ends. Of
  authorization: the stores behind the runtime bindings and the directory, whose contents are
  arguments. Of the firewall: the nftables text and its installation, log tags, the explanation of a
  decision, fingerprints, the transactions of the dashboard that save a level, and the egress broker.
  Of the audit trail: signatures, checkpoints, merging and export. Of quotas: the views of the admin
  panel, and rounding of \<open>float64\<close> sums, which the model takes as rationals. Of the hub cluster: the
  signed peer channel, the tickers and goroutines that call the modelled operations, leader duties and
  the hooks they run.
\<close>

end
